(* ===== verification/Prelude.thy ===== *)
theory Prelude
  imports Main "HOL-Library.Signed_Division"
begin

text \<open>
  Shared vocabulary of the development: the byte classes of the C locale that the lexers of
  the repository use, the scanning loop \<open>while (cursor < size && P(input[cursor])) ++cursor\<close>,
  and the generic list facts that the component theories rely on.

  A C++ \<open>char\<close> is an Isabelle \<^typ>\<open>char\<close> (one byte), a \<open>std::string\<close> or
  \<open>std::string_view\<close> is a \<^typ>\<open>string\<close>.  \<open>std::isdigit\<close> and its kin are the ones of
  the C locale, on the byte read as an \<open>unsigned char\<close>.
\<close>

named_theorems byte_simps \<open>unfolding of the byte classes\<close>

type_synonym byte_class = "char \<Rightarrow> bool"

abbreviation byte :: "char \<Rightarrow> nat" where
  "byte c \<equiv> of_char c"

definition isdigit :: byte_class where
  [byte_simps]: "isdigit c \<longleftrightarrow> 48 \<le> byte c \<and> byte c \<le> 57"

definition isupper :: byte_class where
  [byte_simps]: "isupper c \<longleftrightarrow> 65 \<le> byte c \<and> byte c \<le> 90"

definition islower :: byte_class where
  [byte_simps]: "islower c \<longleftrightarrow> 97 \<le> byte c \<and> byte c \<le> 122"

definition isalpha :: byte_class where
  [byte_simps]: "isalpha c \<longleftrightarrow> isupper c \<or> islower c"

definition isalnum :: byte_class where
  [byte_simps]: "isalnum c \<longleftrightarrow> isalpha c \<or> isdigit c"

definition isspace :: byte_class where
  [byte_simps]: "isspace c \<longleftrightarrow> byte c = 32 \<or> (9 \<le> byte c \<and> byte c \<le> 13)"

definition tolower :: "char \<Rightarrow> char" where
  [byte_simps]: "tolower c = (if isupper c then char_of (byte c + 32) else c)"

abbreviation digit_value :: "char \<Rightarrow> nat" where
  "digit_value c \<equiv> byte c - 48"

definition digit_char :: "nat \<Rightarrow> char" where
  "digit_char d = char_of (48 + d)"

abbreviation BACKSLASH :: char where "BACKSLASH \<equiv> CHR 0x5C"
abbreviation QUOTE :: char where "QUOTE \<equiv> CHR 0x22"
abbreviation NEWLINE :: char where "NEWLINE \<equiv> CHR 0x0A"
abbreviation RETURN :: char where "RETURN \<equiv> CHR 0x0D"
abbreviation TAB :: char where "TAB \<equiv> CHR 0x09"

text \<open>\<open>skip_while P i s\<close> is the cursor after \<open>while (i < s.size() && P(s[i])) ++i\<close>.\<close>

definition skip_while :: "byte_class \<Rightarrow> nat \<Rightarrow> string \<Rightarrow> nat" where
  "skip_while P i s = i + length (takeWhile P (drop i s))"

text \<open>\<open>char_at s i\<close> is \<open>s[i]\<close> guarded by \<open>i < s.size()\<close>, the shape of every read below.\<close>

definition char_at :: "string \<Rightarrow> nat \<Rightarrow> char option" where
  "char_at s i = (if i < length s then Some (s ! i) else None)"

definition class_at :: "byte_class \<Rightarrow> string \<Rightarrow> nat \<Rightarrow> bool" where
  "class_at P s i \<longleftrightarrow> i < length s \<and> P (s ! i)"

subsection \<open>Chains of early returns\<close>

text \<open>Walks one \<open>if (b) return x;\<close> of a chain whose result is known.\<close>

lemma if_eqE:
  assumes "(if b then x else y) = r"
  obtains "b" "x = r" | "\<not> b" "y = r"
  using assms by (auto split: if_splits)

subsection \<open>Facts about the byte classes\<close>

lemma byte_less: "byte c < 256"
  by simp

lemma isdigit_not_alpha: "isdigit c \<Longrightarrow> \<not> isalpha c"
  by (auto simp: byte_simps)

lemma isdigit_digit_char [simp]: "d < 10 \<Longrightarrow> isdigit (digit_char d)"
  by (simp add: isdigit_def digit_char_def)

lemma digit_value_digit_char [simp]: "d < 10 \<Longrightarrow> digit_value (digit_char d) = d"
  by (simp add: digit_char_def)

lemma isdigit_digit_value: "isdigit c \<Longrightarrow> digit_value c < 10"
  by (auto simp: isdigit_def)

lemma digit_char_digit_value: "isdigit c \<Longrightarrow> digit_char (digit_value c) = c"
  by (simp add: isdigit_def digit_char_def)

subsection \<open>Facts about the scanning loop\<close>

lemma skip_while_ge: "i \<le> skip_while P i s"
  by (simp add: skip_while_def)

lemma skip_while_le: "i \<le> length s \<Longrightarrow> skip_while P i s \<le> length s"
  using length_takeWhile_le [of P "drop i s"] by (simp add: skip_while_def)

lemma skip_while_0: "skip_while P 0 s = length (takeWhile P s)"
  by (simp add: skip_while_def)

lemma skip_while_append:
  assumes "i + length ds \<le> length s" "take (length ds) (drop i s) = ds" "\<forall>c\<in>set ds. P c"
    and "i + length ds < length s \<Longrightarrow> \<not> P (s ! (i + length ds))"
  shows "skip_while P i s = i + length ds"
proof -
  have split: "drop i s = ds @ drop (i + length ds) s"
    using assms(2) by (metis append_take_drop_id drop_drop add.commute)
  have "takeWhile P (drop (i + length ds) s) = []"
  proof (cases "i + length ds < length s")
    case True
    then show ?thesis
      using assms(4) by (simp add: Cons_nth_drop_Suc [symmetric])
  qed simp
  then show ?thesis
    using assms(3) by (simp add: skip_while_def split)
qed

lemma takeWhile_prefix: "list_all P k \<Longrightarrow> r = [] \<or> \<not> P (hd r) \<Longrightarrow> takeWhile P (k @ r) = k \<and> dropWhile P (k @ r) = r"
  by (induction k) (cases r; auto)+

end
