(* ===== verification/Interner.thy ===== *)
theory Interner
  imports Prelude
begin

text \<open>
  The contract shared by the two append-only string tables of the library, \<open>KeyIndex\<close>
  (\<open>library/src/key_index.cpp\<close>) and \<open>EnumDictionary\<close> (\<open>library/src/enum_dictionary.cpp\<close>):
  an insert returns the id of the string, an id once given out stays, and an id resolves to
  the string it was given out for.  The facts about sequences of inserts are proved here once
  and reach both tables by interpretation.
\<close>

text \<open>Every string of the sequence finds room when its turn comes.\<close>

fun room_for :: "(string \<Rightarrow> 's \<Rightarrow> bool) \<Rightarrow> (string \<Rightarrow> 's \<Rightarrow> 's) \<Rightarrow> string list \<Rightarrow> 's \<Rightarrow> bool" where
  "room_for ok ins [] s \<longleftrightarrow> True"
| "room_for ok ins (k # ks) s \<longleftrightarrow> ok k s \<and> room_for ok ins ks (ins k s)"

lemma room_for_always: "(\<And>k s. ok k s) \<Longrightarrow> room_for ok ins ks s"
  by (induction ks arbitrary: s) auto

locale interner =
  fixes inv :: "'s \<Rightarrow> bool"
    and ok :: "string \<Rightarrow> 's \<Rightarrow> bool"
    and lookup :: "'s \<Rightarrow> string \<Rightarrow> 'id option"
    and resolve :: "'s \<Rightarrow> 'id \<Rightarrow> string option"
    and insert_str :: "string \<Rightarrow> 's \<Rightarrow> 's"
  assumes inv_insert: "inv s \<Longrightarrow> ok k s \<Longrightarrow> inv (insert_str k s)"
    and lookup_stable: "inv s \<Longrightarrow> ok k s \<Longrightarrow> lookup s k' = Some i \<Longrightarrow> lookup (insert_str k s) k' = Some i"
    and lookup_resolve: "inv s \<Longrightarrow> lookup s k = Some i \<longleftrightarrow> resolve s i = Some k"
    and insert_other: "inv s \<Longrightarrow> ok k s \<Longrightarrow> k' \<noteq> k \<Longrightarrow> lookup s k' = None \<Longrightarrow>
      lookup (insert_str k s) k' = None"
begin

abbreviation inserts :: "string list \<Rightarrow> 's \<Rightarrow> 's" where
  "inserts \<equiv> fold insert_str"

abbreviation room :: "string list \<Rightarrow> 's \<Rightarrow> bool" where
  "room \<equiv> room_for ok insert_str"

lemma inv_inserts: "inv s \<Longrightarrow> room ks s \<Longrightarrow> inv (inserts ks s)"
  by (induction ks arbitrary: s) (auto intro: inv_insert)

lemma lookup_inserts: "inv s \<Longrightarrow> room ks s \<Longrightarrow> lookup s k = Some i \<Longrightarrow> lookup (inserts ks s) k = Some i"
  by (induction ks arbitrary: s) (auto intro: inv_insert lookup_stable)

lemma resolve_inserts: "inv s \<Longrightarrow> room ks s \<Longrightarrow> resolve s i = Some k \<Longrightarrow> resolve (inserts ks s) i = Some k"
  using lookup_inserts inv_inserts by (simp add: lookup_resolve [symmetric])

lemma lookup_inj: "inv s \<Longrightarrow> lookup s k = Some i \<Longrightarrow> lookup s k' = Some i \<Longrightarrow> k = k'"
  by (simp add: lookup_resolve)

lemma lookup_inserts_other:
  "inv s \<Longrightarrow> room ks s \<Longrightarrow> k \<notin> set ks \<Longrightarrow> lookup s k = None \<Longrightarrow> lookup (inserts ks s) k = None"
proof (induction ks arbitrary: s)
  case (Cons a ks)
  then show ?case using insert_other [of s a k] inv_insert [of s a] by simp
qed simp

lemma new_id_unknown_string:
  assumes "inv s" "room ks s" "resolve s i = None" "resolve (inserts ks s) i = Some k"
  shows "lookup s k = None"
proof (cases "lookup s k")
  case (Some j)
  then have "lookup (inserts ks s) k = Some j" using lookup_inserts assms(1,2) by blast
  moreover have "lookup (inserts ks s) k = Some i"
    using assms inv_inserts lookup_resolve by blast
  ultimately show ?thesis using Some assms(1,3) lookup_resolve by force
qed simp

end

end
