(* ===== verification/Key_Index.thy ===== *)
theory Key_Index
  imports Interner "HOL-Library.Word" "HOL-Library.List_Lexorder" "HOL-Library.Char_ord"
begin

text \<open>
  \<open>library/src/key_index.cpp\<close>: the sharded, append-only dictionary of field keys.  The
  shards are a list of \<open>SHARD_COUNT\<close> maps; \<open>hash\<close> stands for \<open>std::hash<string_view>\<close>,
  whose values the standard leaves open.  Each of the two critical sections of
  \<open>GetOrInsert\<close> (the probe under the shared lock, the insert under both unique locks) is one
  definition, so that the interleavings of threads are the orders of these steps.
\<close>

type_synonym KeyId = "32 word"

definition INVALID_KEY_ID :: KeyId where
  "INVALID_KEY_ID = - 1"

definition SHARD_COUNT :: nat where
  "SHARD_COUNT = 16"

record KeyIndex =
  shards :: "(string \<rightharpoonup> KeyId) list"
  reverse_keys :: "string list"
  key_count :: nat

definition empty_KeyIndex :: KeyIndex where
  "empty_KeyIndex = \<lparr>shards = replicate SHARD_COUNT Map.empty, reverse_keys = [], key_count = 0\<rparr>"

definition ShardIndex :: "(string \<Rightarrow> 64 word) \<Rightarrow> string \<Rightarrow> nat" where
  "ShardIndex hash key = unat (and (hash key) 15)"

text \<open>The probe of the shard's map under its shared lock.\<close>

definition probe :: "(string \<Rightarrow> 64 word) \<Rightarrow> string \<Rightarrow> KeyIndex \<Rightarrow> KeyId option" where
  "probe hash key ki = (shards ki ! ShardIndex hash key) key"

text \<open>The section under both unique locks: probe again, else append and publish.\<close>

definition locked_insert :: "(string \<Rightarrow> 64 word) \<Rightarrow> string \<Rightarrow> KeyIndex \<Rightarrow> KeyId \<times> KeyIndex" where
  "locked_insert hash key ki =
     (case probe hash key ki of
        Some kid \<Rightarrow> (kid, ki)
      | None \<Rightarrow>
          let kid = word_of_nat (length (reverse_keys ki));
              rev' = reverse_keys ki @ [key];
              i = ShardIndex hash key
          in (kid, \<lparr>shards = (shards ki)[i := (shards ki ! i)(key \<mapsto> kid)],
                   reverse_keys = rev', key_count = length rev'\<rparr>))"

definition GetOrInsert :: "(string \<Rightarrow> 64 word) \<Rightarrow> string \<Rightarrow> KeyIndex \<Rightarrow> KeyId \<times> KeyIndex" where
  "GetOrInsert hash key ki =
     (case probe hash key ki of Some kid \<Rightarrow> (kid, ki) | None \<Rightarrow> locked_insert hash key ki)"

definition Find_key :: "(string \<Rightarrow> 64 word) \<Rightarrow> string \<Rightarrow> KeyIndex \<Rightarrow> KeyId" where
  "Find_key hash key ki = (case probe hash key ki of Some kid \<Rightarrow> kid | None \<Rightarrow> INVALID_KEY_ID)"

text \<open>\<open>KeyOf\<close> is undefined out of range; the model makes that \<open>None\<close>.\<close>

definition KeyOf :: "KeyId \<Rightarrow> KeyIndex \<Rightarrow> string option" where
  "KeyOf kid ki = (if unat kid < length (reverse_keys ki) then Some (reverse_keys ki ! unat kid) else None)"

definition Size_keys :: "KeyIndex \<Rightarrow> nat" where
  "Size_keys ki = key_count ki"

definition SortedKeys :: "KeyIndex \<Rightarrow> string list" where
  "SortedKeys ki = sort (reverse_keys ki)"

subsection \<open>Invariant\<close>

text \<open>
  The shards and the reverse table are inverse to each other; the bound on the number of keys
  is the assertion of the insert section (no id reaches \<open>INVALID_KEY_ID\<close>).
\<close>

definition key_inv :: "(string \<Rightarrow> 64 word) \<Rightarrow> KeyIndex \<Rightarrow> bool" where
  "key_inv hash ki \<longleftrightarrow>
     length (shards ki) = SHARD_COUNT \<and> key_count ki = length (reverse_keys ki) \<and>
     length (reverse_keys ki) < 2 ^ 32 \<and>
     (\<forall>key kid. probe hash key ki = Some kid \<longleftrightarrow> KeyOf kid ki = Some key)"

lemma key_inv_probe: "key_inv hash ki \<Longrightarrow> probe hash key ki = Some kid \<longleftrightarrow> KeyOf kid ki = Some key"
  unfolding key_inv_def by blast

lemma ShardIndex_less: "ShardIndex hash key < SHARD_COUNT"
proof -
  have "unat (and (hash key) 15) \<le> unat (15 :: 64 word)"
    by (rule word_le_nat_alt [THEN iffD1]) (rule word_and_le1)
  then show ?thesis by (simp add: ShardIndex_def SHARD_COUNT_def)
qed

lemma key_inv_empty: "key_inv hash empty_KeyIndex"
  using ShardIndex_less [of hash]
  by (simp add: key_inv_def empty_KeyIndex_def probe_def KeyOf_def)

lemma unat_length_id: "n < 2 ^ 32 \<Longrightarrow> unat (word_of_nat n :: KeyId) = n"
  by (simp add: unat_of_nat)

lemma probe_locked_insert:
  assumes "key_inv hash ki" "probe hash key ki = None"
  shows "probe hash k (snd (locked_insert hash key ki)) =
    (if k = key then Some (word_of_nat (length (reverse_keys ki))) else probe hash k ki)"
  using assms ShardIndex_less [of hash key] ShardIndex_less [of hash k]
  by (auto simp: locked_insert_def probe_def key_inv_def Let_def nth_list_update)

lemma key_inv_locked_insert:
  assumes inv: "key_inv hash ki" and cap: "length (reverse_keys ki) < 2 ^ 32 - 1"
  shows "key_inv hash (snd (locked_insert hash key ki))"
proof (cases "probe hash key ki")
  case (Some kid)
  then show ?thesis using inv by (simp add: locked_insert_def)
next
  case None
  let ?n = "length (reverse_keys ki)" and ?ki = "snd (locked_insert hash key ki)"
  have rev: "reverse_keys ?ki = reverse_keys ki @ [key]"
    using None by (simp add: locked_insert_def Let_def)
  have n: "unat (word_of_nat ?n :: KeyId) = ?n" using cap by (intro unat_length_id) simp
  have "probe hash k ?ki = Some kid \<longleftrightarrow> KeyOf kid ?ki = Some k" for k kid
  proof (cases "kid = word_of_nat ?n")
    case True
    have "KeyOf kid ki = None" using True n by (simp add: KeyOf_def)
    then have "probe hash k ki \<noteq> Some kid" by (simp add: key_inv_probe [OF inv])
    then show ?thesis using True n by (auto simp: probe_locked_insert [OF inv None] KeyOf_def rev)
  next
    case False
    then have "unat kid \<noteq> ?n" using n by (auto simp: word_unat_eq_iff)
    then have "KeyOf kid ?ki = KeyOf kid ki" by (auto simp: KeyOf_def rev nth_append)
    moreover have "KeyOf kid ki \<noteq> Some key" using None by (simp add: key_inv_probe [OF inv, symmetric])
    ultimately show ?thesis
      using False by (auto simp: probe_locked_insert [OF inv None] key_inv_probe [OF inv])
  qed
  moreover have "length (shards ?ki) = SHARD_COUNT" "key_count ?ki = length (reverse_keys ?ki)"
    "length (reverse_keys ?ki) < 2 ^ 32"
    using None inv cap by (simp_all add: locked_insert_def Let_def key_inv_def rev)
  ultimately show ?thesis by (auto simp: key_inv_def)
qed

lemma probe_GetOrInsert:
  assumes "key_inv hash ki"
  shows "probe hash key (snd (GetOrInsert hash key ki)) = Some (fst (GetOrInsert hash key ki))"
    and "k \<noteq> key \<Longrightarrow> probe hash k (snd (GetOrInsert hash key ki)) = probe hash k ki"
    and "probe hash k ki = Some j \<Longrightarrow> probe hash k (snd (GetOrInsert hash key ki)) = Some j"
  using probe_locked_insert [OF assms, of key]
  by (auto simp: GetOrInsert_def locked_insert_def Let_def split: option.splits)

definition key_room :: "(string \<Rightarrow> 64 word) \<Rightarrow> string \<Rightarrow> KeyIndex \<Rightarrow> bool" where
  "key_room hash key ki \<longleftrightarrow> probe hash key ki \<noteq> None \<or> length (reverse_keys ki) < 2 ^ 32 - 1"

lemma key_inv_GetOrInsert:
  "key_inv hash ki \<Longrightarrow> key_room hash key ki \<Longrightarrow> key_inv hash (snd (GetOrInsert hash key ki))"
  using key_inv_locked_insert by (auto simp: GetOrInsert_def key_room_def split: option.splits)

interpretation keys: interner "key_inv hash" "key_room hash" "\<lambda>ki k. probe hash k ki" "\<lambda>ki i. KeyOf i ki"
    "\<lambda>k ki. snd (GetOrInsert hash k ki)"
  for hash
  by unfold_locales (auto simp: key_inv_GetOrInsert probe_GetOrInsert key_inv_probe)

subsection \<open>Concurrent inserts\<close>

text \<open>
  A thread that runs \<open>GetOrInsert key\<close> first probes, then, if the probe missed, enters the
  locked section; other threads run between the two.  \<open>TProbed\<close> is a thread that has missed,
  \<open>TDone\<close> one that has returned.
\<close>

datatype thread = TStart string | TProbed string | TDone string KeyId

inductive key_step :: "(string \<Rightarrow> 64 word) \<Rightarrow> KeyIndex \<times> thread list \<Rightarrow> KeyIndex \<times> thread list \<Rightarrow> bool"
  for hash where
  hit: "t < length ts \<Longrightarrow> ts ! t = TStart key \<Longrightarrow> probe hash key ki = Some i \<Longrightarrow>
    key_step hash (ki, ts) (ki, ts[t := TDone key i])"
| miss: "t < length ts \<Longrightarrow> ts ! t = TStart key \<Longrightarrow> probe hash key ki = None \<Longrightarrow>
    key_step hash (ki, ts) (ki, ts[t := TProbed key])"
| insert: "t < length ts \<Longrightarrow> ts ! t = TProbed key \<Longrightarrow> key_room hash key ki \<Longrightarrow>
    locked_insert hash key ki = (i, ki') \<Longrightarrow> key_step hash (ki, ts) (ki', ts[t := TDone key i])"

definition threads_ok :: "(string \<Rightarrow> 64 word) \<Rightarrow> KeyIndex \<times> thread list \<Rightarrow> bool" where
  "threads_ok hash st \<longleftrightarrow> key_inv hash (fst st) \<and>
     (\<forall>key i. TDone key i \<in> set (snd st) \<longrightarrow> probe hash key (fst st) = Some i)"

lemma locked_insert_is_GetOrInsert: "locked_insert hash key ki = GetOrInsert hash key ki"
  by (auto simp: GetOrInsert_def locked_insert_def split: option.split)

lemma threads_ok_step: "key_step hash st st' \<Longrightarrow> threads_ok hash st \<Longrightarrow> threads_ok hash st'"
proof (induction rule: key_step.induct)
  case (hit t ts key ki i)
  then show ?case by (auto simp: threads_ok_def dest: set_update_subset_insert [THEN subsetD])
next
  case (miss t ts key ki)
  then show ?case by (auto simp: threads_ok_def dest: set_update_subset_insert [THEN subsetD])
next
  case (insert t ts key ki i ki')
  have inv: "key_inv hash ki" and fin: "\<And>k j. TDone k j \<in> set ts \<Longrightarrow> probe hash k ki = Some j"
    using insert.prems by (auto simp: threads_ok_def)
  have eq: "GetOrInsert hash key ki = (i, ki')" using insert.hyps by (simp add: locked_insert_is_GetOrInsert)
  have "key_inv hash ki'" using key_inv_GetOrInsert [OF inv insert.hyps(3)] eq by simp
  moreover have "probe hash k ki' = Some j" if "TDone k j \<in> set (ts[t := TDone key i])" for k j
  proof -
    have "TDone k j = TDone key i \<or> TDone k j \<in> set ts"
      using that set_update_subset_insert [of ts t "TDone key i"] by blast
    then show ?thesis using probe_GetOrInsert(1,3) [OF inv, where key = key] eq fin [of k j] by auto
  qed
  ultimately show ?case by (simp add: threads_ok_def)
qed

lemma threads_ok_steps: "(key_step hash)\<^sup>*\<^sup>* st st' \<Longrightarrow> threads_ok hash st \<Longrightarrow> threads_ok hash st'"
  by (induction rule: rtranclp_induct) (auto intro: threads_ok_step)

end
