(* ===== verification/Enum_Dictionary.thy ===== *)
theory Enum_Dictionary
  imports Key_Index
begin

text \<open>
  \<open>library/src/enum_dictionary.cpp\<close> and its header: the per-column dictionary of distinct
  values with its cap, and the registry from keys to dictionaries with alias keys.  A pointer
  to a dictionary is the canonical key that owns it.
\<close>

type_synonym EnumValueId = "16 word"

definition INVALID_ENUM_VALUE_ID :: EnumValueId where
  "INVALID_ENUM_VALUE_ID = - 1"

definition MAX_ENUM_VALUES :: "16 word" where
  "MAX_ENUM_VALUES = 1024"

definition DEFAULT_ENUM_VALUE_CAP :: "16 word" where
  "DEFAULT_ENUM_VALUE_CAP = 64"

record EnumDictionary =
  mValues :: "string list"
  mIndex :: "string \<rightharpoonup> EnumValueId"
  mCap :: "16 word"

text \<open>The constructor clamps the cap to \<open>[1, MAX_ENUM_VALUES]\<close>.\<close>

definition new_EnumDictionary :: "16 word \<Rightarrow> EnumDictionary" where
  "new_EnumDictionary cap = \<lparr>mValues = [], mIndex = Map.empty, mCap = min (max cap 1) MAX_ENUM_VALUES\<rparr>"

definition dict_Find :: "EnumDictionary \<Rightarrow> string \<Rightarrow> EnumValueId" where
  "dict_Find d bytes = (case mIndex d bytes of None \<Rightarrow> INVALID_ENUM_VALUE_ID | Some i \<Rightarrow> i)"

definition dict_Full :: "EnumDictionary \<Rightarrow> bool" where
  "dict_Full d \<longleftrightarrow> length (mValues d) \<ge> unat (mCap d)"

definition dict_Size :: "EnumDictionary \<Rightarrow> 16 word" where
  "dict_Size d = word_of_nat (length (mValues d))"

definition dict_Insert :: "string \<Rightarrow> EnumDictionary \<Rightarrow> EnumValueId \<times> EnumDictionary" where
  "dict_Insert bytes d =
     (let existing = dict_Find d bytes
      in if existing \<noteq> INVALID_ENUM_VALUE_ID then (existing, d)
         else if dict_Full d then (INVALID_ENUM_VALUE_ID, d)
         else let i = word_of_nat (length (mValues d))
              in (i, d\<lparr>mValues := mValues d @ [bytes], mIndex := (mIndex d)(bytes \<mapsto> i)\<rparr>))"

definition dict_Resolve :: "EnumDictionary \<Rightarrow> EnumValueId \<Rightarrow> string" where
  "dict_Resolve d i = (if unat i \<ge> length (mValues d) then [] else mValues d ! unat i)"

definition dict_Clear :: "EnumDictionary \<Rightarrow> EnumDictionary" where
  "dict_Clear d = d\<lparr>mValues := [], mIndex := Map.empty\<rparr>"

subsection \<open>Invariant of a dictionary\<close>

definition dict_inv :: "EnumDictionary \<Rightarrow> bool" where
  "dict_inv d \<longleftrightarrow>
     1 \<le> unat (mCap d) \<and> unat (mCap d) \<le> 1024 \<and> length (mValues d) \<le> unat (mCap d) \<and>
     (\<forall>s i. mIndex d s = Some i \<longleftrightarrow> unat i < length (mValues d) \<and> mValues d ! unat i = s)"

lemma dict_inv_new: "dict_inv (new_EnumDictionary cap)"
proof -
  have "unat (min (max cap 1) (1024 :: 16 word)) = min (max (unat cap) 1) 1024"
    by (simp add: min_def max_def word_le_nat_alt)
  then show ?thesis by (simp add: dict_inv_def new_EnumDictionary_def MAX_ENUM_VALUES_def)
qed

lemma dict_inv_Clear: "dict_inv d \<Longrightarrow> dict_inv (dict_Clear d)"
  by (simp add: dict_inv_def dict_Clear_def)

lemma unat_invalid: "unat INVALID_ENUM_VALUE_ID = 65535"
  by (simp add: INVALID_ENUM_VALUE_ID_def unsigned_minus_1_eq_mask mask_eq_exp_minus_1)

lemma dict_Find_found:
  assumes "dict_inv d"
  shows "dict_Find d s = INVALID_ENUM_VALUE_ID \<longleftrightarrow> mIndex d s = None"
proof (cases "mIndex d s")
  case (Some i)
  then have "unat i < 1024" using assms by (auto simp: dict_inv_def)
  then have "i \<noteq> INVALID_ENUM_VALUE_ID" using unat_invalid by auto
  with Some show ?thesis by (simp add: dict_Find_def)
qed (simp add: dict_Find_def)

lemma unat_new_id: "dict_inv d \<Longrightarrow> unat (word_of_nat (length (mValues d)) :: EnumValueId) = length (mValues d)"
  by (simp add: unat_of_nat dict_inv_def)

lemma dict_Insert_cases:
  assumes "dict_inv d"
  obtains (known) i where "mIndex d s = Some i" "dict_Insert s d = (i, d)"
    | (full) "mIndex d s = None" "dict_Full d" "dict_Insert s d = (INVALID_ENUM_VALUE_ID, d)"
    | (fresh) "mIndex d s = None" "\<not> dict_Full d"
        "dict_Insert s d = (word_of_nat (length (mValues d)),
           d\<lparr>mValues := mValues d @ [s], mIndex := (mIndex d)(s \<mapsto> word_of_nat (length (mValues d)))\<rparr>)"
proof (cases "mIndex d s")
  case None
  then have "dict_Find d s = INVALID_ENUM_VALUE_ID" using dict_Find_found [OF assms] by blast
  with None full fresh show thesis by (cases "dict_Full d") (auto simp: dict_Insert_def Let_def)
next
  case (Some i)
  moreover have "dict_Find d s \<noteq> INVALID_ENUM_VALUE_ID" using Some dict_Find_found [OF assms] by simp
  ultimately show thesis using known by (auto simp: dict_Insert_def dict_Find_def)
qed

lemma dict_inv_Insert:
  assumes inv: "dict_inv d"
  shows "dict_inv (snd (dict_Insert s d))"
  using inv
proof (cases rule: dict_Insert_cases [where s = s])
  case fresh
  let ?n = "length (mValues d)"
  have n: "unat (word_of_nat ?n :: EnumValueId) = ?n" by (rule unat_new_id [OF inv])
  have "((mIndex d)(s \<mapsto> word_of_nat ?n)) t = Some i \<longleftrightarrow>
      unat i < length (mValues d @ [s]) \<and> (mValues d @ [s]) ! unat i = t" for t i
  proof (cases "unat i = ?n")
    case True
    then have i: "i = word_of_nat ?n" using n by (simp add: word_unat_eq_iff)
    have "mIndex d t \<noteq> Some i" using inv True by (auto simp: dict_inv_def)
    then show ?thesis using True i n by auto
  next
    case False
    then have "i \<noteq> word_of_nat ?n" using n by auto
    moreover have "mIndex d s \<noteq> Some i" using fresh by simp
    ultimately show ?thesis using inv False by (auto simp: dict_inv_def nth_append)
  qed
  then show ?thesis using fresh inv by (auto simp: dict_inv_def dict_Full_def)
qed (use inv in simp_all)

definition dict_lookup :: "EnumDictionary \<Rightarrow> EnumValueId \<Rightarrow> string option" where
  "dict_lookup d i = (if unat i < length (mValues d) then Some (dict_Resolve d i) else None)"

interpretation dict: interner dict_inv "\<lambda>_ _. True" mIndex dict_lookup "\<lambda>s d. snd (dict_Insert s d)"
proof
  fix d s s' i
  assume inv: "dict_inv d"
  show "dict_inv (snd (dict_Insert s d))" by (rule dict_inv_Insert [OF inv])
  show "mIndex d s = Some i \<longleftrightarrow> dict_lookup d i = Some s"
    using inv by (auto simp: dict_inv_def dict_lookup_def dict_Resolve_def)
  show "mIndex d s' = Some i \<Longrightarrow> mIndex (snd (dict_Insert s d)) s' = Some i"
    by (cases rule: dict_Insert_cases [OF inv, of s]) auto
  show "s' \<noteq> s \<Longrightarrow> mIndex d s' = None \<Longrightarrow> mIndex (snd (dict_Insert s d)) s' = None"
    by (cases rule: dict_Insert_cases [OF inv, of s]) auto
qed

lemma dict_Resolve_known: "dict_inv d \<Longrightarrow> mIndex d s = Some i \<Longrightarrow> dict_Resolve d i = s"
  by (auto simp: dict_inv_def dict_Resolve_def)

lemma dict_Insert_resolves:
  assumes "dict_inv d" "dict_Insert s d = (i, d')" "i \<noteq> INVALID_ENUM_VALUE_ID"
  shows "dict_Resolve d' i = s" "dict_Find d' s = i"
proof -
  have "mIndex d' s = Some i"
    using assms(2,3) by (cases rule: dict_Insert_cases [OF assms(1), of s]) auto
  moreover have "dict_inv d'" using dict_inv_Insert [OF assms(1), of s] assms(2) by simp
  ultimately show "dict_Resolve d' i = s" "dict_Find d' s = i"
    by (simp_all add: dict_Resolve_known dict_Find_def)
qed

lemma dict_inserts_mono:
  assumes "dict_inv d"
  shows "length (mValues d) \<le> length (mValues (fold (\<lambda>s d. snd (dict_Insert s d)) ks d))"
  using assms
proof (induction ks arbitrary: d)
  case (Cons k ks)
  have "length (mValues d) \<le> length (mValues (snd (dict_Insert k d)))"
    by (cases rule: dict_Insert_cases [OF Cons.prems, of k]) auto
  also have "\<dots> \<le> length (mValues (fold (\<lambda>s d. snd (dict_Insert s d)) ks (snd (dict_Insert k d))))"
    by (rule Cons.IH [OF dict_inv_Insert [OF Cons.prems]])
  finally show ?case by simp
qed simp

section \<open>The registry\<close>

record DictionaryEntry =
  entry_dict :: EnumDictionary
  aliases :: "KeyId list"

text \<open>\<open>mIndex\<close> of the registry: each key to the canonical key whose dictionary it uses.\<close>

record EnumDictionaryRegistry =
  mDictionaries :: "KeyId \<rightharpoonup> DictionaryEntry"
  mRegIndex :: "KeyId \<rightharpoonup> KeyId"

definition empty_registry :: EnumDictionaryRegistry where
  "empty_registry = \<lparr>mDictionaries = Map.empty, mRegIndex = Map.empty\<rparr>"

definition reg_Contains :: "EnumDictionaryRegistry \<Rightarrow> KeyId \<Rightarrow> bool" where
  "reg_Contains r key \<longleftrightarrow> mRegIndex r key \<noteq> None"

definition reg_Find :: "EnumDictionaryRegistry \<Rightarrow> KeyId \<Rightarrow> EnumDictionary option" where
  "reg_Find r key =
     (case mRegIndex r key of None \<Rightarrow> None
      | Some c \<Rightarrow> map_option entry_dict (mDictionaries r c))"

text \<open>The reference that \<open>GetOrInsert\<close> returns is the canonical key.\<close>

definition reg_GetOrInsert ::
    "KeyId \<Rightarrow> 16 word \<Rightarrow> EnumDictionaryRegistry \<Rightarrow> KeyId \<times> EnumDictionaryRegistry" where
  "reg_GetOrInsert key cap r =
     (case mRegIndex r key of
        Some c \<Rightarrow> (c, r)
      | None \<Rightarrow>
          (key, r\<lparr>mDictionaries := (mDictionaries r)(key \<mapsto> \<lparr>entry_dict = new_EnumDictionary cap, aliases = [key]\<rparr>),
                  mRegIndex := (mRegIndex r)(key \<mapsto> key)\<rparr>))"

definition reg_Alias :: "KeyId \<Rightarrow> KeyId \<Rightarrow> EnumDictionaryRegistry \<Rightarrow> bool \<times> EnumDictionaryRegistry" where
  "reg_Alias canonical al r =
     (if canonical = al then (True, r)
      else case mDictionaries r canonical of
        None \<Rightarrow> (False, r)
      | Some entry \<Rightarrow>
          (case mRegIndex r al of
             Some c \<Rightarrow> (c = canonical, r)
           | None \<Rightarrow>
               if mDictionaries r al \<noteq> None then (False, r)
               else (True, r\<lparr>mRegIndex := (mRegIndex r)(al \<mapsto> canonical),
                             mDictionaries := (mDictionaries r)(canonical \<mapsto>
                               entry\<lparr>aliases := aliases entry @ [al]\<rparr>)\<rparr>)))"

definition reg_Erase :: "KeyId \<Rightarrow> EnumDictionaryRegistry \<Rightarrow> EnumDictionaryRegistry" where
  "reg_Erase canonical r =
     (case mDictionaries r canonical of
        None \<Rightarrow> r
      | Some entry \<Rightarrow>
          r\<lparr>mRegIndex := fold (\<lambda>a m. m(a := None)) (aliases entry) (mRegIndex r),
            mDictionaries := (mDictionaries r)(canonical := None)\<rparr>)"

definition reg_Clear :: "EnumDictionaryRegistry \<Rightarrow> EnumDictionaryRegistry" where
  "reg_Clear r = r\<lparr>mRegIndex := Map.empty, mDictionaries := Map.empty\<rparr>"

text \<open>An insert into a dictionary reached through the registry.\<close>

definition reg_Insert :: "KeyId \<Rightarrow> string \<Rightarrow> EnumDictionaryRegistry \<Rightarrow> EnumValueId \<times> EnumDictionaryRegistry" where
  "reg_Insert key bytes r =
     (case mRegIndex r key of None \<Rightarrow> (INVALID_ENUM_VALUE_ID, r)
      | Some c \<Rightarrow>
          (case mDictionaries r c of None \<Rightarrow> (INVALID_ENUM_VALUE_ID, r)
           | Some entry \<Rightarrow>
               let (i, d) = dict_Insert bytes (entry_dict entry)
               in (i, r\<lparr>mDictionaries := (mDictionaries r)(c \<mapsto> entry\<lparr>entry_dict := d\<rparr>)\<rparr>)))"

subsection \<open>Invariant of the registry\<close>

text \<open>
  The index is exactly the union of the al lists: no key points at an erased dictionary,
  every al list starts from its canonical key, and every dictionary is well formed.
\<close>

definition reg_inv :: "EnumDictionaryRegistry \<Rightarrow> bool" where
  "reg_inv r \<longleftrightarrow>
     (\<forall>key c. mRegIndex r key = Some c \<longleftrightarrow> (\<exists>e. mDictionaries r c = Some e \<and> key \<in> set (aliases e))) \<and>
     (\<forall>c e. mDictionaries r c = Some e \<longrightarrow> c \<in> set (aliases e) \<and> dict_inv (entry_dict e))"

lemma reg_invD:
  assumes "reg_inv r"
  shows "mRegIndex r key = Some c \<longleftrightarrow> (\<exists>e. mDictionaries r c = Some e \<and> key \<in> set (aliases e))"
    and "mDictionaries r c = Some e \<Longrightarrow> c \<in> set (aliases e)"
    and "mDictionaries r c = Some e \<Longrightarrow> dict_inv (entry_dict e)"
  using assms unfolding reg_inv_def by blast+

lemma reg_invI:
  assumes "\<And>key c. mRegIndex r key = Some c \<longleftrightarrow> (\<exists>e. mDictionaries r c = Some e \<and> key \<in> set (aliases e))"
    and "\<And>c e. mDictionaries r c = Some e \<Longrightarrow> c \<in> set (aliases e)"
    and "\<And>c e. mDictionaries r c = Some e \<Longrightarrow> dict_inv (entry_dict e)"
  shows "reg_inv r"
  using assms unfolding reg_inv_def by blast

lemma reg_inv_empty: "reg_inv empty_registry"
  by (simp add: reg_inv_def empty_registry_def)

lemma reg_inv_Clear: "reg_inv (reg_Clear r)"
  by (simp add: reg_inv_def reg_Clear_def)

lemma reg_inv_GetOrInsert:
  assumes inv: "reg_inv r"
  shows "reg_inv (snd (reg_GetOrInsert key cap r))"
proof (cases "mRegIndex r key")
  case None
  let ?r = "snd (reg_GetOrInsert key cap r)" and ?e = "\<lparr>entry_dict = new_EnumDictionary cap, aliases = [key]\<rparr>"
  have r: "mDictionaries ?r = (mDictionaries r)(key \<mapsto> ?e)" "mRegIndex ?r = (mRegIndex r)(key \<mapsto> key)"
    using None by (simp_all add: reg_GetOrInsert_def)
  have none: "key \<notin> set (aliases e)" if "mDictionaries r c = Some e" for c e
    using None that reg_invD(1) [OF inv, of key c] by auto
  have "mDictionaries r key = None"
    using none reg_invD(2) [OF inv, of key] by (cases "mDictionaries r key") auto
  show ?thesis
  proof (rule reg_invI)
    show "mRegIndex ?r k = Some c \<longleftrightarrow> (\<exists>e. mDictionaries ?r c = Some e \<and> k \<in> set (aliases e))" for k c
      unfolding r using none [of c] reg_invD(1) [OF inv, of k c] \<open>mDictionaries r key = None\<close> by auto
    show "mDictionaries ?r c = Some e \<Longrightarrow> c \<in> set (aliases e)" for c e
      unfolding r using reg_invD(2) [OF inv, of c e] by (auto split: if_splits)
    show "mDictionaries ?r c = Some e \<Longrightarrow> dict_inv (entry_dict e)" for c e
      unfolding r using reg_invD(3) [OF inv, of c e] by (auto simp: dict_inv_new split: if_splits)
  qed
qed (use inv in \<open>simp add: reg_GetOrInsert_def\<close>)

lemma reg_inv_Alias:
  assumes inv: "reg_inv r"
  shows "reg_inv (snd (reg_Alias canonical al r))"
proof (cases "canonical \<noteq> al \<and> mRegIndex r al = None \<and> mDictionaries r al = None \<and> mDictionaries r canonical \<noteq> None")
  case True
  let ?r = "snd (reg_Alias canonical al r)"
  obtain entry where entry: "mDictionaries r canonical = Some entry" using True by blast
  have r: "mDictionaries ?r = (mDictionaries r)(canonical \<mapsto> entry\<lparr>aliases := aliases entry @ [al]\<rparr>)"
    "mRegIndex ?r = (mRegIndex r)(al \<mapsto> canonical)"
    using True entry by (simp_all add: reg_Alias_def)
  have none: "al \<notin> set (aliases e)" if "mDictionaries r c = Some e" for c e
    using True that reg_invD(1) [OF inv, of al c] by auto
  show ?thesis
  proof (rule reg_invI)
    show "mRegIndex ?r k = Some c \<longleftrightarrow> (\<exists>e. mDictionaries ?r c = Some e \<and> k \<in> set (aliases e))" for k c
      unfolding r using none [of c] reg_invD(1) [OF inv, of k c] entry by auto
    show "mDictionaries ?r c = Some e \<Longrightarrow> c \<in> set (aliases e)" for c e
      unfolding r using reg_invD(2) [OF inv] entry by (auto split: if_splits)
    show "mDictionaries ?r c = Some e \<Longrightarrow> dict_inv (entry_dict e)" for c e
      unfolding r using reg_invD(3) [OF inv] entry by (auto split: if_splits)
  qed
next
  case False
  then have "snd (reg_Alias canonical al r) = r" by (auto simp: reg_Alias_def split: option.splits)
  then show ?thesis using inv by simp
qed

lemma erased_index: "fold (\<lambda>a m. m(a := None)) as m k = (if k \<in> set as then None else m k)"
  by (induction as arbitrary: m) auto

lemma reg_inv_Erase:
  assumes "reg_inv r"
  shows "reg_inv (reg_Erase canonical r)"
proof (cases "mDictionaries r canonical")
  case (Some entry)
  have "mRegIndex (reg_Erase canonical r) k = Some c \<longleftrightarrow>
      (\<exists>e. mDictionaries (reg_Erase canonical r) c = Some e \<and> k \<in> set (aliases e))" for k c
  proof (cases "k \<in> set (aliases entry)")
    case True
    then have "mRegIndex r k = Some canonical" using Some reg_invD(1) [OF assms] by blast
    then have "\<not> (\<exists>e. mDictionaries r c = Some e \<and> k \<in> set (aliases e))" if "c \<noteq> canonical"
      using that reg_invD(1) [OF assms, of k c] by auto
    then show ?thesis using True Some by (auto simp: reg_Erase_def erased_index)
  next
    case False
    then show ?thesis using Some reg_invD(1) [OF assms, of k c] by (auto simp: reg_Erase_def erased_index)
  qed
  moreover have "c \<in> set (aliases e) \<and> dict_inv (entry_dict e)"
    if "mDictionaries (reg_Erase canonical r) c = Some e" for c e
    using that Some reg_invD(2,3) [OF assms] by (auto simp: reg_Erase_def split: if_splits)
  ultimately show ?thesis unfolding reg_inv_def by blast
qed (use assms in \<open>simp add: reg_Erase_def\<close>)

lemma reg_Insert_unfold:
  "mRegIndex r key = Some c \<Longrightarrow> mDictionaries r c = Some e \<Longrightarrow>
   reg_Insert key bytes r =
     (fst (dict_Insert bytes (entry_dict e)),
      r\<lparr>mDictionaries := (mDictionaries r)(c \<mapsto> e\<lparr>entry_dict := snd (dict_Insert bytes (entry_dict e))\<rparr>)\<rparr>)"
  by (simp add: reg_Insert_def split: prod.split)

lemma reg_inv_Insert:
  assumes inv: "reg_inv r"
  shows "reg_inv (snd (reg_Insert key bytes r))"
proof (cases "\<exists>c e. mRegIndex r key = Some c \<and> mDictionaries r c = Some e")
  case True
  then obtain c e where ce: "mRegIndex r key = Some c" "mDictionaries r c = Some e" by blast
  note r = reg_Insert_unfold [OF ce, of bytes]
  have d: "dict_inv (snd (dict_Insert bytes (entry_dict e)))"
    by (rule dict_inv_Insert [OF reg_invD(3) [OF inv ce(2)]])
  show ?thesis
  proof (rule reg_invI)
    show "mRegIndex (snd (reg_Insert key bytes r)) k = Some c' \<longleftrightarrow>
        (\<exists>e. mDictionaries (snd (reg_Insert key bytes r)) c' = Some e \<and> k \<in> set (aliases e))" for k c'
      unfolding r using reg_invD(1) [OF inv, of k c'] ce(2) by auto
    show "mDictionaries (snd (reg_Insert key bytes r)) c' = Some e' \<Longrightarrow> c' \<in> set (aliases e')" for c' e'
      unfolding r using reg_invD(2) [OF inv] ce(2) by (auto split: if_splits)
    show "mDictionaries (snd (reg_Insert key bytes r)) c' = Some e' \<Longrightarrow> dict_inv (entry_dict e')" for c' e'
      unfolding r using reg_invD(3) [OF inv] d by (auto split: if_splits)
  qed
next
  case False
  then have "snd (reg_Insert key bytes r) = r" by (auto simp: reg_Insert_def split: option.splits)
  then show ?thesis using inv by simp
qed

lemma reg_Find_shared:
  assumes "reg_inv r" "fst (reg_Alias canonical al r)" "canonical \<noteq> al"
  shows "reg_Find (snd (reg_Alias canonical al r)) al =
         reg_Find (snd (reg_Alias canonical al r)) canonical"
    and "reg_Find (snd (reg_Alias canonical al r)) al \<noteq> None"
proof -
  obtain e where e: "mDictionaries r canonical = Some e"
    using assms(2,3) by (auto simp: reg_Alias_def split: option.splits)
  have self: "mRegIndex r canonical = Some canonical"
    using e reg_invD(1,2) [OF assms(1)] by blast
  show "reg_Find (snd (reg_Alias canonical al r)) al =
         reg_Find (snd (reg_Alias canonical al r)) canonical"
    "reg_Find (snd (reg_Alias canonical al r)) al \<noteq> None"
    using assms(2,3) e self
    by (auto simp: reg_Alias_def reg_Find_def split: option.splits if_splits)
qed

lemma reg_Find_erased:
  assumes "reg_inv r" "mDictionaries r canonical \<noteq> None"
  shows "reg_Find (reg_Erase canonical r) key =
    (if reg_Contains r key \<and> mRegIndex r key \<noteq> Some canonical then reg_Find r key else None)"
proof -
  obtain e where e: "mDictionaries r canonical = Some e" using assms(2) by blast
  have "key \<in> set (aliases e) \<longleftrightarrow> mRegIndex r key = Some canonical"
    using reg_invD(1) [OF assms(1), of key canonical] e by auto
  then show ?thesis
    using e by (auto simp: reg_Erase_def reg_Find_def reg_Contains_def erased_index split: option.splits)
qed

end
