(* ===== verification/Line_Source.thy ===== *)
theory Line_Source
  imports Enum_Dictionary
begin

text \<open>
  The owners of log bytes: \<open>LogFile\<close> (\<open>library/src/log_file.cpp\<close>, the memory-mapped file with
  its line offsets and arena of decoded strings), \<open>FileLineSource\<close>
  (\<open>library/src/file_line_source.cpp\<close>), \<open>StreamLineSource\<close>
  (\<open>library/src/stream_line_source.cpp\<close>, a window of lines with one arena each), and the
  virtual interface \<open>LineSource\<close> over both.  A throwing operation returns \<open>None\<close>.  The mutex
  of the stream source makes each of its operations one atomic step.
\<close>

section \<open>LogFile\<close>

record LogFile =
  mMmap :: string
  mLineOffsets :: "nat list"
  mOwnedStrings :: string
  mMultiLineSpans :: "nat \<rightharpoonup> nat"

definition new_LogFile :: "string \<Rightarrow> LogFile" where
  "new_LogFile bytes = \<lparr>mMmap = bytes, mLineOffsets = [0], mOwnedStrings = [], mMultiLineSpans = Map.empty\<rparr>"

text \<open>The line id behind the last line of the record that starts at \<open>line\<close>.\<close>

definition stop_line :: "LogFile \<Rightarrow> nat \<Rightarrow> nat" where
  "stop_line f line =
     (case mMultiLineSpans f line of
        Some l \<Rightarrow> if l + 1 < length (mLineOffsets f) then l + 1 else line + 1
      | None \<Rightarrow> line + 1)"

definition strip_return :: "string \<Rightarrow> string" where
  "strip_return buffer = (if buffer \<noteq> [] \<and> last buffer = RETURN then butlast buffer else buffer)"

definition GetLine :: "LogFile \<Rightarrow> nat \<Rightarrow> string option" where
  "GetLine f line =
     (if line + 1 \<ge> length (mLineOffsets f) then None
      else let startOffset = mLineOffsets f ! line;
               stopOffset = mLineOffsets f ! stop_line f line
           in if stopOffset \<le> startOffset then Some []
              else let len = stopOffset - startOffset - 1;
                       mmapSize = length (mMmap f);
                       len' = (if startOffset + len > mmapSize then mmapSize - startOffset else len)
                   in Some (strip_return (take len' (drop startOffset (mMmap f)))))"

definition GetLineCount :: "LogFile \<Rightarrow> nat" where
  "GetLineCount f = length (mLineOffsets f) - 1"

definition RegisterLineEnd :: "nat \<Rightarrow> LogFile \<Rightarrow> LogFile option" where
  "RegisterLineEnd position f =
     (if position \<le> last (mLineOffsets f) then None
      else Some (f\<lparr>mLineOffsets := mLineOffsets f @ [position]\<rparr>))"

definition RegisterMultiLineRecord :: "nat \<Rightarrow> nat \<Rightarrow> LogFile \<Rightarrow> LogFile" where
  "RegisterMultiLineRecord header lastLine f =
     (if lastLine \<le> header then f
      else if header + 1 \<ge> length (mLineOffsets f) \<or> lastLine + 1 \<ge> length (mLineOffsets f) then f
      else f\<lparr>mMultiLineSpans := (mMultiLineSpans f)(header \<mapsto> lastLine)\<rparr>)"

definition AppendLineOffsets :: "nat list \<Rightarrow> LogFile \<Rightarrow> LogFile" where
  "AppendLineOffsets offsets f = f\<lparr>mLineOffsets := mLineOffsets f @ offsets\<rparr>"

definition AppendOwnedStrings :: "string \<Rightarrow> LogFile \<Rightarrow> 64 word \<times> LogFile" where
  "AppendOwnedStrings bytes f =
     (word_of_nat (length (mOwnedStrings f)), f\<lparr>mOwnedStrings := mOwnedStrings f @ bytes\<rparr>)"

text \<open>\<open>slice_at bytes offset len\<close>: the bounds check both resolvers share, in \<open>uint64_t\<close>.\<close>

definition slice_at :: "string \<Rightarrow> 64 word \<Rightarrow> 32 word \<Rightarrow> string" where
  "slice_at bytes offset len =
     (if offset > word_of_nat (length bytes) \<or> offset + ucast len > word_of_nat (length bytes) then []
      else take (unat len) (drop (unat offset) bytes))"

section \<open>StreamLineSource\<close>

record StreamLineSource =
  mLines :: "string list"
  mLineOwnedBytes :: "string list"
  mFirstAvailableLineId :: nat
  mNextLineId :: nat

definition new_StreamLineSource :: StreamLineSource where
  "new_StreamLineSource =
     \<lparr>mLines = [], mLineOwnedBytes = [], mFirstAvailableLineId = 1, mNextLineId = 1\<rparr>"

definition LineIsLive :: "StreamLineSource \<Rightarrow> nat \<Rightarrow> bool" where
  "LineIsLive s line \<longleftrightarrow> line \<ge> mFirstAvailableLineId s \<and> line < mNextLineId s"

definition IndexFor :: "StreamLineSource \<Rightarrow> nat \<Rightarrow> nat" where
  "IndexFor s line = line - mFirstAvailableLineId s"

definition stream_RawLine :: "StreamLineSource \<Rightarrow> nat \<Rightarrow> string option" where
  "stream_RawLine s line = (if LineIsLive s line then Some (mLines s ! IndexFor s line) else None)"

definition stream_ResolveOwned :: "64 word \<Rightarrow> 32 word \<Rightarrow> nat \<Rightarrow> StreamLineSource \<Rightarrow> string" where
  "stream_ResolveOwned offset len line s =
     (if \<not> LineIsLive s line then [] else slice_at (mLineOwnedBytes s ! IndexFor s line) offset len)"

definition stream_AppendOwned :: "nat \<Rightarrow> string \<Rightarrow> StreamLineSource \<Rightarrow> (64 word \<times> StreamLineSource) option" where
  "stream_AppendOwned line bytes s =
     (if \<not> LineIsLive s line then None
      else let arena = mLineOwnedBytes s ! IndexFor s line
           in Some (word_of_nat (length arena),
                    s\<lparr>mLineOwnedBytes := (mLineOwnedBytes s)[IndexFor s line := arena @ bytes]\<rparr>))"

definition EvictBefore :: "nat \<Rightarrow> StreamLineSource \<Rightarrow> StreamLineSource" where
  "EvictBefore firstSurviving s =
     (if firstSurviving \<le> mFirstAvailableLineId s then s
      else let target = min firstSurviving (mNextLineId s);
               n = target - mFirstAvailableLineId s
           in s\<lparr>mLines := drop n (mLines s), mLineOwnedBytes := drop n (mLineOwnedBytes s),
                mFirstAvailableLineId := target\<rparr>)"

definition AppendLine :: "string \<Rightarrow> string \<Rightarrow> StreamLineSource \<Rightarrow> nat \<times> StreamLineSource" where
  "AppendLine rawLine ownedBytes s =
     (mNextLineId s,
      s\<lparr>mNextLineId := mNextLineId s + 1, mLines := mLines s @ [rawLine],
        mLineOwnedBytes := mLineOwnedBytes s @ [ownedBytes]\<rparr>)"

definition stream_Size :: "StreamLineSource \<Rightarrow> nat" where
  "stream_Size s = length (mLines s)"

section \<open>LineSource\<close>

datatype SourceImpl = FileSource LogFile | StreamSource StreamLineSource

record LineSource =
  impl :: SourceImpl
  mEnumDictionaries :: "EnumDictionaryRegistry option"

definition ResolveMmapBytes :: "64 word \<Rightarrow> 32 word \<Rightarrow> LineSource \<Rightarrow> string" where
  "ResolveMmapBytes offset len src =
     (case impl src of FileSource f \<Rightarrow> slice_at (mMmap f) offset len | StreamSource _ \<Rightarrow> [])"

definition ResolveOwnedBytes :: "64 word \<Rightarrow> 32 word \<Rightarrow> nat \<Rightarrow> LineSource \<Rightarrow> string" where
  "ResolveOwnedBytes offset len line src =
     (case impl src of
        FileSource f \<Rightarrow> slice_at (mOwnedStrings f) offset len
      | StreamSource s \<Rightarrow> stream_ResolveOwned offset len line s)"

definition StableBytes :: "LineSource \<Rightarrow> string" where
  "StableBytes src = (case impl src of FileSource f \<Rightarrow> mMmap f | StreamSource _ \<Rightarrow> [])"

definition AppendOwnedBytes :: "nat \<Rightarrow> string \<Rightarrow> LineSource \<Rightarrow> (64 word \<times> LineSource) option" where
  "AppendOwnedBytes line bytes src =
     (case impl src of
        FileSource f \<Rightarrow>
          (let (off, f') = AppendOwnedStrings bytes f in Some (off, src\<lparr>impl := FileSource f'\<rparr>))
      | StreamSource s \<Rightarrow>
          (case stream_AppendOwned line bytes s of
             None \<Rightarrow> None
           | Some (off, s') \<Rightarrow> Some (off, src\<lparr>impl := StreamSource s'\<rparr>)))"

definition RawLine :: "nat \<Rightarrow> LineSource \<Rightarrow> string option" where
  "RawLine line src =
     (case impl src of FileSource f \<Rightarrow> GetLine f line | StreamSource s \<Rightarrow> stream_RawLine s line)"

definition FirstAvailableLineId :: "LineSource \<Rightarrow> nat" where
  "FirstAvailableLineId src =
     (case impl src of FileSource _ \<Rightarrow> 0 | StreamSource s \<Rightarrow> mFirstAvailableLineId s)"

text \<open>\<open>SupportsEviction\<close> and the virtual \<open>EvictBefore\<close>; files do nothing.\<close>

definition SupportsEviction :: "LineSource \<Rightarrow> bool" where
  "SupportsEviction src \<longleftrightarrow> (case impl src of FileSource _ \<Rightarrow> False | StreamSource _ \<Rightarrow> True)"

definition source_EvictBefore :: "nat \<Rightarrow> LineSource \<Rightarrow> LineSource" where
  "source_EvictBefore firstSurviving src =
     (case impl src of FileSource _ \<Rightarrow> src
      | StreamSource s \<Rightarrow> src\<lparr>impl := StreamSource (EvictBefore firstSurviving s)\<rparr>)"

section \<open>The contract of the byte arenas\<close>

lemma slice_at_eq:
  assumes "length bytes < 2 ^ 63"
  shows "slice_at bytes offset len =
    (if unat offset + unat len \<le> length bytes then take (unat len) (drop (unat offset) bytes) else [])"
proof -
  have n: "unat (word_of_nat (length bytes) :: 64 word) = length bytes"
    using assms by (simp add: unat_of_nat)
  have l32: "unat len < 2 ^ 32" using unsigned_less [of len] by simp
  then have len: "unat (ucast len :: 64 word) = unat len"
    by (simp add: unsigned_ucast_eq take_bit_nat_eq_self)
  show ?thesis
  proof (cases "unat offset \<le> length bytes")
    case True
    then have "unat (offset + ucast len) = unat offset + unat len"
      using assms l32 by (simp add: unat_word_ariths len)
    then show ?thesis using True n by (auto simp: slice_at_def word_less_nat_alt)
  next
    case False
    then show ?thesis using n by (auto simp: slice_at_def word_less_nat_alt)
  qed
qed

lemma slice_at_append:
  assumes "length (a @ b) < 2 ^ 63" "length b < 2 ^ 32"
  shows "slice_at (a @ b) (word_of_nat (length a)) (word_of_nat (length b)) = b"
proof -
  have "unat (word_of_nat (length a) :: 64 word) = length a" "unat (word_of_nat (length b) :: 32 word) = length b"
    using assms by (simp_all add: unat_of_nat)
  then show ?thesis using assms by (simp add: slice_at_eq)
qed

lemma slice_at_extend:
  assumes "length (a @ b) < 2 ^ 63" "unat offset + unat len \<le> length a"
  shows "slice_at (a @ b) offset len = slice_at a offset len"
  using assms by (simp add: slice_at_eq)

text \<open>
  \<open>arena s l\<close> is the byte arena behind line \<open>l\<close>, \<open>None\<close> when the line is gone.  What a client
  may rely on: an append returns the offset of the appended bytes, only ever extends arenas,
  and resolving goes through the bounds check of \<open>slice_at\<close>.
\<close>

locale byte_arena =
  fixes inv :: "'s \<Rightarrow> bool"
    and arena :: "'s \<Rightarrow> nat \<Rightarrow> string option"
    and append_bytes :: "nat \<Rightarrow> string \<Rightarrow> 's \<Rightarrow> (64 word \<times> 's) option"
    and resolve_bytes :: "64 word \<Rightarrow> 32 word \<Rightarrow> nat \<Rightarrow> 's \<Rightarrow> string"
  assumes inv_append: "inv s \<Longrightarrow> append_bytes l b s = Some (off, s') \<Longrightarrow> inv s'"
    and append_dead: "inv s \<Longrightarrow> append_bytes l b s = None \<longleftrightarrow> arena s l = None"
    and append_here: "inv s \<Longrightarrow> append_bytes l b s = Some (off, s') \<Longrightarrow> arena s l = Some a \<Longrightarrow>
      off = word_of_nat (length a) \<and> arena s' l = Some (a @ b)"
    and append_other: "inv s \<Longrightarrow> append_bytes l b s = Some (off, s') \<Longrightarrow> arena s l' = Some a \<Longrightarrow>
      \<exists>t. arena s' l' = Some (a @ t)"
    and resolve_slice: "inv s \<Longrightarrow>
      resolve_bytes off len l s = (case arena s l of None \<Rightarrow> [] | Some a \<Rightarrow> slice_at a off len)"
begin

lemma resolve_append:
  assumes "inv s" "append_bytes l b s = Some (off, s')" "length b < 2 ^ 32"
    and "\<And>a. arena s' l = Some a \<Longrightarrow> length a < 2 ^ 63"
  shows "resolve_bytes off (word_of_nat (length b)) l s' = b"
proof -
  obtain a where a: "arena s l = Some a" using append_dead [OF assms(1), of l b] assms(2) by (cases "arena s l") auto
  have "off = word_of_nat (length a)" "arena s' l = Some (a @ b)"
    using append_here [OF assms(1,2) a] by auto
  moreover have "length (a @ b) < 2 ^ 63" using assms(4) calculation(2) by blast
  ultimately show ?thesis
    using inv_append [OF assms(1,2)] slice_at_append [of a b] assms(3) by (simp add: resolve_slice)
qed

lemma resolve_kept:
  assumes "inv s" "append_bytes l b s = Some (off, s')"
    and "arena s l' = Some a" "unat off' + unat len \<le> length a"
    and "\<And>a. arena s' l' = Some a \<Longrightarrow> length a < 2 ^ 63"
  shows "resolve_bytes off' len l' s' = resolve_bytes off' len l' s"
proof -
  obtain t where t: "arena s' l' = Some (a @ t)" using append_other [OF assms(1-3)] by blast
  then have "slice_at (a @ t) off' len = slice_at a off' len"
    using assms(4,5) by (intro slice_at_extend) blast+
  then show ?thesis
    using t assms(3) inv_append [OF assms(1,2)] by (simp add: resolve_slice [OF assms(1)] resolve_slice)
qed

end

interpretation file_arena: byte_arena "\<lambda>_. True" "\<lambda>f _. Some (mOwnedStrings f)"
    "\<lambda>_ b f. Some (AppendOwnedStrings b f)" "\<lambda>off len _ f. slice_at (mOwnedStrings f) off len"
  by unfold_locales (auto simp: AppendOwnedStrings_def)

definition stream_inv :: "StreamLineSource \<Rightarrow> bool" where
  "stream_inv s \<longleftrightarrow>
     1 \<le> mFirstAvailableLineId s \<and> mFirstAvailableLineId s \<le> mNextLineId s \<and>
     length (mLines s) = mNextLineId s - mFirstAvailableLineId s \<and>
     length (mLineOwnedBytes s) = mNextLineId s - mFirstAvailableLineId s"

definition stream_arena :: "StreamLineSource \<Rightarrow> nat \<Rightarrow> string option" where
  "stream_arena s l = (if LineIsLive s l then Some (mLineOwnedBytes s ! IndexFor s l) else None)"

lemma stream_inv_new: "stream_inv new_StreamLineSource"
  by (simp add: stream_inv_def new_StreamLineSource_def)

lemma stream_inv_AppendLine: "stream_inv s \<Longrightarrow> stream_inv (snd (AppendLine raw owned s))"
  by (auto simp: stream_inv_def AppendLine_def)

lemma stream_inv_EvictBefore: "stream_inv s \<Longrightarrow> stream_inv (EvictBefore n s)"
  by (auto simp: stream_inv_def EvictBefore_def Let_def min_def)

interpretation stream_arena: byte_arena stream_inv stream_arena stream_AppendOwned stream_ResolveOwned
proof
  fix s s' :: StreamLineSource and l l' b off a len
  assume inv: "stream_inv s"
  show "stream_AppendOwned l b s = None \<longleftrightarrow> stream_arena s l = None"
    by (simp add: stream_AppendOwned_def stream_arena_def Let_def)
  show "stream_ResolveOwned off len l s = (case stream_arena s l of None \<Rightarrow> [] | Some a \<Rightarrow> slice_at a off len)"
    by (simp add: stream_ResolveOwned_def stream_arena_def)
  assume app: "stream_AppendOwned l b s = Some (off, s')"
  then show "stream_inv s'"
    using inv by (auto simp: stream_AppendOwned_def stream_inv_def Let_def split: if_splits)
  have live: "LineIsLive s l" "IndexFor s l < length (mLineOwnedBytes s)"
    using inv app by (auto simp: stream_AppendOwned_def stream_inv_def LineIsLive_def IndexFor_def split: if_splits)
  show "stream_arena s l = Some a \<Longrightarrow> off = word_of_nat (length a) \<and> stream_arena s' l = Some (a @ b)"
    using app live by (auto simp: stream_AppendOwned_def stream_arena_def LineIsLive_def IndexFor_def Let_def)
  show "stream_arena s l' = Some a \<Longrightarrow> \<exists>t. stream_arena s' l' = Some (a @ t)"
    using app live by (auto simp: stream_AppendOwned_def stream_arena_def LineIsLive_def IndexFor_def Let_def
        nth_list_update split: if_splits)
qed

definition source_inv :: "LineSource \<Rightarrow> bool" where
  "source_inv src \<longleftrightarrow> (case impl src of FileSource _ \<Rightarrow> True | StreamSource s \<Rightarrow> stream_inv s)"

definition source_arena :: "LineSource \<Rightarrow> nat \<Rightarrow> string option" where
  "source_arena src l =
     (case impl src of FileSource f \<Rightarrow> Some (mOwnedStrings f) | StreamSource s \<Rightarrow> stream_arena s l)"

interpretation source_arena: byte_arena source_inv source_arena AppendOwnedBytes ResolveOwnedBytes
proof
  fix s s' :: LineSource and l l' b off a len
  assume inv: "source_inv s"
  show "AppendOwnedBytes l b s = None \<longleftrightarrow> source_arena s l = None"
    by (auto simp: AppendOwnedBytes_def source_arena_def stream_AppendOwned_def stream_arena_def Let_def
        split: SourceImpl.splits prod.splits option.splits)
  show "ResolveOwnedBytes off len l s = (case source_arena s l of None \<Rightarrow> [] | Some a \<Rightarrow> slice_at a off len)"
    using inv stream_arena.resolve_slice [of _ off len l]
    by (simp add: ResolveOwnedBytes_def source_arena_def source_inv_def split: SourceImpl.splits)
  assume app: "AppendOwnedBytes l b s = Some (off, s')"
  have "source_inv s' \<and>
     (source_arena s l = Some a \<longrightarrow> off = word_of_nat (length a) \<and> source_arena s' l = Some (a @ b)) \<and>
     (source_arena s l' = Some a \<longrightarrow> (\<exists>t. source_arena s' l' = Some (a @ t)))"
  proof (cases "impl s")
    case (FileSource f)
    then show ?thesis
      using app by (auto simp: AppendOwnedBytes_def AppendOwnedStrings_def source_inv_def source_arena_def)
  next
    case (StreamSource t)
    then obtain t' where t': "stream_AppendOwned l b t = Some (off, t')" "s' = s\<lparr>impl := StreamSource t'\<rparr>"
      using app by (auto simp: AppendOwnedBytes_def split: option.splits)
    have "stream_inv t" using inv StreamSource by (simp add: source_inv_def)
    note facts = stream_arena.inv_append [OF this t'(1)] stream_arena.append_here [OF this t'(1)]
      stream_arena.append_other [OF this t'(1)]
    show ?thesis
      unfolding source_inv_def source_arena_def StreamSource t'(2) using facts by simp
  qed
  then show "source_inv s'"
    "source_arena s l = Some a \<Longrightarrow> off = word_of_nat (length a) \<and> source_arena s' l = Some (a @ b)"
    "source_arena s l' = Some a \<Longrightarrow> \<exists>t. source_arena s' l' = Some (a @ t)"
    by blast+
qed

section \<open>Eviction and line text\<close>

lemma stream_RawLine_evict:
  assumes "stream_inv s" "n \<le> l"
  shows "stream_RawLine (EvictBefore n s) l = stream_RawLine s l"
    and "stream_arena (EvictBefore n s) l = stream_arena s l"
  using assms
  by (auto simp: stream_RawLine_def stream_arena_def EvictBefore_def LineIsLive_def IndexFor_def stream_inv_def Let_def min_def)

lemma stream_RawLine_evicted:
  assumes "stream_inv s" "l < n"
  shows "stream_RawLine (EvictBefore n s) l = None"
  using assms by (auto simp: stream_RawLine_def EvictBefore_def LineIsLive_def stream_inv_def Let_def)

lemma stream_RawLine_AppendLine:
  assumes "stream_inv s"
  shows "stream_RawLine (snd (AppendLine raw owned s)) (fst (AppendLine raw owned s)) = Some raw"
    and "stream_RawLine s l = Some t \<Longrightarrow> stream_RawLine (snd (AppendLine raw owned s)) l = Some t"
  using assms
  by (auto simp: stream_RawLine_def AppendLine_def LineIsLive_def IndexFor_def stream_inv_def nth_append split: if_splits)

lemma source_EvictBefore_reads:
  assumes "source_inv src" "n \<le> l"
  shows "ResolveOwnedBytes off len l (source_EvictBefore n src) = ResolveOwnedBytes off len l src"
    and "ResolveMmapBytes off len (source_EvictBefore n src) = ResolveMmapBytes off len src"
    and "RawLine l (source_EvictBefore n src) = RawLine l src"
    and "mEnumDictionaries (source_EvictBefore n src) = mEnumDictionaries src"
proof -
  have s: "stream_RawLine (EvictBefore n s) l = stream_RawLine s l \<and>
      stream_ResolveOwned off len l (EvictBefore n s) = stream_ResolveOwned off len l s"
    if "impl src = StreamSource s" for s
  proof -
    have inv: "stream_inv s" using assms(1) that by (simp add: source_inv_def)
    show ?thesis
      using stream_RawLine_evict [OF inv assms(2)] stream_arena.resolve_slice [OF inv, of off len l]
        stream_arena.resolve_slice [OF stream_inv_EvictBefore [OF inv, of n], of off len l]
      by simp
  qed
  show "ResolveOwnedBytes off len l (source_EvictBefore n src) = ResolveOwnedBytes off len l src"
    "ResolveMmapBytes off len (source_EvictBefore n src) = ResolveMmapBytes off len src"
    "RawLine l (source_EvictBefore n src) = RawLine l src"
    "mEnumDictionaries (source_EvictBefore n src) = mEnumDictionaries src"
    using s by (auto simp: source_EvictBefore_def ResolveOwnedBytes_def ResolveMmapBytes_def RawLine_def
        split: SourceImpl.split)
qed

section \<open>The lines of a file\<close>

text \<open>A file that consists of the given lines, with or without a newline behind the last one, and the offsets behind its lines.\<close>

definition terminated :: "string list \<Rightarrow> string" where
  "terminated ls = concat (map (\<lambda>l. l @ [NEWLINE]) ls)"

definition offsets_behind :: "string list \<Rightarrow> nat list" where
  "offsets_behind ls = map (\<lambda>i. length (terminated (take (i + 1) ls))) [0..<length ls]"

lemma terminated_split:
  "i < length ls \<Longrightarrow> terminated ls = terminated (take i ls) @ (ls ! i) @ [NEWLINE] @ terminated (drop (i + 1) ls)"
  by (subst id_take_nth_drop [of i ls]) (simp_all add: terminated_def)

lemma GetLine_lines:
  assumes "i < length ls"
    and content: "bytes = terminated ls \<or> bytes @ [NEWLINE] = terminated ls"
  shows "GetLine (AppendLineOffsets (offsets_behind ls) (new_LogFile bytes)) i = Some (strip_return (ls ! i))"
proof -
  let ?f = "AppendLineOffsets (offsets_behind ls) (new_LogFile bytes)"
  let ?a = "terminated (take i ls)" and ?l = "ls ! i" and ?z = "terminated (drop (i + 1) ls)"
  have start: "mLineOffsets ?f ! i = length ?a"
    using assms(1) by (cases i) (simp_all add: AppendLineOffsets_def new_LogFile_def offsets_behind_def terminated_def)
  have stop: "mLineOffsets ?f ! (i + 1) = length ?a + length ?l + 1"
    using assms(1) by (simp add: AppendLineOffsets_def new_LogFile_def offsets_behind_def terminated_def take_Suc_conv_app_nth)
  have split: "terminated ls = ?a @ ?l @ [NEWLINE] @ ?z" by (rule terminated_split [OF assms(1)])
  have here: "take (length ?l) (drop (length ?a) bytes) = ?l \<and> length ?a + length ?l \<le> length bytes"
  proof (rule disjE [OF content])
    assume "bytes @ [NEWLINE] = terminated ls"
    then have "bytes = butlast (?a @ ?l @ [NEWLINE] @ ?z)" by (metis split butlast_snoc)
    then show ?thesis by (cases "?z = []") (simp_all add: butlast_append)
  qed (simp add: split)
  have "stop_line ?f i = i + 1" by (simp add: stop_line_def AppendLineOffsets_def new_LogFile_def)
  moreover have "\<not> i + 1 \<ge> length (mLineOffsets ?f)"
    using assms(1) by (simp add: AppendLineOffsets_def new_LogFile_def offsets_behind_def)
  moreover have "mMmap ?f = bytes" by (simp add: AppendLineOffsets_def new_LogFile_def)
  ultimately show ?thesis
    using here by (simp add: GetLine_def start stop [simplified] Let_def)
qed

lemma GetLine_none:
  "length ls \<le> i \<Longrightarrow> GetLine (AppendLineOffsets (offsets_behind ls) (new_LogFile bytes)) i = None"
  by (simp add: GetLine_def AppendLineOffsets_def new_LogFile_def offsets_behind_def)

end
