(* ===== verification/Ieee_Double.thy ===== *)
theory Ieee_Double
  imports Prelude
begin

text \<open>
  The C and C++ standard library functions on \<open>double\<close> that the repository calls
  (\<open>std::strtod\<close>, \<open>std::to_chars\<close>, \<open>std::nextafter\<close>, \<open>std::isnan\<close>, the comparisons and
  the conversion from an integer), on IEEE 754 binary64 values.

  A value is its sign and the 63 low bits of its representation read as a number, its
  magnitude: magnitudes order like the absolute values they stand for, \<open>inf_mag\<close> is
  infinity, and consecutive magnitudes are adjacent doubles.
\<close>

datatype double = DNaN (dneg: bool) | DNum (dneg: bool) (dmag: nat)

definition inf_mag :: nat where
  "inf_mag = 2047 * 2 ^ 52"

definition min_normal_mag :: nat where
  "min_normal_mag = 2 ^ 52"

text \<open>The absolute value of a magnitude in units of \<open>2^-1074\<close>, the smallest subnormal.\<close>

definition smag :: "nat \<Rightarrow> nat" where
  "smag k = (if k < 2 ^ 52 then k else (2 ^ 52 + k mod 2 ^ 52) * 2 ^ (k div 2 ^ 52 - 1))"

subsection \<open>Comparison and neighbours\<close>

definition isnan :: "double \<Rightarrow> bool" where
  "isnan x \<longleftrightarrow> (case x of DNaN _ \<Rightarrow> True | DNum _ _ \<Rightarrow> False)"

definition dkey :: "double \<Rightarrow> int" where
  "dkey x = (if dneg x then - int (dmag x) else int (dmag x))"

definition d_less :: "double \<Rightarrow> double \<Rightarrow> bool" where
  "d_less x y \<longleftrightarrow> \<not> isnan x \<and> \<not> isnan y \<and> dkey x < dkey y"

definition d_eq :: "double \<Rightarrow> double \<Rightarrow> bool" where
  "d_eq x y \<longleftrightarrow> \<not> isnan x \<and> \<not> isnan y \<and> dkey x = dkey y"

definition wf_double :: "double \<Rightarrow> bool" where
  "wf_double x \<longleftrightarrow> (case x of DNaN _ \<Rightarrow> True | DNum _ m \<Rightarrow> m \<le> inf_mag)"

text \<open>\<open>std::nextafter(x, +inf)\<close> and \<open>std::nextafter(x, -inf)\<close>.\<close>

fun nextafter_up :: "double \<Rightarrow> double" where
  "nextafter_up (DNaN s) = DNaN s"
| "nextafter_up (DNum s m) =
     (if \<not> s \<and> m = inf_mag then DNum s m
      else if m = 0 then DNum False 1
      else if s then DNum True (m - 1)
      else DNum False (m + 1))"

fun nextafter_down :: "double \<Rightarrow> double" where
  "nextafter_down (DNaN s) = DNaN s"
| "nextafter_down (DNum s m) =
     (if s \<and> m = inf_mag then DNum s m
      else if m = 0 then DNum True 1
      else if s then DNum True (m + 1)
      else DNum False (m - 1))"

lemma nextafter_up_strict:
  assumes "wf_double y" "\<not> isnan x" "d_less x y"
  shows "\<not> d_less y (nextafter_up x)"
  using assms by (cases x) (auto simp: d_less_def dkey_def isnan_def split: if_splits)

lemma nextafter_up_above:
  assumes "\<not> isnan x" "\<not> isnan y" "dkey x \<noteq> int inf_mag" "\<not> d_less y (nextafter_up x)"
  shows "d_less x y"
  using assms by (cases x) (auto simp: d_less_def dkey_def isnan_def split: if_splits double.splits)

lemma nextafter_down_strict:
  assumes "wf_double y" "\<not> isnan x" "d_less y x"
  shows "\<not> d_less (nextafter_down x) y"
  using assms by (cases x) (auto simp: d_less_def dkey_def isnan_def split: if_splits)

lemma nextafter_down_below:
  assumes "\<not> isnan x" "\<not> isnan y" "dkey x \<noteq> - int inf_mag" "\<not> d_less (nextafter_down x) y"
  shows "d_less y x"
  using assms by (cases x) (auto simp: d_less_def dkey_def isnan_def split: if_splits double.splits)

subsection \<open>Rounding a rational to the nearest double\<close>

text \<open>
  \<open>mag_search i k N D\<close> fixes the low \<open>i\<close> bits of the largest magnitude whose scaled value
  is at most \<open>N / D\<close>; \<open>round_mag N D\<close> rounds \<open>N / D\<close> (in units of \<open>2^-1074\<close>) to
  nearest, ties to even.
\<close>

fun mag_search :: "nat \<Rightarrow> nat \<Rightarrow> nat \<Rightarrow> nat \<Rightarrow> nat" where
  "mag_search 0 k N D = k"
| "mag_search (Suc i) k N D = mag_search i (if smag (k + 2 ^ i) * D \<le> N then k + 2 ^ i else k) N D"

definition round_mag :: "nat \<Rightarrow> nat \<Rightarrow> nat" where
  "round_mag N D =
     (let k = mag_search 63 0 N D;
          mid = (smag k + smag (k + 1)) * D
      in if 2 * N < mid \<or> (2 * N = mid \<and> even k) then k else k + 1)"

text \<open>
  The result of a conversion of \<open>(-1)^neg * n / d\<close> and whether \<open>errno\<close> becomes
  \<open>ERANGE\<close>: on overflow, and (the choice of glibc where ISO C leaves it to the
  implementation) when a subnormal or zero result is inexact.
\<close>

definition make_double :: "bool \<Rightarrow> nat \<Rightarrow> nat \<Rightarrow> double \<times> bool" where
  "make_double neg n d =
     (let N = n * 2 ^ 1074; k = round_mag N d
      in if inf_mag \<le> k then (DNum neg inf_mag, True)
         else (DNum neg k, k < min_normal_mag \<and> smag k * d \<noteq> N))"

definition double_of_int :: "int \<Rightarrow> double" where
  "double_of_int i = fst (make_double (i < 0) (nat \<bar>i\<bar>) 1)"

subsection \<open>strtod\<close>

fun digits_nat :: "nat \<Rightarrow> string \<Rightarrow> nat" where
  "digits_nat acc [] = acc"
| "digits_nat acc (c # cs) = digits_nat (10 * acc + digit_value c) cs"

definition isxdigit :: byte_class where
  "isxdigit c \<longleftrightarrow> isdigit c \<or> (97 \<le> byte (tolower c) \<and> byte (tolower c) \<le> 102)"

definition xdigit_value :: "char \<Rightarrow> nat" where
  "xdigit_value c = (if isdigit c then digit_value c else byte (tolower c) - 87)"

fun xdigits_nat :: "nat \<Rightarrow> string \<Rightarrow> nat" where
  "xdigits_nat acc [] = acc"
| "xdigits_nat acc (c # cs) = xdigits_nat (16 * acc + xdigit_value c) cs"

definition strip_sign :: "string \<Rightarrow> bool \<times> string" where
  "strip_sign s =
     (case s of c # r \<Rightarrow> if c = CHR ''-'' then (True, r) else if c = CHR ''+'' then (False, r) else (False, s)
      | [] \<Rightarrow> (False, s))"

text \<open>The digits before the radix point, those after it, and what follows.\<close>

definition scan_mantissa :: "byte_class \<Rightarrow> string \<Rightarrow> string \<times> string \<times> string" where
  "scan_mantissa P s =
     (case dropWhile P s of
        c # r \<Rightarrow> if c = CHR ''.'' then (takeWhile P s, takeWhile P r, dropWhile P r)
                 else (takeWhile P s, [], c # r)
      | [] \<Rightarrow> (takeWhile P s, [], []))"

text \<open>An optional exponent that runs to the end of the text.\<close>

definition scan_exponent :: "char \<Rightarrow> string \<Rightarrow> int option" where
  "scan_exponent mark s =
     (case s of
        [] \<Rightarrow> Some 0
      | c # r \<Rightarrow>
          let (neg, ds) = strip_sign r
          in if tolower c = mark \<and> ds \<noteq> [] \<and> list_all isdigit ds
             then Some (if neg then - int (digits_nat 0 ds) else int (digits_nat 0 ds))
             else None)"

definition scale_double :: "bool \<Rightarrow> nat \<Rightarrow> nat \<Rightarrow> int \<Rightarrow> double \<times> bool" where
  "scale_double neg m b e =
     (if 0 \<le> e then make_double neg (m * b ^ nat e) 1 else make_double neg m (b ^ nat (- e)))"

definition strtod_decimal :: "bool \<Rightarrow> string \<Rightarrow> (double \<times> bool) option" where
  "strtod_decimal neg s =
     (let (ip, fp, r) = scan_mantissa isdigit s
      in if ip @ fp = [] then None
         else map_option (\<lambda>e. scale_double neg (digits_nat 0 (ip @ fp)) 10 (e - int (length fp)))
                (scan_exponent (CHR ''e'') r))"

definition strtod_hex :: "bool \<Rightarrow> string \<Rightarrow> (double \<times> bool) option" where
  "strtod_hex neg s =
     (let (ip, fp, r) = scan_mantissa isxdigit s
      in if ip @ fp = [] then None
         else map_option (\<lambda>e. scale_double neg (xdigits_nat 0 (ip @ fp)) 2 (e - 4 * int (length fp)))
                (scan_exponent (CHR ''p'') r))"

text \<open>
  \<open>strtod_whole t\<close> is \<open>Some (value, erange)\<close> when \<open>std::strtod\<close> consumes the whole of
  \<open>t\<close> (its end pointer is the end of the buffer), which is when \<open>t\<close> is a subject
  sequence of ISO C: infinities, NaNs, hexadecimal and decimal literals.
\<close>

definition strtod_whole :: "string \<Rightarrow> (double \<times> bool) option" where
  "strtod_whole t =
     (let (neg, u) = strip_sign (dropWhile isspace t);
          l = map tolower u
      in if l = ''inf'' \<or> l = ''infinity'' then Some (DNum neg inf_mag, False)
         else if take 3 l = ''nan'' \<and>
                 (length l = 3 \<or> (5 \<le> length l \<and> l ! 3 = CHR ''('' \<and> last l = CHR '')'' \<and>
                    list_all (\<lambda>c. isalnum c \<or> c = CHR ''_'') (butlast (drop 4 l))))
              then Some (DNaN neg, False)
         else if take 2 l = ''0x'' then strtod_hex neg (drop 2 u)
         else strtod_decimal neg u)"

subsection \<open>to_chars\<close>

fun show_nat :: "nat \<Rightarrow> string" where
  "show_nat n = (if n < 10 then [digit_char n] else show_nat (n div 10) @ [digit_char (n mod 10)])"

declare show_nat.simps [simp del]

text \<open>The decimal exponent of a non-zero magnitude: \<open>10^e \<le> v < 10^(e+1)\<close>.\<close>

definition dec_exponent :: "nat \<Rightarrow> int" where
  "dec_exponent k = int (length (show_nat (smag k * 10 ^ 324 div 2 ^ 1074))) - 325"

definition dec_floor :: "nat \<Rightarrow> int \<Rightarrow> nat" where
  "dec_floor k e = (if 0 \<le> e then smag k div (2 ^ 1074 * 10 ^ nat e)
                    else smag k * 10 ^ nat (- e) div 2 ^ 1074)"

definition recovers :: "nat \<Rightarrow> nat \<Rightarrow> int \<Rightarrow> bool" where
  "recovers k m e \<longleftrightarrow> fst (scale_double False m 10 e) = DNum False k"

text \<open>Whether \<open>v\<close> lies below the midpoint of \<open>m * 10^e\<close> and \<open>(m + 1) * 10^e\<close> (ties to even).\<close>

definition nearer_below :: "nat \<Rightarrow> nat \<Rightarrow> int \<Rightarrow> bool" where
  "nearer_below k m e =
     (let (a, b) = (if 0 \<le> e then (2 * smag k, (2 * m + 1) * 2 ^ 1074 * 10 ^ nat e)
                    else (2 * smag k * 10 ^ nat (- e), (2 * m + 1) * 2 ^ 1074))
      in a < b \<or> (a = b \<and> even m))"

text \<open>A decimal with \<open>p\<close> significant digits that converts back to the magnitude, the closest one.\<close>

definition dec_candidate :: "nat \<Rightarrow> nat \<Rightarrow> (nat \<times> int) option" where
  "dec_candidate k p =
     (let e = dec_exponent k + 1 - int p; m = dec_floor k e
      in if recovers k m e \<and> (nearer_below k m e \<or> \<not> recovers k (m + 1) e) then Some (m, e)
         else if recovers k (m + 1) e then Some (m + 1, e)
         else None)"

fun shortest_from :: "nat \<Rightarrow> nat \<Rightarrow> nat \<Rightarrow> nat \<times> int" where
  "shortest_from 0 k p = (dec_floor k (dec_exponent k + 1 - int p), dec_exponent k + 1 - int p)"
| "shortest_from (Suc n) k p =
     (case dec_candidate k p of Some c \<Rightarrow> c | None \<Rightarrow> shortest_from n k (p + 1))"

fun strip_zeros :: "nat \<Rightarrow> nat \<Rightarrow> int \<Rightarrow> nat \<times> int" where
  "strip_zeros 0 m e = (m, e)"
| "strip_zeros (Suc n) m e = (if m mod 10 = 0 then strip_zeros n (m div 10) (e + 1) else (m, e))"

definition show_exponent :: "int \<Rightarrow> string" where
  "show_exponent x =
     (let a = show_nat (nat \<bar>x\<bar>)
      in (if x < 0 then ''e-'' else ''e+'') @ (if length a < 2 then CHR ''0'' # a else a))"

definition show_scientific :: "string \<Rightarrow> int \<Rightarrow> string" where
  "show_scientific ds e =
     hd ds # (if tl ds = [] then [] else CHR ''.'' # tl ds) @ show_exponent (e + int (length ds) - 1)"

definition show_fixed :: "nat \<Rightarrow> string \<Rightarrow> int \<Rightarrow> string" where
  "show_fixed k ds e =
     (let n = length ds; f = nat (- e)
      in if 0 \<le> e then show_nat (smag k div 2 ^ 1074)
         else if f < n then take (n - f) ds @ CHR ''.'' # drop (n - f) ds
         else CHR ''0'' # CHR ''.'' # replicate (f - n) (CHR ''0'') @ ds)"

definition to_chars_mag :: "nat \<Rightarrow> string" where
  "to_chars_mag k =
     (if k = 0 then ''0''
      else let (m, e) = (case shortest_from 17 k 1 of (m, e) \<Rightarrow> strip_zeros 17 m e);
               fixed = show_fixed k (show_nat m) e;
               sci = show_scientific (show_nat m) e
           in if length fixed \<le> length sci then fixed else sci)"

text \<open>\<open>std::to_chars(double)\<close>: the shortest text that converts back to the same value.\<close>

fun to_chars :: "double \<Rightarrow> string" where
  "to_chars (DNaN s) = (if s then ''-nan'' else ''nan'')"
| "to_chars (DNum s m) =
     (if s then [CHR ''-''] else []) @ (if m = inf_mag then ''inf'' else to_chars_mag m)"

end
