(* ===== verification/Log_Value.thy ===== *)
theory Log_Value
  imports Line_Source Ieee_Double
begin

unbundle bit_operations_syntax

text \<open>
  \<open>library/include/loglib/log_value.hpp\<close> and \<open>library/src/compact_log_value.cpp\<close>: the
  value of a field as a variant, and its 16-byte storage form.

  A \<open>string_view\<close> is its bytes and, when it points into the stable bytes of its line's
  source, the offset there; any other address is \<open>None\<close>.  The 64-bit alternatives are
  words; \<open>int64_t\<close> and time stamps are read by \<open>sint\<close>.  \<open>std::bit_cast\<close> of a double does not
  distinguish NaN payloads.
\<close>

datatype LogValue =
    VView "nat option" string
  | VString string
  | VInt64 "64 word"
  | VUint64 "64 word"
  | VDouble double
  | VBool bool
  | VTime "64 word"
  | VMonostate

definition AsStringView :: "LogValue \<Rightarrow> string option" where
  "AsStringView value = (case value of VView _ s \<Rightarrow> Some s | VString s \<Rightarrow> Some s | _ \<Rightarrow> None)"

definition HoldsString :: "LogValue \<Rightarrow> bool" where
  "HoldsString value \<longleftrightarrow> (case value of VView _ _ \<Rightarrow> True | VString _ \<Rightarrow> True | _ \<Rightarrow> False)"

definition ToOwnedLogValue :: "LogValue \<Rightarrow> LogValue" where
  "ToOwnedLogValue value = (case value of VView _ s \<Rightarrow> VString s | v \<Rightarrow> v)"

text \<open>\<open>operator==\<close> of the variant, on the alternatives that hold no string.\<close>

definition variant_eq :: "LogValue \<Rightarrow> LogValue \<Rightarrow> bool" where
  "variant_eq lhs rhs \<longleftrightarrow>
     (case (lhs, rhs) of
        (VInt64 a, VInt64 b) \<Rightarrow> a = b
      | (VUint64 a, VUint64 b) \<Rightarrow> a = b
      | (VDouble a, VDouble b) \<Rightarrow> d_eq a b
      | (VBool a, VBool b) \<Rightarrow> a = b
      | (VTime a, VTime b) \<Rightarrow> a = b
      | (VMonostate, VMonostate) \<Rightarrow> True
      | _ \<Rightarrow> False)"

definition LogValueEquivalent :: "LogValue \<Rightarrow> LogValue \<Rightarrow> bool" where
  "LogValueEquivalent lhs rhs \<longleftrightarrow>
     (if AsStringView lhs \<noteq> None \<or> AsStringView rhs \<noteq> None
      then AsStringView lhs \<noteq> None \<and> AsStringView rhs \<noteq> None \<and> AsStringView lhs = AsStringView rhs
      else variant_eq lhs rhs)"

definition AsEpochMicroseconds :: "LogValue \<Rightarrow> int option" where
  "AsEpochMicroseconds value =
     (case value of
        VTime w \<Rightarrow> Some (sint w)
      | VInt64 w \<Rightarrow> Some (sint w)
      | VUint64 w \<Rightarrow> (if w \<le> 2 ^ 63 - 1 then Some (sint w) else None)
      | _ \<Rightarrow> None)"

section \<open>Compact values\<close>

datatype CompactTag =
    Monostate | MmapSlice | OwnedString | DictRef | Int64 | Uint64 | Double | Bool | Timestamp

record CompactLogValue =
  payload :: "64 word"
  aux :: "32 word"
  tag :: CompactTag

definition bits_of_double :: "double \<Rightarrow> 64 word" where
  "bits_of_double d =
     word_of_nat ((if dneg d then 2 ^ 63 else 0) + (case d of DNaN _ \<Rightarrow> inf_mag + 2 ^ 51 | DNum _ m \<Rightarrow> m))"

definition double_of_bits :: "64 word \<Rightarrow> double" where
  "double_of_bits w =
     (let m = unat w mod 2 ^ 63; s = (unat w \<ge> 2 ^ 63)
      in if m \<le> inf_mag then DNum s m else DNaN s)"

definition MakeMonostate :: CompactLogValue where
  "MakeMonostate = \<lparr>payload = 0, aux = 0, tag = Monostate\<rparr>"

definition MakeMmapSlice :: "64 word \<Rightarrow> 32 word \<Rightarrow> CompactLogValue" where
  "MakeMmapSlice offset len = \<lparr>payload = offset, aux = len, tag = MmapSlice\<rparr>"

definition MakeOwnedString :: "64 word \<Rightarrow> 32 word \<Rightarrow> CompactLogValue" where
  "MakeOwnedString offset len = \<lparr>payload = offset, aux = len, tag = OwnedString\<rparr>"

definition MakeDictRef :: "EnumValueId \<Rightarrow> CompactLogValue" where
  "MakeDictRef vid = \<lparr>payload = ucast vid, aux = 0, tag = DictRef\<rparr>"

definition MakeInt64 :: "64 word \<Rightarrow> CompactLogValue" where
  "MakeInt64 v = \<lparr>payload = v, aux = 0, tag = Int64\<rparr>"

definition MakeUint64 :: "64 word \<Rightarrow> CompactLogValue" where
  "MakeUint64 v = \<lparr>payload = v, aux = 0, tag = Uint64\<rparr>"

definition MakeDouble :: "double \<Rightarrow> CompactLogValue" where
  "MakeDouble v = \<lparr>payload = bits_of_double v, aux = 0, tag = Double\<rparr>"

definition MakeBool :: "bool \<Rightarrow> CompactLogValue" where
  "MakeBool v = \<lparr>payload = (if v then 1 else 0), aux = 0, tag = Bool\<rparr>"

definition MakeTimestamp :: "64 word \<Rightarrow> CompactLogValue" where
  "MakeTimestamp v = \<lparr>payload = v, aux = 0, tag = Timestamp\<rparr>"

definition materialise_dict_ref :: "LineSource \<Rightarrow> KeyId \<Rightarrow> 64 word \<Rightarrow> LogValue" where
  "materialise_dict_ref src keyId p =
     (if keyId = INVALID_KEY_ID then VMonostate
      else case mEnumDictionaries src of
             None \<Rightarrow> VMonostate
           | Some reg \<Rightarrow>
               (case reg_Find reg keyId of
                  None \<Rightarrow> VMonostate
                | Some d \<Rightarrow> VView None (dict_Resolve d (ucast p))))"

definition Materialise :: "CompactLogValue \<Rightarrow> LineSource option \<Rightarrow> nat \<Rightarrow> KeyId \<Rightarrow> LogValue" where
  "Materialise v source lineId keyId =
     (case tag v of
        Monostate \<Rightarrow> VMonostate
      | MmapSlice \<Rightarrow>
          (case source of
             None \<Rightarrow> VMonostate
           | Some src \<Rightarrow>
               (let bytes = ResolveMmapBytes (payload v) (aux v) src
                in if bytes = [] \<and> aux v \<noteq> 0 then VMonostate
                   else VView (Some (unat (payload v))) bytes))
      | OwnedString \<Rightarrow>
          (case source of
             None \<Rightarrow> VString []
           | Some src \<Rightarrow> VString (ResolveOwnedBytes (payload v) (aux v) lineId src))
      | DictRef \<Rightarrow>
          (case source of
             None \<Rightarrow> VMonostate
           | Some src \<Rightarrow> materialise_dict_ref src keyId (payload v))
      | Int64 \<Rightarrow> VInt64 (payload v)
      | Uint64 \<Rightarrow> VUint64 (payload v)
      | Double \<Rightarrow> VDouble (double_of_bits (payload v))
      | Bool \<Rightarrow> VBool (payload v \<noteq> 0)
      | Timestamp \<Rightarrow> VTime (payload v))"

text \<open>
  \<open>MakeCompactFromVariant\<close> of \<open>log_line.cpp\<close>: a view into the stable bytes is stored by its
  offset, any other string is appended to the source's arena, which fails (\<open>None\<close>) when the
  line is gone.
\<close>

definition PromoteToOwnedString ::
    "nat \<Rightarrow> string \<Rightarrow> LineSource \<Rightarrow> (CompactLogValue \<times> LineSource) option" where
  "PromoteToOwnedString lineId s src =
     map_option (\<lambda>(offset, src'). (MakeOwnedString offset (word_of_nat (length s)), src'))
       (AppendOwnedBytes lineId s src)"

definition MakeCompactFromVariant ::
    "nat \<Rightarrow> LogValue \<Rightarrow> LineSource \<Rightarrow> (CompactLogValue \<times> LineSource) option" where
  "MakeCompactFromVariant lineId value src =
     (case value of
        VMonostate \<Rightarrow> Some (MakeMonostate, src)
      | VView addr s \<Rightarrow>
          (let stable = StableBytes src
           in case addr of
                Some offset \<Rightarrow>
                  if stable \<noteq> [] \<and> offset + length s \<le> length stable
                  then Some (MakeMmapSlice (word_of_nat offset) (word_of_nat (length s)), src)
                  else PromoteToOwnedString lineId s src
              | None \<Rightarrow> PromoteToOwnedString lineId s src)
      | VString s \<Rightarrow> PromoteToOwnedString lineId s src
      | VInt64 w \<Rightarrow> Some (MakeInt64 w, src)
      | VUint64 w \<Rightarrow> Some (MakeUint64 w, src)
      | VDouble d \<Rightarrow> Some (MakeDouble d, src)
      | VBool b \<Rightarrow> Some (MakeBool b, src)
      | VTime w \<Rightarrow> Some (MakeTimestamp w, src))"

text \<open>\<open>ToCompactLogValue\<close> of \<open>compact_log_value.cpp\<close>, with an explicit arena and file.\<close>

definition ToCompactLogValue ::
    "LogValue \<Rightarrow> string \<Rightarrow> string option \<Rightarrow> CompactLogValue \<times> string" where
  "ToCompactLogValue value arena file =
     (let own = (\<lambda>s. (MakeOwnedString (word_of_nat (length arena)) (word_of_nat (length s)), arena @ s))
      in case value of
        VMonostate \<Rightarrow> (MakeMonostate, arena)
      | VView addr s \<Rightarrow>
          (case (file, addr) of
             (Some bytes, Some offset) \<Rightarrow>
               if offset + length s \<le> length bytes
               then (MakeMmapSlice (word_of_nat offset) (word_of_nat (length s)), arena)
               else own s
           | _ \<Rightarrow> own s)
      | VString s \<Rightarrow> own s
      | VInt64 w \<Rightarrow> (MakeInt64 w, arena)
      | VUint64 w \<Rightarrow> (MakeUint64 w, arena)
      | VDouble d \<Rightarrow> (MakeDouble d, arena)
      | VBool b \<Rightarrow> (MakeBool b, arena)
      | VTime w \<Rightarrow> (MakeTimestamp w, arena))"

definition RebaseOwnedStringOffsets ::
    "64 word \<Rightarrow> (KeyId \<times> CompactLogValue) list \<Rightarrow> (KeyId \<times> CompactLogValue) list" where
  "RebaseOwnedStringOffsets delta values =
     (if delta = 0 then values
      else map (\<lambda>(k, v). (k, if tag v = OwnedString then v\<lparr>payload := payload v + delta\<rparr> else v)) values)"

section \<open>The field array of a line\<close>

record CompactLineFields =
  mData :: "(KeyId \<times> CompactLogValue) list"
  mCapacity :: "32 word"

definition mSize :: "CompactLineFields \<Rightarrow> nat" where
  "mSize f = length (mData f)"

definition new_CompactLineFields :: "32 word \<Rightarrow> CompactLineFields" where
  "new_CompactLineFields capacity = \<lparr>mData = [], mCapacity = capacity\<rparr>"

definition GrowCapacity :: "32 word \<Rightarrow> 32 word \<Rightarrow> 32 word" where
  "GrowCapacity current needed =
     (let target = (if current = 0 then 4 else current + current div 2 + 1) in max target needed)"

definition Reserve :: "32 word \<Rightarrow> CompactLineFields \<Rightarrow> CompactLineFields" where
  "Reserve capacity f = (if capacity \<le> mCapacity f then f else f\<lparr>mCapacity := capacity\<rparr>)"

definition AssignSorted :: "(KeyId \<times> CompactLogValue) list \<Rightarrow> CompactLineFields \<Rightarrow> CompactLineFields" where
  "AssignSorted values f =
     (let count = word_of_nat (length values)
      in f\<lparr>mCapacity := (if count \<le> mCapacity f then mCapacity f else count), mData := values\<rparr>)"

definition grow_if_full :: "CompactLineFields \<Rightarrow> CompactLineFields" where
  "grow_if_full f =
     (if word_of_nat (mSize f) = mCapacity f
      then Reserve (GrowCapacity (mCapacity f) (word_of_nat (mSize f) + 1)) f else f)"

definition EmplaceBack :: "KeyId \<Rightarrow> CompactLogValue \<Rightarrow> CompactLineFields \<Rightarrow> CompactLineFields" where
  "EmplaceBack key value f = (let f = grow_if_full f in f\<lparr>mData := mData f @ [(key, value)]\<rparr>)"

text \<open>\<open>std::copy_backward(first, last, d_last)\<close> inside one array.\<close>

definition copy_backward :: "nat \<Rightarrow> nat \<Rightarrow> nat \<Rightarrow> 'a list \<Rightarrow> 'a list" where
  "copy_backward lo hi d_last xs =
     take (d_last - (hi - lo)) xs @ take (hi - lo) (drop lo xs) @ drop d_last xs"

definition Insert_at :: "nat \<Rightarrow> KeyId \<Rightarrow> CompactLogValue \<Rightarrow> CompactLineFields \<Rightarrow> CompactLineFields" where
  "Insert_at position key value f =
     (let f = grow_if_full f; d = mData f; n = length d
      in if position < n then
           (let d1 = d @ [d ! (n - 1)];
                d2 = (if position + 1 < n then copy_backward position (n - 1) n d1 else d1)
            in f\<lparr>mData := d2[position := (key, value)]\<rparr>)
         else f\<lparr>mData := d @ [(key, value)]\<rparr>)"

definition Set_at :: "nat \<Rightarrow> CompactLogValue \<Rightarrow> CompactLineFields \<Rightarrow> CompactLineFields" where
  "Set_at position value f =
     (if position < mSize f then f\<lparr>mData := (mData f)[position := (fst (mData f ! position), value)]\<rparr> else f)"

definition ShrinkToFit :: "CompactLineFields \<Rightarrow> CompactLineFields" where
  "ShrinkToFit f = f\<lparr>mCapacity := word_of_nat (mSize f)\<rparr>"

subsection \<open>Capacity and contents\<close>

definition fields_inv :: "CompactLineFields \<Rightarrow> bool" where
  "fields_inv f \<longleftrightarrow> mSize f \<le> unat (mCapacity f)"

lemma grow_if_full_room:
  assumes "fields_inv f" "mSize f < 2 ^ 32 - 1"
  shows "mSize f < unat (mCapacity (grow_if_full f))" "mData (grow_if_full f) = mData f"
proof -
  let ?n = "word_of_nat (mSize f) :: 32 word"
  have n: "unat ?n = mSize f" using assms(2) by (simp add: unat_of_nat)
  have n1: "unat (?n + 1) = mSize f + 1" using assms(2) n by (simp add: unat_word_ariths)
  show "mSize f < unat (mCapacity (grow_if_full f))"
  proof (cases "?n = mCapacity f")
    case True
    have "?n + 1 \<le> GrowCapacity (mCapacity f) (?n + 1)" by (simp add: GrowCapacity_def Let_def)
    then have "mSize f + 1 \<le> unat (GrowCapacity (mCapacity f) (?n + 1))"
      using n1 by (simp add: word_le_nat_alt)
    then show ?thesis using True n by (auto simp: grow_if_full_def Reserve_def word_le_nat_alt)
  next
    case False
    then have "mSize f \<noteq> unat (mCapacity f)" using n by (metis of_nat_unat ucast_id)
    then show ?thesis using False assms(1) by (simp add: grow_if_full_def fields_inv_def)
  qed
  show "mData (grow_if_full f) = mData f" by (simp add: grow_if_full_def Reserve_def)
qed

lemma Insert_at_contents:
  "mSize f < 2 ^ 32 - 1 \<Longrightarrow> fields_inv f \<Longrightarrow> p \<le> mSize f \<Longrightarrow>
   mData (Insert_at p k v f) = take p (mData f) @ (k, v) # drop p (mData f)"
proof -
  assume "mSize f < 2 ^ 32 - 1" "fields_inv f" and p: "p \<le> mSize f"
  then have d: "mData (grow_if_full f) = mData f" by (simp add: grow_if_full_room)
  show ?thesis
  proof (cases "p < length (mData f)")
    case True
    define xs where "xs = take p (mData f)"
    obtain a ys where ys: "drop p (mData f) = a # ys" using True by (metis Cons_nth_drop_Suc)
    have md: "mData f = xs @ a # ys" and lx: "length xs = p"
      using True ys by (simp_all add: xs_def) (metis append_take_drop_id)
    show ?thesis
      using True by (cases ys rule: rev_cases)
        (simp_all add: Insert_at_def d Let_def md lx [symmetric] copy_backward_def list_update_append nth_append)
  qed (use p in \<open>simp add: Insert_at_def d Let_def mSize_def\<close>)
qed

lemma fields_inv_Insert_at:
  assumes "fields_inv f" "mSize f < 2 ^ 32 - 1" "p \<le> mSize f"
  shows "fields_inv (Insert_at p k v f)" "mSize (Insert_at p k v f) = mSize f + 1"
proof -
  have cap: "mCapacity (Insert_at p k v f) = mCapacity (grow_if_full f)"
    by (simp add: Insert_at_def Let_def)
  show sz: "mSize (Insert_at p k v f) = mSize f + 1"
    using assms Insert_at_contents [OF assms(2,1,3), of k v] by (simp add: mSize_def)
  show "fields_inv (Insert_at p k v f)"
    using grow_if_full_room(1) [OF assms(1,2)] cap sz by (simp add: fields_inv_def)
qed

subsection \<open>Storing and reading back a value\<close>

lemma unat_bits_of_double:
  assumes "wf_double d"
  shows "unat (bits_of_double d) =
    (if dneg d then 2 ^ 63 else 0) + (case d of DNaN _ \<Rightarrow> inf_mag + 2 ^ 51 | DNum _ m \<Rightarrow> m)"
  unfolding bits_of_double_def unat_of_nat
  by (rule mod_less) (use assms in \<open>auto simp: wf_double_def inf_mag_def split: double.splits\<close>)

lemma double_of_bits_of_double: "wf_double d \<Longrightarrow> double_of_bits (bits_of_double d) = d"
  by (auto simp: double_of_bits_def Let_def unat_bits_of_double wf_double_def inf_mag_def split: double.splits)

end
