(* ===== verification/Log_Line.thy ===== *)
theory Log_Line
  imports Log_Value
begin

text \<open>
  \<open>library/src/log_line.cpp\<close>: one log record, its fields sorted by key id.  The line's
  source and key index are pointers in the code; here they are arguments of the operations
  that follow them (\<open>None\<close> is the null source).
\<close>

record LogLine =
  mFields :: CompactLineFields
  mLineId :: nat

type_synonym field = "KeyId \<times> CompactLogValue"

definition sorted_fields :: "field list \<Rightarrow> bool" where
  "sorted_fields fs \<longleftrightarrow> sorted_wrt (<) (map fst fs)"

subsection \<open>Constructors\<close>

text \<open>The loop of the first constructor: each value is stored in the source, then appended.\<close>

fun store_values ::
    "nat \<Rightarrow> (KeyId \<times> LogValue) list \<Rightarrow> CompactLineFields \<Rightarrow> LineSource \<Rightarrow>
     (CompactLineFields \<times> LineSource) option" where
  "store_values lineId [] fs src = Some (fs, src)"
| "store_values lineId ((k, v) # kvs) fs src =
     (case MakeCompactFromVariant lineId v src of
        None \<Rightarrow> None
      | Some (c, src') \<Rightarrow> store_values lineId kvs (EmplaceBack k c fs) src')"

definition LogLine_values :: "(KeyId \<times> LogValue) list \<Rightarrow> nat \<Rightarrow> LineSource \<Rightarrow> (LogLine \<times> LineSource) option" where
  "LogLine_values sortedValues lineId src =
     map_option (\<lambda>(fs, src'). (\<lparr>mFields = fs, mLineId = lineId\<rparr>, src'))
       (store_values lineId sortedValues (new_CompactLineFields (word_of_nat (length sortedValues))) src)"

definition LogLine_compact :: "field list \<Rightarrow> nat \<Rightarrow> LogLine" where
  "LogLine_compact sortedValues lineId =
     \<lparr>mFields = AssignSorted sortedValues (new_CompactLineFields 0), mLineId = lineId\<rparr>"

text \<open>The map constructor visits the entries in the order of the hash map, here a list.\<close>

fun stage_entries ::
    "(string \<Rightarrow> 64 word) \<Rightarrow> nat \<Rightarrow> (string \<times> LogValue) list \<Rightarrow> KeyIndex \<Rightarrow> LineSource \<Rightarrow>
     (field list \<times> KeyIndex \<times> LineSource) option" where
  "stage_entries hash lineId [] keys src = Some ([], keys, src)"
| "stage_entries hash lineId ((key, v) # kvs) keys src =
     (let (kid, keys') = GetOrInsert hash key keys
      in case MakeCompactFromVariant lineId v src of
           None \<Rightarrow> None
         | Some (c, src') \<Rightarrow>
             map_option (\<lambda>(fs, r). ((kid, c) # fs, r)) (stage_entries hash lineId kvs keys' src'))"

definition LogLine_map ::
    "(string \<Rightarrow> 64 word) \<Rightarrow> (string \<times> LogValue) list \<Rightarrow> KeyIndex \<Rightarrow> nat \<Rightarrow> LineSource \<Rightarrow>
     (LogLine \<times> KeyIndex \<times> LineSource) option" where
  "LogLine_map hash values keys lineId src =
     (case stage_entries hash lineId values keys src of
        None \<Rightarrow> None
      | Some (staging, keys', src') \<Rightarrow>
          Some (\<lparr>mFields = AssignSorted (sort_key fst staging)
                   (new_CompactLineFields (word_of_nat (length values))), mLineId = lineId\<rparr>, keys', src'))"

subsection \<open>Reading\<close>

text \<open>The linear scan with its early exit behind the wanted id.\<close>

fun find_compact :: "KeyId \<Rightarrow> field list \<Rightarrow> CompactLogValue option" where
  "find_compact kid [] = None"
| "find_compact kid ((k, v) # fs) =
     (if k = kid then Some v else if k > kid then None else find_compact kid fs)"

definition FindCompact :: "KeyId \<Rightarrow> LogLine \<Rightarrow> CompactLogValue option" where
  "FindCompact kid line = find_compact kid (mData (mFields line))"

definition PeekStringView :: "CompactLogValue \<Rightarrow> LineSource option \<Rightarrow> LogLine \<Rightarrow> string option" where
  "PeekStringView slot source line =
     (case source of None \<Rightarrow> None
      | Some src \<Rightarrow>
          if tag slot = MmapSlice then
            (let bytes = ResolveMmapBytes (payload slot) (aux slot) src
             in if bytes = [] \<and> aux slot \<noteq> 0 then None else Some bytes)
          else if tag slot = OwnedString then
            Some (ResolveOwnedBytes (payload slot) (aux slot) (mLineId line) src)
          else None)"

definition PeekStringView_id :: "KeyId \<Rightarrow> LineSource option \<Rightarrow> LogLine \<Rightarrow> string option" where
  "PeekStringView_id kid source line =
     (case FindCompact kid line of None \<Rightarrow> None | Some slot \<Rightarrow> PeekStringView slot source line)"

definition GetValue_id :: "KeyId \<Rightarrow> LineSource option \<Rightarrow> LogLine \<Rightarrow> LogValue" where
  "GetValue_id kid source line =
     (case FindCompact kid line of
        None \<Rightarrow> VMonostate
      | Some c \<Rightarrow> Materialise c source (mLineId line) kid)"

definition GetValue_key ::
    "(string \<Rightarrow> 64 word) \<Rightarrow> string \<Rightarrow> KeyIndex option \<Rightarrow> LineSource option \<Rightarrow> LogLine \<Rightarrow> LogValue" where
  "GetValue_key hash key keys source line =
     (case keys of
        None \<Rightarrow> VMonostate
      | Some ki \<Rightarrow>
          if key = [] then VMonostate
          else (let kid = Find_key hash key ki
                in if kid = INVALID_KEY_ID then VMonostate else GetValue_id kid source line))"

definition has_tag :: "CompactTag \<Rightarrow> KeyId \<Rightarrow> LogLine \<Rightarrow> bool" where
  "has_tag t kid line \<longleftrightarrow> (case FindCompact kid line of None \<Rightarrow> False | Some c \<Rightarrow> tag c = t)"

definition IsMmapSlice :: "KeyId \<Rightarrow> LogLine \<Rightarrow> bool" where
  "IsMmapSlice = has_tag MmapSlice"

definition IsOwnedString :: "KeyId \<Rightarrow> LogLine \<Rightarrow> bool" where
  "IsOwnedString = has_tag OwnedString"

definition IsDictRef :: "KeyId \<Rightarrow> LogLine \<Rightarrow> bool" where
  "IsDictRef = has_tag DictRef"

definition line_GetEnumValueId :: "KeyId \<Rightarrow> LogLine \<Rightarrow> EnumValueId option" where
  "line_GetEnumValueId kid line =
     (case FindCompact kid line of
        None \<Rightarrow> None
      | Some c \<Rightarrow> if tag c \<noteq> DictRef then None else Some (ucast (payload c)))"

definition GetKeys :: "KeyIndex \<Rightarrow> LogLine \<Rightarrow> string option list" where
  "GetKeys keys line = map (\<lambda>(k, _). KeyOf k keys) (mData (mFields line))"

definition IndexedValues :: "LineSource option \<Rightarrow> LogLine \<Rightarrow> (KeyId \<times> LogValue) list" where
  "IndexedValues source line =
     map (\<lambda>(k, c). (k, Materialise c source (mLineId line) k)) (mData (mFields line))"

subsection \<open>Writing\<close>

text \<open>The binary search of \<open>SetCompact\<close>: the first position whose key is not below \<open>kid\<close>.\<close>

function lower_bound :: "KeyId \<Rightarrow> field list \<Rightarrow> nat \<Rightarrow> nat \<Rightarrow> nat" where
  "lower_bound kid fs lo hi =
     (if lo < hi then
        (let mid = lo + (hi - lo) div 2
         in if fst (fs ! mid) < kid then lower_bound kid fs (mid + 1) hi else lower_bound kid fs lo mid)
      else lo)"
  by pat_completeness auto
termination
  by (relation "measure (\<lambda>(kid, fs, lo, hi). hi - lo)") (auto simp: less_mult_imp_div_less)

declare lower_bound.simps [simp del]

definition set_compact :: "KeyId \<Rightarrow> CompactLogValue \<Rightarrow> CompactLineFields \<Rightarrow> CompactLineFields" where
  "set_compact kid c f =
     (let n = mSize f; lo = lower_bound kid (mData f) 0 n
      in if lo < n \<and> fst (mData f ! lo) = kid then Set_at lo c f else Insert_at lo kid c f)"

definition SetCompact :: "KeyId \<Rightarrow> CompactLogValue \<Rightarrow> LogLine \<Rightarrow> LogLine" where
  "SetCompact kid c line = line\<lparr>mFields := set_compact kid c (mFields line)\<rparr>"

definition SetValue :: "KeyId \<Rightarrow> LogValue \<Rightarrow> LogLine \<Rightarrow> LineSource \<Rightarrow> (LogLine \<times> LineSource) option" where
  "SetValue kid value line src =
     map_option (\<lambda>(c, src'). (SetCompact kid c line, src')) (MakeCompactFromVariant (mLineId line) value src)"

definition SetValue_key ::
    "(string \<Rightarrow> 64 word) \<Rightarrow> string \<Rightarrow> LogValue \<Rightarrow> KeyIndex option \<Rightarrow> LogLine \<Rightarrow> LineSource \<Rightarrow>
     (LogLine \<times> LineSource) option" where
  "SetValue_key hash key value keys line src =
     (case keys of None \<Rightarrow> None
      | Some ki \<Rightarrow>
          let kid = Find_key hash key ki
          in if kid = INVALID_KEY_ID then None else SetValue kid value line src)"

definition SetOrReplaceEnumDictRef :: "KeyId \<Rightarrow> EnumValueId \<Rightarrow> LogLine \<Rightarrow> LogLine" where
  "SetOrReplaceEnumDictRef kid vid line = SetCompact kid (MakeDictRef vid) line"

definition ShiftLineId :: "nat \<Rightarrow> LogLine \<Rightarrow> LogLine" where
  "ShiftLineId delta line = line\<lparr>mLineId := mLineId line + delta\<rparr>"

definition line_Rebase :: "64 word \<Rightarrow> LogLine \<Rightarrow> LogLine" where
  "line_Rebase delta line =
     (let f = mFields line in line\<lparr>mFields := f\<lparr>mData := RebaseOwnedStringOffsets delta (mData f)\<rparr>\<rparr>)"

subsection \<open>The scan and the binary search on sorted fields\<close>

lemma sorted_fields_Cons:
  "sorted_fields ((k, v) # fs) \<longleftrightarrow> (\<forall>x\<in>set fs. k < fst x) \<and> sorted_fields fs"
  by (auto simp: sorted_fields_def)

lemma find_compact_map_of:
  "sorted_fields fs \<Longrightarrow> find_compact kid fs = map_of fs kid"
proof (induction fs)
  case (Cons x fs)
  obtain k v where x: "x = (k, v)" by (cases x)
  have "map_of fs kid = None" if "kid < k"
    using Cons.prems that by (force simp: x sorted_fields_Cons map_of_eq_None_iff)
  then show ?case using Cons by (auto simp: x sorted_fields_Cons)
qed simp

lemma lower_bound_mono:
  assumes "\<And>i j. i \<le> j \<Longrightarrow> j < length fs \<Longrightarrow> fst (fs ! i) \<le> fst (fs ! j)"
    and "lo \<le> hi" "hi \<le> length fs"
    and "\<And>i. i < lo \<Longrightarrow> fst (fs ! i) < kid"
    and "\<And>i. hi \<le> i \<Longrightarrow> i < length fs \<Longrightarrow> kid \<le> fst (fs ! i)"
  shows "lower_bound kid fs lo hi \<le> length fs \<and> (\<forall>i<lower_bound kid fs lo hi. fst (fs ! i) < kid) \<and>
    (\<forall>i<length fs. lower_bound kid fs lo hi \<le> i \<longrightarrow> kid \<le> fst (fs ! i))"
  using assms
proof (induction kid fs lo hi rule: lower_bound.induct)
  case (1 kid fs lo hi)
  let ?mid = "lo + (hi - lo) div 2"
  show ?case
  proof (cases "lo < hi")
    case True
    then have mid: "lo \<le> ?mid" "?mid < hi" and Suc_mid: "?mid + 1 \<le> hi" by auto
    have midlen: "?mid \<le> length fs" using mid(2) 1(5) by linarith
    show ?thesis
    proof (cases "fst (fs ! ?mid) < kid")
      case low: True
      have below: "fst (fs ! i) < kid" if "i < ?mid + 1" for i
      proof -
        have "i \<le> ?mid" "?mid < length fs" using that mid 1(5) by auto
        then have "fst (fs ! i) \<le> fst (fs ! ?mid)" by (rule 1(3))
        then show ?thesis using low by (rule le_less_trans)
      qed
      have "lower_bound kid fs (?mid + 1) hi \<le> length fs \<and>
          (\<forall>i<lower_bound kid fs (?mid + 1) hi. fst (fs ! i) < kid) \<and>
          (\<forall>i<length fs. lower_bound kid fs (?mid + 1) hi \<le> i \<longrightarrow> kid \<le> fst (fs ! i))"
        by (rule 1(1) [OF True refl low])
          (erule (1) 1(3) | rule Suc_mid 1(5) | erule below | erule (1) 1(7))+
      moreover have "lower_bound kid fs lo hi = lower_bound kid fs (?mid + 1) hi"
        by (subst lower_bound.simps) (simp add: True low Let_def)
      ultimately show ?thesis by simp
    next
      case high: False
      have above: "kid \<le> fst (fs ! i)" if "?mid \<le> i" "i < length fs" for i
      proof -
        have "fst (fs ! ?mid) \<le> fst (fs ! i)" using that by (rule 1(3))
        then show ?thesis using high by simp
      qed
      have "lower_bound kid fs lo ?mid \<le> length fs \<and>
          (\<forall>i<lower_bound kid fs lo ?mid. fst (fs ! i) < kid) \<and>
          (\<forall>i<length fs. lower_bound kid fs lo ?mid \<le> i \<longrightarrow> kid \<le> fst (fs ! i))"
        by (rule 1(2) [OF True refl high])
          (erule (1) 1(3) | rule mid midlen | erule 1(6) | erule (1) above)+
      moreover have "lower_bound kid fs lo hi = lower_bound kid fs lo ?mid"
        by (subst lower_bound.simps) (simp add: True high Let_def)
      ultimately show ?thesis by simp
    qed
  next
    case False
    then have "lower_bound kid fs lo hi = lo" by (subst lower_bound.simps) simp
    then show ?thesis using False 1(4-7) by simp
  qed
qed

lemma sorted_fields_mono:
  assumes "sorted_fields fs" "i \<le> j" "j < length fs"
  shows "fst (fs ! i) \<le> fst (fs ! j)"
  using assms sorted_wrt_nth_less [of "(<)" "map fst fs" i j]
  by (cases "i = j") (auto simp: sorted_fields_def)

lemma lower_bound_spec:
  fixes kid :: KeyId
  assumes "sorted_fields fs"
  defines "r \<equiv> lower_bound kid fs 0 (length fs)"
  shows "r \<le> length fs" "\<And>x. x \<in> set (take r fs) \<Longrightarrow> fst x < kid" "\<And>x. x \<in> set (drop r fs) \<Longrightarrow> kid \<le> fst x"
proof -
  have r: "r \<le> length fs \<and> (\<forall>i<r. fst (fs ! i) < kid) \<and> (\<forall>i<length fs. r \<le> i \<longrightarrow> kid \<le> fst (fs ! i))"
    unfolding r_def by (rule lower_bound_mono) (auto intro: sorted_fields_mono [OF assms(1)])
  then show "r \<le> length fs" by blast
  show "fst x < kid" if "x \<in> set (take r fs)" for x
    using that r by (auto simp: in_set_conv_nth)
  show "kid \<le> fst x" if "x \<in> set (drop r fs)" for x
    using that r by (auto simp: in_set_conv_nth)
qed

definition line_inv :: "LogLine \<Rightarrow> bool" where
  "line_inv line \<longleftrightarrow> fields_inv (mFields line) \<and> sorted_fields (mData (mFields line))"

lemma sorted_fields_append:
  "sorted_fields (xs @ ys) \<longleftrightarrow>
     sorted_fields xs \<and> sorted_fields ys \<and> (\<forall>x\<in>set xs. \<forall>y\<in>set ys. fst x < fst y)"
  by (auto simp: sorted_fields_def sorted_wrt_append)

lemma set_compact_data:
  assumes "sorted_fields (mData f)" "fields_inv f" "mSize f < 2 ^ 32 - 1"
  obtains xs ys where "mData (set_compact kid c f) = xs @ (kid, c) # ys"
    and "mData f = xs @ ys \<or> (\<exists>v. mData f = xs @ (kid, v) # ys)"
    and "\<And>x. x \<in> set xs \<Longrightarrow> fst x < kid" "\<And>y. y \<in> set ys \<Longrightarrow> kid < fst y"
proof -
  let ?fs = "mData f" and ?r = "lower_bound kid (mData f) 0 (length (mData f))"
  note r = lower_bound_spec [OF assms(1), where kid = kid]
  show thesis
  proof (cases "?r < length ?fs \<and> fst (?fs ! ?r) = kid")
    case True
    then have split: "?fs = take ?r ?fs @ (kid, snd (?fs ! ?r)) # drop (Suc ?r) ?fs"
      by (metis id_take_nth_drop surjective_pairing)
    have new: "mData (set_compact kid c f) = take ?r ?fs @ (kid, c) # drop (Suc ?r) ?fs"
      using True by (simp add: set_compact_def mSize_def Set_at_def upd_conv_take_nth_drop Let_def)
    have "kid < fst y" if "y \<in> set (drop (Suc ?r) ?fs)" for y
      using assms(1) that split by (metis list.set_intros(1,2) sorted_fields_Cons sorted_fields_append)
    with split new r(2) show thesis by (intro that) blast+
  next
    case False
    have "?r \<le> mSize f" using r(1) by (simp add: mSize_def)
    then have new: "mData (set_compact kid c f) = take ?r ?fs @ (kid, c) # drop ?r ?fs"
      using False assms by (auto simp: set_compact_def mSize_def [symmetric] Insert_at_contents Let_def)
    have "kid < fst y" if y: "y \<in> set (drop ?r ?fs)" for y
    proof -
      obtain i where "i < length (drop ?r ?fs)" "y = drop ?r ?fs ! i" using y by (metis in_set_conv_nth)
      then obtain j where j: "?r \<le> j" "j < length ?fs" "y = ?fs ! j"
        by (intro that [of "?r + i"]) auto
      have "kid \<le> fst y" by (rule r(3) [OF y])
      moreover have "fst y \<noteq> kid"
      proof
        assume "fst y = kid"
        then have le: "fst (?fs ! ?r) \<le> kid" using sorted_fields_mono [OF assms(1) j(1,2)] j(3) by simp
        have rlen: "?r < length ?fs" using j(1,2) by (rule le_less_trans)
        have "kid \<le> fst (?fs ! ?r)" by (rule r(3)) (metis rlen Cons_nth_drop_Suc list.set_intros(1))
        with le have "fst (?fs ! ?r) = kid" by (rule order.antisym)
        with rlen False show False by blast
      qed
      ultimately show ?thesis by simp
    qed
    with new r(2) show thesis by (intro that [of "take ?r ?fs" "drop ?r ?fs"]) simp_all
  qed
qed

lemma find_set_compact:
  assumes "sorted_fields (mData f)" "fields_inv f" "mSize f < 2 ^ 32 - 1"
  shows "find_compact k (mData (set_compact kid c f)) = (if k = kid then Some c else find_compact k (mData f))"
    and "sorted_fields (mData (set_compact kid c f))"
proof -
  obtain xs ys where new: "mData (set_compact kid c f) = xs @ (kid, c) # ys"
    and old: "mData f = xs @ ys \<or> (\<exists>v. mData f = xs @ (kid, v) # ys)"
    and lo: "\<And>x. x \<in> set xs \<Longrightarrow> fst x < kid" and hi: "\<And>y. y \<in> set ys \<Longrightarrow> kid < fst y"
    using set_compact_data [OF assms] by blast
  have parts: "sorted_fields xs \<and> sorted_fields ys \<and> (\<forall>x\<in>set xs. \<forall>y\<in>set ys. fst x < fst y)"
    using old assms(1) unfolding sorted_fields_append by (metis list.set_intros(2) sorted_fields_Cons sorted_fields_append)
  show sorted: "sorted_fields (mData (set_compact kid c f))"
    unfolding new sorted_fields_append sorted_fields_Cons using parts lo hi by auto
  have "map_of xs kid = None" using lo by (force simp: map_of_eq_None_iff)
  then have "map_of (xs @ (kid, c) # ys) k = (if k = kid then Some c else map_of (mData f) k)"
    using old by (auto simp: map_add_def split: option.splits)
  then show "find_compact k (mData (set_compact kid c f)) = (if k = kid then Some c else find_compact k (mData f))"
    using find_compact_map_of [OF sorted, of k] find_compact_map_of [OF assms(1), of k] new by simp
qed

section \<open>Storing a value and reading it back\<close>

text \<open>Equal values, where a view and an owned string with the same bytes count as equal.\<close>

definition same_value :: "LogValue \<Rightarrow> LogValue \<Rightarrow> bool" where
  "same_value a b \<longleftrightarrow>
     (case AsStringView a of Some s \<Rightarrow> AsStringView b = Some s | None \<Rightarrow> a = b)"

text \<open>What the type of a value guarantees: a view shows the bytes at its address.\<close>

definition value_ok :: "LineSource \<Rightarrow> LogValue \<Rightarrow> bool" where
  "value_ok src v \<longleftrightarrow>
     (case v of
        VView addr s \<Rightarrow> length s < 2 ^ 32 \<and>
          (\<forall>off. addr = Some off \<longrightarrow> off + length s \<le> length (StableBytes src) \<longrightarrow>
             take (length s) (drop off (StableBytes src)) = s)
      | VString s \<Rightarrow> length s < 2 ^ 32
      | VDouble d \<Rightarrow> wf_double d
      | _ \<Rightarrow> True)"

definition source_fits :: "LineSource \<Rightarrow> bool" where
  "source_fits src \<longleftrightarrow> length (StableBytes src) < 2 ^ 63 \<and>
     (\<forall>l a. source_arena src l = Some a \<longrightarrow> length a < 2 ^ 63)"

text \<open>A string slot points inside its arena.\<close>

definition slot_ok :: "LineSource \<Rightarrow> nat \<Rightarrow> CompactLogValue \<Rightarrow> bool" where
  "slot_ok src l c \<longleftrightarrow> (tag c = OwnedString \<longrightarrow>
     (\<exists>a. source_arena src l = Some a \<and> unat (payload c) + unat (aux c) \<le> length a))"

lemma AppendOwnedBytes_frame:
  assumes "AppendOwnedBytes l b src = Some (off, src')"
  shows "StableBytes src' = StableBytes src" "mEnumDictionaries src' = mEnumDictionaries src"
    "ResolveMmapBytes o' n src' = ResolveMmapBytes o' n src"
  using assms
  by (auto simp: AppendOwnedBytes_def AppendOwnedStrings_def StableBytes_def ResolveMmapBytes_def
      split: SourceImpl.splits option.splits prod.splits)

lemma MakeCompact_cases:
  assumes "MakeCompactFromVariant l v src = Some (c, src')"
  obtains (plain) "src' = src" "tag c \<noteq> OwnedString"
    | (owned) s where "AsStringView v = Some s" "PromoteToOwnedString l s src = Some (c, src')"
  using assms
  by (cases v) (auto simp: MakeCompactFromVariant_def AsStringView_def Let_def MakeMonostate_def MakeMmapSlice_def
      MakeInt64_def MakeUint64_def MakeDouble_def MakeBool_def MakeTimestamp_def
      split: if_splits option.splits)

lemma MakeCompact_read:
  assumes "source_inv src" "value_ok src v" "MakeCompactFromVariant l v src = Some (c, src')" "source_fits src'"
  shows "same_value (Materialise c (Some src') l kid) v"
proof -
  have owned: ?thesis if s: "AsStringView v = Some s" and p: "PromoteToOwnedString l s src = Some (c, src')" for s
  proof -
    obtain off where off: "AppendOwnedBytes l s src = Some (off, src')" "c = MakeOwnedString off (word_of_nat (length s))"
      using p by (auto simp: PromoteToOwnedString_def)
    have "length s < 2 ^ 32" using assms(2) s by (auto simp: value_ok_def AsStringView_def split: LogValue.splits)
    then have "ResolveOwnedBytes off (word_of_nat (length s)) l src' = s"
      using source_arena.resolve_append [OF assms(1) off(1)] assms(4) by (simp add: source_fits_def)
    then show ?thesis
      using off(2) s by (simp add: same_value_def Materialise_def MakeOwnedString_def AsStringView_def)
  qed
  have view: ?thesis
    if v: "v = VView (Some off) s" and st: "off + length s \<le> length (StableBytes src)" "StableBytes src \<noteq> []"
    for off s
  proof -
    have fits: "length (StableBytes src) < 2 ^ 63" "length s < 2 ^ 32"
      using assms(2-4) v st by (auto simp: MakeCompactFromVariant_def Let_def source_fits_def value_ok_def)
    have c: "c = MakeMmapSlice (word_of_nat off) (word_of_nat (length s))" "src' = src"
      using assms(3) v st by (simp_all add: MakeCompactFromVariant_def Let_def)
    have n: "unat (word_of_nat off :: 64 word) = off" "unat (word_of_nat (length s) :: 32 word) = length s"
      using fits st by (simp_all add: unat_of_nat)
    have "slice_at (StableBytes src) (word_of_nat off) (word_of_nat (length s)) = s"
      using fits st assms(2) v by (simp add: slice_at_eq n value_ok_def)
    moreover have "ResolveMmapBytes o' len src = slice_at (StableBytes src) o' len" for o' len
      using st(2) by (cases "impl src") (simp_all add: ResolveMmapBytes_def StableBytes_def)
    ultimately show ?thesis
      using c n fits(2) v by (auto simp: same_value_def Materialise_def MakeMmapSlice_def AsStringView_def Let_def)
  qed
  show ?thesis
  proof (cases v)
    case (VView addr s)
    then show ?thesis
      using owned [of s] view [of _ s] assms(3)
      by (auto simp: MakeCompactFromVariant_def AsStringView_def Let_def split: option.splits if_splits)
  next
    case (VString s)
    then show ?thesis using owned [of s] assms(3) by (simp add: MakeCompactFromVariant_def AsStringView_def)
  qed (use assms(2,3) in \<open>auto simp: MakeCompactFromVariant_def same_value_def AsStringView_def Materialise_def
      MakeMonostate_def MakeInt64_def MakeUint64_def MakeDouble_def MakeBool_def MakeTimestamp_def
      double_of_bits_of_double value_ok_def\<close>)
qed

lemma MakeCompact_keeps:
  assumes "source_inv src" "MakeCompactFromVariant l v src = Some (c, src')" "source_fits src'" "slot_ok src l' c'"
  shows "Materialise c' (Some src') l' kid = Materialise c' (Some src) l' kid"
  using assms(2)
proof (cases rule: MakeCompact_cases)
  case (owned s)
  then obtain off where off: "AppendOwnedBytes l s src = Some (off, src')"
    by (auto simp: PromoteToOwnedString_def)
  note frame = AppendOwnedBytes_frame [OF off]
  have "tag c' = OwnedString \<Longrightarrow>
      ResolveOwnedBytes (payload c') (aux c') l' src' = ResolveOwnedBytes (payload c') (aux c') l' src"
    using source_arena.resolve_kept [OF assms(1) off] assms(3,4) by (auto simp: slot_ok_def source_fits_def)
  then show ?thesis
    by (auto simp: Materialise_def materialise_dict_ref_def frame split: CompactTag.split)
qed simp

lemma MakeCompact_slot_ok:
  assumes "source_inv src" "value_ok src v" "MakeCompactFromVariant l v src = Some (c, src')" "source_fits src'"
  shows "source_inv src'" "slot_ok src' l c" "slot_ok src l' c' \<Longrightarrow> slot_ok src' l' c'"
proof -
  have "source_inv src' \<and> slot_ok src' l c \<and> (slot_ok src l' c' \<longrightarrow> slot_ok src' l' c')"
    using assms(3)
  proof (cases rule: MakeCompact_cases)
    case (owned s)
    then obtain off where off: "AppendOwnedBytes l s src = Some (off, src')"
        "c = MakeOwnedString off (word_of_nat (length s))"
      by (auto simp: PromoteToOwnedString_def)
    obtain a where a: "source_arena src l = Some a"
      using source_arena.append_dead [OF assms(1), of l s] off(1) by (cases "source_arena src l") auto
    have here: "off = word_of_nat (length a)" "source_arena src' l = Some (a @ s)"
      using source_arena.append_here [OF assms(1) off(1) a] by auto
    have "length s < 2 ^ 32" using assms(2) owned(1) by (auto simp: value_ok_def AsStringView_def split: LogValue.splits)
    moreover have "length (a @ s) < 2 ^ 63" using assms(4) here(2) unfolding source_fits_def by blast
    ultimately have "unat off + unat (word_of_nat (length s) :: 32 word) \<le> length (a @ s)"
      by (simp add: here(1) unat_of_nat)
    then have "slot_ok src' l c" using here(2) off(2) by (simp add: slot_ok_def MakeOwnedString_def)
    moreover have "slot_ok src l' c' \<longrightarrow> slot_ok src' l' c'"
      using source_arena.append_other [OF assms(1) off(1)] by (fastforce simp: slot_ok_def)
    ultimately show ?thesis using source_arena.inv_append [OF assms(1) off(1)] by blast
  qed (use assms(1) in \<open>simp add: slot_ok_def\<close>)
  then show "source_inv src'" "slot_ok src' l c" "slot_ok src l' c' \<Longrightarrow> slot_ok src' l' c'" by blast+
qed

lemma GetValue_SetValue:
  assumes "line_inv line" "mSize (mFields line) < 2 ^ 32 - 1" "source_inv src" "value_ok src v"
    and "SetValue kid v line src = Some (line', src')" "source_fits src'"
    and "\<And>k c. FindCompact k line = Some c \<Longrightarrow> slot_ok src (mLineId line) c"
  shows "same_value (GetValue_id kid (Some src') line') v"
    and "k \<noteq> kid \<Longrightarrow> GetValue_id k (Some src') line' = GetValue_id k (Some src) line"
    and "sorted_fields (mData (mFields line'))"
proof -
  obtain c where c: "MakeCompactFromVariant (mLineId line) v src = Some (c, src')" "line' = SetCompact kid c line"
    using assms(5) by (auto simp: SetValue_def)
  have find: "FindCompact k line' = (if k = kid then Some c else FindCompact k line)" for k
    using find_set_compact(1) [of "mFields line" k kid c] assms(1,2)
    by (simp add: c(2) FindCompact_def SetCompact_def line_inv_def)
  have id: "mLineId line' = mLineId line" by (simp add: c(2) SetCompact_def)
  show "same_value (GetValue_id kid (Some src') line') v"
    using MakeCompact_read [OF assms(3,4) c(1) assms(6)] by (simp add: GetValue_id_def find id)
  show "k \<noteq> kid \<Longrightarrow> GetValue_id k (Some src') line' = GetValue_id k (Some src) line"
    using MakeCompact_keeps [OF assms(3) c(1) assms(6)] assms(7)
    by (auto simp: GetValue_id_def find id split: option.splits)
  show "sorted_fields (mData (mFields line'))"
    using find_set_compact(2) assms(1,2) by (simp add: c(2) SetCompact_def line_inv_def)
qed

end
