(* ===== verification/Filter_Expression.thy ===== *)
theory Filter_Expression
  imports Ieee_Double
begin

text \<open>
  \<open>library/include/loglib/filter_expression.hpp\<close>: one leaf of a filter (\<open>LeafRule\<close>) and the
  boolean expression tree over leaves (\<open>FilterExpression\<close>), with the factory functions.
  A null \<open>Not::child\<close> is \<open>FNot None\<close>.  Time bounds are microseconds since the UNIX epoch.
\<close>

datatype LeafType = TString | TTime | TEnumeration | TNumber | TBoolean

datatype Match = Exactly | Contains | RegularExpression | Wildcard

record LeafRule =
  leafType :: LeafType
  columnKeys :: "string list"
  matchType :: "Match option"
  filterString :: "string option"
  filterBegin :: "int option"
  filterEnd :: "int option"
  filterMinValue :: "double option"
  filterMaxValue :: "double option"
  filterValues :: "string list"

definition default_LeafRule :: LeafRule where
  "default_LeafRule =
     \<lparr>leafType = TString, columnKeys = [], matchType = None, filterString = None,
      filterBegin = None, filterEnd = None, filterMinValue = None, filterMaxValue = None,
      filterValues = []\<rparr>"

datatype FilterExpression =
    FLeaf LeafRule
  | FAnd "FilterExpression list"
  | FOr "FilterExpression list"
  | FNot "FilterExpression option"

definition default_FilterExpression :: FilterExpression where
  "default_FilterExpression = FAnd []"

definition IsMatchAll :: "FilterExpression \<Rightarrow> bool" where
  "IsMatchAll expr \<longleftrightarrow> (case expr of FAnd children \<Rightarrow> children = [] | _ \<Rightarrow> False)"

definition MakeLeaf :: "LeafRule \<Rightarrow> FilterExpression" where
  "MakeLeaf rule = FLeaf rule"

definition MakeAnd :: "FilterExpression list \<Rightarrow> FilterExpression" where
  "MakeAnd children = FAnd children"

definition MakeOr :: "FilterExpression list \<Rightarrow> FilterExpression" where
  "MakeOr children = FOr children"

definition MakeNot :: "FilterExpression \<Rightarrow> FilterExpression" where
  "MakeNot child = FNot (Some child)"

lemmas make_defs = MakeLeaf_def MakeAnd_def MakeOr_def MakeNot_def

lemma IsMatchAll_simps [simp]:
  "IsMatchAll (FLeaf r) = False" "IsMatchAll (FAnd cs) = (cs = [])"
  "IsMatchAll (FOr cs) = False" "IsMatchAll (FNot c) = False"
  by (simp_all add: IsMatchAll_def)

end
