(* ===== verification/Log_Level.thy ===== *)
theory Log_Level
  imports Prelude
begin

text \<open>
  \<open>library/src/log_level.cpp\<close>: the canonical severity levels, the built-in table of aliases and
  the per-column overrides, compared by the ASCII case folding of
  \<open>internal/ascii_case.hpp\<close>.
\<close>

datatype LogLevel = LvUnknown | LvTrace | LvDebug | LvInfo | LvWarn | LvError | LvFatal

text \<open>The loop of \<open>internal::EqualsIgnoreCaseAscii\<close>, byte by byte.\<close>

fun ascii_case_equal :: "string \<Rightarrow> string \<Rightarrow> bool" where
  "ascii_case_equal [] [] = True"
| "ascii_case_equal (a # as) (b # bs) = (if tolower a \<noteq> tolower b then False else ascii_case_equal as bs)"
| "ascii_case_equal _ _ = False"

definition BUILTIN_ALIASES :: "(string \<times> LogLevel) list" where
  "BUILTIN_ALIASES =
    [(''trace'', LvTrace), (''trc'', LvTrace), (''t'', LvTrace), (''finer'', LvTrace),
     (''finest'', LvTrace), (''silly'', LvTrace), (''debug'', LvDebug), (''dbg'', LvDebug),
     (''d'', LvDebug), (''verbose'', LvDebug), (''vrb'', LvDebug), (''v'', LvDebug),
     (''fine'', LvDebug), (''info'', LvInfo), (''inf'', LvInfo), (''i'', LvInfo),
     (''information'', LvInfo), (''informational'', LvInfo), (''notice'', LvInfo), (''warn'', LvWarn),
     (''wrn'', LvWarn), (''w'', LvWarn), (''warning'', LvWarn), (''error'', LvError),
     (''err'', LvError), (''e'', LvError), (''severe'', LvError), (''fatal'', LvFatal),
     (''ftl'', LvFatal), (''f'', LvFatal), (''critical'', LvFatal), (''crit'', LvFatal),
     (''emerg'', LvFatal), (''emergency'', LvFatal), (''panic'', LvFatal), (''alert'', LvFatal),
     (''fault'', LvFatal)]"

definition CanonicalLevelName :: "LogLevel \<Rightarrow> string" where
  "CanonicalLevelName level =
     (case level of
        LvTrace \<Rightarrow> ''Trace'' | LvDebug \<Rightarrow> ''Debug'' | LvInfo \<Rightarrow> ''Info'' | LvWarn \<Rightarrow> ''Warn''
      | LvError \<Rightarrow> ''Error'' | LvFatal \<Rightarrow> ''Fatal'' | LvUnknown \<Rightarrow> ''Unknown'')"

fun find_alias :: "string \<Rightarrow> (string \<times> LogLevel) list \<Rightarrow> LogLevel option" where
  "find_alias bytes [] = None"
| "find_alias bytes ((a, level) # rest) =
     (if ascii_case_equal bytes a then Some level else find_alias bytes rest)"

definition ParseLevelName :: "string \<Rightarrow> LogLevel option" where
  "ParseLevelName bytes = (if bytes = [] then None else find_alias bytes BUILTIN_ALIASES)"

fun ResolveLevel :: "string \<Rightarrow> (string \<times> string) list \<Rightarrow> LogLevel option" where
  "ResolveLevel bytes [] = ParseLevelName bytes"
| "ResolveLevel bytes ((a, canonicalName) # overrides) =
     (if \<not> ascii_case_equal bytes a then ResolveLevel bytes overrides
      else case ParseLevelName canonicalName of
             Some level \<Rightarrow> Some level
           | None \<Rightarrow> ResolveLevel bytes overrides)"

subsection \<open>Properties\<close>

lemma ascii_case_equal_fold: "ascii_case_equal a b \<longleftrightarrow> map tolower a = map tolower b"
  by (induction a b rule: ascii_case_equal.induct) auto

lemma find_alias_Some:
  "find_alias bytes tab = Some level \<Longrightarrow> \<exists>a. (a, level) \<in> set tab \<and> ascii_case_equal bytes a"
  by (induction bytes tab rule: find_alias.induct) (auto split: if_splits)

lemma find_alias_case:
  "map tolower s = map tolower t \<Longrightarrow> find_alias s tab = find_alias t tab"
  by (induction s tab rule: find_alias.induct) (auto simp: ascii_case_equal_fold)

lemma ParseLevelName_case: "map tolower s = map tolower t \<Longrightarrow> ParseLevelName s = ParseLevelName t"
  using find_alias_case [of s t BUILTIN_ALIASES] by (auto simp: ParseLevelName_def)

lemma ResolveLevel_case:
  "map tolower s = map tolower t \<Longrightarrow> ResolveLevel s ovs = ResolveLevel t ovs"
proof (induction ovs)
  case Nil
  then show ?case using ParseLevelName_case [of s t] by simp
next
  case (Cons ov ovs)
  then show ?case by (cases ov) (simp add: ascii_case_equal_fold split: option.split)
qed

lemma builtin_lower: "list_all (\<lambda>(a, _). map tolower a = a) BUILTIN_ALIASES"
  by code_simp

lemma find_alias_map_of:
  "list_all (\<lambda>(a, _). map tolower a = a) tab \<Longrightarrow> find_alias s tab = map_of tab (map tolower s)"
  by (induction s tab rule: find_alias.induct) (auto simp: ascii_case_equal_fold)

lemma builtin_distinct: "distinct (map fst BUILTIN_ALIASES)"
  by (simp add: BUILTIN_ALIASES_def)

lemma ParseLevelName_eq: "ParseLevelName s = map_of BUILTIN_ALIASES (map tolower s)"
proof (cases "s = []")
  case True
  moreover have "map_of BUILTIN_ALIASES [] = None" by (simp add: BUILTIN_ALIASES_def)
  ultimately show ?thesis by (simp add: ParseLevelName_def)
qed (simp add: ParseLevelName_def find_alias_map_of [OF builtin_lower])

lemma builtin_known: "(a, level) \<in> set BUILTIN_ALIASES \<Longrightarrow> level \<noteq> LvUnknown \<and> ParseLevelName a = Some level"
proof -
  assume a: "(a, level) \<in> set BUILTIN_ALIASES"
  then have "map tolower a = a" using builtin_lower by (auto simp: list_all_iff)
  moreover have "level \<noteq> LvUnknown" using a by (auto simp: BUILTIN_ALIASES_def)
  ultimately show ?thesis using a builtin_distinct by (simp add: ParseLevelName_eq)
qed

lemma ParseLevelName_known: "ParseLevelName s = Some level \<Longrightarrow> level \<noteq> LvUnknown"
  using builtin_known by (auto simp: ParseLevelName_eq dest!: map_of_SomeD)

lemma ResolveLevel_known: "ResolveLevel s ovs = Some level \<Longrightarrow> level \<noteq> LvUnknown"
  by (induction s ovs rule: ResolveLevel.induct) (auto dest: ParseLevelName_known split: if_splits option.splits)

lemma canonical_alias: "level \<noteq> LvUnknown \<Longrightarrow> (map tolower (CanonicalLevelName level), level) \<in> set BUILTIN_ALIASES"
proof -
  have "map tolower ''Trace'' = ''trace''" "map tolower ''Debug'' = ''debug''" "map tolower ''Info'' = ''info''"
    "map tolower ''Warn'' = ''warn''" "map tolower ''Error'' = ''error''" "map tolower ''Fatal'' = ''fatal''"
    by code_simp+
  then show "level \<noteq> LvUnknown \<Longrightarrow> ?thesis"
    by (cases level) (simp_all only: CanonicalLevelName_def LogLevel.case, simp_all add: BUILTIN_ALIASES_def)
qed

lemma ParseLevelName_canonical: "level \<noteq> LvUnknown \<Longrightarrow> ParseLevelName (CanonicalLevelName level) = Some level"
  using canonical_alias [of level] builtin_distinct by (simp add: ParseLevelName_eq)

text \<open>An override wins over the table; one whose canonical side is not a level is passed over.\<close>

lemma ResolveLevel_override:
  assumes "ParseLevelName canonicalName = Some level"
    and "\<forall>(a, c)\<in>set before. ascii_case_equal s a \<longrightarrow> ParseLevelName c = None"
    and "ascii_case_equal s a"
  shows "ResolveLevel s (before @ (a, canonicalName) # rest) = Some level"
  using assms(2)
  by (induction before) (use assms(1,3) in \<open>auto split: option.split\<close>)

end
