(* ===== verification/Log_Configuration.thy ===== *)
theory Log_Configuration
  imports Filter_Expression Key_Index Log_Level "HOL-Library.Multiset"
begin

text \<open>
  \<open>library/src/log_configuration.cpp\<close> and its header: the persisted configuration (columns,
  filter expression, sort, source, anchors, highlight rules) and its manager, which adds columns
  for the keys of the data, moves columns and keeps a cache of the keys in use.  Reading and
  writing the configuration as JSON is glaze's work; \<open>LoadFromString\<close> takes the outcome of its
  parser.
\<close>

section \<open>The configuration\<close>

datatype ColumnType = CtAny | CtString | CtBoolean | CtInteger | CtFloating | CtNumber | CtTime | CtEnumeration | CtLevel

record Column =
  colHeader :: string
  keys :: "string list"
  printFormat :: string
  ctype :: ColumnType
  parseFormats :: "string list"
  visible :: bool
  levelMapping :: "(string \<times> string) list"
  autoDetect :: bool

definition default_Column :: Column where
  "default_Column =
     \<lparr>colHeader = [], keys = [], printFormat = [], ctype = CtAny, parseFormats = [], visible = True,
      levelMapping = [], autoDetect = True\<rparr>"

text \<open>\<open>columnIndex\<close> is a C++ \<open>int\<close>, \<open>-1\<close> for no sort.\<close>

record Sort =
  columnIndex :: int
  descending :: bool

definition default_Sort :: Sort where
  "default_Sort = \<lparr>columnIndex = -1, descending = False\<rparr>"

datatype SourceKind = SkFile | SkNetworkStream | SkStdin

datatype SourceFormat = SfJson | SfLogfmt | SfCsv | SfRegex

record Source =
  sourceKind :: SourceKind
  sourceFormat :: SourceFormat
  locators :: "string list"
  locatorDedupKeys :: "string list"
  regexPattern :: string
  followRotationSiblings :: bool

record AnchorEntry =
  anchorLocator :: string
  anchorLineId :: "64 word"
  anchorColorIndex :: "8 word"
  anchorNote :: string

record HighlightRule =
  ruleName :: string
  ruleEnabled :: bool
  ruleColumnKeys :: "string list"
  ruleType :: LeafType
  ruleMatchType :: "Match option"
  ruleFilterString :: "string option"
  ruleFilterBegin :: "int option"
  ruleFilterEnd :: "int option"
  ruleFilterMinValue :: "double option"
  ruleFilterMaxValue :: "double option"
  ruleFilterValues :: "string list"
  foregroundIndex :: "8 word"
  backgroundIndex :: "8 word"
  bold :: bool
  italic :: bool

record LogConfiguration =
  cfgColumns :: "Column list"
  cfgExpression :: FilterExpression
  cfgSort :: Sort
  cfgSource :: "Source option"
  cfgAnchors :: "AnchorEntry list"
  cfgHighlightRules :: "HighlightRule list"

definition default_LogConfiguration :: LogConfiguration where
  "default_LogConfiguration =
     \<lparr>cfgColumns = [], cfgExpression = default_FilterExpression, cfgSort = default_Sort,
      cfgSource = None, cfgAnchors = [], cfgHighlightRules = []\<rparr>"

definition HasLocators :: "Source option \<Rightarrow> bool" where
  "HasLocators s = (case s of None \<Rightarrow> False | Some src \<Rightarrow> locators src \<noteq> [])"

definition AppendLocator :: "string \<Rightarrow> string \<Rightarrow> Source \<Rightarrow> Source" where
  "AppendLocator displayPath dedupKey target =
     target\<lparr>locators := locators target @ [displayPath],
            locatorDedupKeys := locatorDedupKeys target @ [dedupKey]\<rparr>"

definition ClearLocators :: "Source \<Rightarrow> Source" where
  "ClearLocators target = target\<lparr>locators := [], locatorDedupKeys := []\<rparr>"

section \<open>Names that decide the type of a column\<close>

definition ToLower :: "string \<Rightarrow> string" where
  "ToLower str = map tolower str"

definition IsTimestampKey :: "string \<Rightarrow> bool" where
  "IsTimestampKey key =
     list_ex (\<lambda>v. ToLower key = v)
       [''timestamp'', ''time'', ''ts'', ''@timestamp'', ''datetime'', ''created_at'']"

definition LEVEL_KEYS :: "string list" where
  "LEVEL_KEYS =
     [''level'', ''severity'', ''loglevel'', ''log.level'', ''log_level'', ''lvl'', ''levelname'', ''priority'',
      ''l'', ''lv'', ''lev'', ''sev'', ''s'', ''loglvl'', ''severity_text'', ''severity.text'', ''severitytext'',
      ''log_severity'', ''log.severity'', ''logseverity'', ''level_name'', ''level.name'', ''@level'']"

definition IsLogLevelKey :: "string \<Rightarrow> bool" where
  "IsLogLevelKey key = list_ex (ascii_case_equal key) LEVEL_KEYS"

fun first_time_from :: "int \<Rightarrow> Column list \<Rightarrow> int" where
  "first_time_from i [] = -1"
| "first_time_from i (c # cs) = (if ctype c = CtTime then i else first_time_from (i + 1) cs)"

definition FirstTimeColumnIndex :: "LogConfiguration \<Rightarrow> int" where
  "FirstTimeColumnIndex cfg = first_time_from 0 (cfgColumns cfg)"

definition DefaultTimeParseFormats :: "string list" where
  "DefaultTimeParseFormats =
     [''%FT%T%Ez'', ''%F %T%Ez'', ''%FT%T'', ''%F %T'', ''%d/%b/%Y:%H:%M:%S %z'', ''%b %e %H:%M:%S'', ''%b %d %H:%M:%S'']"

section \<open>The manager\<close>

record LogConfigurationManager =
  configuration :: LogConfiguration
  mKeysInColumns :: "string set"
  mCacheStale :: bool

definition new_Manager :: LogConfigurationManager where
  "new_Manager = \<lparr>configuration = default_LogConfiguration, mKeysInColumns = {}, mCacheStale = True\<rparr>"

abbreviation mcolumns :: "LogConfigurationManager \<Rightarrow> Column list" where
  "mcolumns m \<equiv> cfgColumns (configuration m)"

definition with_columns :: "Column list \<Rightarrow> LogConfigurationManager \<Rightarrow> LogConfigurationManager" where
  "with_columns cs m = m\<lparr>configuration := (configuration m)\<lparr>cfgColumns := cs\<rparr>\<rparr>"

text \<open>\<open>parsed\<close> is what glaze read, \<open>None\<close> its error; the error leaves the manager as it was and is thrown.\<close>

definition LoadFromString :: "LogConfiguration option \<Rightarrow> LogConfigurationManager \<Rightarrow> bool \<times> LogConfigurationManager" where
  "LoadFromString parsed m =
     (case parsed of
        None \<Rightarrow> (False, m)
      | Some c \<Rightarrow> (True, m\<lparr>configuration := c, mCacheStale := True\<rparr>))"

definition Reset :: "LogConfigurationManager \<Rightarrow> LogConfigurationManager" where
  "Reset m = m\<lparr>configuration := default_LogConfiguration, mCacheStale := True\<rparr>"

definition SetConfiguration :: "LogConfiguration \<Rightarrow> LogConfigurationManager \<Rightarrow> LogConfigurationManager" where
  "SetConfiguration c m = m\<lparr>configuration := c, mCacheStale := True\<rparr>"

definition EnsureKeyCacheBuilt :: "LogConfigurationManager \<Rightarrow> LogConfigurationManager" where
  "EnsureKeyCacheBuilt m =
     (if \<not> mCacheStale m then m
      else m\<lparr>mKeysInColumns := \<Union> (set (map (\<lambda>c. set (keys c)) (mcolumns m))), mCacheStale := False\<rparr>)"

definition IsKeyInAnyColumnCached :: "string \<Rightarrow> LogConfigurationManager \<Rightarrow> bool \<times> LogConfigurationManager" where
  "IsKeyInAnyColumnCached key m = (let m' = EnsureKeyCacheBuilt m in (key \<in> mKeysInColumns m', m'))"

text \<open>The casts \<open>static_cast<int>(size_t)\<close> keep the low 32 bits.\<close>

definition int_cast :: "nat \<Rightarrow> int" where
  "int_cast n = sint (word_of_nat n :: 32 word)"

definition RemapColumnIndexAfterMove :: "int \<Rightarrow> int \<Rightarrow> int \<Rightarrow> int" where
  "RemapColumnIndexAfterMove i src dest =
     (if src = dest then i
      else if i = src then dest
      else if src < dest then (if i > src \<and> i \<le> dest then i - 1 else i)
      else (if i \<ge> dest \<and> i < src then i + 1 else i))"

text \<open>\<open>std::rotate(begin + first, begin + middle, begin + last)\<close>.\<close>

definition std_rotate :: "nat \<Rightarrow> nat \<Rightarrow> nat \<Rightarrow> 'a list \<Rightarrow> 'a list" where
  "std_rotate first middle end_pos xs =
     take first xs @ take (end_pos - middle) (drop middle xs) @ take (middle - first) (drop first xs) @ drop end_pos xs"

definition MoveColumn :: "nat \<Rightarrow> nat \<Rightarrow> LogConfigurationManager \<Rightarrow> LogConfigurationManager" where
  "MoveColumn src dest m =
     (let cfg = configuration m; cs = cfgColumns cfg in
      if src = dest \<or> src \<ge> length cs \<or> dest \<ge> length cs then m
      else m\<lparr>configuration := cfg
        \<lparr>cfgColumns := (if src > dest then std_rotate dest src (src + 1) cs else std_rotate src (src + 1) (dest + 1) cs),
         cfgSort := (cfgSort cfg)\<lparr>columnIndex :=
           RemapColumnIndexAfterMove (columnIndex (cfgSort cfg)) (int_cast src) (int_cast dest)\<rparr>\<rparr>\<rparr>)"

definition time_column :: "string \<Rightarrow> Column" where
  "time_column key =
     default_Column\<lparr>colHeader := key, keys := [key], printFormat := ''%F %H:%M:%S'', ctype := CtTime,
       parseFormats := DefaultTimeParseFormats\<rparr>"

definition any_column :: "string \<Rightarrow> Column" where
  "any_column key = default_Column\<lparr>colHeader := key, keys := [key], printFormat := ''{}'', ctype := CtAny\<rparr>"

definition note_key :: "string \<Rightarrow> LogConfigurationManager \<Rightarrow> LogConfigurationManager" where
  "note_key key m = m\<lparr>mKeysInColumns := insert key (mKeysInColumns m)\<rparr>"

text \<open>One turn of the loop of \<open>Update\<close> and of \<open>AppendKeys\<close>.\<close>

definition update_key :: "string \<Rightarrow> LogConfigurationManager \<Rightarrow> LogConfigurationManager" where
  "update_key key m0 =
     (case IsKeyInAnyColumnCached key m0 of (known, m) \<Rightarrow>
        if known then m
        else note_key key
          (if IsTimestampKey key then
             let m1 = with_columns (mcolumns m @ [time_column key]) m
             in if length (mcolumns m1) > 1 then MoveColumn (length (mcolumns m1) - 1) 0 m1 else m1
           else with_columns (mcolumns m @ [any_column key]) m))"

definition Update :: "KeyIndex \<Rightarrow> LogConfigurationManager \<Rightarrow> LogConfigurationManager" where
  "Update ki m = fold update_key (SortedKeys ki) (EnsureKeyCacheBuilt m)"

definition append_key :: "string \<Rightarrow> LogConfigurationManager \<Rightarrow> LogConfigurationManager" where
  "append_key key m0 =
     (case IsKeyInAnyColumnCached key m0 of (known, m) \<Rightarrow>
        if known then m
        else note_key key
          (with_columns (mcolumns m @ [if IsTimestampKey key then time_column key else any_column key]) m))"

definition AppendKeys :: "string list \<Rightarrow> LogConfigurationManager \<Rightarrow> LogConfigurationManager" where
  "AppendKeys newKeys m = fold append_key newKeys (EnsureKeyCacheBuilt m)"

text \<open>The state of the counting loop: the manager, the keys already counted, the count.\<close>

definition count_key ::
  "string \<Rightarrow> LogConfigurationManager \<times> string set \<times> nat \<Rightarrow> LogConfigurationManager \<times> string set \<times> nat" where
  "count_key key st =
     (case st of (m0, alreadyCounted, n) \<Rightarrow>
      case IsKeyInAnyColumnCached key m0 of (known, m) \<Rightarrow>
        if known then (m, alreadyCounted, n)
        else if key \<in> alreadyCounted then (m, alreadyCounted, n)
        else (m, insert key alreadyCounted, n + 1))"

definition CountAppendableKeys :: "string list \<Rightarrow> LogConfigurationManager \<Rightarrow> nat \<times> LogConfigurationManager" where
  "CountAppendableKeys newKeys m =
     (if newKeys = [] then (0, m)
      else case fold count_key newKeys (EnsureKeyCacheBuilt m, {}, 0) of (m', _, n) \<Rightarrow> (n, m'))"

abbreviation CANONICAL_LEVEL_COLUMN_INDEX :: nat where
  "CANONICAL_LEVEL_COLUMN_INDEX \<equiv> 1"

definition ShouldBubbleLevelColumn :: "LogConfiguration \<Rightarrow> nat \<Rightarrow> bool" where
  "ShouldBubbleLevelColumn cfg i =
     (if i \<ge> length (cfgColumns cfg) then False
      else if length (cfgColumns cfg) < 2 then False
      else if i = CANONICAL_LEVEL_COLUMN_INDEX then False
      else if CANONICAL_LEVEL_COLUMN_INDEX < length (cfgColumns cfg) \<and>
              ctype (cfgColumns cfg ! CANONICAL_LEVEL_COLUMN_INDEX) = CtLevel then False
      else True)"

definition BubbleLevelColumnToCanonicalPosition :: "nat \<Rightarrow> LogConfigurationManager \<Rightarrow> LogConfigurationManager" where
  "BubbleLevelColumnToCanonicalPosition i m =
     (if ShouldBubbleLevelColumn (configuration m) i then MoveColumn i CANONICAL_LEVEL_COLUMN_INDEX m else m)"

text \<open>The setters of one column do nothing out of range.\<close>

definition update_column :: "nat \<Rightarrow> (Column \<Rightarrow> Column) \<Rightarrow> LogConfigurationManager \<Rightarrow> LogConfigurationManager" where
  "update_column i f m =
     (if i \<ge> length (mcolumns m) then m else with_columns ((mcolumns m)[i := f (mcolumns m ! i)]) m)"

definition SetColumnType :: "nat \<Rightarrow> ColumnType \<Rightarrow> LogConfigurationManager \<Rightarrow> LogConfigurationManager" where
  "SetColumnType i ty = update_column i (ctype_update (\<lambda>_. ty))"

definition SetColumnAutoDetect :: "nat \<Rightarrow> bool \<Rightarrow> LogConfigurationManager \<Rightarrow> LogConfigurationManager" where
  "SetColumnAutoDetect i b = update_column i (autoDetect_update (\<lambda>_. b))"

definition SetColumnTypePair :: "nat \<Rightarrow> ColumnType \<Rightarrow> bool \<Rightarrow> LogConfigurationManager \<Rightarrow> LogConfigurationManager" where
  "SetColumnTypePair i ty b = update_column i (\<lambda>c. c\<lparr>ctype := ty, autoDetect := b\<rparr>)"

definition SetColumnVisible :: "nat \<Rightarrow> bool \<Rightarrow> LogConfigurationManager \<Rightarrow> LogConfigurationManager" where
  "SetColumnVisible i b = update_column i (visible_update (\<lambda>_. b))"

definition SetColumnHeader :: "nat \<Rightarrow> string \<Rightarrow> LogConfigurationManager \<Rightarrow> LogConfigurationManager" where
  "SetColumnHeader i s = update_column i (colHeader_update (\<lambda>_. s))"

definition SetColumnPrintFormat :: "nat \<Rightarrow> string \<Rightarrow> LogConfigurationManager \<Rightarrow> LogConfigurationManager" where
  "SetColumnPrintFormat i s = update_column i (printFormat_update (\<lambda>_. s))"

definition SetColumnParseFormats :: "nat \<Rightarrow> string list \<Rightarrow> LogConfigurationManager \<Rightarrow> LogConfigurationManager" where
  "SetColumnParseFormats i fs = update_column i (parseFormats_update (\<lambda>_. fs))"

definition SetExpression :: "FilterExpression \<Rightarrow> LogConfigurationManager \<Rightarrow> LogConfigurationManager" where
  "SetExpression e m = m\<lparr>configuration := (configuration m)\<lparr>cfgExpression := e\<rparr>\<rparr>"

definition SetSort :: "Sort \<Rightarrow> LogConfigurationManager \<Rightarrow> LogConfigurationManager" where
  "SetSort s m = m\<lparr>configuration := (configuration m)\<lparr>cfgSort := s\<rparr>\<rparr>"

definition SetSource :: "Source option \<Rightarrow> LogConfigurationManager \<Rightarrow> LogConfigurationManager" where
  "SetSource s m = m\<lparr>configuration := (configuration m)\<lparr>cfgSource := s\<rparr>\<rparr>"

definition SetAnchors :: "AnchorEntry list \<Rightarrow> LogConfigurationManager \<Rightarrow> LogConfigurationManager" where
  "SetAnchors a m = m\<lparr>configuration := (configuration m)\<lparr>cfgAnchors := a\<rparr>\<rparr>"

definition SetHighlightRules :: "HighlightRule list \<Rightarrow> LogConfigurationManager \<Rightarrow> LogConfigurationManager" where
  "SetHighlightRules r m = m\<lparr>configuration := (configuration m)\<lparr>cfgHighlightRules := r\<rparr>\<rparr>"

section \<open>Moving columns\<close>

lemma int_cast_small: "n < 2 ^ 31 \<Longrightarrow> int_cast n = int n"
  by (simp add: int_cast_def signed_of_nat signed_take_bit_int_eq_self)

lemma length_std_rotate:
  "first \<le> middle \<Longrightarrow> middle \<le> e \<Longrightarrow> e \<le> length xs \<Longrightarrow> length (std_rotate first middle e xs) = length xs"
  by (simp add: std_rotate_def)

text \<open>The columns after a move, whichever way it goes.\<close>

definition moved :: "nat \<Rightarrow> nat \<Rightarrow> 'a list \<Rightarrow> 'a list" where
  "moved src dest xs =
     (if src = dest then xs
      else if src > dest then std_rotate dest src (src + 1) xs else std_rotate src (src + 1) (dest + 1) xs)"

lemma length_moved: "src < length xs \<Longrightarrow> dest < length xs \<Longrightarrow> length (moved src dest xs) = length xs"
  by (simp add: moved_def length_std_rotate)

lemma mcolumns_MoveColumn:
  "src < length (mcolumns m) \<Longrightarrow> dest < length (mcolumns m) \<Longrightarrow> mcolumns (MoveColumn src dest m) = moved src dest (mcolumns m)"
  by (simp add: MoveColumn_def moved_def Let_def)

lemma nth_moved_left:
  assumes "dest < src" "src < length xs" "j < length xs"
  shows "moved src dest xs ! j =
    (if j < dest then xs ! j else if j = dest then xs ! src else if j \<le> src then xs ! (j - 1) else xs ! j)"
proof -
  have form: "moved src dest xs = take dest xs @ xs ! src # take (src - dest) (drop dest xs) @ drop (src + 1) xs"
    using assms by (simp add: moved_def std_rotate_def take_Suc_conv_app_nth take_Suc hd_drop_conv_nth)
  consider "j < dest" | "j = dest" | "dest < j" "j \<le> src" | "src < j" by linarith
  then show ?thesis
    using assms by cases (simp_all add: form nth_append nth_Cons', arith+)
qed

lemma nth_moved_right:
  assumes "src < dest" "dest < length xs" "j < length xs"
  shows "moved src dest xs ! j =
    (if j < src then xs ! j else if j < dest then xs ! (j + 1) else if j = dest then xs ! src else xs ! j)"
proof -
  have form: "moved src dest xs = take src xs @ take (dest - src) (drop (src + 1) xs) @ xs ! src # drop (dest + 1) xs"
    using assms by (simp add: moved_def std_rotate_def take_Suc hd_drop_conv_nth)
  consider "j < src" | "src \<le> j" "j < dest" | "j = dest" | "dest < j" by linarith
  then show ?thesis
    using assms by cases (simp_all add: form nth_append nth_Cons', arith+)
qed

lemma nth_moved:
  assumes "src < length xs" "dest < length xs" "i < length xs"
  shows "moved src dest xs ! nat (RemapColumnIndexAfterMove (int i) (int src) (int dest)) = xs ! i"
proof -
  consider "src = dest" | "dest < src" | "src < dest" by linarith
  then show ?thesis
  proof cases
    case 1
    then show ?thesis by (simp add: moved_def RemapColumnIndexAfterMove_def)
  next
    case 2
    then show ?thesis using assms
      by (auto simp: RemapColumnIndexAfterMove_def nth_moved_left nat_add_distrib)
  next
    case 3
    then show ?thesis using assms
      by (auto simp: RemapColumnIndexAfterMove_def nth_moved_right nat_diff_distrib)
  qed
qed

lemma remap_range:
  assumes "0 \<le> i" "i < int n" "src < n" "dest < n"
  shows "0 \<le> RemapColumnIndexAfterMove i (int src) (int dest)" "RemapColumnIndexAfterMove i (int src) (int dest) < int n"
  using assms by (auto simp: RemapColumnIndexAfterMove_def)

lemma mset_std_rotate:
  "first \<le> middle \<Longrightarrow> middle \<le> e \<Longrightarrow> mset (std_rotate first middle e xs) = mset xs"
proof -
  assume le: "first \<le> middle" "middle \<le> e"
  have "xs = take first xs @ take (middle - first) (drop first xs) @ take (e - middle) (drop middle xs) @ drop e xs"
    using le by (metis append_take_drop_id drop_drop le_add_diff_inverse2)
  then have "mset xs = mset (take first xs @ take (middle - first) (drop first xs) @ take (e - middle) (drop middle xs) @ drop e xs)"
    by metis
  then show ?thesis by (simp add: std_rotate_def)
qed

lemma mset_moved: "mset (moved src dest xs) = mset xs"
  by (simp add: moved_def mset_std_rotate)

lemma moved_to_front: "moved (length xs) 0 (xs @ [x]) = x # xs"
  by (simp add: moved_def std_rotate_def)

section \<open>Keys and columns\<close>

definition configured :: "Column list \<Rightarrow> string set" where
  "configured cs = (\<Union>c\<in>set cs. set (keys c))"

text \<open>A cache that is not stale holds the keys of all columns.\<close>

definition cache_inv :: "LogConfigurationManager \<Rightarrow> bool" where
  "cache_inv m \<longleftrightarrow> mCacheStale m \<or> mKeysInColumns m = configured (mcolumns m)"

abbreviation cached :: "LogConfigurationManager \<Rightarrow> bool" where
  "cached m \<equiv> \<not> mCacheStale m \<and> mKeysInColumns m = configured (mcolumns m)"

lemma configured_simps [simp]:
  "configured [] = {}" "configured (c # cs) = set (keys c) \<union> configured cs"
  "configured (cs @ ds) = configured cs \<union> configured ds"
  by (auto simp: configured_def)

lemma new_column_keys [simp]: "keys (time_column key) = [key]" "keys (any_column key) = [key]"
  "ctype (time_column key) = CtTime" "ctype (any_column key) = CtAny"
  by (simp_all add: time_column_def any_column_def)

lemma EnsureKeyCacheBuilt_cached: "cache_inv m \<Longrightarrow> cached (EnsureKeyCacheBuilt m)"
  by (auto simp: cache_inv_def EnsureKeyCacheBuilt_def configured_def)

lemma EnsureKeyCacheBuilt_same [simp]: "configuration (EnsureKeyCacheBuilt m) = configuration m"
  by (simp add: EnsureKeyCacheBuilt_def)

lemma cached_lookup: "cached m \<Longrightarrow> IsKeyInAnyColumnCached key m = (key \<in> configured (mcolumns m), m)"
  by (simp add: IsKeyInAnyColumnCached_def EnsureKeyCacheBuilt_def)

lemma with_columns_simps [simp]:
  "mcolumns (with_columns cs m) = cs" "mKeysInColumns (with_columns cs m) = mKeysInColumns m"
  "mCacheStale (with_columns cs m) = mCacheStale m" "cfgSort (configuration (with_columns cs m)) = cfgSort (configuration m)"
  by (simp_all add: with_columns_def)

lemma note_key_simps [simp]:
  "configuration (note_key k m) = configuration m" "mKeysInColumns (note_key k m) = insert k (mKeysInColumns m)"
  "mCacheStale (note_key k m) = mCacheStale m"
  by (simp_all add: note_key_def)

lemma MoveColumn_cache [simp]:
  "mKeysInColumns (MoveColumn i j m) = mKeysInColumns m" "mCacheStale (MoveColumn i j m) = mCacheStale m"
  by (simp_all add: MoveColumn_def Let_def)

lemma configured_mset: "mset cs = mset ds \<Longrightarrow> configured cs = configured ds"
  unfolding configured_def by (metis mset_eq_setD)

text \<open>The keys for which columns appear: those not configured, each once, in their order.\<close>

fun fresh :: "string set \<Rightarrow> string list \<Rightarrow> string list" where
  "fresh S [] = []"
| "fresh S (k # ks) = (if k \<in> S then fresh S ks else k # fresh (insert k S) ks)"

lemma set_fresh: "set (fresh S ks) = set ks - S"
  by (induction S ks rule: fresh.induct) auto

lemma distinct_fresh: "distinct (fresh S ks)"
  by (induction S ks rule: fresh.induct) (auto simp: set_fresh)

lemma fresh_distinct: "distinct ks \<Longrightarrow> fresh S ks = filter (\<lambda>k. k \<notin> S) ks"
proof (induction ks arbitrary: S)
  case (Cons k ks)
  have "filter (\<lambda>x. x \<notin> insert k S) ks = filter (\<lambda>x. x \<notin> S) ks"
    using Cons.prems by (intro filter_cong) auto
  then show ?case using Cons by simp
qed simp

definition new_column :: "string \<Rightarrow> Column" where
  "new_column key = (if IsTimestampKey key then time_column key else any_column key)"

lemma keys_new_column [simp]: "keys (new_column key) = [key]"
  by (simp add: new_column_def)

lemma append_key_cached:
  assumes "cached m"
  shows "mcolumns (append_key k m) = mcolumns m @ map new_column (fresh (configured (mcolumns m)) [k])"
    and "cached (append_key k m)" and "cfgSort (configuration (append_key k m)) = cfgSort (configuration m)"
  using assms by (auto simp: append_key_def cached_lookup new_column_def [symmetric])

lemma append_keys_cached:
  "cached m \<Longrightarrow>
   mcolumns (fold append_key ks m) = mcolumns m @ map new_column (fresh (configured (mcolumns m)) ks) \<and>
   cached (fold append_key ks m) \<and> cfgSort (configuration (fold append_key ks m)) = cfgSort (configuration m)"
proof (induction ks arbitrary: m)
  case (Cons k ks)
  show ?case using Cons.IH [OF append_key_cached(2) [OF Cons.prems]] append_key_cached [OF Cons.prems, of k]
    by (auto simp: insert_commute)
qed simp

lemma AppendKeys_columns:
  assumes "cache_inv m"
  shows "mcolumns (AppendKeys ks m) = mcolumns m @ map new_column (fresh (configured (mcolumns m)) ks)"
    and "cache_inv (AppendKeys ks m)" and "cfgSort (configuration (AppendKeys ks m)) = cfgSort (configuration m)"
  using append_keys_cached [OF EnsureKeyCacheBuilt_cached [OF assms], of ks]
  by (simp_all add: AppendKeys_def cache_inv_def)

lemma count_keys_cached:
  "cached m \<Longrightarrow> fold count_key ks (m, A, n) =
     (m, A \<union> (set ks - configured (mcolumns m)), n + length (fresh (configured (mcolumns m) \<union> A) ks))"
proof (induction ks arbitrary: A n)
  case (Cons k ks)
  then show ?case by (auto simp: count_key_def cached_lookup)
qed simp

lemma CountAppendableKeys_eq:
  "cache_inv m \<Longrightarrow> fst (CountAppendableKeys ks m) = length (fresh (configured (mcolumns m)) ks)"
  using count_keys_cached [OF EnsureKeyCacheBuilt_cached, of m ks "{}" 0] by (simp add: CountAppendableKeys_def)

text \<open>\<open>Update\<close> puts new time columns in front, the last found first, and other new columns behind.\<close>

lemma update_key_cached:
  assumes "cached m" "F = fresh (configured (mcolumns m)) [k]"
  shows "mcolumns (update_key k m) =
      map time_column (filter IsTimestampKey F) @ mcolumns m @ map any_column (filter (Not \<circ> IsTimestampKey) F)"
    and "cached (update_key k m)"
proof -
  let ?m1 = "with_columns (mcolumns m @ [time_column k]) m"
  have "mcolumns (MoveColumn (length (mcolumns m)) 0 ?m1) = time_column k # mcolumns m"
    by (simp add: mcolumns_MoveColumn moved_to_front)
  then show "mcolumns (update_key k m) =
      map time_column (filter IsTimestampKey F) @ mcolumns m @ map any_column (filter (Not \<circ> IsTimestampKey) F)"
    and "cached (update_key k m)"
    using assms by (auto simp: update_key_def cached_lookup Let_def)
qed

lemma update_keys_cached:
  "cached m \<Longrightarrow> F = fresh (configured (mcolumns m)) ks \<Longrightarrow>
   mcolumns (fold update_key ks m) =
     rev (map time_column (filter IsTimestampKey F)) @ mcolumns m @ map any_column (filter (Not \<circ> IsTimestampKey) F) \<and>
   cached (fold update_key ks m)"
proof (induction ks arbitrary: m F)
  case (Cons k ks)
  define G where "G = fresh (configured (mcolumns (update_key k m))) ks"
  note step = update_key_cached [OF Cons.prems(1) refl, of k]
  note rest = Cons.IH [OF step(2) G_def]
  have "configured (mcolumns (update_key k m)) = insert k (configured (mcolumns m))"
    using step(1) by auto
  then have "F = fresh (configured (mcolumns m)) [k] @ G"
    using Cons.prems(2) by (auto simp: G_def insert_absorb)
  then show ?case using rest step by auto
qed simp

lemma Update_columns:
  assumes "cache_inv m" "F = fresh (configured (mcolumns m)) (SortedKeys ki)"
  shows "mcolumns (Update ki m) =
      rev (map time_column (filter IsTimestampKey F)) @ mcolumns m @ map any_column (filter (Not \<circ> IsTimestampKey) F)"
    and "cache_inv (Update ki m)"
  using update_keys_cached [OF EnsureKeyCacheBuilt_cached [OF assms(1)], of F "SortedKeys ki"] assms(2)
  by (simp_all add: Update_def cache_inv_def)

text \<open>The persisted sort stays on its column.\<close>

definition sorted_column :: "LogConfigurationManager \<Rightarrow> Column option" where
  "sorted_column m =
     (let i = columnIndex (cfgSort (configuration m))
      in if 0 \<le> i \<and> i < int (length (mcolumns m)) then Some (mcolumns m ! nat i) else None)"

lemma columnIndex_MoveColumn:
  assumes "src < length (mcolumns m)" "dest < length (mcolumns m)"
  shows "columnIndex (cfgSort (configuration (MoveColumn src dest m))) =
    RemapColumnIndexAfterMove (columnIndex (cfgSort (configuration m))) (int_cast src) (int_cast dest)"
  using assms by (simp add: MoveColumn_def Let_def RemapColumnIndexAfterMove_def)

lemma MoveColumn_sorted:
  assumes "length (mcolumns m) \<le> 2 ^ 31" "sorted_column m = Some c"
  shows "sorted_column (MoveColumn src dest m) = Some c"
proof (cases "src < length (mcolumns m) \<and> dest < length (mcolumns m)")
  case True
  define i where "i = nat (columnIndex (cfgSort (configuration m)))"
  have i: "columnIndex (cfgSort (configuration m)) = int i" "i < length (mcolumns m)" "c = mcolumns m ! i"
    using assms(2) by (auto simp: sorted_column_def i_def Let_def split: if_splits)
  have casts: "int_cast src = int src" "int_cast dest = int dest"
    using True assms(1) by (simp_all add: int_cast_small)
  have "length (moved src dest (mcolumns m)) = length (mcolumns m)"
    using True by (simp add: length_moved)
  then show ?thesis
    using True i remap_range [of "int i" "length (mcolumns m)" src dest] nth_moved [of src "mcolumns m" dest i]
    by (simp add: sorted_column_def columnIndex_MoveColumn mcolumns_MoveColumn casts)
next
  case False
  then have "MoveColumn src dest m = m" by (auto simp: MoveColumn_def Let_def)
  then show ?thesis using assms(2) by simp
qed

lemma sorted_column_note [simp]: "sorted_column (note_key k m) = sorted_column m"
  by (simp add: sorted_column_def Let_def)

lemma sorted_column_grow: "sorted_column m = Some c \<Longrightarrow> sorted_column (with_columns (mcolumns m @ cs) m) = Some c"
  by (auto simp: sorted_column_def Let_def nth_append split: if_splits)

lemma update_keys_sorted:
  "\<lbrakk>cached m; length (mcolumns m) + length ks \<le> 2 ^ 31; sorted_column m = Some c\<rbrakk>
    \<Longrightarrow> sorted_column (fold update_key ks m) = Some c"
proof (induction ks arbitrary: m)
  case (Cons k ks)
  have len: "length (mcolumns (update_key k m)) \<le> length (mcolumns m) + 1"
    using update_key_cached(1) [OF Cons.prems(1) refl, of k] by simp
  have "mcolumns m \<noteq> []"
    using Cons.prems(3) by (auto simp: sorted_column_def Let_def split: if_splits)
  moreover have "sorted_column (with_columns (mcolumns m @ cs) m) = Some c" for cs
    using Cons.prems(3) by (rule sorted_column_grow)
  ultimately have "sorted_column (update_key k m) = Some c"
    using Cons.prems MoveColumn_sorted [of "with_columns (mcolumns m @ [time_column k]) m" c]
    by (simp add: update_key_def cached_lookup Let_def)
  with len show ?case
    using Cons.IH [OF update_key_cached(2) [OF Cons.prems(1) refl]] Cons.prems(2) by simp
qed simp

lemma sorted_column_Ensure [simp]: "sorted_column (EnsureKeyCacheBuilt m) = sorted_column m"
  by (simp add: sorted_column_def Let_def)

lemma Update_sorted:
  "cache_inv m \<Longrightarrow> length (mcolumns m) + length (SortedKeys ki) \<le> 2 ^ 31 \<Longrightarrow> sorted_column m = Some c
    \<Longrightarrow> sorted_column (Update ki m) = Some c"
  using update_keys_sorted [OF EnsureKeyCacheBuilt_cached] by (simp add: Update_def)

section \<open>The canonical slot of the level column\<close>

lemma bubble_result:
  assumes "i < length (mcolumns m)" "2 \<le> length (mcolumns m)" "ctype (mcolumns m ! i) = CtLevel"
  shows "ctype (mcolumns (BubbleLevelColumnToCanonicalPosition i m) ! 1) = CtLevel"
proof (cases "ShouldBubbleLevelColumn (configuration m) i")
  case True
  have "moved i 1 (mcolumns m) ! nat (RemapColumnIndexAfterMove (int i) (int i) (int 1)) = mcolumns m ! i"
    using assms by (intro nth_moved) simp_all
  then have "moved i 1 (mcolumns m) ! 1 = mcolumns m ! i"
    by (simp add: RemapColumnIndexAfterMove_def moved_def split: if_splits)
  then show ?thesis
    using True assms by (simp add: BubbleLevelColumnToCanonicalPosition_def mcolumns_MoveColumn)
next
  case False
  then show ?thesis
    using assms by (auto simp: BubbleLevelColumnToCanonicalPosition_def ShouldBubbleLevelColumn_def split: if_splits)
qed

lemma bubble_first_wins:
  "2 \<le> length (mcolumns m) \<Longrightarrow> ctype (mcolumns m ! 1) = CtLevel \<Longrightarrow> BubbleLevelColumnToCanonicalPosition i m = m"
  by (simp add: BubbleLevelColumnToCanonicalPosition_def ShouldBubbleLevelColumn_def)

section \<open>Locators\<close>

text \<open>The two arrays of locators stay parallel.\<close>

definition source_parallel :: "Source \<Rightarrow> bool" where
  "source_parallel s \<longleftrightarrow> length (locators s) = length (locatorDedupKeys s)"

lemma locator_parallel:
  "source_parallel s \<Longrightarrow> source_parallel (AppendLocator p k s)" "source_parallel (ClearLocators s)"
  by (simp_all add: source_parallel_def AppendLocator_def ClearLocators_def)

end
