(* ===== verification/Log_Table.thy ===== *)
theory Log_Table
  imports Log_Line Log_Configuration
begin

text \<open>
  The cell accessors of \<open>library/src/log_table.cpp\<close>.  A column reads the first of its keys that
  has a value on the line.  The rows are the lines of \<open>mData\<close>, each with the index of its
  source in \<open>mSources\<close> (the line's \<open>mSource\<close> pointer).  \<open>fmt::vformat\<close>, \<open>date::format\<close>
  and \<open>std::hash\<close> are parameters.
\<close>

record LogTable =
  mRows :: "(LogLine \<times> nat) list"
  mSources :: "LineSource list"
  mKeys :: KeyIndex
  mConfiguration :: LogConfigurationManager
  mColumnKeyIds :: "KeyId list list"
  tEnumDictionaries :: EnumDictionaryRegistry
  mLevelRankCache :: "KeyId \<rightharpoonup> LogLevel list"

abbreviation tcolumns :: "LogTable \<Rightarrow> Column list" where
  "tcolumns t \<equiv> mcolumns (mConfiguration t)"

text \<open>Code outside the repository: the standard hash and the formatting libraries.\<close>

record externals =
  std_hash :: "string \<Rightarrow> 64 word"
  vformat :: "string \<Rightarrow> LogValue \<Rightarrow> string"
  date_format :: "string \<Rightarrow> 64 word \<Rightarrow> string"

definition RowCount :: "LogTable \<Rightarrow> nat" where
  "RowCount t = length (mRows t)"

definition source_at :: "LogTable \<Rightarrow> nat \<Rightarrow> LineSource option" where
  "source_at t i = (if i < length (mSources t) then Some (mSources t ! i) else None)"

definition FormatLogValue :: "externals \<Rightarrow> string \<Rightarrow> LogValue \<Rightarrow> string" where
  "FormatLogValue fm format value =
     (case value of
        VString s \<Rightarrow> s
      | VView _ s \<Rightarrow> s
      | VTime w \<Rightarrow> date_format fm format w
      | VMonostate \<Rightarrow> []
      | _ \<Rightarrow> vformat fm format value)"

text \<open>The loop over the keys of a column: the first value that is not absent.\<close>

fun first_value :: "KeyId list \<Rightarrow> LineSource option \<Rightarrow> LogLine \<Rightarrow> LogValue" where
  "first_value [] source line = VMonostate"
| "first_value (kid # kids) source line =
     (if kid = INVALID_KEY_ID then first_value kids source line
      else let value = GetValue_id kid source line
           in if value \<noteq> VMonostate then value else first_value kids source line)"

fun first_dict_ref :: "KeyId list \<Rightarrow> LogLine \<Rightarrow> EnumValueId option" where
  "first_dict_ref [] line = None"
| "first_dict_ref (kid # kids) line =
     (if kid = INVALID_KEY_ID then first_dict_ref kids line
      else case line_GetEnumValueId kid line of
             Some vid \<Rightarrow> Some vid
           | None \<Rightarrow> first_dict_ref kids line)"

definition out_of_table :: "LogTable \<Rightarrow> nat \<Rightarrow> nat \<Rightarrow> bool" where
  "out_of_table t row column \<longleftrightarrow> column \<ge> length (mColumnKeyIds t) \<or> row \<ge> length (mRows t)"

definition GetValue :: "LogTable \<Rightarrow> nat \<Rightarrow> nat \<Rightarrow> LogValue" where
  "GetValue t row column =
     (if out_of_table t row column then VMonostate
      else case mRows t ! row of (line, i) \<Rightarrow>
             first_value (mColumnKeyIds t ! column) (source_at t i) line)"

text \<open>\<open>columns.at(column)\<close> throws \<open>std::out_of_range\<close>: \<open>None\<close>.\<close>

definition GetFormattedValue :: "externals \<Rightarrow> LogTable \<Rightarrow> nat \<Rightarrow> nat \<Rightarrow> string option" where
  "GetFormattedValue fm t row column =
     (if out_of_table t row column then Some []
      else if column \<ge> length (tcolumns t) then None
      else let value = GetValue t row column
           in Some (if value \<noteq> VMonostate then FormatLogValue fm (printFormat (tcolumns t ! column)) value else []))"

definition GetValueOrFormatted :: "externals \<Rightarrow> LogTable \<Rightarrow> nat \<Rightarrow> nat \<Rightarrow> string" where
  "GetValueOrFormatted fm t row column =
     (if out_of_table t row column then []
      else case GetValue t row column of
             VMonostate \<Rightarrow> []
           | VView _ s \<Rightarrow> s
           | VString s \<Rightarrow> s
           | value \<Rightarrow> FormatLogValue fm (printFormat (tcolumns t ! column)) value)"

definition GetEnumValueId :: "LogTable \<Rightarrow> nat \<Rightarrow> nat \<Rightarrow> EnumValueId option" where
  "GetEnumValueId t row column =
     (if out_of_table t row column then None
      else first_dict_ref (mColumnKeyIds t ! column) (fst (mRows t ! row)))"

lemma GetValueOrFormatted_eq:
  "length (mColumnKeyIds t) = length (tcolumns t) \<Longrightarrow>
   GetFormattedValue fm t row column = Some (GetValueOrFormatted fm t row column)"
  by (auto simp: GetValueOrFormatted_def GetFormattedValue_def FormatLogValue_def out_of_table_def Let_def
      split: LogValue.split)

section \<open>Eviction\<close>

text \<open>\<open>EvictPrefixRows\<close>: the first \<open>count\<close> rows leave, and the streams drop the lines before the first row that stays.\<close>

definition evictSource :: "nat \<Rightarrow> LogTable \<Rightarrow> LogTable" where
  "evictSource firstSurviving t =
     t\<lparr>mSources := map (\<lambda>src. if SupportsEviction src then source_EvictBefore firstSurviving src else src) (mSources t)\<rparr>"

definition EvictPrefixRows :: "nat \<Rightarrow> LogTable \<Rightarrow> LogTable" where
  "EvictPrefixRows cnt t =
     (if cnt = 0 then t
      else let rows = mRows t in
      if cnt \<ge> length rows then
        evictSource (if rows = [] then 0 else mLineId (fst (last rows)) + 1) (t\<lparr>mRows := []\<rparr>)
      else evictSource (mLineId (fst (rows ! cnt))) (t\<lparr>mRows := drop cnt rows\<rparr>))"

section \<open>Column keys, dictionaries and level ranks\<close>

definition find_key :: "externals \<Rightarrow> LogTable \<Rightarrow> string \<Rightarrow> KeyId" where
  "find_key ex t key = Find_key (std_hash ex) key (mKeys t)"

definition RefreshColumnKeyIds :: "externals \<Rightarrow> LogTable \<Rightarrow> LogTable" where
  "RefreshColumnKeyIds ex t = t\<lparr>mColumnKeyIds := map (\<lambda>c. map (find_key ex t) (keys c)) (tcolumns t)\<rparr>"

text \<open>\<open>mColumnKeyIds.resize(columns.size())\<close>, then the columns that the new keys affect.\<close>

definition resize :: "nat \<Rightarrow> 'a list list \<Rightarrow> 'a list list" where
  "resize n xs = take n xs @ replicate (n - length xs) []"

definition RefreshColumnKeyIdsForKeys :: "externals \<Rightarrow> string list \<Rightarrow> LogTable \<Rightarrow> LogTable" where
  "RefreshColumnKeyIdsForKeys ex newKeys t =
     (if newKeys = [] then t
      else t\<lparr>mColumnKeyIds :=
        map2 (\<lambda>c ids. if length ids \<noteq> length (keys c) \<or> list_ex (\<lambda>key. key \<in> set newKeys) (keys c)
                      then map (find_key ex t) (keys c) else ids)
          (tcolumns t) (resize (length (tcolumns t)) (mColumnKeyIds t))\<rparr>)"

text \<open>\<open>ResolveEnumColumn\<close>: the canonical key and its dictionary.\<close>

definition ResolveEnumColumn :: "externals \<Rightarrow> LogTable \<Rightarrow> nat \<Rightarrow> KeyId \<times> EnumDictionary option" where
  "ResolveEnumColumn ex t column =
     (if column \<ge> length (tcolumns t) then (INVALID_KEY_ID, None)
      else if keys (tcolumns t ! column) = [] then (INVALID_KEY_ID, None)
      else let canonicalKey = find_key ex t (hd (keys (tcolumns t ! column)))
           in if canonicalKey = INVALID_KEY_ID then (INVALID_KEY_ID, None)
              else (canonicalKey, reg_Find (tEnumDictionaries t) canonicalKey))"

text \<open>The key loop of \<open>RefreshLevelRankCache\<close>: the first key with an id.\<close>

fun first_known_key :: "externals \<Rightarrow> LogTable \<Rightarrow> string list \<Rightarrow> KeyId" where
  "first_known_key ex t [] = INVALID_KEY_ID"
| "first_known_key ex t (key # ks) =
     (if find_key ex t key \<noteq> INVALID_KEY_ID then find_key ex t key else first_known_key ex t ks)"

definition level_of_value :: "Column \<Rightarrow> string \<Rightarrow> LogLevel" where
  "level_of_value column bytes =
     (case ResolveLevel bytes (levelMapping column) of Some l \<Rightarrow> l | None \<Rightarrow> LvUnknown)"

definition RefreshLevelRankCache :: "externals \<Rightarrow> nat \<Rightarrow> LogTable \<Rightarrow> LogTable" where
  "RefreshLevelRankCache ex i t =
     (if i \<ge> length (tcolumns t) then t
      else if ctype (tcolumns t ! i) \<noteq> CtLevel then t
      else let column = tcolumns t ! i; canonical = first_known_key ex t (keys column) in
      if canonical = INVALID_KEY_ID then t
      else case reg_Find (tEnumDictionaries t) canonical of
        None \<Rightarrow> t\<lparr>mLevelRankCache := (mLevelRankCache t)(canonical \<mapsto> [])\<rparr>
      | Some d \<Rightarrow>
          let cached = (case mLevelRankCache t canonical of Some r \<Rightarrow> r | None \<Rightarrow> []);
              n = unat (dict_Size d);
              ranks = (if length cached > n then [] else cached);
              grown = ranks @ map (\<lambda>v. level_of_value column (dict_Resolve d (word_of_nat v))) [length ranks..<n]
          in t\<lparr>mLevelRankCache := (mLevelRankCache t)(canonical \<mapsto> grown)\<rparr>)"

definition LevelRankCache :: "externals \<Rightarrow> LogTable \<Rightarrow> nat \<Rightarrow> LogLevel list option" where
  "LevelRankCache ex t i =
     (if i \<ge> length (tcolumns t) then None
      else if ctype (tcolumns t ! i) \<noteq> CtLevel \<or> keys (tcolumns t ! i) = [] then None
      else let canonical = find_key ex t (hd (keys (tcolumns t ! i)))
           in if canonical = INVALID_KEY_ID then None else mLevelRankCache t canonical)"

definition GetDisplayLevelForRow :: "externals \<Rightarrow> LogTable \<Rightarrow> nat \<Rightarrow> nat \<Rightarrow> LogLevel option" where
  "GetDisplayLevelForRow ex t row i =
     (case LevelRankCache ex t i of
        None \<Rightarrow> None
      | Some ranks \<Rightarrow>
          (case GetEnumValueId t row i of
             None \<Rightarrow> None
           | Some vid \<Rightarrow> if unat vid \<ge> length ranks then Some LvUnknown else Some (ranks ! unat vid)))"

definition GetLevelForRow :: "externals \<Rightarrow> LogTable \<Rightarrow> nat \<Rightarrow> nat \<Rightarrow> LogLevel option" where
  "GetLevelForRow ex t row i =
     (case GetDisplayLevelForRow ex t row i of
        None \<Rightarrow> None
      | Some l \<Rightarrow> if l = LvUnknown then None else Some l)"

section \<open>What the accessors guarantee\<close>

text \<open>A column with one key: the id of a dictionary slot and the text of the cell belong together.\<close>

lemma dict_ref_value:
  assumes "GetEnumValueId t row c = Some vid" "mColumnKeyIds t ! c = [kid]"
    and "source_at t (snd (mRows t ! row)) = Some src" "mEnumDictionaries src = Some reg" "reg_Find reg kid = Some d"
  shows "GetValue t row c = VView None (dict_Resolve d vid)"
proof -
  obtain line i where row: "mRows t ! row = (line, i)" by force
  have inside: "\<not> out_of_table t row c" using assms(1) by (auto simp: GetEnumValueId_def split: if_splits)
  then have kid: "kid \<noteq> INVALID_KEY_ID" "line_GetEnumValueId kid line = Some vid"
    using assms(1,2) row by (auto simp: GetEnumValueId_def split: if_splits option.splits)
  then obtain cv where cv: "FindCompact kid line = Some cv" "tag cv = DictRef" "vid = ucast (payload cv)"
    by (auto simp: line_GetEnumValueId_def split: option.splits if_splits)
  show ?thesis
    using inside row assms(2-5) kid cv
    by (simp add: GetValue_def GetValue_id_def Materialise_def materialise_dict_ref_def Let_def)
qed

lemma Materialise_evicted:
  assumes "source_inv src" "n \<le> l"
  shows "Materialise c (Some (source_EvictBefore n src)) l kid = Materialise c (Some src) l kid"
  using source_EvictBefore_reads [OF assms]
  by (simp add: Materialise_def materialise_dict_ref_def split: CompactTag.split)

lemma first_value_evicted:
  assumes "source_inv src" "n \<le> mLineId line"
  shows "first_value kids (Some (source_EvictBefore n src)) line = first_value kids (Some src) line"
  using Materialise_evicted [OF assms]
  by (induction kids) (simp_all add: GetValue_id_def Let_def split: option.split)

text \<open>Eviction renumbers the rows that stay and changes none of their cells.\<close>

lemma GetValue_EvictPrefixRows:
  assumes "\<And>src. src \<in> set (mSources t) \<Longrightarrow> source_inv src"
    and "sorted (map (\<lambda>r. mLineId (fst r)) (mRows t))"
  shows "RowCount (EvictPrefixRows cnt t) = RowCount t - cnt"
    and "row < RowCount (EvictPrefixRows cnt t) \<Longrightarrow>
      GetValue (EvictPrefixRows cnt t) row c = GetValue t (row + cnt) c"
proof -
  show n: "RowCount (EvictPrefixRows cnt t) = RowCount t - cnt"
    by (simp add: EvictPrefixRows_def RowCount_def evictSource_def Let_def)
  assume row: "row < RowCount (EvictPrefixRows cnt t)"
  show "GetValue (EvictPrefixRows cnt t) row c = GetValue t (row + cnt) c"
  proof (cases "cnt = 0")
    case False
    have len: "row + cnt < length (mRows t)" using row n by (simp add: RowCount_def)
    let ?n = "mLineId (fst (mRows t ! cnt))"
    obtain line i where r: "mRows t ! (row + cnt) = (line, i)" by force
    have "?n \<le> mLineId line"
      using sorted_nth_mono [OF assms(2), of cnt "row + cnt"] len r by simp
    moreover have "source_at (evictSource ?n t) i = map_option (\<lambda>src. if SupportsEviction src then source_EvictBefore ?n src else src) (source_at t i)"
      by (simp add: source_at_def evictSource_def)
    ultimately have eq: "first_value kids (source_at (evictSource ?n t) i) line = first_value kids (source_at t i) line" for kids
      using assms(1) first_value_evicted by (auto simp: source_at_def)
    have "EvictPrefixRows cnt t = evictSource ?n (t\<lparr>mRows := drop cnt (mRows t)\<rparr>)"
      using False len by (simp add: EvictPrefixRows_def Let_def)
    moreover have "source_at (evictSource ?n (t\<lparr>mRows := drop cnt (mRows t)\<rparr>)) i = source_at (evictSource ?n t) i"
      by (simp add: source_at_def evictSource_def)
    moreover have "drop cnt (mRows t) ! row = (line, i)" using r len by (simp add: add.commute)
    ultimately show ?thesis
      using eq len r by (auto simp: GetValue_def out_of_table_def evictSource_def)
  qed (simp add: EvictPrefixRows_def)
qed

lemma RefreshColumnKeyIdsForKeys_eq:
  assumes "\<And>c ids. (c, ids) \<in> set (zip (tcolumns t) (mColumnKeyIds t)) \<Longrightarrow> length ids = length (keys c) \<Longrightarrow>
      set (keys c) \<inter> set newKeys = {} \<Longrightarrow> ids = map (find_key ex t) (keys c)"
    and "newKeys \<noteq> []"
    and "\<And>c. c \<in> set (tcolumns t) \<Longrightarrow> keys c \<noteq> []"
  shows "RefreshColumnKeyIdsForKeys ex newKeys t = RefreshColumnKeyIds ex t"
proof -
  let ?cols = "tcolumns t" and ?ids = "resize (length (tcolumns t)) (mColumnKeyIds t)"
  have len: "length ?ids = length ?cols" by (simp add: resize_def)
  have "map2 (\<lambda>c ids. if length ids \<noteq> length (keys c) \<or> list_ex (\<lambda>key. key \<in> set newKeys) (keys c)
      then map (find_key ex t) (keys c) else ids) ?cols ?ids = map (\<lambda>c. map (find_key ex t) (keys c)) ?cols"
  proof (rule nth_equalityI)
    fix i assume "i < length (map2 (\<lambda>c ids. if length ids \<noteq> length (keys c) \<or> list_ex (\<lambda>key. key \<in> set newKeys) (keys c)
      then map (find_key ex t) (keys c) else ids) ?cols ?ids)"
    then have i: "i < length ?cols" by (simp add: len)
    show "map2 (\<lambda>c ids. if length ids \<noteq> length (keys c) \<or> list_ex (\<lambda>key. key \<in> set newKeys) (keys c)
      then map (find_key ex t) (keys c) else ids) ?cols ?ids ! i = map (\<lambda>c. map (find_key ex t) (keys c)) ?cols ! i"
    proof (cases "i < length (mColumnKeyIds t)")
      case True
      then have "(?cols ! i, mColumnKeyIds t ! i) \<in> set (zip ?cols (mColumnKeyIds t))"
        using i by (auto simp: set_zip)
      moreover have "?ids ! i = mColumnKeyIds t ! i" using True i by (simp add: resize_def nth_append)
      ultimately show ?thesis
        using i len assms(1) [of "?cols ! i" "mColumnKeyIds t ! i"] by (auto simp: list_ex_iff)
    next
      case False
      then have "?ids ! i = []" using i by (auto simp: resize_def nth_append)
      then show ?thesis using i len assms(3) [of "?cols ! i"] by auto
    qed
  qed (simp add: len)
  then show ?thesis using assms(2) by (simp add: RefreshColumnKeyIdsForKeys_def RefreshColumnKeyIds_def)
qed

text \<open>A refreshed cache ranks each value of the dictionary by the level it resolves to.\<close>

definition ranks_ok :: "Column \<Rightarrow> EnumDictionary \<Rightarrow> LogLevel list \<Rightarrow> bool" where
  "ranks_ok column d ranks \<longleftrightarrow> length ranks \<le> length (mValues d) \<and>
     (\<forall>v<length ranks. ranks ! v = level_of_value column (mValues d ! v))"

lemma RefreshLevelRankCache_ranks:
  assumes "dict_inv d" "i < length (tcolumns t)" "ctype (tcolumns t ! i) = CtLevel"
    and "canonical = first_known_key ex t (keys (tcolumns t ! i))" "canonical \<noteq> INVALID_KEY_ID"
    and "reg_Find (tEnumDictionaries t) canonical = Some d"
    and "\<And>r. mLevelRankCache t canonical = Some r \<Longrightarrow> ranks_ok (tcolumns t ! i) d r"
  shows "mLevelRankCache (RefreshLevelRankCache ex i t) canonical =
    Some (map (level_of_value (tcolumns t ! i)) (mValues d))"
proof -
  let ?col = "tcolumns t ! i" and ?n = "length (mValues d)"
  define ranks where "ranks = (case mLevelRankCache t canonical of Some r \<Rightarrow> r | None \<Rightarrow> [])"
  have ok: "ranks_ok ?col d ranks"
    using assms(7) by (auto simp: ranks_def ranks_ok_def split: option.split)
  have size: "unat (dict_Size d) = ?n" unfolding dict_Size_def by (rule unat_new_id [OF assms(1)])
  have res: "dict_Resolve d (word_of_nat v) = mValues d ! v" if "v < ?n" for v
    using that assms(1) by (simp add: dict_Resolve_def dict_inv_def unat_of_nat)
  have "ranks @ map (\<lambda>v. level_of_value ?col (dict_Resolve d (word_of_nat v))) [length ranks..<?n] =
      map (level_of_value ?col) (mValues d)"
    using ok res by (intro nth_equalityI) (auto simp: ranks_ok_def nth_append)
  moreover have "\<not> length ranks > ?n" using ok by (simp add: ranks_ok_def)
  ultimately show ?thesis
    unfolding RefreshLevelRankCache_def Let_def assms(4) [symmetric] ranks_def [symmetric]
    using assms(2,3,5,6) by (simp add: size)
qed

text \<open>
  The readers of the cache go by the first key of the column, known or not: a column whose
  first key has no id has no ranks, although \<open>RefreshLevelRankCache\<close> filed them under the next
  key.
\<close>

lemma LevelRankCache_first_key_unknown:
  assumes "i < length (tcolumns t)" "keys (tcolumns t ! i) = key # ks" "find_key ex t key = INVALID_KEY_ID"
  shows "LevelRankCache ex (RefreshLevelRankCache ex i t) i = None"
proof -
  have "find_key ex (RefreshLevelRankCache ex i t) key = find_key ex t key"
    "tcolumns (RefreshLevelRankCache ex i t) = tcolumns t"
    by (auto simp: RefreshLevelRankCache_def find_key_def Let_def split: option.split)
  then show ?thesis using assms by (simp add: LevelRankCache_def)
qed

end
