(* ===== verification/Row_Bitset.thy ===== *)
theory Row_Bitset
  imports Prelude "HOL-Library.Word"
begin

unbundle bit_operations_syntax

text \<open>
  \<open>RowBitset\<close> of \<open>library/src/log_filter.cpp\<close>: one bit per row, packed into 64-bit words, with
  the bits behind the last row kept clear.  \<open>countr_zero\<close> and \<open>popcount\<close> are the functions of
  the standard header \<open><bit>\<close>.
\<close>

record RowBitset =
  mRowCount :: nat
  mWords :: "64 word list"

definition WordCount :: "nat \<Rightarrow> nat" where
  "WordCount rowCount = (rowCount + 64 - 1) div 64"

definition new_RowBitset :: "nat \<Rightarrow> RowBitset" where
  "new_RowBitset rowCount = \<lparr>mRowCount = rowCount, mWords = replicate (WordCount rowCount) 0\<rparr>"

definition Set_row :: "nat \<Rightarrow> RowBitset \<Rightarrow> RowBitset" where
  "Set_row row b = b\<lparr>mWords := (mWords b)[row div 64 := (mWords b ! (row div 64)) OR push_bit (row mod 64) 1]\<rparr>"

definition Test :: "RowBitset \<Rightarrow> nat \<Rightarrow> bool" where
  "Test b row \<longleftrightarrow> (mWords b ! (row div 64)) AND push_bit (row mod 64) 1 \<noteq> 0"

definition OrInPlace :: "RowBitset \<Rightarrow> RowBitset \<Rightarrow> RowBitset" where
  "OrInPlace b other = b\<lparr>mWords := map2 (OR) (mWords b) (mWords other)\<rparr>"

definition AndInPlace :: "RowBitset \<Rightarrow> RowBitset \<Rightarrow> RowBitset" where
  "AndInPlace b other = b\<lparr>mWords := map2 (AND) (mWords b) (mWords other)\<rparr>"

definition MaskTail :: "RowBitset \<Rightarrow> RowBitset" where
  "MaskTail b =
     (if mWords b = [] then b
      else let tail = mRowCount b mod 64
           in if tail = 0 then b
              else b\<lparr>mWords := butlast (mWords b) @ [last (mWords b) AND (push_bit tail 1 - 1)]\<rparr>)"

definition FillTrue :: "RowBitset \<Rightarrow> RowBitset" where
  "FillTrue b = MaskTail (b\<lparr>mWords := map (\<lambda>_. NOT 0) (mWords b)\<rparr>)"

definition InvertInPlace :: "RowBitset \<Rightarrow> RowBitset" where
  "InvertInPlace b = MaskTail (b\<lparr>mWords := map NOT (mWords b)\<rparr>)"

definition popcount :: "64 word \<Rightarrow> nat" where
  "popcount w = length (filter (bit w) [0..<64])"

definition Count :: "RowBitset \<Rightarrow> nat" where
  "Count b = foldl (\<lambda>total word. total + popcount word) 0 (mWords b)"

definition countr_zero :: "64 word \<Rightarrow> nat" where
  "countr_zero w = length (takeWhile (\<lambda>i. \<not> bit w i) [0..<64])"

text \<open>The inner loop of \<open>CollectInto\<close>: \<open>word &= word - 1\<close> clears the lowest set bit.\<close>

function collect_word :: "nat \<Rightarrow> 64 word \<Rightarrow> nat list" where
  "collect_word base word =
     (if word \<noteq> 0 then (base + countr_zero word) # collect_word base (word AND (word - 1)) else [])"
  by pat_completeness auto
termination
proof (relation "measure (\<lambda>(base, word). unat word)")
  fix base :: nat and word :: "64 word"
  assume "word \<noteq> 0"
  have "unat (word AND (word - 1)) \<le> unat (word - 1)"
    using word_and_le1 [of word "word - 1"] by (simp add: word_le_nat_alt)
  also have "unat (word - 1) < unat word"
    using \<open>word \<noteq> 0\<close> by (simp add: unat_minus_one unat_gt_0)
  finally show "((base, word AND (word - 1)), base, word) \<in> measure (\<lambda>(base, word). unat word)"
    by simp
qed simp

declare collect_word.simps [simp del]

definition CollectInto :: "RowBitset \<Rightarrow> nat list \<Rightarrow> nat list" where
  "CollectInto b out = out @ concat (map (\<lambda>(wi, word). collect_word (wi * 64) word) (enumerate 0 (mWords b)))"

subsection \<open>The lowest set bit\<close>

lemma countr_zero:
  assumes "w \<noteq> 0"
  shows "countr_zero w < 64" "bit w (countr_zero w)" "\<And>i. i < countr_zero w \<Longrightarrow> \<not> bit w i"
proof -
  let ?P = "\<lambda>i. \<not> bit w i"
  obtain n where n: "bit w n" using assms by (metis bit_eq_iff bit_0_eq bot_apply bot_bool_def)
  then have "n < 64" using bit_imp_le_length [of w n] by simp
  with n have "\<exists>x\<in>set [0..<64]. \<not> ?P x" by auto
  then have "takeWhile ?P [0..<64] \<noteq> [0..<64]" by (metis takeWhile_eq_all_conv)
  moreover have "length (takeWhile ?P [0..<64]) \<le> 64"
    using length_takeWhile_le [of ?P "[0..<64]"] by simp
  ultimately have len: "length (takeWhile ?P [0..<64]) < length [0..<64::nat]"
    by (metis append_Nil2 append_take_drop_id drop_all le_neq_implies_less length_takeWhile_le takeWhile_eq_take)
  then show lt: "countr_zero w < 64" by (simp add: countr_zero_def)
  show "bit w (countr_zero w)"
    using nth_length_takeWhile [OF len] lt by (simp add: countr_zero_def)
  show "\<not> bit w i" if "i < countr_zero w" for i
  proof -
    have i: "i < length (takeWhile ?P [0..<64])" using that by (simp add: countr_zero_def)
    then have "takeWhile ?P [0..<64] ! i = i" using len by (simp add: takeWhile_nth)
    then have "i \<in> set (takeWhile ?P [0..<64])" using nth_mem [OF i] by simp
    then show ?thesis using set_takeWhileD by fastforce
  qed
qed

lemma clear_lowest:
  fixes w :: "64 word"
  assumes "w \<noteq> 0"
  shows "bit (w AND (w - 1)) n \<longleftrightarrow> bit w n \<and> n \<noteq> countr_zero w"
proof -
  let ?k = "countr_zero w"
  define h where "h = w AND NOT (mask (Suc ?k))"
  note k = countr_zero [OF assms]
  have hb: "bit h n \<longleftrightarrow> bit w n \<and> ?k < n" for n
    using bit_imp_le_length [of w n] by (auto simp: h_def bit_simps)
  have "w = h OR 2 ^ ?k"
    by (rule bit_eqI) (use k in \<open>auto simp: bit_simps hb linorder_neq_iff\<close>)
  also have "\<dots> = h + 2 ^ ?k"
    by (rule disjunctive_add_eq_or [symmetric], rule bit_eqI) (auto simp: bit_simps hb)
  finally have "w - 1 = h + mask ?k" by (simp add: mask_eq_exp_minus_1)
  also have "\<dots> = h OR mask ?k"
    by (rule disjunctive_add_eq_or, rule bit_eqI) (auto simp: bit_simps hb)
  finally have "bit (w - 1) n \<longleftrightarrow> bit w n \<and> ?k < n \<or> n < ?k \<and> n < 64"
    by (auto simp: bit_simps hb)
  then show ?thesis using k(3) [of n] bit_imp_le_length [of w n] by (auto simp: bit_and_iff)
qed

lemma filter_upt_least:
  assumes "k < n" "P k" "\<And>i. i < k \<Longrightarrow> \<not> P i"
  shows "filter P [0..<n] = k # filter (\<lambda>i. P i \<and> i \<noteq> k) [0..<n]"
proof -
  have split: "[0..<n] = [0..<k] @ k # [Suc k..<n]"
    using assms(1) upt_add_eq_append [of 0 k "n - k"] upt_conv_Cons [of k n] by simp
  have "filter (\<lambda>i. P i \<and> i \<noteq> k) [Suc k..<n] = filter P [Suc k..<n]"
    by (rule filter_cong) auto
  then show ?thesis using assms by (simp add: split)
qed

lemma collect_word_eq: "collect_word base w = map ((+) base) (filter (bit w) [0..<64])"
proof (induction base w rule: collect_word.induct)
  case (1 base w)
  show ?case
  proof (cases "w = 0")
    case False
    note k = countr_zero [OF False]
    have "filter (bit (w AND (w - 1))) [0..<64] = filter (\<lambda>i. bit w i \<and> i \<noteq> countr_zero w) [0..<64]"
      by (rule filter_cong) (simp_all add: clear_lowest [OF False])
    then have "filter (bit w) [0..<64] = countr_zero w # filter (bit (w AND (w - 1))) [0..<64]"
      using filter_upt_least [where P = "bit w", OF k] by simp
    then show ?thesis using 1 [OF False] False by (subst collect_word.simps) simp
  qed (simp add: collect_word.simps)
qed

subsection \<open>The rows of a bitset\<close>

text \<open>
  The invariant (the comment at \<open>CollectInto\<close>): as many words as the row count needs, and no
  bit behind the last row.
\<close>

definition bitset_inv :: "nat \<Rightarrow> RowBitset \<Rightarrow> bool" where
  "bitset_inv n b \<longleftrightarrow> mRowCount b = n \<and> length (mWords b) = WordCount n \<and>
     (\<forall>i j. i < length (mWords b) \<longrightarrow> bit (mWords b ! i) j \<longrightarrow> i * 64 + j < n)"

lemma Test_bit: "Test b row \<longleftrightarrow> bit (mWords b ! (row div 64)) (row mod 64)"
proof -
  have "bit w m \<longleftrightarrow> w AND push_bit m 1 \<noteq> 0" if "m < 64" for w :: "64 word" and m
    using that by (simp add: bit_eq_iff [where 'a = "64 word"]) (auto simp: bit_simps)
  then show ?thesis by (simp add: Test_def)
qed

lemma WordCount_eq: "WordCount n = n div 64 + (if n mod 64 = 0 then 0 else 1)"
proof -
  have "(n + 63) div 64 = (n mod 64 + 63 + 64 * (n div 64)) div 64" by simp
  also have "\<dots> = n div 64 + (n mod 64 + 63) div 64" by (simp only: div_mult_self2 zero_neq_numeral)
  also have "(n mod 64 + 63) div 64 = (if n mod 64 = 0 then 0 else 1)"
  proof (cases "n mod 64 = 0")
    case False
    have "n mod 64 < 64" by simp
    with False have "64 \<le> n mod 64 + 63" "n mod 64 + 63 < 64 * 2" by linarith+
    then have "(n mod 64 + 63) div 64 = 1" by (intro div_nat_eqI) simp_all
    with False show ?thesis by simp
  qed simp
  finally show ?thesis by (simp add: WordCount_def)
qed

lemma row_word: "row < n \<Longrightarrow> row div 64 < WordCount n"
  by (auto simp: WordCount_def less_eq_div_iff_mult_less_eq div_less_iff_less_mult)

lemma bitset_inv_new: "bitset_inv n (new_RowBitset n)"
  by (simp add: bitset_inv_def new_RowBitset_def)

lemma Test_new: "row < n \<Longrightarrow> \<not> Test (new_RowBitset n) row"
  using row_word [of row n] by (simp add: Test_bit new_RowBitset_def)

lemma Set_row:
  assumes "bitset_inv n b" "row < n"
  shows "bitset_inv n (Set_row row b)" "r < n \<Longrightarrow> Test (Set_row row b) r \<longleftrightarrow> r = row \<or> Test b r"
proof -
  have w: "row div 64 < length (mWords b)" using assms row_word by (simp add: bitset_inv_def)
  show "bitset_inv n (Set_row row b)"
    using assms w by (auto simp: bitset_inv_def Set_row_def nth_list_update bit_simps split: if_splits)
  have "r div 64 = row div 64 \<and> r mod 64 = row mod 64 \<longleftrightarrow> r = row"
    by (metis div_mult_mod_eq)
  then show "r < n \<Longrightarrow> Test (Set_row row b) r \<longleftrightarrow> r = row \<or> Test b r"
    using w by (auto simp: Test_bit Set_row_def nth_list_update bit_simps)
qed

lemma OrInPlace:
  assumes "bitset_inv n a" "bitset_inv n b"
  shows "bitset_inv n (OrInPlace a b)" "r < n \<Longrightarrow> Test (OrInPlace a b) r \<longleftrightarrow> Test a r \<or> Test b r"
  using assms row_word [of r n] by (auto simp: bitset_inv_def OrInPlace_def Test_bit bit_simps)

lemma AndInPlace:
  assumes "bitset_inv n a" "bitset_inv n b"
  shows "bitset_inv n (AndInPlace a b)" "r < n \<Longrightarrow> Test (AndInPlace a b) r \<longleftrightarrow> Test a r \<and> Test b r"
  using assms row_word [of r n] by (auto simp: bitset_inv_def AndInPlace_def Test_bit bit_simps)

lemma MaskTail:
  assumes "mRowCount b = n" "length (mWords b) = WordCount n"
  shows "bitset_inv n (MaskTail b)" "r < n \<Longrightarrow> Test (MaskTail b) r \<longleftrightarrow> Test b r"
proof -
  have nth: "mWords (MaskTail b) ! i =
      (if Suc i = WordCount n \<and> n mod 64 \<noteq> 0 then mWords b ! i AND mask (n mod 64) else mWords b ! i)"
    if "i < WordCount n" for i
  proof (cases "Suc i = WordCount n")
    case True
    then have "length (mWords b) = Suc i" "mWords b \<noteq> []" using assms by auto
    then show ?thesis
      by (simp add: MaskTail_def Let_def assms(1) nth_append last_conv_nth mask_eq_exp_minus_1 True [symmetric])
  next
    case False
    then have "i < length (mWords b) - 1" "mWords b \<noteq> []" using assms that by auto
    then show ?thesis using False by (simp add: MaskTail_def Let_def nth_append nth_butlast)
  qed
  have len: "length (mWords (MaskTail b)) = WordCount n" "mRowCount (MaskTail b) = n"
    using assms length_greater_0_conv [of "mWords b"] by (auto simp: MaskTail_def Let_def simp flip: assms(2))
  have last: "Suc i = WordCount n \<Longrightarrow> n mod 64 \<noteq> 0 \<Longrightarrow> i * 64 + n mod 64 = n" for i
    using div_mult_mod_eq [of n 64] by (simp add: WordCount_eq)
  have full: "Suc i = WordCount n \<Longrightarrow> n mod 64 = 0 \<Longrightarrow> i * 64 + 64 = n" for i
    using div_mult_mod_eq [of n 64] by (simp add: WordCount_eq)
  have inner: "Suc i < WordCount n \<Longrightarrow> i * 64 + 64 \<le> n" for i
  proof -
    assume "Suc i < WordCount n"
    then have "Suc i \<le> n div 64" by (simp add: WordCount_eq split: if_splits)
    then have "Suc i * 64 \<le> n div 64 * 64" by (rule mult_le_mono1)
    then show "i * 64 + 64 \<le> n" using div_mult_mod_eq [of n 64] by simp
  qed
  have "i * 64 + j < n" if "i < WordCount n" "bit (mWords (MaskTail b) ! i) j" for i j
  proof (cases "Suc i = WordCount n \<and> n mod 64 \<noteq> 0")
    case True
    then have "j < n mod 64" using that nth [of i] by (auto simp: bit_simps)
    then show ?thesis using last [of i] True by linarith
  next
    case False
    have "j < 64" using that(2) bit_imp_le_length by fastforce
    moreover have "i * 64 + 64 \<le> n" using False full [of i] inner [of i] that(1) by linarith
    ultimately show ?thesis by linarith
  qed
  then show "bitset_inv n (MaskTail b)" by (simp add: bitset_inv_def len)
  show "r < n \<Longrightarrow> Test (MaskTail b) r \<longleftrightarrow> Test b r"
  proof -
    assume r: "r < n"
    have "Suc (r div 64) = WordCount n \<Longrightarrow> n mod 64 \<noteq> 0 \<Longrightarrow> r mod 64 < n mod 64"
      using r last [of "r div 64"] div_mult_mod_eq [of r 64] by linarith
    then show ?thesis using nth [OF row_word [OF r]] by (auto simp: Test_bit bit_simps)
  qed
qed

lemma FillTrue:
  assumes "bitset_inv n b"
  shows "bitset_inv n (FillTrue b)" "r < n \<Longrightarrow> Test (FillTrue b) r"
  using assms row_word [of r n] MaskTail(1) [of "b\<lparr>mWords := map (\<lambda>_. NOT 0) (mWords b)\<rparr>" n]
    MaskTail(2) [of "b\<lparr>mWords := map (\<lambda>_. NOT 0) (mWords b)\<rparr>" n r]
  by (auto simp: bitset_inv_def FillTrue_def Test_bit bit_simps)

lemma InvertInPlace:
  assumes "bitset_inv n b"
  shows "bitset_inv n (InvertInPlace b)" "r < n \<Longrightarrow> Test (InvertInPlace b) r \<longleftrightarrow> \<not> Test b r"
  using assms row_word [of r n] MaskTail(1) [of "b\<lparr>mWords := map NOT (mWords b)\<rparr>" n]
    MaskTail(2) [of "b\<lparr>mWords := map NOT (mWords b)\<rparr>" n r]
  by (auto simp: bitset_inv_def InvertInPlace_def Test_bit bit_simps)

subsection \<open>Collecting the rows\<close>

lemma filter_upt_words:
  "concat (map (\<lambda>i. map ((+) (i * 64)) (filter (\<lambda>j. P (i * 64 + j)) [0..<64])) [0..<k]) = filter P [0..<k * 64]"
proof (induction k)
  case (Suc k)
  have "map ((+) (k * 64)) (filter (\<lambda>j. P (k * 64 + j)) [0..<64]) = filter P (map ((+) (k * 64)) [0..<64])"
    by (simp add: filter_map o_def)
  also have "map ((+) (k * 64)) [0..<64] = [k * 64..<k * 64 + 64]"
    by (rule nth_equalityI) simp_all
  finally have block: "map ((+) (k * 64)) (filter (\<lambda>j. P (k * 64 + j)) [0..<64]) = filter P [k * 64..<k * 64 + 64]" .
  have "[0..<Suc k * 64] = [0..<k * 64] @ [k * 64..<k * 64 + 64]"
    using upt_add_eq_append [of 0 "k * 64" 64] by (simp only: mult_Suc add.commute le0)
  then show ?case by (simp only: upt_Suc_append le0 map_append concat_append filter_append Suc block
      list.map concat.simps append_Nil2)
qed simp

lemma CollectInto_rows:
  assumes "bitset_inv n b"
  shows "CollectInto b out = out @ filter (Test b) [0..<n]"
proof -
  have len: "length (mWords b) = WordCount n" and tail: "\<And>i j. i < WordCount n \<Longrightarrow> bit (mWords b ! i) j \<Longrightarrow> i * 64 + j < n"
    using assms by (auto simp: bitset_inv_def)
  have enum: "enumerate 0 (mWords b) = map (\<lambda>i. (i, mWords b ! i)) [0..<WordCount n]"
    by (rule nth_equalityI) (simp_all add: len nth_enumerate_eq)
  have "concat (map (\<lambda>(wi, word). collect_word (wi * 64) word) (enumerate 0 (mWords b))) =
      concat (map (\<lambda>i. map ((+) (i * 64)) (filter (\<lambda>j. Test b (i * 64 + j)) [0..<64])) [0..<WordCount n])"
  proof -
    have "collect_word (i * 64) (mWords b ! i) = map ((+) (i * 64)) (filter (\<lambda>j. Test b (i * 64 + j)) [0..<64])" for i
      unfolding collect_word_eq by (rule arg_cong, rule filter_cong) (auto simp: Test_bit)
    then show ?thesis by (simp add: enum o_def)
  qed
  also have "\<dots> = filter (Test b) [0..<WordCount n * 64]" by (rule filter_upt_words)
  also have "\<dots> = filter (Test b) [0..<n]"
  proof -
    define q r where "q = n div 64" and "r = n mod 64"
    have "r < 64" "n = q * 64 + r" "WordCount n * 64 = q * 64 + (if r = 0 then 0 else 64)"
      by (simp_all add: WordCount_eq q_def r_def)
    then have le: "n \<le> WordCount n * 64" by (simp split: if_splits)
    have "\<not> Test b r" if "r \<in> set [n..<WordCount n * 64]" for r
    proof -
      have "r div 64 < WordCount n" using that by (simp add: div_less_iff_less_mult)
      then show ?thesis using tail [of "r div 64" "r mod 64"] that by (auto simp: Test_bit)
    qed
    then have "filter (Test b) [n..<WordCount n * 64] = []" by (simp add: filter_empty_conv)
    then show ?thesis using le upt_add_eq_append [of 0 n "WordCount n * 64 - n"] by simp
  qed
  finally show ?thesis by (simp add: CollectInto_def)
qed

lemma Count_rows: "bitset_inv n b \<Longrightarrow> Count b = length (CollectInto b [])"
proof -
  have "foldl (\<lambda>total word. total + popcount word) a ws =
      a + length (concat (map (\<lambda>(wi, word). collect_word (wi * 64) word) (enumerate k ws)))" for a k ws
  proof (induction ws arbitrary: a k)
    case (Cons w ws)
    show ?case
      using Cons.IH [of "a + popcount w" "Suc k"] by (simp add: popcount_def collect_word_eq)
  qed simp
  from this [of 0 "mWords b" 0] show ?thesis by (simp only: Count_def CollectInto_def append_Nil add_0)
qed

subsection \<open>The contract of a row set\<close>

text \<open>
  What the evaluators of \<open>log_filter.cpp\<close> rely on: each operation keeps the row set well formed
  for its row count and acts row by row.
\<close>

locale row_set =
  fixes ok :: "nat \<Rightarrow> 'b \<Rightarrow> bool"
    and has :: "'b \<Rightarrow> nat \<Rightarrow> bool"
    and none :: "nat \<Rightarrow> 'b"
    and add_row :: "nat \<Rightarrow> 'b \<Rightarrow> 'b"
    and join_rows :: "'b \<Rightarrow> 'b \<Rightarrow> 'b"
    and meet_rows :: "'b \<Rightarrow> 'b \<Rightarrow> 'b"
  assumes ok_none: "ok n (none n)"
    and ok_add: "ok n b \<Longrightarrow> r < n \<Longrightarrow> ok n (add_row r b)"
    and ok_join: "ok n a \<Longrightarrow> ok n b \<Longrightarrow> ok n (join_rows a b)"
    and ok_meet: "ok n a \<Longrightarrow> ok n b \<Longrightarrow> ok n (meet_rows a b)"
    and has_none: "r < n \<Longrightarrow> \<not> has (none n) r"
    and has_add: "ok n b \<Longrightarrow> r < n \<Longrightarrow> q < n \<Longrightarrow> has (add_row r b) q \<longleftrightarrow> q = r \<or> has b q"
    and has_join: "ok n a \<Longrightarrow> ok n b \<Longrightarrow> r < n \<Longrightarrow> has (join_rows a b) r \<longleftrightarrow> has a r \<or> has b r"
    and has_meet: "ok n a \<Longrightarrow> ok n b \<Longrightarrow> r < n \<Longrightarrow> has (meet_rows a b) r \<longleftrightarrow> has a r \<and> has b r"
begin

lemma add_rows:
  assumes "ok n b" "set rows \<subseteq> {..<n}"
  shows "ok n (fold (\<lambda>r b. if P r then add_row r b else b) rows b)"
    and "q < n \<Longrightarrow> has (fold (\<lambda>r b. if P r then add_row r b else b) rows b) q \<longleftrightarrow>
      has b q \<or> q \<in> set rows \<and> P q"
proof -
  have "ok n (fold (\<lambda>r b. if P r then add_row r b else b) rows b) \<and>
     (q < n \<longrightarrow> (has (fold (\<lambda>r b. if P r then add_row r b else b) rows b) q \<longleftrightarrow> has b q \<or> q \<in> set rows \<and> P q))"
    using assms
  proof (induction rows arbitrary: b)
    case (Cons r rows)
    have r: "r < n" "set rows \<subseteq> {..<n}" using Cons.prems by auto
    have "ok n (if P r then add_row r b else b)" using Cons.prems ok_add r by auto
    from Cons.IH [OF this r(2)] show ?case using has_add [OF Cons.prems(1) r(1)] by auto
  qed simp
  then show "ok n (fold (\<lambda>r b. if P r then add_row r b else b) rows b)"
    "q < n \<Longrightarrow> has (fold (\<lambda>r b. if P r then add_row r b else b) rows b) q \<longleftrightarrow>
      has b q \<or> q \<in> set rows \<and> P q"
    by auto
qed

lemma join_all:
  assumes "ok n a" "\<And>b. b \<in> set bs \<Longrightarrow> ok n b"
  shows "ok n (foldl join_rows a bs)"
    and "r < n \<Longrightarrow> has (foldl join_rows a bs) r \<longleftrightarrow> has a r \<or> (\<exists>b\<in>set bs. has b r)"
  using assms
  by (induction bs arbitrary: a) (auto simp: ok_join has_join)

lemma meet_all:
  assumes "ok n a" "\<And>b. b \<in> set bs \<Longrightarrow> ok n b"
  shows "ok n (foldl meet_rows a bs)"
    and "r < n \<Longrightarrow> has (foldl meet_rows a bs) r \<longleftrightarrow> has a r \<and> (\<forall>b\<in>set bs. has b r)"
  using assms
  by (induction bs arbitrary: a) (auto simp: ok_meet has_meet)

end

interpretation bitset: row_set bitset_inv Test new_RowBitset Set_row OrInPlace AndInPlace
  by unfold_locales
    (auto simp: bitset_inv_new Test_new Set_row(1) Set_row(2) OrInPlace(1) OrInPlace(2) AndInPlace(1) AndInPlace(2))

end
