(* ===== verification/Log_Filter.thy ===== *)
theory Log_Filter
  imports Log_Table Row_Bitset "HOL-Library.Multiset"
begin

text \<open>
  \<open>library/src/log_filter.cpp\<close> and its header: the row predicates, compiled filter expressions,
  their evaluation row by row, and the bitset evaluation that \<open>FilterAcceptedRows\<close> chooses for
  trees with an \<open>Or\<close> or a \<open>Not\<close>.  Time bounds are \<open>int64_t\<close> values as integers.

  A leaf carries the address of its predicate (\<open>&node.predicate\<close>), by which the code tells
  leaves apart.  The work that TBB spreads over threads is a schedule: for each worker the
  rows it visits, in the order it visits them.
\<close>

section \<open>Row predicates\<close>

record EnumRowPredicate =
  ep_column :: nat
  mSelectedIds :: "bool list"
  mSelectedStrings :: "string list"
  mFastPathArmed :: bool
  mAllResolved :: bool
  mEmptySelection :: bool

definition new_EnumRowPredicate :: "nat \<Rightarrow> EnumRowPredicate" where
  "new_EnumRowPredicate column =
     \<lparr>ep_column = column, mSelectedIds = [], mSelectedStrings = [], mFastPathArmed = False,
      mAllResolved = False, mEmptySelection = False\<rparr>"

text \<open>One turn of the constructor's loop: the predicate and \<open>resolvedCount\<close> so far.\<close>

definition arm_value ::
    "EnumDictionary \<Rightarrow> string \<Rightarrow> EnumRowPredicate \<times> nat \<Rightarrow> EnumRowPredicate \<times> nat" where
  "arm_value dictionary value st =
     (case st of (p, resolvedCount) \<Rightarrow>
        let vid = dict_Find dictionary value
        in if vid = INVALID_ENUM_VALUE_ID
           then (p\<lparr>mSelectedStrings := mSelectedStrings p @ [value]\<rparr>, resolvedCount)
           else if unat vid \<ge> length (mSelectedIds p)
           then (p\<lparr>mSelectedStrings := mSelectedStrings p @ [value]\<rparr>, resolvedCount)
           else (p\<lparr>mSelectedIds := (mSelectedIds p)[unat vid := True], mFastPathArmed := True\<rparr>,
                 resolvedCount + 1))"

text \<open>The constructor; the values without duplicates stand for the hash set \<open>distinct\<close>.\<close>

definition make_EnumRowPredicate :: "nat \<Rightarrow> string list \<Rightarrow> EnumDictionary option \<Rightarrow> EnumRowPredicate" where
  "make_EnumRowPredicate column selectedValues dictionary =
     (let p = new_EnumRowPredicate column in
      if selectedValues = [] then p\<lparr>mEmptySelection := True\<rparr>
      else let uniq = remdups selectedValues in
      case dictionary of
        None \<Rightarrow> p\<lparr>mSelectedStrings := uniq\<rparr>
      | Some d \<Rightarrow>
          (let (p, resolvedCount) =
                 fold (arm_value d) uniq (p\<lparr>mSelectedIds := replicate (unat (dict_Size d)) False\<rparr>, 0)
           in p\<lparr>mAllResolved := (resolvedCount = length uniq)\<rparr>))"

text \<open>The string-set branch at the end of \<open>EnumRowPredicate::MatchesRow\<close>.\<close>

definition match_selected_string :: "EnumRowPredicate \<Rightarrow> LogTable \<Rightarrow> nat \<Rightarrow> bool" where
  "match_selected_string p table row =
     (if mSelectedStrings p = [] then False
      else case GetValue table row (ep_column p) of
             VView _ s \<Rightarrow> s \<in> set (mSelectedStrings p)
           | VString s \<Rightarrow> s \<in> set (mSelectedStrings p)
           | _ \<Rightarrow> False)"

definition match_enum :: "EnumRowPredicate \<Rightarrow> LogTable \<Rightarrow> nat \<Rightarrow> bool" where
  "match_enum p table row =
     (if mEmptySelection p then False
      else if mFastPathArmed p then
        (case GetEnumValueId table row (ep_column p) of
           Some vid \<Rightarrow>
             if unat vid < length (mSelectedIds p) then mSelectedIds p ! unat vid
             else if mAllResolved p then False
             else match_selected_string p table row
         | None \<Rightarrow> match_selected_string p table row)
      else match_selected_string p table row)"

definition match_time :: "nat \<Rightarrow> int \<Rightarrow> int \<Rightarrow> LogTable \<Rightarrow> nat \<Rightarrow> bool" where
  "match_time column begin end table row =
     (if begin > end then False
      else case GetValue table row column of
             VTime ts \<Rightarrow> sint ts \<ge> begin \<and> sint ts \<le> end
           | VInt64 v \<Rightarrow> sint v \<ge> begin \<and> sint v \<le> end
           | VUint64 v \<Rightarrow>
               (if v > 2 ^ 63 - 1 then False
                else let lo = (if begin < 0 then 0 else word_of_int begin);
                         hi = (if end < 0 then 0 else word_of_int end)
                     in v \<ge> lo \<and> v \<le> hi)
           | _ \<Rightarrow> False)"

text \<open>The constructor of the numeric range drops NaN bounds.\<close>

definition drop_nan :: "double option \<Rightarrow> double option" where
  "drop_nan bound = (case bound of Some b \<Rightarrow> if isnan b then None else Some b | None \<Rightarrow> None)"

definition numeric_slot :: "LogValue \<Rightarrow> double option" where
  "numeric_slot value =
     (case value of
        VDouble d \<Rightarrow> if isnan d then None else Some d
      | VInt64 v \<Rightarrow> Some (double_of_int (sint v))
      | VUint64 v \<Rightarrow> Some (double_of_int (uint v))
      | _ \<Rightarrow> None)"

definition match_numeric :: "nat \<Rightarrow> double option \<Rightarrow> double option \<Rightarrow> LogTable \<Rightarrow> nat \<Rightarrow> bool" where
  "match_numeric column mMin mMax table row =
     (case numeric_slot (GetValue table row column) of
        None \<Rightarrow> False
      | Some numeric \<Rightarrow>
          (case mMin of Some lo \<Rightarrow> \<not> d_less numeric lo | None \<Rightarrow> True) \<and>
          (case mMax of Some hi \<Rightarrow> \<not> d_less hi numeric | None \<Rightarrow> True))"

definition match_bool :: "nat \<Rightarrow> bool \<Rightarrow> bool \<Rightarrow> LogTable \<Rightarrow> nat \<Rightarrow> bool" where
  "match_bool column includeTrue includeFalse table row =
     (if \<not> includeTrue \<and> \<not> includeFalse then False
      else case GetValue table row column of
             VBool b \<Rightarrow> if b then includeTrue else includeFalse
           | _ \<Rightarrow> False)"

definition match_callback ::
    "externals \<Rightarrow> nat \<Rightarrow> (string \<Rightarrow> bool) option \<Rightarrow> LogTable \<Rightarrow> nat \<Rightarrow> bool" where
  "match_callback fm column mMatch table row =
     (case mMatch of None \<Rightarrow> False | Some f \<Rightarrow> f (GetValueOrFormatted fm table row column))"

datatype RowPredicate =
    PEnum EnumRowPredicate
  | PTime nat int int
  | PNumeric nat "double option" "double option"
  | PBool nat bool bool
  | PCallback nat "(string \<Rightarrow> bool) option"

definition make_NumericRange :: "nat \<Rightarrow> double option \<Rightarrow> double option \<Rightarrow> RowPredicate" where
  "make_NumericRange column minValue maxValue = PNumeric column (drop_nan minValue) (drop_nan maxValue)"

definition MatchesRow :: "externals \<Rightarrow> RowPredicate \<Rightarrow> LogTable \<Rightarrow> nat \<Rightarrow> bool" where
  "MatchesRow fm predicate table row =
     (case predicate of
        PEnum p \<Rightarrow> match_enum p table row
      | PTime c b e \<Rightarrow> match_time c b e table row
      | PNumeric c lo hi \<Rightarrow> match_numeric c lo hi table row
      | PBool c t f \<Rightarrow> match_bool c t f table row
      | PCallback c m \<Rightarrow> match_callback fm c m table row)"

definition RowPredicateColumn :: "RowPredicate \<Rightarrow> nat" where
  "RowPredicateColumn predicate =
     (case predicate of PEnum p \<Rightarrow> ep_column p | PTime c _ _ \<Rightarrow> c | PNumeric c _ _ \<Rightarrow> c
      | PBool c _ _ \<Rightarrow> c | PCallback c _ \<Rightarrow> c)"

definition EstimatedLeafCost :: "RowPredicate \<Rightarrow> int" where
  "EstimatedLeafCost predicate =
     (case predicate of PBool _ _ _ \<Rightarrow> 1 | PEnum _ \<Rightarrow> 2 | PTime _ _ _ \<Rightarrow> 3 | PNumeric _ _ _ \<Rightarrow> 4
      | PCallback _ _ \<Rightarrow> 10)"

section \<open>Compiled expressions\<close>

text \<open>
  Each constructor ends with the node's \<open>estimatedCost\<close> and \<open>referencedColumns\<close>; a leaf starts
  with the address of its predicate.
\<close>

datatype CompiledFilterExpression =
    CLeaf nat RowPredicate int "nat list"
  | CAnd "CompiledFilterExpression list" int "nat list"
  | COr "CompiledFilterExpression list" int "nat list"
  | CNot "CompiledFilterExpression option" int "nat list"

fun EstimatedCost :: "CompiledFilterExpression \<Rightarrow> int" where
  "EstimatedCost (CLeaf _ _ c _) = c"
| "EstimatedCost (CAnd _ c _) = c"
| "EstimatedCost (COr _ c _) = c"
| "EstimatedCost (CNot _ c _) = c"

fun referencedColumns :: "CompiledFilterExpression \<Rightarrow> nat list" where
  "referencedColumns (CLeaf _ _ _ r) = r"
| "referencedColumns (CAnd _ _ r) = r"
| "referencedColumns (COr _ _ r) = r"
| "referencedColumns (CNot _ _ r) = r"

text \<open>The constructors of \<open>Leaf\<close> and \<open>Not\<close>.\<close>

definition make_leaf :: "nat \<Rightarrow> RowPredicate \<Rightarrow> CompiledFilterExpression" where
  "make_leaf addr p = CLeaf addr p (EstimatedLeafCost p) []"

definition make_not :: "CompiledFilterExpression \<Rightarrow> CompiledFilterExpression" where
  "make_not c = CNot (Some c) (EstimatedCost c + 1) []"

definition IsMatchAllCompiled :: "CompiledFilterExpression \<Rightarrow> bool" where
  "IsMatchAllCompiled e \<longleftrightarrow> (case e of CAnd children _ _ \<Rightarrow> children = [] | _ \<Rightarrow> False)"

fun EvaluateExpression :: "externals \<Rightarrow> CompiledFilterExpression \<Rightarrow> LogTable \<Rightarrow> nat \<Rightarrow> bool" where
  "EvaluateExpression fm (CLeaf _ p _ _) table row = MatchesRow fm p table row"
| "EvaluateExpression fm (CAnd children _ _) table row =
     list_all (\<lambda>c. EvaluateExpression fm c table row) children"
| "EvaluateExpression fm (COr children _ _) table row =
     list_ex (\<lambda>c. EvaluateExpression fm c table row) children"
| "EvaluateExpression fm (CNot None _ _) table row = True"
| "EvaluateExpression fm (CNot (Some c) _ _) table row = (\<not> EvaluateExpression fm c table row)"

section \<open>The choice of the evaluator\<close>

record TreeShape =
  leafCount :: nat
  uniqueLeafCount :: nat
  hasOr :: bool
  hasNot :: bool

definition empty_shape :: TreeShape where
  "empty_shape = \<lparr>leafCount = 0, uniqueLeafCount = 0, hasOr = False, hasNot = False\<rparr>"

fun CollectShape :: "CompiledFilterExpression \<Rightarrow> TreeShape \<times> nat list \<Rightarrow> TreeShape \<times> nat list" where
  "CollectShape (CLeaf a _ _ _) (shape, seen) =
     (let shape = shape\<lparr>leafCount := leafCount shape + 1\<rparr>
      in if a \<notin> set seen then (shape\<lparr>uniqueLeafCount := uniqueLeafCount shape + 1\<rparr>, seen @ [a])
         else (shape, seen))"
| "CollectShape (CAnd children _ _) st = fold CollectShape children st"
| "CollectShape (COr children _ _) (shape, seen) = fold CollectShape children (shape\<lparr>hasOr := True\<rparr>, seen)"
| "CollectShape (CNot child _ _) (shape, seen) =
     (let st = (shape\<lparr>hasNot := True\<rparr>, seen)
      in case child of None \<Rightarrow> st | Some c \<Rightarrow> CollectShape c st)"

definition BITSET_MEMORY_CAP_BYTES :: nat where
  "BITSET_MEMORY_CAP_BYTES = 512 * 1024 * 1024"

text \<open>\<open>parallelism\<close> is TBB's \<open>active_value(max_allowed_parallelism)\<close>.\<close>

definition ShouldUseBitsetPath :: "nat \<Rightarrow> TreeShape \<Rightarrow> nat \<Rightarrow> bool" where
  "ShouldUseBitsetPath parallelism shape rowCount =
     (if rowCount = 0 \<or> leafCount shape < 2 then False
      else if \<not> hasOr shape \<and> \<not> hasNot shape then False
      else let bytesPerBitset = rowCount div 8 + 1;
               workers = max 1 parallelism;
               bytes = (uniqueLeafCount shape + workers) * bytesPerBitset
           in bytes \<le> BITSET_MEMORY_CAP_BYTES)"

section \<open>The bitset path\<close>

type_synonym schedule = "nat list list"

definition worker_bitset :: "externals \<Rightarrow> RowPredicate \<Rightarrow> LogTable \<Rightarrow> nat \<Rightarrow> nat list \<Rightarrow> RowBitset" where
  "worker_bitset fm predicate table rowCount rows =
     fold (\<lambda>row b. if MatchesRow fm predicate table row then Set_row row b else b) rows (new_RowBitset rowCount)"

definition MaterialiseLeafBitset ::
    "externals \<Rightarrow> schedule \<Rightarrow> RowPredicate \<Rightarrow> LogTable \<Rightarrow> nat \<Rightarrow> RowBitset" where
  "MaterialiseLeafBitset fm sched predicate table rowCount =
     (case map (worker_bitset fm predicate table rowCount) sched of
        [] \<Rightarrow> new_RowBitset rowCount
      | first # rest \<Rightarrow> foldl OrInPlace first rest)"

text \<open>
  Evaluation over the leaf bitsets; the second component is \<open>leafCursor\<close>, the position of the
  next leaf in visit order.
\<close>

fun EvaluateExpressionBitset ::
    "CompiledFilterExpression \<Rightarrow> RowBitset list \<Rightarrow> nat list \<Rightarrow> nat \<Rightarrow> nat \<Rightarrow> RowBitset \<times> nat"
  and fold_children ::
    "(RowBitset \<Rightarrow> RowBitset \<Rightarrow> RowBitset) \<Rightarrow> CompiledFilterExpression list \<Rightarrow> RowBitset list \<Rightarrow> nat list \<Rightarrow>
     nat \<Rightarrow> RowBitset \<times> nat \<Rightarrow> RowBitset \<times> nat"
where
  "EvaluateExpressionBitset (CLeaf _ _ _ _) leafBitsets leafSlots rowCount leafCursor =
     (leafBitsets ! (leafSlots ! leafCursor), leafCursor + 1)"
| "EvaluateExpressionBitset (CAnd [] _ _) leafBitsets leafSlots rowCount leafCursor =
     (FillTrue (new_RowBitset rowCount), leafCursor)"
| "EvaluateExpressionBitset (CAnd (c # cs) _ _) leafBitsets leafSlots rowCount leafCursor =
     fold_children AndInPlace cs leafBitsets leafSlots rowCount
       (EvaluateExpressionBitset c leafBitsets leafSlots rowCount leafCursor)"
| "EvaluateExpressionBitset (COr [] _ _) leafBitsets leafSlots rowCount leafCursor =
     (new_RowBitset rowCount, leafCursor)"
| "EvaluateExpressionBitset (COr (c # cs) _ _) leafBitsets leafSlots rowCount leafCursor =
     fold_children OrInPlace cs leafBitsets leafSlots rowCount
       (EvaluateExpressionBitset c leafBitsets leafSlots rowCount leafCursor)"
| "EvaluateExpressionBitset (CNot None _ _) leafBitsets leafSlots rowCount leafCursor =
     (FillTrue (new_RowBitset rowCount), leafCursor)"
| "EvaluateExpressionBitset (CNot (Some c) _ _) leafBitsets leafSlots rowCount leafCursor =
     (case EvaluateExpressionBitset c leafBitsets leafSlots rowCount leafCursor of
        (inner, cursor) \<Rightarrow> (InvertInPlace inner, cursor))"
| "fold_children op [] leafBitsets leafSlots rowCount acc = acc"
| "fold_children op (c # cs) leafBitsets leafSlots rowCount (acc, cursor) =
     (case EvaluateExpressionBitset c leafBitsets leafSlots rowCount cursor of
        (next, cursor') \<Rightarrow> fold_children op cs leafBitsets leafSlots rowCount (op acc next, cursor'))"

fun CollectLeafsInVisitOrder :: "CompiledFilterExpression \<Rightarrow> (nat \<times> RowPredicate) list" where
  "CollectLeafsInVisitOrder (CLeaf a p _ _) = [(a, p)]"
| "CollectLeafsInVisitOrder (CAnd children _ _) = concat (map CollectLeafsInVisitOrder children)"
| "CollectLeafsInVisitOrder (COr children _ _) = concat (map CollectLeafsInVisitOrder children)"
| "CollectLeafsInVisitOrder (CNot None _ _) = []"
| "CollectLeafsInVisitOrder (CNot (Some c) _ _) = CollectLeafsInVisitOrder c"

text \<open>The deduplication loop of \<open>FilterAcceptedRows\<close>: \<open>leafSlots\<close> and \<open>uniquePredicates\<close>.\<close>

fun position :: "nat \<Rightarrow> (nat \<times> RowPredicate) list \<Rightarrow> nat option" where
  "position a [] = None"
| "position a ((b, p) # ps) = (if a = b then Some 0 else map_option Suc (position a ps))"

fun assign_slots ::
    "(nat \<times> RowPredicate) list \<Rightarrow> nat list \<Rightarrow> (nat \<times> RowPredicate) list \<Rightarrow> nat list \<times> (nat \<times> RowPredicate) list" where
  "assign_slots [] leafSlots uniq = (leafSlots, uniq)"
| "assign_slots ((a, p) # leaves) leafSlots uniq =
     (case position a uniq of
        None \<Rightarrow> assign_slots leaves (leafSlots @ [length uniq]) (uniq @ [(a, p)])
      | Some i \<Rightarrow> assign_slots leaves (leafSlots @ [i]) uniq)"

section \<open>FilterAcceptedRows\<close>

text \<open>
  \<open>leafScheds\<close> are the schedules of the parallel loops over the leaves, \<open>visitSched\<close> the one of
  the visit path.
\<close>

definition bitset_rows ::
    "externals \<Rightarrow> (nat \<Rightarrow> schedule) \<Rightarrow> LogTable \<Rightarrow> CompiledFilterExpression \<Rightarrow> nat list" where
  "bitset_rows fm leafScheds table e =
     (let n = RowCount table;
          (leafSlots, uniq) = assign_slots (CollectLeafsInVisitOrder e) [] [];
          leafBitsets = map (\<lambda>(i, (a, p)). MaterialiseLeafBitset fm (leafScheds i) p table n) (enumerate 0 uniq)
      in CollectInto (fst (EvaluateExpressionBitset e leafBitsets leafSlots n 0)) [])"

definition visit_rows :: "externals \<Rightarrow> schedule \<Rightarrow> LogTable \<Rightarrow> CompiledFilterExpression \<Rightarrow> nat list" where
  "visit_rows fm visitSched table e =
     sort (concat (map (filter (EvaluateExpression fm e table)) visitSched))"

definition FilterAcceptedRows ::
    "externals \<Rightarrow> nat \<Rightarrow> (nat \<Rightarrow> schedule) \<Rightarrow> schedule \<Rightarrow> LogTable \<Rightarrow> CompiledFilterExpression \<Rightarrow> nat list" where
  "FilterAcceptedRows fm parallelism leafScheds visitSched table e =
     (let rowCount = RowCount table in
      if IsMatchAllCompiled e then [0..<rowCount]
      else if rowCount = 0 then []
      else if ShouldUseBitsetPath parallelism (fst (CollectShape e (empty_shape, []))) rowCount
      then bitset_rows fm leafScheds table e
      else visit_rows fm visitSched table e)"

end
