(* ===== verification/Filter_Correct.thy ===== *)
theory Filter_Correct
  imports Log_Filter
begin

text \<open>
  The two evaluators of \<open>log_filter.cpp\<close> agree: whatever the schedule of the worker threads
  and whichever path is chosen, \<open>FilterAcceptedRows\<close> returns in ascending order the rows on
  which \<open>EvaluateExpression\<close> holds.  Then the row predicates against what they promise.
\<close>

section \<open>Schedules\<close>

text \<open>TBB splits the row range among the workers: every row is visited once.\<close>

definition valid_schedule :: "nat \<Rightarrow> schedule \<Rightarrow> bool" where
  "valid_schedule n sched \<longleftrightarrow> mset (concat sched) = mset [0..<n]"

lemma valid_schedule_rows:
  assumes "valid_schedule n sched"
  shows "(\<exists>rows\<in>set sched. r \<in> set rows) \<longleftrightarrow> r < n" "rows \<in> set sched \<Longrightarrow> set rows \<subseteq> {..<n}"
proof -
  have "set (concat sched) = set [0..<n]" using assms unfolding valid_schedule_def by (metis set_mset_mset)
  then have eq: "(\<exists>rows\<in>set sched. r \<in> set rows) \<longleftrightarrow> r < n" for r
    by (auto simp: set_eq_iff)
  show "(\<exists>rows\<in>set sched. r \<in> set rows) \<longleftrightarrow> r < n" by (rule eq)
  show "rows \<in> set sched \<Longrightarrow> set rows \<subseteq> {..<n}" using eq by auto
qed

lemma visit_rows_eq:
  assumes "valid_schedule (RowCount table) sched"
  shows "visit_rows fm sched table e = filter (EvaluateExpression fm e table) [0..<RowCount table]"
proof -
  let ?P = "EvaluateExpression fm e table"
  have "mset (concat (map (filter ?P) sched)) = filter_mset ?P (mset (concat sched))"
    by (simp add: filter_concat flip: mset_filter)
  also have "\<dots> = mset (filter ?P [0..<RowCount table])"
    using assms by (simp add: valid_schedule_def)
  finally show ?thesis
    unfolding visit_rows_def by (intro properties_for_sort) (simp_all add: sorted_wrt_filter)
qed

section \<open>The bitset path\<close>

definition shows_rows :: "externals \<Rightarrow> LogTable \<Rightarrow> nat \<Rightarrow> RowPredicate \<Rightarrow> RowBitset \<Rightarrow> bool" where
  "shows_rows fm table n p b \<longleftrightarrow> bitset_inv n b \<and> (\<forall>r<n. Test b r \<longleftrightarrow> MatchesRow fm p table r)"

lemma MaterialiseLeafBitset_shows:
  assumes "valid_schedule n sched"
  shows "shows_rows fm table n p (MaterialiseLeafBitset fm sched p table n)"
proof -
  have worker: "bitset_inv n (worker_bitset fm p table n rows)"
    "q < n \<Longrightarrow> Test (worker_bitset fm p table n rows) q \<longleftrightarrow> q \<in> set rows \<and> MatchesRow fm p table q"
    if "rows \<in> set sched" for rows q
    using bitset.add_rows(1) [where n = n and b = "new_RowBitset n" and rows = rows and P = "MatchesRow fm p table"]
      bitset.add_rows(2) [where n = n and b = "new_RowBitset n" and rows = rows and P = "MatchesRow fm p table" and q = q]
      valid_schedule_rows(2) [OF assms that] Test_new [of q n]
    by (auto simp: worker_bitset_def bitset_inv_new)
  show ?thesis
  proof (cases sched)
    case Nil
    then have "[0..<n] = []" using assms by (simp add: valid_schedule_def del: mset_upt)
    then have "n = 0" by simp
    then show ?thesis by (simp add: shows_rows_def MaterialiseLeafBitset_def Nil bitset_inv_new)
  next
    case (Cons rows rest)
    let ?ws = "map (worker_bitset fm p table n) rest" and ?w = "worker_bitset fm p table n rows"
    have eq: "MaterialiseLeafBitset fm sched p table n = foldl OrInPlace ?w ?ws"
      by (simp add: MaterialiseLeafBitset_def Cons)
    have ok: "bitset_inv n ?w" "\<And>b. b \<in> set ?ws \<Longrightarrow> bitset_inv n b"
      using worker(1) Cons by auto
    have "Test (foldl OrInPlace ?w ?ws) r \<longleftrightarrow> MatchesRow fm p table r" if "r < n" for r
    proof -
      have "Test (foldl OrInPlace ?w ?ws) r \<longleftrightarrow> (\<exists>rows\<in>set sched. r \<in> set rows \<and> MatchesRow fm p table r)"
        using bitset.join_all(2) [where a = ?w and bs = ?ws, OF ok that] worker(2) [OF _ that] by (auto simp: Cons)
      then show ?thesis using valid_schedule_rows(1) [OF assms, of r] that by auto
    qed
    then show ?thesis using bitset.join_all(1) [where a = ?w and bs = ?ws, OF ok] by (simp add: shows_rows_def eq)
  qed
qed

definition leaves_shown ::
    "externals \<Rightarrow> LogTable \<Rightarrow> nat \<Rightarrow> RowBitset list \<Rightarrow> nat list \<Rightarrow> nat \<Rightarrow> (nat \<times> RowPredicate) list \<Rightarrow> bool" where
  "leaves_shown fm table n leafBitsets leafSlots cursor leaves \<longleftrightarrow>
     (\<forall>i<length leaves. shows_rows fm table n (snd (leaves ! i)) (leafBitsets ! (leafSlots ! (cursor + i))))"

lemma leaves_shown_append:
  "leaves_shown fm table n bs ss cursor (xs @ ys) \<longleftrightarrow>
     leaves_shown fm table n bs ss cursor xs \<and> leaves_shown fm table n bs ss (cursor + length xs) ys"
proof -
  have "(\<forall>i<length xs + length ys. Q i) \<longleftrightarrow> (\<forall>i<length xs. Q i) \<and> (\<forall>j<length ys. Q (length xs + j))" for Q
  proof -
    have "i < length xs + length ys \<longleftrightarrow> i < length xs \<or> (\<exists>j<length ys. i = length xs + j)" for i
      by (cases "i < length xs") (auto intro!: exI [of _ "i - length xs"])
    then show ?thesis by blast
  qed
  then show ?thesis by (auto simp: leaves_shown_def nth_append add.assoc)
qed

definition evaluates_to ::
    "externals \<Rightarrow> LogTable \<Rightarrow> nat \<Rightarrow> (nat \<Rightarrow> bool) \<Rightarrow> nat \<Rightarrow> RowBitset \<times> nat \<Rightarrow> bool" where
  "evaluates_to fm table n P cursor r \<longleftrightarrow>
     bitset_inv n (fst r) \<and> (\<forall>row<n. Test (fst r) row \<longleftrightarrow> P row) \<and> snd r = cursor"

lemma EvaluateExpressionBitset_correct:
  "leaves_shown fm table n leafBitsets leafSlots cursor (CollectLeafsInVisitOrder e) \<Longrightarrow>
   evaluates_to fm table n (EvaluateExpression fm e table) (cursor + length (CollectLeafsInVisitOrder e))
     (EvaluateExpressionBitset e leafBitsets leafSlots n cursor)"
  and fold_children_correct:
  "leaves_shown fm table n leafBitsets leafSlots (snd acc) (concat (map CollectLeafsInVisitOrder cs)) \<Longrightarrow>
   bitset_inv n (fst acc) \<Longrightarrow>
   (op = AndInPlace \<longrightarrow> evaluates_to fm table n
      (\<lambda>row. Test (fst acc) row \<and> list_all (\<lambda>c. EvaluateExpression fm c table row) cs)
      (snd acc + length (concat (map CollectLeafsInVisitOrder cs)))
      (fold_children op cs leafBitsets leafSlots n acc)) \<and>
   (op = OrInPlace \<longrightarrow> evaluates_to fm table n
      (\<lambda>row. Test (fst acc) row \<or> list_ex (\<lambda>c. EvaluateExpression fm c table row) cs)
      (snd acc + length (concat (map CollectLeafsInVisitOrder cs)))
      (fold_children op cs leafBitsets leafSlots n acc))"
proof (induction e leafBitsets leafSlots n cursor and op cs leafBitsets leafSlots n acc
    rule: EvaluateExpressionBitset_fold_children.induct)
  case (1 a p x r leafBitsets leafSlots rowCount leafCursor)
  then show ?case by (simp add: leaves_shown_def evaluates_to_def shows_rows_def)
next
  case (2 x r leafBitsets leafSlots rowCount leafCursor)
  then show ?case
    using FillTrue [OF bitset_inv_new] by (simp add: evaluates_to_def)
next
  case (3 c cs x r leafBitsets leafSlots rowCount leafCursor)
  have shown: "leaves_shown fm table rowCount leafBitsets leafSlots leafCursor (CollectLeafsInVisitOrder c)"
    "leaves_shown fm table rowCount leafBitsets leafSlots (leafCursor + length (CollectLeafsInVisitOrder c))
       (concat (map CollectLeafsInVisitOrder cs))"
    using 3(3) by (auto simp: leaves_shown_append)
  note first = 3(1) [OF shown(1)]
  show ?case
    using 3(2) shown(2) first by (auto simp: evaluates_to_def add.assoc)
next
  case (4 x r leafBitsets leafSlots rowCount leafCursor)
  then show ?case using Test_new by (simp add: evaluates_to_def bitset_inv_new)
next
  case (5 c cs x r leafBitsets leafSlots rowCount leafCursor)
  have shown: "leaves_shown fm table rowCount leafBitsets leafSlots leafCursor (CollectLeafsInVisitOrder c)"
    "leaves_shown fm table rowCount leafBitsets leafSlots (leafCursor + length (CollectLeafsInVisitOrder c))
       (concat (map CollectLeafsInVisitOrder cs))"
    using 5(3) by (auto simp: leaves_shown_append)
  note first = 5(1) [OF shown(1)]
  show ?case
    using 5(2) shown(2) first by (auto simp: evaluates_to_def add.assoc)
next
  case (6 x r leafBitsets leafSlots rowCount leafCursor)
  then show ?case
    using FillTrue [OF bitset_inv_new] by (simp add: evaluates_to_def)
next
  case (7 c x r leafBitsets leafSlots rowCount leafCursor)
  then show ?case
    using InvertInPlace [of rowCount] by (auto simp: evaluates_to_def split: prod.splits)
next
  case (8 op leafBitsets leafSlots rowCount acc)
  then show ?case by (auto simp: evaluates_to_def)
next
  case (9 op c cs leafBitsets leafSlots rowCount acc cursor)
  obtain nxt cursor' where ev: "EvaluateExpressionBitset c leafBitsets leafSlots rowCount cursor = (nxt, cursor')"
    by (cases "EvaluateExpressionBitset c leafBitsets leafSlots rowCount cursor")
  have shown: "leaves_shown fm table rowCount leafBitsets leafSlots cursor (CollectLeafsInVisitOrder c)"
    "leaves_shown fm table rowCount leafBitsets leafSlots (cursor + length (CollectLeafsInVisitOrder c))
       (concat (map CollectLeafsInVisitOrder cs))"
    using 9(3) by (auto simp: leaves_shown_append)
  have first: "bitset_inv rowCount nxt" "\<And>row. row < rowCount \<Longrightarrow> Test nxt row \<longleftrightarrow> EvaluateExpression fm c table row"
    "cursor' = cursor + length (CollectLeafsInVisitOrder c)"
    using 9(1) [OF shown(1)] by (auto simp: evaluates_to_def ev)
  have acc: "bitset_inv rowCount acc" using 9(4) by simp
  have rest: "leaves_shown fm table rowCount leafBitsets leafSlots (snd (op acc nxt, cursor'))
      (concat (map CollectLeafsInVisitOrder cs))"
    using shown(2) first(3) by simp
  note IH = 9(2) [OF ev [symmetric] rest]
  show ?case
  proof (intro conjI impI)
    assume op: "op = AndInPlace"
    then show "evaluates_to fm table rowCount
      (\<lambda>row. Test (fst (acc, cursor)) row \<and> list_all (\<lambda>c. EvaluateExpression fm c table row) (c # cs))
      (snd (acc, cursor) + length (concat (map CollectLeafsInVisitOrder (c # cs))))
      (fold_children op (c # cs) leafBitsets leafSlots rowCount (acc, cursor))"
      using IH first AndInPlace [OF acc first(1)] by (auto simp: evaluates_to_def ev add.assoc)
  next
    assume op: "op = OrInPlace"
    then show "evaluates_to fm table rowCount
      (\<lambda>row. Test (fst (acc, cursor)) row \<or> list_ex (\<lambda>c. EvaluateExpression fm c table row) (c # cs))
      (snd (acc, cursor) + length (concat (map CollectLeafsInVisitOrder (c # cs))))
      (fold_children op (c # cs) leafBitsets leafSlots rowCount (acc, cursor))"
      using IH first OrInPlace [OF acc first(1)] by (auto simp: evaluates_to_def ev add.assoc)
  qed
qed

subsection \<open>One slot per predicate\<close>

text \<open>Leaves at one address hold one predicate.\<close>

definition consistent :: "(nat \<times> RowPredicate) list \<Rightarrow> bool" where
  "consistent leaves \<longleftrightarrow> (\<forall>x\<in>set leaves. \<forall>y\<in>set leaves. fst x = fst y \<longrightarrow> snd x = snd y)"

lemma consistent_subset: "consistent ys \<Longrightarrow> set xs \<subseteq> set ys \<Longrightarrow> consistent xs"
  by (auto simp: consistent_def)

lemma position_Some: "position a ps = Some i \<Longrightarrow> i < length ps \<and> fst (ps ! i) = a"
  by (induction a ps arbitrary: i rule: position.induct) (auto split: if_splits)

lemma assign_slots_extend: "\<exists>ts vs. assign_slots leaves slots uniq = (slots @ ts, uniq @ vs)"
proof (induction leaves slots uniq rule: assign_slots.induct)
  case (2 a p leaves slots uniq)
  then show ?case by (cases "position a uniq") fastforce+
qed simp

lemma assign_slots_correct:
  assumes "assign_slots leaves slots uniq = (slots', uniq')" "consistent (uniq @ leaves)"
  shows "i < length leaves \<Longrightarrow> slots' ! (length slots + i) < length uniq' \<and>
    snd (uniq' ! (slots' ! (length slots + i))) = snd (leaves ! i)"
  using assms
proof (induction leaves slots uniq arbitrary: i rule: assign_slots.induct)
  case (2 a p leaves slots uniq)
  show ?case
  proof (cases "position a uniq")
    case None
    have eq: "assign_slots leaves (slots @ [length uniq]) (uniq @ [(a, p)]) = (slots', uniq')"
      using 2(4) None by simp
    obtain ts vs where ext: "slots' = (slots @ [length uniq]) @ ts" "uniq' = (uniq @ [(a, p)]) @ vs"
      using assign_slots_extend [of leaves "slots @ [length uniq]" "uniq @ [(a, p)]"] eq by auto
    show ?thesis
    proof (cases i)
      case 0
      then show ?thesis by (simp add: ext nth_append)
    next
      case (Suc j)
      then show ?thesis using 2(1) [OF None _ eq, of j] 2(3,5) by simp
    qed
  next
    case (Some k)
    have eq: "assign_slots leaves (slots @ [k]) uniq = (slots', uniq')" using 2(4) Some by simp
    obtain ts vs where ext: "slots' = (slots @ [k]) @ ts" "uniq' = uniq @ vs"
      using assign_slots_extend [of leaves "slots @ [k]" uniq] eq by auto
    have k: "k < length uniq" "fst (uniq ! k) = a" using position_Some [OF Some] by auto
    have "snd (uniq ! k) = p"
    proof -
      have "uniq ! k \<in> set (uniq @ (a, p) # leaves)" "(a, p) \<in> set (uniq @ (a, p) # leaves)" using k by auto
      then show ?thesis using 2(5) k(2) unfolding consistent_def by (metis fst_conv snd_conv)
    qed
    moreover have "consistent (uniq @ leaves)" by (rule consistent_subset [OF 2(5)]) auto
    ultimately show ?thesis
      using 2(2) [OF Some _ eq, of "i - 1"] 2(3) k by (cases i) (auto simp: ext nth_append)
  qed
qed simp

lemma bitset_rows_eq:
  assumes "\<And>i. valid_schedule (RowCount table) (leafScheds i)"
    and "consistent (CollectLeafsInVisitOrder e)"
  shows "bitset_rows fm leafScheds table e = filter (EvaluateExpression fm e table) [0..<RowCount table]"
proof -
  let ?n = "RowCount table" and ?leaves = "CollectLeafsInVisitOrder e"
  obtain slots uniq where su: "assign_slots ?leaves [] [] = (slots, uniq)" by force
  let ?bs = "map (\<lambda>(i, (a, p)). MaterialiseLeafBitset fm (leafScheds i) p table ?n) (enumerate 0 uniq)"
  have bs: "?bs ! i = MaterialiseLeafBitset fm (leafScheds i) (snd (uniq ! i)) table ?n" if "i < length uniq" for i
    using that by (simp add: nth_enumerate_eq split: prod.split)
  have "shows_rows fm table ?n (snd (?leaves ! i)) (?bs ! (slots ! i))" if "i < length ?leaves" for i
    using assign_slots_correct [OF su _ that] assms(2) bs [of "slots ! i"]
      MaterialiseLeafBitset_shows [OF assms(1) [of "slots ! i"], of fm table "snd (?leaves ! i)"] by simp
  then have "leaves_shown fm table ?n ?bs slots 0 ?leaves" by (simp add: leaves_shown_def)
  from EvaluateExpressionBitset_correct [OF this]
  have ev: "bitset_inv ?n (fst (EvaluateExpressionBitset e ?bs slots ?n 0))"
    "\<And>r. r < ?n \<Longrightarrow> Test (fst (EvaluateExpressionBitset e ?bs slots ?n 0)) r \<longleftrightarrow> EvaluateExpression fm e table r"
    by (auto simp: evaluates_to_def)
  have "filter (Test (fst (EvaluateExpressionBitset e ?bs slots ?n 0))) [0..<?n] =
      filter (EvaluateExpression fm e table) [0..<?n]"
    by (rule filter_cong) (use ev(2) in auto)
  then show ?thesis
    by (simp add: bitset_rows_def su CollectInto_rows [OF ev(1)] Let_def)
qed

lemma FilterAcceptedRows_eq:
  assumes "\<And>i. valid_schedule (RowCount table) (leafScheds i)" "valid_schedule (RowCount table) visitSched"
    and "consistent (CollectLeafsInVisitOrder e)"
  shows "FilterAcceptedRows fm parallelism leafScheds visitSched table e =
    filter (EvaluateExpression fm e table) [0..<RowCount table]"
proof (cases "IsMatchAllCompiled e")
  case True
  then have "filter (EvaluateExpression fm e table) [0..<RowCount table] = [0..<RowCount table]"
    by (cases e) (simp_all add: IsMatchAllCompiled_def)
  with True show ?thesis by (simp add: FilterAcceptedRows_def Let_def)
next
  case False
  then show ?thesis
    using bitset_rows_eq [OF assms(1,3)] visit_rows_eq [OF assms(2)]
    by (simp add: FilterAcceptedRows_def Let_def)
qed

subsection \<open>The dedup by address\<close>

definition shape_of ::
    "(TreeShape \<times> nat list \<Rightarrow> TreeShape \<times> nat list) \<Rightarrow> (nat \<times> RowPredicate) list \<Rightarrow> bool" where
  "shape_of f leaves \<longleftrightarrow> (\<forall>shape seen.
     leafCount (fst (f (shape, seen))) = leafCount shape + length leaves \<and>
     set (snd (f (shape, seen))) = set seen \<union> fst ` set leaves \<and>
     (distinct (map fst leaves) \<and> set seen \<inter> fst ` set leaves = {} \<longrightarrow>
        uniqueLeafCount (fst (f (shape, seen))) = uniqueLeafCount shape + length leaves))"

lemma shape_ofD:
  assumes "shape_of f leaves"
  shows "leafCount (fst (f st)) = leafCount (fst st) + length leaves"
    and "set (snd (f st)) = set (snd st) \<union> fst ` set leaves"
    and "distinct (map fst leaves) \<Longrightarrow> set (snd st) \<inter> fst ` set leaves = {} \<Longrightarrow>
        uniqueLeafCount (fst (f st)) = uniqueLeafCount (fst st) + length leaves"
  using assms unfolding shape_of_def by (cases st; force)+

lemma shape_of_compose:
  assumes "shape_of f xs" "shape_of g ys"
  shows "shape_of (g \<circ> f) (xs @ ys)"
  unfolding shape_of_def
proof (intro allI conjI impI; (elim conjE)?)
  fix shape seen
  let ?m = "f (shape, seen)"
  note f = shape_ofD [OF assms(1), of "(shape, seen)"] and g = shape_ofD [OF assms(2), of ?m]
  show "leafCount (fst ((g \<circ> f) (shape, seen))) = leafCount shape + length (xs @ ys)"
    using f(1) g(1) by simp
  show "set (snd ((g \<circ> f) (shape, seen))) = set seen \<union> fst ` set (xs @ ys)"
    using f(2) g(2) by (simp add: image_Un Un_assoc)
  assume "distinct (map fst (xs @ ys))" "set seen \<inter> fst ` set (xs @ ys) = {}"
  then show "uniqueLeafCount (fst ((g \<circ> f) (shape, seen))) = uniqueLeafCount shape + length (xs @ ys)"
    using f(2,3) g(3) by (simp add: image_Un Int_Un_distrib Int_Un_distrib2)
qed

lemma shape_of_fold:
  "(\<And>c. c \<in> set cs \<Longrightarrow> shape_of (F c) (L c)) \<Longrightarrow> shape_of (fold F cs) (concat (map L cs))"
proof (induction cs)
  case (Cons c cs)
  then show ?case using shape_of_compose [of "F c" "L c" "fold F cs"] by (simp add: o_def)
qed (simp add: shape_of_def)

lemma CollectShape_shape_of: "shape_of (CollectShape e) (CollectLeafsInVisitOrder e)"
proof (induction e)
  case (CLeaf a p c r)
  then show ?case by (auto simp: shape_of_def Let_def)
next
  case (CAnd cs c r)
  have "CollectShape (CAnd cs c r) = fold CollectShape cs" by (rule ext) simp
  then show ?case using shape_of_fold [of cs CollectShape CollectLeafsInVisitOrder] CAnd by simp
next
  case (COr cs c r)
  have "shape_of (\<lambda>(shape, seen). (shape\<lparr>hasOr := True\<rparr>, seen)) []" by (simp add: shape_of_def)
  from shape_of_compose [OF this shape_of_fold [of cs CollectShape CollectLeafsInVisitOrder]] COr
  show ?case by (simp add: shape_of_def)
next
  case (CNot child c r)
  then show ?case by (cases child) (auto simp: shape_of_def)
qed

end
