(* ===== verification/Predicate_Correct.thy ===== *)
theory Predicate_Correct
  imports Filter_Correct
begin

text \<open>
  The row predicates of \<open>log_filter.cpp\<close> against what their comments promise: the multi-select
  predicate, on a dictionary that may have grown since, and the range predicates.
\<close>

section \<open>The multi-select predicate\<close>

definition resolved :: "EnumDictionary \<Rightarrow> string \<Rightarrow> bool" where
  "resolved d v \<longleftrightarrow> mIndex d v \<noteq> None"

definition armed_with :: "EnumDictionary \<Rightarrow> string list \<Rightarrow> EnumRowPredicate \<times> nat \<Rightarrow> bool" where
  "armed_with d vs st \<longleftrightarrow>
     length (mSelectedIds (fst st)) = length (mValues d) \<and>
     (\<forall>i<length (mValues d). mSelectedIds (fst st) ! i \<longleftrightarrow> mValues d ! i \<in> set vs) \<and>
     mSelectedStrings (fst st) = filter (\<lambda>v. \<not> resolved d v) vs \<and>
     (mFastPathArmed (fst st) \<longleftrightarrow> (\<exists>v\<in>set vs. resolved d v)) \<and>
     snd st = length (filter (resolved d) vs)"

lemma arm_value_step:
  assumes "dict_inv d" "armed_with d vs st"
  shows "armed_with d (vs @ [v]) (arm_value d v st)"
proof (cases "mIndex d v")
  case None
  then have "dict_Find d v = INVALID_ENUM_VALUE_ID" using dict_Find_found [OF assms(1)] by blast
  moreover have "mValues d ! i \<noteq> v" if "i < length (mValues d)" for i
  proof
    assume "mValues d ! i = v"
    moreover have "unat (word_of_nat i :: EnumValueId) = i"
      using that assms(1) by (simp add: dict_inv_def unat_of_nat)
    ultimately have "mIndex d v = Some (word_of_nat i)" using assms(1) that by (simp add: dict_inv_def)
    then show False using None by simp
  qed
  ultimately show ?thesis
    using assms(2) None by (auto simp: armed_with_def arm_value_def Let_def resolved_def split: prod.splits)
next
  case (Some i)
  then have i: "unat i < length (mValues d)" "mValues d ! unat i = v" using assms(1) by (auto simp: dict_inv_def)
  have find: "dict_Find d v = i" "dict_Find d v \<noteq> INVALID_ENUM_VALUE_ID"
    using Some dict_Find_found [OF assms(1), of v] by (auto simp: dict_Find_def)
  have uniq: "j < length (mValues d) \<Longrightarrow> mValues d ! j = v \<Longrightarrow> j = unat i" for j
  proof -
    assume j: "j < length (mValues d)" "mValues d ! j = v"
    then have "unat (word_of_nat j :: EnumValueId) = j" using assms(1) by (simp add: dict_inv_def unat_of_nat)
    then have "mIndex d v = Some (word_of_nat j)" using assms(1) j by (simp add: dict_inv_def)
    with Some \<open>unat (word_of_nat j :: EnumValueId) = j\<close> show "j = unat i" by auto
  qed
  obtain p n where st: "st = (p, n)" by (cases st)
  have len: "length (mSelectedIds p) = length (mValues d)" using assms(2) by (simp add: armed_with_def st)
  then have "arm_value d v st = (p\<lparr>mSelectedIds := (mSelectedIds p)[unat i := True], mFastPathArmed := True\<rparr>, n + 1)"
    using i(1) find by (simp add: arm_value_def st Let_def)
  moreover have "(mSelectedIds p)[unat i := True] ! j \<longleftrightarrow> mValues d ! j \<in> set (vs @ [v])"
    if "j < length (mValues d)" for j
  proof (cases "j = unat i")
    case False
    then have "mValues d ! j \<noteq> v" using uniq [OF that] by blast
    then show ?thesis using that False assms(2) by (simp add: armed_with_def st)
  qed (use len i in simp)
  ultimately show ?thesis
    using assms(2) Some by (simp add: armed_with_def resolved_def st)
qed

lemma arm_values:
  assumes "dict_inv d" "armed_with d us st"
  shows "armed_with d (us @ vs) (fold (arm_value d) vs st)"
  using assms(2)
proof (induction vs arbitrary: us st)
  case (Cons v vs)
  from Cons.IH [OF arm_value_step [OF assms(1) Cons.prems, of v]] show ?case by simp
qed simp

lemma make_EnumRowPredicate_state:
  fixes c :: nat
  assumes "dict_inv d" "vals \<noteq> []"
  defines "p \<equiv> make_EnumRowPredicate c vals (Some d)"
  shows "ep_column p = c" "\<not> mEmptySelection p" "length (mSelectedIds p) = length (mValues d)"
    and "\<And>i. i < length (mValues d) \<Longrightarrow> mSelectedIds p ! i \<longleftrightarrow> mValues d ! i \<in> set vals"
    and "set (mSelectedStrings p) = {v \<in> set vals. \<not> resolved d v}"
    and "mFastPathArmed p \<longleftrightarrow> (\<exists>v\<in>set vals. resolved d v)"
    and "mAllResolved p \<longleftrightarrow> (\<forall>v\<in>set vals. resolved d v)"
proof -
  let ?p0 = "(new_EnumRowPredicate c)\<lparr>mSelectedIds := replicate (unat (dict_Size d)) False\<rparr>"
  obtain q n where q: "fold (arm_value d) (remdups vals) (?p0, 0) = (q, n)" by force
  have "armed_with d [] (?p0, 0)"
    using unat_new_id [OF assms(1)] by (simp add: armed_with_def new_EnumRowPredicate_def dict_Size_def)
  from arm_values [OF assms(1) this, of "remdups vals"]
  have armed: "armed_with d (remdups vals) (q, n)" by (simp add: q)
  have frame: "ep_column (fst (fold (arm_value d) vs st)) = ep_column (fst st) \<and>
      mEmptySelection (fst (fold (arm_value d) vs st)) = mEmptySelection (fst st)" for vs st
    by (induction vs arbitrary: st) (auto simp: arm_value_def Let_def split: prod.splits)
  have p: "p = q\<lparr>mAllResolved := (n = length (remdups vals))\<rparr>"
    using assms(2) q by (simp add: p_def make_EnumRowPredicate_def Let_def)
  show "ep_column p = c" "\<not> mEmptySelection p"
    using frame [of "remdups vals" "(?p0, 0)"] unfolding q by (simp_all add: p new_EnumRowPredicate_def)
  show "length (mSelectedIds p) = length (mValues d)"
    "\<And>i. i < length (mValues d) \<Longrightarrow> mSelectedIds p ! i \<longleftrightarrow> mValues d ! i \<in> set vals"
    "set (mSelectedStrings p) = {v \<in> set vals. \<not> resolved d v}"
    "mFastPathArmed p \<longleftrightarrow> (\<exists>v\<in>set vals. resolved d v)"
    using armed by (auto simp: armed_with_def p)
  have "n = length (remdups vals) \<longleftrightarrow> (\<forall>v\<in>set (remdups vals). resolved d v)"
    using armed by (simp add: armed_with_def) (metis filter_True length_filter_less less_irrefl set_remdups)
  then show "mAllResolved p \<longleftrightarrow> (\<forall>v\<in>set vals. resolved d v)" by (simp add: p)
qed

text \<open>
  The predicate was built on \<open>d\<close>; by now the dictionary holds the values \<open>ks\<close> as well.  A slot
  with a dictionary id is decided by its value, also when the id is newer than the predicate.
\<close>

lemma match_enum_dict_ref:
  assumes "dict_inv d" "vals \<noteq> []"
    and "d' = fold (\<lambda>s d. snd (dict_Insert s d)) ks d"
    and "GetEnumValueId table row c = Some vid" "unat vid < length (mValues d')"
    and "GetValue table row c = VView None (dict_Resolve d' vid)"
  shows "match_enum (make_EnumRowPredicate c vals (Some d)) table row \<longleftrightarrow> dict_Resolve d' vid \<in> set vals"
proof -
  let ?p = "make_EnumRowPredicate c vals (Some d)" and ?v = "dict_Resolve d' vid"
  note p = make_EnumRowPredicate_state [OF assms(1,2), where c = c]
  note room = room_for_always [of "\<lambda>_ _. True", OF TrueI, of "\<lambda>s d. snd (dict_Insert s d)" ks d]
  have inv': "dict_inv d'" unfolding assms(3) by (rule dict.inv_inserts [OF assms(1) room])
  have res': "dict_lookup d' vid = Some ?v" using assms(5) by (simp add: dict_lookup_def)
  have strings: "match_selected_string ?p table row \<longleftrightarrow> ?v \<in> set vals \<and> \<not> resolved d ?v"
    using p(5) assms(6) by (auto simp: match_selected_string_def p(1))
  show ?thesis
  proof (cases "unat vid < length (mValues d)")
    case True
    then have old: "dict_lookup d vid = Some (mValues d ! unat vid)" by (simp add: dict_lookup_def dict_Resolve_def)
    then have "dict_lookup d' vid = Some (mValues d ! unat vid)"
      unfolding assms(3) by (rule dict.resolve_inserts [OF assms(1) room])
    then have v: "?v = mValues d ! unat vid" using res' by simp
    have "resolved d ?v" using old dict.lookup_resolve [OF assms(1)] by (auto simp: resolved_def v)
    then show ?thesis
      using p(4) [OF True] p(6) strings True
      by (auto simp: match_enum_def p(1-3) assms(4) v)
  next
    case False
    then have "dict_lookup d vid = None" by (simp add: dict_lookup_def)
    then have "mIndex d ?v = None"
      using dict.new_id_unknown_string [OF assms(1) room] res' unfolding assms(3) by blast
    then have "\<not> resolved d ?v" by (simp add: resolved_def)
    then show ?thesis
      using p(6,7) strings False by (auto simp: match_enum_def p(1-3) assms(4))
  qed
qed

text \<open>A slot without an id is decided by its text, if the dictionary did not hold that text.\<close>

lemma match_enum_text:
  assumes "dict_inv d" "vals \<noteq> []"
    and "GetEnumValueId table row c = None" "AsStringView (GetValue table row c) = Some s" "\<not> resolved d s"
  shows "match_enum (make_EnumRowPredicate c vals (Some d)) table row \<longleftrightarrow> s \<in> set vals"
proof -
  note p = make_EnumRowPredicate_state [OF assms(1,2), where c = c]
  have "match_selected_string (make_EnumRowPredicate c vals (Some d)) table row \<longleftrightarrow> s \<in> set vals \<and> \<not> resolved d s"
    using p(5) assms(4)
    by (auto simp: match_selected_string_def p(1) AsStringView_def split: LogValue.splits)
  then show ?thesis using assms(5) by (auto simp: match_enum_def p(1,2) assms(3))
qed

lemma match_enum_no_dictionary:
  assumes "vals \<noteq> []"
  shows "match_enum (make_EnumRowPredicate c vals None) table row \<longleftrightarrow>
    (case AsStringView (GetValue table row c) of Some s \<Rightarrow> s \<in> set vals | None \<Rightarrow> False)"
  using assms
  by (auto simp: match_enum_def make_EnumRowPredicate_def new_EnumRowPredicate_def match_selected_string_def
      AsStringView_def Let_def split: LogValue.splits)

section \<open>The range predicates\<close>

lemma sint_small: "v \<le> 2 ^ 63 - 1 \<Longrightarrow> sint (v :: 64 word) = uint v"
proof -
  assume "v \<le> 2 ^ 63 - 1"
  then have "uint v < 2 ^ 63" by (simp add: word_le_def)
  moreover have "0 \<le> uint v" by simp
  ultimately have "signed_take_bit 63 (uint v) = uint v" by (intro signed_take_bit_int_eq_self) linarith+
  then show ?thesis by (simp add: sint_uint)
qed

lemma match_time_epoch:
  assumes "begin < 2 ^ 63" "end < 2 ^ 63" "0 \<le> end \<or> GetValue table row c \<noteq> VUint64 0"
  shows "match_time c begin end table row \<longleftrightarrow>
    (case AsEpochMicroseconds (GetValue table row c) of Some t \<Rightarrow> begin \<le> t \<and> t \<le> end | None \<Rightarrow> False)"
proof (cases "GetValue table row c")
  case (VUint64 v)
  have bound: "b < 2 ^ 63 \<Longrightarrow> uint (if b < 0 then 0 else word_of_int b :: 64 word) = max 0 b" for b
    by (simp add: uint_word_of_int max_def)
  show ?thesis
  proof (cases "v > 2 ^ 63 - 1")
    case False
    then have le: "v \<le> 2 ^ 63 - 1" "uint v \<le> 2 ^ 63 - 1" by (auto simp: word_le_def not_less)
    have "v \<noteq> 0 \<or> 0 \<le> end" using assms(3) VUint64 by auto
    then have "0 < uint v \<or> 0 \<le> end" by (auto simp: uint_0_iff less_le)
    moreover have "0 \<le> uint v" by simp
    ultimately show ?thesis
      using False le(2) bound [OF assms(1)] bound [OF assms(2)]
      by (auto simp: match_time_def VUint64 AsEpochMicroseconds_def sint_small [OF le(1)] le(1) word_le_def [of _ v]
          word_le_def [of v "if end < 0 then 0 else word_of_int end"] Let_def simp del: not_less)
  next
    case True
    then have "\<not> v \<le> 2 ^ 63 - 1" by (simp only: not_le)
    with True show ?thesis by (simp add: match_time_def VUint64 AsEpochMicroseconds_def)
  qed
qed (auto simp: match_time_def AsEpochMicroseconds_def)

text \<open>The exception: a range before the epoch takes in an unsigned zero.\<close>

lemma match_time_unsigned_zero:
  assumes "GetValue table row c = VUint64 0" "begin \<le> end" "end < 0"
  shows "match_time c begin end table row"
  using assms by (simp add: match_time_def)

lemma match_numeric_bounds:
  "MatchesRow fm (make_NumericRange c lo hi) table row \<longleftrightarrow>
     (\<exists>x. numeric_slot (GetValue table row c) = Some x \<and> \<not> isnan x \<and>
        (\<forall>l. lo = Some l \<and> \<not> isnan l \<longrightarrow> d_less l x \<or> d_eq l x) \<and>
        (\<forall>h. hi = Some h \<and> \<not> isnan h \<longrightarrow> d_less x h \<or> d_eq x h))"
proof -
  have nan: "numeric_slot v = Some x \<Longrightarrow> \<not> isnan x" for v x
    by (auto simp: numeric_slot_def double_of_int_def make_double_def Let_def isnan_def
        split: LogValue.splits if_splits double.splits)
  have tri: "\<not> isnan x \<Longrightarrow> \<not> isnan y \<Longrightarrow> \<not> d_less x y \<longleftrightarrow> d_less y x \<or> d_eq y x" for x y
    by (auto simp: d_less_def d_eq_def)
  show ?thesis
    using nan [of "GetValue table row c"] tri
    by (auto simp: MatchesRow_def make_NumericRange_def match_numeric_def drop_nan_def split: option.splits)
qed

end
