(* ===== verification/Leaf_Compile.thy ===== *)
theory Leaf_Compile
  imports Predicate_Correct Filter_Expression
begin

text \<open>
  \<open>app/src/leaf_rule_compile.cpp\<close>: from a filter expression to a compiled one.  A sub-tree
  without a constraint is absent (\<open>None\<close>) and dropped by its parent.  \<open>std::ranges::sort\<close> is not
  stable, so the order of equally expensive children is left open: the sort is a parameter
  of which only \<open>is_cost_sort\<close> is known.  \<open>MakeStringMatcher\<close> wraps Qt's regular expressions
  and is a parameter too.  A leaf's predicate gets the next unused address.
\<close>

record compile_env =
  env_externals :: externals
  string_matcher :: "string \<Rightarrow> Match \<Rightarrow> string \<Rightarrow> bool"
  cost_sort :: "CompiledFilterExpression list \<Rightarrow> CompiledFilterExpression list"

definition is_cost_sort :: "(CompiledFilterExpression list \<Rightarrow> CompiledFilterExpression list) \<Rightarrow> bool" where
  "is_cost_sort f \<longleftrightarrow> (\<forall>xs. mset (f xs) = mset xs \<and> sorted (map EstimatedCost (f xs)))"

section \<open>Leaves\<close>

fun resolve_from :: "nat \<Rightarrow> string list \<Rightarrow> Column list \<Rightarrow> int" where
  "resolve_from i wanted [] = -1"
| "resolve_from i wanted (column # columns) =
     (if list_all (\<lambda>k. k \<in> set (keys column)) wanted then int i else resolve_from (i + 1) wanted columns)"

definition ResolveLeafColumnByKeys :: "string list \<Rightarrow> Column list \<Rightarrow> int" where
  "ResolveLeafColumnByKeys wanted columns = (if wanted = [] then -1 else resolve_from 0 wanted columns)"

definition boolean_choices :: "string list \<Rightarrow> bool \<times> bool" where
  "boolean_choices values =
     fold (\<lambda>v (includeTrue, includeFalse).
             let lower = map tolower v
             in if lower = ''true'' then (True, includeFalse)
                else if lower = ''false'' then (includeTrue, True)
                else (includeTrue, includeFalse)) values (False, False)"

definition level_selected :: "string list \<Rightarrow> Column \<Rightarrow> LogLevel \<Rightarrow> bool" where
  "level_selected names column l \<longleftrightarrow> list_ex (\<lambda>n. ResolveLevel n (levelMapping column) = Some l) names"

text \<open>The dictionary values whose rank is selected, in the order of their ids.\<close>

definition expand_levels :: "string list \<Rightarrow> Column \<Rightarrow> LogLevel list \<Rightarrow> EnumDictionary \<Rightarrow> string list" where
  "expand_levels names column ranks d =
     map (\<lambda>v. dict_Resolve d (word_of_nat v)) (filter (\<lambda>v. level_selected names column (ranks ! v)) [0..<length ranks])"

definition compile_enumeration :: "externals \<Rightarrow> LeafRule \<Rightarrow> nat \<Rightarrow> LogTable option \<Rightarrow> Column list \<Rightarrow> RowPredicate option" where
  "compile_enumeration ex rule column table columns =
     (case table of
        None \<Rightarrow> None
      | Some t \<Rightarrow>
          if filterValues rule = [] then None
          else let dictionary = snd (ResolveEnumColumn ex t column) in
          if column < length columns \<and> ctype (columns ! column) = CtLevel then
            (case (LevelRankCache ex t column, dictionary) of
               (Some ranks, Some d) \<Rightarrow>
                 let expanded = expand_levels (filterValues rule) (columns ! column) ranks d
                 in if expanded = [] then None else Some (PEnum (make_EnumRowPredicate column expanded dictionary))
             | _ \<Rightarrow> None)
          else Some (PEnum (make_EnumRowPredicate column (filterValues rule) dictionary)))"

definition CompileLeaf ::
    "compile_env \<Rightarrow> LeafRule \<Rightarrow> int \<Rightarrow> Column list \<Rightarrow> LogTable option \<Rightarrow> RowPredicate option" where
  "CompileLeaf env rule resolvedColumn columns table =
     (if resolvedColumn < 0 then None
      else let column = nat resolvedColumn in
      case leafType rule of
        TTime \<Rightarrow>
          (if filterBegin rule = None \<and> filterEnd rule = None then None
           else Some (PTime column (case filterBegin rule of Some b \<Rightarrow> b | None \<Rightarrow> - (2 ^ 63))
                                   (case filterEnd rule of Some e \<Rightarrow> e | None \<Rightarrow> 2 ^ 63 - 1)))
      | TNumber \<Rightarrow>
          (if filterMinValue rule = None \<and> filterMaxValue rule = None then None
           else Some (make_NumericRange column (filterMinValue rule) (filterMaxValue rule)))
      | TBoolean \<Rightarrow>
          (if filterValues rule = [] then None
           else let (includeTrue, includeFalse) = boolean_choices (filterValues rule)
                in if \<not> includeTrue \<and> \<not> includeFalse then None
                   else Some (PBool column includeTrue includeFalse))
      | TEnumeration \<Rightarrow> compile_enumeration (env_externals env) rule column table columns
      | TString \<Rightarrow>
          (case (filterString rule, matchType rule) of
             (Some needle, Some m) \<Rightarrow>
               if needle = [] \<and> m \<noteq> Exactly then None
               else Some (PCallback column (Some (string_matcher env needle m)))
           | _ \<Rightarrow> None))"

section \<open>Trees\<close>

text \<open>The state of the walk: \<open>referencedColumns\<close> and the next address.\<close>

type_synonym walk = "nat list \<times> nat"

definition and_node :: "compile_env \<Rightarrow> CompiledFilterExpression list \<Rightarrow> CompiledFilterExpression" where
  "and_node env children =
     (let sorted = cost_sort env children
      in CAnd sorted (foldl (\<lambda>cost c. cost + EstimatedCost c) 0 sorted) [])"

definition or_node :: "compile_env \<Rightarrow> CompiledFilterExpression list \<Rightarrow> CompiledFilterExpression" where
  "or_node env children =
     (let sorted = cost_sort env children
      in COr sorted (foldl (\<lambda>cost c. min cost (EstimatedCost c)) (2 ^ 31 - 1) sorted) [])"

definition compile_leaf_node ::
    "compile_env \<Rightarrow> Column list \<Rightarrow> LogTable option \<Rightarrow> LeafRule \<Rightarrow> walk \<Rightarrow> CompiledFilterExpression option \<times> walk" where
  "compile_leaf_node env columns table rule st =
     (let resolved = ResolveLeafColumnByKeys (columnKeys rule) columns
      in case CompileLeaf env rule resolved columns table of
           None \<Rightarrow> (None, st)
         | Some p \<Rightarrow> (Some (make_leaf (snd st) p), (fst st @ [nat resolved], snd st + 1)))"

fun CompileNode ::
    "compile_env \<Rightarrow> Column list \<Rightarrow> LogTable option \<Rightarrow> FilterExpression \<Rightarrow> walk \<Rightarrow>
     CompiledFilterExpression option \<times> walk"
  and CompileChildren ::
    "compile_env \<Rightarrow> Column list \<Rightarrow> LogTable option \<Rightarrow> FilterExpression list \<Rightarrow> walk \<Rightarrow>
     CompiledFilterExpression list \<times> walk"
where
  "CompileNode env columns table (FLeaf rule) st = compile_leaf_node env columns table rule st"
| "CompileNode env columns table (FAnd children) st =
     (case CompileChildren env columns table children st of
        (compiled, st') \<Rightarrow>
          if compiled = [] \<and> children \<noteq> [] then (None, st') else (Some (and_node env compiled), st'))"
| "CompileNode env columns table (FOr children) st =
     (case CompileChildren env columns table children st of
        (compiled, st') \<Rightarrow> if compiled = [] then (None, st') else (Some (or_node env compiled), st'))"
| "CompileNode env columns table (FNot None) st = (Some (CAnd [] 0 []), st)"
| "CompileNode env columns table (FNot (Some child)) st =
     (case CompileNode env columns table child st of
        (None, st') \<Rightarrow> (None, st')
      | (Some c, st') \<Rightarrow> (Some (make_not c), st'))"
| "CompileChildren env columns table [] st = ([], st)"
| "CompileChildren env columns table (child # children) st =
     (case CompileNode env columns table child st of
        (c, st') \<Rightarrow>
          (case CompileChildren env columns table children st' of
             (cs, st'') \<Rightarrow> (case c of None \<Rightarrow> cs | Some c \<Rightarrow> c # cs, st'')))"

fun set_referenced :: "nat list \<Rightarrow> CompiledFilterExpression \<Rightarrow> CompiledFilterExpression" where
  "set_referenced r (CLeaf a p c _) = CLeaf a p c r"
| "set_referenced r (CAnd cs c _) = CAnd cs c r"
| "set_referenced r (COr cs c _) = COr cs c r"
| "set_referenced r (CNot ch c _) = CNot ch c r"

definition CompileExpression ::
    "compile_env \<Rightarrow> Column list \<Rightarrow> LogTable option \<Rightarrow> FilterExpression \<Rightarrow> CompiledFilterExpression" where
  "CompileExpression env columns table e =
     (case CompileNode env columns table e ([], 0) of
        (compiled, (refs, _)) \<Rightarrow>
          set_referenced (remdups_adj (sort refs)) (case compiled of Some c \<Rightarrow> c | None \<Rightarrow> CAnd [] 0 []))"

section \<open>Meaning\<close>

text \<open>
  The meaning of an expression on a row when \<open>pick\<close> turns leaves into predicates: \<open>None\<close> when
  no clause of it constrains the row.
\<close>

definition present :: "bool option list \<Rightarrow> bool list" where
  "present vs = concat (map (\<lambda>v. case v of None \<Rightarrow> [] | Some b \<Rightarrow> [b]) vs)"

fun meaning :: "(LeafRule \<Rightarrow> bool option) \<Rightarrow> FilterExpression \<Rightarrow> bool option" where
  "meaning leaf (FLeaf rule) = leaf rule"
| "meaning leaf (FAnd children) =
     (let vs = present (map (meaning leaf) children)
      in if vs = [] \<and> children \<noteq> [] then None else Some (list_all id vs))"
| "meaning leaf (FOr children) =
     (let vs = present (map (meaning leaf) children) in if vs = [] then None else Some (list_ex id vs))"
| "meaning leaf (FNot None) = Some True"
| "meaning leaf (FNot (Some child)) = map_option Not (meaning leaf child)"

definition accepts :: "bool option \<Rightarrow> bool" where
  "accepts v = (case v of Some b \<Rightarrow> b | None \<Rightarrow> True)"

definition leaf_verdict ::
    "compile_env \<Rightarrow> Column list \<Rightarrow> LogTable option \<Rightarrow> LogTable \<Rightarrow> nat \<Rightarrow> LeafRule \<Rightarrow> bool option" where
  "leaf_verdict env columns table t row rule =
     map_option (\<lambda>p. MatchesRow (env_externals env) p t row)
       (CompileLeaf env rule (ResolveLeafColumnByKeys (columnKeys rule) columns) columns table)"

lemma cost_sort_set: "is_cost_sort f \<Longrightarrow> set (f xs) = set xs"
  unfolding is_cost_sort_def by (metis set_mset_mset)

lemma Evaluate_and_node:
  "is_cost_sort (cost_sort env) \<Longrightarrow>
   EvaluateExpression ex (and_node env cs) t row \<longleftrightarrow> (\<forall>c\<in>set cs. EvaluateExpression ex c t row)"
  by (simp add: and_node_def Let_def list_all_iff cost_sort_set)

lemma Evaluate_or_node:
  "is_cost_sort (cost_sort env) \<Longrightarrow>
   EvaluateExpression ex (or_node env cs) t row \<longleftrightarrow> (\<exists>c\<in>set cs. EvaluateExpression ex c t row)"
  by (simp add: or_node_def Let_def list_ex_iff cost_sort_set)

lemma Evaluate_set_referenced: "EvaluateExpression ex (set_referenced r c) t row = EvaluateExpression ex c t row"
proof (cases c)
  case (CNot child cost refs)
  then show ?thesis by (cases child) simp_all
qed simp_all

lemma present_Cons: "present (v # vs) = (case v of None \<Rightarrow> [] | Some b \<Rightarrow> [b]) @ present vs"
  by (simp add: present_def)

lemma CompileNode_meaning:
  "is_cost_sort (cost_sort env) \<Longrightarrow>
   map_option (\<lambda>c. EvaluateExpression (env_externals env) c t row) (fst (CompileNode env columns table e st)) =
     meaning (leaf_verdict env columns table t row) e"
  and CompileChildren_meaning:
  "is_cost_sort (cost_sort env) \<Longrightarrow>
   map (\<lambda>c. EvaluateExpression (env_externals env) c t row) (fst (CompileChildren env columns table es st)) =
     present (map (meaning (leaf_verdict env columns table t row)) es)"
proof (induction env columns table e st and env columns table es st rule: CompileNode_CompileChildren.induct)
  case (1 env columns table rule st)
  then show ?case
    by (simp add: compile_leaf_node_def leaf_verdict_def make_leaf_def Let_def split: option.split)
next
  case (2 env columns table children st)
  obtain cs st' where cs: "CompileChildren env columns table children st = (cs, st')"
    by (cases "CompileChildren env columns table children st")
  let ?vs = "present (map (meaning (leaf_verdict env columns table t row)) children)"
  have vs: "map (\<lambda>c. EvaluateExpression (env_externals env) c t row) cs = ?vs" using 2 by (simp add: cs)
  have "?vs = [] \<longleftrightarrow> cs = []" by (simp flip: vs)
  moreover have "list_all id ?vs \<longleftrightarrow> (\<forall>c\<in>set cs. EvaluateExpression (env_externals env) c t row)"
    by (simp flip: vs add: list_all_iff)
  ultimately show ?case using 2(2) by (simp add: cs Evaluate_and_node Let_def)
next
  case (3 env columns table children st)
  obtain cs st' where cs: "CompileChildren env columns table children st = (cs, st')"
    by (cases "CompileChildren env columns table children st")
  let ?vs = "present (map (meaning (leaf_verdict env columns table t row)) children)"
  have vs: "map (\<lambda>c. EvaluateExpression (env_externals env) c t row) cs = ?vs" using 3 by (simp add: cs)
  have "?vs = [] \<longleftrightarrow> cs = []" by (simp flip: vs)
  moreover have "list_ex id ?vs \<longleftrightarrow> (\<exists>c\<in>set cs. EvaluateExpression (env_externals env) c t row)"
    by (simp flip: vs add: list_ex_iff)
  ultimately show ?case using 3(2) by (simp add: cs Evaluate_or_node Let_def)
next
  case (5 env columns table child st)
  obtain c st' where c: "CompileNode env columns table child st = (c, st')"
    by (cases "CompileNode env columns table child st")
  have "meaning (leaf_verdict env columns table t row) child =
      map_option (\<lambda>c. EvaluateExpression (env_externals env) c t row) c"
    using 5 by (simp add: c)
  then show ?case by (cases c) (simp_all add: c make_not_def)
next
  case (7 env columns table child children st)
  obtain c st' where c: "CompileNode env columns table child st = (c, st')"
    by (cases "CompileNode env columns table child st")
  obtain cs st'' where cs: "CompileChildren env columns table children st' = (cs, st'')"
    by (cases "CompileChildren env columns table children st'")
  have "map (\<lambda>c. EvaluateExpression (env_externals env) c t row) cs =
      present (map (meaning (leaf_verdict env columns table t row)) children)"
    using 7(2) [OF c [symmetric] 7(3)] by (simp add: cs)
  moreover have "meaning (leaf_verdict env columns table t row) child =
      map_option (\<lambda>c. EvaluateExpression (env_externals env) c t row) c"
    using 7(1,3) by (simp add: c)
  ultimately show ?case by (cases c) (simp_all add: c cs present_Cons)
qed (simp_all add: present_def)

lemma CompileExpression_meaning:
  assumes "is_cost_sort (cost_sort env)"
  shows "EvaluateExpression (env_externals env) (CompileExpression env columns table e) t row \<longleftrightarrow>
    accepts (meaning (leaf_verdict env columns table t row) e)"
proof -
  obtain c refs n where c: "CompileNode env columns table e ([], 0) = (c, (refs, n))" by (metis surj_pair)
  have "meaning (leaf_verdict env columns table t row) e =
      map_option (\<lambda>c. EvaluateExpression (env_externals env) c t row) c"
    using CompileNode_meaning [OF assms, of t row columns table e "([], 0)"] by (simp add: c)
  then show ?thesis
    by (cases c) (auto simp: CompileExpression_def c Evaluate_set_referenced accepts_def)
qed

section \<open>Shape of the compiled tree\<close>

text \<open>Children stand cheapest first at every node.\<close>

fun cheap_first :: "CompiledFilterExpression \<Rightarrow> bool" where
  "cheap_first (CLeaf _ _ _ _) = True"
| "cheap_first (CAnd cs _ _) = (sorted (map EstimatedCost cs) \<and> list_all cheap_first cs)"
| "cheap_first (COr cs _ _) = (sorted (map EstimatedCost cs) \<and> list_all cheap_first cs)"
| "cheap_first (CNot None _ _) = True"
| "cheap_first (CNot (Some c) _ _) = cheap_first c"

lemma cost_sort_sorted: "is_cost_sort f \<Longrightarrow> sorted (map EstimatedCost (f xs))"
  by (simp add: is_cost_sort_def)

lemma CompileNode_cheap_first:
  "is_cost_sort (cost_sort env) \<Longrightarrow>
   pred_option cheap_first (fst (CompileNode env columns table e st))"
  and CompileChildren_cheap_first:
  "is_cost_sort (cost_sort env) \<Longrightarrow> list_all cheap_first (fst (CompileChildren env columns table es st))"
proof (induction env columns table e st and env columns table es st rule: CompileNode_CompileChildren.induct)
  case (1 env columns table rule st)
  then show ?case by (simp add: compile_leaf_node_def make_leaf_def Let_def split: option.split)
qed (auto simp: and_node_def or_node_def make_not_def Let_def list_all_iff cost_sort_set cost_sort_sorted
    split: prod.splits option.splits)

lemma cheap_first_set_referenced: "cheap_first (set_referenced r c) = cheap_first c"
  by (cases c rule: cheap_first.cases) simp_all

lemma CompileExpression_cheap_first:
  assumes "is_cost_sort (cost_sort env)"
  shows "cheap_first (CompileExpression env columns table e)"
  using CompileNode_cheap_first [OF assms, of columns table e "([], 0)"]
  by (auto simp: CompileExpression_def cheap_first_set_referenced split: prod.splits option.splits)

text \<open>Every leaf has an address of its own, and the referenced columns are those of the leaves.\<close>

abbreviation leaves_of :: "CompiledFilterExpression \<Rightarrow> (nat \<times> RowPredicate) multiset" where
  "leaves_of c \<equiv> mset (CollectLeafsInVisitOrder c)"

definition walk_ok :: "walk \<Rightarrow> (nat \<times> RowPredicate) multiset \<Rightarrow> walk \<Rightarrow> bool" where
  "walk_ok st ls st' \<longleftrightarrow>
     image_mset fst ls = mset [snd st..<snd st'] \<and> snd st \<le> snd st' \<and>
     mset (fst st') = mset (fst st) + image_mset (\<lambda>l. RowPredicateColumn (snd l)) ls"

lemma walk_ok_refl: "walk_ok st {#} st"
  by (simp add: walk_ok_def)

lemma walk_ok_trans: "walk_ok st ls st' \<Longrightarrow> walk_ok st' ls' st'' \<Longrightarrow> walk_ok st (ls + ls') st''"
  using upt_add_eq_append [of "snd st" "snd st'" "snd st'' - snd st'"]
  by (auto simp: walk_ok_def simp del: mset_upt)

lemma leaves_of_sorted:
  "is_cost_sort f \<Longrightarrow> mset (concat (map CollectLeafsInVisitOrder (f cs))) = mset (concat (map CollectLeafsInVisitOrder cs))"
  unfolding is_cost_sort_def by (simp add: mset_concat) (metis mset_map sum_mset_sum_list)

lemma arm_value_column: "ep_column (fst (fold (arm_value d) vs st)) = ep_column (fst st)"
proof (induction vs arbitrary: st)
  case (Cons v vs)
  have "ep_column (fst (arm_value d v st)) = ep_column (fst st)"
    by (simp add: arm_value_def Let_def split: prod.splits)
  then show ?case by (simp add: Cons.IH)
qed simp

lemma make_EnumRowPredicate_column: "ep_column (make_EnumRowPredicate column vs d) = column"
proof (cases d)
  case (Some d')
  show ?thesis
    using arm_value_column [of d' "remdups vs" "((new_EnumRowPredicate column)\<lparr>mSelectedIds := replicate (unat (dict_Size d')) False\<rparr>, 0)"]
    by (auto simp: Some make_EnumRowPredicate_def new_EnumRowPredicate_def Let_def split: prod.split)
qed (simp add: make_EnumRowPredicate_def new_EnumRowPredicate_def Let_def)

lemma CompileLeaf_column:
  "CompileLeaf env rule col columns table = Some p \<Longrightarrow> RowPredicateColumn p = nat col"
  by (auto simp: CompileLeaf_def compile_enumeration_def RowPredicateColumn_def make_NumericRange_def Let_def
        make_EnumRowPredicate_column split: LeafType.splits option.splits if_splits prod.splits)

lemma CompileNode_walk:
  "is_cost_sort (cost_sort env) \<Longrightarrow>
   walk_ok st (case fst (CompileNode env columns table e st) of None \<Rightarrow> {#} | Some c \<Rightarrow> leaves_of c)
     (snd (CompileNode env columns table e st))"
  and CompileChildren_walk:
  "is_cost_sort (cost_sort env) \<Longrightarrow>
   walk_ok st (mset (concat (map CollectLeafsInVisitOrder (fst (CompileChildren env columns table es st)))))
     (snd (CompileChildren env columns table es st))"
proof (induction env columns table e st and env columns table es st rule: CompileNode_CompileChildren.induct)
  case (1 env columns table rule st)
  then show ?case
    using CompileLeaf_column [of env rule _ columns table]
    by (auto simp: compile_leaf_node_def make_leaf_def Let_def walk_ok_def split: option.split)
next
  case (7 env columns table child children st)
  obtain c st' where c: "CompileNode env columns table child st = (c, st')"
    by (cases "CompileNode env columns table child st")
  obtain cs st'' where cs: "CompileChildren env columns table children st' = (cs, st'')"
    by (cases "CompileChildren env columns table children st'")
  show ?case
    using walk_ok_trans [OF 7(1) [OF 7(3)], unfolded c snd_conv fst_conv, OF 7(2) [OF c [symmetric] 7(3), unfolded cs snd_conv fst_conv]]
    by (cases c) (auto simp: c cs)
qed (auto simp: and_node_def or_node_def make_not_def Let_def leaves_of_sorted walk_ok_refl
    split: prod.splits option.splits intro: walk_ok_trans)

lemma leaves_set_referenced: "CollectLeafsInVisitOrder (set_referenced r c) = CollectLeafsInVisitOrder c"
proof (cases c)
  case (CNot child cost refs)
  then show ?thesis by (cases child) simp_all
qed simp_all

lemma referencedColumns_set_referenced: "referencedColumns (set_referenced r c) = r"
  by (cases c) simp_all

lemma CompileExpression_walk:
  assumes "is_cost_sort (cost_sort env)"
  obtains refs n where "walk_ok ([], 0) (leaves_of (CompileExpression env columns table e)) (refs, n)"
    and "referencedColumns (CompileExpression env columns table e) = remdups_adj (sort refs)"
proof -
  obtain c refs n where c: "CompileNode env columns table e ([], 0) = (c, (refs, n))" by (metis surj_pair)
  have "walk_ok ([], 0) (leaves_of (CompileExpression env columns table e)) (refs, n)"
    using CompileNode_walk [OF assms, of "([], 0)" columns table e]
    by (cases c) (simp_all add: c CompileExpression_def leaves_set_referenced)
  then show ?thesis
    by (rule that) (simp add: c CompileExpression_def referencedColumns_set_referenced split: option.split)
qed

lemma CompileExpression_addresses:
  assumes "is_cost_sort (cost_sort env)"
  shows "distinct (map fst (CollectLeafsInVisitOrder (CompileExpression env columns table e)))"
proof -
  obtain refs n where "walk_ok ([], 0) (leaves_of (CompileExpression env columns table e)) (refs, n)"
    by (rule CompileExpression_walk [OF assms])
  then have "mset (map fst (CollectLeafsInVisitOrder (CompileExpression env columns table e))) = mset [0..<n]"
    by (simp add: walk_ok_def)
  then show ?thesis by (metis distinct_upt mset_eq_imp_distinct_iff)
qed

lemma distinct_consistent: "distinct (map fst leaves) \<Longrightarrow> consistent leaves"
  unfolding consistent_def by (metis eq_key_imp_eq_value prod.collapse)

lemma remdups_adj_sorted_distinct: "sorted xs \<Longrightarrow> distinct (remdups_adj xs)"
  by (induction xs rule: remdups_adj.induct) (auto simp: order_less_le)

lemma CompileExpression_referenced:
  assumes "is_cost_sort (cost_sort env)"
  shows "sorted (referencedColumns (CompileExpression env columns table e))"
    and "distinct (referencedColumns (CompileExpression env columns table e))"
    and "set (referencedColumns (CompileExpression env columns table e)) =
      (RowPredicateColumn \<circ> snd) ` set (CollectLeafsInVisitOrder (CompileExpression env columns table e))"
proof -
  let ?c = "CompileExpression env columns table e"
  obtain refs n where w: "walk_ok ([], 0) (leaves_of ?c) (refs, n)"
    and r: "referencedColumns ?c = remdups_adj (sort refs)"
    by (rule CompileExpression_walk [OF assms])
  show "sorted (referencedColumns ?c)" by (simp add: r sorted_remdups_adj)
  show "distinct (referencedColumns ?c)" by (simp add: r remdups_adj_sorted_distinct)
  have "mset refs = mset (map (\<lambda>l. RowPredicateColumn (snd l)) (CollectLeafsInVisitOrder ?c))"
    using w by (simp add: walk_ok_def)
  then have "set refs = set (map (\<lambda>l. RowPredicateColumn (snd l)) (CollectLeafsInVisitOrder ?c))"
    by (metis set_mset_mset)
  then show "set (referencedColumns ?c) = (RowPredicateColumn \<circ> snd) ` set (CollectLeafsInVisitOrder ?c)"
    by (simp add: r)
qed

text \<open>The whole filter: the accepted rows are those the expression means.\<close>

lemma filter_expression_rows:
  assumes "is_cost_sort (cost_sort env)"
    and "\<And>i. valid_schedule (RowCount t) (leafScheds i)" "valid_schedule (RowCount t) visitSched"
  shows "FilterAcceptedRows (env_externals env) parallelism leafScheds visitSched t
      (CompileExpression env columns table e) =
    filter (\<lambda>row. accepts (meaning (leaf_verdict env columns table t row) e)) [0..<RowCount t]"
proof -
  have "EvaluateExpression (env_externals env) (CompileExpression env columns table e) t =
      (\<lambda>row. accepts (meaning (leaf_verdict env columns table t row) e))"
    by (rule ext) (rule CompileExpression_meaning [OF assms(1)])
  then show ?thesis
    using FilterAcceptedRows_eq [OF assms(2,3) distinct_consistent [OF CompileExpression_addresses [OF assms(1)]]]
    by simp
qed

text \<open>No two leaves share an address, so the deduplication of the bitset path never merges any.\<close>

lemma CompileExpression_unique_leaves:
  assumes "is_cost_sort (cost_sort env)"
  shows "uniqueLeafCount (fst (CollectShape (CompileExpression env columns table e) (empty_shape, []))) =
    leafCount (fst (CollectShape (CompileExpression env columns table e) (empty_shape, [])))"
  using shape_ofD(1,3) [OF CollectShape_shape_of, of _ "(empty_shape, [])"] CompileExpression_addresses [OF assms]
  by (simp add: empty_shape_def)

end
