(* ===== verification/Query_Lexer.thy ===== *)
theory Query_Lexer
  imports Prelude
begin

text \<open>
  The \<open>Lexer\<close> class of \<open>library/src/query_parser.cpp\<close>.  Its state is the position
  \<open>mPos\<close> in the input and \<open>mRest\<close>, the suffix of the input from that position
  (\<open>mInput[mPos + i]\<close> is the \<open>i\<close>-th byte of the suffix); every operation takes the state
  and returns the new one.  A failed \<open>std::expected\<close> is \<open>Inl\<close>.
\<close>

datatype TokenKind =
    TkIdent | TkQuoted | TkRegex | TkNumber | TkTrue | TkFalse | KwAnd | KwOr | KwNot | KwIn
  | TkColon | TkEq | TkTilde | TkPercent | TkGt | TkGtEq | TkLt | TkLtEq
  | LParen | RParen | LBracket | RBracket | TkComma | DotDot | TkEnd

record Token =
  tkind :: TokenKind
  ttext :: string
  toffset :: nat

record QueryParseError =
  erroffset :: nat
  errmessage :: string

record Lexer =
  mPos :: nat
  mRest :: string

definition IsIdentChar :: byte_class where
  "IsIdentChar ch \<longleftrightarrow> isalnum ch \<or> ch = CHR ''_'' \<or> ch = CHR ''.'' \<or> ch = CHR ''-''"

definition IsIdentStart :: byte_class where
  "IsIdentStart ch \<longleftrightarrow> isalpha ch \<or> ch = CHR ''_''"

text \<open>\<open>mPos += n\<close>.\<close>

definition advance_by :: "nat \<Rightarrow> Lexer \<Rightarrow> Lexer" where
  "advance_by n lx = \<lparr>mPos = mPos lx + n, mRest = drop n (mRest lx)\<rparr>"

definition SkipWhitespace :: "Lexer \<Rightarrow> Lexer" where
  "SkipWhitespace lx = advance_by (length (takeWhile isspace (mRest lx))) lx"

subsection \<open>Quoted strings and regex literals\<close>

definition unescape :: "char \<Rightarrow> char" where
  "unescape next =
     (if next = QUOTE then QUOTE
      else if next = BACKSLASH then BACKSLASH
      else if next = CHR ''n'' then NEWLINE
      else if next = CHR ''r'' then RETURN
      else if next = CHR ''t'' then TAB
      else next)"

fun quoted_loop :: "nat \<Rightarrow> string \<Rightarrow> string \<Rightarrow> QueryParseError + (string \<times> Lexer)" where
  "quoted_loop pos body [] = Inl \<lparr>erroffset = pos, errmessage = ''unterminated string literal''\<rparr>"
| "quoted_loop pos body (ch # rest) =
     (if ch = BACKSLASH \<and> rest \<noteq> [] then
        quoted_loop (pos + 2) (body @ [unescape (hd rest)]) (tl rest)
      else if ch = QUOTE then Inr (body, \<lparr>mPos = pos + 1, mRest = rest\<rparr>)
      else quoted_loop (pos + 1) (body @ [ch]) rest)"

definition LexQuoted :: "Lexer \<Rightarrow> QueryParseError + (Token \<times> Lexer)" where
  "LexQuoted lx =
     (case quoted_loop (mPos lx + 1) [] (tl (mRest lx)) of
        Inl err \<Rightarrow> Inl err
      | Inr (body, lx') \<Rightarrow> Inr (\<lparr>tkind = TkQuoted, ttext = body, toffset = mPos lx\<rparr>, lx'))"

fun regex_loop :: "nat \<Rightarrow> string \<Rightarrow> string \<Rightarrow> QueryParseError + (string \<times> Lexer)" where
  "regex_loop pos body [] = Inl \<lparr>erroffset = pos, errmessage = ''unterminated regex literal''\<rparr>"
| "regex_loop pos body (ch # rest) =
     (if ch = BACKSLASH \<and> rest \<noteq> [] then
        regex_loop (pos + 2)
          (body @ (if hd rest = CHR ''/'' then [CHR ''/''] else [BACKSLASH, hd rest])) (tl rest)
      else if ch = CHR ''/'' then Inr (body, \<lparr>mPos = pos + 1, mRest = rest\<rparr>)
      else regex_loop (pos + 1) (body @ [ch]) rest)"

definition NextRegex :: "Lexer \<Rightarrow> QueryParseError + (Token \<times> Lexer)" where
  "NextRegex lx0 =
     (let lx = SkipWhitespace lx0
      in if mRest lx = [] \<or> hd (mRest lx) \<noteq> CHR ''/''
         then Inl \<lparr>erroffset = mPos lx, errmessage = ''expected '' @ [CHR 0x27, CHR ''/'', CHR 0x27] @ '' to open regex literal''\<rparr>
         else case regex_loop (mPos lx + 1) [] (tl (mRest lx)) of
                Inl err \<Rightarrow> Inl err
              | Inr (body, lx') \<Rightarrow> Inr (\<lparr>tkind = TkRegex, ttext = body, toffset = mPos lx\<rparr>, lx'))"

subsection \<open>Timestamps, numbers and identifiers\<close>

text \<open>
  The cursor behind \<open>HH:MM(:SS)?(.frac)?(TZ)?\<close> when the \<open>T\<close> or space stands at
  \<open>timeStart\<close>, one optional part after the other.
\<close>

definition lex_iso_seconds :: "string \<Rightarrow> nat \<Rightarrow> nat" where
  "lex_iso_seconds s cursor =
     (if cursor + 2 < length s \<and> s ! cursor = CHR '':'' \<and> isdigit (s ! (cursor + 1)) \<and>
         isdigit (s ! (cursor + 2)) then cursor + 3 else cursor)"

definition lex_iso_fraction :: "string \<Rightarrow> nat \<Rightarrow> nat" where
  "lex_iso_fraction s cursor =
     (if cursor < length s \<and> (s ! cursor = CHR ''.'' \<or> s ! cursor = CHR '','')
      then skip_while isdigit (cursor + 1) s else cursor)"

definition lex_iso_zone :: "string \<Rightarrow> nat \<Rightarrow> nat" where
  "lex_iso_zone s cursor =
     (if cursor < length s then
        (if s ! cursor = CHR ''Z'' then cursor + 1
         else if s ! cursor = CHR ''+'' \<or> s ! cursor = CHR ''-''
         then skip_while (\<lambda>c. c = CHR '':'' \<or> isdigit c) (cursor + 1) s
         else cursor)
      else cursor)"

definition lex_iso_time :: "string \<Rightarrow> nat \<Rightarrow> nat" where
  "lex_iso_time s timeStart =
     (let cursor = timeStart + 1
      in if cursor + 5 > length s \<or> \<not> isdigit (s ! cursor) \<or> \<not> isdigit (s ! (cursor + 1)) \<or>
            s ! (cursor + 2) \<noteq> CHR '':'' \<or> \<not> isdigit (s ! (cursor + 3)) \<or> \<not> isdigit (s ! (cursor + 4))
         then timeStart
         else lex_iso_zone s (lex_iso_fraction s (lex_iso_seconds s (cursor + 5))))"

definition iso_date_shape :: "string \<Rightarrow> bool" where
  "iso_date_shape s \<longleftrightarrow>
     10 \<le> length s \<and> isdigit (s ! 0) \<and> isdigit (s ! 1) \<and> isdigit (s ! 2) \<and> isdigit (s ! 3) \<and>
     s ! 4 = CHR ''-'' \<and> isdigit (s ! 5) \<and> isdigit (s ! 6) \<and>
     s ! 7 = CHR ''-'' \<and> isdigit (s ! 8) \<and> isdigit (s ! 9)"

definition TryLexIsoTimestamp :: "Lexer \<Rightarrow> (Token \<times> Lexer) option" where
  "TryLexIsoTimestamp lx =
     (let s = mRest lx
      in if \<not> iso_date_shape s then None
         else let cursor = (if 10 < length s \<and> (s ! 10 = CHR ''T'' \<or> s ! 10 = CHR '' '')
                            then lex_iso_time s 10 else 10)
              in if cursor < length s \<and> IsIdentChar (s ! cursor) \<and> s ! cursor \<noteq> CHR ''-'' \<and> s ! cursor \<noteq> CHR ''.''
                 then None
                 else Some (\<lparr>tkind = TkIdent, ttext = take cursor s, toffset = mPos lx\<rparr>, advance_by cursor lx))"

text \<open>
  The cursors of \<open>LexNumber\<close>: behind the sign and the integer digits, behind the decimal
  part (not entered for \<open>..\<close>), and where the digits of an exponent at \<open>c\<close> start.
\<close>

definition number_int_end :: "string \<Rightarrow> nat" where
  "number_int_end s =
     skip_while isdigit (if s ! 0 = CHR ''+'' \<or> s ! 0 = CHR ''-'' then 1 else 0) s"

definition number_frac_end :: "string \<Rightarrow> nat \<Rightarrow> nat" where
  "number_frac_end s c =
     (if c < length s \<and> s ! c = CHR ''.'' \<and> (c + 1 \<ge> length s \<or> s ! (c + 1) \<noteq> CHR ''.'')
      then skip_while isdigit (c + 1) s else c)"

definition number_exp_digits :: "string \<Rightarrow> nat \<Rightarrow> nat" where
  "number_exp_digits s c =
     (if c + 1 < length s \<and> (s ! (c + 1) = CHR ''+'' \<or> s ! (c + 1) = CHR ''-'') then c + 2 else c + 1)"

definition LexNumber :: "Lexer \<Rightarrow> QueryParseError + (Token \<times> Lexer)" where
  "LexNumber lx =
     (let s = mRest lx;
          expStart = number_frac_end s (number_int_end s)
      in if expStart < length s \<and> (s ! expStart = CHR ''e'' \<or> s ! expStart = CHR ''E'') then
           (let digitsStart = number_exp_digits s expStart;
                cursor = skip_while isdigit digitsStart s
            in if cursor = digitsStart then
                 Inl \<lparr>erroffset = mPos lx + expStart,
                      errmessage = ''exponent in numeric literal must include at least one digit''\<rparr>
               else Inr (\<lparr>tkind = TkNumber, ttext = take cursor s, toffset = mPos lx\<rparr>, advance_by cursor lx))
         else Inr (\<lparr>tkind = TkNumber, ttext = take expStart s, toffset = mPos lx\<rparr>, advance_by expStart lx))"

definition keyword_kind :: "string \<Rightarrow> TokenKind" where
  "keyword_kind lower =
     (if lower = ''and'' then KwAnd
      else if lower = ''or'' then KwOr
      else if lower = ''not'' then KwNot
      else if lower = ''in'' then KwIn
      else if lower = ''true'' then TkTrue
      else if lower = ''false'' then TkFalse
      else TkIdent)"

definition LexIdent :: "Lexer \<Rightarrow> Token \<times> Lexer" where
  "LexIdent lx =
     (let text = takeWhile IsIdentChar (mRest lx)
      in (\<lparr>tkind = keyword_kind (map tolower text), ttext = text, toffset = mPos lx\<rparr>,
          advance_by (length text) lx))"

subsection \<open>The token switch\<close>

text \<open>A token of \<open>n\<close> bytes with no text.\<close>

definition punct :: "TokenKind \<Rightarrow> nat \<Rightarrow> Lexer \<Rightarrow> QueryParseError + (Token \<times> Lexer)" where
  "punct k n lx = Inr (\<lparr>tkind = k, ttext = [], toffset = mPos lx\<rparr>, advance_by n lx)"

text \<open>The end of \<open>Next\<close>: literals that start with a digit or a sign, and identifiers.\<close>

definition NextWord :: "Lexer \<Rightarrow> QueryParseError + (Token \<times> Lexer)" where
  "NextWord lx =
     (let s = mRest lx; ch = hd s
      in if isdigit ch \<or> ((ch = CHR ''+'' \<or> ch = CHR ''-'') \<and> class_at isdigit s 1) then
           (case TryLexIsoTimestamp lx of Some tok \<Rightarrow> Inr tok | None \<Rightarrow> LexNumber lx)
         else if IsIdentStart ch then Inr (LexIdent lx)
         else Inl \<lparr>erroffset = mPos lx,
                   errmessage = ''unexpected character '' @ [CHR 0x27, ch, CHR 0x27]\<rparr>)"

definition Next :: "Lexer \<Rightarrow> QueryParseError + (Token \<times> Lexer)" where
  "Next lx0 =
     (let lx = SkipWhitespace lx0; s = mRest lx; follows = (\<lambda>c. 1 < length s \<and> s ! 1 = c)
      in if s = [] then punct TkEnd 0 lx
      else let ch = hd s
      in if ch = QUOTE then LexQuoted lx
         else if ch = CHR ''('' then punct LParen 1 lx
         else if ch = CHR '')'' then punct RParen 1 lx
         else if ch = CHR ''['' then punct LBracket 1 lx
         else if ch = CHR '']'' then punct RBracket 1 lx
         else if ch = CHR '','' then punct TkComma 1 lx
         else if ch = CHR '':'' then punct TkColon 1 lx
         else if ch = CHR ''='' then punct TkEq 1 lx
         else if ch = CHR ''~'' then punct TkTilde 1 lx
         else if ch = CHR ''%'' then punct TkPercent 1 lx
         else if ch = CHR ''>'' then (if follows (CHR ''='') then punct TkGtEq 2 lx else punct TkGt 1 lx)
         else if ch = CHR ''<'' then (if follows (CHR ''='') then punct TkLtEq 2 lx else punct TkLt 1 lx)
         else if ch = CHR ''.'' \<and> follows (CHR ''.'') then punct DotDot 2 lx
         else if ch = CHR ''&'' \<and> follows (CHR ''&'') then punct KwAnd 2 lx
         else if ch = CHR ''|'' \<and> follows (CHR ''|'') then punct KwOr 2 lx
         else if ch = CHR ''!'' then punct KwNot 1 lx
         else NextWord lx)"

subsection \<open>Every token but the end consumes input\<close>

definition lexed_size :: "Token \<times> Lexer \<Rightarrow> nat" where
  "lexed_size r = length (mRest (snd r)) + (if tkind (fst r) = TkEnd then 0 else 1)"

lemma mRest_advance_by [simp]: "mRest (advance_by n lx) = drop n (mRest lx)"
  by (simp add: advance_by_def)

lemma mPos_advance_by [simp]: "mPos (advance_by n lx) = mPos lx + n"
  by (simp add: advance_by_def)

lemma length_SkipWhitespace: "length (mRest (SkipWhitespace lx)) \<le> length (mRest lx)"
  by (simp add: SkipWhitespace_def)

lemma quoted_loop_size:
  "quoted_loop pos body s = Inr (b, lx) \<Longrightarrow> length (mRest lx) < length s"
  by (induction pos body s rule: quoted_loop.induct) (fastforce split: if_splits)+

lemma regex_loop_size:
  "regex_loop pos body s = Inr (b, lx) \<Longrightarrow> length (mRest lx) < length s"
  by (induction pos body s rule: regex_loop.induct) (fastforce split: if_splits)+

lemma LexQuoted_size:
  "LexQuoted lx = Inr r \<Longrightarrow> mRest lx \<noteq> [] \<Longrightarrow> lexed_size r \<le> length (mRest lx)"
  by (auto simp: LexQuoted_def lexed_size_def split: sum.splits dest!: quoted_loop_size)

lemma NextRegex_size:
  "NextRegex lx = Inr r \<Longrightarrow> lexed_size r \<le> length (mRest lx)"
  using length_SkipWhitespace [of lx]
  by (fastforce simp: NextRegex_def lexed_size_def Let_def split: sum.splits if_splits dest!: regex_loop_size)

lemma punct_size:
  "punct k n lx = Inr r \<Longrightarrow> k \<noteq> TkEnd \<Longrightarrow> 1 \<le> n \<Longrightarrow> n \<le> length (mRest lx) \<Longrightarrow> lexed_size r \<le> length (mRest lx)"
  by (auto simp: punct_def lexed_size_def)

named_theorems cursor_ge \<open>a lexer cursor never moves back\<close>

lemma lex_iso_seconds_ge [cursor_ge]: "c \<le> lex_iso_seconds s c"
  by (simp add: lex_iso_seconds_def)

lemma lex_iso_fraction_ge [cursor_ge]: "c \<le> lex_iso_fraction s c"
  using skip_while_ge [of "c + 1" isdigit s] by (simp add: lex_iso_fraction_def)

lemma lex_iso_zone_ge [cursor_ge]: "c \<le> lex_iso_zone s c"
  using skip_while_ge [of "c + 1" "\<lambda>c. c = CHR '':'' \<or> isdigit c" s] by (simp add: lex_iso_zone_def)

lemma lex_iso_time_ge [cursor_ge]: "c \<le> lex_iso_time s c"
proof -
  have "c \<le> lex_iso_zone s (lex_iso_fraction s (lex_iso_seconds s (c + 1 + 5)))"
    using lex_iso_seconds_ge [of "c + 1 + 5" s] lex_iso_fraction_ge lex_iso_zone_ge
    by (meson le_add1 le_trans)
  then show ?thesis by (simp add: lex_iso_time_def)
qed

lemma TryLexIsoTimestamp_size:
  assumes "TryLexIsoTimestamp lx = Some r"
  shows "lexed_size r \<le> length (mRest lx)"
proof -
  have shape: "10 \<le> length (mRest lx)"
    using assms by (auto simp: TryLexIsoTimestamp_def iso_date_shape_def Let_def split: if_splits)
  obtain c where "10 \<le> c" "r = (\<lparr>tkind = TkIdent, ttext = take c (mRest lx), toffset = mPos lx\<rparr>, advance_by c lx)"
    using assms lex_iso_time_ge [of 10 "mRest lx"]
    by (auto simp: TryLexIsoTimestamp_def Let_def split: if_splits)
  with shape show ?thesis by (auto simp: lexed_size_def)
qed

lemma number_int_end_pos:
  assumes "isdigit (hd s) \<or> hd s = CHR ''+'' \<or> hd s = CHR ''-''" "s \<noteq> []"
  shows "1 \<le> number_int_end s"
proof (cases "isdigit (hd s)")
  case True
  then have "s ! 0 \<noteq> CHR ''+''" "s ! 0 \<noteq> CHR ''-''"
    using assms(2) by (auto simp: hd_conv_nth isdigit_def)
  with True assms(2) show ?thesis
    by (cases s) (auto simp: number_int_end_def skip_while_0)
next
  case False
  then show ?thesis
    using assms skip_while_ge [of 1 isdigit s] by (auto simp: number_int_end_def hd_conv_nth)
qed

lemma number_frac_end_ge [cursor_ge]: "c \<le> number_frac_end s c"
  using skip_while_ge [of "c + 1" isdigit s] by (simp add: number_frac_end_def)

lemma number_exp_digits_gt: "c < number_exp_digits s c"
  by (simp add: number_exp_digits_def)

lemma LexNumber_size:
  assumes "LexNumber lx = Inr r" "mRest lx \<noteq> []"
    and "isdigit (hd (mRest lx)) \<or> hd (mRest lx) = CHR ''+'' \<or> hd (mRest lx) = CHR ''-''"
  shows "lexed_size r \<le> length (mRest lx)"
proof -
  let ?s = "mRest lx" and ?e = "number_frac_end (mRest lx) (number_int_end (mRest lx))"
  have e: "1 \<le> ?e"
    using number_int_end_pos [OF assms(3,2)] number_frac_end_ge le_trans by blast
  have "1 \<le> skip_while isdigit (number_exp_digits ?s ?e) ?s"
    using e number_exp_digits_gt [of ?e ?s] skip_while_ge [of "number_exp_digits ?s ?e" isdigit ?s] by linarith
  with e obtain c where "1 \<le> c" "r = (\<lparr>tkind = TkNumber, ttext = take c ?s, toffset = mPos lx\<rparr>, advance_by c lx)"
    using assms(1) by (auto simp: LexNumber_def Let_def split: if_splits)
  with assms(2) show ?thesis
    by (cases "mRest lx") (auto simp: lexed_size_def)
qed

lemma LexIdent_size:
  assumes "mRest lx \<noteq> []" "IsIdentStart (hd (mRest lx))"
  shows "lexed_size (LexIdent lx) \<le> length (mRest lx)"
proof -
  have "IsIdentChar (hd (mRest lx))"
    using assms(2) by (auto simp: IsIdentStart_def IsIdentChar_def isalnum_def)
  then have "1 \<le> length (takeWhile IsIdentChar (mRest lx))"
    using assms(1) by (cases "mRest lx") auto
  then show ?thesis
    using assms(1) length_takeWhile_le [of IsIdentChar "mRest lx"] by (auto simp: LexIdent_def lexed_size_def Let_def)
qed

lemma NextWord_size:
  assumes "NextWord lx = Inr r" "mRest lx \<noteq> []"
  shows "lexed_size r \<le> length (mRest lx)"
  using assms TryLexIsoTimestamp_size [of lx r] LexNumber_size [of lx r] LexIdent_size [of lx]
  by (auto simp: NextWord_def Let_def split: if_splits option.splits)

lemma Next_size:
  assumes "Next lx = Inr r"
  shows "lexed_size r \<le> length (mRest lx)"
proof -
  let ?l = "SkipWhitespace lx"
  have le: "length (mRest ?l) \<le> length (mRest lx)" by (rule length_SkipWhitespace)
  have "lexed_size r \<le> length (mRest ?l)"
  proof (cases "mRest ?l")
    case Nil
    then show ?thesis
      using assms by (simp add: Next_def Let_def punct_def lexed_size_def) (auto simp: lexed_size_def)
  next
    case (Cons ch t)
    have ne: "mRest ?l \<noteq> []" and len: "1 \<le> length (mRest ?l)" using Cons by auto
    have p1: "punct k (Suc 0) ?l = Inr r \<Longrightarrow> k \<noteq> TkEnd \<Longrightarrow> ?thesis" for k
      using punct_size [of k "Suc 0" ?l r] len by simp
    have p2: "punct k 2 ?l = Inr r \<Longrightarrow> k \<noteq> TkEnd \<Longrightarrow> Suc 0 < length (mRest ?l) \<Longrightarrow> ?thesis" for k
      using punct_size [of k 2 ?l r] by simp
    have q: "LexQuoted ?l = Inr r \<Longrightarrow> ?thesis"
      using LexQuoted_size [OF _ ne] .
    have w: "NextWord ?l = Inr r \<Longrightarrow> ?thesis"
      using NextWord_size [OF _ ne] .
    from assms show ?thesis
      unfolding Next_def Let_def using ne
      by (elim if_eqE) (auto dest: p1 p2 q w)
  qed
  with le show ?thesis by simp
qed

end
