(* ===== verification/Iso_Time.thy ===== *)
theory Iso_Time
  imports Prelude Ieee_Double
begin

text \<open>
  The calendar arithmetic of \<open>library/src/query_parser.cpp\<close>: \<open>DaysInMonth\<close>,
  \<open>ParseIsoTimestamp\<close>, \<open>CivilFromDays\<close> and \<open>FormatTimestampMicros\<close>.  Signed C++ division
  truncates, so it is \<open>sdiv\<close> and \<open>smod\<close> where an operand can be negative.
\<close>

definition StartsWithDigitYear :: "string \<Rightarrow> bool" where
  "StartsWithDigitYear text \<longleftrightarrow> 4 \<le> length text \<and> list_all isdigit (take 4 text)"

definition DaysInMonth :: "int \<Rightarrow> int \<Rightarrow> int" where
  "DaysInMonth year month =
     (if month < 1 \<or> month > 12 then 0
      else if month = 2 then
        (if (year mod 4 = 0 \<and> year mod 100 \<noteq> 0) \<or> year mod 400 = 0 then 29 else 28)
      else [31, 28, 31, 30, 31, 30, 31, 31, 30, 31, 30, 31] ! nat (month - 1))"

text \<open>The lambda \<open>readInt\<close>: \<open>width\<close> decimal digits of \<open>sv\<close> from \<open>start\<close>.\<close>

definition readInt :: "string \<Rightarrow> nat \<Rightarrow> nat \<Rightarrow> int option" where
  "readInt sv start width =
     (if length sv < start + width then None
      else let ds = take width (drop start sv)
           in if list_all isdigit ds then Some (int (digits_nat 0 ds)) else None)"

text \<open>
  The fraction loop: at most seven digits (\<open>denom < MICROS_DENOM_CAP\<close>) are accumulated into
  \<open>fractional\<close> and \<open>denom\<close>.
\<close>

fun fraction_loop :: "string \<Rightarrow> int \<Rightarrow> int \<Rightarrow> int \<times> int" where
  "fraction_loop [] fractional denom = (fractional, denom)"
| "fraction_loop (c # cs) fractional denom =
     (if isdigit c \<and> denom < 10000000
      then fraction_loop cs (fractional * 10 + int (digit_value c)) (denom * 10)
      else (fractional, denom))"

text \<open>
  The time zone suffix at \<open>cursor\<close>: \<open>Some (offsetSeconds, cursor')\<close>, or \<open>None\<close> where the
  code returns \<open>nullopt\<close>.
\<close>

definition parse_zone :: "string \<Rightarrow> nat \<Rightarrow> (int \<times> nat) option" where
  "parse_zone text cursor =
     (if \<not> cursor < length text then Some (0, cursor)
      else let tzCh = text ! cursor
      in if tzCh = CHR ''Z'' then Some (0, cursor + 1)
         else if tzCh = CHR ''+'' \<or> tzCh = CHR ''-'' then
           (let sign = (if tzCh = CHR ''-'' then -1 else 1); cursor = cursor + 1
            in case readInt text cursor 2 of
                 None \<Rightarrow> None
               | Some tzH \<Rightarrow>
                   let cursor = cursor + 2;
                       minutes = (if cursor < length text \<and> text ! cursor = CHR '':'' then
                                    map_option (\<lambda>m. (m, cursor + 3)) (readInt text (cursor + 1) 2)
                                  else if cursor + 1 < length text \<and> isdigit (text ! cursor) then
                                    map_option (\<lambda>m. (m, cursor + 2)) (readInt text cursor 2)
                                  else Some (0, cursor))
                   in case minutes of
                        None \<Rightarrow> None
                      | Some (tzM, cursor) \<Rightarrow>
                          if tzH > 23 \<or> tzM > 59 then None
                          else Some (sign * (tzH * 3600 + tzM * 60), cursor))
         else Some (0, cursor))"

text \<open>
  The time of day after the \<open>T\<close> or space separator, from \<open>cursor\<close>: hour, minute, second,
  fraction in microseconds, zone offset in seconds, and the cursor behind them.
\<close>

definition parse_fraction :: "string \<Rightarrow> nat \<Rightarrow> int \<times> nat" where
  "parse_fraction text cursor =
     (if cursor < length text \<and> (text ! cursor = CHR ''.'' \<or> text ! cursor = CHR '','') then
        (let (fractional, denom) = fraction_loop (drop (cursor + 1) text) 0 1
         in ((fractional * 1000000) div denom, skip_while isdigit (cursor + 1) text))
      else (0, cursor))"

definition parse_time_of_day :: "string \<Rightarrow> nat \<Rightarrow> (int \<times> int \<times> int \<times> int \<times> int \<times> nat) option" where
  "parse_time_of_day text cursor =
     (case readInt text cursor 2 of
        None \<Rightarrow> None
      | Some hour \<Rightarrow>
     if \<not> cursor + 2 < length text \<or> text ! (cursor + 2) \<noteq> CHR '':'' then None
     else case readInt text (cursor + 3) 2 of
        None \<Rightarrow> None
      | Some minute \<Rightarrow>
     let cursor = cursor + 5;
         secs = (if cursor < length text \<and> text ! cursor = CHR '':''
                 then map_option (\<lambda>s. (s, cursor + 3)) (readInt text (cursor + 1) 2)
                 else Some (0, cursor))
     in case secs of
        None \<Rightarrow> None
      | Some (second, cursor) \<Rightarrow>
     if hour > 24 \<or> minute > 59 \<or> second > 60 \<or> (hour = 24 \<and> (minute \<noteq> 0 \<or> second \<noteq> 0)) then None
     else let (fractionalMicros, cursor) = parse_fraction text cursor
     in if hour = 24 \<and> fractionalMicros \<noteq> 0 then None
        else case parse_zone text cursor of
               None \<Rightarrow> None
             | Some (offsetSeconds, cursor) \<Rightarrow>
                 Some (hour, minute, second, fractionalMicros, offsetSeconds, cursor))"

text \<open>Days since the epoch of a civil date (the closing computation of \<open>ParseIsoTimestamp\<close>).\<close>

definition days_from_fields :: "int \<Rightarrow> int \<Rightarrow> int \<Rightarrow> int" where
  "days_from_fields year m d =
     (let y = year - (if m \<le> 2 then 1 else 0);
          era = (if y \<ge> 0 then y else y - 399) sdiv 400;
          yoe = y - era * 400;
          doy = (153 * (m + (if m > 2 then -3 else 9)) + 2) div 5 + (d - 1);
          doe = yoe * 365 + yoe div 4 - yoe div 100 + doy
      in era * 146097 + doe - 719468)"

definition ParseIsoTimestamp :: "string \<Rightarrow> int option" where
  "ParseIsoTimestamp text =
     (if \<not> StartsWithDigitYear text then None
      else if length text < 10 then None
      else if text ! 4 \<noteq> CHR ''-'' then None
      else case (readInt text 0 4, readInt text 5 2) of
        (Some year, Some month) \<Rightarrow>
          (if text ! 7 \<noteq> CHR ''-'' then None
           else case readInt text 8 2 of
             None \<Rightarrow> None
           | Some day \<Rightarrow>
               if month < 1 \<or> month > 12 \<or> day < 1 \<or> day > DaysInMonth year month then None
               else case (if 10 < length text \<and> (text ! 10 = CHR ''T'' \<or> text ! 10 = CHR '' '')
                          then parse_time_of_day text 11 else Some (0, 0, 0, 0, 0, 10)) of
                 None \<Rightarrow> None
               | Some (hour, minute, second, fractionalMicros, offsetSeconds, cursor) \<Rightarrow>
                   if cursor \<noteq> length text then None
                   else let secondsSinceEpoch = days_from_fields year month day * 86400 +
                              hour * 3600 + minute * 60 + second - offsetSeconds
                        in Some (secondsSinceEpoch * 1000000 + fractionalMicros))
      | _ \<Rightarrow> None)"

record CivilDate =
  cd_year :: int
  cd_month :: int
  cd_day :: int

definition CivilFromDays :: "int \<Rightarrow> CivilDate" where
  "CivilFromDays z0 =
     (let z = z0 + 719468;
          era = (if z \<ge> 0 then z else z - 146096) sdiv 146097;
          doe = z - era * 146097;
          yoe = (doe - doe div 1460 + doe div 36524 - doe div 146096) div 365;
          y = yoe + era * 400;
          doy = doe - (365 * yoe + yoe div 4 - yoe div 100);
          mp = (5 * doy + 2) div 153;
          d = doy - (153 * mp + 2) div 5 + 1;
          m = mp + (if mp < 10 then 3 else -9)
      in \<lparr>cd_year = y + (if m \<le> 2 then 1 else 0), cd_month = m, cd_day = d\<rparr>)"

text \<open>\<open>std::to_string\<close> of a signed integer and the zero-padded fields of \<open>std::format\<close>.\<close>

definition to_string :: "int \<Rightarrow> string" where
  "to_string i = (if i < 0 then CHR ''-'' # show_nat (nat (- i)) else show_nat (nat i))"

definition pad_zeros :: "nat \<Rightarrow> int \<Rightarrow> string" where
  "pad_zeros w i = (let s = to_string i in replicate (w - length s) (CHR ''0'') @ s)"

definition FormatTimestampMicros :: "int \<Rightarrow> string" where
  "FormatTimestampMicros micros =
     (let s0 = micros sdiv 1000000; r0 = micros smod 1000000;
          totalSeconds = (if r0 < 0 then s0 - 1 else s0);
          microRemainder = (if r0 < 0 then r0 + 1000000 else r0);
          d0 = totalSeconds sdiv 86400; o0 = totalSeconds smod 86400;
          days = (if o0 < 0 then d0 - 1 else d0);
          secondOfDay = (if o0 < 0 then o0 + 86400 else o0);
          date = CivilFromDays days
      in if cd_year date < 0 \<or> cd_year date > 9999 then ''epoch_micros:'' @ to_string micros
         else pad_zeros 4 (cd_year date) @ ''-'' @ pad_zeros 2 (cd_month date) @ ''-'' @
              pad_zeros 2 (cd_day date) @ ''T'' @ pad_zeros 2 (secondOfDay div 3600) @ '':'' @
              pad_zeros 2 ((secondOfDay mod 3600) div 60) @ '':'' @ pad_zeros 2 (secondOfDay mod 60) @
              ''.'' @ pad_zeros 6 microRemainder @ ''Z'')"

end
