(* ===== verification/Query_Parser.thy ===== *)
theory Query_Parser
  imports Query_Lexer Iso_Time Filter_Expression
begin

text \<open>
  The \<open>Parser\<close> class of \<open>library/src/query_parser.cpp\<close> and \<open>ParseQuery\<close>.

  The parser's state is its lexer and one token of lookahead.  An operation returns
  \<open>POk\<close> with its value and the new state, \<open>PErr\<close> where the C++ returns
  \<open>std::unexpected\<close>, or \<open>PFuel\<close>: the four mutually recursive descent functions carry a
  fuel argument, and \<open>ParseQuery\<close> starts them with enough of it (\<open>parse_or_fuel\<close> and
  \<open>ParseQuery_no_fuel\<close> in \<open>Query_Fuel\<close>).
\<close>

subsection \<open>Numbers\<close>

definition ParseDouble :: "string \<Rightarrow> double option" where
  "ParseDouble text =
     (if text = [] then None
      else if isspace (hd text) then None
      else if 2 \<le> length text \<and> text ! 0 = CHR ''0'' \<and> (text ! 1 = CHR ''x'' \<or> text ! 1 = CHR ''X'') then None
      else if CHR 0x00 \<in> set text then None
      else case strtod_whole text of
             None \<Rightarrow> None
           | Some (value, erange) \<Rightarrow> if erange then None else Some value)"

subsection \<open>State\<close>

record Parser =
  mLexer :: Lexer
  mLookahead :: Token

datatype 'a presult = POk 'a Parser | PErr QueryParseError | PFuel

fun pbind :: "'a presult \<Rightarrow> ('a \<Rightarrow> Parser \<Rightarrow> 'b presult) \<Rightarrow> 'b presult" where
  "pbind (POk x s) f = f x s"
| "pbind (PErr e) f = PErr e"
| "pbind PFuel f = PFuel"

abbreviation lookahead_kind :: "Parser \<Rightarrow> TokenKind" where
  "lookahead_kind s \<equiv> tkind (mLookahead s)"

abbreviation lookahead_text :: "Parser \<Rightarrow> string" where
  "lookahead_text s \<equiv> ttext (mLookahead s)"

definition perr :: "nat \<Rightarrow> string \<Rightarrow> 'a presult" where
  "perr off msg = PErr \<lparr>erroffset = off, errmessage = msg\<rparr>"

definition fail_here :: "Parser \<Rightarrow> string \<Rightarrow> 'a presult" where
  "fail_here s msg = perr (toffset (mLookahead s)) msg"

definition shift_token :: "Parser \<Rightarrow> QueryParseError + (Token \<times> Lexer) \<Rightarrow> Token presult" where
  "shift_token s next =
     (case next of Inl err \<Rightarrow> PErr err
      | Inr (tok, lx) \<Rightarrow> POk (mLookahead s) \<lparr>mLexer = lx, mLookahead = tok\<rparr>)"

definition Advance :: "Parser \<Rightarrow> Token presult" where
  "Advance s = shift_token s (Next (mLexer s))"

definition AdvanceRegex :: "Parser \<Rightarrow> Token presult" where
  "AdvanceRegex s = shift_token s (NextRegex (mLexer s))"

definition is_value_kind :: "TokenKind \<Rightarrow> bool" where
  "is_value_kind k \<longleftrightarrow> k \<in> {TkQuoted, TkIdent, TkNumber, TkTrue, TkFalse}"

definition is_bound_kind :: "TokenKind \<Rightarrow> bool" where
  "is_bound_kind k \<longleftrightarrow> k \<in> {TkNumber, TkIdent, TkQuoted}"

definition isBoolKind :: "TokenKind \<Rightarrow> bool" where
  "isBoolKind k \<longleftrightarrow> k = TkTrue \<or> k = TkFalse"

subsection \<open>Leaves\<close>

definition finish_with :: "LeafRule \<Rightarrow> Parser \<Rightarrow> FilterExpression presult" where
  "finish_with rule s = pbind (Advance s) (\<lambda>_ s. POk (MakeLeaf rule) s)"

definition string_rule :: "LeafRule \<Rightarrow> Match \<Rightarrow> string \<Rightarrow> LeafRule" where
  "string_rule rule m text =
     rule\<lparr>leafType := TString, matchType := Some m, filterString := Some text\<rparr>"

definition FinishStringLeaf :: "LeafRule \<Rightarrow> Match \<Rightarrow> Parser \<Rightarrow> FilterExpression presult" where
  "FinishStringLeaf rule m s =
     (if \<not> is_value_kind (lookahead_kind s)
      then fail_here s (''expected a value after '' @ [CHR 0x27] @ '':'' @ [CHR 0x27] @ '' operator'')
      else finish_with (string_rule rule m (lookahead_text s)) s)"

definition FinishEqLeaf :: "LeafRule \<Rightarrow> Parser \<Rightarrow> FilterExpression presult" where
  "FinishEqLeaf rule s =
     (case lookahead_kind s of
        TkQuoted \<Rightarrow> finish_with (string_rule rule Exactly (lookahead_text s)) s
      | TkIdent \<Rightarrow> finish_with (string_rule rule Exactly (lookahead_text s)) s
      | TkNumber \<Rightarrow>
          (case ParseDouble (lookahead_text s) of
             None \<Rightarrow> fail_here s ''invalid numeric literal''
           | Some v \<Rightarrow> finish_with
               (rule\<lparr>leafType := TNumber, filterMinValue := Some v, filterMaxValue := Some v\<rparr>) s)
      | TkTrue \<Rightarrow> finish_with
          (rule\<lparr>leafType := TBoolean, filterValues := filterValues rule @ [''true'']\<rparr>) s
      | TkFalse \<Rightarrow> finish_with
          (rule\<lparr>leafType := TBoolean, filterValues := filterValues rule @ [''false'']\<rparr>) s
      | _ \<Rightarrow> fail_here s (''expected a value after '' @ [CHR 0x27] @ ''='' @ [CHR 0x27] @ '' operator''))"

text \<open>The bounds of \<open>col {>,>=,<,<=} literal\<close>; a strict number bound is the adjacent double.\<close>

definition compare_rule ::
    "LeafRule \<Rightarrow> TokenKind \<Rightarrow> string \<Rightarrow> LeafRule option" where
  "compare_rule rule opKind valueText =
     (case ParseIsoTimestamp valueText of
        Some ts \<Rightarrow>
          (let rule = rule\<lparr>leafType := TTime\<rparr> in Some (case opKind of
             TkGt \<Rightarrow> rule\<lparr>filterBegin := Some (ts + 1)\<rparr>
           | TkGtEq \<Rightarrow> rule\<lparr>filterBegin := Some ts\<rparr>
           | TkLt \<Rightarrow> rule\<lparr>filterEnd := Some (ts - 1)\<rparr>
           | TkLtEq \<Rightarrow> rule\<lparr>filterEnd := Some ts\<rparr>
           | _ \<Rightarrow> rule))
      | None \<Rightarrow>
          (case ParseDouble valueText of
             None \<Rightarrow> None
           | Some n \<Rightarrow>
               (let rule = rule\<lparr>leafType := TNumber\<rparr> in Some (case opKind of
                  TkGt \<Rightarrow> rule\<lparr>filterMinValue := Some (nextafter_up n)\<rparr>
                | TkGtEq \<Rightarrow> rule\<lparr>filterMinValue := Some n\<rparr>
                | TkLt \<Rightarrow> rule\<lparr>filterMaxValue := Some (nextafter_down n)\<rparr>
                | TkLtEq \<Rightarrow> rule\<lparr>filterMaxValue := Some n\<rparr>
                | _ \<Rightarrow> rule))))"

definition FinishCompareLeaf :: "LeafRule \<Rightarrow> Token \<Rightarrow> Parser \<Rightarrow> FilterExpression presult" where
  "FinishCompareLeaf rule opTok s =
     (if is_bound_kind (lookahead_kind s) then
        (let valueText = lookahead_text s
         in pbind (Advance s) (\<lambda>_ s.
              case compare_rule rule (tkind opTok) valueText of
                None \<Rightarrow> perr (toffset opTok) ''comparison operator expects a number or ISO timestamp''
              | Some rule \<Rightarrow> POk (MakeLeaf rule) s))
      else fail_here s ''expected a value after comparison operator'')"

text \<open>The lambda \<open>classify\<close> of \<open>FinishRangeUpper\<close>: a timestamp, else a number.\<close>

definition classify :: "string \<Rightarrow> (int + double) option" where
  "classify text =
     (case ParseIsoTimestamp text of
        Some ts \<Rightarrow> Some (Inl ts)
      | None \<Rightarrow> map_option Inr (ParseDouble text))"

definition classify_opt :: "Token option \<Rightarrow> (int + double) option option" where
  "classify_opt tok =
     (case tok of None \<Rightarrow> Some None
      | Some t \<Rightarrow> (case classify (ttext t) of None \<Rightarrow> None | Some b \<Rightarrow> Some (Some b)))"

definition ts_of :: "(int + double) option \<Rightarrow> int option" where
  "ts_of b = (case b of Some (Inl t) \<Rightarrow> Some t | _ \<Rightarrow> None)"

definition num_of :: "(int + double) option \<Rightarrow> double option" where
  "num_of b = (case b of Some (Inr d) \<Rightarrow> Some d | _ \<Rightarrow> None)"

definition range_rule ::
    "LeafRule \<Rightarrow> Token option \<Rightarrow> Token option \<Rightarrow> Parser \<Rightarrow> FilterExpression presult" where
  "range_rule rule firstTok secondTok s =
     (case classify_opt firstTok of
        None \<Rightarrow> perr (toffset (the firstTok)) ''range lower bound must be a number or ISO timestamp''
      | Some lo \<Rightarrow>
     case classify_opt secondTok of
        None \<Rightarrow> perr (toffset (the secondTok)) ''range upper bound must be a number or ISO timestamp''
      | Some hi \<Rightarrow>
     let tsMin = ts_of lo; tsMax = ts_of hi; numMin = num_of lo; numMax = num_of hi;
         secondOffset = (case secondTok of None \<Rightarrow> 0 | Some t \<Rightarrow> toffset t)
     in if (tsMin \<noteq> None \<and> numMax \<noteq> None) \<or> (numMin \<noteq> None \<and> tsMax \<noteq> None)
        then perr secondOffset ''range bounds must both be numeric or both be ISO timestamps''
        else if (tsMin \<noteq> None \<and> tsMax \<noteq> None \<and> the tsMin > the tsMax) \<or>
                (numMin \<noteq> None \<and> numMax \<noteq> None \<and> d_less (the numMax) (the numMin))
        then perr secondOffset ''range upper bound is below the lower bound''
        else if tsMin \<noteq> None \<or> tsMax \<noteq> None
        then POk (MakeLeaf (rule\<lparr>leafType := TTime, filterBegin := tsMin, filterEnd := tsMax\<rparr>)) s
        else POk (MakeLeaf (rule\<lparr>leafType := TNumber, filterMinValue := numMin, filterMaxValue := numMax\<rparr>)) s)"

definition FinishRangeUpper :: "LeafRule \<Rightarrow> Token option \<Rightarrow> Parser \<Rightarrow> FilterExpression presult" where
  "FinishRangeUpper rule firstTok s =
     pbind (if is_bound_kind (lookahead_kind s)
            then pbind (Advance s) (\<lambda>tok s. POk (Some tok) s) else POk None s)
       (\<lambda>secondTok s.
          if lookahead_kind s \<noteq> RBracket
          then fail_here s (''expected '' @ [CHR 0x27] @ '']'' @ [CHR 0x27] @ '' to close range'')
          else if firstTok = None \<and> secondTok = None
          then fail_here s ''range needs at least a lower or an upper bound''
          else pbind (Advance s) (\<lambda>_ s. range_rule rule firstTok secondTok s))"

subsection \<open>The measure of the parser\<close>

text \<open>What is left to parse: the lookahead token, if it is not the end, and the bytes behind it.\<close>

definition msize :: "Parser \<Rightarrow> nat" where
  "msize s = length (mRest (mLexer s)) + (if lookahead_kind s = TkEnd then 0 else 1)"

lemma Advance_size: "Advance s = POk t s' \<Longrightarrow> msize s' \<le> length (mRest (mLexer s))"
  using Next_size [of "mLexer s"]
  by (auto simp: Advance_def shift_token_def msize_def lexed_size_def split: sum.splits prod.splits)

lemma AdvanceRegex_size: "AdvanceRegex s = POk t s' \<Longrightarrow> msize s' \<le> length (mRest (mLexer s))"
  using NextRegex_size [of "mLexer s"]
  by (auto simp: AdvanceRegex_def shift_token_def msize_def lexed_size_def split: sum.splits prod.splits)

lemma Advance_less: "Advance s = POk t s' \<Longrightarrow> lookahead_kind s \<noteq> TkEnd \<Longrightarrow> msize s' < msize s"
  using Advance_size [of s t s'] by (auto simp: msize_def)

lemma AdvanceRegex_less: "AdvanceRegex s = POk t s' \<Longrightarrow> lookahead_kind s \<noteq> TkEnd \<Longrightarrow> msize s' < msize s"
  using AdvanceRegex_size [of s t s'] by (auto simp: msize_def)

lemma Advance_le: "Advance s = POk t s' \<Longrightarrow> msize s' \<le> msize s"
  using Advance_size [of s t s'] by (auto simp: msize_def)

lemma Advance_twice_less:
  "Advance s = POk t s1 \<Longrightarrow> Advance s1 = POk u s2 \<Longrightarrow> lookahead_kind s \<noteq> TkEnd \<Longrightarrow> msize s2 < msize s"
  using Advance_less [of s t s1] Advance_le [of s1 u s2] by linarith

lemma pbind_POk:
  "pbind m f = POk x s' \<longleftrightarrow> (\<exists>y s. m = POk y s \<and> f y s = POk x s')"
  by (cases m) auto

lemma pbind_PFuel:
  "pbind m f = PFuel \<longleftrightarrow> m = PFuel \<or> (\<exists>y s. m = POk y s \<and> f y s = PFuel)"
  by (cases m) auto

lemma pbind_cong [fundef_cong]:
  "m = m' \<Longrightarrow> (\<And>x s. m' = POk x s \<Longrightarrow> f x s = f' x s) \<Longrightarrow> pbind m f = pbind m' f'"
  by (cases m) auto

subsection \<open>Value lists\<close>

text \<open>
  The loop of \<open>FinishListLeaf\<close>: the values gathered so far and whether all were boolean
  keywords.
\<close>

function list_loop :: "string list \<Rightarrow> bool \<Rightarrow> Parser \<Rightarrow> (string list \<times> bool) presult" where
  "list_loop values allBool s =
     (if lookahead_kind s = TkComma then
        pbind (Advance s) (\<lambda>_ s1.
          if \<not> is_value_kind (lookahead_kind s1)
          then fail_here s1 (''expected a value after '' @ [CHR 0x27] @ '','' @ [CHR 0x27])
          else pbind (Advance s1) (\<lambda>_ s2.
            list_loop (values @ [lookahead_text s1]) (allBool \<and> isBoolKind (lookahead_kind s1)) s2))
      else POk (values, allBool) s)"
  by pat_completeness auto
termination
  by (relation "measure (\<lambda>(v, b, s). msize s)")
    (auto dest: Advance_twice_less)

declare list_loop.simps [simp del]

definition list_rule :: "LeafRule \<Rightarrow> string list \<Rightarrow> bool \<Rightarrow> LeafRule" where
  "list_rule rule values allBool =
     (let rule = rule\<lparr>filterValues := values\<rparr>
      in if allBool then rule\<lparr>leafType := TBoolean, filterValues := map (map tolower) values\<rparr>
         else if length values = 1 then
           (case ParseIsoTimestamp (hd values) of
              Some ts \<Rightarrow> rule\<lparr>leafType := TTime, filterBegin := Some ts, filterEnd := Some ts, filterValues := []\<rparr>
            | None \<Rightarrow>
                (case ParseDouble (hd values) of
                   Some n \<Rightarrow> rule\<lparr>leafType := TNumber, filterMinValue := Some n, filterMaxValue := Some n,
                                    filterValues := []\<rparr>
                 | None \<Rightarrow> rule\<lparr>leafType := TEnumeration\<rparr>))
         else rule\<lparr>leafType := TEnumeration\<rparr>)"

definition FinishListLeaf :: "LeafRule \<Rightarrow> Token \<Rightarrow> Parser \<Rightarrow> FilterExpression presult" where
  "FinishListLeaf rule firstTok s =
     pbind (list_loop (filterValues rule @ [ttext firstTok]) (isBoolKind (tkind firstTok)) s) (\<lambda>(values, allBool) s.
       if lookahead_kind s \<noteq> RBracket
       then fail_here s (''expected '' @ [CHR 0x27] @ '']'' @ [CHR 0x27] @ '' or '' @ [CHR 0x27] @ '','' @ [CHR 0x27] @
              '' to continue '' @ [CHR 0x27] @ ''in [...]'' @ [CHR 0x27] @ '' list'')
       else pbind (Advance s) (\<lambda>_ s. POk (MakeLeaf (list_rule rule values allBool)) s))"

definition FinishInLeaf :: "LeafRule \<Rightarrow> Parser \<Rightarrow> FilterExpression presult" where
  "FinishInLeaf rule s =
     (if lookahead_kind s \<noteq> LBracket
      then fail_here s (''expected '' @ [CHR 0x27] @ ''['' @ [CHR 0x27] @ '' to open value list after '' @ [CHR 0x27] @ ''in'' @ [CHR 0x27])
      else pbind (Advance s) (\<lambda>_ s.
        if lookahead_kind s = DotDot
        then pbind (Advance s) (\<lambda>_ s. FinishRangeUpper rule None s)
        else if is_value_kind (lookahead_kind s)
        then (let firstTok = mLookahead s
              in pbind (Advance s) (\<lambda>_ s.
                   if lookahead_kind s = DotDot
                   then pbind (Advance s) (\<lambda>_ s. FinishRangeUpper rule (Some firstTok) s)
                   else FinishListLeaf rule firstTok s))
        else if lookahead_kind s = RBracket
        then fail_here s ''value list cannot be empty''
        else fail_here s (''expected a value or '' @ [CHR 0x27] @ '']'' @ [CHR 0x27] @ '' inside '' @ [CHR 0x27] @ ''in [...]'' @ [CHR 0x27])))"

definition finish_regex :: "LeafRule \<Rightarrow> Parser \<Rightarrow> FilterExpression presult" where
  "finish_regex rule s =
     pbind (AdvanceRegex s) (\<lambda>_ s.
       if lookahead_kind s \<noteq> TkRegex
       then fail_here s (''expected a regex literal '' @ [CHR 0x27] @ ''/.../'' @ [CHR 0x27] @ '' after '' @ [CHR 0x27] @ ''~'' @ [CHR 0x27])
       else finish_with (string_rule rule RegularExpression (lookahead_text s)) s)"

definition finish_wildcard :: "LeafRule \<Rightarrow> Parser \<Rightarrow> FilterExpression presult" where
  "finish_wildcard rule s =
     pbind (Advance s) (\<lambda>_ s.
       if lookahead_kind s \<noteq> TkQuoted \<and> lookahead_kind s \<noteq> TkIdent
       then fail_here s (''expected a pattern after '' @ [CHR 0x27] @ ''%'' @ [CHR 0x27] @ '' (wildcard operator)'')
       else finish_with (string_rule rule Wildcard (lookahead_text s)) s)"

text \<open>\<open>column NOT IN [...]\<close> is sugar for \<open>NOT (column IN [...])\<close>.\<close>

definition finish_not_in :: "LeafRule \<Rightarrow> Parser \<Rightarrow> FilterExpression presult" where
  "finish_not_in rule s =
     pbind (Advance s) (\<lambda>_ s.
       if lookahead_kind s \<noteq> KwIn
       then fail_here s (''expected '' @ [CHR 0x27] @ ''IN'' @ [CHR 0x27] @ '' after '' @ [CHR 0x27] @ ''NOT'' @ [CHR 0x27] @ '' in leaf position'')
       else pbind (Advance s) (\<lambda>_ s. pbind (FinishInLeaf rule s) (\<lambda>inner s. POk (MakeNot inner) s)))"

definition operator_message :: string where
  "operator_message =
     (let q = (\<lambda>t. [CHR 0x27] @ t @ [CHR 0x27])
      in ''expected an operator after the column name ('' @ q '':'' @ '', '' @ q ''='' @ '', '' @ q ''~'' @ '', '' @
         q ''%'' @ '', '' @ q ''<'' @ '', '' @ q ''>'' @ '', '' @ q ''in'' @ '')'')"

text \<open>The operator switch of \<open>ParseLeaf\<close>, entered with the operator as lookahead.\<close>

definition parse_operator :: "LeafRule \<Rightarrow> Parser \<Rightarrow> FilterExpression presult" where
  "parse_operator rule s =
     (let opTok = mLookahead s
      in case tkind opTok of
           TkColon \<Rightarrow> pbind (Advance s) (\<lambda>_ s. FinishStringLeaf rule Contains s)
         | TkEq \<Rightarrow> pbind (Advance s) (\<lambda>_ s. FinishEqLeaf rule s)
         | TkTilde \<Rightarrow> finish_regex rule s
         | TkPercent \<Rightarrow> finish_wildcard rule s
         | TkGt \<Rightarrow> pbind (Advance s) (\<lambda>_ s. FinishCompareLeaf rule opTok s)
         | TkGtEq \<Rightarrow> pbind (Advance s) (\<lambda>_ s. FinishCompareLeaf rule opTok s)
         | TkLt \<Rightarrow> pbind (Advance s) (\<lambda>_ s. FinishCompareLeaf rule opTok s)
         | TkLtEq \<Rightarrow> pbind (Advance s) (\<lambda>_ s. FinishCompareLeaf rule opTok s)
         | KwIn \<Rightarrow> pbind (Advance s) (\<lambda>_ s. FinishInLeaf rule s)
         | KwNot \<Rightarrow> finish_not_in rule s
         | _ \<Rightarrow> perr (toffset opTok) operator_message)"

definition ParseLeaf :: "Parser \<Rightarrow> FilterExpression presult" where
  "ParseLeaf s =
     (if lookahead_kind s \<noteq> TkIdent \<and> lookahead_kind s \<noteq> TkQuoted
      then fail_here s ''expected a column name to start the leaf''
      else pbind (Advance s) (\<lambda>columnTok s.
             parse_operator (default_LeafRule\<lparr>columnKeys := [ttext columnTok]\<rparr>) s))"

subsection \<open>The recursive descent\<close>

definition starts_atom :: "TokenKind \<Rightarrow> bool" where
  "starts_atom k \<longleftrightarrow> k \<in> {TkIdent, TkQuoted, KwNot, LParen}"

fun ParseOr :: "nat \<Rightarrow> Parser \<Rightarrow> FilterExpression presult"
  and or_loop :: "nat \<Rightarrow> FilterExpression list \<Rightarrow> Parser \<Rightarrow> FilterExpression presult"
  and ParseAnd :: "nat \<Rightarrow> Parser \<Rightarrow> FilterExpression presult"
  and and_loop :: "nat \<Rightarrow> FilterExpression list \<Rightarrow> Parser \<Rightarrow> FilterExpression presult"
  and ParseNot :: "nat \<Rightarrow> Parser \<Rightarrow> FilterExpression presult"
  and ParseAtom :: "nat \<Rightarrow> Parser \<Rightarrow> FilterExpression presult"
where
  "ParseOr 0 s = PFuel"
| "ParseOr (Suc n) s = pbind (ParseAnd n s) (\<lambda>first s. or_loop n [first] s)"
| "or_loop 0 children s = PFuel"
| "or_loop (Suc n) children s =
     (if lookahead_kind s = KwOr
      then pbind (Advance s) (\<lambda>_ s. pbind (ParseAnd n s) (\<lambda>next s. or_loop n (children @ [next]) s))
      else POk (if length children = 1 then hd children else MakeOr children) s)"
| "ParseAnd 0 s = PFuel"
| "ParseAnd (Suc n) s = pbind (ParseNot n s) (\<lambda>first s. and_loop n [first] s)"
| "and_loop 0 children s = PFuel"
| "and_loop (Suc n) children s =
     (if lookahead_kind s = KwAnd
      then pbind (Advance s) (\<lambda>_ s. pbind (ParseNot n s) (\<lambda>next s. and_loop n (children @ [next]) s))
      else if starts_atom (lookahead_kind s)
      then pbind (ParseNot n s) (\<lambda>next s. and_loop n (children @ [next]) s)
      else POk (if length children = 1 then hd children else MakeAnd children) s)"
| "ParseNot 0 s = PFuel"
| "ParseNot (Suc n) s =
     (if lookahead_kind s = KwNot
      then pbind (Advance s) (\<lambda>_ s. pbind (ParseNot n s) (\<lambda>inner s. POk (MakeNot inner) s))
      else ParseAtom n s)"
| "ParseAtom 0 s = PFuel"
| "ParseAtom (Suc n) s =
     (if lookahead_kind s = LParen
      then pbind (Advance s) (\<lambda>_ s. pbind (ParseOr n s) (\<lambda>inner s.
             if lookahead_kind s \<noteq> RParen
             then fail_here s (''expected '' @ [CHR 0x27] @ '')'' @ [CHR 0x27] @ '' to close group'')
             else pbind (Advance s) (\<lambda>_ s. POk inner s)))
      else ParseLeaf s)"

definition Parse :: "nat \<Rightarrow> string \<Rightarrow> FilterExpression presult" where
  "Parse fuel input =
     (case Next \<lparr>mPos = 0, mRest = input\<rparr> of
        Inl err \<Rightarrow> PErr err
      | Inr (first, lx) \<Rightarrow>
          let s = \<lparr>mLexer = lx, mLookahead = first\<rparr>
          in if tkind first = TkEnd then POk default_FilterExpression s
             else pbind (ParseOr fuel s) (\<lambda>result s.
               if lookahead_kind s \<noteq> TkEnd
               then fail_here s ''unexpected trailing tokens after expression''
               else POk result s))"

definition query_fuel :: "string \<Rightarrow> nat" where
  "query_fuel input = 4 * length input + 4"

definition ParseQuery :: "string \<Rightarrow> FilterExpression presult" where
  "ParseQuery input = Parse (query_fuel input) input"

end
