(* ===== verification/Leaf_Semantics.thy ===== *)
theory Leaf_Semantics
  imports Predicate_Correct Query_Parser
begin

text \<open>
  What the leaves that the query parser builds (\<open>query_parser.cpp\<close>) select when the row
  predicates (\<open>log_filter.cpp\<close>) run them.
\<close>

lemma isnan_next [simp]: "isnan (nextafter_up n) = isnan n" "isnan (nextafter_down n) = isnan n"
  by (cases n; simp add: isnan_def)+

lemma d_less_iff: "\<not> isnan x \<Longrightarrow> \<not> isnan y \<Longrightarrow> (d_less x y \<or> d_eq x y) \<longleftrightarrow> \<not> d_less y x"
  by (auto simp: d_less_def d_eq_def)

lemma compare_strict:
  assumes "ParseIsoTimestamp text = None" "ParseDouble text = Some n"
    and "\<not> isnan n" "\<bar>dkey n\<bar> \<noteq> int inf_mag"
    and "filterMinValue rule = None" "filterMaxValue rule = None"
    and "numeric_slot (GetValue t row c) = Some x" "wf_double x" "\<not> isnan x"
  shows "compare_rule rule TkGt text = Some gt \<Longrightarrow>
      MatchesRow fm (make_NumericRange c (filterMinValue gt) (filterMaxValue gt)) t row \<longleftrightarrow> d_less n x"
    and "compare_rule rule TkLt text = Some lt \<Longrightarrow>
      MatchesRow fm (make_NumericRange c (filterMinValue lt) (filterMaxValue lt)) t row \<longleftrightarrow> d_less x n"
proof -
  have fin: "dkey n \<noteq> int inf_mag" "dkey n \<noteq> - int inf_mag" using assms(4) by auto
  note bounds = match_numeric_bounds [of fm c _ _ t row]
  have up: "\<not> d_less x (nextafter_up n) \<longleftrightarrow> d_less n x"
    using nextafter_up_strict [OF assms(8,3)] nextafter_up_above [OF assms(3,9) fin(1)] by blast
  have down: "\<not> d_less (nextafter_down n) x \<longleftrightarrow> d_less x n"
    using nextafter_down_strict [OF assms(8,3)] nextafter_down_below [OF assms(3,9) fin(2)] by blast
  show "MatchesRow fm (make_NumericRange c (filterMinValue gt) (filterMaxValue gt)) t row \<longleftrightarrow> d_less n x"
    if "compare_rule rule TkGt text = Some gt"
    using that assms up by (auto simp: bounds compare_rule_def d_less_iff)
  show "MatchesRow fm (make_NumericRange c (filterMinValue lt) (filterMaxValue lt)) t row \<longleftrightarrow> d_less x n"
    if "compare_rule rule TkLt text = Some lt"
    using that assms down by (auto simp: bounds compare_rule_def d_less_iff)
qed

end
