(* ===== verification/Query_Fuel.thy ===== *)
theory Query_Fuel
  imports Query_Parser
begin

text \<open>
  The recursive descent of the query parser terminates: every operation that succeeds has
  consumed input, and the fuel that \<open>ParseQuery\<close> passes is enough for every input.
\<close>

named_theorems consumes \<open>a successful leaf operation leaves less to parse\<close>
named_theorems never_PFuel \<open>a leaf operation does not run out of fuel\<close>

lemma shift_token_not_PFuel [never_PFuel]: "shift_token s r \<noteq> PFuel"
  by (auto simp: shift_token_def split: sum.splits)

lemma Advance_not_PFuel [never_PFuel]: "Advance s \<noteq> PFuel" "AdvanceRegex s \<noteq> PFuel"
  by (simp_all add: Advance_def AdvanceRegex_def never_PFuel)

lemma fail_not_PFuel [never_PFuel]: "perr n m \<noteq> PFuel" "fail_here s m \<noteq> PFuel"
  by (simp_all add: perr_def fail_here_def)

lemma fail_not_POk [simp]: "perr n m \<noteq> POk x s'" "fail_here s m \<noteq> POk x s'"
  by (simp_all add: perr_def fail_here_def)

subsection \<open>Leaves\<close>

lemma finish_with_consumes [consumes]: "finish_with r s = POk e s' \<Longrightarrow> msize s' \<le> msize s"
  by (auto simp: finish_with_def pbind_POk dest: Advance_le)

lemma FinishStringLeaf_consumes [consumes]: "FinishStringLeaf r m s = POk e s' \<Longrightarrow> msize s' \<le> msize s"
  by (auto simp: FinishStringLeaf_def dest: consumes split: if_splits)

lemma FinishEqLeaf_consumes [consumes]: "FinishEqLeaf r s = POk e s' \<Longrightarrow> msize s' \<le> msize s"
  by (auto simp: FinishEqLeaf_def dest: consumes split: TokenKind.splits option.splits)

lemma FinishCompareLeaf_consumes [consumes]: "FinishCompareLeaf r t s = POk e s' \<Longrightarrow> msize s' \<le> msize s"
  by (auto simp: FinishCompareLeaf_def Let_def pbind_POk dest!: Advance_le split: if_splits option.splits)

lemma range_rule_state: "range_rule r a b s = POk e s' \<Longrightarrow> s' = s"
  by (auto simp: range_rule_def Let_def split: option.splits if_splits)

lemma FinishRangeUpper_consumes [consumes]:
  assumes "FinishRangeUpper r a s = POk e s'"
  shows "msize s' \<le> msize s"
proof -
  obtain b s1 s2 t where "(if is_bound_kind (lookahead_kind s)
            then pbind (Advance s) (\<lambda>tok s. POk (Some tok) s) else POk None s) = POk b s1"
    "Advance s1 = POk t s2" "s' = s2"
    using assms by (auto simp: FinishRangeUpper_def pbind_POk dest: range_rule_state split: if_splits)
  then show ?thesis
    by (fastforce simp: pbind_POk dest: Advance_le split: if_splits)
qed

lemma list_loop_consumes [consumes]: "list_loop v b s = POk x s' \<Longrightarrow> msize s' \<le> msize s"
proof (induction v b s rule: list_loop.induct)
  case (1 v b s)
  show ?case
  proof (cases "lookahead_kind s = TkComma")
    case True
    then obtain t1 s1 t2 s2 where a: "Advance s = POk t1 s1" "Advance s1 = POk t2 s2"
      and v: "is_value_kind (lookahead_kind s1)"
      and l: "list_loop (v @ [lookahead_text s1]) (b \<and> isBoolKind (lookahead_kind s1)) s2 = POk x s'"
      using "1.prems" by (auto simp: list_loop.simps [of v b s] pbind_POk split: if_splits)
    have "msize s' \<le> msize s2"
      using "1.IH" [OF True a(1) _ a(2)] v l by simp
    with Advance_twice_less [OF a] True show ?thesis by simp
  next
    case False
    with "1.prems" show ?thesis by (auto simp: list_loop.simps [of v b s])
  qed
qed

lemma FinishListLeaf_consumes [consumes]: "FinishListLeaf r t s = POk e s' \<Longrightarrow> msize s' \<le> msize s"
  by (fastforce simp: FinishListLeaf_def pbind_POk dest: list_loop_consumes Advance_le split: if_splits)

lemma FinishInLeaf_consumes [consumes]: "FinishInLeaf r s = POk e s' \<Longrightarrow> msize s' \<le> msize s"
  by (auto simp: FinishInLeaf_def pbind_POk Let_def dest!: Advance_le FinishListLeaf_consumes
      FinishRangeUpper_consumes split: if_splits)

lemma special_consumes [consumes]:
  "finish_regex r s = POk e s' \<Longrightarrow> msize s' \<le> length (mRest (mLexer s))"
  "finish_wildcard r s = POk e s' \<Longrightarrow> msize s' \<le> length (mRest (mLexer s))"
  "finish_not_in r s = POk e s' \<Longrightarrow> msize s' \<le> length (mRest (mLexer s))"
  by (auto simp: finish_regex_def finish_wildcard_def finish_not_in_def pbind_POk
      dest!: Advance_size AdvanceRegex_size finish_with_consumes split: if_splits)
    (auto simp: msize_def dest!: Advance_le FinishInLeaf_consumes split: if_splits)

lemma after_operator:
  "pbind (Advance s) (\<lambda>_ s. f s) = POk e s' \<Longrightarrow> (\<And>s. f s = POk e s' \<Longrightarrow> msize s' \<le> msize s) \<Longrightarrow>
    msize s' \<le> length (mRest (mLexer s))"
  by (fastforce simp: pbind_POk dest: Advance_size)

lemma parse_operator_consumes [consumes]:
  assumes "parse_operator r s = POk e s'"
  shows "msize s' \<le> length (mRest (mLexer s))"
  using assms
  by (cases "lookahead_kind s")
    (auto simp: parse_operator_def Let_def dest: consumes elim!: after_operator)

lemma ParseLeaf_less:
  assumes "ParseLeaf s = POk e s'"
  shows "msize s' < msize s"
proof -
  obtain t s1 where k: "lookahead_kind s \<noteq> TkEnd" and a: "Advance s = POk t s1"
    and b: "msize s' \<le> length (mRest (mLexer s1))"
    using assms unfolding ParseLeaf_def
    by (auto simp: pbind_POk split: if_splits dest: parse_operator_consumes)
  have "msize s' \<le> msize s1" using b by (simp add: msize_def)
  with Advance_less [OF a k] show ?thesis by simp
qed

lemma finish_with_not_PFuel [never_PFuel]: "finish_with r s \<noteq> PFuel"
  by (auto simp: finish_with_def pbind_PFuel never_PFuel)

lemma FinishStringLeaf_not_PFuel [never_PFuel]: "FinishStringLeaf r m s \<noteq> PFuel"
  by (auto simp: FinishStringLeaf_def never_PFuel)

lemma FinishEqLeaf_not_PFuel [never_PFuel]: "FinishEqLeaf r s \<noteq> PFuel"
  by (auto simp: FinishEqLeaf_def never_PFuel split: TokenKind.splits option.splits)

lemma FinishCompareLeaf_not_PFuel [never_PFuel]: "FinishCompareLeaf r t s \<noteq> PFuel"
  by (auto simp: FinishCompareLeaf_def Let_def pbind_PFuel never_PFuel split: option.splits)

lemma range_rule_not_PFuel [never_PFuel]: "range_rule r a b s \<noteq> PFuel"
  by (auto simp: range_rule_def Let_def never_PFuel split: option.splits)

lemma FinishRangeUpper_not_PFuel [never_PFuel]: "FinishRangeUpper r a s \<noteq> PFuel"
  by (auto simp: FinishRangeUpper_def pbind_PFuel never_PFuel split: if_splits)

lemma list_loop_not_PFuel [never_PFuel]: "list_loop v b s \<noteq> PFuel"
proof (induction v b s rule: list_loop.induct)
  case (1 v b s)
  then show ?case
    by (subst list_loop.simps) (auto simp: pbind_PFuel never_PFuel split: if_splits)
qed

lemma FinishListLeaf_not_PFuel [never_PFuel]: "FinishListLeaf r t s \<noteq> PFuel"
  by (auto simp: FinishListLeaf_def pbind_PFuel never_PFuel split: if_splits)

lemma FinishInLeaf_not_PFuel [never_PFuel]: "FinishInLeaf r s \<noteq> PFuel"
  by (auto simp: FinishInLeaf_def Let_def pbind_PFuel never_PFuel split: if_splits)

lemma special_not_PFuel [never_PFuel]:
  "finish_regex r s \<noteq> PFuel" "finish_wildcard r s \<noteq> PFuel" "finish_not_in r s \<noteq> PFuel"
  by (auto simp: finish_regex_def finish_wildcard_def finish_not_in_def pbind_PFuel never_PFuel split: if_splits)

lemma parse_operator_not_PFuel [never_PFuel]: "parse_operator r s \<noteq> PFuel"
  by (cases "lookahead_kind s") (auto simp: parse_operator_def Let_def pbind_PFuel never_PFuel)

lemma ParseLeaf_not_PFuel [never_PFuel]: "ParseLeaf s \<noteq> PFuel"
  by (auto simp: ParseLeaf_def pbind_PFuel never_PFuel split: if_splits)

subsection \<open>The descent\<close>

lemma descent_less:
  "ParseOr n s = POk e s' \<Longrightarrow> msize s' < msize s"
  "or_loop n cs s = POk e s' \<Longrightarrow> msize s' \<le> msize s"
  "ParseAnd n s = POk e s' \<Longrightarrow> msize s' < msize s"
  "and_loop n cs s = POk e s' \<Longrightarrow> msize s' \<le> msize s"
  "ParseNot n s = POk e s' \<Longrightarrow> msize s' < msize s"
  "ParseAtom n s = POk e s' \<Longrightarrow> msize s' < msize s"
proof (induction n arbitrary: s cs e s')
  case 0
  { case 1 then show ?case by simp }
  { case 2 then show ?case by simp }
  { case 3 then show ?case by simp }
  { case 4 then show ?case by simp }
  { case 5 then show ?case by simp }
  { case 6 then show ?case by simp }
next
  case (Suc n)
  { case 1 then show ?case
      using Suc by (fastforce simp: pbind_POk) }
  { case 2 then show ?case
      using Suc by (fastforce simp: pbind_POk dest: Advance_le split: if_splits) }
  { case 3 then show ?case
      using Suc by (fastforce simp: pbind_POk) }
  { case 4 then show ?case
      using Suc by (fastforce simp: pbind_POk dest: Advance_le split: if_splits) }
  { case 5 then show ?case
      using Suc by (fastforce simp: pbind_POk dest: Advance_le split: if_splits) }
  { case 6 then show ?case
      using Suc by (fastforce simp: pbind_POk dest: Advance_le ParseLeaf_less split: if_splits) }
qed

lemma descent_fuel:
  "4 * msize s + 4 \<le> n \<Longrightarrow> ParseOr n s \<noteq> PFuel"
  "4 * msize s + 1 \<le> n \<Longrightarrow> or_loop n cs s \<noteq> PFuel"
  "4 * msize s + 3 \<le> n \<Longrightarrow> ParseAnd n s \<noteq> PFuel"
  "4 * msize s + 3 \<le> n \<Longrightarrow> and_loop n cs s \<noteq> PFuel"
  "4 * msize s + 2 \<le> n \<Longrightarrow> ParseNot n s \<noteq> PFuel"
  "4 * msize s + 1 \<le> n \<Longrightarrow> ParseAtom n s \<noteq> PFuel"
proof (induction n arbitrary: s cs)
  case 0
  { case 1 then show ?case by simp }
  { case 2 then show ?case by simp }
  { case 3 then show ?case by simp }
  { case 4 then show ?case by simp }
  { case 5 then show ?case by simp }
  { case 6 then show ?case by simp }
next
  case (Suc n)
  have adv: "Advance s = POk t s1 \<Longrightarrow> lookahead_kind s \<noteq> TkEnd \<Longrightarrow> 4 * msize s1 + 4 \<le> 4 * msize s" for s t s1
    using Advance_less [of s t s1] by simp
  have less: "ParseAnd n s = POk e s1 \<Longrightarrow> 4 * msize s1 + 4 \<le> 4 * msize s"
    "ParseNot n s = POk e s1 \<Longrightarrow> 4 * msize s1 + 4 \<le> 4 * msize s" for s e s1
    using descent_less(3,5) [of n s e s1] by simp_all
  { case 1 then show ?case
      using Suc.IH(3) [of s] Suc.IH(2) by (force simp: pbind_PFuel dest: less) }
  { case 2
    have "pbind (ParseAnd n s1) (\<lambda>next. or_loop n (cs @ [next])) \<noteq> PFuel"
      if a: "Advance s = POk t s1" "lookahead_kind s = KwOr" for t s1
      using 2 adv [OF a(1)] a(2) Suc.IH(3) [of s1] Suc.IH(2) by (force simp: pbind_PFuel dest: less)
    then show ?case by (auto simp: pbind_PFuel never_PFuel) }
  { case 3 then show ?case
      using Suc.IH(5) [of s] Suc.IH(4) by (force simp: pbind_PFuel dest: less) }
  { case 4
    have step: "pbind (ParseNot n s1) (\<lambda>next. and_loop n (cs @ [next])) \<noteq> PFuel"
      if "4 * msize s1 \<le> 4 * msize s" for s1
      using 4 that Suc.IH(5) [of s1] Suc.IH(4) by (force simp: pbind_PFuel dest: less)
    then show ?case by (auto simp: pbind_PFuel [of "Advance s"] never_PFuel dest!: Advance_le) }
  { case 5
    have "ParseNot n s1 \<noteq> PFuel" if a: "Advance s = POk t s1" "lookahead_kind s = KwNot" for t s1
      using 5 adv [OF a(1)] a(2) by (intro Suc.IH(5)) simp
    then show ?case using 5 Suc.IH(6) [of s] by (auto simp: pbind_PFuel never_PFuel) }
  { case 6
    have "ParseOr n s1 \<noteq> PFuel" if a: "Advance s = POk t s1" "lookahead_kind s = LParen" for t s1
      using 6 adv [OF a(1)] a(2) by (intro Suc.IH(1)) simp
    then show ?case by (auto simp: pbind_PFuel never_PFuel split: if_splits) }
qed

lemma first_token_msize:
  "Next \<lparr>mPos = p, mRest = input\<rparr> = Inr (t, lx) \<Longrightarrow> msize \<lparr>mLexer = lx, mLookahead = t\<rparr> \<le> length input"
  using Next_size [of "\<lparr>mPos = p, mRest = input\<rparr>" "(t, lx)"] by (auto simp: lexed_size_def msize_def)

lemma Parse_enough_fuel: "query_fuel input \<le> n \<Longrightarrow> Parse n input \<noteq> PFuel"
  by (auto simp: Parse_def Let_def pbind_PFuel never_PFuel query_fuel_def split: sum.splits
      dest!: first_token_msize descent_fuel(1) [THEN notE, rotated])

lemma ParseQuery_no_fuel: "ParseQuery input \<noteq> PFuel"
  by (simp add: ParseQuery_def Parse_enough_fuel)

subsection \<open>More fuel does not change a result\<close>

lemma pbind_mono:
  assumes "pbind m f \<noteq> PFuel" "m \<noteq> PFuel \<Longrightarrow> m' = m"
    and "\<And>x s. m = POk x s \<Longrightarrow> f x s \<noteq> PFuel \<Longrightarrow> f' x s = f x s"
  shows "pbind m' f' = pbind m f"
  using assms by (cases m) auto

lemma descent_mono:
  "ParseOr n s \<noteq> PFuel \<Longrightarrow> ParseOr (Suc n) s = ParseOr n s"
  "or_loop n cs s \<noteq> PFuel \<Longrightarrow> or_loop (Suc n) cs s = or_loop n cs s"
  "ParseAnd n s \<noteq> PFuel \<Longrightarrow> ParseAnd (Suc n) s = ParseAnd n s"
  "and_loop n cs s \<noteq> PFuel \<Longrightarrow> and_loop (Suc n) cs s = and_loop n cs s"
  "ParseNot n s \<noteq> PFuel \<Longrightarrow> ParseNot (Suc n) s = ParseNot n s"
  "ParseAtom n s \<noteq> PFuel \<Longrightarrow> ParseAtom (Suc n) s = ParseAtom n s"
proof (induction n arbitrary: s cs)
  case 0
  { case 1 then show ?case by simp }
  { case 2 then show ?case by simp }
  { case 3 then show ?case by simp }
  { case 4 then show ?case by simp }
  { case 5 then show ?case by simp }
  { case 6 then show ?case by simp }
next
  case (Suc n)
  note step = ParseOr.simps(2) or_loop.simps(2) ParseAnd.simps(2) and_loop.simps(2) ParseNot.simps(2) ParseAtom.simps(2)
  note [simp del] = step
  { case 1
    then show ?case unfolding step(1) [of "Suc n" s] step(1) [of n s] by (rule pbind_mono) (use Suc in auto) }
  { case 2
    then show ?case unfolding step(2) [of "Suc n" cs s] step(2) [of n cs s] by (auto intro!: pbind_mono Suc split: if_splits) }
  { case 3
    then show ?case unfolding step(3) [of "Suc n" s] step(3) [of n s] by (rule pbind_mono) (use Suc in auto) }
  { case 4
    then show ?case unfolding step(4) [of "Suc n" cs s] step(4) [of n cs s] by (auto intro!: pbind_mono Suc split: if_splits) }
  { case 5
    then show ?case unfolding step(5) [of "Suc n" s] step(5) [of n s] by (auto intro!: pbind_mono Suc split: if_splits) }
  { case 6
    then show ?case unfolding step(6) [of "Suc n" s] step(6) [of n s] by (auto intro!: pbind_mono Suc split: if_splits) }
qed

lemma ParseOr_mono: "ParseOr n s \<noteq> PFuel \<Longrightarrow> n \<le> m \<Longrightarrow> ParseOr m s = ParseOr n s"
proof (induction m)
  case (Suc m)
  then show ?case
    using descent_mono(1) [of m s] by (cases "n \<le> m") (auto simp: le_Suc_eq simp del: ParseOr.simps)
qed simp

lemma Parse_fuel_irrelevant:
  assumes "query_fuel input \<le> n"
  shows "Parse n input = ParseQuery input"
proof -
  have "ParseOr n s = ParseOr (query_fuel input) s"
    if "Next \<lparr>mPos = 0, mRest = input\<rparr> = Inr (t, lx)" "s = \<lparr>mLexer = lx, mLookahead = t\<rparr>" for t lx s
    using assms that first_token_msize [OF that(1)]
    by (intro ParseOr_mono descent_fuel(1)) (auto simp: query_fuel_def)
  then show ?thesis
    by (auto simp: ParseQuery_def Parse_def Let_def split: sum.splits)
qed

end
