(* ===== verification/Query_Printer.thy ===== *)
theory Query_Printer
  imports Query_Parser
begin

text \<open>
  The pretty printer of \<open>library/src/query_parser.cpp\<close>: quoting, the printing of a leaf, and
  \<open>FormatExpression\<close>.  The C++ appends to \<open>out\<close>; the definitions return what is appended.
\<close>

text \<open>The parser's own \<open>EqualsIgnoreCaseAscii\<close> (an anonymous-namespace function).\<close>

definition EqualsIgnoreCaseAscii :: "string \<Rightarrow> string \<Rightarrow> bool" where
  "EqualsIgnoreCaseAscii lhs rhs \<longleftrightarrow>
     length lhs = length rhs \<and> list_all2 (\<lambda>l r. tolower l = tolower r) lhs rhs"

definition NeedsQuoting :: "string \<Rightarrow> bool" where
  "NeedsQuoting text \<longleftrightarrow>
     text = [] \<or> \<not> IsIdentStart (hd text) \<or> \<not> list_all IsIdentChar text \<or>
     list_ex (EqualsIgnoreCaseAscii text) [''and'', ''or'', ''not'', ''in'', ''true'', ''false'']"

definition escape :: "char \<Rightarrow> string" where
  "escape ch =
     (if ch = QUOTE then [BACKSLASH, QUOTE]
      else if ch = BACKSLASH then [BACKSLASH, BACKSLASH]
      else if ch = NEWLINE then [BACKSLASH, CHR ''n'']
      else if ch = RETURN then [BACKSLASH, CHR ''r'']
      else if ch = TAB then [BACKSLASH, CHR ''t'']
      else [ch])"

definition QuoteString :: "string \<Rightarrow> string" where
  "QuoteString text = QUOTE # concat (map escape text) @ [QUOTE]"

definition FormatIdent :: "string \<Rightarrow> string" where
  "FormatIdent text = (if NeedsQuoting text then QuoteString text else text)"

definition FormatNumber :: "double \<Rightarrow> string" where
  "FormatNumber value = to_chars value"

definition regex_escape :: "char \<Rightarrow> string" where
  "regex_escape ch = (if ch = CHR ''/'' then [BACKSLASH, CHR ''/''] else [ch])"

definition append_string_leaf :: "Match \<Rightarrow> string \<Rightarrow> string" where
  "append_string_leaf m value =
     (case m of
        Contains \<Rightarrow> '':'' @ FormatIdent value
      | Exactly \<Rightarrow> ''='' @ QuoteString value
      | RegularExpression \<Rightarrow> ''~/'' @ concat (map regex_escape value) @ ''/''
      | Wildcard \<Rightarrow> ''%'' @ QuoteString value)"

definition append_number_leaf :: "double option \<Rightarrow> double option \<Rightarrow> string" where
  "append_number_leaf lo hi =
     (case (lo, hi) of
        (Some a, Some b) \<Rightarrow>
          if d_eq a b then ''='' @ FormatNumber a
          else '' IN ['' @ FormatNumber a @ ''..'' @ FormatNumber b @ '']''
      | (Some a, None) \<Rightarrow> ''>='' @ FormatNumber a
      | (None, Some b) \<Rightarrow> ''<='' @ FormatNumber b
      | (None, None) \<Rightarrow> '' IN []'')"

definition append_time_leaf :: "int option \<Rightarrow> int option \<Rightarrow> string" where
  "append_time_leaf lo hi =
     (case (lo, hi) of
        (Some a, Some b) \<Rightarrow> '' IN ['' @ FormatTimestampMicros a @ ''..'' @ FormatTimestampMicros b @ '']''
      | (Some a, None) \<Rightarrow> ''>='' @ FormatTimestampMicros a
      | (None, Some b) \<Rightarrow> ''<='' @ FormatTimestampMicros b
      | (None, None) \<Rightarrow> '' IN []'')"

definition append_boolean_leaf :: "string list \<Rightarrow> string" where
  "append_boolean_leaf values =
     (let hasTrue = list_ex (\<lambda>v. map tolower v = ''true'') values;
          hasFalse = list_ex (\<lambda>v. map tolower v = ''false'') values
      in if hasTrue \<and> hasFalse then '' IN [true, false]''
         else if hasTrue then ''=true''
         else if hasFalse then ''=false''
         else '' IN []'')"

text \<open>The elements of a list with \<open>sep\<close> between them.\<close>

fun join :: "string \<Rightarrow> string list \<Rightarrow> string" where
  "join sep [] = []"
| "join sep [x] = x"
| "join sep (x # y # ys) = x @ sep @ join sep (y # ys)"

definition AppendLeaf :: "LeafRule \<Rightarrow> string" where
  "AppendLeaf rule =
     (if columnKeys rule = [] then [] else FormatIdent (hd (columnKeys rule))) @
     (case leafType rule of
        TString \<Rightarrow> append_string_leaf
          (case matchType rule of Some m \<Rightarrow> m | None \<Rightarrow> Contains)
          (case filterString rule of Some v \<Rightarrow> v | None \<Rightarrow> [])
      | TNumber \<Rightarrow> append_number_leaf (filterMinValue rule) (filterMaxValue rule)
      | TTime \<Rightarrow> append_time_leaf (filterBegin rule) (filterEnd rule)
      | TBoolean \<Rightarrow> append_boolean_leaf (filterValues rule)
      | TEnumeration \<Rightarrow> '' IN ['' @ join '', '' (map FormatIdent (filterValues rule)) @ '']'')"

datatype Precedence = PrecOr | PrecAnd | PrecNot | PrecAtom

definition prec_rank :: "Precedence \<Rightarrow> nat" where
  "prec_rank p = (case p of PrecOr \<Rightarrow> 0 | PrecAnd \<Rightarrow> 1 | PrecNot \<Rightarrow> 2 | PrecAtom \<Rightarrow> 3)"

definition parens :: "bool \<Rightarrow> string \<Rightarrow> string" where
  "parens needParens s = (if needParens then ''('' @ s @ '')'' else s)"

fun AppendExpression :: "FilterExpression \<Rightarrow> Precedence \<Rightarrow> string" where
  "AppendExpression (FLeaf rule) parent = AppendLeaf rule"
| "AppendExpression (FAnd children) parent =
     (if children = [] then ''*''
      else parens (prec_rank parent > prec_rank PrecAnd)
             (join '' AND '' (map (\<lambda>c. AppendExpression c PrecAnd) children)))"
| "AppendExpression (FOr children) parent =
     (if children = [] then ''()''
      else parens (prec_rank parent > prec_rank PrecOr)
             (join '' OR '' (map (\<lambda>c. AppendExpression c PrecOr) children)))"
| "AppendExpression (FNot None) parent = ''NOT ()''"
| "AppendExpression (FNot (Some child)) parent = ''NOT '' @ AppendExpression child PrecNot"

text \<open>Peels single-child \<open>And\<close> wrappers at the root, short of a match-all child.\<close>

fun peel_root :: "FilterExpression \<Rightarrow> FilterExpression" where
  "peel_root (FAnd [child]) = (if IsMatchAll child then FAnd [child] else peel_root child)"
| "peel_root e = e"

definition FormatExpression :: "FilterExpression \<Rightarrow> string" where
  "FormatExpression expression =
     (if IsMatchAll expression then [] else AppendExpression (peel_root expression) PrecOr)"

end
