(* ===== verification/Query_Tokens.thy ===== *)
theory Query_Tokens
  imports Query_Fuel Query_Printer
begin

text \<open>
  What the lexer makes of the text the printer emits.  \<open>reads w k kd tx\<close>: the text \<open>w\<close>
  followed by \<open>k\<close> is one token of kind \<open>kd\<close> and text \<open>tx\<close>, and the lexer stops in front
  of \<open>k\<close>.  \<open>at k s\<close>: the parser state \<open>s\<close> has the first token of \<open>k\<close> as lookahead.
\<close>

definition reads :: "string \<Rightarrow> string \<Rightarrow> TokenKind \<Rightarrow> string \<Rightarrow> bool" where
  "reads w k kd tx \<longleftrightarrow>
     (\<forall>p. \<exists>q q'. Next \<lparr>mPos = p, mRest = w @ k\<rparr> =
        Inr (\<lparr>tkind = kd, ttext = tx, toffset = q\<rparr>, \<lparr>mPos = q', mRest = k\<rparr>))"

definition lexable :: "string \<Rightarrow> bool" where
  "lexable k \<longleftrightarrow> (\<forall>p. \<exists>r. Next \<lparr>mPos = p, mRest = k\<rparr> = Inr r)"

definition at :: "string \<Rightarrow> Parser \<Rightarrow> bool" where
  "at k s \<longleftrightarrow> (\<exists>p. Next \<lparr>mPos = p, mRest = k\<rparr> = Inr (mLookahead s, mLexer s))"

lemma reads_lexable: "reads w k kd tx \<Longrightarrow> lexable (w @ k)"
  by (fastforce simp: reads_def lexable_def)

lemma at_reads:
  assumes "at (w @ k) s" "reads w k kd tx"
  shows "lookahead_kind s = kd" "lookahead_text s = tx" "\<exists>q. mLexer s = \<lparr>mPos = q, mRest = k\<rparr>"
proof -
  obtain p where p: "Next \<lparr>mPos = p, mRest = w @ k\<rparr> = Inr (mLookahead s, mLexer s)"
    using assms(1) by (auto simp: at_def)
  obtain q q' where "Next \<lparr>mPos = p, mRest = w @ k\<rparr> =
      Inr (\<lparr>tkind = kd, ttext = tx, toffset = q\<rparr>, \<lparr>mPos = q', mRest = k\<rparr>)"
    using assms(2) unfolding reads_def by blast
  with p have "mLookahead s = \<lparr>tkind = kd, ttext = tx, toffset = q\<rparr>" "mLexer s = \<lparr>mPos = q', mRest = k\<rparr>"
    by auto
  then show "lookahead_kind s = kd" "lookahead_text s = tx" "\<exists>q. mLexer s = \<lparr>mPos = q, mRest = k\<rparr>"
    by auto
qed

lemma Advance_at:
  assumes "at (w @ k) s" "reads w k kd tx" "lexable k"
  obtains s' where "Advance s = POk (mLookahead s) s'" "at k s'" "lookahead_kind s = kd" "lookahead_text s = tx"
proof -
  obtain q where q: "mLexer s = \<lparr>mPos = q, mRest = k\<rparr>" using at_reads(3) [OF assms(1,2)] ..
  obtain t lx where n: "Next \<lparr>mPos = q, mRest = k\<rparr> = Inr (t, lx)"
    using assms(3) unfolding lexable_def by (metis surj_pair)
  show thesis
  proof (rule that)
    show "Advance s = POk (mLookahead s) \<lparr>mLexer = lx, mLookahead = t\<rparr>"
      by (simp add: Advance_def shift_token_def q n)
    show "at k \<lparr>mLexer = lx, mLookahead = t\<rparr>" using n by (auto simp: at_def)
  qed (rule at_reads [OF assms(1,2)])+
qed

subsection \<open>Whitespace and the end\<close>

lemma SkipWhitespace_none:
  "s = [] \<or> \<not> isspace (hd s) \<Longrightarrow> SkipWhitespace \<lparr>mPos = p, mRest = s\<rparr> = \<lparr>mPos = p, mRest = s\<rparr>"
  by (cases s) (auto simp: SkipWhitespace_def advance_by_def)

lemma SkipWhitespace_space:
  "SkipWhitespace \<lparr>mPos = p, mRest = CHR '' '' # s\<rparr> = SkipWhitespace \<lparr>mPos = p + 1, mRest = s\<rparr>"
  by (simp add: SkipWhitespace_def advance_by_def byte_simps)

lemma Next_space: "Next \<lparr>mPos = p, mRest = CHR '' '' # s\<rparr> = Next \<lparr>mPos = p + 1, mRest = s\<rparr>"
  by (simp add: Next_def SkipWhitespace_space)

lemma reads_space: "reads w k kd tx \<Longrightarrow> reads (CHR '' '' # w) k kd tx"
  by (simp add: reads_def Next_space)

lemma lexable_space: "lexable k \<Longrightarrow> lexable (CHR '' '' # k)"
  by (simp add: lexable_def Next_space)

lemma Next_Nil: "Next \<lparr>mPos = p, mRest = []\<rparr> = Inr (\<lparr>tkind = TkEnd, ttext = [], toffset = p\<rparr>, \<lparr>mPos = p, mRest = []\<rparr>)"
  by (simp add: Next_def SkipWhitespace_none punct_def advance_by_def)

lemma lexable_Nil: "lexable []"
  by (simp add: lexable_def Next_Nil)

lemma at_Nil: "at [] s \<Longrightarrow> lookahead_kind s = TkEnd"
  by (auto simp: at_def Next_Nil) (metis Token.select_convs(1))

subsection \<open>Punctuation\<close>

lemma reads_punct:
  "reads ''('' k LParen []" "reads '')'' k RParen []" "reads ''['' k LBracket []" "reads '']'' k RBracket []"
  "reads '','' k TkComma []" "reads '':'' k TkColon []" "reads ''='' k TkEq []" "reads ''~'' k TkTilde []"
  "reads ''%'' k TkPercent []" "reads ''>='' k TkGtEq []" "reads ''<='' k TkLtEq []" "reads ''..'' k DotDot []"
  by (auto simp: reads_def Next_def SkipWhitespace_none byte_simps punct_def advance_by_def)

subsection \<open>Words\<close>

definition word_start :: byte_class where
  "word_start ch \<longleftrightarrow> isalnum ch \<or> ch = CHR ''_'' \<or> ch = CHR ''-''"

lemma Next_word:
  assumes "word_start ch"
  shows "Next \<lparr>mPos = p, mRest = ch # s\<rparr> = NextWord \<lparr>mPos = p, mRest = ch # s\<rparr>"
proof -
  have "\<not> isspace ch" using assms by (auto simp: word_start_def byte_simps)
  moreover have "\<forall>c\<in>{QUOTE, CHR ''('', CHR '')'', CHR ''['', CHR '']'', CHR '','', CHR '':'', CHR ''='',
      CHR ''~'', CHR ''%'', CHR ''>'', CHR ''<'', CHR ''.'', CHR ''&'', CHR ''|'', CHR ''!''}. ch \<noteq> c"
    using assms by (auto simp: word_start_def byte_simps)
  ultimately show ?thesis
    by (simp add: Next_def SkipWhitespace_none)
qed

definition ident_ends :: "string \<Rightarrow> bool" where
  "ident_ends k \<longleftrightarrow> k = [] \<or> \<not> IsIdentChar (hd k)"

lemma takeWhile_ident:
  "list_all IsIdentChar t \<Longrightarrow> ident_ends k \<Longrightarrow> takeWhile IsIdentChar (t @ k) = t"
  by (cases k) (auto simp: ident_ends_def list_all_iff takeWhile_append2)

lemma reads_word:
  assumes "t \<noteq> []" "IsIdentStart (hd t)" "list_all IsIdentChar t" "ident_ends k"
  shows "reads t k (keyword_kind (map tolower t)) t"
proof -
  obtain c cs where t: "t = c # cs" using assms(1) by (cases t) auto
  have c: "IsIdentStart c" using assms(2) t by simp
  have "word_start c" using c by (auto simp: word_start_def IsIdentStart_def isalnum_def)
  moreover have "\<not> isdigit c" "c \<noteq> CHR ''+''" "c \<noteq> CHR ''-''"
    using c by (auto simp: IsIdentStart_def byte_simps)
  ultimately have "Next \<lparr>mPos = p, mRest = t @ k\<rparr> = Inr (LexIdent \<lparr>mPos = p, mRest = t @ k\<rparr>)" for p
    using c by (simp add: t Next_word NextWord_def)
  then show ?thesis
    using takeWhile_ident [OF assms(3,4)] by (simp add: reads_def LexIdent_def Let_def advance_by_def)
qed

lemma EqualsIgnoreCaseAscii_lower:
  "EqualsIgnoreCaseAscii a b \<longleftrightarrow> map tolower a = map tolower b"
  by (auto simp: EqualsIgnoreCaseAscii_def list_eq_iff_nth_eq list_all2_conv_all_nth)

lemma keyword_kind_ident:
  "\<not> NeedsQuoting t \<Longrightarrow> keyword_kind (map tolower t) = TkIdent"
  by (auto simp: NeedsQuoting_def keyword_kind_def EqualsIgnoreCaseAscii_lower byte_simps)

lemma reads_ident: "\<not> NeedsQuoting t \<Longrightarrow> ident_ends k \<Longrightarrow> reads t k TkIdent t"
  using reads_word [of t k] keyword_kind_ident [of t] by (auto simp: NeedsQuoting_def)

lemma reads_keywords:
  assumes "ident_ends k"
  shows "reads ''AND'' k KwAnd ''AND''" "reads ''OR'' k KwOr ''OR''" "reads ''NOT'' k KwNot ''NOT''"
    "reads ''IN'' k KwIn ''IN''" "reads ''true'' k TkTrue ''true''" "reads ''false'' k TkFalse ''false''"
proof -
  have kinds: "keyword_kind (map tolower ''AND'') = KwAnd" "keyword_kind (map tolower ''OR'') = KwOr"
    "keyword_kind (map tolower ''NOT'') = KwNot" "keyword_kind (map tolower ''IN'') = KwIn"
    "keyword_kind (map tolower ''true'') = TkTrue" "keyword_kind (map tolower ''false'') = TkFalse"
    by code_simp+
  note word = reads_word [OF _ _ _ assms]
  show "reads ''AND'' k KwAnd ''AND''" "reads ''OR'' k KwOr ''OR''" "reads ''NOT'' k KwNot ''NOT''"
    "reads ''IN'' k KwIn ''IN''" "reads ''true'' k TkTrue ''true''" "reads ''false'' k TkFalse ''false''"
    unfolding kinds [symmetric] by (rule word; simp add: byte_simps IsIdentStart_def IsIdentChar_def)+
qed

subsection \<open>Quoted strings\<close>

lemma quoted_loop_escape:
  "\<exists>n. quoted_loop p b (escape c @ r) = quoted_loop n (b @ [c]) r"
  by (auto simp: escape_def unescape_def)

lemma quoted_loop_escapes:
  "\<exists>n. quoted_loop p b (concat (map escape t) @ r) = quoted_loop n (b @ t) r"
proof (induction t arbitrary: p b)
  case (Cons c t)
  obtain n where "quoted_loop p b (escape c @ concat (map escape t) @ r) = quoted_loop n (b @ [c]) (concat (map escape t) @ r)"
    using quoted_loop_escape by blast
  with Cons.IH [of n "b @ [c]"] show ?case by auto
qed auto

lemma Next_quote: "Next \<lparr>mPos = p, mRest = QUOTE # s\<rparr> = LexQuoted \<lparr>mPos = p, mRest = QUOTE # s\<rparr>"
  by (simp add: Next_def SkipWhitespace_none byte_simps)

lemma reads_quoted: "reads (QuoteString t) k TkQuoted t"
  unfolding reads_def
proof
  fix p
  obtain n where "quoted_loop (p + 1) [] (concat (map escape t) @ QUOTE # k) = Inr (t, \<lparr>mPos = n, mRest = k\<rparr>)"
    using quoted_loop_escapes [of "p + 1" "[]" t "QUOTE # k"] by auto
  then show "\<exists>q q'. Next \<lparr>mPos = p, mRest = QuoteString t @ k\<rparr> =
      Inr (\<lparr>tkind = TkQuoted, ttext = t, toffset = q\<rparr>, \<lparr>mPos = q', mRest = k\<rparr>)"
    by (simp add: QuoteString_def Next_quote LexQuoted_def)
qed

lemma reads_FormatIdent:
  assumes "ident_ends k"
  obtains kd where "reads (FormatIdent t) k kd t" "kd = TkIdent \<or> kd = TkQuoted"
  using reads_ident [OF _ assms] reads_quoted by (metis FormatIdent_def)

end
