(* ===== verification/Iso_Roundtrip.thy ===== *)
theory Iso_Roundtrip
  imports Iso_Time
begin

text \<open>
  The calendar arithmetic of the query parser is exact: \<open>CivilFromDays\<close> and
  \<open>days_from_fields\<close> are inverse to each other on valid dates, and
  \<open>ParseIsoTimestamp\<close> reads back what \<open>FormatTimestampMicros\<close> prints.
\<close>

subsection \<open>Days to civil dates\<close>

lemma div_eqI: "b * q \<le> a \<Longrightarrow> a < b * q + b \<Longrightarrow> 0 < b \<Longrightarrow> a div b = (q::int)"
  by (rule int_div_pos_eq [where r = "a - b * q"]) auto

text \<open>The year of the era, from the century \<open>c\<close>, four-year cycle \<open>g\<close> and day \<open>h\<close> of the cycle.\<close>

definition year_of_era :: "int \<Rightarrow> int" where
  "year_of_era doe = (doe - doe div 1460 + doe div 36524 - doe div 146096) div 365"

lemma year_of_era_cycle:
  assumes "0 \<le> c" "c \<le> 3" "0 \<le> g" "0 \<le> h" "h \<le> 1460" "1461 * g + h < 36524"
    and "0 \<le> t" "t \<le> 3" "365 * t \<le> h" "h < 365 * t + 365 \<or> (t = 3 \<and> h = 1460)"
  shows "year_of_era (36524 * c + 1461 * g + h) = 100 * c + 4 * g + t"
proof -
  let ?d = "36524 * c + 1461 * g + h"
  define b where "b = (if 1460 \<le> 24 * c + g + h then 1 else 0 :: int)"
  have g: "g \<le> 24" using assms by linarith
  have "?d div 36524 = c" using assms by (intro div_eqI) auto
  moreover have "?d div 1460 = 25 * c + g + b"
    using assms g by (intro div_eqI) (auto simp: b_def)
  moreover have "?d div 146096 = 0"
    using assms by (intro div_eqI) auto
  moreover have "(?d - (25 * c + g + b) + c) div 365 = 100 * c + 4 * g + t"
    using assms g by (intro div_eqI) (auto simp: b_def)
  ultimately show ?thesis by (simp add: year_of_era_def)
qed

definition year_days :: "int \<Rightarrow> int" where
  "year_days yoe = 365 * yoe + yoe div 4 - yoe div 100"

text \<open>The day of the (March-based) year is in range, and day 365 occurs in leap years only.\<close>

lemma year_of_era_range:
  assumes "0 \<le> doe" "doe \<le> 146096"
  defines "y \<equiv> year_of_era doe"
  shows "0 \<le> y \<and> y \<le> 399 \<and> 0 \<le> doe - year_days y \<and> doe - year_days y \<le> 365 \<and>
    (doe - year_days y = 365 \<longrightarrow> (y + 1) mod 4 = 0 \<and> ((y + 1) mod 100 \<noteq> 0 \<or> (y + 1) mod 400 = 0))"
proof (cases "doe = 146096")
  case True
  then show ?thesis by (simp add: y_def year_of_era_def year_days_def)
next
  case False
  define c where "c = doe div 36524"
  define g where "g = (doe mod 36524) div 1461"
  define h where "h = (doe mod 36524) mod 1461"
  define t where "t = min 3 (h div 365)"
  have bounds: "0 \<le> c" "c \<le> 3" "0 \<le> g" "0 \<le> h" "h \<le> 1460" "1461 * g + h < 36524"
    and doe: "doe = 36524 * c + 1461 * g + h"
    using assms(1,2) False by (auto simp: c_def g_def h_def)
  have t: "0 \<le> t" "t \<le> 3" "365 * t \<le> h" "h < 365 * t + 365 \<or> (t = 3 \<and> h = 1460)"
    using bounds by (auto simp: t_def)
  have y: "y = 100 * c + 4 * g + t"
    unfolding y_def doe using bounds t by (rule year_of_era_cycle)
  have "g \<le> 24" using bounds by linarith
  have y4: "y div 4 = 25 * c + g" and y100: "y div 100 = c"
    unfolding y using bounds t \<open>g \<le> 24\<close> by (auto intro!: div_eqI)
  have doy: "doe - year_days y = h - 365 * t"
    by (simp add: year_days_def y4 y100) (simp add: y doe)
  have leap: "(y + 1) mod 4 = 0 \<and> (y + 1) mod 100 \<noteq> 0" if "h - 365 * t = 365"
  proof -
    have "t = 3" "h = 1460" using that t(4) bounds by auto
    then have "g \<le> 23" using bounds by linarith
    have y1: "y + 1 = 4 * (25 * c + g + 1)" "y + 1 = 100 * c + (4 * g + 4)"
      using y \<open>t = 3\<close> by auto
    have "(y + 1) mod 100 = 4 * g + 4"
      unfolding y1(2) using \<open>g \<le> 23\<close> bounds by simp
    with y1(1) bounds show ?thesis by simp
  qed
  show ?thesis
    unfolding doy using y bounds t \<open>g \<le> 24\<close> leap by auto
qed

text \<open>The months of the March-based year, by evaluation over its 366 days.\<close>

definition month_of :: "int \<Rightarrow> int" where
  "month_of doy = (5 * doy + 2) div 153"

definition month_table_ok :: "int \<Rightarrow> bool" where
  "month_table_ok doy \<longleftrightarrow>
     (let mp = month_of doy; d = doy - (153 * mp + 2) div 5 + 1; m = mp + (if mp < 10 then 3 else -9)
      in 0 \<le> mp \<and> mp \<le> 11 \<and> 1 \<le> d \<and>
         (if m = 2 then d \<le> 28 \<or> doy = 365 \<and> d = 29
          else d \<le> [31, 28, 31, 30, 31, 30, 31, 31, 30, 31, 30, 31] ! nat (m - 1)))"

lemma month_table: "0 \<le> doy \<Longrightarrow> doy \<le> 365 \<Longrightarrow> month_table_ok doy"
proof -
  assume "0 \<le> doy" "doy \<le> 365"
  moreover have "list_all month_table_ok [0..365]" by code_simp
  ultimately show ?thesis by (simp add: list_all_iff)
qed

lemma CivilFromDays_unfold:
  fixes z :: int
  defines "era \<equiv> (z + 719468) div 146097" and "doe \<equiv> (z + 719468) mod 146097"
  defines "yoe \<equiv> year_of_era doe"
  defines "doy \<equiv> doe - year_days yoe"
  defines "m \<equiv> month_of doy + (if month_of doy < 10 then 3 else -9)"
  shows "CivilFromDays z =
    \<lparr>cd_year = yoe + era * 400 + (if m \<le> 2 then 1 else 0), cd_month = m,
     cd_day = doy - (153 * month_of doy + 2) div 5 + 1\<rparr>"
proof -
  have era: "(if z + 719468 \<ge> 0 then z + 719468 else z + 719468 - 146096) sdiv 146097 = era"
    by (auto simp: era_def signed_divide_int_def sgn_if)
  have doe: "z + 719468 - era * 146097 = doe"
    by (simp add: era_def doe_def minus_div_mult_eq_mod)
  show ?thesis
    unfolding CivilFromDays_def Let_def era doe
    by (simp add: m_def doy_def yoe_def month_of_def year_days_def year_of_era_def)
qed

lemma floor_sdiv: "0 < b \<Longrightarrow> (if 0 \<le> a then a else a - (b - 1)) sdiv b = a div (b::int)"
proof (cases "0 \<le> a")
  case False
  assume b: "0 < b"
  have "(a - (b - 1)) sdiv b = - (((b - 1) - a) div b)"
    using False b by (simp add: signed_divide_int_def sgn_if)
  also have "((b - 1) - a) div b = - (a div b)"
  proof (rule div_eqI)
    have "a = b * (a div b) + a mod b" "a mod b < b" "0 \<le> a mod b" using b by simp_all
    then show "b * - (a div b) \<le> b - 1 - a" "b - 1 - a < b * - (a div b) + b"
      by linarith+
  qed (rule b)
  finally show ?thesis using False by simp
qed (auto simp: signed_divide_int_def sgn_if)

lemma CivilFromDays_valid:
  fixes z :: int
  defines "c \<equiv> CivilFromDays z"
  shows "1 \<le> cd_month c" "cd_month c \<le> 12" "1 \<le> cd_day c"
    "cd_day c \<le> DaysInMonth (cd_year c) (cd_month c)"
    "days_from_fields (cd_year c) (cd_month c) (cd_day c) = z"
proof -
  define era doe where "era = (z + 719468) div 146097" and "doe = (z + 719468) mod 146097"
  define yoe where "yoe = year_of_era doe"
  define doy where "doy = doe - year_days yoe"
  define mp where "mp = month_of doy"
  define m where "m = mp + (if mp < 10 then 3 else -9)"
  define y where "y = yoe + era * 400"
  define d where "d = doy - (153 * mp + 2) div 5 + 1"
  have c: "c = \<lparr>cd_year = y + (if m \<le> 2 then 1 else 0), cd_month = m, cd_day = d\<rparr>"
    unfolding c_def CivilFromDays_unfold
    by (simp add: era_def doe_def yoe_def doy_def mp_def m_def y_def d_def)
  have range: "0 \<le> yoe \<and> yoe \<le> 399 \<and> 0 \<le> doy \<and> doy \<le> 365 \<and>
      (doy = 365 \<longrightarrow> (yoe + 1) mod 4 = 0 \<and> ((yoe + 1) mod 100 \<noteq> 0 \<or> (yoe + 1) mod 400 = 0))"
    unfolding yoe_def doy_def by (rule year_of_era_range) (auto simp: doe_def)
  then have tab: "month_table_ok doy" by (intro month_table) auto
  then have mp: "0 \<le> mp" "mp \<le> 11" and d1: "1 \<le> d"
    and dm: "if m = 2 then d \<le> 28 \<or> doy = 365 \<and> d = 29
          else d \<le> [31, 28, 31, 30, 31, 30, 31, 31, 30, 31, 30, 31] ! nat (m - 1)"
    unfolding month_table_ok_def Let_def mp_def[symmetric] m_def[symmetric] d_def[symmetric]
    by safe
  show m: "1 \<le> cd_month c" "cd_month c \<le> 12" and "1 \<le> cd_day c"
    using mp d1 by (auto simp: c m_def)
  have leap: "(y + 1) mod 4 = 0 \<and> ((y + 1) mod 100 \<noteq> 0 \<or> (y + 1) mod 400 = 0)" if "doy = 365"
  proof -
    have "y + 1 = (yoe + 1) + 4 * (100 * era)" "y + 1 = (yoe + 1) + 100 * (4 * era)" "y + 1 = (yoe + 1) + 400 * era"
      by (simp_all add: y_def)
    then have "(y + 1) mod 4 = (yoe + 1) mod 4" "(y + 1) mod 100 = (yoe + 1) mod 100" "(y + 1) mod 400 = (yoe + 1) mod 400"
      by (metis mod_mult_self2)+
    with that range show ?thesis by simp
  qed
  show "cd_day c \<le> DaysInMonth (cd_year c) (cd_month c)"
    using m dm leap by (auto simp: c DaysInMonth_def split: if_splits)
  have mshift: "m + (if m > 2 then -3 else 9) = mp" using mp by (auto simp: m_def)
  have "(if y \<ge> 0 then y else y - 399) sdiv 400 = era"
  proof -
    have "y div 400 = era" using range by (simp add: y_def div_eqI)
    with floor_sdiv [of 400 y] show ?thesis by (simp split: if_splits)
  qed
  moreover have "year_days yoe + doy + era * 146097 - 719468 = z"
    by (simp add: doy_def doe_def era_def mod_div_mult_eq)
  ultimately show "days_from_fields (cd_year c) (cd_month c) (cd_day c) = z"
    using mshift
    by (simp add: c days_from_fields_def Let_def d_def year_days_def)
      (simp add: y_def algebra_simps)
qed

lemma DaysInMonth_le: "DaysInMonth y m \<le> 31"
proof -
  have "list_all (\<lambda>m. DaysInMonth 1 m \<le> 31) [1..12]" by code_simp
  then have "m \<in> {1..12} \<Longrightarrow> DaysInMonth 1 m \<le> 31" by (simp add: list_all_iff)
  then show ?thesis by (auto simp: DaysInMonth_def split: if_splits)
qed

subsection \<open>Fixed-width decimal fields\<close>

fun digs :: "nat \<Rightarrow> nat \<Rightarrow> string" where
  "digs 0 v = []"
| "digs (Suc n) v = digs n (v div 10) @ [digit_char (v mod 10)]"

lemma length_digs [simp]: "length (digs n v) = n"
  by (induction n arbitrary: v) auto

lemma digs_isdigit: "list_all isdigit (digs n v)"
  by (induction n arbitrary: v) auto

lemma digits_nat_append: "digits_nat a (xs @ ys) = digits_nat (digits_nat a xs) ys"
  by (induction a xs rule: digits_nat.induct) auto

lemma digits_nat_digs: "digits_nat 0 (digs n v) = v mod 10 ^ n"
proof (induction n arbitrary: v)
  case (Suc n)
  have "v mod (10 * 10 ^ n) = 10 * (v div 10 mod 10 ^ n) + v mod 10"
    by (rule mod_mult2_eq)
  with Suc show ?case by (simp add: digits_nat_append)
qed simp

lemma digs_0: "digs n 0 = replicate n (CHR ''0'')"
proof -
  have "digit_char 0 = CHR ''0''" by code_simp
  then show ?thesis by (induction n) (auto simp: replicate_append_same)
qed

lemma show_nat_digs: "v < 10 ^ n \<Longrightarrow> 0 < n \<Longrightarrow>
   length (show_nat v) \<le> n \<and> replicate (n - length (show_nat v)) (CHR ''0'') @ show_nat v = digs n v"
proof (induction n arbitrary: v)
  case (Suc n)
  show ?case
  proof (cases "v < 10")
    case True
    then show ?thesis by (simp add: show_nat.simps [of v] digs_0)
  next
    case False
    then have "v div 10 < 10 ^ n" "0 < n" using Suc.prems by (auto intro: Nat.gr0I)
    from Suc.IH [OF this] show ?thesis
      by (simp add: show_nat.simps [of v] False flip: append_assoc)
  qed
qed simp

lemma pad_zeros_digs: "0 \<le> i \<Longrightarrow> i < 10 ^ n \<Longrightarrow> 0 < n \<Longrightarrow> pad_zeros n i = digs n (nat i)"
  using show_nat_digs [of "nat i" n] by (simp add: pad_zeros_def to_string_def Let_def nat_less_iff)

subsection \<open>Printing and re-reading a timestamp\<close>

lemma trunc_to_floor:
  fixes a b :: int
  assumes "0 < b"
  shows "(if a smod b < 0 then a sdiv b - 1 else a sdiv b) = a div b"
    and "(if a smod b < 0 then a smod b + b else a smod b) = a mod b"
proof -
  have pos: "a sdiv b = a div b" "a smod b = a mod b" if "0 \<le> a"
    using that assms by (auto simp: signed_divide_int_def signed_modulo_int_def sgn_if)
  have neg: "a sdiv b = - ((- a) div b)" "a smod b = - ((- a) mod b)" if "a < 0"
    using that assms by (auto simp: signed_divide_int_def signed_modulo_int_def sgn_if)
  have neq: "a mod b \<noteq> b" using pos_mod_bound [OF assms, of a] by linarith
  show "(if a smod b < 0 then a sdiv b - 1 else a sdiv b) = a div b"
    using assms pos neg neq pos_mod_sign [of b "- a"]
    by (cases "a < 0") (auto simp: zdiv_zminus1_eq_if zmod_zminus1_eq_if not_less)
  show "(if a smod b < 0 then a smod b + b else a smod b) = a mod b"
    using assms pos neg neq pos_mod_sign [of b "- a"] pos_mod_sign [of b a]
    by (cases "a < 0") (auto simp: zmod_zminus1_eq_if not_less)
qed

definition iso_text :: "nat \<Rightarrow> nat \<Rightarrow> nat \<Rightarrow> nat \<Rightarrow> nat \<Rightarrow> nat \<Rightarrow> nat \<Rightarrow> string" where
  "iso_text y mo d h mi s f = digs 4 y @ ''-'' @ digs 2 mo @ ''-'' @ digs 2 d @ ''T'' @
     digs 2 h @ '':'' @ digs 2 mi @ '':'' @ digs 2 s @ ''.'' @ digs 6 f @ ''Z''"

definition day_of :: "int \<Rightarrow> int" where
  "day_of micros = micros div 1000000 div 86400"

definition formattable :: "int \<Rightarrow> bool" where
  "formattable micros \<longleftrightarrow>
     0 \<le> cd_year (CivilFromDays (day_of micros)) \<and> cd_year (CivilFromDays (day_of micros)) \<le> 9999"

lemma Format_iso_text:
  fixes m :: int
  defines "c \<equiv> CivilFromDays (day_of m)" and "s \<equiv> m div 1000000 mod 86400"
  assumes "formattable m"
  shows "FormatTimestampMicros m = iso_text (nat (cd_year c)) (nat (cd_month c)) (nat (cd_day c))
     (nat (s div 3600)) (nat (s mod 3600 div 60)) (nat (s mod 60)) (nat (m mod 1000000))"
proof -
  have y: "0 \<le> cd_year c" "cd_year c < 10 ^ 4" using assms by (auto simp: formattable_def)
  have mo: "0 \<le> cd_month c" "cd_month c < 10 ^ 2"
    using CivilFromDays_valid(1,2) [of "day_of m"] by (auto simp: c_def)
  have "DaysInMonth (cd_year c) (cd_month c) \<le> 31"
    using DaysInMonth_le by auto
  then have d: "0 \<le> cd_day c" "cd_day c < 10 ^ 2"
    using CivilFromDays_valid(3,4) [of "day_of m"] by (auto simp: c_def)
  have s: "0 \<le> s" "s < 86400" by (auto simp: s_def)
  then have hms: "0 \<le> s div 3600" "s div 3600 < 10 ^ 2" "0 \<le> s mod 3600 div 60" "s mod 3600 div 60 < 10 ^ 2"
    "0 \<le> s mod 60" "s mod 60 < 10 ^ 2"
    using pos_mod_bound [of 3600 s] pos_mod_bound [of 60 s] by (auto simp: pos_imp_zdiv_nonneg_iff)
  have year: "\<not> (cd_year c < 0 \<or> cd_year c > 9999)" using y by simp
  note pads = pad_zeros_digs [OF y] pad_zeros_digs [OF mo] pad_zeros_digs [OF d]
    pad_zeros_digs [OF hms(1,2)] pad_zeros_digs [OF hms(3,4)] pad_zeros_digs [OF hms(5,6)]
  have micros: "pad_zeros 6 (m mod 1000000) = digs 6 (nat (m mod 1000000))"
    by (rule pad_zeros_digs) simp_all
  show ?thesis
    unfolding FormatTimestampMicros_def Let_def trunc_to_floor [of 1000000, simplified]
      trunc_to_floor [of 86400, simplified] day_of_def [symmetric] c_def [symmetric] s_def [symmetric]
      if_not_P [OF year] iso_text_def micros
    by (simp only: pads zero_less_numeral)
qed

lemma iso_text_reads:
  fixes y mo d h mi s f :: nat
  defines "t \<equiv> iso_text y mo d h mi s f"
  shows "length t = 27" "take 4 t = digs 4 y" "t ! 4 = CHR ''-''" "t ! 7 = CHR ''-''" "t ! 10 = CHR ''T''"
    "t ! 13 = CHR '':''" "t ! 16 = CHR '':''" "t ! 19 = CHR ''.''" "t ! 26 = CHR ''Z''"
    "drop 20 t = digs 6 f @ ''Z''"
    "take 2 (drop 5 t) = digs 2 mo" "take 2 (drop 8 t) = digs 2 d" "take 2 (drop 11 t) = digs 2 h"
    "take 2 (drop 14 t) = digs 2 mi" "take 2 (drop 17 t) = digs 2 s"
  by (simp_all add: t_def iso_text_def nth_append)

lemma readInt_digs:
  "take w (drop k t) = digs w v \<Longrightarrow> k + w \<le> length t \<Longrightarrow> v < 10 ^ w \<Longrightarrow> readInt t k w = Some (int v)"
  by (simp add: readInt_def digs_isdigit digits_nat_digs)

lemma digits_nat_acc: "digits_nat v ds = digits_nat 0 ds + v * 10 ^ length ds"
proof (induction ds arbitrary: v)
  case (Cons a ds)
  show ?case
    unfolding digits_nat.simps Cons.IH [of "10 * v + digit_value a"] Cons.IH [of "10 * 0 + digit_value a"]
    by (simp add: algebra_simps)
qed simp

lemma fraction_loop_digits:
  "list_all isdigit ds \<Longrightarrow> denom * 10 ^ length ds \<le> 10000000 \<Longrightarrow> 0 < denom \<Longrightarrow> \<not> isdigit c \<Longrightarrow>
   fraction_loop (ds @ c # cs) fr denom
     = (int (digits_nat 0 ds) + fr * 10 ^ length ds, denom * 10 ^ length ds)"
proof (induction ds arbitrary: fr denom)
  case (Cons a ds)
  have "denom * 1 \<le> denom * 10 ^ length ds"
    by (rule mult_left_mono) (use Cons.prems in auto)
  moreover have "denom * 10 ^ length ds \<le> 1000000" using Cons.prems by simp
  ultimately have "denom < 10000000" by linarith
  moreover have "int (digits_nat (digit_value a) ds) =
      int (digits_nat 0 ds) + int (digit_value a) * 10 ^ length ds"
    by (subst digits_nat_acc) (simp only: of_nat_add of_nat_mult of_nat_power of_nat_numeral)
  ultimately show ?case
    using Cons by (simp add: algebra_simps)
qed simp

lemma parse_iso_text:
  assumes "y < 10 ^ 4" "1 \<le> mo" "mo \<le> 12" "1 \<le> d" "int d \<le> DaysInMonth (int y) (int mo)"
    and "h < 24" "mi < 60" "s < 60" "f < 10 ^ 6"
  shows "ParseIsoTimestamp (iso_text y mo d h mi s f) =
    Some ((days_from_fields (int y) (int mo) (int d) * 86400 + int h * 3600 + int mi * 60 + int s) * 1000000
          + int f)"
proof -
  let ?t = "iso_text y mo d h mi s f"
  note r = iso_text_reads [of y mo d h mi s f]
  have d: "d < 10 ^ 2" using assms DaysInMonth_le [of "int y" "int mo"] by simp
  have frac: "parse_fraction ?t 19 = (int f, 26)"
  proof -
    have "fraction_loop (drop 20 ?t) 0 1 = (int f, 1000000)"
      unfolding r(10) using assms fraction_loop_digits [of "digs 6 f" 1 "CHR ''Z''" "[]" 0]
      by (simp add: digs_isdigit digits_nat_digs isdigit_def)
    moreover have "skip_while isdigit 20 ?t = 26"
      using digs_isdigit [of 6 f] by (simp add: skip_while_def r(10) list_all_iff takeWhile_append isdigit_def)
    ultimately show ?thesis by (simp add: parse_fraction_def r)
  qed
  have zone: "parse_zone ?t 26 = Some (0, 27)" by (simp add: parse_zone_def r)
  have "parse_time_of_day ?t 11 = Some (int h, int mi, int s, int f, 0, 27)"
    using assms
    by (simp add: parse_time_of_day_def r frac zone
        readInt_digs [OF r(13)] readInt_digs [OF r(14)] readInt_digs [OF r(15)])
  moreover have "readInt ?t 0 4 = Some (int y)" using assms r readInt_digs [of 4 0 ?t y] by simp
  moreover have "readInt ?t 5 2 = Some (int mo)" using assms by (simp add: r readInt_digs [OF r(11)])
  moreover have "readInt ?t 8 2 = Some (int d)" using d by (simp add: r readInt_digs [OF r(12)])
  moreover have "StartsWithDigitYear ?t" by (simp add: StartsWithDigitYear_def r digs_isdigit)
  ultimately show ?thesis
    using assms by (simp add: ParseIsoTimestamp_def r)
qed

lemma Parse_Format_timestamp:
  assumes "formattable m"
  shows "ParseIsoTimestamp (FormatTimestampMicros m) = Some m"
proof -
  define c s where "c = CivilFromDays (day_of m)" and "s = m div 1000000 mod 86400"
  note v = CivilFromDays_valid [of "day_of m", folded c_def]
  have y: "0 \<le> cd_year c" "cd_year c \<le> 9999" using assms by (auto simp: formattable_def c_def)
  have "0 \<le> s" "s < 86400" by (auto simp: s_def)
  then have hms: "0 \<le> s div 3600" "s div 3600 < 24" "0 \<le> s mod 3600 div 60" "s mod 3600 div 60 < 60"
    "0 \<le> s mod 60" "s mod 60 < 60"
    by (auto simp: pos_imp_zdiv_nonneg_iff)
  have split: "s div 3600 * 3600 + s mod 3600 div 60 * 60 + s mod 60 = s"
    using div_mult_mod_eq [of s 3600] div_mult_mod_eq [of "s mod 3600" 60]
    unfolding mod_mod_cancel [of 60 3600 s, simplified] by linarith
  have days: "days_from_fields (cd_year c) (cd_month c) (cd_day c) = day_of m" by (rule v(5))
  have dm: "int (nat (cd_year c)) = cd_year c" "int (nat (cd_month c)) = cd_month c" "int (nat (cd_day c)) = cd_day c"
    using y v(1,3) by simp_all
  have "ParseIsoTimestamp (FormatTimestampMicros m) =
     Some ((day_of m * 86400 + int (nat (s div 3600)) * 3600 + int (nat (s mod 3600 div 60)) * 60 +
            int (nat (s mod 60))) * 1000000 + int (nat (m mod 1000000)))"
    unfolding Format_iso_text [OF assms] c_def [symmetric] s_def [symmetric]
    by (subst parse_iso_text)
      (use y(2) v(1,2,3) hms(2,4,6) in \<open>simp_all only: dm days v(4) nat_less_iff\<close>, simp_all add: nat_le_iff)
  also have "\<dots> = Some ((day_of m * 86400 + s) * 1000000 + m mod 1000000)"
    using hms split by (simp only: nat_0_le pos_mod_sign zero_less_numeral add.assoc)
  also have "day_of m * 86400 + s = m div 1000000"
    by (simp add: s_def day_of_def)
  also have "m div 1000000 * 1000000 + m mod 1000000 = m" by (rule div_mult_mod_eq)
  finally show ?thesis .
qed

end
