(* ===== verification/Log_Data.thy ===== *)
theory Log_Data
  imports Log_Line
begin

text \<open>
  \<open>library/src/log_data.cpp\<close>: the sources, lines and keys of a session.  A line's pointer to its
  source is the index of the source in \<open>ldSources\<close>; the lines' pointer to the key index is
  \<open>ldKeys\<close> itself, so that \<open>RebindKeys\<close> has nothing to do.  \<open>Merge\<close> takes over the lines of
  another session and renumbers their keys.
\<close>

record LogData =
  ldSources :: "LineSource list"
  ldLines :: "(LogLine \<times> nat) list"
  ldKeys :: KeyIndex
  ldTimestampsAlreadyParsed :: bool

definition new_LogData :: LogData where
  "new_LogData = \<lparr>ldSources = [], ldLines = [], ldKeys = empty_KeyIndex, ldTimestampsAlreadyParsed = False\<rparr>"

definition LogData_of :: "LineSource option \<Rightarrow> LogLine list \<Rightarrow> KeyIndex \<Rightarrow> LogData" where
  "LogData_of source logLines ks =
     \<lparr>ldSources = (case source of None \<Rightarrow> [] | Some src \<Rightarrow> [src]), ldLines = map (\<lambda>l. (l, 0)) logLines,
      ldKeys = ks, ldTimestampsAlreadyParsed = False\<rparr>"

text \<open>The accessors that look for a source of one kind return its index.\<close>

definition is_file :: "LineSource \<Rightarrow> bool" where
  "is_file src = (case impl src of FileSource _ \<Rightarrow> True | StreamSource _ \<Rightarrow> False)"

definition FrontFileSource :: "LogData \<Rightarrow> nat option" where
  "FrontFileSource d =
     (if ldSources d = [] then None else if is_file (hd (ldSources d)) then Some 0 else None)"

definition FrontStreamSource :: "LogData \<Rightarrow> nat option" where
  "FrontStreamSource d =
     (if ldSources d = [] then None else if is_file (hd (ldSources d)) then None else Some 0)"

definition back_source :: "(LineSource \<Rightarrow> bool) \<Rightarrow> LogData \<Rightarrow> nat option" where
  "back_source P d = find (\<lambda>i. P (ldSources d ! i)) (rev [0..<length (ldSources d)])"

definition BackFileSource :: "LogData \<Rightarrow> nat option" where
  "BackFileSource = back_source is_file"

definition BackStreamSource :: "LogData \<Rightarrow> nat option" where
  "BackStreamSource = back_source (\<lambda>src. \<not> is_file src)"

definition MarkTimestampsParsed :: "LogData \<Rightarrow> LogData" where
  "MarkTimestampsParsed d = d\<lparr>ldTimestampsAlreadyParsed := True\<rparr>"

section \<open>Merging\<close>

text \<open>The remap table: the id in the own index for each id of the other one, in order.\<close>

fun remap_table :: "(string \<Rightarrow> 64 word) \<Rightarrow> string list \<Rightarrow> KeyIndex \<Rightarrow> KeyId list \<times> KeyIndex" where
  "remap_table hash [] ki = ([], ki)"
| "remap_table hash (key # ks) ki =
     (let (kid, ki1) = GetOrInsert hash key ki; (ids, ki2) = remap_table hash ks ki1 in (kid # ids, ki2))"

definition remap_line :: "KeyId list \<Rightarrow> LogLine \<Rightarrow> LogLine" where
  "remap_line remap line =
     LogLine_compact (sort_key fst (map (\<lambda>(k, c). (remap ! unat k, c)) (mData (mFields line)))) (mLineId line)"

definition Merge :: "(string \<Rightarrow> 64 word) \<Rightarrow> LogData \<Rightarrow> LogData \<Rightarrow> LogData" where
  "Merge hash other d =
     (let n = length (ldSources d);
          otherKeys = map (\<lambda>i. reverse_keys (ldKeys other) ! i) [0..<Size_keys (ldKeys other)];
          (remap, ki) = remap_table hash otherKeys (ldKeys d)
      in \<lparr>ldSources = ldSources d @ ldSources other,
          ldLines = ldLines d @ map (\<lambda>(line, i). (remap_line remap line, n + i)) (ldLines other),
          ldKeys = ki,
          ldTimestampsAlreadyParsed = (ldTimestampsAlreadyParsed other \<or> ldTimestampsAlreadyParsed d)\<rparr>)"

section \<open>Appending a batch\<close>

definition on_file :: "(LogFile \<Rightarrow> LogFile) \<Rightarrow> LineSource \<Rightarrow> LineSource" where
  "on_file f src = (case impl src of FileSource file \<Rightarrow> src\<lparr>impl := FileSource (f file)\<rparr> | StreamSource _ \<Rightarrow> src)"

text \<open>\<open>multiLineSpans\<close> are pairs of the header's and the last line's id; a batch with offsets and no
  file source trips an assertion and, in a release build, drops the offsets.\<close>

definition AppendBatch :: "(LogLine \<times> nat) list \<Rightarrow> nat list \<Rightarrow> (nat \<times> nat) list \<Rightarrow> LogData \<Rightarrow> LogData" where
  "AppendBatch batch lineOffsets multiLineSpans d0 =
     (let d = d0\<lparr>ldLines := ldLines d0 @ batch\<rparr> in
      if lineOffsets = [] \<and> multiLineSpans = [] then d
      else case BackFileSource d of
        None \<Rightarrow> d
      | Some i \<Rightarrow>
          let register = fold (\<lambda>(headerLineId, lastLineId). RegisterMultiLineRecord headerLineId lastLineId) multiLineSpans;
              grow = (\<lambda>f. register (if lineOffsets = [] then f else AppendLineOffsets lineOffsets f))
          in d\<lparr>ldSources := (ldSources d)[i := on_file grow (ldSources d ! i)]\<rparr>)"

section \<open>What merging keeps\<close>

lemma key_inv_distinct:
  assumes "key_inv hash ki"
  shows "distinct (reverse_keys ki)"
  unfolding distinct_conv_nth
proof (intro allI impI)
  fix i j assume ij: "i < length (reverse_keys ki)" "j < length (reverse_keys ki)" "i \<noteq> j"
  have n: "length (reverse_keys ki) < 2 ^ 32" using assms by (simp add: key_inv_def)
  have "unat (word_of_nat i :: KeyId) = i" "unat (word_of_nat j :: KeyId) = j"
    using ij n by (auto intro!: unat_length_id)
  moreover from this have "KeyOf (word_of_nat i) ki = Some (reverse_keys ki ! i)" "KeyOf (word_of_nat j) ki = Some (reverse_keys ki ! j)"
    using ij by (simp_all add: KeyOf_def)
  ultimately show "reverse_keys ki ! i \<noteq> reverse_keys ki ! j"
    using ij(3) key_inv_probe [OF assms] by (metis option.inject)
qed

abbreviation inserted :: "(string \<Rightarrow> 64 word) \<Rightarrow> string list \<Rightarrow> KeyIndex \<Rightarrow> KeyIndex" where
  "inserted hash \<equiv> fold (\<lambda>k ki. snd (GetOrInsert hash k ki))"

lemma remap_table_index: "snd (remap_table hash ks ki) = inserted hash ks ki"
  by (induction ks arbitrary: ki) (simp_all add: case_prod_beta Let_def)

lemma remap_table_length [simp]: "length (fst (remap_table hash ks ki)) = length ks"
  by (induction ks arbitrary: ki) (simp_all add: case_prod_beta Let_def)

lemma remap_table_ids:
  assumes "key_inv hash ki" "room_for (key_room hash) (\<lambda>k ki. snd (GetOrInsert hash k ki)) ks ki" "i < length ks"
  shows "probe hash (ks ! i) (inserted hash ks ki) = Some (fst (remap_table hash ks ki) ! i)"
  using assms
proof (induction ks arbitrary: ki i)
  case (Cons k ks)
  let ?ki = "snd (GetOrInsert hash k ki)"
  have inv: "key_inv hash ?ki" and room: "room_for (key_room hash) (\<lambda>k ki. snd (GetOrInsert hash k ki)) ks ?ki"
    using Cons.prems keys.inv_insert by auto
  show ?case
  proof (cases i)
    case 0
    have "probe hash k ?ki = Some (fst (GetOrInsert hash k ki))"
      by (rule probe_GetOrInsert(1) [OF Cons.prems(1)])
    then show ?thesis
      using keys.lookup_inserts [OF inv room] 0 by (simp add: case_prod_beta Let_def)
  next
    case (Suc j)
    then show ?thesis using Cons.IH [OF inv room, of j] Cons.prems(3) by (simp add: case_prod_beta Let_def)
  qed
qed simp

text \<open>The fields of a line use ids of the index, and are sorted.\<close>

definition line_of :: "KeyIndex \<Rightarrow> LogLine \<Rightarrow> bool" where
  "line_of ki line \<longleftrightarrow> sorted_fields (mData (mFields line)) \<and> (\<forall>(k, c)\<in>set (mData (mFields line)). KeyOf k ki \<noteq> None)"

lemma find_compact_Some:
  "sorted_fields fs \<Longrightarrow> find_compact kid fs = Some c \<longleftrightarrow> (kid, c) \<in> set fs"
  by (subst find_compact_map_of, assumption, rule map_of_eq_Some_iff)
    (simp add: sorted_fields_def strict_sorted_iff)

lemma sorted_fields_sort:
  "distinct (map fst fs) \<Longrightarrow> sorted_fields (sort_key fst fs)"
  by (simp add: sorted_fields_def strict_sorted_iff distinct_map inj_on_def)

lemma option_eqI: "(\<And>c. x = Some c \<longleftrightarrow> y = Some c) \<Longrightarrow> x = y"
  by (cases x; cases y) auto

lemma remap_line_data:
  "mData (mFields (remap_line remap line)) = sort_key fst (map (\<lambda>(k, c). (remap ! unat k, c)) (mData (mFields line)))"
  by (simp add: remap_line_def LogLine_compact_def AssignSorted_def Let_def)

lemma remap_line_sorted:
  assumes "sorted_fields (mData (mFields line))" "inj_on (\<lambda>k. remap ! unat k) (fst ` set (mData (mFields line)))"
  shows "sorted_fields (mData (mFields (remap_line remap line)))"
proof -
  let ?fs = "mData (mFields line)" and ?f = "\<lambda>k. remap ! unat k"
  have "distinct (map ?f (map fst ?fs))"
    using assms by (subst distinct_map) (simp add: sorted_fields_def strict_sorted_iff)
  moreover have "map ?f (map fst ?fs) = map fst (map (\<lambda>(k, c). (?f k, c)) ?fs)" by (simp add: case_prod_beta)
  ultimately have "distinct (map fst (map (\<lambda>(k, c). (?f k, c)) ?fs))" by (simp only:)
  then show ?thesis unfolding remap_line_data by (rule sorted_fields_sort)
qed

lemma remap_line_find:
  assumes "sorted_fields (mData (mFields line))"
    and "inj_on (\<lambda>k. remap ! unat k) (insert kid (fst ` set (mData (mFields line))))"
  shows "FindCompact (remap ! unat kid) (remap_line remap line) = FindCompact kid line"
proof -
  let ?fs = "mData (mFields line)" and ?f = "\<lambda>k. remap ! unat k"
  have sorted: "sorted_fields (mData (mFields (remap_line remap line)))"
    using assms by (intro remap_line_sorted) (auto intro: inj_on_subset)
  have "(?f kid, c) \<in> set (map (\<lambda>(k, c). (?f k, c)) ?fs) \<longleftrightarrow> (kid, c) \<in> set ?fs" for c
    using assms(2) by (force simp: inj_on_def)
  then show ?thesis
    using find_compact_Some [OF sorted] find_compact_Some [OF assms(1)]
    by (intro option_eqI) (simp add: FindCompact_def remap_line_data)
qed

text \<open>What a line shows for a key name.\<close>

definition field_value :: "(string \<Rightarrow> 64 word) \<Rightarrow> string \<Rightarrow> LogData \<Rightarrow> nat \<Rightarrow> LogValue" where
  "field_value hash key d row =
     (case ldLines d ! row of (line, i) \<Rightarrow>
        GetValue_key hash key (Some (ldKeys d)) (if i < length (ldSources d) then Some (ldSources d ! i) else None) line)"

definition data_inv :: "(string \<Rightarrow> 64 word) \<Rightarrow> LogData \<Rightarrow> bool" where
  "data_inv hash d \<longleftrightarrow> key_inv hash (ldKeys d) \<and>
     (\<forall>(line, i)\<in>set (ldLines d). line_of (ldKeys d) line \<and> i < length (ldSources d))"

text \<open>Dictionary references belong to the registry of a table; lines that come from a parser have none.\<close>

definition no_dict_refs :: "LogData \<Rightarrow> bool" where
  "no_dict_refs d \<longleftrightarrow> (\<forall>(line, i)\<in>set (ldLines d). \<forall>(k, c)\<in>set (mData (mFields line)). tag c \<noteq> DictRef)"

lemma Materialise_key: "tag c \<noteq> DictRef \<Longrightarrow> Materialise c src l k = Materialise c src l k'"
  by (simp add: Materialise_def split: CompactTag.split)

lemma KeyOf_not_invalid:
  assumes "key_inv hash ki" "KeyOf kid ki \<noteq> None"
  shows "kid \<noteq> INVALID_KEY_ID"
proof
  assume "kid = INVALID_KEY_ID"
  then have "unat kid = 2 ^ 32 - 1" by (simp add: INVALID_KEY_ID_def unsigned_minus_1_eq_mask mask_eq_exp_minus_1)
  then show False using assms by (simp add: KeyOf_def key_inv_def split: if_splits)
qed

lemma line_of_fields:
  "line_of ki line \<Longrightarrow> FindCompact k line = Some c \<Longrightarrow> (k, c) \<in> set (mData (mFields line)) \<and> KeyOf k ki \<noteq> None"
  by (auto simp: line_of_def FindCompact_def find_compact_Some)

text \<open>Looking a key up in a line, without the ids.\<close>

lemma GetValue_key_eq:
  assumes "key_inv hash ki" "key \<noteq> []"
  shows "GetValue_key hash key (Some ki) source line =
    (case probe hash key ki of None \<Rightarrow> VMonostate | Some kid \<Rightarrow> GetValue_id kid source line)"
proof (cases "probe hash key ki")
  case None
  then show ?thesis using assms(2) by (simp add: GetValue_key_def Find_key_def Let_def)
next
  case (Some kid)
  then have "kid \<noteq> INVALID_KEY_ID"
    using KeyOf_not_invalid [OF assms(1)] key_inv_probe [OF assms(1), of key] by auto
  then show ?thesis using Some assms(2) by (simp add: GetValue_key_def Find_key_def Let_def)
qed

text \<open>Two sessions that can be merged: both are sound, the ids suffice, the lines taken over are plain.\<close>

definition mergeable :: "(string \<Rightarrow> 64 word) \<Rightarrow> LogData \<Rightarrow> LogData \<Rightarrow> bool" where
  "mergeable hash other d \<longleftrightarrow> data_inv hash other \<and> data_inv hash d \<and> no_dict_refs other \<and>
     room_for (key_room hash) (\<lambda>k ki. snd (GetOrInsert hash k ki)) (reverse_keys (ldKeys other)) (ldKeys d)"

abbreviation okeys :: "LogData \<Rightarrow> string list" where
  "okeys other \<equiv> reverse_keys (ldKeys other)"

abbreviation merged_keys :: "(string \<Rightarrow> 64 word) \<Rightarrow> LogData \<Rightarrow> LogData \<Rightarrow> KeyIndex" where
  "merged_keys hash other d \<equiv> inserted hash (okeys other) (ldKeys d)"

abbreviation remap_of :: "(string \<Rightarrow> 64 word) \<Rightarrow> LogData \<Rightarrow> LogData \<Rightarrow> KeyId list" where
  "remap_of hash other d \<equiv> fst (remap_table hash (okeys other) (ldKeys d))"

lemma mergeable_parts:
  assumes "mergeable hash other d"
  shows "data_inv hash other" "data_inv hash d" "no_dict_refs other"
    and "room_for (key_room hash) (\<lambda>k ki. snd (GetOrInsert hash k ki)) (okeys other) (ldKeys d)"
    and "key_inv hash (ldKeys other)" "key_inv hash (ldKeys d)" "key_inv hash (merged_keys hash other d)"
  using assms keys.inv_inserts by (auto simp: mergeable_def data_inv_def)

lemma other_keys:
  "mergeable hash other d \<Longrightarrow> map ((!) (okeys other)) [0..<Size_keys (ldKeys other)] = okeys other"
  using mergeable_parts(5) [of hash other d] by (simp add: Size_keys_def key_inv_def map_nth)

lemma Merge_eq:
  "mergeable hash other d \<Longrightarrow> Merge hash other d =
    \<lparr>ldSources = ldSources d @ ldSources other,
     ldLines = ldLines d @ map (\<lambda>(line, i). (remap_line (remap_of hash other d) line, length (ldSources d) + i)) (ldLines other),
     ldKeys = merged_keys hash other d, ldTimestampsAlreadyParsed = (ldTimestampsAlreadyParsed other \<or> ldTimestampsAlreadyParsed d)\<rparr>"
  using remap_table_index [of hash "okeys other" "ldKeys d"]
  by (simp add: Merge_def other_keys Let_def case_prod_beta)

lemma new_id:
  assumes "mergeable hash other d" "KeyOf kid (ldKeys other) = Some key"
  shows "probe hash key (merged_keys hash other d) = Some (remap_of hash other d ! unat kid)"
  using remap_table_ids [OF mergeable_parts(6,4) [OF assms(1)], of "unat kid"] assms(2)
  by (auto simp: KeyOf_def split: if_splits)

lemma remap_inj:
  assumes m: "mergeable hash other d"
    and "KeyOf i (ldKeys other) \<noteq> None" "KeyOf j (ldKeys other) \<noteq> None" "remap_of hash other d ! unat i = remap_of hash other d ! unat j"
  shows "i = j"
proof -
  note parts = mergeable_parts [OF m]
  obtain a b where ab: "KeyOf i (ldKeys other) = Some a" "KeyOf j (ldKeys other) = Some b" using assms(2,3) by auto
  then have "a = b" using new_id [OF m] assms(4) keys.lookup_inj [OF parts(7)] by metis
  then show ?thesis using ab key_inv_probe [OF parts(5)] by (metis option.inject)
qed

lemma merged_value_other:
  assumes m: "mergeable hash other d" and "(line, i) \<in> set (ldLines other)"
  shows "GetValue_key hash key (Some (merged_keys hash other d)) source (remap_line (remap_of hash other d) line) =
    GetValue_key hash key (Some (ldKeys other)) source line"
proof (cases "key = []")
  case False
  note parts = mergeable_parts [OF m]
  have line: "line_of (ldKeys other) line" using assms parts(1) by (auto simp: data_inv_def)
  have inj: "inj_on (\<lambda>k. remap_of hash other d ! unat k) (insert kid (fst ` set (mData (mFields line))))"
    if "KeyOf kid (ldKeys other) \<noteq> None" for kid
    using line that remap_inj [OF m] by (fastforce simp: line_of_def inj_on_def)
  have sorted: "sorted_fields (mData (mFields line))" using line by (simp add: line_of_def)
  show ?thesis
  proof (cases "probe hash key (ldKeys other)")
    case (Some kid)
    then have kid: "KeyOf kid (ldKeys other) = Some key" using key_inv_probe [OF parts(5)] by blast
    have find: "FindCompact (remap_of hash other d ! unat kid) (remap_line (remap_of hash other d) line) = FindCompact kid line"
      using remap_line_find [OF sorted inj] kid by blast
    have id: "mLineId (remap_line (remap_of hash other d) line) = mLineId line" by (simp add: remap_line_def LogLine_compact_def)
    have "tag c \<noteq> DictRef" if "FindCompact kid line = Some c" for c
      using line_of_fields [OF line that] parts(3) assms by (auto simp: no_dict_refs_def)
    then have "GetValue_id (remap_of hash other d ! unat kid) source (remap_line (remap_of hash other d) line) = GetValue_id kid source line"
      by (auto simp: GetValue_id_def find id intro: Materialise_key split: option.split)
    then show ?thesis
      using Some new_id [OF m kid] False by (simp add: GetValue_key_eq [OF parts(7)] GetValue_key_eq [OF parts(5)])
  next
    case None
    have "GetValue_id kid source (remap_line (remap_of hash other d) line) = VMonostate" if kid: "probe hash key (merged_keys hash other d) = Some kid" for kid
    proof (cases "FindCompact kid (remap_line (remap_of hash other d) line)")
      case (Some c)
      have "\<exists>k c. (k, c) \<in> set (mData (mFields line)) \<and> kid = (remap_of hash other d) ! unat k"
      proof -
        have "inj_on (\<lambda>k. remap_of hash other d ! unat k) (fst ` set (mData (mFields line)))"
          using line remap_inj [OF m] by (fastforce simp: line_of_def inj_on_def)
        then have "sorted_fields (mData (mFields (remap_line (remap_of hash other d) line)))"
          by (rule remap_line_sorted [OF sorted])
        then have "(kid, c) \<in> set (mData (mFields (remap_line (remap_of hash other d) line)))"
          using Some by (simp add: FindCompact_def find_compact_Some)
        then show ?thesis
          by (auto simp: remap_line_data)
      qed
      then obtain k key' where k: "kid = (remap_of hash other d) ! unat k" "KeyOf k (ldKeys other) = Some key'"
        using line by (fastforce simp: line_of_def)
      then have "key' = key" using new_id [OF m] kid keys.lookup_inj [OF parts(7)] by metis
      then have "probe hash key (ldKeys other) = Some k" using k(2) key_inv_probe [OF parts(5)] by blast
      then show ?thesis using None by simp
    qed (simp add: GetValue_id_def)
    then show ?thesis
      using None False by (auto simp: GetValue_key_eq [OF parts(7)] GetValue_key_eq [OF parts(5)] split: option.split)
  qed
qed (simp add: GetValue_key_def)

lemma merged_value_own:
  assumes m: "mergeable hash other d" and "(line, i) \<in> set (ldLines d)"
  shows "GetValue_key hash key (Some (merged_keys hash other d)) source line = GetValue_key hash key (Some (ldKeys d)) source line"
proof (cases "key = []")
  case False
  note parts = mergeable_parts [OF m]
  have line: "line_of (ldKeys d) line" using assms parts(2) by (auto simp: data_inv_def)
  show ?thesis
  proof (cases "probe hash key (ldKeys d)")
    case (Some kid)
    then show ?thesis
      using False keys.lookup_inserts [OF parts(6,4) Some]
      by (simp add: GetValue_key_eq [OF parts(7)] GetValue_key_eq [OF parts(6)])
  next
    case None
    have "FindCompact kid line = None" if "probe hash key (merged_keys hash other d) = Some kid" for kid
    proof (rule ccontr)
      assume "FindCompact kid line \<noteq> None"
      then obtain key' where "KeyOf kid (ldKeys d) = Some key'" using line_of_fields [OF line] by fast
      then have "probe hash key' (ldKeys d) = Some kid" using key_inv_probe [OF parts(6)] by blast
      moreover from this have "probe hash key' (merged_keys hash other d) = Some kid" by (rule keys.lookup_inserts [OF parts(6,4)])
      ultimately show False using that None keys.lookup_inj [OF parts(7)] by (metis option.distinct(1))
    qed
    then show ?thesis
      using None False
      by (auto simp: GetValue_key_eq [OF parts(7)] GetValue_key_eq [OF parts(6)] GetValue_id_def split: option.split)
  qed
qed (simp add: GetValue_key_def)

lemma Merge_values:
  assumes "mergeable hash other d"
  shows "row < length (ldLines d) \<Longrightarrow> field_value hash key (Merge hash other d) row = field_value hash key d row"
    and "row < length (ldLines other) \<Longrightarrow>
      field_value hash key (Merge hash other d) (length (ldLines d) + row) = field_value hash key other row"
proof -
  note eq = Merge_eq [OF assms] and parts = mergeable_parts [OF assms]
  show "field_value hash key (Merge hash other d) row = field_value hash key d row" if row: "row < length (ldLines d)"
  proof -
    obtain line i where r: "ldLines d ! row = (line, i)" by force
    have mem: "(line, i) \<in> set (ldLines d)" using row r nth_mem by metis
    then have "i < length (ldSources d)" using parts(2) by (auto simp: data_inv_def)
    then show ?thesis
      using row r merged_value_own [OF assms mem] by (simp add: field_value_def eq nth_append)
  qed
  show "field_value hash key (Merge hash other d) (length (ldLines d) + row) = field_value hash key other row"
    if row: "row < length (ldLines other)"
  proof -
    obtain line i where r: "ldLines other ! row = (line, i)" by force
    have mem: "(line, i) \<in> set (ldLines other)" using row r nth_mem by metis
    then have "i < length (ldSources other)" using parts(1) by (auto simp: data_inv_def)
    then show ?thesis
      using row r merged_value_other [OF assms mem] by (simp add: field_value_def eq nth_append)
  qed
qed

lemma Merge_length: "length (ldLines (Merge hash other d)) = length (ldLines d) + length (ldLines other)"
  by (simp add: Merge_def Let_def case_prod_beta)

section \<open>Batches\<close>

lemma back_source_Some:
  "back_source P d = Some i \<Longrightarrow> i < length (ldSources d) \<and> P (ldSources d ! i) \<and> (\<forall>j. i < j \<and> j < length (ldSources d) \<longrightarrow> \<not> P (ldSources d ! j))"
proof -
  have "find P' (rev [0..<n]) = Some i \<Longrightarrow> i < n \<and> P' i \<and> (\<forall>j. i < j \<and> j < n \<longrightarrow> \<not> P' j)" for P' :: "nat \<Rightarrow> bool" and n
    by (induction n) (auto simp: less_Suc_eq split: if_splits)
  from this [of "\<lambda>i. P (ldSources d ! i)" "length (ldSources d)"]
  show "back_source P d = Some i \<Longrightarrow> ?thesis" unfolding back_source_def by blast
qed

text \<open>The offsets of a batch go to the last file source, whatever streams come behind it.\<close>

lemma AppendBatch_offsets:
  assumes "BackFileSource d = Some i" "impl (ldSources d ! i) = FileSource file" "offs \<noteq> []"
  shows "ldLines (AppendBatch batch offs [] d) = ldLines d @ batch"
    and "impl (ldSources (AppendBatch batch offs [] d) ! i) = FileSource (AppendLineOffsets offs file)"
    and "j \<noteq> i \<Longrightarrow> ldSources (AppendBatch batch offs [] d) ! j = ldSources d ! j"
proof -
  have "i < length (ldSources d)" using back_source_Some assms(1) unfolding BackFileSource_def by blast
  moreover have "BackFileSource (d\<lparr>ldLines := x\<rparr>) = Some i" for x
    using assms(1) by (simp add: BackFileSource_def back_source_def)
  ultimately show "ldLines (AppendBatch batch offs [] d) = ldLines d @ batch"
    and "impl (ldSources (AppendBatch batch offs [] d) ! i) = FileSource (AppendLineOffsets offs file)"
    and "j \<noteq> i \<Longrightarrow> ldSources (AppendBatch batch offs [] d) ! j = ldSources d ! j"
    using assms(2,3) by (simp_all add: AppendBatch_def Let_def on_file_def)
qed

end
