(* ===== verification/Enum_Columns.thy ===== *)
theory Enum_Columns
  imports Log_Table
begin

text \<open>
  The enumeration columns of \<open>library/src/log_table.cpp\<close>: the detector that watches untyped
  columns, the encoding of text slots as references into the column's dictionary, the way back,
  and the promotion of a column of severities to a level column.  \<open>EnumTable\<close> is the \<open>LogTable\<close>
  with the fields that only this part uses.  The sources hold pointers to the table's registry;
  \<open>set_registry\<close> writes a change through to them.  An exception (a dictionary reference of an
  evicted line cannot be turned back into text) is \<open>None\<close>.
\<close>

section \<open>Constants and health\<close>

definition ENUM_PROMOTION_MIN_ROWS :: nat where
  "ENUM_PROMOTION_MIN_ROWS = 4096"

definition STREAM_PROMOTION_MIN_ROWS :: nat where
  "STREAM_PROMOTION_MIN_ROWS = 2"

definition ENUM_HEALTH_MIN_SAMPLES :: nat where
  "ENUM_HEALTH_MIN_SAMPLES = 50"

definition LEVEL_DICT_TOLERANCE_RATIO :: nat where
  "LEVEL_DICT_TOLERANCE_RATIO = 4"

definition ENUM_CARDINALITY_BAIL_RATIO :: double where
  "ENUM_CARDINALITY_BAIL_RATIO = fst (make_double False 5 100)"

definition ENUM_HEALTH_TOLERANCE_RATIO :: double where
  "ENUM_HEALTH_TOLERANCE_RATIO = fst (make_double False 1 100)"

text \<open>Sum and product of two non-negative finite doubles, rounded.\<close>

definition dbl_plus :: "double \<Rightarrow> double \<Rightarrow> double" where
  "dbl_plus a b = fst (make_double False (smag (dmag a) + smag (dmag b)) (2 ^ 1074))"

definition dbl_times :: "double \<Rightarrow> double \<Rightarrow> double" where
  "dbl_times a b = fst (make_double False (smag (dmag a) * smag (dmag b)) (2 ^ 2148))"

abbreviation dbl_of :: "nat \<Rightarrow> double" where
  "dbl_of n \<equiv> double_of_int (int n)"

record EnumColumnHealth =
  totalSlots :: nat
  longValueSlots :: nat
  wrongTypeSlots :: nat

definition new_Health :: EnumColumnHealth where
  "new_Health = \<lparr>totalSlots = 0, longValueSlots = 0, wrongTypeSlots = 0\<rparr>"

definition ShouldDemote :: "double \<Rightarrow> nat \<Rightarrow> EnumColumnHealth \<Rightarrow> bool" where
  "ShouldDemote tolerance minSamples h =
     (if totalSlots h < minSamples then False
      else d_less (dbl_times tolerance (dbl_of (totalSlots h)))
             (dbl_plus (dbl_of (longValueSlots h)) (dbl_of (wrongTypeSlots h))))"

section \<open>Candidates\<close>

definition RouteNoStringBail :: "nat \<Rightarrow> nat \<Rightarrow> nat \<Rightarrow> nat \<Rightarrow> ColumnType" where
  "RouteNoStringBail ints uints doubles bools =
     (let sawIntegral = ints > 0 \<or> uints > 0; sawDouble = doubles > 0; sawBool = bools > 0;
          sawNumeric = sawIntegral \<or> sawDouble
      in if sawBool \<and> sawNumeric then CtAny
         else if sawBool then CtBoolean
         else if sawIntegral \<and> sawDouble then CtNumber
         else if sawIntegral then CtInteger
         else if sawDouble then CtFloating
         else CtAny)"

definition IsEnumPassEligible :: "Column \<Rightarrow> bool" where
  "IsEnumPassEligible column =
     (if ctype column = CtEnumeration \<or> ctype column = CtLevel then True
      else ctype column = CtAny \<and> autoDetect column)"

record EnumCandidateTracker =
  trValues :: "string list"
  trSeen :: "string set"
  trMaxLen :: "32 word"
  trSize :: "16 word"
  trCap :: "16 word"
  rowsObserved :: nat
  presenceCount :: nat
  longValueCount :: nat
  intObservations :: nat
  uintObservations :: nat
  doubleObservations :: nat
  boolObservations :: nat
  killed :: bool

definition new_Tracker :: "16 word \<Rightarrow> 32 word \<Rightarrow> EnumCandidateTracker" where
  "new_Tracker capValue maxLenValue =
     \<lparr>trValues = [], trSeen = {}, trMaxLen = maxLenValue, trSize = 0, trCap = capValue, rowsObserved = 0,
      presenceCount = 0, longValueCount = 0, intObservations = 0, uintObservations = 0, doubleObservations = 0,
      boolObservations = 0, killed = False\<rparr>"

definition kill :: "EnumCandidateTracker \<Rightarrow> EnumCandidateTracker" where
  "kill tr = tr\<lparr>killed := True, trValues := [], trSeen := {}, trSize := 0\<rparr>"

definition Observe :: "string \<Rightarrow> EnumCandidateTracker \<Rightarrow> EnumCandidateTracker" where
  "Observe bytes tr =
     (if killed tr then tr
      else if trMaxLen tr \<noteq> 0 \<and> length bytes > unat (trMaxLen tr) then
        let tr1 = tr\<lparr>longValueCount := longValueCount tr + 1\<rparr>
        in if presenceCount tr1 \<ge> ENUM_HEALTH_MIN_SAMPLES \<and>
              d_less (dbl_times ENUM_HEALTH_TOLERANCE_RATIO (dbl_of (presenceCount tr1))) (dbl_of (longValueCount tr1))
           then kill tr1 else tr1
      else if bytes \<in> trSeen tr then tr
      else if trSize tr \<ge> trCap tr then kill tr
      else tr\<lparr>trValues := trValues tr @ [bytes], trSeen := insert bytes (trSeen tr), trSize := trSize tr + 1\<rparr>)"

text \<open>The first slot of the row under one of the column's keys, and what the tracker notes of it.\<close>

fun first_slot :: "KeyId list \<Rightarrow> LogLine \<Rightarrow> CompactLogValue option" where
  "first_slot [] line = None"
| "first_slot (k # ks) line = (case FindCompact k line of Some c \<Rightarrow> Some c | None \<Rightarrow> first_slot ks line)"

definition observe_row :: "KeyId list \<Rightarrow> LineSource option \<Rightarrow> LogLine \<Rightarrow> EnumCandidateTracker \<Rightarrow> EnumCandidateTracker" where
  "observe_row ks source line tr0 =
     (let tr = tr0\<lparr>rowsObserved := rowsObserved tr0 + 1\<rparr> in
      case first_slot ks line of
        None \<Rightarrow> tr
      | Some slot \<Rightarrow>
          let tr = tr\<lparr>presenceCount := presenceCount tr + 1\<rparr> in
          case PeekStringView slot source line of
            Some bytes \<Rightarrow> Observe bytes tr
          | None \<Rightarrow>
              if tag slot = Int64 then tr\<lparr>intObservations := intObservations tr + 1\<rparr>
              else if tag slot = Uint64 then tr\<lparr>uintObservations := uintObservations tr + 1\<rparr>
              else if tag slot = Double then tr\<lparr>doubleObservations := doubleObservations tr + 1\<rparr>
              else if tag slot = Bool then tr\<lparr>boolObservations := boolObservations tr + 1\<rparr>
              else tr)"

text \<open>The scan over the rows; \<open>enough\<close> are the breaks at the end of the loop body.\<close>

fun scan_rows ::
    "(EnumCandidateTracker \<Rightarrow> bool) \<Rightarrow> KeyId list \<Rightarrow> (nat \<Rightarrow> LineSource option) \<Rightarrow> (LogLine \<times> nat) list \<Rightarrow>
     EnumCandidateTracker \<Rightarrow> EnumCandidateTracker" where
  "scan_rows enough ks src [] tr = tr"
| "scan_rows enough ks src ((line, i) # rows) tr =
     (let tr' = observe_row ks (src i) line tr in if enough tr' then tr' else scan_rows enough ks src rows tr')"

section \<open>The table\<close>

record EnumTable =
  tbl :: LogTable
  mEnumValueCap :: "16 word"
  mEnumValueMaxLen :: "32 word"
  mEnumTrackers :: "KeyId \<rightharpoonup> EnumCandidateTracker"
  mEnumColumnHealth :: "KeyId \<rightharpoonup> EnumColumnHealth"
  mIsStreaming :: bool
  mLastBatchDemotedKeys :: "KeyId list"
  mPendingLevelBubbleKeys :: "KeyId list"

abbreviation ecolumns :: "EnumTable \<Rightarrow> Column list" where
  "ecolumns T \<equiv> tcolumns (tbl T)"

definition SetEnumValueCap :: "16 word \<Rightarrow> EnumTable \<Rightarrow> EnumTable" where
  "SetEnumValueCap cap T = T\<lparr>mEnumValueCap := min (max cap 1) MAX_ENUM_VALUES\<rparr>"

definition SetEnumValueMaxLen :: "32 word \<Rightarrow> EnumTable \<Rightarrow> EnumTable" where
  "SetEnumValueMaxLen maxLen T = T\<lparr>mEnumValueMaxLen := maxLen\<rparr>"

definition set_type :: "nat \<Rightarrow> ColumnType \<Rightarrow> EnumTable \<Rightarrow> EnumTable" where
  "set_type i ty T = T\<lparr>tbl := (tbl T)\<lparr>mConfiguration := SetColumnType i ty (mConfiguration (tbl T))\<rparr>\<rparr>"

definition set_registry :: "EnumDictionaryRegistry \<Rightarrow> LogTable \<Rightarrow> LogTable" where
  "set_registry r t =
     t\<lparr>tEnumDictionaries := r,
       mSources := map (\<lambda>src. src\<lparr>mEnumDictionaries := map_option (\<lambda>_. r) (mEnumDictionaries src)\<rparr>) (mSources t)\<rparr>"

definition RewireSourceRegistries :: "LogTable \<Rightarrow> LogTable" where
  "RewireSourceRegistries t =
     t\<lparr>mSources := map (\<lambda>src. src\<lparr>mEnumDictionaries := Some (tEnumDictionaries t)\<rparr>) (mSources t)\<rparr>"

definition resolved_keys :: "nat \<Rightarrow> EnumTable \<Rightarrow> KeyId list" where
  "resolved_keys i T = filter (\<lambda>k. k \<noteq> INVALID_KEY_ID) (mColumnKeyIds (tbl T) ! i)"

definition known_ids :: "externals \<Rightarrow> LogTable \<Rightarrow> string list \<Rightarrow> KeyId list" where
  "known_ids ex t ks = filter (\<lambda>k. k \<noteq> INVALID_KEY_ID) (map (find_key ex t) ks)"

text \<open>\<open>mEnumColumnHealth[key]\<close> creates the entry.\<close>

definition health_at :: "KeyId \<Rightarrow> EnumTable \<Rightarrow> EnumColumnHealth" where
  "health_at k T = (case mEnumColumnHealth T k of Some h \<Rightarrow> h | None \<Rightarrow> new_Health)"

definition put_health :: "KeyId \<Rightarrow> EnumColumnHealth \<Rightarrow> EnumTable \<Rightarrow> EnumTable" where
  "put_health k h T = T\<lparr>mEnumColumnHealth := (mEnumColumnHealth T)(k \<mapsto> h)\<rparr>"

section \<open>Encoding\<close>

text \<open>\<open>*slot = c\<close> through the pointer that \<open>FindCompactMutable\<close> returned.\<close>

definition put_slot :: "KeyId \<Rightarrow> CompactLogValue \<Rightarrow> LogLine \<Rightarrow> LogLine" where
  "put_slot k c line =
     line\<lparr>mFields := (mFields line)\<lparr>mData := map (\<lambda>(j, v). (j, if j = k then c else v)) (mData (mFields line))\<rparr>\<rparr>"

datatype slot_outcome = AlreadyEncoded | Encoded | DictFull | NotEncoded bool bool

text \<open>The loop over the keys of one row; the flags are \<open>sawLong\<close> and \<open>sawWrongType\<close>.\<close>

fun encode_slots ::
    "KeyId \<Rightarrow> 32 word \<Rightarrow> LineSource option \<Rightarrow> KeyId list \<Rightarrow> bool \<Rightarrow> bool \<Rightarrow> LogLine \<Rightarrow> EnumDictionaryRegistry \<Rightarrow>
     slot_outcome \<times> LogLine \<times> EnumDictionaryRegistry" where
  "encode_slots dict maxLen source [] sawLong sawWrong line reg = (NotEncoded sawLong sawWrong, line, reg)"
| "encode_slots dict maxLen source (k # ks) sawLong sawWrong line reg =
     (case FindCompact k line of
        None \<Rightarrow> encode_slots dict maxLen source ks sawLong sawWrong line reg
      | Some slot \<Rightarrow>
          if tag slot = DictRef then (AlreadyEncoded, line, reg)
          else case PeekStringView slot source line of
            None \<Rightarrow> encode_slots dict maxLen source ks sawLong True line reg
          | Some bytes \<Rightarrow>
              if maxLen \<noteq> 0 \<and> length bytes > unat maxLen then encode_slots dict maxLen source ks True sawWrong line reg
              else let (vid, reg') = reg_Insert dict bytes reg
                   in if vid = INVALID_ENUM_VALUE_ID then (DictFull, line, reg')
                      else (Encoded, put_slot k (MakeDictRef vid) line, reg'))"

definition count_outcome :: "slot_outcome \<Rightarrow> EnumColumnHealth \<Rightarrow> EnumColumnHealth" where
  "count_outcome out h =
     (case out of
        Encoded \<Rightarrow> h\<lparr>totalSlots := totalSlots h + 1\<rparr>
      | NotEncoded sawLong sawWrong \<Rightarrow>
          if sawLong then h\<lparr>totalSlots := totalSlots h + 1, longValueSlots := longValueSlots h + 1\<rparr>
          else if sawWrong then h\<lparr>totalSlots := totalSlots h + 1, wrongTypeSlots := wrongTypeSlots h + 1\<rparr>
          else h
      | _ \<Rightarrow> h)"

fun encode_rows ::
    "KeyId \<Rightarrow> 32 word \<Rightarrow> (nat \<Rightarrow> LineSource option) \<Rightarrow> KeyId list \<Rightarrow> nat list \<Rightarrow>
     (LogLine \<times> nat) list \<Rightarrow> EnumDictionaryRegistry \<Rightarrow> EnumColumnHealth \<Rightarrow>
     bool \<times> (LogLine \<times> nat) list \<times> EnumDictionaryRegistry \<times> EnumColumnHealth" where
  "encode_rows dict maxLen src ks [] rows reg h = (True, rows, reg, h)"
| "encode_rows dict maxLen src ks (r # rs) rows reg h =
     (case rows ! r of (line, i) \<Rightarrow>
      case encode_slots dict maxLen (src i) ks False False line reg of (out, line', reg') \<Rightarrow>
        if out = DictFull then (False, rows[r := (line', i)], reg', h)
        else encode_rows dict maxLen src ks rs (rows[r := (line', i)]) reg' (count_outcome out h))"

definition EncodeColumnRange ::
    "KeyId list \<Rightarrow> nat \<Rightarrow> nat \<Rightarrow> EnumColumnHealth \<Rightarrow> EnumTable \<Rightarrow> bool \<times> EnumColumnHealth \<times> EnumTable" where
  "EncodeColumnRange aliasKeys rowBegin rowEnd h T =
     (if aliasKeys = [] then (True, h, T)
      else let t = tbl T;
               (dict, reg0) = reg_GetOrInsert (hd aliasKeys) (mEnumValueCap T) (tEnumDictionaries t);
               (ok, rows, reg, h') = encode_rows dict (mEnumValueMaxLen T) (source_at t) aliasKeys
                  [rowBegin..<min rowEnd (length (mRows t))] (mRows t) reg0 h
           in (ok, h', T\<lparr>tbl := set_registry reg (t\<lparr>mRows := rows\<rparr>)\<rparr>))"

definition EncodeColumnRangeAsEnum ::
    "externals \<Rightarrow> Column \<Rightarrow> nat \<Rightarrow> nat \<Rightarrow> EnumColumnHealth \<Rightarrow> EnumTable \<Rightarrow> bool \<times> EnumColumnHealth \<times> EnumTable" where
  "EncodeColumnRangeAsEnum ex column rowBegin rowEnd h T =
     (let keyIds = known_ids ex (tbl T) (keys column)
      in if keyIds = [] then (True, h, T) else EncodeColumnRange keyIds rowBegin rowEnd h T)"

section \<open>Demotion\<close>

text \<open>The slots of one row go back to text; \<open>dict\<close> is the column's dictionary.\<close>

definition dict_text :: "EnumDictionary option \<Rightarrow> CompactLogValue \<Rightarrow> string" where
  "dict_text dict slot = (case dict of None \<Rightarrow> [] | Some d \<Rightarrow> dict_Resolve d (ucast (payload slot)))"

fun demote_slots ::
    "EnumDictionary option \<Rightarrow> nat \<Rightarrow> KeyId list \<Rightarrow> LogLine \<Rightarrow> LineSource list \<Rightarrow> (LogLine \<times> LineSource list) option" where
  "demote_slots dict i [] line srcs = Some (line, srcs)"
| "demote_slots dict i (k # ks) line srcs =
     (case FindCompact k line of
        None \<Rightarrow> demote_slots dict i ks line srcs
      | Some slot \<Rightarrow>
          if tag slot \<noteq> DictRef then demote_slots dict i ks line srcs
          else let bytes = dict_text dict slot in
            if i < length srcs then
              (case AppendOwnedBytes (mLineId line) bytes (srcs ! i) of
                 None \<Rightarrow> None
               | Some (offset, src') \<Rightarrow>
                   demote_slots dict i ks (put_slot k (MakeOwnedString offset (word_of_nat (length bytes))) line) (srcs[i := src']))
            else demote_slots dict i ks (put_slot k MakeMonostate line) srcs)"

fun demote_rows ::
    "EnumDictionary option \<Rightarrow> KeyId list \<Rightarrow> (LogLine \<times> nat) list \<Rightarrow> LineSource list \<Rightarrow>
     ((LogLine \<times> nat) list \<times> LineSource list) option" where
  "demote_rows dict ks [] srcs = Some ([], srcs)"
| "demote_rows dict ks ((line, i) # rows) srcs =
     (case demote_slots dict i ks line srcs of
        None \<Rightarrow> None
      | Some (line', srcs1) \<Rightarrow>
          map_option (\<lambda>(rows', srcs2). ((line', i) # rows', srcs2)) (demote_rows dict ks rows srcs1))"

definition DemoteColumnFromEnum :: "externals \<Rightarrow> nat \<Rightarrow> bool \<Rightarrow> EnumTable \<Rightarrow> EnumTable option" where
  "DemoteColumnFromEnum ex i recordForBatch T =
     (if i \<ge> length (ecolumns T) then Some T
      else let column = ecolumns T ! i in
      if ctype column \<noteq> CtEnumeration \<and> ctype column \<noteq> CtLevel then Some T
      else let keyIds = known_ids ex (tbl T) (keys column) in
      if keyIds = [] then Some (set_type i CtString T)
      else let front = hd keyIds; t = tbl T;
               T1 = (if recordForBatch then T\<lparr>mLastBatchDemotedKeys := mLastBatchDemotedKeys T @ [front]\<rparr> else T)
           in map_option
                (\<lambda>(rows, srcs). set_type i CtString
                   (T1\<lparr>tbl := (set_registry (reg_Erase front (tEnumDictionaries t)) (t\<lparr>mRows := rows, mSources := srcs\<rparr>))
                         \<lparr>mLevelRankCache := (mLevelRankCache t)(front := None)\<rparr>,
                       mEnumColumnHealth := (mEnumColumnHealth T1)(front := None)\<rparr>))
                (demote_rows (reg_Find (tEnumDictionaries t) front) keyIds (mRows t) (mSources t)))"

end
