(* ===== verification/Enum_Detector.thy ===== *)
theory Enum_Detector
  imports Enum_Columns
begin

text \<open>
  The detector of \<open>library/src/log_table.cpp\<close>: promotion of a column to an enumeration or a level
  column, the pass over the rows of a batch, the sweep at the end of a stream, the rescan of one
  column, and the moves of freshly promoted level columns.
\<close>

section \<open>Promotion\<close>

text \<open>One key of a column is interned; the first becomes the canonical key of the dictionary.\<close>

definition register_key ::
    "externals \<Rightarrow> 16 word \<Rightarrow> string \<Rightarrow> LogTable \<times> KeyId option \<Rightarrow> LogTable \<times> KeyId option" where
  "register_key ex cap key st =
     (case st of (t0, canonical) \<Rightarrow>
      let (kid, ki) = GetOrInsert (std_hash ex) key (mKeys t0); t = t0\<lparr>mKeys := ki\<rparr>; reg = tEnumDictionaries t in
      case canonical of
        None \<Rightarrow> (set_registry (snd (reg_GetOrInsert kid cap reg)) t, Some kid)
      | Some c \<Rightarrow> (set_registry (snd (reg_Alias c kid reg)) t, Some c))"

definition register_keys :: "externals \<Rightarrow> 16 word \<Rightarrow> string list \<Rightarrow> LogTable \<Rightarrow> LogTable \<times> KeyId option" where
  "register_keys ex cap ks t = fold (register_key ex cap) ks (t, None)"

text \<open>Dictionaries for the configured enumeration and level columns.\<close>

definition snapshot_column :: "externals \<Rightarrow> 16 word \<Rightarrow> nat \<Rightarrow> LogTable \<Rightarrow> LogTable" where
  "snapshot_column ex cap i t =
     (let column = tcolumns t ! i in
      if ctype column \<noteq> CtEnumeration \<and> ctype column \<noteq> CtLevel then t
      else let t1 = fst (register_keys ex cap (keys column) t)
           in if ctype column = CtLevel then RefreshLevelRankCache ex i t1 else t1)"

definition RefreshSnapshotEnumKeys :: "externals \<Rightarrow> EnumTable \<Rightarrow> EnumTable" where
  "RefreshSnapshotEnumKeys ex T =
     T\<lparr>tbl := fold (snapshot_column ex (mEnumValueCap T)) [0..<length (ecolumns T)] ((tbl T)\<lparr>mLevelRankCache := Map.empty\<rparr>)\<rparr>"

definition level_entries :: "Column \<Rightarrow> EnumDictionary \<Rightarrow> nat \<times> nat" where
  "level_entries column d =
     (let known = map (\<lambda>v. ResolveLevel (dict_Resolve d (word_of_nat v)) (levelMapping column) \<noteq> None)
                    [0..<unat (dict_Size d)]
      in (length (filter id known), length (filter Not known)))"

definition MaybePromoteToLevel :: "externals \<Rightarrow> nat \<Rightarrow> EnumTable \<Rightarrow> EnumTable" where
  "MaybePromoteToLevel ex i T =
     (if i \<ge> length (ecolumns T) then T
      else let column = ecolumns T ! i in
      if ctype column \<noteq> CtEnumeration then T
      else if \<not> autoDetect column then T
      else if \<not> list_ex IsLogLevelKey (keys column) then T
      else let canonical = first_known_key ex (tbl T) (keys column) in
      if canonical = INVALID_KEY_ID then T
      else case reg_Find (tEnumDictionaries (tbl T)) canonical of
        None \<Rightarrow> T
      | Some d \<Rightarrow>
          if dict_Size d = 0 then T
          else case level_entries column d of (canonicalEntries, unrecognizedEntries) \<Rightarrow>
            if canonicalEntries = 0 \<or> unrecognizedEntries * LEVEL_DICT_TOLERANCE_RATIO > canonicalEntries then T
            else let T1 = set_type i CtLevel T
                 in T1\<lparr>tbl := RefreshLevelRankCache ex i (tbl T1),
                       mPendingLevelBubbleKeys := mPendingLevelBubbleKeys T1 @ [canonical]\<rparr>)"

definition PromoteColumnToEnum :: "externals \<Rightarrow> nat \<Rightarrow> EnumTable \<Rightarrow> EnumTable option" where
  "PromoteColumnToEnum ex i T =
     (if i \<ge> length (ecolumns T) then Some T
      else if ctype (ecolumns T ! i) = CtEnumeration \<or> ctype (ecolumns T ! i) = CtLevel then Some T
      else let columnKeys = keys (ecolumns T ! i);
               T1 = set_type i CtEnumeration T;
               (t2, canonical) = register_keys ex (mEnumValueCap T1) columnKeys (tbl T1);
               canonicalKey = (case canonical of None \<Rightarrow> INVALID_KEY_ID | Some c \<Rightarrow> c);
               T2 = T1\<lparr>tbl := t2\<rparr>;
               (ok, h, T3) = EncodeColumnRangeAsEnum ex (ecolumns T2 ! i) 0 (length (mRows (tbl T2)))
                               (health_at canonicalKey T2) T2;
               T4 = put_health canonicalKey h T3
           in if \<not> ok then DemoteColumnFromEnum ex i True T4
              else if ShouldDemote ENUM_HEALTH_TOLERANCE_RATIO ENUM_HEALTH_MIN_SAMPLES h then DemoteColumnFromEnum ex i True T4
              else if list_ex IsLogLevelKey columnKeys then Some (MaybePromoteToLevel ex i T4)
              else Some T4)"

section \<open>The pass over a batch\<close>

type_synonym backfill = "nat option \<times> nat option"

definition recordBackfill :: "nat \<Rightarrow> backfill \<Rightarrow> backfill" where
  "recordBackfill i b =
     (case b of (f, l) \<Rightarrow>
       (case f of None \<Rightarrow> Some i | Some x \<Rightarrow> if i < x then Some i else Some x,
        case l of None \<Rightarrow> Some i | Some x \<Rightarrow> if i > x then Some i else Some x))"

definition dict_size_at :: "KeyId \<Rightarrow> EnumTable \<Rightarrow> nat" where
  "dict_size_at k T = (case reg_Find (tEnumDictionaries (tbl T)) k of None \<Rightarrow> 0 | Some d \<Rightarrow> unat (dict_Size d))"

text \<open>An enumeration or level column: the new rows are encoded.\<close>

definition active_column :: "externals \<Rightarrow> nat \<Rightarrow> nat \<Rightarrow> EnumTable \<times> backfill \<Rightarrow> (EnumTable \<times> backfill) option" where
  "active_column ex oldLineCount i st =
     (case st of (T, b) \<Rightarrow>
      let column = ecolumns T ! i; ks = resolved_keys i T in
      if ks = [] then Some (T, b)
      else let oldDictSize = dict_size_at (hd ks) T;
               (ok, h, T1) = EncodeColumnRange ks oldLineCount (length (mRows (tbl T))) (health_at (hd ks) T) T;
               T2 = put_health (hd ks) h T1
           in if \<not> ok then
                (if autoDetect column then map_option (\<lambda>T'. (T', recordBackfill i b)) (DemoteColumnFromEnum ex i True T2)
                 else Some (T2, b))
              else if autoDetect column \<and> ShouldDemote ENUM_HEALTH_TOLERANCE_RATIO ENUM_HEALTH_MIN_SAMPLES h then
                map_option (\<lambda>T'. (T', recordBackfill i b)) (DemoteColumnFromEnum ex i True T2)
              else let T3 = (if ctype column = CtEnumeration \<and> autoDetect column \<and>
                                dict_size_at (hd ks) T2 > oldDictSize \<and> list_ex IsLogLevelKey (keys column)
                             then MaybePromoteToLevel ex i T2 else T2);
                       T4 = (if ctype (ecolumns T3 ! i) = CtLevel then T3\<lparr>tbl := RefreshLevelRankCache ex i (tbl T3)\<rparr> else T3)
                   in Some (T4, b))"

definition put_tracker :: "KeyId \<Rightarrow> EnumCandidateTracker option \<Rightarrow> EnumTable \<Rightarrow> EnumTable" where
  "put_tracker k tr T = T\<lparr>mEnumTrackers := (mEnumTrackers T)(k := tr)\<rparr>"

definition promotable :: "nat \<Rightarrow> EnumTable \<Rightarrow> EnumCandidateTracker \<Rightarrow> bool" where
  "promotable minPresence T tr \<longleftrightarrow> trSize tr > 0 \<and> trSize tr \<le> mEnumValueCap T \<and> presenceCount tr \<ge> minPresence"

definition no_string_type :: "EnumCandidateTracker \<Rightarrow> ColumnType" where
  "no_string_type tr =
     RouteNoStringBail (intObservations tr) (uintObservations tr) (doubleObservations tr) (boolObservations tr)"

text \<open>A candidate: the new rows are watched, and the evidence decides.\<close>

definition candidate_column :: "externals \<Rightarrow> nat \<Rightarrow> nat \<Rightarrow> EnumTable \<times> backfill \<Rightarrow> (EnumTable \<times> backfill) option" where
  "candidate_column ex oldLineCount i st =
     (case st of (T, b) \<Rightarrow>
      let minRows = (if mIsStreaming T then STREAM_PROMOTION_MIN_ROWS else ENUM_PROMOTION_MIN_ROWS);
          ks = resolved_keys i T in
      if ks = [] then Some (T, b)
      else let tr0 = (case mEnumTrackers T (hd ks) of Some tr \<Rightarrow> tr
                      | None \<Rightarrow> new_Tracker (mEnumValueCap T) (mEnumValueMaxLen T));
               scanCap = 2 * minRows;
               tr = scan_rows (\<lambda>tr. killed tr \<or> promotable minRows T tr \<or> rowsObserved tr \<ge> scanCap) ks
                      (source_at (tbl T)) (drop oldLineCount (mRows (tbl T))) tr0;
               T1 = put_tracker (hd ks) (Some tr) T
           in if killed tr then Some (put_tracker (hd ks) None (set_type i CtString T1), b)
              else if promotable minRows T tr then
                map_option (\<lambda>T'. (put_tracker (hd ks) None T', recordBackfill i b)) (PromoteColumnToEnum ex i T1)
              else if rowsObserved tr \<ge> scanCap then
                (if presenceCount tr = 0 then Some (put_tracker (hd ks) (Some (tr\<lparr>rowsObserved := 0\<rparr>)) T1, b)
                 else if trSize tr = 0 then
                   Some (put_tracker (hd ks) None (set_type i (no_string_type tr) T1), b)
                 else if \<not> mIsStreaming T \<and>
                         d_less (dbl_times ENUM_CARDINALITY_BAIL_RATIO (dbl_of (presenceCount tr))) (dbl_of (unat (trSize tr)))
                      then Some (put_tracker (hd ks) None (set_type i CtString T1), b)
                 else Some (T1, b))
              else Some (T1, b))"

definition enum_pass_column :: "externals \<Rightarrow> nat \<Rightarrow> nat \<Rightarrow> EnumTable \<times> backfill \<Rightarrow> (EnumTable \<times> backfill) option" where
  "enum_pass_column ex oldLineCount i st =
     (let T = fst st; column = ecolumns T ! i in
      if \<not> IsEnumPassEligible column then Some st
      else if i \<ge> length (mColumnKeyIds (tbl T)) then Some st
      else if ctype column = CtEnumeration \<or> ctype column = CtLevel then active_column ex oldLineCount i st
      else if keys column = [] then Some st
      else candidate_column ex oldLineCount i st)"

fun fold_option :: "('a \<Rightarrow> 's \<Rightarrow> 's option) \<Rightarrow> 'a list \<Rightarrow> 's \<Rightarrow> 's option" where
  "fold_option f [] s = Some s"
| "fold_option f (x # xs) s = (case f x s of None \<Rightarrow> None | Some s' \<Rightarrow> fold_option f xs s')"

definition RunEnumPassForAppendBatch :: "externals \<Rightarrow> nat \<Rightarrow> EnumTable \<times> backfill \<Rightarrow> (EnumTable \<times> backfill) option" where
  "RunEnumPassForAppendBatch ex oldLineCount st =
     (let totalRows = length (mRows (tbl (fst st)))
      in if totalRows = 0 \<or> oldLineCount \<ge> totalRows then Some st
         else fold_option (enum_pass_column ex oldLineCount) [0..<length (ecolumns (fst st))] st)"

section \<open>The sweep at the end\<close>

definition finalize_candidate :: "externals \<Rightarrow> nat \<Rightarrow> EnumTable \<times> bool \<Rightarrow> (EnumTable \<times> bool) option" where
  "finalize_candidate ex i st =
     (case st of (T, promoted) \<Rightarrow>
      let column = ecolumns T ! i in
      if ctype column \<noteq> CtAny \<or> \<not> autoDetect column \<or> keys column = [] then Some st
      else let trackerKey = find_key ex (tbl T) (hd (keys column)) in
      if trackerKey = INVALID_KEY_ID then Some st
      else case mEnumTrackers T trackerKey of
        None \<Rightarrow> Some st
      | Some tr \<Rightarrow>
          if killed tr then Some (set_type i CtString T, promoted)
          else if promotable 2 T tr then map_option (\<lambda>T'. (T', True)) (PromoteColumnToEnum ex i T)
          else if trSize tr = 0 \<and> presenceCount tr > 0 then Some (set_type i (no_string_type tr) T, promoted)
          else Some st)"

definition finalize_demote :: "externals \<Rightarrow> nat \<Rightarrow> EnumTable \<Rightarrow> EnumTable option" where
  "finalize_demote ex i T =
     (let column = ecolumns T ! i in
      if (ctype column \<noteq> CtEnumeration \<and> ctype column \<noteq> CtLevel) \<or> \<not> autoDetect column \<or> keys column = [] then Some T
      else let canonical = find_key ex (tbl T) (hd (keys column)) in
      if canonical = INVALID_KEY_ID then Some T
      else case mEnumColumnHealth T canonical of
        None \<Rightarrow> Some T
      | Some h \<Rightarrow>
          if totalSlots h = 0 then Some T
          else if ShouldDemote ENUM_HEALTH_TOLERANCE_RATIO 1 h then DemoteColumnFromEnum ex i False T
          else Some T)"

definition FinalizeAutoDetection :: "externals \<Rightarrow> EnumTable \<Rightarrow> (EnumTable \<times> bool) option" where
  "FinalizeAutoDetection ex T =
     (case (if mEnumTrackers T = Map.empty then Some (T, False)
            else fold_option (finalize_candidate ex) [0..<length (ecolumns T)] (T, False)) of
        None \<Rightarrow> None
      | Some (T1, promoted) \<Rightarrow>
          map_option (\<lambda>T2. (T2\<lparr>mEnumTrackers := Map.empty, mIsStreaming := False\<rparr>, promoted))
            (fold_option (finalize_demote ex) [0..<length (ecolumns T1)] T1))"

section \<open>Rescanning one column\<close>

definition RescanColumnForAutoDetection :: "externals \<Rightarrow> nat \<Rightarrow> EnumTable \<Rightarrow> (ColumnType \<times> EnumTable) option" where
  "RescanColumnForAutoDetection ex i T =
     (if i \<ge> length (ecolumns T) then Some (CtAny, T)
      else let column = ecolumns T ! i in
      if ctype column \<noteq> CtAny \<or> \<not> autoDetect column \<or> keys column = [] then Some (ctype column, T)
      else if mRows (tbl T) = [] \<or> i \<ge> length (mColumnKeyIds (tbl T)) then Some (CtAny, T)
      else let ks = resolved_keys i T in
      if ks = [] then Some (CtAny, T)
      else let T1 = put_tracker (hd ks) None T;
               tr = scan_rows killed ks (source_at (tbl T1)) (mRows (tbl T1))
                      (new_Tracker (mEnumValueCap T1) (mEnumValueMaxLen T1))
           in map_option (\<lambda>T'. (ctype (ecolumns T' ! i), T'))
                (if killed tr then Some (set_type i CtString T1)
                 else if promotable 2 T1 tr then PromoteColumnToEnum ex i T1
                 else if trSize tr = 0 \<and> presenceCount tr > 0 then Some (set_type i (no_string_type tr) T1)
                 else Some T1))"

section \<open>Moving promoted columns\<close>

definition table_MoveColumn :: "nat \<Rightarrow> nat \<Rightarrow> LogTable \<Rightarrow> LogTable" where
  "table_MoveColumn src dest t =
     (let n = length (mColumnKeyIds t) in
      if src = dest \<or> src \<ge> n \<or> dest \<ge> n then t
      else t\<lparr>mConfiguration := MoveColumn src dest (mConfiguration t),
             mColumnKeyIds := (if src > dest then std_rotate dest src (src + 1) (mColumnKeyIds t)
                               else std_rotate src (src + 1) (dest + 1) (mColumnKeyIds t))\<rparr>)"

fun column_of_key :: "externals \<Rightarrow> LogTable \<Rightarrow> KeyId \<Rightarrow> nat \<Rightarrow> Column list \<Rightarrow> nat option" where
  "column_of_key ex t kid i [] = None"
| "column_of_key ex t kid i (c # cs) =
     (if list_ex (\<lambda>key. find_key ex t key = kid) (keys c) then Some i else column_of_key ex t kid (i + 1) cs)"

text \<open>\<open>-1\<close> is \<open>None\<close>.\<close>

definition FindColumnIndexByKey :: "externals \<Rightarrow> LogTable \<Rightarrow> KeyId \<Rightarrow> nat option" where
  "FindColumnIndexByKey ex t kid = (if kid = INVALID_KEY_ID then None else column_of_key ex t kid 0 (tcolumns t))"

definition TakePendingLevelBubbleKeys :: "EnumTable \<Rightarrow> KeyId list \<times> EnumTable" where
  "TakePendingLevelBubbleKeys T = (mPendingLevelBubbleKeys T, T\<lparr>mPendingLevelBubbleKeys := []\<rparr>)"

definition apply_bubble :: "externals \<Rightarrow> KeyId \<Rightarrow> LogTable \<Rightarrow> LogTable" where
  "apply_bubble ex kid t =
     (case FindColumnIndexByKey ex t kid of
        None \<Rightarrow> t
      | Some src \<Rightarrow>
          if ShouldBubbleLevelColumn (configuration (mConfiguration t)) src
          then table_MoveColumn src CANONICAL_LEVEL_COLUMN_INDEX t else t)"

definition ApplyPendingLevelBubbles :: "externals \<Rightarrow> EnumTable \<Rightarrow> EnumTable" where
  "ApplyPendingLevelBubbles ex T =
     (case TakePendingLevelBubbleKeys T of (pending, T1) \<Rightarrow> T1\<lparr>tbl := fold (apply_bubble ex) pending (tbl T1)\<rparr>)"

section \<open>Type health of a column\<close>

definition TagMatchesType :: "CompactTag \<Rightarrow> ColumnType \<Rightarrow> bool" where
  "TagMatchesType tg declaredType =
     (if tg = Monostate then False
      else case declaredType of
        CtAny \<Rightarrow> True
      | CtString \<Rightarrow> tg = MmapSlice \<or> tg = OwnedString \<or> tg = DictRef
      | CtBoolean \<Rightarrow> tg = Bool
      | CtInteger \<Rightarrow> tg = Int64 \<or> tg = Uint64
      | CtFloating \<Rightarrow> tg = Double
      | CtNumber \<Rightarrow> tg = Int64 \<or> tg = Uint64 \<or> tg = Double
      | CtTime \<Rightarrow> tg = Timestamp \<or> tg = Int64 \<or> tg = Uint64
      | CtEnumeration \<Rightarrow> tg = DictRef
      | CtLevel \<Rightarrow> tg = DictRef)"

record ColumnTypeHealth =
  healthTotal :: nat
  healthPresent :: nat
  healthMatching :: nat

definition type_health_row :: "KeyId list \<Rightarrow> ColumnType \<Rightarrow> LogLine \<Rightarrow> ColumnTypeHealth \<Rightarrow> ColumnTypeHealth" where
  "type_health_row ks ty line h =
     (case first_slot ks line of
        None \<Rightarrow> h
      | Some slot \<Rightarrow>
          if tag slot = Monostate then h
          else let h1 = h\<lparr>healthPresent := healthPresent h + 1\<rparr>
               in if TagMatchesType (tag slot) ty then h1\<lparr>healthMatching := healthMatching h1 + 1\<rparr> else h1)"

definition ComputeColumnTypeHealth :: "externals \<Rightarrow> nat \<Rightarrow> LogTable \<Rightarrow> ColumnTypeHealth" where
  "ComputeColumnTypeHealth ex i t =
     (if i \<ge> length (tcolumns t) then \<lparr>healthTotal = 0, healthPresent = 0, healthMatching = 0\<rparr>
      else let column = tcolumns t ! i;
               h0 = \<lparr>healthTotal = length (mRows t), healthPresent = 0, healthMatching = 0\<rparr>;
               ks = known_ids ex t (keys column)
           in if keys column = [] then h0
              else if ks = [] then h0
              else fold (\<lambda>(line, _). type_health_row ks (ctype column) line) (mRows t) h0)"

end
