(* ===== verification/Enum_Cells.thy ===== *)
theory Enum_Cells
  imports Enum_Detector
begin

text \<open>
  Encoding the text slots of a column and turning references back into text change how a cell is
  stored and never what it shows.  The library of this theory: slots under a source whose arenas
  grow, registries that grow, and the invariant of a table whose references resolve.
\<close>

section \<open>Values that show the same\<close>

lemma same_value_refl [simp]: "same_value v v"
  by (simp add: same_value_def split: option.split)

lemma same_value_sym: "same_value a b \<Longrightarrow> same_value b a"
  by (auto simp: same_value_def split: option.splits)

lemma same_value_trans: "same_value a b \<Longrightarrow> same_value b c \<Longrightarrow> same_value a c"
  by (auto simp: same_value_def split: option.splits)

lemma same_value_absent: "same_value a b \<Longrightarrow> a = VMonostate \<longleftrightarrow> b = VMonostate"
  by (auto simp: same_value_def AsStringView_def split: option.splits LogValue.splits)

lemma same_valueI: "AsStringView a = Some s \<Longrightarrow> AsStringView b = Some s \<Longrightarrow> same_value a b"
  by (simp add: same_value_def)

section \<open>Arenas that grow\<close>

definition grows :: "LineSource \<Rightarrow> LineSource \<Rightarrow> bool" where
  "grows src src' \<longleftrightarrow> source_inv src \<and> source_inv src' \<and> StableBytes src' = StableBytes src \<and>
     mEnumDictionaries src' = mEnumDictionaries src \<and> (\<forall>off n. ResolveMmapBytes off n src' = ResolveMmapBytes off n src) \<and>
     (\<forall>l a. source_arena src l = Some a \<longrightarrow> (\<exists>t. source_arena src' l = Some (a @ t)))"

lemma grows_refl: "source_inv src \<Longrightarrow> grows src src"
  by (simp add: grows_def)

lemma grows_trans: "grows a b \<Longrightarrow> grows b c \<Longrightarrow> grows a c"
  by (fastforce simp: grows_def)

lemma grows_inv: "grows a b \<Longrightarrow> source_inv a \<and> source_inv b"
  by (simp add: grows_def)

lemma AppendOwnedBytes_grows:
  "source_inv src \<Longrightarrow> AppendOwnedBytes l b src = Some (off, src') \<Longrightarrow> grows src src'"
  using source_arena.inv_append source_arena.append_other AppendOwnedBytes_frame
  by (simp add: grows_def)

lemma grows_fits:
  assumes "grows src src'" "source_fits src'"
  shows "source_fits src"
  unfolding source_fits_def
proof (intro conjI allI impI)
  show "length (StableBytes src) < 2 ^ 63" using assms by (simp add: grows_def source_fits_def)
  fix l a assume "source_arena src l = Some a"
  then obtain t where "source_arena src' l = Some (a @ t)" using assms(1) unfolding grows_def by blast
  then have "length (a @ t) < 2 ^ 63" using assms(2) unfolding source_fits_def by blast
  then show "length a < 2 ^ 63" by simp
qed

lemma grows_slot_ok: "grows src src' \<Longrightarrow> slot_ok src l c \<Longrightarrow> slot_ok src' l c"
  by (fastforce simp: slot_ok_def grows_def)

lemma grows_owned:
  assumes "grows src src'" "source_fits src'" "slot_ok src l c" "tag c = OwnedString"
  shows "ResolveOwnedBytes (payload c) (aux c) l src' = ResolveOwnedBytes (payload c) (aux c) l src"
proof -
  obtain a where a: "source_arena src l = Some a" "unat (payload c) + unat (aux c) \<le> length a"
    using assms(3,4) by (auto simp: slot_ok_def)
  then obtain t where t: "source_arena src' l = Some (a @ t)" using assms(1) unfolding grows_def by blast
  have "length (a @ t) < 2 ^ 63" using t assms(2) unfolding source_fits_def by blast
  then have "slice_at (a @ t) (payload c) (aux c) = slice_at a (payload c) (aux c)"
    using a(2) by (rule slice_at_extend)
  then show ?thesis
    using a(1) t grows_inv [OF assms(1)] by (simp add: source_arena.resolve_slice)
qed

text \<open>A slot under sources that may differ in their registries.\<close>

lemma Materialise_grows:
  assumes "grows src src'" "source_fits src'" "slot_ok src l c"
  shows "Materialise c (Some src') l k = Materialise c (Some src) l k"
  using assms grows_owned [OF assms]
  by (auto simp: Materialise_def materialise_dict_ref_def grows_def split: CompactTag.split)

section \<open>Slots of a line\<close>

lemma put_slot_find:
  assumes "FindCompact k line = Some c0" "sorted_fields (mData (mFields line))"
  shows "FindCompact j (put_slot k c line) = (if j = k then Some c else FindCompact j line)"
proof -
  have "find_compact j (map (\<lambda>(i, v). (i, if i = k then c else v)) fs) =
      (if j = k then map_option (\<lambda>_. c) (find_compact j fs) else find_compact j fs)" for fs
    by (induction fs) auto
  then show ?thesis using assms(1) by (simp add: put_slot_def FindCompact_def)
qed

lemma put_slot_keys [simp]: "map fst (mData (mFields (put_slot k c line))) = map fst (mData (mFields line))"
  by (simp add: put_slot_def comp_def case_prod_beta)

lemma put_slot_sorted [simp]: "sorted_fields (mData (mFields (put_slot k c line))) = sorted_fields (mData (mFields line))"
  by (simp add: sorted_fields_def)

lemma put_slot_id [simp]: "mLineId (put_slot k c line) = mLineId line"
  by (simp add: put_slot_def)

lemma Peek_text:
  assumes "PeekStringView c (Some src) line = Some bytes"
  shows "AsStringView (Materialise c (Some src) (mLineId line) k) = Some bytes" "tag c \<noteq> DictRef"
  using assms
  by (auto simp: PeekStringView_def Materialise_def AsStringView_def Let_def split: if_splits CompactTag.split)

section \<open>Registries that grow\<close>

definition reg_ext :: "EnumDictionaryRegistry \<Rightarrow> EnumDictionaryRegistry \<Rightarrow> bool" where
  "reg_ext r r' \<longleftrightarrow> (\<forall>k d. reg_Find r k = Some d \<longrightarrow> (\<exists>d' t. reg_Find r' k = Some d' \<and> mValues d' = mValues d @ t))"

lemma reg_ext_refl [simp]: "reg_ext r r"
  by (simp add: reg_ext_def)

lemma reg_ext_trans: "reg_ext a b \<Longrightarrow> reg_ext b c \<Longrightarrow> reg_ext a c"
  by (fastforce simp: reg_ext_def)

lemma reg_inv_canonical:
  assumes "reg_inv r" "mRegIndex r k = Some c"
  shows "mRegIndex r c = Some c" "\<exists>e. mDictionaries r c = Some e \<and> k \<in> set (aliases e)"
  using reg_invD(1,2) [OF assms(1)] assms(2) by blast+

lemma reg_Insert_index [simp]: "mRegIndex (snd (reg_Insert c bytes r)) = mRegIndex r"
  by (simp add: reg_Insert_def Let_def split: option.split prod.split)

lemma reg_ext_GetOrInsert: "reg_inv r \<Longrightarrow> reg_ext r (snd (reg_GetOrInsert k cap r))"
  using reg_inv_canonical [of r]
  by (fastforce simp: reg_ext_def reg_GetOrInsert_def reg_Find_def split: option.splits)

lemma reg_ext_Alias: "reg_inv r \<Longrightarrow> reg_ext r (snd (reg_Alias c k r))"
  using reg_inv_canonical [of r]
  by (fastforce simp: reg_ext_def reg_Alias_def reg_Find_def split: option.splits)

lemma dict_Insert_extends:
  assumes "dict_inv d"
  obtains t where "mValues (snd (dict_Insert s d)) = mValues d @ t"
  by (cases rule: dict_Insert_cases [OF assms, of s]) auto

lemma reg_ext_Insert:
  assumes "reg_inv r"
  shows "reg_ext r (snd (reg_Insert c bytes r))"
proof (cases "\<exists>c' e. mRegIndex r c = Some c' \<and> mDictionaries r c' = Some e")
  case True
  then obtain c' e where ce: "mRegIndex r c = Some c'" "mDictionaries r c' = Some e" by blast
  obtain t where "mValues (snd (dict_Insert bytes (entry_dict e))) = mValues (entry_dict e) @ t"
    using dict_Insert_extends reg_invD(3) [OF assms ce(2)] by metis
  then show ?thesis
    unfolding reg_Insert_unfold [OF ce] by (auto simp: reg_ext_def reg_Find_def ce(2) split: option.splits)
next
  case False
  then have "snd (reg_Insert c bytes r) = r" by (auto simp: reg_Insert_def split: option.splits)
  then show ?thesis by simp
qed

lemma reg_Insert_found:
  assumes "reg_inv r" "mRegIndex r k = Some c" "reg_Insert c bytes r = (vid, r')" "vid \<noteq> INVALID_ENUM_VALUE_ID"
  obtains d where "reg_Find r' k = Some d" "unat vid < length (mValues d)" "dict_Resolve d vid = bytes"
proof -
  obtain e where e: "mRegIndex r c = Some c" "mDictionaries r c = Some e"
    using reg_inv_canonical [OF assms(1,2)] by blast
  have d: "dict_inv (entry_dict e)" using reg_invD(3) [OF assms(1) e(2)] .
  let ?d = "snd (dict_Insert bytes (entry_dict e))"
  have vid: "dict_Insert bytes (entry_dict e) = (vid, ?d)"
    and r': "mDictionaries r' c = Some (e\<lparr>entry_dict := ?d\<rparr>)" "mRegIndex r' = mRegIndex r"
    using assms(3) reg_Insert_unfold [OF e, of bytes] by auto
  have "dict_Find ?d bytes = vid" "dict_Resolve ?d vid = bytes"
    using dict_Insert_resolves [OF d vid assms(4)] by auto
  moreover from this have "mIndex ?d bytes = Some vid" using assms(4) by (auto simp: dict_Find_def split: option.splits)
  ultimately show thesis
    using r' assms(2) dict_inv_Insert [OF d, of bytes] by (intro that [of ?d]) (auto simp: reg_Find_def dict_inv_def)
qed

section \<open>What a line shows under a registry\<close>

abbreviation with_reg :: "EnumDictionaryRegistry \<Rightarrow> LineSource \<Rightarrow> LineSource" where
  "with_reg reg src \<equiv> src\<lparr>mEnumDictionaries := Some reg\<rparr>"

definition line_value :: "EnumDictionaryRegistry \<Rightarrow> LineSource \<Rightarrow> KeyId \<Rightarrow> LogLine \<Rightarrow> LogValue" where
  "line_value reg src k line = GetValue_id k (Some (with_reg reg src)) line"

definition slot_fine :: "EnumDictionaryRegistry \<Rightarrow> LineSource \<Rightarrow> nat \<Rightarrow> KeyId \<Rightarrow> CompactLogValue \<Rightarrow> bool" where
  "slot_fine reg src l k c \<longleftrightarrow> slot_ok src l c \<and>
     (tag c = DictRef \<longrightarrow> (\<exists>d. reg_Find reg k = Some d \<and> unat (ucast (payload c) :: 16 word) < length (mValues d)))"

definition line_fine :: "EnumDictionaryRegistry \<Rightarrow> LineSource \<Rightarrow> LogLine \<Rightarrow> bool" where
  "line_fine reg src line \<longleftrightarrow> sorted_fields (mData (mFields line)) \<and>
     (\<forall>k c. FindCompact k line = Some c \<longrightarrow> slot_fine reg src (mLineId line) k c)"

lemma with_reg_reads [simp]:
  "ResolveMmapBytes off n (src\<lparr>mEnumDictionaries := e\<rparr>) = ResolveMmapBytes off n src"
  "ResolveOwnedBytes off n l (src\<lparr>mEnumDictionaries := e\<rparr>) = ResolveOwnedBytes off n l src"
  "source_arena (src\<lparr>mEnumDictionaries := e\<rparr>) l = source_arena src l"
  "source_inv (src\<lparr>mEnumDictionaries := e\<rparr>) = source_inv src"
  "StableBytes (src\<lparr>mEnumDictionaries := e\<rparr>) = StableBytes src"
  "source_fits (src\<lparr>mEnumDictionaries := e\<rparr>) = source_fits src"
  "slot_ok (src\<lparr>mEnumDictionaries := e\<rparr>) l c = slot_ok src l c"
  by (simp_all add: ResolveMmapBytes_def ResolveOwnedBytes_def source_arena_def source_inv_def StableBytes_def
      source_fits_def slot_ok_def)

lemma Peek_with_reg [simp]: "PeekStringView c (Some (src\<lparr>mEnumDictionaries := e\<rparr>)) line = PeekStringView c (Some src) line"
  by (simp add: PeekStringView_def)

lemma line_value_wired: "mEnumDictionaries src = Some reg \<Longrightarrow> line_value reg src k line = GetValue_id k (Some src) line"
proof -
  assume "mEnumDictionaries src = Some reg"
  then have "with_reg reg src = src" by simp
  then show ?thesis by (simp add: line_value_def)
qed

lemma slot_value_ext:
  assumes "reg_ext reg reg'" "slot_fine reg src l k c"
  shows "Materialise c (Some (with_reg reg' src)) l k = Materialise c (Some (with_reg reg src)) l k"
proof (cases "tag c = DictRef")
  case True
  then obtain d d' t where "reg_Find reg k = Some d" "unat (ucast (payload c) :: 16 word) < length (mValues d)"
      "reg_Find reg' k = Some d'" "mValues d' = mValues d @ t"
    using assms by (fastforce simp: slot_fine_def reg_ext_def)
  then show ?thesis using True
    by (simp add: Materialise_def materialise_dict_ref_def dict_Resolve_def nth_append)
qed (simp add: Materialise_def split: CompactTag.split)

lemma line_value_ext:
  "reg_ext reg reg' \<Longrightarrow> line_fine reg src line \<Longrightarrow> line_value reg' src k line = line_value reg src k line"
  using slot_value_ext by (auto simp: line_value_def GetValue_id_def line_fine_def split: option.split)

lemma slot_fine_ext: "reg_ext reg reg' \<Longrightarrow> slot_fine reg src l k c \<Longrightarrow> slot_fine reg' src l k c"
  by (fastforce simp: slot_fine_def reg_ext_def)

lemma line_fine_ext: "reg_ext reg reg' \<Longrightarrow> line_fine reg src line \<Longrightarrow> line_fine reg' src line"
  using slot_fine_ext by (auto simp: line_fine_def)

lemma slot_fine_grows: "grows src src' \<Longrightarrow> slot_fine reg src l k c \<Longrightarrow> slot_fine reg src' l k c"
  using grows_slot_ok by (auto simp: slot_fine_def)

lemma line_fine_grows: "grows src src' \<Longrightarrow> line_fine reg src line \<Longrightarrow> line_fine reg src' line"
  using slot_fine_grows by (auto simp: line_fine_def)

lemma grows_with_reg: "grows src src' \<Longrightarrow> grows (with_reg reg src) (with_reg reg src')"
  by (simp add: grows_def)

lemma line_value_grows:
  assumes "grows src src'" "source_fits src'" "line_fine reg src line"
  shows "line_value reg src' k line = line_value reg src k line"
  using assms Materialise_grows [OF grows_with_reg [OF assms(1)], of reg]
  by (auto simp: line_value_def GetValue_id_def line_fine_def slot_fine_def split: option.split)

section \<open>Encoding keeps what is shown\<close>

definition short_texts :: "EnumDictionaryRegistry \<Rightarrow> bool" where
  "short_texts reg \<longleftrightarrow> (\<forall>k d. reg_Find reg k = Some d \<longrightarrow> (\<forall>v\<in>set (mValues d). length v < 2 ^ 32))"

text \<open>The registry a loop works on: sound, and all keys of the column share its dictionary.\<close>

definition shared_dict :: "EnumDictionaryRegistry \<Rightarrow> KeyId \<Rightarrow> KeyId list \<Rightarrow> bool" where
  "shared_dict reg c ks \<longleftrightarrow> reg_inv reg \<and> (\<forall>k\<in>set ks. k \<noteq> INVALID_KEY_ID \<and> mRegIndex reg k = Some c)"

lemma shared_dict_Insert: "shared_dict reg c ks \<Longrightarrow> shared_dict (snd (reg_Insert c bytes reg)) c ks"
  by (simp add: shared_dict_def reg_inv_Insert)

text \<open>What one row can do: nothing, fill the dictionary in vain, or encode one slot.\<close>

lemma encode_slots_cases:
  "encode_slots c maxLen source ks a b line reg = (out, line', reg') \<Longrightarrow>
   (line' = line \<and> (reg' = reg \<or>
      (\<exists>slot bytes. PeekStringView slot source line = Some bytes \<and> reg' = snd (reg_Insert c bytes reg)))) \<or>
   (\<exists>k\<in>set ks. \<exists>slot bytes vid. FindCompact k line = Some slot \<and> PeekStringView slot source line = Some bytes \<and>
      reg_Insert c bytes reg = (vid, reg') \<and> vid \<noteq> INVALID_ENUM_VALUE_ID \<and> line' = put_slot k (MakeDictRef vid) line)"
proof (induction ks arbitrary: a b)
  case (Cons k ks)
  show ?case
  proof (cases "FindCompact k line")
    case None
    then have "encode_slots c maxLen source ks a b line reg = (out, line', reg')" using Cons.prems by simp
    from Cons.IH [OF this] show ?thesis by (meson list.set_intros(2))
  next
    case (Some slot)
    show ?thesis
    proof (cases "tag slot = DictRef")
      case True
      then show ?thesis using Cons.prems Some by simp
    next
      case False
      show ?thesis
      proof (cases "PeekStringView slot source line")
        case None
        then have "encode_slots c maxLen source ks a True line reg = (out, line', reg')"
          using Cons.prems Some False by simp
        from Cons.IH [OF this] show ?thesis by (meson list.set_intros(2))
      next
        case bytes: (Some bytes)
        obtain vid reg1 where ins: "reg_Insert c bytes reg = (vid, reg1)" by force
        show ?thesis
        proof (cases "maxLen \<noteq> 0 \<and> length bytes > unat maxLen")
          case True
          then have "encode_slots c maxLen source ks True b line reg = (out, line', reg')"
            using Cons.prems Some False bytes by simp
          from Cons.IH [OF this] show ?thesis by (meson list.set_intros(2))
        next
          case short: False
          then have res: "(if vid = INVALID_ENUM_VALUE_ID then (DictFull, line, reg1)
              else (Encoded, put_slot k (MakeDictRef vid) line, reg1)) = (out, line', reg')"
            using Cons.prems Some False bytes ins by (auto simp: Let_def)
          have reg1: "reg1 = snd (reg_Insert c bytes reg)" using ins by simp
          show ?thesis
          proof (cases "vid = INVALID_ENUM_VALUE_ID")
            case True
            then have "line' = line" "reg' = snd (reg_Insert c bytes reg)" using res reg1 by simp_all
            then show ?thesis using bytes by blast
          next
            case False
            then have "line' = put_slot k (MakeDictRef vid) line" "reg' = reg1" using res by simp_all
            then show ?thesis using Some bytes ins False by (metis list.set_intros(1))
          qed
        qed
      qed
    qed
  qed
qed simp

lemma encode_slots_registry:
  assumes "encode_slots c maxLen source ks a b line reg = (out, line', reg')" "shared_dict reg c js"
  shows "shared_dict reg' c js \<and> reg_ext reg reg' \<and> mRegIndex reg' = mRegIndex reg"
proof -
  have "reg_inv reg" using assms(2) by (simp add: shared_dict_def)
  have "reg' = reg \<or> (\<exists>bytes. reg' = snd (reg_Insert c bytes reg))"
    using encode_slots_cases [OF assms(1)] by (metis snd_conv)
  then show ?thesis
    using shared_dict_Insert [OF assms(2)] reg_ext_Insert [OF \<open>reg_inv reg\<close>] assms(2) by auto
qed

lemma slice_at_short: "length (slice_at a off n) < 2 ^ 32"
proof -
  have "length (slice_at a off n) \<le> unat n" by (simp add: slice_at_def)
  also have "\<dots> < 2 ^ 32" using unsigned_less [of n] by simp
  finally show ?thesis .
qed

lemma Peek_short: "PeekStringView slot source line = Some bytes \<Longrightarrow> length bytes < 2 ^ 32"
  using slice_at_short
  by (auto simp: PeekStringView_def ResolveMmapBytes_def ResolveOwnedBytes_def stream_ResolveOwned_def Let_def
      split: option.splits if_splits SourceImpl.splits)

lemma short_texts_Insert:
  assumes "reg_inv r" "short_texts r" "length bytes < 2 ^ 32"
  shows "short_texts (snd (reg_Insert c bytes r))"
proof (cases "\<exists>c' e. mRegIndex r c = Some c' \<and> mDictionaries r c' = Some e")
  case True
  then obtain c' e where ce: "mRegIndex r c = Some c'" "mDictionaries r c' = Some e" by blast
  have "reg_Find r c = Some (entry_dict e)" using ce by (simp add: reg_Find_def)
  then have old: "\<forall>v\<in>set (mValues (entry_dict e)). length v < 2 ^ 32"
    using assms(2) unfolding short_texts_def by blast
  have "set (mValues (snd (dict_Insert bytes (entry_dict e)))) \<subseteq> insert bytes (set (mValues (entry_dict e)))"
    by (cases rule: dict_Insert_cases [OF reg_invD(3) [OF assms(1) ce(2)], of bytes]) auto
  then have new: "\<forall>v\<in>set (mValues (snd (dict_Insert bytes (entry_dict e)))). length v < 2 ^ 32"
    using old assms(3) by blast
  show ?thesis
    unfolding reg_Insert_unfold [OF ce] short_texts_def
  proof (intro allI impI)
    fix k d assume k: "reg_Find (snd (fst (dict_Insert bytes (entry_dict e)),
        r\<lparr>mDictionaries := (mDictionaries r)(c' \<mapsto> e\<lparr>entry_dict := snd (dict_Insert bytes (entry_dict e))\<rparr>)\<rparr>)) k = Some d"
    then have "d = snd (dict_Insert bytes (entry_dict e)) \<or> reg_Find r k = Some d"
      by (auto simp: reg_Find_def split: option.splits if_splits)
    then show "\<forall>v\<in>set (mValues d). length v < 2 ^ 32" using new assms(2) unfolding short_texts_def by blast
  qed
next
  case False
  then have "snd (reg_Insert c bytes r) = r" by (auto simp: reg_Insert_def split: option.splits)
  then show ?thesis using assms(2) by simp
qed

lemma encode_slots_short:
  assumes "encode_slots c maxLen source ks a b line reg = (out, line', reg')" "shared_dict reg c js" "short_texts reg"
  shows "short_texts reg'"
proof -
  have "reg_inv reg" using assms(2) by (simp add: shared_dict_def)
  have "reg' = reg \<or> (\<exists>slot bytes. PeekStringView slot source line = Some bytes \<and> reg' = snd (reg_Insert c bytes reg))"
    using encode_slots_cases [OF assms(1)] by (metis snd_conv)
  then show ?thesis using short_texts_Insert [OF \<open>reg_inv reg\<close> assms(3)] Peek_short assms(3) by blast
qed

lemma encode_slots_value:
  assumes "encode_slots c maxLen (Some src) ks a b line reg = (out, line', reg')"
    and "shared_dict reg c ks" "line_fine reg src line"
  shows "line_fine reg' src line'" "mLineId line' = mLineId line"
    "same_value (line_value reg' src j line') (line_value reg src j line)"
proof -
  have ext: "reg_ext reg reg'" using encode_slots_registry [OF assms(1,2)] by blast
  note fine = line_fine_ext [OF ext assms(3)] and ext_value = line_value_ext [OF ext assms(3)]
  have "line_fine reg' src line' \<and> mLineId line' = mLineId line \<and>
    same_value (line_value reg' src j line') (line_value reg src j line)"
  proof (cases "line' = line")
    case True
    then show ?thesis using fine ext_value by simp
  next
    case False
    then obtain k slot bytes vid where enc: "k \<in> set ks" "FindCompact k line = Some slot"
        "PeekStringView slot (Some src) line = Some bytes" "reg_Insert c bytes reg = (vid, reg')"
        "vid \<noteq> INVALID_ENUM_VALUE_ID" "line' = put_slot k (MakeDictRef vid) line"
      using encode_slots_cases [OF assms(1)] by blast
    have kc: "mRegIndex reg k = Some c" "k \<noteq> INVALID_KEY_ID" "reg_inv reg"
      using assms(2) enc(1) by (simp_all add: shared_dict_def)
    obtain d where d: "reg_Find reg' k = Some d" "unat vid < length (mValues d)" "dict_Resolve d vid = bytes"
      using reg_Insert_found [OF kc(3,1) enc(4,5)] by blast
    have sorted: "sorted_fields (mData (mFields line))" using assms(3) by (simp add: line_fine_def)
    note find = put_slot_find [OF enc(2) sorted, of _ "MakeDictRef vid"]
    have ref: "tag (MakeDictRef vid) = DictRef" "(ucast (payload (MakeDictRef vid)) :: 16 word) = vid"
      by (simp_all add: MakeDictRef_def ucast_up_ucast_id is_up)
    have "line_fine reg' src line'"
      using fine d ref sorted by (auto simp: line_fine_def enc(6) find slot_fine_def slot_ok_def)
    moreover have "same_value (line_value reg' src j line') (line_value reg src j line)"
    proof (cases "j = k")
      case True
      have "line_value reg' src k line' = VView None bytes"
        using d ref kc(2) by (simp add: line_value_def GetValue_id_def enc(6) find Materialise_def materialise_dict_ref_def)
      moreover have "AsStringView (line_value reg src k line) = Some bytes"
        using Peek_text(1) [of slot "with_reg reg src" line bytes k] enc(2,3)
        by (simp add: line_value_def GetValue_id_def)
      ultimately show ?thesis using True by (intro same_valueI [of _ bytes]) (simp_all add: AsStringView_def)
    next
      case False
      then have "line_value reg' src j line' = line_value reg' src j line"
        by (simp add: line_value_def GetValue_id_def enc(6) find split: option.split)
      then show ?thesis using ext_value by simp
    qed
    ultimately show ?thesis by (simp add: enc(6))
  qed
  then show "line_fine reg' src line'" "mLineId line' = mLineId line"
    "same_value (line_value reg' src j line') (line_value reg src j line)" by blast+
qed

section \<open>Rows\<close>

definition rows_fine :: "EnumDictionaryRegistry \<Rightarrow> LineSource list \<Rightarrow> (LogLine \<times> nat) list \<Rightarrow> bool" where
  "rows_fine reg srcs rows \<longleftrightarrow> (\<forall>(line, i)\<in>set rows. i < length srcs \<and> line_fine reg (srcs ! i) line)"

definition row_same ::
    "EnumDictionaryRegistry \<Rightarrow> LineSource list \<Rightarrow> LogLine \<times> nat \<Rightarrow>
     EnumDictionaryRegistry \<Rightarrow> LineSource list \<Rightarrow> LogLine \<times> nat \<Rightarrow> bool" where
  "row_same reg srcs r reg' srcs' r' \<longleftrightarrow> snd r' = snd r \<and> mLineId (fst r') = mLineId (fst r) \<and>
     (\<forall>k. same_value (line_value reg' (srcs' ! snd r) k (fst r')) (line_value reg (srcs ! snd r) k (fst r)))"

abbreviation rows_same ::
    "EnumDictionaryRegistry \<Rightarrow> LineSource list \<Rightarrow> (LogLine \<times> nat) list \<Rightarrow>
     EnumDictionaryRegistry \<Rightarrow> LineSource list \<Rightarrow> (LogLine \<times> nat) list \<Rightarrow> bool" where
  "rows_same reg srcs rows reg' srcs' rows' \<equiv> list_all2 (\<lambda>r r'. row_same reg srcs r reg' srcs' r') rows rows'"

lemma row_same_refl [simp]: "row_same reg srcs r reg srcs r"
  by (simp add: row_same_def)

lemma row_same_trans:
  "row_same reg srcs r reg1 srcs1 r1 \<Longrightarrow> row_same reg1 srcs1 r1 reg2 srcs2 r2 \<Longrightarrow> row_same reg srcs r reg2 srcs2 r2"
  by (auto simp: row_same_def intro: same_value_trans)

lemma rows_same_refl: "rows_same reg srcs rows reg srcs rows"
  by (rule list_all2_refl) simp

lemma rows_same_trans:
  "rows_same reg srcs rows reg1 srcs1 rows1 \<Longrightarrow> rows_same reg1 srcs1 rows1 reg2 srcs2 rows2
    \<Longrightarrow> rows_same reg srcs rows reg2 srcs2 rows2"
  by (rule list_all2_trans [OF row_same_trans])

lemma rows_same_ext:
  assumes "reg_ext reg reg'" "rows_fine reg srcs rows"
  shows "rows_same reg srcs rows reg' srcs rows" "rows_fine reg' srcs rows"
proof -
  show "rows_fine reg' srcs rows"
    using assms line_fine_ext by (fastforce simp: rows_fine_def)
  show "rows_same reg srcs rows reg' srcs rows"
    using assms(2)
  proof (induction rows)
    case (Cons r rows)
    then show ?case
      by (cases r) (auto simp: rows_fine_def row_same_def line_value_ext [OF assms(1)])
  qed simp
qed

lemma rows_update:
  assumes "r < length rows" "rows ! r = (line, i)" "rows_fine reg srcs rows" "reg_ext reg reg'"
    and "line_fine reg' (srcs ! i) line'" "mLineId line' = mLineId line"
    and "\<And>k. same_value (line_value reg' (srcs ! i) k line') (line_value reg (srcs ! i) k line)"
  shows "rows_fine reg' srcs (rows[r := (line', i)])"
    and "rows_same reg srcs rows reg' srcs (rows[r := (line', i)])"
proof -
  have i: "i < length srcs" using assms(1-3) nth_mem by (fastforce simp: rows_fine_def)
  note ext = rows_same_ext [OF assms(4,3)]
  show "rows_fine reg' srcs (rows[r := (line', i)])"
    using ext(2) assms(5) i set_update_subset_insert [of rows r "(line', i)"] by (fastforce simp: rows_fine_def)
  show "rows_same reg srcs rows reg' srcs (rows[r := (line', i)])"
    using ext(1) assms(1,2,6,7)
    by (auto simp: list_all2_conv_all_nth nth_list_update row_same_def)
qed

lemma encode_rows_same:
  assumes "encode_rows c maxLen (\<lambda>i. if i < length srcs then Some (srcs ! i) else None) ks rs rows reg h = (ok, rows', reg', h')"
    and "shared_dict reg c ks" "rows_fine reg srcs rows" "\<And>r. r \<in> set rs \<Longrightarrow> r < length rows" "short_texts reg"
  shows "short_texts reg' \<and> shared_dict reg' c ks \<and> reg_ext reg reg' \<and> mRegIndex reg' = mRegIndex reg \<and> rows_fine reg' srcs rows' \<and>
    rows_same reg srcs rows reg' srcs rows'"
  using assms
proof (induction rs arbitrary: rows reg h)
  case Nil
  then show ?case by (simp add: rows_same_refl)
next
  case (Cons r rs)
  obtain line i where row: "rows ! r = (line, i)" by force
  have r: "r < length rows" using Cons.prems(4) by simp
  then have "(line, i) \<in> set rows" using row nth_mem by metis
  then have fine: "i < length srcs" "line_fine reg (srcs ! i) line" using Cons.prems(3) by (auto simp: rows_fine_def)
  obtain out line' reg1 where enc: "encode_slots c maxLen (Some (srcs ! i)) ks False False line reg = (out, line', reg1)"
    by (metis prod_cases3)
  note reg1 = encode_slots_registry [OF enc Cons.prems(2)] and short = encode_slots_short [OF enc Cons.prems(2,5)] and vals = encode_slots_value [OF enc Cons.prems(2) fine(2)]
  have ext: "reg_ext reg reg1" using reg1 by blast
  note upd = rows_update [OF r row Cons.prems(3) ext vals]
  show ?case
  proof (cases "out = DictFull")
    case True
    then have "rows' = rows[r := (line', i)]" "reg' = reg1"
      using Cons.prems(1) row enc fine(1) by simp_all
    then show ?thesis using upd reg1 short by blast
  next
    case False
    then have rest: "encode_rows c maxLen (\<lambda>i. if i < length srcs then Some (srcs ! i) else None) ks rs (rows[r := (line', i)]) reg1
        (count_outcome out h) = (ok, rows', reg', h')"
      using Cons.prems(1) row enc fine(1) by simp
    have sd1: "shared_dict reg1 c ks" using reg1 by blast
    have ih: "short_texts reg' \<and> shared_dict reg' c ks \<and> reg_ext reg1 reg' \<and> mRegIndex reg' = mRegIndex reg1 \<and> rows_fine reg' srcs rows' \<and>
        rows_same reg1 srcs (rows[r := (line', i)]) reg' srcs rows'"
      by (rule Cons.IH [OF rest sd1 upd(1) _ short]) (simp add: Cons.prems(4))
    have "rows_same reg srcs rows reg' srcs rows'"
      using upd(2) ih by (blast intro: rows_same_trans)
    moreover have "reg_ext reg reg'" using ext ih by (blast intro: reg_ext_trans)
    ultimately show ?thesis using ih reg1 by simp
  qed
qed

section \<open>Turning references back into text\<close>

text \<open>The slot holds the text at the place in the arena where it was appended.\<close>

definition text_slot :: "LineSource \<Rightarrow> nat \<Rightarrow> CompactLogValue \<Rightarrow> string \<Rightarrow> bool" where
  "text_slot src l c bytes \<longleftrightarrow> tag c = OwnedString \<and>
     (\<exists>a t. source_arena src l = Some (a @ bytes @ t) \<and> payload c = word_of_nat (length a) \<and>
       aux c = word_of_nat (length bytes))"

lemma text_slot_grows: "grows src src' \<Longrightarrow> text_slot src l c bytes \<Longrightarrow> text_slot src' l c bytes"
  unfolding text_slot_def grows_def by (metis append.assoc)

lemma text_slot_read:
  assumes "source_inv src" "source_fits src" "text_slot src l c bytes" "length bytes < 2 ^ 32"
  shows "Materialise c (Some src) l k = VString bytes" "slot_ok src l c"
proof -
  obtain a t where a: "source_arena src l = Some (a @ bytes @ t)" "payload c = word_of_nat (length a)"
      "aux c = word_of_nat (length bytes)" "tag c = OwnedString"
    using assms(3) by (auto simp: text_slot_def)
  have len: "length (a @ bytes @ t) < 2 ^ 63" using assms(2) a(1) unfolding source_fits_def by blast
  then have n: "unat (payload c) = length a" "unat (aux c) = length bytes"
    using a(2,3) assms(4) by (simp_all add: unat_of_nat)
  have "slice_at ((a @ bytes) @ t) (payload c) (aux c) = slice_at (a @ bytes) (payload c) (aux c)"
    using len n by (intro slice_at_extend) simp_all
  also have "\<dots> = bytes" using len assms(4) a(2,3) slice_at_append [of a bytes] by simp
  finally show "Materialise c (Some src) l k = VString bytes"
    using a assms(1) by (simp add: Materialise_def source_arena.resolve_slice)
  show "slot_ok src l c" using a(1) n by (simp add: slot_ok_def)
qed

lemma AppendOwned_text_slot:
  assumes "source_inv src" "AppendOwnedBytes l bytes src = Some (off, src')"
  shows "text_slot src' l (MakeOwnedString off (word_of_nat (length bytes))) bytes"
proof -
  obtain a where a: "source_arena src l = Some a"
    using source_arena.append_dead [OF assms(1), of l bytes] assms(2) by (cases "source_arena src l") auto
  have "source_arena src' l = Some (a @ bytes @ [])" "off = word_of_nat (length a)"
    using source_arena.append_here [OF assms a] by simp_all
  then show ?thesis unfolding text_slot_def by (metis MakeOwnedString_def CompactLogValue.select_convs)
qed

abbreviation all_grow :: "LineSource list \<Rightarrow> LineSource list \<Rightarrow> bool" where
  "all_grow \<equiv> list_all2 grows"

lemma all_grow_refl: "(\<And>src. src \<in> set srcs \<Longrightarrow> source_inv src) \<Longrightarrow> all_grow srcs srcs"
  by (simp add: list_all2_same grows_refl)

lemma all_grow_trans: "all_grow a b \<Longrightarrow> all_grow b c \<Longrightarrow> all_grow a c"
  by (rule list_all2_trans [OF grows_trans])

lemma all_grow_nth: "all_grow a b \<Longrightarrow> i < length a \<Longrightarrow> grows (a ! i) (b ! i)"
  by (rule list_all2_nthD)

lemma all_grow_inv: "all_grow a b \<Longrightarrow> src \<in> set b \<Longrightarrow> source_inv src"
  using grows_inv by (fastforce simp: list_all2_conv_all_nth in_set_conv_nth)

lemma all_grow_update:
  "(\<And>src. src \<in> set srcs \<Longrightarrow> source_inv src) \<Longrightarrow> grows (srcs ! i) src' \<Longrightarrow> all_grow srcs (srcs[i := src'])"
  unfolding list_all2_conv_all_nth length_list_update
proof (intro conjI allI impI refl)
  fix j assume "\<And>src. src \<in> set srcs \<Longrightarrow> source_inv src" "grows (srcs ! i) src'" "j < length srcs"
  then show "grows (srcs ! j) (srcs[i := src'] ! j)" by (cases "j = i") (simp_all add: grows_refl)
qed

text \<open>How one slot of a demoted row changes; \<open>src'\<close> is the source in the end.\<close>

definition slot_demoted ::
    "EnumDictionary option \<Rightarrow> KeyId list \<Rightarrow> LineSource \<Rightarrow> LogLine \<Rightarrow> LogLine \<Rightarrow> KeyId \<Rightarrow> bool" where
  "slot_demoted dict ks src' line line' k \<longleftrightarrow>
     (case FindCompact k line of
        None \<Rightarrow> FindCompact k line' = None
      | Some c \<Rightarrow>
          if k \<in> set ks \<and> tag c = DictRef
          then (\<exists>c'. FindCompact k line' = Some c' \<and> text_slot src' (mLineId line) c' (dict_text dict c))
          else FindCompact k line' = Some c)"

lemma slot_demoted_grows: "grows src src' \<Longrightarrow> slot_demoted dict ks src line line' k \<Longrightarrow> slot_demoted dict ks src' line line' k"
  using text_slot_grows by (fastforce simp: slot_demoted_def split: option.splits if_splits)

lemma demote_slots_result:
  assumes "demote_slots dict i ks line srcs = Some (line', srcs')" "sorted_fields (mData (mFields line))"
    and "i < length srcs" "\<And>src. src \<in> set srcs \<Longrightarrow> source_inv src"
  shows "all_grow srcs srcs' \<and> mLineId line' = mLineId line \<and> sorted_fields (mData (mFields line')) \<and>
    (\<forall>k. slot_demoted dict ks (srcs' ! i) line line' k)"
  using assms
proof (induction ks arbitrary: line srcs)
  case Nil
  then show ?case by (simp add: all_grow_refl slot_demoted_def split: option.split)
next
  case (Cons k ks)
  show ?case
  proof (cases "\<exists>c. FindCompact k line = Some c \<and> tag c = DictRef")
    case False
    then have step: "demote_slots dict i ks line srcs = Some (line', srcs')"
      using Cons.prems(1) by (auto split: option.splits if_splits)
    have "slot_demoted dict (k # ks) (srcs' ! i) line line' j = slot_demoted dict ks (srcs' ! i) line line' j" for j
      using False by (auto simp: slot_demoted_def split: option.split)
    then show ?thesis using Cons.IH [OF step Cons.prems(2-4)] by simp
  next
    case True
    then obtain c where c: "FindCompact k line = Some c" "tag c = DictRef" by blast
    let ?bytes = "dict_text dict c"
    obtain off src1 where app: "AppendOwnedBytes (mLineId line) ?bytes (srcs ! i) = Some (off, src1)"
      using Cons.prems(1,3) c by (auto simp: Let_def split: option.splits)
    let ?new = "MakeOwnedString off (word_of_nat (length ?bytes))" and ?srcs = "srcs[i := src1]"
    let ?line = "put_slot k ?new line"
    have step: "demote_slots dict i ks ?line ?srcs = Some (line', srcs')"
      using Cons.prems(1,3) c app by (simp add: Let_def)
    have inv: "source_inv (srcs ! i)" using Cons.prems(3,4) by simp
    have grow: "all_grow srcs ?srcs" by (rule all_grow_update [OF Cons.prems(4) AppendOwnedBytes_grows [OF inv app]])
    have i: "i < length ?srcs" using Cons.prems(3) by simp
    have sorted: "sorted_fields (mData (mFields ?line))" using Cons.prems(2) by simp
    have invs: "\<And>src. src \<in> set ?srcs \<Longrightarrow> source_inv src" by (rule all_grow_inv [OF grow])
    have ih: "all_grow ?srcs srcs' \<and> mLineId line' = mLineId line \<and> sorted_fields (mData (mFields line')) \<and>
        (\<forall>j. slot_demoted dict ks (srcs' ! i) ?line line' j)"
      using Cons.IH [OF step sorted i] invs by simp
    have find: "FindCompact j ?line = (if j = k then Some ?new else FindCompact j line)" for j
      by (rule put_slot_find [OF c(1) Cons.prems(2)])
    have "text_slot (?srcs ! i) (mLineId line) ?new ?bytes"
      using AppendOwned_text_slot [OF inv app] Cons.prems(3) by simp
    moreover have "grows (?srcs ! i) (srcs' ! i)" using ih i by (blast intro: all_grow_nth)
    ultimately have new: "text_slot (srcs' ! i) (mLineId line) ?new ?bytes" by (rule text_slot_grows [rotated])
    have "slot_demoted dict (k # ks) (srcs' ! i) line line' j" for j
    proof (cases "j = k")
      case True
      have "slot_demoted dict ks (srcs' ! i) ?line line' k" using ih by blast
      moreover have "FindCompact k ?line = Some ?new" "tag ?new \<noteq> DictRef"
        by (simp_all add: find) (simp add: MakeOwnedString_def)
      ultimately have "FindCompact k line' = Some ?new" unfolding slot_demoted_def by simp
      then show ?thesis using True c new by (simp add: slot_demoted_def)
    next
      case False
      have "slot_demoted dict ks (srcs' ! i) ?line line' j" using ih by blast
      then show ?thesis using False by (auto simp: slot_demoted_def find split: option.splits if_splits)
    qed
    moreover have "all_grow srcs srcs'" using grow ih by (blast intro: all_grow_trans)
    ultimately show ?thesis using ih by simp
  qed
qed

definition row_demoted ::
    "EnumDictionary option \<Rightarrow> KeyId list \<Rightarrow> LineSource list \<Rightarrow> LogLine \<times> nat \<Rightarrow> LogLine \<times> nat \<Rightarrow> bool" where
  "row_demoted dict ks srcs' r r' \<longleftrightarrow> snd r' = snd r \<and> mLineId (fst r') = mLineId (fst r) \<and>
     sorted_fields (mData (mFields (fst r'))) \<and> (\<forall>k. slot_demoted dict ks (srcs' ! snd r) (fst r) (fst r') k)"

lemma demote_rows_result:
  assumes "demote_rows dict ks rows srcs = Some (rows', srcs')" "\<And>src. src \<in> set srcs \<Longrightarrow> source_inv src"
    and "\<And>line i. (line, i) \<in> set rows \<Longrightarrow> i < length srcs \<and> sorted_fields (mData (mFields line))"
  shows "all_grow srcs srcs' \<and> list_all2 (row_demoted dict ks srcs') rows rows'"
  using assms
proof (induction rows arbitrary: srcs rows')
  case Nil
  then show ?case by (simp add: all_grow_refl)
next
  case (Cons r rows)
  obtain line i where r: "r = (line, i)" by force
  have i: "i < length srcs" "sorted_fields (mData (mFields line))" using Cons.prems(3) r by auto
  obtain line' srcs1 where one: "demote_slots dict i ks line srcs = Some (line', srcs1)"
    using Cons.prems(1) r by (auto split: option.splits)
  obtain rows1 where rest: "demote_rows dict ks rows srcs1 = Some (rows1, srcs')" "rows' = (line', i) # rows1"
    using Cons.prems(1) r one by auto
  note row = demote_slots_result [OF one i(2,1) Cons.prems(2)]
  have len: "length srcs1 = length srcs" using row list_all2_lengthD by metis
  have ih: "all_grow srcs1 srcs' \<and> list_all2 (row_demoted dict ks srcs') rows rows1"
  proof (rule Cons.IH [OF rest(1)])
    show "source_inv src" if "src \<in> set srcs1" for src using row that all_grow_inv by blast
    show "j < length srcs1 \<and> sorted_fields (mData (mFields l))" if "(l, j) \<in> set rows" for l j
      using Cons.prems(3) [of l j] that len by simp
  qed
  have "grows (srcs1 ! i) (srcs' ! i)" using ih i(1) len all_grow_nth by simp
  then have "row_demoted dict ks srcs' (line, i) (line', i)"
    using row slot_demoted_grows by (auto simp: row_demoted_def)
  then show ?case using row ih rest(2) r by (blast intro: all_grow_trans list_all2_Cons [THEN iffD2])
qed

lemma row_demoted_same:
  assumes "row_demoted dict ks srcs' (line, i) (line', i')" "line_fine reg (srcs ! i) line"
    and "grows (srcs ! i) (srcs' ! i)" "source_fits (srcs' ! i)" "short_texts reg"
    and dict: "\<And>k. k \<in> set ks \<Longrightarrow> k \<noteq> INVALID_KEY_ID \<and> (reg_Find reg k = dict \<or> reg_Find reg k = None)"
    and other: "\<And>k. k \<notin> set ks \<Longrightarrow> reg_Find reg' k = reg_Find reg k"
  shows "line_fine reg' (srcs' ! i) line'" "same_value (line_value reg' (srcs' ! i) k line') (line_value reg (srcs ! i) k line)"
proof -
  have id: "mLineId line' = mLineId line" and sorted: "sorted_fields (mData (mFields line'))"
    and slots: "\<And>k. slot_demoted dict ks (srcs' ! i) line line' k"
    using assms(1) by (auto simp: row_demoted_def)
  have inv: "source_inv (srcs' ! i)" using grows_inv [OF assms(3)] by blast
  have fine: "line_fine reg (srcs' ! i) line" by (rule line_fine_grows [OF assms(3,2)])
  have keep: "line_value reg (srcs' ! i) k line = line_value reg (srcs ! i) k line"
    by (rule line_value_grows [OF assms(3,4,2)])
  have slot: "slot_fine reg' (srcs' ! i) (mLineId line') k c' \<and>
      same_value (Materialise c' (Some (with_reg reg' (srcs' ! i))) (mLineId line') k)
        (Materialise c (Some (with_reg reg (srcs' ! i))) (mLineId line) k)"
    if c: "FindCompact k line = Some c" and c': "FindCompact k line' = Some c'" for k c c'
  proof -
    have old: "slot_fine reg (srcs' ! i) (mLineId line) k c" using fine c by (simp add: line_fine_def)
    show ?thesis
    proof (cases "k \<in> set ks \<and> tag c = DictRef")
      case True
      have "text_slot (srcs' ! i) (mLineId line) c' (dict_text dict c)"
        using slots [of k] c c' True by (simp add: slot_demoted_def)
      moreover obtain d where d: "reg_Find reg k = Some d" "unat (ucast (payload c) :: 16 word) < length (mValues d)"
        using old True by (auto simp: slot_fine_def)
      have kinv: "k \<noteq> INVALID_KEY_ID" using dict True by blast
      have "dict = Some d" using dict [of k] d(1) True by auto
      then have shown: "dict_text dict c = mValues d ! unat (ucast (payload c) :: 16 word)"
        using d(2) by (simp add: dict_text_def dict_Resolve_def)
      then have "length (dict_text dict c) < 2 ^ 32"
        using assms(5) d nth_mem unfolding short_texts_def by metis
      ultimately have new: "Materialise c' (Some (with_reg reg' (srcs' ! i))) (mLineId line) k = VString (dict_text dict c)"
          "slot_ok (srcs' ! i) (mLineId line) c'"
        using text_slot_read(1) [of "with_reg reg' (srcs' ! i)" "mLineId line" c' "dict_text dict c" k]
          text_slot_read(2) [of "srcs' ! i" "mLineId line" c' "dict_text dict c"] inv assms(4)
        by (simp_all add: text_slot_def)
      have "tag c' = OwnedString" using \<open>text_slot _ _ _ _\<close> by (simp add: text_slot_def)
      moreover have "Materialise c (Some (with_reg reg (srcs' ! i))) (mLineId line) k = VView None (dict_text dict c)"
        using True d kinv shown by (simp add: Materialise_def materialise_dict_ref_def dict_Resolve_def)
      ultimately show ?thesis
        using new id by (auto simp: slot_fine_def intro: same_valueI [of _ "dict_text dict c"] simp: AsStringView_def)
    next
      case False
      then have eq: "c' = c" using slots [of k] c c' by (simp add: slot_demoted_def)
      show ?thesis
      proof (cases "tag c = DictRef")
        case True
        then have "reg_Find reg' k = reg_Find reg k" using False other by blast
        then show ?thesis using old id True
          by (simp add: eq slot_fine_def Materialise_def materialise_dict_ref_def)
      next
        case plain: False
        then show ?thesis using old id
          by (simp add: eq slot_fine_def Materialise_def split: CompactTag.split)
      qed
    qed
  qed
  have find: "FindCompact k line' = None \<longleftrightarrow> FindCompact k line = None" for k
    using slots [of k] by (auto simp: slot_demoted_def split: option.splits if_splits)
  show "line_fine reg' (srcs' ! i) line'"
    unfolding line_fine_def
  proof (intro conjI allI impI sorted)
    fix k c' assume c': "FindCompact k line' = Some c'"
    then obtain c where "FindCompact k line = Some c" using find [of k] by (cases "FindCompact k line") auto
    from slot [OF this c'] show "slot_fine reg' (srcs' ! i) (mLineId line') k c'" by blast
  qed
  show "same_value (line_value reg' (srcs' ! i) k line') (line_value reg (srcs ! i) k line)"
    unfolding keep [symmetric]
  proof (cases "FindCompact k line")
    case None
    then show "same_value (line_value reg' (srcs' ! i) k line') (line_value reg (srcs' ! i) k line)"
      using find [of k] by (simp add: line_value_def GetValue_id_def)
  next
    case (Some c)
    then obtain c' where c': "FindCompact k line' = Some c'" using find [of k] by (cases "FindCompact k line'") auto
    from slot [OF Some c'] show "same_value (line_value reg' (srcs' ! i) k line') (line_value reg (srcs' ! i) k line)"
      by (simp add: line_value_def GetValue_id_def Some c')
  qed
qed

section \<open>Tables\<close>

text \<open>The invariant: the registry is sound, every source points at it, every reference resolves.\<close>

definition table_fine :: "LogTable \<Rightarrow> bool" where
  "table_fine t \<longleftrightarrow> reg_inv (tEnumDictionaries t) \<and> short_texts (tEnumDictionaries t) \<and>
     (\<forall>src\<in>set (mSources t). source_inv src \<and> mEnumDictionaries src = Some (tEnumDictionaries t)) \<and>
     rows_fine (tEnumDictionaries t) (mSources t) (mRows t)"

definition same_cells :: "LogTable \<Rightarrow> LogTable \<Rightarrow> bool" where
  "same_cells t t' \<longleftrightarrow> mColumnKeyIds t' = mColumnKeyIds t \<and> length (mSources t') = length (mSources t) \<and>
     rows_same (tEnumDictionaries t) (mSources t) (mRows t) (tEnumDictionaries t') (mSources t') (mRows t')"

lemma same_cells_refl [simp]: "same_cells t t"
  by (simp add: same_cells_def rows_same_refl)

lemma same_cells_trans: "same_cells a b \<Longrightarrow> same_cells b c \<Longrightarrow> same_cells a c"
  unfolding same_cells_def by (blast intro: rows_same_trans dest: trans)

lemma same_cells_rows: "same_cells t t' \<Longrightarrow> length (mRows t') = length (mRows t)"
  unfolding same_cells_def using list_all2_lengthD by metis

lemma first_value_same:
  "(\<And>k. same_value (GetValue_id k s' line') (GetValue_id k s line)) \<Longrightarrow>
   same_value (first_value kids s' line') (first_value kids s line)"
proof (induction kids)
  case (Cons k kids)
  show ?case
    using Cons.IH [OF Cons.prems] Cons.prems [of k] same_value_absent [OF Cons.prems [of k]] by (simp add: Let_def)
qed simp

text \<open>What the user sees: each cell shows the same value.\<close>

lemma same_cells_GetValue:
  assumes "same_cells t t'" "table_fine t" "table_fine t'"
  shows "same_value (GetValue t' row c) (GetValue t row c)"
proof (cases "out_of_table t row c")
  have sizes: "out_of_table t' row c = out_of_table t row c"
    using same_cells_rows [OF assms(1)] assms(1) unfolding out_of_table_def same_cells_def by presburger
  case True
  then have "out_of_table t' row c" using sizes by simp
  then show ?thesis using True by (simp add: GetValue_def)
next
  have sizes: "out_of_table t' row c = out_of_table t row c"
    using same_cells_rows [OF assms(1)] assms(1) unfolding out_of_table_def same_cells_def by presburger
  case False
  then have inside: "\<not> out_of_table t' row c" using sizes by simp
  have row: "row < length (mRows t)" "row < length (mRows t')" using False inside by (simp_all add: out_of_table_def)
  obtain line i line' i' where r: "mRows t ! row = (line, i)" "mRows t' ! row = (line', i')" by (metis surj_pair)
  have same: "row_same (tEnumDictionaries t) (mSources t) (line, i) (tEnumDictionaries t') (mSources t') (line', i')"
    using assms(1) row(1) r unfolding same_cells_def by (metis list_all2_nthD)
  then have i': "i' = i" by (simp add: row_same_def)
  have mem: "(line, i) \<in> set (mRows t)" using row(1) r(1) nth_mem by metis
  then have i: "i < length (mSources t)" "i < length (mSources t')"
    using assms(1,2) by (auto simp: table_fine_def rows_fine_def same_cells_def)
  have wired: "mEnumDictionaries (mSources t ! i) = Some (tEnumDictionaries t)"
      "mEnumDictionaries (mSources t' ! i) = Some (tEnumDictionaries t')"
    using assms(2,3) i by (simp_all add: table_fine_def)
  have "same_value (GetValue_id k (Some (mSources t' ! i)) line') (GetValue_id k (Some (mSources t ! i)) line)" for k
    using same line_value_wired [OF wired(1)] line_value_wired [OF wired(2)] by (simp add: row_same_def)
  from first_value_same [of "Some (mSources t' ! i)" line' "Some (mSources t ! i)" line, OF this]
  show ?thesis
    using False inside r i' i assms(1) by (simp add: GetValue_def source_at_def same_cells_def)
qed

lemma line_value_reg_free [simp]: "line_value reg (src\<lparr>mEnumDictionaries := e\<rparr>) k line = line_value reg src k line"
  by (simp add: line_value_def)

lemma line_fine_reg_free [simp]: "line_fine reg (src\<lparr>mEnumDictionaries := e\<rparr>) line = line_fine reg src line"
  by (simp add: line_fine_def slot_fine_def)

lemma set_registry_simps [simp]:
  "tEnumDictionaries (set_registry r t) = r" "mRows (set_registry r t) = mRows t"
  "mColumnKeyIds (set_registry r t) = mColumnKeyIds t" "mConfiguration (set_registry r t) = mConfiguration t"
  "mKeys (set_registry r t) = mKeys t" "length (mSources (set_registry r t)) = length (mSources t)"
  by (simp_all add: set_registry_def)

text \<open>A new registry and new rows that show the same, behind sources that are wired to the old registry.\<close>

lemma set_registry_table:
  assumes "reg_inv reg'" "short_texts reg'" "\<And>src. src \<in> set srcs' \<Longrightarrow> source_inv src \<and> mEnumDictionaries src \<noteq> None"
    and "rows_fine reg' srcs' rows'" "length srcs' = length (mSources t)"
    and "rows_same (tEnumDictionaries t) (mSources t) (mRows t) reg' srcs' rows'"
  shows "table_fine (set_registry reg' (t\<lparr>mRows := rows', mSources := srcs'\<rparr>))"
    and "same_cells t (set_registry reg' (t\<lparr>mRows := rows', mSources := srcs'\<rparr>))"
proof -
  let ?srcs = "map (\<lambda>src. src\<lparr>mEnumDictionaries := map_option (\<lambda>_. reg') (mEnumDictionaries src)\<rparr>) srcs'"
  have "rows_fine reg' ?srcs rows'"
    using assms(4) by (auto simp: rows_fine_def)
  then show "table_fine (set_registry reg' (t\<lparr>mRows := rows', mSources := srcs'\<rparr>))"
    using assms(1-3) by (auto simp: table_fine_def set_registry_def)
  have idx: "i < length srcs'" if "(line, i) \<in> set rows'" for line i using assms(4) that by (auto simp: rows_fine_def)
  have "rows_same (tEnumDictionaries t) (mSources t) (mRows t) reg' ?srcs rows'"
    using assms(6)
  proof (rule list.rel_mono_strong)
    fix r r' assume r: "r \<in> set (mRows t)" "r' \<in> set rows'"
      and same: "row_same (tEnumDictionaries t) (mSources t) r reg' srcs' r'"
    have "snd r' < length srcs'" using idx r(2) by (cases r') simp
    then show "row_same (tEnumDictionaries t) (mSources t) r reg' ?srcs r'"
      using same by (simp add: row_same_def)
  qed
  then show "same_cells t (set_registry reg' (t\<lparr>mRows := rows', mSources := srcs'\<rparr>))"
    using assms(5) by (simp add: same_cells_def set_registry_def)
qed

lemma table_fineD:
  assumes "table_fine t"
  shows "reg_inv (tEnumDictionaries t)" "short_texts (tEnumDictionaries t)"
    "rows_fine (tEnumDictionaries t) (mSources t) (mRows t)"
    "src \<in> set (mSources t) \<Longrightarrow> source_inv src \<and> mEnumDictionaries src = Some (tEnumDictionaries t)"
  using assms by (auto simp: table_fine_def)

lemma short_texts_GetOrInsert: "short_texts r \<Longrightarrow> short_texts (snd (reg_GetOrInsert k cap r))"
  by (auto simp: short_texts_def reg_GetOrInsert_def reg_Find_def new_EnumDictionary_def split: option.splits if_splits)

text \<open>All keys of a column share the dictionary that \<open>GetOrInsert\<close> returns for the first.\<close>

definition column_dict :: "16 word \<Rightarrow> KeyId list \<Rightarrow> LogTable \<Rightarrow> bool" where
  "column_dict cap ks t \<longleftrightarrow> (\<forall>k\<in>set ks. k \<noteq> INVALID_KEY_ID) \<and>
     (let (c, reg) = reg_GetOrInsert (hd ks) cap (tEnumDictionaries t) in \<forall>k\<in>set ks. mRegIndex reg k = Some c)"

lemma EncodeColumnRange_table:
  assumes "EncodeColumnRange ks from_row to_row h T = (ok, h', T')" "table_fine (tbl T)"
    and "ks \<noteq> [] \<Longrightarrow> column_dict (mEnumValueCap T) ks (tbl T)"
  obtains reg rows where "T' = T\<lparr>tbl := set_registry reg ((tbl T)\<lparr>mRows := rows\<rparr>)\<rparr>"
    and "table_fine (tbl T')" "same_cells (tbl T) (tbl T')"
    and "ks = [] \<Longrightarrow> reg = tEnumDictionaries (tbl T)"
    and "ks \<noteq> [] \<Longrightarrow> mRegIndex reg = mRegIndex (snd (reg_GetOrInsert (hd ks) (mEnumValueCap T) (tEnumDictionaries (tbl T))))"
proof (cases "ks = []")
  case True
  let ?t = "tbl T"
  note fine = table_fineD [OF assms(2)]
  have "map (\<lambda>src. src\<lparr>mEnumDictionaries := map_option (\<lambda>_. tEnumDictionaries ?t) (mEnumDictionaries src)\<rparr>) (mSources ?t) = mSources ?t"
    using fine(4) by (intro map_idI) auto
  then have "set_registry (tEnumDictionaries ?t) (?t\<lparr>mRows := mRows ?t\<rparr>) = ?t" by (simp add: set_registry_def)
  then show thesis
    using that [of "tEnumDictionaries ?t" "mRows ?t"] True assms(1,2) by (simp add: EncodeColumnRange_def)
next
  case False
  let ?t = "tbl T"
  obtain c reg0 where r0: "reg_GetOrInsert (hd ks) (mEnumValueCap T) (tEnumDictionaries ?t) = (c, reg0)" by force
  obtain rows reg where enc: "encode_rows c (mEnumValueMaxLen T) (source_at ?t) ks [from_row..<min to_row (length (mRows ?t))]
      (mRows ?t) reg0 h = (ok, rows, reg, h')" and T': "T' = T\<lparr>tbl := set_registry reg (?t\<lparr>mRows := rows\<rparr>)\<rparr>"
    using assms(1) False r0 by (auto simp: EncodeColumnRange_def Let_def split: prod.splits)
  note fine = table_fineD [OF assms(2)]
  have inv0: "reg_inv reg0" using reg_inv_GetOrInsert [OF fine(1), of "hd ks" "mEnumValueCap T"] r0 by simp
  have ext0: "reg_ext (tEnumDictionaries ?t) reg0" using reg_ext_GetOrInsert [OF fine(1), of "hd ks" "mEnumValueCap T"] r0 by simp
  have short0: "short_texts reg0" using short_texts_GetOrInsert [OF fine(2), of "hd ks" "mEnumValueCap T"] r0 by simp
  have sd: "shared_dict reg0 c ks" using assms(3) [OF False] inv0 r0 by (simp add: column_dict_def shared_dict_def)
  note rows0 = rows_same_ext [OF ext0 fine(3)]
  have src: "source_at ?t = (\<lambda>i. if i < length (mSources ?t) then Some (mSources ?t ! i) else None)"
    by (rule ext) (simp add: source_at_def)
  note res = encode_rows_same [OF enc [unfolded src] sd rows0(2) _ short0]
  have res: "short_texts reg" "reg_inv reg" "mRegIndex reg = mRegIndex reg0" "rows_fine reg (mSources ?t) rows"
      "rows_same reg0 (mSources ?t) (mRows ?t) reg (mSources ?t) rows"
    using res by (auto simp: shared_dict_def)
  have same: "rows_same (tEnumDictionaries ?t) (mSources ?t) (mRows ?t) reg (mSources ?t) rows"
    by (rule rows_same_trans [OF rows0(1) res(5)])
  have srcs: "\<And>src. src \<in> set (mSources ?t) \<Longrightarrow> source_inv src \<and> mEnumDictionaries src \<noteq> None" using fine(4) by auto
  have "?t\<lparr>mRows := rows, mSources := mSources ?t\<rparr> = ?t\<lparr>mRows := rows\<rparr>" by simp
  then show thesis
    using set_registry_table [OF res(2,1) srcs res(4) refl same] that [of reg rows] T' False res(3) r0 by simp
qed

lemma table_fine_frame [simp]:
  "table_fine (t\<lparr>mConfiguration := c\<rparr>) = table_fine t" "table_fine (t\<lparr>mLevelRankCache := r\<rparr>) = table_fine t"
  "table_fine (t\<lparr>mKeys := ki\<rparr>) = table_fine t"
  "same_cells s (t\<lparr>mConfiguration := c\<rparr>) = same_cells s t" "same_cells s (t\<lparr>mLevelRankCache := r\<rparr>) = same_cells s t"
  "same_cells s (t\<lparr>mKeys := ki\<rparr>) = same_cells s t"
  by (simp_all add: table_fine_def same_cells_def)

lemma tbl_set_type [simp]: "tbl (set_type i ty T) = (tbl T)\<lparr>mConfiguration := SetColumnType i ty (mConfiguration (tbl T))\<rparr>"
  by (simp add: set_type_def)

text \<open>The dictionary of the first key belongs to the keys of the column alone.\<close>

definition column_owner :: "EnumDictionaryRegistry \<Rightarrow> KeyId list \<Rightarrow> bool" where
  "column_owner reg ks \<longleftrightarrow>
     (\<forall>k\<in>set ks. mRegIndex reg k = Some (hd ks) \<or> mRegIndex reg k = None) \<and>
     (\<forall>k. mRegIndex reg k = Some (hd ks) \<longrightarrow> k \<in> set ks)"

lemma erase_owner:
  assumes "reg_inv reg" "column_owner reg ks" "ks \<noteq> []"
  shows "k \<in> set ks \<Longrightarrow> reg_Find reg k = reg_Find reg (hd ks) \<or> reg_Find reg k = None"
    and "k \<notin> set ks \<Longrightarrow> reg_Find (reg_Erase (hd ks) reg) k = reg_Find reg k"
    and "k \<in> set ks \<Longrightarrow> reg_Find (reg_Erase (hd ks) reg) k = None"
proof -
  have front: "mRegIndex reg (hd ks) = Some (hd ks) \<or> mRegIndex reg (hd ks) = None"
    using assms(2,3) by (simp add: column_owner_def)
  show "k \<in> set ks \<Longrightarrow> reg_Find reg k = reg_Find reg (hd ks) \<or> reg_Find reg k = None"
    using assms(2) reg_inv_canonical(1) [OF assms(1), of k "hd ks"] by (auto simp: column_owner_def reg_Find_def)
  show "reg_Find (reg_Erase (hd ks) reg) k = reg_Find reg k" if "k \<notin> set ks"
  proof (cases "mDictionaries reg (hd ks)")
    case (Some e)
    then show ?thesis
      using reg_Find_erased [OF assms(1), of "hd ks" k] assms(2) that
      by (auto simp: column_owner_def reg_Contains_def reg_Find_def)
  qed (simp add: reg_Erase_def)
  show "reg_Find (reg_Erase (hd ks) reg) k = None" if "k \<in> set ks"
  proof (cases "mDictionaries reg (hd ks)")
    case None
    then have "mRegIndex reg k \<noteq> Some (hd ks)" using reg_invD(1) [OF assms(1)] by auto
    then have "mRegIndex reg k = None" using assms(2) that by (auto simp: column_owner_def)
    then show ?thesis using None by (simp add: reg_Erase_def reg_Find_def)
  next
    case (Some e)
    then show ?thesis
      using reg_Find_erased [OF assms(1), of "hd ks" k] assms(2) that
      by (auto simp: column_owner_def reg_Contains_def reg_Find_def)
  qed
qed

lemma short_texts_Erase:
  assumes "reg_inv r" "short_texts r"
  shows "short_texts (reg_Erase c r)"
proof (cases "mDictionaries r c = None")
  case False
  then show ?thesis
    using assms(2) reg_Find_erased [OF assms(1) False] by (auto simp: short_texts_def split: if_splits)
qed (use assms(2) in \<open>simp add: reg_Erase_def\<close>)

lemma known_ids_valid: "k \<in> set (known_ids ex t ks) \<Longrightarrow> k \<noteq> INVALID_KEY_ID"
  by (simp add: known_ids_def)

text \<open>The table that a demotion leaves, up to the type of the column and the rank cache.\<close>

lemma demoted_table:
  assumes "demote_rows (reg_Find (tEnumDictionaries t) (hd ks)) ks (mRows t) (mSources t) = Some (rows, srcs)"
    and "table_fine t" "ks \<noteq> []" "column_owner (tEnumDictionaries t) ks" "\<And>k. k \<in> set ks \<Longrightarrow> k \<noteq> INVALID_KEY_ID"
    and fits: "\<And>src. src \<in> set srcs \<Longrightarrow> source_fits src"
  defines "t' \<equiv> set_registry (reg_Erase (hd ks) (tEnumDictionaries t)) (t\<lparr>mRows := rows, mSources := srcs\<rparr>)"
  shows "table_fine t'" "same_cells t t'"
    and "(line, i) \<in> set rows \<Longrightarrow> k \<in> set ks \<Longrightarrow> \<not> IsDictRef k line"
proof -
  let ?reg = "tEnumDictionaries t" and ?srcs = "mSources t"
  note fine = table_fineD [OF assms(2)]
  note owner = erase_owner [OF fine(1) assms(4,3)]
  have rows: "i < length ?srcs \<and> sorted_fields (mData (mFields line))" "line_fine ?reg (?srcs ! i) line"
    if "(line, i) \<in> set (mRows t)" for line i
    using that fine(3) by (auto simp: rows_fine_def line_fine_def)
  have res: "all_grow ?srcs srcs \<and> list_all2 (row_demoted (reg_Find ?reg (hd ks)) ks srcs) (mRows t) rows"
    by (rule demote_rows_result [OF assms(1)]) (use fine(4) rows in auto)
  have len: "length srcs = length ?srcs" using res list_all2_lengthD by metis
  have row: "row_same ?reg ?srcs r (reg_Erase (hd ks) ?reg) srcs r' \<and> snd r' < length srcs \<and>
      line_fine (reg_Erase (hd ks) ?reg) (srcs ! snd r') (fst r')"
    if r: "r \<in> set (mRows t)" and dem: "row_demoted (reg_Find ?reg (hd ks)) ks srcs r r'" for r r'
  proof -
    obtain line i line' i' where eq: "r = (line, i)" "r' = (line', i')" by (metis surj_pair)
    have i: "i < length ?srcs" "line_fine ?reg (?srcs ! i) line" using rows r eq by auto
    have g: "grows (?srcs ! i) (srcs ! i)" using res i(1) by (blast intro: all_grow_nth)
    have f: "source_fits (srcs ! i)" using fits i(1) len by simp
    note same = row_demoted_same [OF dem [unfolded eq] i(2) g f fine(2) _ owner(2)]
    have cond: "k \<noteq> INVALID_KEY_ID \<and> (reg_Find ?reg k = reg_Find ?reg (hd ks) \<or> reg_Find ?reg k = None)"
      if "k \<in> set ks" for k
      using assms(5) [OF that] owner(1) [OF that] by simp
    have "i' = i" "mLineId line' = mLineId line" using dem eq by (auto simp: row_demoted_def)
    then show ?thesis using same [OF cond] i(1) len eq by (simp add: row_same_def)
  qed
  have mono: "list_all2 (\<lambda>r r'. row_same ?reg ?srcs r (reg_Erase (hd ks) ?reg) srcs r' \<and> snd r' < length srcs \<and>
      line_fine (reg_Erase (hd ks) ?reg) (srcs ! snd r') (fst r')) (mRows t) rows"
    by (rule list.rel_mono_strong [OF conjunct2 [OF res]]) (rule row)
  then have same: "rows_same ?reg ?srcs (mRows t) (reg_Erase (hd ks) ?reg) srcs rows"
    by (rule list.rel_mono_strong) blast
  have "snd r' < length srcs \<and> line_fine (reg_Erase (hd ks) ?reg) (srcs ! snd r') (fst r')" if mem: "r' \<in> set rows" for r'
  proof -
    obtain j where j: "j < length rows" "r' = rows ! j" using mem by (metis in_set_conv_nth)
    then have "j < length (mRows t)" using list_all2_lengthD [OF same] by simp
    from list_all2_nthD [OF mono this] show ?thesis using j(2) by blast
  qed
  then have rf: "rows_fine (reg_Erase (hd ks) ?reg) srcs rows" by (fastforce simp: rows_fine_def)
  have srcs: "source_inv src \<and> mEnumDictionaries src \<noteq> None" if src: "src \<in> set srcs" for src
  proof -
    obtain j where j: "j < length srcs" "src = srcs ! j" using src by (metis in_set_conv_nth)
    then have "grows (?srcs ! j) src" using res len by (auto intro: all_grow_nth)
    then show ?thesis using fine(4) [of "?srcs ! j"] j(1) len by (simp add: grows_def)
  qed
  show "table_fine t'" "same_cells t t'"
    unfolding t'_def
    by (rule set_registry_table [OF reg_inv_Erase [OF fine(1)] short_texts_Erase [OF fine(1,2)] srcs rf len same]; assumption)+
  show "\<not> IsDictRef k line" if mem: "(line, i) \<in> set rows" "k \<in> set ks"
  proof
    assume ref: "IsDictRef k line"
    have "line_fine (reg_Erase (hd ks) ?reg) (srcs ! i) line" using rf mem(1) by (auto simp: rows_fine_def)
    moreover obtain c where c: "FindCompact k line = Some c" "tag c = DictRef"
      using ref by (auto simp: IsDictRef_def has_tag_def split: option.splits)
    ultimately have "slot_fine (reg_Erase (hd ks) ?reg) (srcs ! i) (mLineId line) k c"
      unfolding line_fine_def by blast
    then show False using owner(3) [OF mem(2)] c(2) by (simp add: slot_fine_def)
  qed
qed

text \<open>A demotion succeeds while the lines of the references are live.\<close>

definition rows_live :: "LineSource list \<Rightarrow> (LogLine \<times> nat) list \<Rightarrow> bool" where
  "rows_live srcs rows \<longleftrightarrow> (\<forall>(line, i)\<in>set rows. source_arena (srcs ! i) (mLineId line) \<noteq> None)"

lemma demote_slots_live:
  assumes "source_arena (srcs ! i) (mLineId line) \<noteq> None" "\<And>src. src \<in> set srcs \<Longrightarrow> source_inv src"
  shows "demote_slots dict i ks line srcs \<noteq> None"
  using assms
proof (induction ks arbitrary: line srcs)
  case (Cons k ks)
  show ?case
  proof (cases "\<exists>c. FindCompact k line = Some c \<and> tag c = DictRef \<and> i < length srcs")
    case True
    then obtain c where c: "FindCompact k line = Some c" "tag c = DictRef" "i < length srcs" by blast
    have inv: "source_inv (srcs ! i)" using c(3) Cons.prems(2) by simp
    then obtain off src' where app: "AppendOwnedBytes (mLineId line) (dict_text dict c) (srcs ! i) = Some (off, src')"
      using source_arena.append_dead [OF inv] Cons.prems(1) by (metis not_Some_eq surj_pair)
    have grow: "all_grow srcs (srcs[i := src'])"
      by (rule all_grow_update [OF Cons.prems(2) AppendOwnedBytes_grows [OF inv app]])
    have "source_arena (srcs[i := src'] ! i) (mLineId line) \<noteq> None"
      using source_arena.append_here [OF inv app] Cons.prems(1) c(3) by auto
    then have "demote_slots dict i ks (put_slot k (MakeOwnedString off (word_of_nat (length (dict_text dict c)))) line) (srcs[i := src']) \<noteq> None"
      by (intro Cons.IH) (use all_grow_inv [OF grow] in auto)
    then show ?thesis using c app by (simp add: Let_def)
  next
    case False
    then show ?thesis
      using Cons.IH [of srcs line] Cons.IH [of srcs "put_slot k MakeMonostate line"] Cons.prems by (auto simp: Let_def split: option.split)
  qed
qed simp

lemma rows_live_grow: "all_grow a b \<Longrightarrow> (\<And>line i. (line, i) \<in> set rows \<Longrightarrow> i < length a) \<Longrightarrow> rows_live a rows \<Longrightarrow> rows_live b rows"
  unfolding rows_live_def using all_grow_nth by (fastforce simp: grows_def)

lemma demote_rows_live:
  assumes "rows_live srcs rows" "\<And>src. src \<in> set srcs \<Longrightarrow> source_inv src"
    and "\<And>line i. (line, i) \<in> set rows \<Longrightarrow> i < length srcs \<and> sorted_fields (mData (mFields line))"
  shows "demote_rows dict ks rows srcs \<noteq> None"
  using assms
proof (induction rows arbitrary: srcs)
  case (Cons r rows)
  obtain line i where r: "r = (line, i)" by force
  have i: "i < length srcs" "sorted_fields (mData (mFields line))" using Cons.prems(3) r by auto
  have "source_arena (srcs ! i) (mLineId line) \<noteq> None" using Cons.prems(1) r by (simp add: rows_live_def)
  then obtain line' srcs1 where one: "demote_slots dict i ks line srcs = Some (line', srcs1)"
    using demote_slots_live Cons.prems(2) by (metis not_Some_eq surj_pair)
  have grow: "all_grow srcs srcs1" using demote_slots_result [OF one i(2,1) Cons.prems(2)] by blast
  have len: "length srcs1 = length srcs" using grow list_all2_lengthD by metis
  have "demote_rows dict ks rows srcs1 \<noteq> None"
  proof (rule Cons.IH)
    show "rows_live srcs1 rows"
      by (rule rows_live_grow [OF grow]) (use Cons.prems(1,3) in \<open>auto simp: rows_live_def\<close>)
    show "source_inv src" if "src \<in> set srcs1" for src using grow that all_grow_inv by blast
    show "j < length srcs1 \<and> sorted_fields (mData (mFields l))" if "(l, j) \<in> set rows" for l j
      using Cons.prems(3) [of l j] that len by simp
  qed
  then show ?case using r one by auto
qed simp

end
