(* ===== verification/Enum_Pass.thy ===== *)
theory Enum_Pass
  imports Enum_Cells Log_Data
begin

text \<open>
  Every operation of the detector is a sequence of four kinds of steps on the table: a change of
  types or ranks, a registry that grows, the encoding of a range, the demotion of a column.  The
  relation \<open>estep\<close> has these steps with the conditions under which they keep the cells;
  \<open>columns_inv\<close> is the invariant that provides the conditions.
\<close>

section \<open>Steps\<close>

definition weak_fine :: "LogTable \<Rightarrow> bool" where
  "weak_fine t \<longleftrightarrow> reg_inv (tEnumDictionaries t) \<and>
     (\<forall>src\<in>set (mSources t). source_inv src \<and> mEnumDictionaries src = Some (tEnumDictionaries t)) \<and>
     (\<forall>(line, i)\<in>set (mRows t). i < length (mSources t) \<and> sorted_fields (mData (mFields line)))"

inductive estep :: "LogTable \<Rightarrow> LogTable \<Rightarrow> bool" where
  quiet: "estep t (t\<lparr>mConfiguration := c, mLevelRankCache := r\<rparr>)"
| register: "\<lbrakk>reg_ext (tEnumDictionaries t) reg; reg_inv reg; short_texts (tEnumDictionaries t) \<Longrightarrow> short_texts reg\<rbrakk>
    \<Longrightarrow> estep t (set_registry reg (t\<lparr>mKeys := ki\<rparr>))"
| encode: "\<lbrakk>ks \<noteq> []; column_dict (mEnumValueCap T) ks (tbl T); EncodeColumnRange ks a b h T = (ok, h', T')\<rbrakk>
    \<Longrightarrow> estep (tbl T) (tbl T')"
| demote: "\<lbrakk>ks \<noteq> []; column_owner (tEnumDictionaries t) ks; \<And>k. k \<in> set ks \<Longrightarrow> k \<noteq> INVALID_KEY_ID;
      demote_rows (reg_Find (tEnumDictionaries t) (hd ks)) ks (mRows t) (mSources t) = Some (rows, srcs)\<rbrakk>
    \<Longrightarrow> estep t (set_registry (reg_Erase (hd ks) (tEnumDictionaries t)) (t\<lparr>mRows := rows, mSources := srcs\<rparr>))"

lemma table_fine_weak: "table_fine t \<Longrightarrow> weak_fine t"
  by (auto simp: table_fine_def weak_fine_def rows_fine_def line_fine_def)

text \<open>The arenas grow, whatever the registries of the sources.\<close>

definition bare :: "LineSource \<Rightarrow> LineSource" where
  "bare src = src\<lparr>mEnumDictionaries := None\<rparr>"

definition sources_grow :: "LogTable \<Rightarrow> LogTable \<Rightarrow> bool" where
  "sources_grow t t' \<longleftrightarrow> list_all2 (\<lambda>s s'. grows (bare s) (bare s')) (mSources t) (mSources t') \<and>
     list_all2 (\<lambda>r r'. snd r' = snd r \<and> mLineId (fst r') = mLineId (fst r)) (mRows t) (mRows t')"

lemma grows_bare: "grows s s' \<Longrightarrow> grows (bare s) (bare s')"
  by (simp add: grows_def bare_def)

lemma bare_reg [simp]: "bare (src\<lparr>mEnumDictionaries := e\<rparr>) = bare src"
  by (simp add: bare_def)

lemma sources_grow_refl: "weak_fine t \<Longrightarrow> sources_grow t t"
  by (auto simp: sources_grow_def weak_fine_def list_all2_same bare_def intro!: grows_refl)

lemma sources_grow_trans:
  assumes "sources_grow a b" "sources_grow b c"
  shows "sources_grow a c"
proof -
  have "list_all2 (\<lambda>s s'. grows (bare s) (bare s')) (mSources a) (mSources c)"
    by (rule list_all2_trans [where ?P1.0 = "\<lambda>s s'. grows (bare s) (bare s')" and ?P2.0 = "\<lambda>s s'. grows (bare s) (bare s')"])
      (use assms grows_trans in \<open>auto simp: sources_grow_def\<close>)
  moreover have "list_all2 (\<lambda>r r'. snd r' = snd r \<and> mLineId (fst r') = mLineId (fst r)) (mRows a) (mRows c)"
    by (rule list_all2_trans [where ?P1.0 = "\<lambda>r r'. snd r' = snd r \<and> mLineId (fst r') = mLineId (fst r)"
          and ?P2.0 = "\<lambda>r r'. snd r' = snd r \<and> mLineId (fst r') = mLineId (fst r)"])
      (use assms in \<open>auto simp: sources_grow_def\<close>)
  ultimately show ?thesis by (simp add: sources_grow_def)
qed

lemma sources_grow_fits:
  assumes "sources_grow t t'" "\<And>src. src \<in> set (mSources t') \<Longrightarrow> source_fits src" "src \<in> set (mSources t)"
  shows "source_fits src"
proof -
  obtain i where i: "i < length (mSources t)" "src = mSources t ! i" using assms(3) by (metis in_set_conv_nth)
  have len: "length (mSources t') = length (mSources t)"
    by (rule list_all2_lengthD [OF conjunct1 [OF assms(1) [unfolded sources_grow_def]], symmetric])
  have "grows (bare src) (bare (mSources t' ! i))"
    using assms(1) i unfolding sources_grow_def by (auto intro: list_all2_nthD)
  moreover have "source_fits (bare (mSources t' ! i))" using assms(2) i(1) len by (simp add: bare_def)
  ultimately have "source_fits (bare src)" by (rule grows_fits)
  then show ?thesis by (simp add: bare_def)
qed

lemma sources_grow_live:
  assumes "sources_grow t t'" "weak_fine t" "rows_live (mSources t) (mRows t)"
  shows "rows_live (mSources t') (mRows t')"
proof -
  have False if mem: "(line, i) \<in> set (mRows t')" and dead: "source_arena (mSources t' ! i) (mLineId line) = None" for line i
  proof -
    obtain j where j: "j < length (mRows t')" "mRows t' ! j = (line, i)" using mem by (metis in_set_conv_nth)
    have "length (mRows t) = length (mRows t')" by (rule list_all2_lengthD [OF conjunct2 [OF assms(1) [unfolded sources_grow_def]]])
    then have "snd (mRows t' ! j) = snd (mRows t ! j) \<and> mLineId (fst (mRows t' ! j)) = mLineId (fst (mRows t ! j))"
      using list_all2_nthD2 [OF conjunct2 [OF assms(1) [unfolded sources_grow_def]] j(1)] by blast
    then obtain line0 where old: "mRows t ! j = (line0, i)" "mLineId line0 = mLineId line" using j(2) by (cases "mRows t ! j") simp
    have "(line0, i) \<in> set (mRows t)" using old(1) j(1) \<open>length (mRows t) = _\<close> nth_mem by metis
    then have i: "i < length (mSources t)" and live: "source_arena (mSources t ! i) (mLineId line0) \<noteq> None"
      using assms(2,3) by (auto simp: weak_fine_def rows_live_def)
    have "grows (bare (mSources t ! i)) (bare (mSources t' ! i))"
      by (rule list_all2_nthD [OF conjunct1 [OF assms(1) [unfolded sources_grow_def]] i])
    then show False using live dead old(2) by (fastforce simp: grows_def bare_def)
  qed
  then show ?thesis unfolding rows_live_def by blast
qed

text \<open>The weak invariant and the growth need no bound on the arenas.\<close>

lemma weak_fineD:
  assumes "weak_fine t"
  shows "reg_inv (tEnumDictionaries t)"
    "src \<in> set (mSources t) \<Longrightarrow> source_inv src" "src \<in> set (mSources t) \<Longrightarrow> mEnumDictionaries src = Some (tEnumDictionaries t)"
    "(line, i) \<in> set (mRows t) \<Longrightarrow> i < length (mSources t) \<and> sorted_fields (mData (mFields line))"
  using assms by (auto simp: weak_fine_def)

lemma weak_set_registry:
  assumes "reg_inv reg" "\<And>src. src \<in> set srcs \<Longrightarrow> source_inv src \<and> mEnumDictionaries src \<noteq> None"
    and "\<And>line i. (line, i) \<in> set rows \<Longrightarrow> i < length srcs \<and> sorted_fields (mData (mFields line))"
  shows "weak_fine (set_registry reg (t\<lparr>mRows := rows, mSources := srcs, mKeys := ki\<rparr>))"
  using assms by (auto simp: weak_fine_def set_registry_def)

lemma grow_set_registry:
  assumes "all_grow (mSources t) srcs" "list_all2 (\<lambda>r r'. snd r' = snd r \<and> mLineId (fst r') = mLineId (fst r)) (mRows t) rows"
  shows "sources_grow t (set_registry reg (t\<lparr>mRows := rows, mSources := srcs, mKeys := ki\<rparr>))"
  using assms grows_bare by (auto simp: sources_grow_def set_registry_def list_all2_conv_all_nth)

lemma encode_slots_line:
  assumes "encode_slots c maxLen source ks a b line reg = (out, line', reg')"
  shows "mLineId line' = mLineId line" "sorted_fields (mData (mFields line')) = sorted_fields (mData (mFields line))"
    "reg_inv reg \<Longrightarrow> reg_inv reg'"
  using encode_slots_cases [OF assms] reg_inv_Insert by (auto, metis snd_conv)

definition row_shape :: "LogLine \<times> nat \<Rightarrow> LogLine \<times> nat \<Rightarrow> bool" where
  "row_shape r r' \<longleftrightarrow> snd r' = snd r \<and> mLineId (fst r') = mLineId (fst r) \<and>
     sorted_fields (mData (mFields (fst r'))) = sorted_fields (mData (mFields (fst r)))"

lemma encode_rows_shape:
  assumes "encode_rows c maxLen src ks rs rows reg h = (ok, rows', reg', h')" "reg_inv reg"
  shows "reg_inv reg' \<and> list_all2 row_shape rows rows'"
  using assms
proof (induction rs arbitrary: rows reg h)
  case Nil
  then show ?case by (auto simp: list_all2_same row_shape_def)
next
  case (Cons r rs)
  obtain line i where row: "rows ! r = (line, i)" by force
  obtain out line' reg1 where enc: "encode_slots c maxLen (src i) ks False False line reg = (out, line', reg1)"
    by (metis prod_cases3)
  note one = encode_slots_line [OF enc]
  have upd: "list_all2 row_shape rows (rows[r := (line', i)])"
    unfolding list_all2_conv_all_nth length_list_update
  proof (intro conjI allI impI refl)
    fix j assume "j < length rows"
    then show "row_shape (rows ! j) (rows[r := (line', i)] ! j)"
      using row one by (cases "j = r") (simp_all add: row_shape_def)
  qed
  show ?case
  proof (cases "out = DictFull")
    case True
    then show ?thesis using Cons.prems row enc upd one by simp
  next
    case False
    then have rest: "encode_rows c maxLen src ks rs (rows[r := (line', i)]) reg1 (count_outcome out h) = (ok, rows', reg', h')"
      using Cons.prems(1) row enc by simp
    note ih = Cons.IH [OF rest one(3) [OF Cons.prems(2)]]
    have "list_all2 row_shape rows rows'"
      using upd conjunct2 [OF ih] by (rule list_all2_trans [rotated]) (simp add: row_shape_def)
    then show ?thesis using ih by blast
  qed
qed

lemma estep_weak:
  assumes "estep t t'" "weak_fine t"
  shows "weak_fine t' \<and> sources_grow t t'"
  using assms
proof cases
  case (quiet r c)
  then show ?thesis using assms(2) sources_grow_refl [OF assms(2)] by (simp add: weak_fine_def sources_grow_def)
next
  case (register reg ki)
  have "weak_fine (set_registry reg (t\<lparr>mKeys := ki\<rparr>))"
    using register(3) weak_fineD [OF assms(2)] by (auto simp: weak_fine_def set_registry_def)
  moreover have "sources_grow t (set_registry reg (t\<lparr>mKeys := ki\<rparr>))"
    using sources_grow_refl [OF assms(2)] by (simp add: sources_grow_def set_registry_def list_all2_map2)
  ultimately show ?thesis unfolding register(1) by blast
next
  case (encode ks T a b h ok h' T')
  obtain c reg0 where r0: "reg_GetOrInsert (hd ks) (mEnumValueCap T) (tEnumDictionaries t) = (c, reg0)" by force
  obtain rows reg where enc: "encode_rows c (mEnumValueMaxLen T) (source_at t) ks [a..<min b (length (mRows t))]
      (mRows t) reg0 h = (ok, rows, reg, h')" and T': "t' = set_registry reg (t\<lparr>mRows := rows\<rparr>)"
    using encode r0 by (auto simp: EncodeColumnRange_def Let_def split: prod.splits)
  have "reg_inv reg0" using reg_inv_GetOrInsert [OF weak_fineD(1) [OF assms(2)], of "hd ks" "mEnumValueCap T"] r0 by simp
  note shape = encode_rows_shape [OF enc this]
  have rows: "i < length (mSources t) \<and> sorted_fields (mData (mFields line))" if mem: "(line, i) \<in> set rows" for line i
  proof -
    obtain j where j: "j < length rows" "rows ! j = (line, i)" using mem by (metis in_set_conv_nth)
    obtain line0 i0 where old: "mRows t ! j = (line0, i0)" by force
    have "j < length (mRows t)" using j(1) list_all2_lengthD [OF conjunct2 [OF shape]] by simp
    then have "(line0, i0) \<in> set (mRows t)" using old nth_mem by metis
    moreover have "i = i0" "sorted_fields (mData (mFields line)) = sorted_fields (mData (mFields line0))"
      using list_all2_nthD2 [OF conjunct2 [OF shape] j(1)] j(2) old by (simp_all add: row_shape_def)
    ultimately show ?thesis using weak_fineD(4) [OF assms(2)] by simp
  qed
  have t: "t\<lparr>mRows := rows\<rparr> = t\<lparr>mRows := rows, mSources := mSources t, mKeys := mKeys t\<rparr>" by simp
  have grow: "sources_grow t (set_registry reg (t\<lparr>mRows := rows, mSources := mSources t, mKeys := mKeys t\<rparr>))"
    by (rule grow_set_registry [OF all_grow_refl list_all2_mono [OF conjunct2 [OF shape]]])
      (use weak_fineD [OF assms(2)] in \<open>auto simp: row_shape_def\<close>)
  have "weak_fine (set_registry reg (t\<lparr>mRows := rows, mSources := mSources t, mKeys := mKeys t\<rparr>))"
    by (rule weak_set_registry) (use shape rows weak_fineD [OF assms(2)] in auto)
  then show ?thesis using grow unfolding T' t [symmetric] by blast
next
  case (demote ks rows srcs)
  have res: "all_grow (mSources t) srcs \<and>
      list_all2 (row_demoted (reg_Find (tEnumDictionaries t) (hd ks)) ks srcs) (mRows t) rows"
    by (rule demote_rows_result [OF demote(5)]) (use weak_fineD [OF assms(2)] in auto)
  have len: "length srcs = length (mSources t)" using res list_all2_lengthD by metis
  have rows: "i < length srcs \<and> sorted_fields (mData (mFields line))" if mem: "(line, i) \<in> set rows" for line i
  proof -
    obtain j where j: "j < length rows" "rows ! j = (line, i)" using mem by (metis in_set_conv_nth)
    obtain line0 i0 where old: "mRows t ! j = (line0, i0)" by force
    have "j < length (mRows t)" using j(1) list_all2_lengthD [OF conjunct2 [OF res]] by simp
    then have "(line0, i0) \<in> set (mRows t)" using old nth_mem by metis
    moreover have "i = i0" "sorted_fields (mData (mFields line))"
      using list_all2_nthD2 [OF conjunct2 [OF res] j(1)] j(2) old by (simp_all add: row_demoted_def)
    ultimately show ?thesis using weak_fineD(4) [OF assms(2)] len by simp
  qed
  have srcs: "source_inv src \<and> mEnumDictionaries src \<noteq> None" if src: "src \<in> set srcs" for src
  proof -
    obtain j where j: "j < length srcs" "src = srcs ! j" using src by (metis in_set_conv_nth)
    then have g: "grows (mSources t ! j) src" using res len by (auto intro: all_grow_nth)
    have "mSources t ! j \<in> set (mSources t)" using j(1) len by simp
    then show ?thesis using weak_fineD(3) [OF assms(2)] g by (simp add: grows_def)
  qed
  have t: "t\<lparr>mRows := rows, mSources := srcs\<rparr> = t\<lparr>mRows := rows, mSources := srcs, mKeys := mKeys t\<rparr>" by simp
  have "list_all2 (\<lambda>r r'. snd r' = snd r \<and> mLineId (fst r') = mLineId (fst r)) (mRows t) rows"
    by (rule list_all2_mono [OF conjunct2 [OF res]]) (simp add: row_demoted_def)
  then have "sources_grow t (set_registry (reg_Erase (hd ks) (tEnumDictionaries t)) (t\<lparr>mRows := rows, mSources := srcs, mKeys := mKeys t\<rparr>))"
    using res by (intro grow_set_registry) blast+
  moreover have "weak_fine (set_registry (reg_Erase (hd ks) (tEnumDictionaries t)) (t\<lparr>mRows := rows, mSources := srcs, mKeys := mKeys t\<rparr>))"
    by (rule weak_set_registry [OF reg_inv_Erase [OF weak_fineD(1) [OF assms(2)]] srcs rows])
  ultimately show ?thesis unfolding demote(1) t [symmetric] by blast
qed

lemma esteps_weak: "estep\<^sup>*\<^sup>* t t' \<Longrightarrow> weak_fine t \<Longrightarrow> weak_fine t' \<and> sources_grow t t'"
proof (induction rule: rtranclp_induct)
  case (step u v)
  then show ?case using estep_weak sources_grow_trans by blast
qed (simp add: sources_grow_refl)

section \<open>A run of steps keeps every cell\<close>

lemma estep_table:
  assumes "estep t t'" "table_fine t" "\<And>src. src \<in> set (mSources t') \<Longrightarrow> source_fits src"
  shows "table_fine t' \<and> same_cells t t'"
  using assms(1)
proof cases
  case (quiet r c)
  have "t' = (t\<lparr>mConfiguration := c\<rparr>)\<lparr>mLevelRankCache := r\<rparr>" using quiet by simp
  then show ?thesis using assms(2) by simp
next
  case (register reg ki)
  note fine = table_fineD [OF assms(2)]
  note rows = rows_same_ext [OF register(2) fine(3)]
  have srcs: "\<And>src. src \<in> set (mSources t) \<Longrightarrow> source_inv src \<and> mEnumDictionaries src \<noteq> None" using fine(4) by auto
  have "t' = (set_registry reg (t\<lparr>mRows := mRows t, mSources := mSources t\<rparr>))\<lparr>mKeys := ki\<rparr>"
    by (simp add: register(1) set_registry_def)
  then show ?thesis
    using set_registry_table [OF register(3) register(4) [OF fine(2)] srcs rows(2) refl rows(1)] by simp
next
  case (encode ks T a b h ok h' T')
  have fine: "table_fine (tbl T)" using assms(2) encode(1) by simp
  show ?thesis
    using EncodeColumnRange_table [OF encode(5) fine encode(4)] encode(1,2) by metis
next
  case (demote ks rows srcs)
  have fits: "source_fits src" if "src \<in> set srcs" for src
    using assms(3) that by (fastforce simp: demote(1) set_registry_def)
  show ?thesis
    unfolding demote(1) using demoted_table [OF demote(5) assms(2) demote(2,3) demote(4) fits] by blast
qed

lemma esteps_table:
  assumes "estep\<^sup>*\<^sup>* t t'" "table_fine t" "\<And>src. src \<in> set (mSources t') \<Longrightarrow> source_fits src"
  shows "table_fine t' \<and> same_cells t t'"
  using assms
proof (induction rule: rtranclp_induct)
  case (step u v)
  have u: "weak_fine u" using esteps_weak [OF step.hyps(1) table_fine_weak [OF step.prems(1)]] by blast
  have "source_fits src" if "src \<in> set (mSources u)" for src
    using sources_grow_fits [of u v src] estep_weak [OF step.hyps(2) u] step.prems(2) that by blast
  then have "table_fine u \<and> same_cells t u" using step.IH step.prems(1) by blast
  then show ?case using estep_table [OF step.hyps(2)] step.prems(2) same_cells_trans by blast
qed simp

section \<open>Columns and their dictionaries\<close>

abbreviation id_of :: "externals \<Rightarrow> LogTable \<Rightarrow> string \<Rightarrow> KeyId option" where
  "id_of ex t key \<equiv> probe (std_hash ex) key (mKeys t)"

abbreviation kcols :: "LogTable \<Rightarrow> string list list" where
  "kcols t \<equiv> map keys (tcolumns t)"

definition own :: "externals \<Rightarrow> LogTable \<Rightarrow> string list \<Rightarrow> KeyId \<Rightarrow> bool" where
  "own ex t ks k \<longleftrightarrow> (\<exists>key\<in>set ks. id_of ex t key = Some k)"

definition key_budget :: "LogTable \<Rightarrow> bool" where
  "key_budget t \<longleftrightarrow> card (set (reverse_keys (mKeys t)) \<union> set (concat (kcols t))) < 2 ^ 32"

text \<open>
  No key is in two columns, a dictionary belongs to one column and is filed under its first key,
  and the cached ids of a column are ids of its keys.
\<close>

definition base_inv :: "externals \<Rightarrow> LogTable \<Rightarrow> bool" where
  "base_inv ex t \<longleftrightarrow> key_inv (std_hash ex) (mKeys t) \<and> key_budget t \<and> distinct (concat (kcols t)) \<and>
     (\<forall>k c. mRegIndex (tEnumDictionaries t) k = Some c \<longrightarrow>
        (\<exists>ks\<in>set (kcols t). ks \<noteq> [] \<and> id_of ex t (hd ks) = Some c \<and> own ex t ks k)) \<and>
     (\<forall>i<length (kcols t). i < length (mColumnKeyIds t) \<longrightarrow>
        (\<forall>k\<in>set (mColumnKeyIds t ! i). k = INVALID_KEY_ID \<or> own ex t (kcols t ! i) k))"

definition registered :: "externals \<Rightarrow> LogTable \<Rightarrow> string list \<Rightarrow> bool" where
  "registered ex t ks \<longleftrightarrow>
     (\<forall>key\<in>set ks. \<exists>k c. id_of ex t key = Some k \<and> id_of ex t (hd ks) = Some c \<and> mRegIndex (tEnumDictionaries t) k = Some c)"

abbreviation enum_like :: "Column \<Rightarrow> bool" where
  "enum_like c \<equiv> ctype c = CtEnumeration \<or> ctype c = CtLevel"

definition columns_inv :: "externals \<Rightarrow> LogTable \<Rightarrow> bool" where
  "columns_inv ex t \<longleftrightarrow> base_inv ex t \<and> (\<forall>c\<in>set (tcolumns t). enum_like c \<longrightarrow> registered ex t (keys c))"

lemma find_key_probe:
  assumes "key_inv (std_hash ex) (mKeys t)"
  shows "find_key ex t key = (case id_of ex t key of None \<Rightarrow> INVALID_KEY_ID | Some k \<Rightarrow> k)"
    and "id_of ex t key = Some k \<Longrightarrow> k \<noteq> INVALID_KEY_ID"
  using KeyOf_not_invalid [OF assms] key_inv_probe [OF assms] by (auto simp: find_key_def Find_key_def split: option.split)

lemma set_known_ids:
  assumes "key_inv (std_hash ex) (mKeys t)"
  shows "k \<in> set (known_ids ex t ks) \<longleftrightarrow> own ex t ks k"
  using find_key_probe [OF assms] by (force simp: known_ids_def own_def split: option.splits)

lemma hd_known_ids:
  assumes "key_inv (std_hash ex) (mKeys t)" "ks \<noteq> []" "id_of ex t (hd ks) = Some c"
  shows "known_ids ex t ks \<noteq> []" "hd (known_ids ex t ks) = c"
  using assms find_key_probe [OF assms(1)] by (cases ks; auto simp: known_ids_def)+

lemma distinct_concat_lists:
  "distinct (concat xss) \<Longrightarrow> xs \<in> set xss \<Longrightarrow> ys \<in> set xss \<Longrightarrow> x \<in> set xs \<Longrightarrow> x \<in> set ys \<Longrightarrow> xs = ys"
  unfolding distinct_concat_iff by blast

lemma distinct_concat_nth:
  "distinct (concat xss) \<Longrightarrow> i < length xss \<Longrightarrow> j < length xss \<Longrightarrow> x \<in> set (xss ! i) \<Longrightarrow> x \<in> set (xss ! j) \<Longrightarrow> i = j"
proof (induction xss arbitrary: i j)
  case (Cons xs xss)
  show ?case
  proof (cases i; cases j)
    fix a b assume ij: "i = Suc a" "j = Suc b"
    then show ?thesis using Cons.IH [of a b] Cons.prems by simp
  next
    fix a assume ij: "i = Suc a" "j = 0"
    have "x \<in> \<Union> (set ` set xss)" using Cons.prems ij by (auto intro!: bexI [of _ "xss ! a"])
    then show ?thesis using Cons.prems ij by auto
  next
    fix b assume ij: "i = 0" "j = Suc b"
    have "x \<in> \<Union> (set ` set xss)" using Cons.prems ij by (auto intro!: bexI [of _ "xss ! b"])
    then show ?thesis using Cons.prems ij by auto
  qed simp
qed simp

lemma base_invD:
  assumes "base_inv ex t"
  shows "key_inv (std_hash ex) (mKeys t)" "key_budget t" "distinct (concat (kcols t))"
    "mRegIndex (tEnumDictionaries t) k = Some c \<Longrightarrow>
      \<exists>ks\<in>set (kcols t). ks \<noteq> [] \<and> id_of ex t (hd ks) = Some c \<and> own ex t ks k"
    "i < length (kcols t) \<Longrightarrow> i < length (mColumnKeyIds t) \<Longrightarrow> k \<in> set (mColumnKeyIds t ! i) \<Longrightarrow> k \<noteq> INVALID_KEY_ID
      \<Longrightarrow> own ex t (kcols t ! i) k"
  using assms unfolding base_inv_def by blast+

lemma column_owner_registered:
  assumes "base_inv ex t" "ks \<in> set (kcols t)" "ks \<noteq> []" "registered ex t ks"
  shows "column_owner (tEnumDictionaries t) (known_ids ex t ks)" "known_ids ex t ks \<noteq> []"
proof -
  note base = base_invD [OF assms(1)]
  obtain c where c: "id_of ex t (hd ks) = Some c"
    using assms(3,4) unfolding registered_def by (metis hd_in_set)
  note hd = hd_known_ids [OF base(1) assms(3) c]
  show "known_ids ex t ks \<noteq> []" by (rule hd(1))
  have "mRegIndex (tEnumDictionaries t) k = Some c" if "k \<in> set (known_ids ex t ks)" for k
    using that assms(4) c set_known_ids [OF base(1)] unfolding registered_def own_def by fastforce
  moreover have "k \<in> set (known_ids ex t ks)" if k: "mRegIndex (tEnumDictionaries t) k = Some c" for k
  proof -
    obtain ks' where ks': "ks' \<in> set (kcols t)" "ks' \<noteq> []" "id_of ex t (hd ks') = Some c" "own ex t ks' k"
      using base(4) [OF k] by blast
    have "hd ks' = hd ks" using keys.lookup_inj [OF base(1) ks'(3) c] .
    then have "ks' = ks"
      using distinct_concat_lists [OF base(3) ks'(1) assms(2), of "hd ks"] ks'(2) assms(3) by (metis hd_in_set)
    then show ?thesis using ks'(4) set_known_ids [OF base(1)] by simp
  qed
  ultimately show "column_owner (tEnumDictionaries t) (known_ids ex t ks)"
    unfolding column_owner_def hd(2) by blast
qed

lemma column_dict_registered:
  assumes "base_inv ex t" "registered ex t ks" "js \<noteq> []" "\<And>k. k \<in> set js \<Longrightarrow> own ex t ks k"
  shows "column_dict cap js t" "snd (reg_GetOrInsert (hd js) cap (tEnumDictionaries t)) = tEnumDictionaries t"
proof -
  note base = base_invD [OF assms(1)]
  have "\<exists>key\<in>set ks. id_of ex t key = Some (hd js)" using assms(3,4) by (simp add: own_def)
  then obtain c where c: "id_of ex t (hd ks) = Some c" "mRegIndex (tEnumDictionaries t) (hd js) = Some c"
    using assms(2) unfolding registered_def by (metis option.inject)
  have "k \<noteq> INVALID_KEY_ID \<and> mRegIndex (tEnumDictionaries t) k = Some c" if k: "k \<in> set js" for k
  proof -
    obtain key where key: "key \<in> set ks" "id_of ex t key = Some k" using assms(4) [OF k] by (auto simp: own_def)
    then show ?thesis
      using assms(2) c(1) find_key_probe(2) [OF base(1) key(2)] unfolding registered_def by fastforce
  qed
  then show "column_dict cap js t" "snd (reg_GetOrInsert (hd js) cap (tEnumDictionaries t)) = tEnumDictionaries t"
    using c(2) by (simp_all add: column_dict_def reg_GetOrInsert_def)
qed

section \<open>The operations keep the invariant\<close>

lemma tcolumns_SetColumnType [simp]:
  "mcolumns (SetColumnType i ty m) = (mcolumns m)[i := (mcolumns m ! i)\<lparr>ctype := ty\<rparr>]"
  by (cases "i < length (mcolumns m)") (simp_all add: SetColumnType_def update_column_def with_columns_def list_update_beyond)

lemma map_keys_type [simp]: "map keys (cs[i := (cs ! i)\<lparr>ctype := ty\<rparr>]) = map keys cs"
proof (rule nth_equalityI)
  fix j assume "j < length (map keys (cs[i := (cs ! i)\<lparr>ctype := ty\<rparr>]))"
  then show "map keys (cs[i := (cs ! i)\<lparr>ctype := ty\<rparr>]) ! j = map keys cs ! j" by (cases "j = i") simp_all
qed simp

text \<open>What the invariant reads of a table.\<close>

lemma base_inv_same:
  assumes "base_inv ex t" "mKeys t' = mKeys t" "mRegIndex (tEnumDictionaries t') = mRegIndex (tEnumDictionaries t)"
    and "mColumnKeyIds t' = mColumnKeyIds t" "kcols t' = kcols t"
  shows "base_inv ex t'"
  using assms(1) unfolding base_inv_def own_def key_budget_def assms(2-5) .

lemma columns_inv_same:
  assumes "columns_inv ex t" "mKeys t' = mKeys t" "mRegIndex (tEnumDictionaries t') = mRegIndex (tEnumDictionaries t)"
    and "mColumnKeyIds t' = mColumnKeyIds t" "kcols t' = kcols t"
    and "\<And>i. i < length (tcolumns t) \<Longrightarrow> enum_like (tcolumns t' ! i) \<Longrightarrow>
      enum_like (tcolumns t ! i) \<or> registered ex t (kcols t ! i)"
  shows "columns_inv ex t'"
  unfolding columns_inv_def
proof (intro conjI ballI impI)
  show "base_inv ex t'" using assms(1) base_inv_same [OF _ assms(2-5)] unfolding columns_inv_def by blast
  fix c assume c: "c \<in> set (tcolumns t')" "enum_like c"
  obtain i where i: "i < length (tcolumns t')" "c = tcolumns t' ! i" using c(1) by (metis in_set_conv_nth)
  have len: "length (tcolumns t') = length (tcolumns t)" using assms(5) by (metis length_map)
  have "keys c = kcols t' ! i" using i by simp
  then have keys: "keys c = kcols t ! i" by (simp only: assms(5))
  have "registered ex t (kcols t ! i)"
    using assms(1) assms(6) [of i] i c(2) len unfolding columns_inv_def by auto
  then show "registered ex t' (keys c)" unfolding keys registered_def assms(2,3) .
qed

text \<open>A run: steps on the table that keep the invariant and the number of columns.\<close>

definition run :: "externals \<Rightarrow> EnumTable \<Rightarrow> EnumTable \<Rightarrow> bool" where
  "run ex T T' \<longleftrightarrow> estep\<^sup>*\<^sup>* (tbl T) (tbl T') \<and> columns_inv ex (tbl T') \<and> kcols (tbl T') = kcols (tbl T)"

lemma run_refl: "columns_inv ex (tbl T) \<Longrightarrow> run ex T T"
  by (simp add: run_def)

lemma run_trans: "run ex T T1 \<Longrightarrow> run ex T1 T2 \<Longrightarrow> run ex T T2"
  unfolding run_def by (metis rtranclp_trans)

lemma run_tbl: "run ex T T' \<Longrightarrow> tbl T1 = tbl T' \<Longrightarrow> run ex T T1"
  by (simp add: run_def)

lemma run_quiet:
  assumes "columns_inv ex (tbl T)" "tbl T' = (tbl T)\<lparr>mConfiguration := c, mLevelRankCache := r\<rparr>"
    and "map keys (mcolumns c) = kcols (tbl T)"
    and "\<And>i. i < length (ecolumns T) \<Longrightarrow> enum_like (mcolumns c ! i) \<Longrightarrow>
      enum_like (ecolumns T ! i) \<or> registered ex (tbl T) (kcols (tbl T) ! i)"
  shows "run ex T T'"
  unfolding run_def
proof (intro conjI)
  show "estep\<^sup>*\<^sup>* (tbl T) (tbl T')" unfolding assms(2) by (rule r_into_rtranclp) (rule estep.quiet)
  show "columns_inv ex (tbl T')" unfolding assms(2) by (rule columns_inv_same [OF assms(1)]) (use assms(3,4) in simp_all)
  show "kcols (tbl T') = kcols (tbl T)" using assms(3) by (simp add: assms(2))
qed

lemma run_set_type:
  assumes "columns_inv ex (tbl T)"
    and "ty = CtEnumeration \<or> ty = CtLevel \<Longrightarrow> i < length (ecolumns T) \<Longrightarrow> enum_like (ecolumns T ! i)"
  shows "run ex T (set_type i ty T)"
proof (rule run_quiet [OF assms(1)])
  show "tbl (set_type i ty T) = (tbl T)\<lparr>mConfiguration := SetColumnType i ty (mConfiguration (tbl T)), mLevelRankCache := mLevelRankCache (tbl T)\<rparr>"
    by simp
  show "map keys (mcolumns (SetColumnType i ty (mConfiguration (tbl T)))) = kcols (tbl T)" by simp
  fix j assume "j < length (ecolumns T)" "enum_like (mcolumns (SetColumnType i ty (mConfiguration (tbl T))) ! j)"
  then show "enum_like (ecolumns T ! j) \<or> registered ex (tbl T) (kcols (tbl T) ! j)"
    using assms(2) by (cases "j = i") auto
qed

lemma RefreshLevelRankCache_frame:
  obtains r where "RefreshLevelRankCache ex i t = t\<lparr>mConfiguration := mConfiguration t, mLevelRankCache := r\<rparr>"
proof -
  have "\<exists>r. RefreshLevelRankCache ex i t = t\<lparr>mConfiguration := mConfiguration t, mLevelRankCache := r\<rparr>"
    by (auto simp: RefreshLevelRankCache_def Let_def split: option.split intro: exI [of _ "mLevelRankCache t"])
  then show thesis using that by blast
qed

lemma run_ranks:
  assumes "columns_inv ex (tbl T)"
  shows "run ex T (T\<lparr>tbl := RefreshLevelRankCache ex i (tbl T)\<rparr>)"
proof -
  obtain r where "RefreshLevelRankCache ex i (tbl T) = (tbl T)\<lparr>mConfiguration := mConfiguration (tbl T), mLevelRankCache := r\<rparr>"
    by (rule RefreshLevelRankCache_frame)
  then have tbl: "tbl (T\<lparr>tbl := RefreshLevelRankCache ex i (tbl T)\<rparr>) =
      (tbl T)\<lparr>mConfiguration := mConfiguration (tbl T), mLevelRankCache := r\<rparr>" by simp
  show ?thesis by (rule run_quiet [OF assms tbl]) simp_all
qed

lemma run_MaybePromote:
  assumes "columns_inv ex (tbl T)"
  shows "run ex T (MaybePromoteToLevel ex i T)"
proof (cases "MaybePromoteToLevel ex i T = T")
  case False
  then have level: "enum_like (ecolumns T ! i)" and
    eq: "tbl (MaybePromoteToLevel ex i T) = RefreshLevelRankCache ex i (tbl (set_type i CtLevel T))"
    by (auto simp: MaybePromoteToLevel_def Let_def split: if_splits option.splits prod.splits)
  have "run ex T (set_type i CtLevel T)" using run_set_type [OF assms] level by blast
  note a = this
  from a have b: "run ex (set_type i CtLevel T) (set_type i CtLevel T\<lparr>tbl := RefreshLevelRankCache ex i (tbl (set_type i CtLevel T))\<rparr>)"
    by (intro run_ranks) (simp add: run_def)
  show ?thesis by (rule run_tbl [OF run_trans [OF a b]]) (simp add: eq)
qed (use run_refl [OF assms] in simp)

end
