(* ===== verification/Enum_Run.thy ===== *)
theory Enum_Run
  imports Enum_Pass
begin

text \<open>
  The operations of the detector are runs: encoding a registered column, demoting a column,
  registering the keys of a column and promoting it.  A run keeps \<open>columns_inv\<close>, and it exists
  (no exception) when the arenas of all rows are live.
\<close>

section \<open>Encoding\<close>

lemma encode_slots_index:
  "encode_slots c maxLen source ks a b line reg = (out, line', reg') \<Longrightarrow> mRegIndex reg' = mRegIndex reg"
  using encode_slots_cases [of c maxLen source ks a b line reg out line' reg'] reg_Insert_index by (metis snd_conv)

lemma encode_rows_index:
  "encode_rows c maxLen src ks rs rows reg h = (ok, rows', reg', h') \<Longrightarrow> mRegIndex reg' = mRegIndex reg"
proof (induction rs arbitrary: rows reg h)
  case (Cons r rs)
  obtain line i where row: "rows ! r = (line, i)" by force
  obtain out line' reg1 where enc: "encode_slots c maxLen (src i) ks False False line reg = (out, line', reg1)"
    by (metis prod_cases3)
  show ?case
    using Cons.prems row enc encode_slots_index [OF enc] Cons.IH by (auto split: if_splits)
qed simp

lemma EncodeColumnRange_frame:
  assumes "base_inv ex (tbl T)" "registered ex (tbl T) ks" "\<And>k. k \<in> set js \<Longrightarrow> own ex (tbl T) ks k"
    and "js \<noteq> []" "EncodeColumnRange js a b h T = (ok, h', T')"
  obtains rows reg where "T' = T\<lparr>tbl := set_registry reg ((tbl T)\<lparr>mRows := rows\<rparr>)\<rparr>"
    "mRegIndex reg = mRegIndex (tEnumDictionaries (tbl T))"
proof -
  let ?t = "tbl T"
  obtain c reg0 where r0: "reg_GetOrInsert (hd js) (mEnumValueCap T) (tEnumDictionaries ?t) = (c, reg0)" by force
  obtain rows reg where enc: "encode_rows c (mEnumValueMaxLen T) (source_at ?t) js [a..<min b (length (mRows ?t))]
      (mRows ?t) reg0 h = (ok, rows, reg, h')" and T': "T' = T\<lparr>tbl := set_registry reg (?t\<lparr>mRows := rows\<rparr>)\<rparr>"
    using assms(4,5) r0 by (auto simp: EncodeColumnRange_def Let_def split: prod.splits)
  have "reg0 = tEnumDictionaries ?t" using column_dict_registered(2) [OF assms(1,2,4,3)] r0 by (metis snd_conv)
  then show thesis using that T' encode_rows_index [OF enc] by simp
qed

lemma run_encode:
  assumes "columns_inv ex (tbl T)" "registered ex (tbl T) ks" "\<And>k. k \<in> set js \<Longrightarrow> own ex (tbl T) ks k"
    and "js \<noteq> []" "EncodeColumnRange js a b h T = (ok, h', T')"
  shows "run ex T T' \<and> ecolumns T' = ecolumns T"
proof -
  have base: "base_inv ex (tbl T)" using assms(1) by (simp add: columns_inv_def)
  obtain rows reg where T': "T' = T\<lparr>tbl := set_registry reg ((tbl T)\<lparr>mRows := rows\<rparr>)\<rparr>"
      "mRegIndex reg = mRegIndex (tEnumDictionaries (tbl T))"
    by (rule EncodeColumnRange_frame [OF base assms(2-5)])
  have "estep (tbl T) (tbl T')"
    by (rule estep.encode [OF assms(4) column_dict_registered(1) [OF base assms(2,4,3)] assms(5)])
  moreover have "columns_inv ex (tbl T')"
    by (rule columns_inv_same [OF assms(1)]) (simp_all add: T' set_registry_def)
  ultimately show ?thesis unfolding run_def by (simp add: T' set_registry_def r_into_rtranclp)
qed

section \<open>Demotion\<close>

lemma reg_Erase_index:
  assumes "reg_inv r"
  shows "mRegIndex (reg_Erase c r) k = (if mRegIndex r k = Some c then None else mRegIndex r k)"
proof (cases "mDictionaries r c")
  case None
  then show ?thesis using reg_invD(1) [OF assms, of k c] by (simp add: reg_Erase_def)
next
  case (Some e)
  then show ?thesis using reg_invD(1) [OF assms, of k c] by (auto simp: reg_Erase_def erased_index)
qed

lemma columns_inv_erase:
  assumes inv: "columns_inv ex t" and reg: "reg_inv (tEnumDictionaries t)"
    and i: "i < length (tcolumns t)" "keys (tcolumns t ! i) \<noteq> []" "id_of ex t (hd (keys (tcolumns t ! i))) = Some c"
    and t': "mKeys t' = mKeys t" "tEnumDictionaries t' = reg_Erase c (tEnumDictionaries t)"
      "mColumnKeyIds t' = mColumnKeyIds t" "tcolumns t' = (tcolumns t)[i := (tcolumns t ! i)\<lparr>ctype := CtString\<rparr>]"
  shows "columns_inv ex t'"
proof -
  have base: "base_inv ex t" using inv by (simp add: columns_inv_def)
  note baseD = base_invD [OF base]
  note index = reg_Erase_index [OF reg, of c]
  have kcols: "kcols t' = kcols t" by (simp add: t'(4))
  have "base_inv ex t'"
    using base unfolding base_inv_def own_def key_budget_def kcols t'(1-3) index by (auto split: if_splits)
  moreover have "registered ex t' (keys col)" if col: "col \<in> set (tcolumns t')" "enum_like col" for col
  proof -
    obtain j where j: "j < length (tcolumns t)" "col = tcolumns t' ! j"
      using col(1) by (metis in_set_conv_nth length_list_update t'(4))
    have "j \<noteq> i" using col(2) j i(1) by (auto simp: t'(4))
    then have same: "col = tcolumns t ! j" using j by (simp add: t'(4))
    then have old: "registered ex t (keys col)" using inv col(2) j(1) unfolding columns_inv_def by (metis nth_mem)
    have "c' \<noteq> c" if key: "key \<in> set (keys col)" "id_of ex t (hd (keys col)) = Some c'" for key c'
    proof
      assume "c' = c"
      then have eq: "hd (keys col) = hd (keys (tcolumns t ! i))" using keys.lookup_inj [OF baseD(1) key(2)] i(3) by blast
      have "keys col \<noteq> []" using key(1) by auto
      then have "hd (keys col) \<in> set (kcols t ! j)" "hd (keys col) \<in> set (kcols t ! i)"
        using same j(1) i eq hd_in_set [of "keys col"] hd_in_set [of "keys (tcolumns t ! i)"] by simp_all
      then have "j = i" using distinct_concat_nth [OF baseD(3)] j(1) i(1) by simp
      then show False using \<open>j \<noteq> i\<close> by simp
    qed
    then show ?thesis using old unfolding registered_def t'(1,2) index by fastforce
  qed
  ultimately show ?thesis by (simp add: columns_inv_def)
qed

lemma known_front:
  assumes "base_inv ex t" "registered ex t ks" "known_ids ex t ks \<noteq> []"
  shows "ks \<noteq> []" "id_of ex t (hd ks) = Some (hd (known_ids ex t ks))"
proof -
  show "ks \<noteq> []" using assms(3) by (auto simp: known_ids_def)
  then obtain c where "id_of ex t (hd ks) = Some c" using assms(2) unfolding registered_def by (metis hd_in_set)
  then show "id_of ex t (hd ks) = Some (hd (known_ids ex t ks))"
    using hd_known_ids [OF base_invD(1) [OF assms(1)] \<open>ks \<noteq> []\<close>] by metis
qed

lemma run_demote:
  assumes "columns_inv ex (tbl T)" "weak_fine (tbl T)" "DemoteColumnFromEnum ex i flag T = Some T'"
  shows "run ex T T'"
proof (cases "i < length (ecolumns T) \<and> enum_like (ecolumns T ! i)")
  case False
  then have "T' = T" using assms(3) by (auto simp: DemoteColumnFromEnum_def Let_def split: if_splits)
  then show ?thesis using run_refl [OF assms(1)] by simp
next
  case True
  let ?t = "tbl T" and ?ks = "keys (ecolumns T ! i)"
  let ?ids = "known_ids ex ?t ?ks"
  have base: "base_inv ex ?t" and reg: "registered ex ?t ?ks"
    using assms(1) True unfolding columns_inv_def by (blast, metis nth_mem)
  show ?thesis
  proof (cases "?ids = []")
    case none: True
    then have "T' = set_type i CtString T" using assms(3) True by (auto simp: DemoteColumnFromEnum_def Let_def)
    moreover have "run ex T (set_type i CtString T)" by (rule run_set_type [OF assms(1)]) simp
    ultimately show ?thesis by simp
  next
    case False
    note front = known_front [OF base reg False]
    obtain rows srcs where rows: "demote_rows (reg_Find (tEnumDictionaries ?t) (hd ?ids)) ?ids (mRows ?t) (mSources ?t) = Some (rows, srcs)"
      and T': "tbl T' = (set_registry (reg_Erase (hd ?ids) (tEnumDictionaries ?t)) (?t\<lparr>mRows := rows, mSources := srcs\<rparr>))
         \<lparr>mConfiguration := SetColumnType i CtString (mConfiguration ?t), mLevelRankCache := (mLevelRankCache ?t)(hd ?ids := None)\<rparr>"
      using assms(3) True False by (auto simp: DemoteColumnFromEnum_def Let_def set_type_def set_registry_def)
    let ?t1 = "set_registry (reg_Erase (hd ?ids) (tEnumDictionaries ?t)) (?t\<lparr>mRows := rows, mSources := srcs\<rparr>)"
    have col: "?ks \<in> set (kcols ?t)" using True by simp
    have "estep ?t ?t1"
    proof (rule estep.demote [OF False _ _ rows])
      show "column_owner (tEnumDictionaries ?t) ?ids" by (rule column_owner_registered [OF base col front(1) reg])
      show "k \<noteq> INVALID_KEY_ID" if "k \<in> set ?ids" for k using that by (simp add: known_ids_def)
    qed
    moreover have "estep ?t1 (tbl T')" unfolding T' by (rule estep.quiet)
    ultimately have "estep\<^sup>*\<^sup>* ?t (tbl T')" by (meson rtranclp.rtrancl_into_rtrancl r_into_rtranclp)
    moreover have "columns_inv ex (tbl T')"
      by (rule columns_inv_erase [OF assms(1) weak_fineD(1) [OF assms(2)] conjunct1 [OF True] front])
        (simp_all add: T' set_registry_def)
    ultimately show ?thesis by (simp add: run_def T' set_registry_def)
  qed
qed

lemma demote_live:
  assumes "weak_fine (tbl T)" "rows_live (mSources (tbl T)) (mRows (tbl T))"
  shows "DemoteColumnFromEnum ex i flag T \<noteq> None"
proof -
  have "demote_rows d ks (mRows (tbl T)) (mSources (tbl T)) \<noteq> None" for d ks
    by (rule demote_rows_live [OF assms(2)]) (use weak_fineD [OF assms(1)] in auto)
  then show ?thesis by (auto simp: DemoteColumnFromEnum_def Let_def)
qed

section \<open>Registration of the keys of a column\<close>

lemma key_budget_room:
  fixes ex :: externals
  assumes "key_inv (std_hash ex) (mKeys t)" "key_budget t" "key \<in> set ks" "ks \<in> set (kcols t)"
  shows "key_room (std_hash ex) key (mKeys t)"
proof (cases "id_of ex t key")
  case None
  let ?rev = "reverse_keys (mKeys t)" and ?all = "set (reverse_keys (mKeys t)) \<union> set (concat (kcols t))"
  have "key \<notin> set ?rev"
  proof
    assume "key \<in> set ?rev"
    then obtain i where i: "i < length ?rev" "?rev ! i = key" by (metis in_set_conv_nth)
    then have "i < 2 ^ 32" using assms(1) by (simp add: key_inv_def)
    then have "KeyOf (word_of_nat i) (mKeys t) = Some key" using i unat_length_id [of i] by (simp add: KeyOf_def)
    then show False using None key_inv_probe [OF assms(1)] by (metis option.distinct(1))
  qed
  have "card (insert key (set ?rev)) \<le> card ?all" using assms(3,4) by (intro card_mono) auto
  moreover have "card (insert key (set ?rev)) = length ?rev + 1"
    using \<open>key \<notin> set ?rev\<close> distinct_card [OF key_inv_distinct [OF assms(1)]] by simp
  ultimately show ?thesis using assms(2) by (simp add: key_room_def key_budget_def)
qed (simp add: key_room_def)

lemma GetOrInsert_reverse: "set (reverse_keys (snd (GetOrInsert hash key ki))) \<subseteq> insert key (set (reverse_keys ki))"
  by (auto simp: GetOrInsert_def locked_insert_def Let_def split: option.split)

definition grown :: "externals \<Rightarrow> LogTable \<Rightarrow> LogTable \<Rightarrow> bool" where
  "grown ex t t' \<longleftrightarrow> estep\<^sup>*\<^sup>* t t' \<and> base_inv ex t' \<and> weak_fine t' \<and> mConfiguration t' = mConfiguration t \<and>
     (\<forall>ks. registered ex t ks \<longrightarrow> registered ex t' ks)"

lemma grown_trans: "grown ex a b \<Longrightarrow> grown ex b c \<Longrightarrow> grown ex a c"
  unfolding grown_def by (metis rtranclp_trans)

lemma register_one:
  assumes base: "base_inv ex t" and weak: "weak_fine t" and col: "ks \<in> set (kcols t)" "key \<in> set ks"
    and kid: "GetOrInsert (std_hash ex) key (mKeys t) = (kid, ki)"
    and c: "probe (std_hash ex) (hd ks) ki = Some c"
    and reg: "mRegIndex reg = (mRegIndex (tEnumDictionaries t))(kid \<mapsto> c)" "reg_ext (tEnumDictionaries t) reg" "reg_inv reg"
      "short_texts (tEnumDictionaries t) \<Longrightarrow> short_texts reg"
    and old: "mRegIndex (tEnumDictionaries t) kid = None \<or> mRegIndex (tEnumDictionaries t) kid = Some c"
  defines "t' \<equiv> set_registry reg (t\<lparr>mKeys := ki\<rparr>)"
  shows "grown ex t t'" "id_of ex t' key = Some kid" "id_of ex t' (hd ks) = Some c" "mRegIndex (tEnumDictionaries t') kid = Some c"
    "id_of ex t k = Some j \<Longrightarrow> id_of ex t' k = Some j"
    "mRegIndex (tEnumDictionaries t) k' = Some d \<Longrightarrow> mRegIndex (tEnumDictionaries t') k' = Some d"
proof -
  note baseD = base_invD [OF base]
  have t': "mKeys t' = ki" "tEnumDictionaries t' = reg" "mConfiguration t' = mConfiguration t" "mColumnKeyIds t' = mColumnKeyIds t"
    by (simp_all add: t'_def set_registry_def)
  have probes: "probe (std_hash ex) key ki = Some kid" "k \<noteq> key \<Longrightarrow> probe (std_hash ex) k ki = id_of ex t k"
      "id_of ex t k = Some j \<Longrightarrow> probe (std_hash ex) k ki = Some j" for k j
    using probe_GetOrInsert(1) [OF baseD(1), of key] probe_GetOrInsert(2,3) [OF baseD(1), where key = key and k = k] kid by simp_all
  show ids: "id_of ex t' key = Some kid" "id_of ex t' (hd ks) = Some c" "mRegIndex (tEnumDictionaries t') kid = Some c"
    using probes c by (simp_all add: t' reg(1))
  show keep: "id_of ex t k = Some j \<Longrightarrow> id_of ex t' k = Some j" for k j using probes(3) by (simp add: t')
  have own: "own ex t ks' j \<Longrightarrow> own ex t' ks' j" for ks' j using keep unfolding own_def by blast
  show index: "mRegIndex (tEnumDictionaries t) j = Some d \<Longrightarrow> mRegIndex (tEnumDictionaries t') j = Some d" for j d
    using old by (auto simp: t' reg(1))
  have "key_inv (std_hash ex) ki"
    using key_inv_GetOrInsert [OF baseD(1) key_budget_room [OF baseD(1,2) col(2,1)]] kid by (metis snd_conv)
  moreover have "key_budget t'"
  proof -
    have "set (reverse_keys ki) \<subseteq> insert key (set (reverse_keys (mKeys t)))"
      using GetOrInsert_reverse [of "std_hash ex" key "mKeys t"] kid by simp
    then have "set (reverse_keys ki) \<union> set (concat (kcols t)) \<subseteq> set (reverse_keys (mKeys t)) \<union> set (concat (kcols t))"
      using col by auto
    then have "card (set (reverse_keys ki) \<union> set (concat (kcols t))) \<le> card (set (reverse_keys (mKeys t)) \<union> set (concat (kcols t)))"
      by (intro card_mono) auto
    then show ?thesis using baseD(2) by (simp add: key_budget_def t')
  qed
  moreover have "\<exists>ks'\<in>set (kcols t). ks' \<noteq> [] \<and> id_of ex t' (hd ks') = Some d \<and> own ex t' ks' j"
    if "mRegIndex reg j = Some d" for j d
  proof (cases "j = kid")
    case True
    then have "d = c" using that reg(1) by simp
    moreover have "own ex t' ks kid" using ids(1) col(2) unfolding own_def by blast
    ultimately show ?thesis using True col ids(2) by (intro bexI [of _ ks]) auto
  next
    case False
    then have "mRegIndex (tEnumDictionaries t) j = Some d" using that reg(1) by simp
    then show ?thesis using baseD(4) own keep by meson
  qed
  moreover have "own ex t' (kcols t ! i) j" if "i < length (kcols t)" "i < length (mColumnKeyIds t)"
      "j \<in> set (mColumnKeyIds t ! i)" "j \<noteq> INVALID_KEY_ID" for i j
    using baseD(5) [OF that] own by blast
  ultimately have "base_inv ex t'" using baseD(3) unfolding base_inv_def t' by blast
  moreover have "estep t t'" unfolding t'_def by (rule estep.register [OF reg(2,3,4)])
  moreover have "registered ex t' ks'" if "registered ex t ks'" for ks'
    using that keep index unfolding registered_def by meson
  ultimately show "grown ex t t'" using estep_weak [OF \<open>estep t t'\<close> weak] unfolding grown_def by (simp add: t'(3) r_into_rtranclp)
qed

lemma short_texts_Alias:
  assumes "reg_inv r" "short_texts r"
  shows "short_texts (snd (reg_Alias c k r))"
proof -
  have "\<exists>j. reg_Find (snd (reg_Alias c k r)) i = reg_Find r j" for i
  proof (cases "snd (reg_Alias c k r) = r")
    case False
    then obtain e where e: "mDictionaries r c = Some e" "mRegIndex r k = None"
      "snd (reg_Alias c k r) = r\<lparr>mRegIndex := (mRegIndex r)(k \<mapsto> c), mDictionaries := (mDictionaries r)(c \<mapsto> e\<lparr>aliases := aliases e @ [k]\<rparr>)\<rparr>"
      by (auto simp: reg_Alias_def split: option.splits if_splits)
    have "mRegIndex r c = Some c" using reg_invD(1,2) [OF assms(1)] e(1) by blast
    then have "reg_Find (snd (reg_Alias c k r)) i = reg_Find r (if i = k then c else i)"
      using e by (simp add: reg_Find_def split: option.split)
    then show ?thesis by blast
  qed auto
  then show ?thesis using assms(2) unfolding short_texts_def by metis
qed

lemma index_owned:
  assumes "base_inv ex t" "ks \<in> set (kcols t)" "key \<in> set ks"
    and "GetOrInsert (std_hash ex) key (mKeys t) = (kid, ki)" "mRegIndex (tEnumDictionaries t) kid = Some d"
  shows "id_of ex t (hd ks) = Some d" "id_of ex t key = Some kid"
proof -
  note base = base_invD [OF assms(1)]
  obtain ks' where ks': "ks' \<in> set (kcols t)" "id_of ex t (hd ks') = Some d" "own ex t ks' kid"
    using base(4) [OF assms(5)] by blast
  then obtain key' where key': "key' \<in> set ks'" "id_of ex t key' = Some kid" unfolding own_def by blast
  have "key_inv (std_hash ex) ki"
    using key_inv_GetOrInsert [OF base(1) key_budget_room [OF base(1,2) assms(3,2)]] assms(4) by simp
  moreover have "probe (std_hash ex) key' ki = Some kid" "probe (std_hash ex) key ki = Some kid"
    using probe_GetOrInsert(1) [OF base(1), of key] probe_GetOrInsert(3) [OF base(1) key'(2), of key] assms(4) by simp_all
  ultimately have "key' = key" by (rule keys.lookup_inj)
  then show "id_of ex t key = Some kid" using key'(2) by simp
  have "ks' = ks" using distinct_concat_lists [OF base(3) ks'(1) assms(2) key'(1)] assms(3) \<open>key' = key\<close> by simp
  then show "id_of ex t (hd ks) = Some d" using ks'(2) by simp
qed

text \<open>The keys that are done, and the canonical key after them.\<close>

definition keys_done :: "externals \<Rightarrow> LogTable \<Rightarrow> string list \<Rightarrow> string list \<Rightarrow> LogTable \<times> KeyId option \<Rightarrow> bool" where
  "keys_done ex t ks ps st \<longleftrightarrow> grown ex t (fst st) \<and>
     (case snd st of
        None \<Rightarrow> ps = []
      | Some c \<Rightarrow> ps \<noteq> [] \<and> id_of ex (fst st) (hd ks) = Some c \<and> mRegIndex (tEnumDictionaries (fst st)) c = Some c \<and>
          (\<forall>key\<in>set ps. \<exists>k. id_of ex (fst st) key = Some k \<and> mRegIndex (tEnumDictionaries (fst st)) k = Some c))"

lemma reg_Alias_index:
  assumes "reg_inv r" "mRegIndex r c = Some c" "mRegIndex r k = None \<or> mRegIndex r k = Some c"
  shows "mRegIndex (snd (reg_Alias c k r)) = (mRegIndex r)(k \<mapsto> c)"
proof -
  obtain e where e: "mDictionaries r c = Some e" using reg_invD(1) [OF assms(1), of c c] assms(2) by blast
  have "mDictionaries r k = None" if "mRegIndex r k = None"
    using reg_invD(1) [OF assms(1), of k k] reg_invD(2) [OF assms(1), of k] that by (cases "mDictionaries r k") auto
  then show ?thesis using assms(2,3) e by (auto simp: reg_Alias_def fun_eq_iff split: option.split)
qed

lemma keys_done_step:
  assumes inv: "keys_done ex t ks ps st" and col: "ks \<in> set (kcols t)" and ks: "ks = ps @ key # qs"
  shows "keys_done ex t ks (ps @ [key]) (register_key ex cap key st)"
proof -
  obtain u can where st: "st = (u, can)" by force
  have g: "grown ex t u" using inv by (simp add: keys_done_def st)
  have base: "base_inv ex u" and weak: "weak_fine u" and conf: "mConfiguration u = mConfiguration t"
    using g by (simp_all add: grown_def)
  have col': "ks \<in> set (kcols u)" "key \<in> set ks" using col conf ks by simp_all
  obtain kid ki where ins: "GetOrInsert (std_hash ex) key (mKeys u) = (kid, ki)" by force
  let ?reg = "tEnumDictionaries u"
  note owned = index_owned [OF base col' ins]
  have reg: "reg_inv ?reg" using weak by (rule weak_fineD)
  have kid: "probe (std_hash ex) key ki = Some kid"
    using probe_GetOrInsert(1) [OF base_invD(1) [OF base], of key] ins by simp
  show ?thesis
  proof (cases can)
    case None
    then have hd: "hd ks = key" "ps = []" using inv ks by (simp_all add: keys_done_def st)
    have old: "mRegIndex ?reg kid = None \<or> mRegIndex ?reg kid = Some kid"
      using owned hd(1) by (cases "mRegIndex ?reg kid") simp_all
    let ?r = "snd (reg_GetOrInsert kid cap ?reg)"
    have index: "mRegIndex ?r = (mRegIndex ?reg)(kid \<mapsto> kid)"
      using old by (auto simp: reg_GetOrInsert_def fun_eq_iff)
    note one = register_one [OF base weak col' ins kid [folded hd(1)] index reg_ext_GetOrInsert [OF reg]
        reg_inv_GetOrInsert [OF reg] short_texts_GetOrInsert old]
    have step: "register_key ex cap key st = (set_registry ?r (u\<lparr>mKeys := ki\<rparr>), Some kid)"
      by (simp add: register_key_def st None ins)
    show ?thesis unfolding keys_done_def step using grown_trans [OF g one(1)] one(2,4) hd by simp
  next
    case (Some c)
    then have was: "ps \<noteq> []" "id_of ex u (hd ks) = Some c" "mRegIndex ?reg c = Some c"
        "\<And>k. k \<in> set ps \<Longrightarrow> \<exists>j. id_of ex u k = Some j \<and> mRegIndex ?reg j = Some c"
      using inv by (simp_all add: keys_done_def st)
    have old: "mRegIndex ?reg kid = None \<or> mRegIndex ?reg kid = Some c" using owned(1) was(2) by (cases "mRegIndex ?reg kid") simp_all
    have c: "probe (std_hash ex) (hd ks) ki = Some c"
      using probe_GetOrInsert(3) [OF base_invD(1) [OF base] was(2), of key] ins by simp
    let ?r = "snd (reg_Alias c kid ?reg)"
    note one = register_one [OF base weak col' ins c reg_Alias_index [OF reg was(3) old] reg_ext_Alias [OF reg]
        reg_inv_Alias [OF reg] short_texts_Alias [OF reg] old]
    have step: "register_key ex cap key st = (set_registry ?r (u\<lparr>mKeys := ki\<rparr>), Some c)"
      by (simp add: register_key_def st Some ins)
    have "\<exists>j. id_of ex (set_registry ?r (u\<lparr>mKeys := ki\<rparr>)) k = Some j \<and>
        mRegIndex (tEnumDictionaries (set_registry ?r (u\<lparr>mKeys := ki\<rparr>))) j = Some c" if k: "k \<in> set (ps @ [key])" for k
      using k was(4) [of k] one(2,4,5,6) by auto
    then show ?thesis unfolding keys_done_def step using grown_trans [OF g one(1)] one(3,6) was(3) by simp
  qed
qed

lemma keys_done_fold:
  assumes "keys_done ex t ks ps st" "ks \<in> set (kcols t)" "ks = ps @ qs"
  shows "keys_done ex t ks ks (fold (register_key ex cap) qs st)"
  using assms
proof (induction qs arbitrary: ps st)
  case (Cons key qs)
  show ?case
    using Cons.IH [OF keys_done_step [OF Cons.prems] Cons.prems(2)] Cons.prems(3) by simp
qed simp

lemma register_keys_grown:
  assumes "base_inv ex t" "weak_fine t" "ks \<in> set (kcols t)"
  shows "grown ex t (fst (register_keys ex cap ks t))" "registered ex (fst (register_keys ex cap ks t)) ks"
proof -
  have "keys_done ex t ks [] (t, None)" using assms by (simp add: keys_done_def grown_def)
  from keys_done_fold [OF this assms(3)] have fin: "keys_done ex t ks ks (register_keys ex cap ks t)"
    by (simp add: register_keys_def)
  then show "grown ex t (fst (register_keys ex cap ks t))" by (simp add: keys_done_def)
  show "registered ex (fst (register_keys ex cap ks t)) ks"
    using fin unfolding keys_done_def registered_def by (auto split: option.splits)
qed

end
