(* ===== verification/Enum_Correct.thy ===== *)
theory Enum_Correct
  imports Enum_Run
begin

text \<open>
  The whole detector is correct: every pass, sweep and rescan is a run, so that it keeps the
  value of every cell and the invariant of the columns, and it returns when the rows are live.
\<close>

section \<open>Operations that may throw\<close>

definition ready :: "externals \<Rightarrow> EnumTable \<Rightarrow> bool" where
  "ready ex T \<longleftrightarrow> columns_inv ex (tbl T) \<and> weak_fine (tbl T)"

definition live :: "EnumTable \<Rightarrow> bool" where
  "live T \<longleftrightarrow> rows_live (mSources (tbl T)) (mRows (tbl T))"

definition safe :: "externals \<Rightarrow> EnumTable \<Rightarrow> EnumTable option \<Rightarrow> bool" where
  "safe ex T r \<longleftrightarrow> (\<forall>T'. r = Some T' \<longrightarrow> run ex T T') \<and> (live T \<longrightarrow> r \<noteq> None)"

lemma run_ready: "run ex T T' \<Longrightarrow> ready ex T \<Longrightarrow> ready ex T'"
  using esteps_weak by (auto simp: run_def ready_def)

lemma run_live: "run ex T T' \<Longrightarrow> ready ex T \<Longrightarrow> live T \<Longrightarrow> live T'"
  unfolding run_def ready_def live_def using esteps_weak sources_grow_live by blast

lemma ready_tbl: "ready ex T \<Longrightarrow> tbl T' = tbl T \<Longrightarrow> ready ex T'"
  by (simp add: ready_def)

lemma safe_Some: "run ex T T' \<Longrightarrow> safe ex T (Some T')"
  by (simp add: safe_def)

lemma safe_same: "ready ex T \<Longrightarrow> tbl T' = tbl T \<Longrightarrow> safe ex T (Some T')"
  using run_tbl [OF run_refl [of ex T], of T'] by (simp add: safe_def ready_def)

lemma safe_step: "run ex T T1 \<Longrightarrow> ready ex T \<Longrightarrow> safe ex T1 r \<Longrightarrow> safe ex T r"
  unfolding safe_def using run_live run_trans by blast

lemma safe_tbl: "safe ex T r \<Longrightarrow> tbl T1 = tbl T \<Longrightarrow> safe ex T1 r"
  by (simp add: safe_def run_def live_def)

lemma safe_map: "safe ex T r \<Longrightarrow> (\<And>T'. tbl (g T') = tbl T') \<Longrightarrow> safe ex T (map_option g r)"
  using run_tbl by (auto simp: safe_def)

lemma safe_bind:
  assumes "safe ex T r" "ready ex T" "\<And>T'. ready ex T' \<Longrightarrow> safe ex T' (f T')"
  shows "safe ex T (case r of None \<Rightarrow> None | Some T' \<Rightarrow> f T')"
proof (cases r)
  case (Some T')
  then have "run ex T T'" using assms(1) by (simp add: safe_def)
  then show ?thesis using safe_step [OF _ assms(2)] assms(3) [OF run_ready [OF _ assms(2)]] Some by simp
qed (use assms(1) in \<open>simp add: safe_def\<close>)

lemma run_columns: "run ex T T' \<Longrightarrow> length (ecolumns T') = length (ecolumns T)"
  unfolding run_def by (metis length_map)

lemma safe_fold:
  assumes "ready ex (fst st)" "length (ecolumns (fst st)) = n"
    and "\<And>x st. x \<in> set xs \<Longrightarrow> ready ex (fst st) \<Longrightarrow> length (ecolumns (fst st)) = n \<Longrightarrow>
      safe ex (fst st) (map_option fst (f x st))"
  shows "safe ex (fst st) (map_option fst (fold_option f xs st))"
  using assms
proof (induction xs arbitrary: st)
  case Nil
  then show ?case by (simp add: safe_same)
next
  case (Cons x xs)
  have one: "safe ex (fst st) (map_option fst (f x st))" by (rule Cons.prems(3)) (use Cons.prems in auto)
  show ?case
  proof (cases "f x st")
    case None
    then show ?thesis using one by simp
  next
    case (Some st')
    have run: "run ex (fst st) (fst st')" using one Some by (simp add: safe_def)
    have "safe ex (fst st') (map_option fst (fold_option f xs st'))"
      by (rule Cons.IH [OF run_ready [OF run Cons.prems(1)]]) (use run_columns [OF run] Cons.prems in auto)
    then show ?thesis using safe_step [OF run Cons.prems(1)] Some by simp
  qed
qed

lemma safe_demote: "ready ex T \<Longrightarrow> safe ex T (DemoteColumnFromEnum ex i flag T)"
  unfolding safe_def ready_def live_def using run_demote demote_live by blast

lemma run_level: "ready ex T \<Longrightarrow> run ex T (MaybePromoteToLevel ex i T)"
  using run_MaybePromote by (simp add: ready_def)

lemma run_type:
  assumes "ready ex T" "ty \<noteq> CtEnumeration" "ty \<noteq> CtLevel"
  shows "run ex T (set_type i ty T)"
  by (rule run_set_type) (use assms in \<open>auto simp: ready_def\<close>)

section \<open>Promotion\<close>

lemma run_register:
  assumes "ready ex T" "i < length (ecolumns T)"
  defines "T1 \<equiv> set_type i CtEnumeration T"
  shows "run ex T (T1\<lparr>tbl := fst (register_keys ex cap (keys (ecolumns T ! i)) (tbl T1))\<rparr>)"
proof -
  let ?ks = "keys (ecolumns T ! i)"
  let ?t2 = "fst (register_keys ex cap ?ks (tbl T1))"
  have T1: "tbl T1 = (tbl T)\<lparr>mConfiguration := SetColumnType i CtEnumeration (mConfiguration (tbl T)), mLevelRankCache := mLevelRankCache (tbl T)\<rparr>"
    by (simp add: T1_def set_type_def)
  have inv: "columns_inv ex (tbl T)" and weak: "weak_fine (tbl T)" using assms(1) by (simp_all add: ready_def)
  have base: "base_inv ex (tbl T)" using inv by (simp add: columns_inv_def)
  have step: "estep (tbl T) (tbl T1)" unfolding T1 by (rule estep.quiet)
  have kcols: "kcols (tbl T1) = kcols (tbl T)" by (simp add: T1)
  have base1: "base_inv ex (tbl T1)" by (rule base_inv_same [OF base]) (simp_all add: T1)
  have same: "registered ex (tbl T1) ks = registered ex (tbl T) ks" for ks by (simp add: registered_def T1)
  have weak1: "weak_fine (tbl T1)" using estep_weak [OF step weak] by blast
  have "?ks \<in> set (kcols (tbl T1))" unfolding kcols using assms(2) by simp
  note reg = register_keys_grown [OF base1 weak1 this, of cap]
  have conf: "mConfiguration ?t2 = mConfiguration (tbl T1)" and base2: "base_inv ex ?t2"
      and mono: "\<And>ks. registered ex (tbl T1) ks \<Longrightarrow> registered ex ?t2 ks" and steps: "estep\<^sup>*\<^sup>* (tbl T1) ?t2"
    using reg(1) by (simp_all add: grown_def)
  have cols: "tcolumns (tbl T1) = (ecolumns T)[i := (ecolumns T ! i)\<lparr>ctype := CtEnumeration\<rparr>]" by (simp add: T1)
  have "registered ex ?t2 (keys col)" if col: "col \<in> set (tcolumns ?t2)" "enum_like col" for col
  proof -
    obtain j where j: "j < length (ecolumns T)" "col = (ecolumns T)[i := (ecolumns T ! i)\<lparr>ctype := CtEnumeration\<rparr>] ! j"
      using col(1) unfolding conf cols in_set_conv_nth length_list_update by blast
    show ?thesis
    proof (cases "j = i")
      case True
      then show ?thesis using j reg(2) by simp
    next
      case False
      then have "registered ex (tbl T) (keys col)" using j col(2) inv unfolding columns_inv_def by (metis nth_list_update_neq nth_mem)
      then show ?thesis using mono same by blast
    qed
  qed
  then have "columns_inv ex ?t2" using base2 by (simp add: columns_inv_def)
  moreover have "kcols ?t2 = kcols (tbl T)" using conf kcols by simp
  ultimately show ?thesis using converse_rtranclp_into_rtranclp [OF step steps] by (simp add: run_def)
qed

lemma register_keys_configuration: "mConfiguration (fst (register_keys ex cap ks t)) = mConfiguration t"
proof -
  have "mConfiguration (fst (fold (register_key ex cap) ks st)) = mConfiguration (fst st)" for st
    by (induction ks arbitrary: st)
      (auto simp: register_key_def set_registry_def Let_def case_prod_beta split: option.split)
  then show ?thesis by (simp add: register_keys_def)
qed

lemma run_encode_column:
  assumes "ready ex T" "i < length (ecolumns T)" "enum_like (ecolumns T ! i)"
    and "EncodeColumnRangeAsEnum ex (ecolumns T ! i) a b h T = (ok, h', T')"
  shows "run ex T T'"
proof (cases "known_ids ex (tbl T) (keys (ecolumns T ! i)) = []")
  case True
  then have "T' = T" using assms(4) by (simp add: EncodeColumnRangeAsEnum_def)
  then show ?thesis using assms(1) run_refl by (simp add: ready_def)
next
  case False
  have inv: "columns_inv ex (tbl T)" using assms(1) by (simp add: ready_def)
  then have reg: "registered ex (tbl T) (keys (ecolumns T ! i))" and "key_inv (std_hash ex) (mKeys (tbl T))"
    using assms(2,3) base_invD(1) unfolding columns_inv_def by (metis nth_mem, blast)
  then have own: "\<And>k. k \<in> set (known_ids ex (tbl T) (keys (ecolumns T ! i))) \<Longrightarrow> own ex (tbl T) (keys (ecolumns T ! i)) k"
    using set_known_ids by blast
  show ?thesis
    using run_encode [OF inv reg own False] assms(4) False by (simp add: EncodeColumnRangeAsEnum_def)
qed

lemma safe_promote:
  assumes "ready ex T"
  shows "safe ex T (PromoteColumnToEnum ex i T)"
proof (cases "i \<ge> length (ecolumns T) \<or> enum_like (ecolumns T ! i)")
  case True
  then show ?thesis using safe_same [OF assms refl] by (auto simp: PromoteColumnToEnum_def)
next
  case False
  let ?T1 = "set_type i CtEnumeration T" and ?ks = "keys (ecolumns T ! i)"
  obtain t2 canonical where reg: "register_keys ex (mEnumValueCap ?T1) ?ks (tbl ?T1) = (t2, canonical)" by force
  let ?T2 = "?T1\<lparr>tbl := t2\<rparr>"
  define k where "k = (case canonical of None \<Rightarrow> INVALID_KEY_ID | Some c \<Rightarrow> c)"
  obtain ok h T3 where enc: "EncodeColumnRangeAsEnum ex (ecolumns ?T2 ! i) 0 (length (mRows (tbl ?T2))) (health_at k ?T2) ?T2 = (ok, h, T3)"
    by (metis prod_cases3)
  let ?T4 = "put_health k h T3"
  have i: "i < length (ecolumns T)" using False by simp
  have a: "run ex T ?T2" using run_register [OF assms i, of "mEnumValueCap ?T1"] reg by simp
  note ready2 = run_ready [OF a assms]
  have "mConfiguration t2 = mConfiguration (tbl ?T1)" using register_keys_configuration [of ex "mEnumValueCap ?T1" ?ks "tbl ?T1"] reg by simp
  then have like: "i < length (ecolumns ?T2)" "enum_like (ecolumns ?T2 ! i)" using i by (simp_all add: set_type_def)
  have b: "run ex ?T2 T3" by (rule run_encode_column [OF ready2 like enc])
  have T4: "tbl ?T4 = tbl T3" by (simp add: put_health_def)
  have ready4: "ready ex ?T4" using run_ready [OF b ready2] T4 by (rule ready_tbl)
  have c: "run ex T ?T4" using run_trans [OF a b] T4 by (rule run_tbl)
  have eq: "PromoteColumnToEnum ex i T =
      (if \<not> ok then DemoteColumnFromEnum ex i True ?T4
       else if ShouldDemote ENUM_HEALTH_TOLERANCE_RATIO ENUM_HEALTH_MIN_SAMPLES h then DemoteColumnFromEnum ex i True ?T4
       else if list_ex IsLogLevelKey ?ks then Some (MaybePromoteToLevel ex i ?T4)
       else Some ?T4)"
    using False reg enc by (simp add: PromoteColumnToEnum_def k_def Let_def)
  show ?thesis
    unfolding eq using safe_step [OF c assms] safe_demote [OF ready4] safe_Some [OF run_level [OF ready4]] safe_same [OF ready4 refl]
    by simp
qed

section \<open>The pass over a batch\<close>

lemma run_put_health: "run ex T T' \<Longrightarrow> run ex T (put_health k h T')"
  by (erule run_tbl) (simp add: put_health_def)

lemma run_put_tracker: "run ex T T' \<Longrightarrow> run ex T (put_tracker k tr T')"
  by (erule run_tbl) (simp add: put_tracker_def)

lemma fst_map_pair: "map_option fst (map_option (\<lambda>T'. (g T', b)) r) = map_option g r"
  by (cases r) simp_all

lemma resolved_own:
  assumes "ready ex T" "i < length (ecolumns T)" "i < length (mColumnKeyIds (tbl T))" "k \<in> set (resolved_keys i T)"
  shows "own ex (tbl T) (keys (ecolumns T ! i)) k"
proof -
  have "base_inv ex (tbl T)" using assms(1) by (simp add: ready_def columns_inv_def)
  from base_invD(5) [OF this _ assms(3)] show ?thesis using assms(2,4) by (auto simp: resolved_keys_def)
qed

lemma safe_active:
  assumes "ready ex T" "i < length (ecolumns T)" "i < length (mColumnKeyIds (tbl T))" "enum_like (ecolumns T ! i)"
  shows "safe ex T (map_option fst (active_column ex old i (T, b)))"
proof (cases "resolved_keys i T = []")
  case True
  then show ?thesis using safe_same [OF assms(1) refl] by (simp add: active_column_def)
next
  case False
  let ?ks = "resolved_keys i T" and ?col = "ecolumns T ! i"
  obtain ok h T1 where enc: "EncodeColumnRange ?ks old (length (mRows (tbl T))) (health_at (hd ?ks) T) T = (ok, h, T1)"
    by (metis prod_cases3)
  let ?T2 = "put_health (hd ?ks) h T1"
  have inv: "columns_inv ex (tbl T)" using assms(1) by (simp add: ready_def)
  then have reg: "registered ex (tbl T) (keys ?col)" using assms(2,4) unfolding columns_inv_def by (metis nth_mem)
  have "run ex T T1" using run_encode [OF inv reg resolved_own [OF assms(1-3)] False enc] by blast
  then have run2: "run ex T ?T2" by (rule run_put_health)
  note ready2 = run_ready [OF run2 assms(1)]
  define T3 where "T3 = (if ctype ?col = CtEnumeration \<and> autoDetect ?col \<and> dict_size_at (hd ?ks) ?T2 > dict_size_at (hd ?ks) T \<and>
      list_ex IsLogLevelKey (keys ?col) then MaybePromoteToLevel ex i ?T2 else ?T2)"
  have run3: "run ex ?T2 T3" using run_level [OF ready2] run_refl [of ex ?T2] ready2 by (simp add: T3_def ready_def)
  define T4 where "T4 = (if ctype (ecolumns T3 ! i) = CtLevel then T3\<lparr>tbl := RefreshLevelRankCache ex i (tbl T3)\<rparr> else T3)"
  have "columns_inv ex (tbl T3)" using run3 by (simp add: run_def)
  then have run4: "run ex ?T2 T4" using run_trans [OF run3 run_ranks] run3 by (simp add: T4_def)
  have eq: "map_option fst (active_column ex old i (T, b)) =
      (if \<not> ok then (if autoDetect ?col then DemoteColumnFromEnum ex i True ?T2 else Some ?T2)
       else if autoDetect ?col \<and> ShouldDemote ENUM_HEALTH_TOLERANCE_RATIO ENUM_HEALTH_MIN_SAMPLES h
            then DemoteColumnFromEnum ex i True ?T2 else Some T4)"
    using False by (simp add: active_column_def Let_def enc fst_map_pair option.map_id0 T3_def T4_def option.map_comp comp_def option.map_ident)
  show ?thesis
    unfolding eq using safe_step [OF run2 assms(1)] safe_demote [OF ready2] safe_Some [OF run4] safe_same [OF ready2 refl] by simp
qed

lemma safe_candidate:
  assumes "ready ex T"
  shows "safe ex T (map_option fst (candidate_column ex old i (T, b)))"
proof (cases "resolved_keys i T = []")
  case True
  then show ?thesis using safe_same [OF assms refl] by (simp add: candidate_column_def)
next
  case False
  have same: "run ex T T" using assms run_refl by (simp add: ready_def)
  have put: "ready ex (put_tracker k tr T)" for k tr using run_ready [OF run_put_tracker [OF same] assms] .
  have type: "safe ex T (Some (put_tracker k tr (set_type i ty (put_tracker k' tr' T))))"
    if "ty \<noteq> CtEnumeration" "ty \<noteq> CtLevel" for k tr k' tr' ty
    using safe_step [OF run_put_tracker [OF same] assms safe_Some [OF run_put_tracker [OF run_type [OF put that]]]] .
  have quiet: "safe ex T (Some (put_tracker k tr T))" "safe ex T (Some (put_tracker k tr (put_tracker k' tr' T)))" for k tr k' tr'
    by (rule safe_Some [OF run_put_tracker [OF same]], rule safe_Some [OF run_put_tracker [OF run_put_tracker [OF same]]])
  have prom: "safe ex T (map_option (put_tracker k tr) (PromoteColumnToEnum ex i (put_tracker k' tr' T)))" for k tr k' tr'
    by (rule safe_step [OF run_put_tracker [OF same] assms safe_map [OF safe_promote [OF put]]]) (simp add: put_tracker_def)
  have route: "no_string_type tr \<noteq> CtEnumeration" "no_string_type tr \<noteq> CtLevel" for tr
    by (simp_all add: no_string_type_def RouteNoStringBail_def Let_def)
  show ?thesis
    using False type [of CtString] type [OF route] quiet prom
    by (simp add: candidate_column_def Let_def fst_map_pair)
qed

lemma safe_pass_column:
  assumes "ready ex (fst st)" "i < length (ecolumns (fst st))"
  shows "safe ex (fst st) (map_option fst (enum_pass_column ex old i st))"
proof (cases "i < length (mColumnKeyIds (tbl (fst st))) \<and> enum_like (ecolumns (fst st) ! i)")
  case True
  then have "enum_pass_column ex old i st = active_column ex old i (fst st, snd st)"
    by (auto simp: enum_pass_column_def Let_def IsEnumPassEligible_def)
  then show ?thesis using safe_active [OF assms, of old "snd st"] True by (simp del: prod.collapse)
next
  case False
  then have "enum_pass_column ex old i st = Some st \<or> enum_pass_column ex old i st = candidate_column ex old i (fst st, snd st)"
    by (auto simp: enum_pass_column_def Let_def)
  then show ?thesis using safe_candidate [OF assms(1), of old i "snd st"] safe_same [OF assms(1) refl] by auto
qed

lemma safe_pass:
  assumes "ready ex (fst st)"
  shows "safe ex (fst st) (map_option fst (RunEnumPassForAppendBatch ex old st))"
proof -
  have "safe ex (fst st) (map_option fst (fold_option (enum_pass_column ex old) [0..<length (ecolumns (fst st))] st))"
    by (rule safe_fold [OF assms refl]) (use safe_pass_column in auto)
  then show ?thesis using safe_same [OF assms refl] by (simp add: RunEnumPassForAppendBatch_def Let_def)
qed

section \<open>The sweep at the end and the rescan\<close>

lemma route_type: "no_string_type tr \<noteq> CtEnumeration" "no_string_type tr \<noteq> CtLevel"
  by (simp_all add: no_string_type_def RouteNoStringBail_def Let_def)

lemma safe_type: "ready ex T \<Longrightarrow> ty \<noteq> CtEnumeration \<Longrightarrow> ty \<noteq> CtLevel \<Longrightarrow> safe ex T (Some (set_type i ty T))"
  by (rule safe_Some [OF run_type])

lemma safe_finalize_candidate:
  assumes "ready ex (fst st)"
  shows "safe ex (fst st) (map_option fst (finalize_candidate ex i st))"
proof -
  obtain T p where st: "st = (T, p)" by force
  have T: "ready ex T" using assms st by simp
  note steps = safe_same [OF T refl] safe_type [OF T, of CtString] safe_type [OF T route_type] safe_promote [OF T]
  show ?thesis
    using steps by (simp add: finalize_candidate_def st Let_def fst_map_pair option.map_ident split: option.split)
qed

lemma safe_finalize_demote:
  assumes "ready ex T"
  shows "safe ex T (finalize_demote ex i T)"
  using safe_same [OF assms refl] safe_demote [OF assms]
  by (simp add: finalize_demote_def Let_def split: option.split)

lemma fold_option_fst: "fold_option (\<lambda>x st. map_option (\<lambda>s. (s, ())) (f x (fst st))) xs (s, ()) = map_option (\<lambda>s. (s, ())) (fold_option f xs s)"
  by (induction xs arbitrary: s) (auto split: option.split)

lemma safe_fold_plain:
  assumes "ready ex T" "\<And>x T. ready ex T \<Longrightarrow> safe ex T (f x T)"
  shows "safe ex T (fold_option f xs T)"
  using safe_fold [of ex "(T, ())" _ xs "\<lambda>x st. map_option (\<lambda>s. (s, ())) (f x (fst st))"] assms
  by (simp add: fold_option_fst fst_map_pair option.map_ident)

lemma safe_finalize:
  assumes "ready ex T"
  shows "safe ex T (map_option fst (FinalizeAutoDetection ex T))"
proof -
  define r where "r = (if mEnumTrackers T = Map.empty then Some (T, False)
      else fold_option (finalize_candidate ex) [0..<length (ecolumns T)] (T, False))"
  have r: "safe ex T (map_option fst r)"
  proof (cases "mEnumTrackers T = Map.empty")
    case True
    then show ?thesis using safe_same [OF assms refl] by (simp add: r_def)
  next
    case False
    then show ?thesis
      using safe_fold [of ex "(T, False)" _ "[0..<length (ecolumns T)]" "finalize_candidate ex"] assms safe_finalize_candidate
      by (simp add: r_def)
  qed
  define g where "g = (\<lambda>T2 :: EnumTable. T2\<lparr>mEnumTrackers := Map.empty, mIsStreaming := False\<rparr>)"
  have "safe ex T (case map_option fst r of None \<Rightarrow> None
      | Some T1 \<Rightarrow> map_option g (fold_option (finalize_demote ex) [0..<length (ecolumns T1)] T1))"
    by (rule safe_bind [OF r assms]) (rule safe_map, rule safe_fold_plain, auto simp: g_def safe_finalize_demote)
  moreover have "map_option fst (FinalizeAutoDetection ex T) = (case map_option fst r of None \<Rightarrow> None
      | Some T1 \<Rightarrow> map_option g (fold_option (finalize_demote ex) [0..<length (ecolumns T1)] T1))"
    by (cases r) (auto simp: FinalizeAutoDetection_def r_def [symmetric] g_def fst_map_pair)
  ultimately show ?thesis by simp
qed

lemma safe_rescan:
  assumes "ready ex T"
  shows "safe ex T (map_option snd (RescanColumnForAutoDetection ex i T))"
proof -
  have put: "run ex T (put_tracker k None T)" for k
    using run_put_tracker [OF run_refl] assms by (simp add: ready_def)
  note T1 = run_ready [OF put assms]
  have "safe ex T (map_option (\<lambda>T'. snd (ctype (ecolumns T' ! i), T')) (r :: EnumTable option))" if "safe ex T r" for r
    using that by (simp add: option.map_ident)
  moreover note safe_step [OF put assms safe_same [OF T1 refl]] safe_step [OF put assms safe_type [OF T1, of CtString]]
    safe_step [OF put assms safe_type [OF T1 route_type]] safe_step [OF put assms safe_promote [OF T1]] safe_same [OF assms refl]
  ultimately show ?thesis
    by (simp add: RescanColumnForAutoDetection_def Let_def option.map_comp comp_def)
qed

section \<open>What a run shows\<close>

definition arenas_fit :: "EnumTable \<Rightarrow> bool" where
  "arenas_fit T \<longleftrightarrow> (\<forall>src\<in>set (mSources (tbl T)). source_fits src)"

definition detector_inv :: "externals \<Rightarrow> EnumTable \<Rightarrow> bool" where
  "detector_inv ex T \<longleftrightarrow> table_fine (tbl T) \<and> columns_inv ex (tbl T)"

definition same_display :: "EnumTable \<Rightarrow> EnumTable \<Rightarrow> bool" where
  "same_display T T' \<longleftrightarrow> (\<forall>row c. same_value (GetValue (tbl T') row c) (GetValue (tbl T) row c))"

lemma detector_ready: "detector_inv ex T \<Longrightarrow> ready ex T"
  using table_fine_weak by (simp add: detector_inv_def ready_def)

lemma run_display:
  assumes "run ex T T'" "detector_inv ex T" "arenas_fit T'"
  shows "detector_inv ex T' \<and> same_display T T'"
proof -
  have "table_fine (tbl T') \<and> same_cells (tbl T) (tbl T')"
    using esteps_table [of "tbl T" "tbl T'"] assms unfolding run_def detector_inv_def arenas_fit_def by blast
  then show ?thesis
    using same_cells_GetValue assms(1,2) unfolding run_def detector_inv_def same_display_def by blast
qed

lemma safe_display:
  assumes "safe ex T (map_option f r)" "detector_inv ex T" "live T"
  obtains x where "r = Some x" "columns_inv ex (tbl (f x))" "length (ecolumns (f x)) = length (ecolumns T)"
    "arenas_fit (f x) \<longrightarrow> detector_inv ex (f x) \<and> same_display T (f x)"
proof -
  obtain x where r: "r = Some x" and run: "run ex T (f x)" using assms(1,3) by (auto simp: safe_def)
  show thesis
    by (rule that [OF r]) (use run run_columns [OF run] run_display [OF run assms(2)] in \<open>auto simp: run_def\<close>)
qed

lemma demoted_column:
  assumes inv: "detector_inv ex T" and i: "i < length (ecolumns T)" "enum_like (ecolumns T ! i)"
    and res: "DemoteColumnFromEnum ex i flag T = Some T'"
    and k: "k \<in> set (known_ids ex (tbl T) (keys (ecolumns T ! i)))"
  shows "ctype (ecolumns T' ! i) = CtString" "reg_Find (tEnumDictionaries (tbl T')) k = None"
    "arenas_fit T' \<Longrightarrow> (line, s) \<in> set (mRows (tbl T')) \<Longrightarrow> \<not> IsDictRef k line"
proof -
  let ?t = "tbl T" and ?ks = "keys (ecolumns T ! i)"
  let ?ids = "known_ids ex ?t ?ks"
  have cinv: "columns_inv ex ?t" and fine: "table_fine ?t" using inv by (simp_all add: detector_inv_def)
  have base: "base_inv ex ?t" and reg: "registered ex ?t ?ks"
    using cinv i unfolding columns_inv_def by (blast, metis nth_mem)
  have ids: "?ids \<noteq> []" using k by auto
  obtain rows srcs where rows: "demote_rows (reg_Find (tEnumDictionaries ?t) (hd ?ids)) ?ids (mRows ?t) (mSources ?t) = Some (rows, srcs)"
    and T': "T' = set_type i CtString ((if flag then T\<lparr>mLastBatchDemotedKeys := mLastBatchDemotedKeys T @ [hd ?ids]\<rparr> else T)
         \<lparr>tbl := (set_registry (reg_Erase (hd ?ids) (tEnumDictionaries ?t)) (?t\<lparr>mRows := rows, mSources := srcs\<rparr>))
            \<lparr>mLevelRankCache := (mLevelRankCache ?t)(hd ?ids := None)\<rparr>,
          mEnumColumnHealth := (mEnumColumnHealth T)(hd ?ids := None)\<rparr>)"
    using res i ids by (cases flag) (auto simp: DemoteColumnFromEnum_def Let_def)
  show "ctype (ecolumns T' ! i) = CtString" using i(1) by (simp add: T' set_type_def set_registry_def)
  note front = known_front [OF base reg ids]
  have owner: "column_owner (tEnumDictionaries ?t) ?ids" by (rule column_owner_registered [OF base _ front(1) reg]) (use i in simp)
  have rinv: "reg_inv (tEnumDictionaries ?t)" using fine by (simp add: table_fine_def)
  show "reg_Find (tEnumDictionaries (tbl T')) k = None"
    using erase_owner(3) [OF rinv owner ids k] by (simp add: T' set_type_def set_registry_def)
  show "\<not> IsDictRef k line" if fit: "arenas_fit T'" and mem: "(line, s) \<in> set (mRows (tbl T'))"
  proof (rule demoted_table(3) [OF rows fine ids owner])
    show "j \<noteq> INVALID_KEY_ID" if "j \<in> set ?ids" for j using that by (simp add: known_ids_def)
    show "source_fits src" if "src \<in> set srcs" for src
      using fit that by (fastforce simp: arenas_fit_def T' set_type_def set_registry_def)
    show "(line, s) \<in> set rows" using mem by (simp add: T' set_type_def set_registry_def)
    show "k \<in> set ?ids" by (rule k)
  qed
qed

lemma finalized:
  "FinalizeAutoDetection ex T = Some (T', p) \<Longrightarrow> mEnumTrackers T' = Map.empty \<and> \<not> mIsStreaming T'"
  by (auto simp: FinalizeAutoDetection_def split: option.splits prod.splits if_splits)

end
