(* ===== verification/Enum_Evidence.thy ===== *)
theory Enum_Evidence
  imports Enum_Detector
begin

text \<open>
  What the tracker of a candidate column knows: its counters add up, its values are distinct and
  within the bounds, and as long as it is not killed they are exactly the short texts of the rows
  it has scanned.
\<close>

definition tracker_inv :: "EnumCandidateTracker \<Rightarrow> bool" where
  "tracker_inv tr \<longleftrightarrow> distinct (trValues tr) \<and> trSeen tr = set (trValues tr) \<and>
     unat (trSize tr) = length (trValues tr) \<and> trSize tr \<le> trCap tr \<and> presenceCount tr \<le> rowsObserved tr \<and>
     length (trValues tr) + longValueCount tr + intObservations tr + uintObservations tr + doubleObservations tr +
       boolObservations tr \<le> presenceCount tr"

definition short_for :: "32 word \<Rightarrow> string \<Rightarrow> bool" where
  "short_for maxLen bytes \<longleftrightarrow> maxLen = 0 \<or> length bytes \<le> unat maxLen"

definition row_text :: "KeyId list \<Rightarrow> (nat \<Rightarrow> LineSource option) \<Rightarrow> LogLine \<times> nat \<Rightarrow> string option" where
  "row_text ks src r = (case first_slot ks (fst r) of None \<Rightarrow> None | Some slot \<Rightarrow> PeekStringView slot (src (snd r)) (fst r))"

definition short_row_texts :: "32 word \<Rightarrow> KeyId list \<Rightarrow> (nat \<Rightarrow> LineSource option) \<Rightarrow> (LogLine \<times> nat) list \<Rightarrow> string set" where
  "short_row_texts maxLen ks src rows = {bytes. \<exists>r\<in>set rows. row_text ks src r = Some bytes \<and> short_for maxLen bytes}"

lemma tracker_inv_new: "tracker_inv (new_Tracker cap maxLen)"
  by (simp add: tracker_inv_def new_Tracker_def)

text \<open>The invariant while one present value is still to be counted.\<close>

definition tracker_pre :: "EnumCandidateTracker \<Rightarrow> bool" where
  "tracker_pre tr \<longleftrightarrow> distinct (trValues tr) \<and> trSeen tr = set (trValues tr) \<and>
     unat (trSize tr) = length (trValues tr) \<and> trSize tr \<le> trCap tr \<and> presenceCount tr \<le> rowsObserved tr \<and>
     length (trValues tr) + longValueCount tr + intObservations tr + uintObservations tr + doubleObservations tr +
       boolObservations tr < presenceCount tr"

lemma unat_next: "x < (y :: 16 word) \<Longrightarrow> unat (x + 1) = unat x + 1 \<and> x + 1 \<le> y"
proof -
  assume "x < y"
  then have "unat x < unat y" by (simp add: word_less_nat_alt)
  moreover have "unat y < 2 ^ 16" using unsigned_less [of y] by simp
  ultimately show ?thesis by (simp add: unat_word_ariths word_le_nat_alt)
qed

lemma Observe_cases:
  obtains (same) "Observe bytes tr = tr" "killed tr \<or> bytes \<in> trSeen tr"
  | (long) "Observe bytes tr = tr\<lparr>longValueCount := longValueCount tr + 1\<rparr>" "\<not> short_for (trMaxLen tr) bytes"
  | (long_kill) "Observe bytes tr = kill (tr\<lparr>longValueCount := longValueCount tr + 1\<rparr>)"
  | (cap_kill) "Observe bytes tr = kill tr"
  | (fresh) "Observe bytes tr = tr\<lparr>trValues := trValues tr @ [bytes], trSeen := insert bytes (trSeen tr), trSize := trSize tr + 1\<rparr>"
      "\<not> killed tr" "short_for (trMaxLen tr) bytes" "bytes \<notin> trSeen tr" "trSize tr < trCap tr"
proof -
  consider "killed tr" | "\<not> killed tr" "\<not> short_for (trMaxLen tr) bytes"
    | "\<not> killed tr" "short_for (trMaxLen tr) bytes" "bytes \<in> trSeen tr"
    | "\<not> killed tr" "short_for (trMaxLen tr) bytes" "bytes \<notin> trSeen tr" "trSize tr < trCap tr"
    | "\<not> killed tr" "short_for (trMaxLen tr) bytes" "bytes \<notin> trSeen tr" "\<not> trSize tr < trCap tr" by blast
  then show thesis
  proof cases
    case 1
    then show thesis by (intro same) (simp_all add: Observe_def)
  next
    case 2
    let ?tr = "tr\<lparr>longValueCount := longValueCount tr + 1\<rparr>"
    have "Observe bytes tr = ?tr \<or> Observe bytes tr = kill ?tr"
      using 2 by (auto simp: Observe_def short_for_def Let_def)
    then show thesis using long long_kill 2(2) by blast
  next
    case 3
    then show thesis by (intro same) (auto simp: Observe_def short_for_def)
  next
    case 4
    then show thesis by (intro fresh) (auto simp: Observe_def short_for_def not_le)
  next
    case 5
    then show thesis by (intro cap_kill) (auto simp: Observe_def short_for_def not_less)
  qed
qed

lemma tracker_Observe:
  assumes "tracker_pre tr"
  shows "tracker_inv (Observe bytes tr)"
proof (cases rule: Observe_cases [where bytes = bytes and tr = tr])
  case fresh
  then show ?thesis using assms unat_next [OF fresh(5)] by (simp add: tracker_inv_def tracker_pre_def)
qed (use assms in \<open>simp_all add: tracker_inv_def tracker_pre_def kill_def\<close>)

lemma tracker_observe_row:
  assumes "tracker_inv tr"
  shows "tracker_inv (observe_row ks source line tr)"
proof (cases "first_slot ks line")
  case None
  then show ?thesis using assms by (simp add: observe_row_def tracker_inv_def)
next
  case (Some slot)
  let ?tr = "tr\<lparr>rowsObserved := rowsObserved tr + 1, presenceCount := presenceCount tr + 1\<rparr>"
  have pre: "tracker_pre ?tr" using assms by (simp add: tracker_inv_def tracker_pre_def)
  show ?thesis
  proof (cases "PeekStringView slot source line")
    case None
    then show ?thesis using Some assms by (simp add: observe_row_def Let_def tracker_inv_def)
  next
    case bytes: (Some bytes)
    then show ?thesis using Some tracker_Observe [OF pre] by (simp add: observe_row_def Let_def)
  qed
qed

lemma Observe_frame:
  "trMaxLen (Observe bytes tr) = trMaxLen tr" "trCap (Observe bytes tr) = trCap tr"
  "rowsObserved (Observe bytes tr) = rowsObserved tr" "presenceCount (Observe bytes tr) = presenceCount tr"
  "killed tr \<Longrightarrow> killed (Observe bytes tr)"
  by (cases rule: Observe_cases [where bytes = bytes and tr = tr]; simp add: kill_def)+

lemma Observe_seen:
  "\<not> killed (Observe bytes tr) \<Longrightarrow>
   trSeen (Observe bytes tr) = trSeen tr \<union> (if short_for (trMaxLen tr) bytes then {bytes} else {})
     \<or> \<not> short_for (trMaxLen tr) bytes \<and> bytes \<in> trSeen tr"
  by (cases rule: Observe_cases [where bytes = bytes and tr = tr]) (simp_all add: kill_def, auto)

lemma observe_row_frame:
  "trMaxLen (observe_row ks source line tr) = trMaxLen tr" "trCap (observe_row ks source line tr) = trCap tr"
  "rowsObserved (observe_row ks source line tr) = rowsObserved tr + 1"
  "killed tr \<Longrightarrow> killed (observe_row ks source line tr)"
  by (simp_all add: observe_row_def Let_def Observe_frame split: option.split)

lemma observe_row_seen:
  assumes "\<not> killed (observe_row ks (src i) line tr)" "trSeen tr = short_row_texts (trMaxLen tr) ks src rows"
  shows "trSeen (observe_row ks (src i) line tr) = short_row_texts (trMaxLen tr) ks src (rows @ [(line, i)])"
proof (cases "row_text ks src (line, i)")
  case None
  then have "trSeen (observe_row ks (src i) line tr) = trSeen tr"
    by (auto simp: observe_row_def row_text_def Let_def split: option.splits)
  then show ?thesis using None assms(2) by (auto simp: short_row_texts_def)
next
  case (Some bytes)
  then obtain slot where slot: "first_slot ks line = Some slot" "PeekStringView slot (src i) line = Some bytes"
    by (auto simp: row_text_def split: option.splits)
  let ?tr = "tr\<lparr>rowsObserved := rowsObserved tr + 1, presenceCount := presenceCount tr + 1\<rparr>"
  have eq: "observe_row ks (src i) line tr = Observe bytes ?tr" using slot by (simp add: observe_row_def Let_def)
  have "trSeen (Observe bytes ?tr) = trSeen tr \<union> (if short_for (trMaxLen tr) bytes then {bytes} else {})"
  proof (cases "short_for (trMaxLen tr) bytes")
    case True
    then show ?thesis using Observe_seen [of bytes ?tr] assms(1) unfolding eq by simp
  next
    case False
    then have "bytes \<notin> trSeen tr" using assms(2) by (simp add: short_row_texts_def)
    then show ?thesis using False Observe_seen [of bytes ?tr] assms(1) unfolding eq by simp
  qed
  then show ?thesis using eq Some assms(2) by (auto simp: short_row_texts_def)
qed

lemma scan_rows_invariant:
  assumes "scan_rows enough ks src rows tr = tr'" "tracker_inv tr"
    and "\<not> killed tr \<Longrightarrow> trSeen tr = short_row_texts (trMaxLen tr) ks src before"
  shows "tracker_inv tr' \<and> trMaxLen tr' = trMaxLen tr \<and> trCap tr' = trCap tr \<and>
    (\<exists>n\<le>length rows. rowsObserved tr' = rowsObserved tr + n \<and>
      (\<not> killed tr' \<longrightarrow> trSeen tr' = short_row_texts (trMaxLen tr) ks src (before @ take n rows)))"
  using assms
proof (induction rows arbitrary: tr before)
  case Nil
  then show ?case by auto
next
  case (Cons r rows)
  obtain line i where r: "r = (line, i)" by force
  let ?tr = "observe_row ks (src i) line tr"
  have inv: "tracker_inv ?tr" using tracker_observe_row [OF Cons.prems(2)] .
  have seen: "trSeen ?tr = short_row_texts (trMaxLen ?tr) ks src (before @ [r])" if "\<not> killed ?tr"
    using observe_row_seen [of ks src i line tr before] that Cons.prems(3) that observe_row_frame(4) unfolding r observe_row_frame(1) by blast
  show ?case
  proof (cases "enough ?tr")
    case True
    then have "tr' = ?tr" using Cons.prems(1) r by (simp add: Let_def)
    then show ?thesis
      using inv seen by (intro conjI exI [of _ 1]) (simp_all add: observe_row_frame)
  next
    case False
    then have rest: "scan_rows enough ks src rows ?tr = tr'" using Cons.prems(1) r by (simp add: Let_def)
    obtain n where n: "n \<le> length rows" "rowsObserved tr' = rowsObserved ?tr + n"
        "\<not> killed tr' \<longrightarrow> trSeen tr' = short_row_texts (trMaxLen ?tr) ks src ((before @ [r]) @ take n rows)"
      using Cons.IH [OF rest inv seen] by blast
    then show ?thesis
      using Cons.IH [OF rest inv seen] by (intro conjI exI [of _ "Suc n"]) (simp_all add: observe_row_frame)
  qed
qed

end
