(* ===== verification/Scalar_Text.thy ===== *)
theory Scalar_Text
  imports Log_Table Iso_Roundtrip
begin

text \<open>
  \<open>library/include/loglib/internal/classify_bare_scalar.hpp\<close>: the types of unquoted scalars,
  shared by the logfmt and the CSV parser, and the printing of numbers both use.

  A \<open>string_view\<close> into the mapped file is its bytes with their offset in the file; \<open>None\<close> for a
  view elsewhere, or when there is no file (\<open>fileBegin == nullptr\<close>).  The header has two ways to
  read a double, chosen when the library is built: \<open>std::from_chars\<close>, or a check of the literal
  followed by \<open>std::strtod\<close>; \<open>hasFromChars\<close> is that choice.
\<close>

section \<open>Doubles\<close>

text \<open>
  \<open>std::from_chars\<close> on a double, when it consumes the whole text and the value is finite.  It takes
  no leading plus sign, and a value that overflows or a non-zero one that becomes zero is out of
  range.
\<close>

definition mantissa_zero :: "string \<Rightarrow> bool" where
  "mantissa_zero s = (case scan_mantissa isdigit s of (ip, fp, _) \<Rightarrow> digits_nat 0 (ip @ fp) = 0)"

definition from_chars_double :: "string \<Rightarrow> double option" where
  "from_chars_double s =
     (let neg = (s \<noteq> [] \<and> hd s = CHR ''-''); u = (if neg then tl s else s)
      in case strtod_decimal neg u of
           None \<Rightarrow> None
         | Some (d, _) \<Rightarrow> if dmag d \<ge> inf_mag \<or> (dmag d = 0 \<and> \<not> mantissa_zero u) then None else Some d)"

definition DOUBLE_PARSE_BUFFER_SIZE :: nat where
  "DOUBLE_PARSE_BUFFER_SIZE = 64"

text \<open>The scan of the literal: digits with at most one dot, whether a digit was seen, and the rest.\<close>

fun literal_mantissa :: "bool \<Rightarrow> bool \<Rightarrow> string \<Rightarrow> bool \<times> string" where
  "literal_mantissa sawDigit sawDot [] = (sawDigit, [])"
| "literal_mantissa sawDigit sawDot (c # cs) =
     (if isdigit c then literal_mantissa True sawDot cs
      else if c = CHR ''.'' \<and> \<not> sawDot then literal_mantissa sawDigit True cs
      else (sawDigit, c # cs))"

definition literal_exponent :: "string \<Rightarrow> string option" where
  "literal_exponent s =
     (if s \<noteq> [] \<and> (hd s = CHR ''e'' \<or> hd s = CHR ''E'') then
        let r = tl s; r = (if r \<noteq> [] \<and> (hd r = CHR ''+'' \<or> hd r = CHR ''-'') then tl r else r)
        in if takeWhile isdigit r = [] then None else Some (dropWhile isdigit r)
      else Some s)"

definition is_float_literal :: "string \<Rightarrow> bool" where
  "is_float_literal s =
     (case literal_mantissa False False (if hd s = CHR ''+'' \<or> hd s = CHR ''-'' then tl s else s) of
        (sawDigit, rest) \<Rightarrow> sawDigit \<and> literal_exponent rest = Some [])"

definition TryParseFiniteDouble :: "bool \<Rightarrow> string \<Rightarrow> double option" where
  "TryParseFiniteDouble hasFromChars raw =
     (if hasFromChars then from_chars_double raw
      else if raw = [] \<or> length raw \<ge> DOUBLE_PARSE_BUFFER_SIZE then None
      else if \<not> is_float_literal raw then None
      else case strtod_whole raw of
             None \<Rightarrow> None
           | Some (d, erange) \<Rightarrow> if erange \<or> isnan d \<or> dmag d \<ge> inf_mag then None else Some d)"

section \<open>Strings and scalars\<close>

definition MakeStringCompact :: "string \<Rightarrow> nat option \<Rightarrow> nat \<Rightarrow> string \<Rightarrow> CompactLogValue \<times> string" where
  "MakeStringCompact sv fileOffset fileSize arena =
     (case fileOffset of
        Some off \<Rightarrow>
          if off + length sv \<le> fileSize then (MakeMmapSlice (word_of_nat off) (word_of_nat (length sv)), arena)
          else (MakeOwnedString (word_of_nat (length arena)) (word_of_nat (length sv)), arena @ sv)
      | None \<Rightarrow> (MakeOwnedString (word_of_nat (length arena)) (word_of_nat (length sv)), arena @ sv))"

text \<open>\<open>std::from_chars\<close> on \<open>int64_t\<close> (a text that starts with a minus sign) and \<open>uint64_t\<close>, whole.\<close>

definition from_chars_int64 :: "string \<Rightarrow> 64 word option" where
  "from_chars_int64 s =
     (let ds = tl s
      in if ds \<noteq> [] \<and> list_all isdigit ds \<and> digits_nat 0 ds \<le> 2 ^ 63 then Some (- word_of_nat (digits_nat 0 ds)) else None)"

definition from_chars_uint64 :: "string \<Rightarrow> 64 word option" where
  "from_chars_uint64 s =
     (if s \<noteq> [] \<and> list_all isdigit s \<and> digits_nat 0 s < 2 ^ 64 then Some (word_of_nat (digits_nat 0 s)) else None)"

definition ClassifyBareScalar :: "bool \<Rightarrow> string \<Rightarrow> nat option \<Rightarrow> nat \<Rightarrow> string \<Rightarrow> CompactLogValue \<times> string" where
  "ClassifyBareScalar hasFromChars raw fileOffset fileSize arena =
     (if raw = [] then (MakeMonostate, arena)
      else if raw = ''true'' then (MakeBool True, arena)
      else if raw = ''false'' then (MakeBool False, arena)
      else case (if hd raw = CHR ''-'' then map_option MakeInt64 (from_chars_int64 raw)
                 else if isdigit (hd raw) then map_option MakeUint64 (from_chars_uint64 raw)
                 else None) of
             Some c \<Rightarrow> (c, arena)
           | None \<Rightarrow>
               (case (if hd raw = CHR ''-'' \<or> hd raw = CHR ''+'' \<or> hd raw = CHR ''.'' \<or> isdigit (hd raw)
                      then TryParseFiniteDouble hasFromChars raw else None) of
                  Some d \<Rightarrow> (MakeDouble d, arena)
                | None \<Rightarrow> MakeStringCompact raw fileOffset fileSize arena))"

text \<open>\<open>fmt::format("{}", n)\<close> of an integer.\<close>

definition show_int64 :: "64 word \<Rightarrow> string" where
  "show_int64 w = to_string (sint w)"

definition show_uint64 :: "64 word \<Rightarrow> string" where
  "show_uint64 w = show_nat (unat w)"

definition TimeStampToDateTimeString :: "externals \<Rightarrow> 64 word \<Rightarrow> string" where
  "TimeStampToDateTimeString ex w = date_format ex ''%F %T'' w"

definition isfinite :: "double \<Rightarrow> bool" where
  "isfinite d \<longleftrightarrow> \<not> isnan d \<and> dmag d < inf_mag"

section \<open>Integers keep their value\<close>

lemma show_nat_digits: "list_all isdigit (show_nat n) \<and> show_nat n \<noteq> [] \<and> digits_nat 0 (show_nat n) = n"
proof (induction n rule: less_induct)
  case (less n)
  show ?case
  proof (cases "n < 10")
    case True
    then show ?thesis by (simp add: show_nat.simps [of n])
  next
    case False
    then have "n div 10 < n" by simp
    from less.IH [OF this] show ?thesis
      using False by (simp add: show_nat.simps [of n] digits_nat_append)
  qed
qed

lemma show_nat_inj: "show_nat a = show_nat b \<Longrightarrow> a = b"
  using show_nat_digits by metis

lemma digit_not_word: "isdigit c \<Longrightarrow> c \<noteq> CHR ''t'' \<and> c \<noteq> CHR ''f'' \<and> c \<noteq> CHR ''-''"
  by (auto simp: isdigit_def)

lemma show_nat_hd: "isdigit (hd (show_nat n))"
  using show_nat_digits [of n] by (cases "show_nat n") auto

lemma classify_uint64: "ClassifyBareScalar hasFromChars (show_uint64 w) fo fs arena = (MakeUint64 w, arena)"
proof -
  note ds = show_nat_digits [of "unat w"]
  have "hd (show_nat (unat w)) \<noteq> CHR ''t''" "hd (show_nat (unat w)) \<noteq> CHR ''f''" "hd (show_nat (unat w)) \<noteq> CHR ''-''"
    using digit_not_word [OF show_nat_hd] by blast+
  then have "show_nat (unat w) \<noteq> ''true''" "show_nat (unat w) \<noteq> ''false''" by auto
  moreover have "from_chars_uint64 (show_nat (unat w)) = Some w"
    using ds unsigned_less [of w] by (simp add: from_chars_uint64_def)
  ultimately show ?thesis
    using ds show_nat_hd \<open>hd (show_nat (unat w)) \<noteq> CHR ''-''\<close> by (simp add: ClassifyBareScalar_def show_uint64_def)
qed

text \<open>A signed integer keeps its value; one that is not negative comes back as an unsigned one.\<close>

lemma classify_int64:
  "ClassifyBareScalar hasFromChars (show_int64 w) fo fs arena = (if sint w < 0 then MakeInt64 w else MakeUint64 w, arena)"
proof (cases "sint w < 0")
  case True
  define n where "n = nat (- sint w)"
  have n: "n \<le> 2 ^ 63" "int n = - sint w" using sint_ge [of w] True by (simp_all add: n_def)
  have "- word_of_nat n = w"
  proof -
    have "word_of_int (- int n) = (word_of_int (sint w) :: 64 word)" using n(2) by simp
    then show ?thesis by simp
  qed
  then have "from_chars_int64 (CHR ''-'' # show_nat n) = Some w"
    using show_nat_digits [of n] n(1) by (simp add: from_chars_int64_def)
  then show ?thesis using True by (simp add: ClassifyBareScalar_def show_int64_def to_string_def n_def)
next
  case False
  then have "take_bit 64 (sint w) = sint w" using sint_lt [of w] by (simp add: take_bit_int_eq_self)
  then have "sint w = uint w" by (simp add: uint_sint)
  then have "show_int64 w = show_uint64 w" using False by (simp add: show_int64_def show_uint64_def to_string_def)
  then show ?thesis using False classify_uint64 by simp
qed

section \<open>Lines of a probe buffer\<close>

text \<open>\<open>library/include/loglib/internal/probe_line_view.hpp\<close>, and the loop to the first line that is not blank.\<close>

definition StripCr :: "string \<Rightarrow> string" where
  "StripCr sv = (if sv \<noteq> [] \<and> last sv = RETURN then butlast sv else sv)"

record ProbeLine =
  probeLine :: string
  bytesConsumed :: nat
  nextOffset :: nat
  probeTerminated :: bool

definition NextProbeLine :: "string \<Rightarrow> nat \<Rightarrow> ProbeLine" where
  "NextProbeLine bytes offset =
     (if offset \<ge> length bytes then \<lparr>probeLine = [], bytesConsumed = 0, nextOffset = length bytes, probeTerminated = False\<rparr>
      else let rest = drop offset bytes; raw = takeWhile (\<lambda>c. c \<noteq> NEWLINE) rest
           in if length raw = length rest then
                \<lparr>probeLine = StripCr raw, bytesConsumed = length bytes - offset, nextOffset = length bytes, probeTerminated = False\<rparr>
              else \<lparr>probeLine = StripCr raw, bytesConsumed = length raw + 1, nextOffset = offset + length raw + 1, probeTerminated = True\<rparr>)"

lemma NextProbeLine_advances: "offset < length bytes \<Longrightarrow> offset < nextOffset (NextProbeLine bytes offset)"
  by (simp add: NextProbeLine_def Let_def)

function first_line :: "string \<Rightarrow> nat \<Rightarrow> (string \<times> nat) option" where
  "first_line bytes cursor =
     (if cursor \<ge> length bytes then None
      else let probe = NextProbeLine bytes cursor
           in if probeLine probe = [] then first_line bytes (nextOffset probe) else Some (probeLine probe, nextOffset probe))"
  by pat_completeness auto

termination
proof (relation "measure (\<lambda>(bytes, cursor). length bytes - cursor)")
  fix bytes :: string and cursor probe
  assume "\<not> length bytes \<le> cursor" "probe = NextProbeLine bytes cursor"
  then show "((bytes, nextOffset probe), bytes, cursor) \<in> measure (\<lambda>(bytes, cursor). length bytes - cursor)"
    using NextProbeLine_advances [of cursor bytes] by auto
qed simp

declare first_line.simps [simp del]

end
