(* ===== verification/Csv_Parser.thy ===== *)
theory Csv_Parser
  imports Scalar_Text
begin

text \<open>
  \<open>library/include/loglib/internal/csv_tokenize.hpp\<close> and the record level of
  \<open>library/src/parsers/csv_parser.cpp\<close>: cells, header, typed values, printing and detection.

  The tokenizer walks the rest of the line; \<open>cellAt\<close> is where a cell that is a view of the line
  starts.  The buffer for unescaped cells is only the storage of the views with \<open>fromScratch\<close>.
\<close>

section \<open>Cells\<close>

record CsvCell =
  cellText :: string
  wasQuoted :: bool
  fromScratch :: bool
  cellAt :: nat

definition empty_cell :: CsvCell where
  "empty_cell = \<lparr>cellText = [], wasQuoted = False, fromScratch = False, cellAt = 0\<rparr>"

text \<open>
  Behind an opening quote: whether a doubled quote was seen, the raw inner bytes, and what
  follows the closing quote.
\<close>

fun csv_inner :: "bool \<Rightarrow> string \<Rightarrow> string \<Rightarrow> (bool \<times> string \<times> string) option" where
  "csv_inner sawEscape raw [] = None"
| "csv_inner sawEscape raw [c] = (if c = QUOTE then Some (sawEscape, raw, []) else None)"
| "csv_inner sawEscape raw (c # d # cs) =
     (if c = QUOTE then (if d = QUOTE then csv_inner True (raw @ [c, d]) cs else Some (sawEscape, raw, d # cs))
      else csv_inner sawEscape (raw @ [c]) (d # cs))"

fun csv_unescape :: "string \<Rightarrow> string" where
  "csv_unescape [] = []"
| "csv_unescape [c] = [c]"
| "csv_unescape (c # d # cs) = (if c = QUOTE \<and> d = QUOTE then QUOTE # csv_unescape cs else c # csv_unescape (d # cs))"

abbreviation COMMA :: char where "COMMA \<equiv> CHR 0x2C"

abbreviation to_comma :: "string \<Rightarrow> string" where
  "to_comma \<equiv> takeWhile (\<lambda>c. c \<noteq> COMMA)"

abbreviation from_comma :: "string \<Rightarrow> string" where
  "from_comma \<equiv> dropWhile (\<lambda>c. c \<noteq> COMMA)"

lemma csv_inner_rest: "csv_inner esc raw s = Some (esc', raw', rest) \<Longrightarrow> length rest < length s"
  by (induction esc raw s rule: csv_inner.induct) (force split: if_splits)+

lemma from_comma_less: "from_comma s \<noteq> [] \<Longrightarrow> length (tl (from_comma s)) < length s"
  using length_dropWhile_le [of "\<lambda>c. c \<noteq> COMMA" s] by (cases "from_comma s") auto

text \<open>
  The cells of the line from position \<open>i\<close>, where \<open>s\<close> is the rest, and whether the line is well
  formed.  Bytes between a closing quote and the next comma are skipped.
\<close>

function csv_cells :: "nat \<Rightarrow> string \<Rightarrow> CsvCell list \<times> bool" where
  "csv_cells i s =
     (if s \<noteq> [] \<and> hd s = QUOTE then
        (case csv_inner False [] (tl s) of
           None \<Rightarrow> ([], False)
         | Some (sawEscape, raw, rest) \<Rightarrow>
             let cell = \<lparr>cellText = (if sawEscape then csv_unescape raw else raw), wasQuoted = True,
                         fromScratch = sawEscape, cellAt = i + 1\<rparr>;
                 r = from_comma rest
             in if r = [] then ([cell], True)
                else if tl r = [] then ([cell, empty_cell], True)
                else (case csv_cells (i + length raw + 2 + length (to_comma rest) + 1) (tl r) of
                        (cells, ok) \<Rightarrow> (cell # cells, ok)))
      else
        let cell = \<lparr>cellText = to_comma s, wasQuoted = False, fromScratch = False, cellAt = i\<rparr>;
            r = from_comma s
        in if r = [] then ([cell], True)
           else if tl r = [] then ([cell, empty_cell], True)
           else (case csv_cells (i + length (to_comma s) + 1) (tl r) of (cells, ok) \<Rightarrow> (cell # cells, ok)))"
  by pat_completeness auto

termination
proof (relation "measure (\<lambda>(i, s). length s)")
  fix i s x sawEscape y raw rest cell r
  assume a: "s \<noteq> [] \<and> hd s = QUOTE" "csv_inner False [] (tl s) = Some x" "(sawEscape, y) = x" "(raw, rest) = y"
    "r = from_comma rest" "r \<noteq> []"
  then have "csv_inner False [] (tl s) = Some (sawEscape, raw, rest)" by simp
  from csv_inner_rest [OF this] from_comma_less [of rest] a(1,5,6)
  show "((i + length raw + 2 + length (to_comma rest) + 1, tl r), i, s) \<in> measure (\<lambda>(i, s). length s)"
    by (cases s) auto
qed (use from_comma_less in auto)

declare csv_cells.simps [simp del]

definition TokenizeCsvLine :: "string \<Rightarrow> CsvCell list \<times> bool" where
  "TokenizeCsvLine line = csv_cells 0 line"

section \<open>The header\<close>

definition UTF8_BOM :: string where
  "UTF8_BOM = [CHR 0xEF, CHR 0xBB, CHR 0xBF]"

definition StripBom :: "string \<Rightarrow> string" where
  "StripBom sv = (if take 3 sv = UTF8_BOM then drop 3 sv else sv)"

definition suffixed :: "string \<Rightarrow> nat \<Rightarrow> string" where
  "suffixed base n = base @ CHR ''_'' # show_nat n"

text \<open>The first suffix from \<open>n\<close> on that no name has taken.\<close>

lemma suffixed_inj: "suffixed base a = suffixed base b \<Longrightarrow> a = b"
  using show_nat_inj by (simp add: suffixed_def)

function fresh_suffix :: "string \<Rightarrow> string list \<Rightarrow> nat \<Rightarrow> nat" where
  "fresh_suffix base seen n = (if suffixed base n \<in> set seen then fresh_suffix base seen (n + 1) else n)"
  by pat_completeness auto

termination
proof (relation "measure (\<lambda>(base, seen, n). card {m. n \<le> m \<and> suffixed base m \<in> set seen})")
  fix base :: string and seen n
  assume taken: "suffixed base n \<in> set seen"
  let ?later = "\<lambda>n. {m. n \<le> m \<and> suffixed base m \<in> set seen}"
  have "finite (suffixed base ` ?later n)" by (rule finite_subset [of _ "set seen"]) auto
  then have "finite (?later n)" by (rule finite_imageD) (auto intro: inj_onI suffixed_inj)
  moreover have "?later (n + 1) \<subset> ?later n"
  proof -
    have "n \<in> ?later n" "n \<notin> ?later (n + 1)" "?later (n + 1) \<subseteq> ?later n" using taken by auto
    then show ?thesis by blast
  qed
  ultimately have "card (?later (n + 1)) < card (?later n)" by (rule psubset_card_mono)
  then show "((base, seen, n + 1), base, seen, n) \<in> measure (\<lambda>(base, seen, n). card {m. n \<le> m \<and> suffixed base m \<in> set seen})"
    by simp
qed simp

declare fresh_suffix.simps [simp del]

text \<open>The loop over the names with the set of names seen so far.\<close>

fun dedup_names :: "string list \<Rightarrow> string list \<Rightarrow> string list" where
  "dedup_names seen [] = []"
| "dedup_names seen (name # names) =
     (if name \<notin> set seen then name # dedup_names (name # seen) names
      else let candidate = suffixed name (fresh_suffix name seen 2)
           in candidate # dedup_names (candidate # seen) names)"

definition DeduplicateColumnNames :: "string list \<Rightarrow> string list" where
  "DeduplicateColumnNames names = dedup_names [] names"

fun intern_names :: "externals \<Rightarrow> string list \<Rightarrow> KeyIndex \<Rightarrow> KeyId list \<times> KeyIndex" where
  "intern_names ex [] ki = ([], ki)"
| "intern_names ex (name # names) ki =
     (case GetOrInsert (std_hash ex) name ki of (kid, ki1) \<Rightarrow>
      case intern_names ex names ki1 of (kids, ki2) \<Rightarrow> (kid # kids, ki2))"

text \<open>The result is whether the header is valid, the column keys, and the key index.\<close>

definition ParseHeaderLine :: "externals \<Rightarrow> string \<Rightarrow> KeyIndex \<Rightarrow> bool \<times> KeyId list \<times> KeyIndex" where
  "ParseHeaderLine ex headerLine ki =
     (if headerLine = [] then (False, [], ki)
      else case TokenizeCsvLine headerLine of (cells, ok) \<Rightarrow>
        if \<not> ok then (False, [], ki)
        else if cells = [] then (False, [], ki)
        else (case intern_names ex (DeduplicateColumnNames (map cellText cells)) ki of (kids, ki') \<Rightarrow> (True, kids, ki')))"

definition CountCsvCells :: "string \<Rightarrow> nat option" where
  "CountCsvCells line = (case TokenizeCsvLine line of (cells, ok) \<Rightarrow> if ok then Some (length cells) else None)"

definition HeaderLineLooksLikeCsv :: "string \<Rightarrow> bool" where
  "HeaderLineLooksLikeCsv line =
     (case TokenizeCsvLine line of (cells, ok) \<Rightarrow>
        ok \<and> length cells \<ge> 2 \<and> length (filter (\<lambda>c. cellText c \<noteq> []) cells) \<ge> 2)"

section \<open>Records\<close>

text \<open>
  The fields of one record, in the order of the header, and the number of cells behind the last
  column.  \<open>lineAt\<close> is the offset of the line in the mapped file, if there is one.
\<close>

definition csv_compact :: "bool \<Rightarrow> nat option \<Rightarrow> nat \<Rightarrow> CsvCell \<Rightarrow> string \<Rightarrow> CompactLogValue \<times> string" where
  "csv_compact hasFromChars lineAt fileSize cell arena =
     (let at = map_option (\<lambda>l. l + cellAt cell) lineAt
      in if wasQuoted cell then
           (if fromScratch cell
            then (MakeOwnedString (word_of_nat (length arena)) (word_of_nat (length (cellText cell))), arena @ cellText cell)
            else MakeStringCompact (cellText cell) at fileSize arena)
         else ClassifyBareScalar hasFromChars (cellText cell) at fileSize arena)"

fun csv_fields :: "bool \<Rightarrow> nat option \<Rightarrow> nat \<Rightarrow> KeyId list \<Rightarrow> CsvCell list \<Rightarrow> string \<Rightarrow>
    (KeyId \<times> CompactLogValue) list \<times> nat \<times> string" where
  "csv_fields hasFromChars lineAt fileSize ks [] arena = ([], 0, arena)"
| "csv_fields hasFromChars lineAt fileSize [] (cell # cells) arena = ([], length (cell # cells), arena)"
| "csv_fields hasFromChars lineAt fileSize (k # ks) (cell # cells) arena =
     (if cellText cell = [] \<and> \<not> wasQuoted cell then csv_fields hasFromChars lineAt fileSize ks cells arena
      else case csv_compact hasFromChars lineAt fileSize cell arena of (c, arena1) \<Rightarrow>
           case csv_fields hasFromChars lineAt fileSize ks cells arena1 of (fs, extra, arena2) \<Rightarrow>
             ((k, c) # fs, extra, arena2))"

text \<open>Fields, whether the line is unterminated, surplus cells, arena.\<close>

definition ParseCsvLine :: "bool \<Rightarrow> string \<Rightarrow> KeyId list \<Rightarrow> nat option \<Rightarrow> nat \<Rightarrow> string \<Rightarrow>
    (KeyId \<times> CompactLogValue) list \<times> bool \<times> nat \<times> string" where
  "ParseCsvLine hasFromChars line ks lineAt fileSize arena =
     (case TokenizeCsvLine line of (cells, ok) \<Rightarrow>
      case csv_fields hasFromChars lineAt fileSize ks cells arena of (fs, extra, arena') \<Rightarrow>
        (fs, \<not> ok, extra, arena'))"

datatype LineDecodeResult = LdEmit | LdSkip | LdError string | LdContinue

record CsvLineDecoder =
  mHeaderConsumed :: bool
  mColumnKeys :: "KeyId list"

definition new_CsvLineDecoder :: CsvLineDecoder where
  "new_CsvLineDecoder = \<lparr>mHeaderConsumed = False, mColumnKeys = []\<rparr>"

definition extra_cells_error :: "nat \<Rightarrow> nat \<Rightarrow> string" where
  "extra_cells_error extra columns =
     ''Row has '' @ show_nat extra @ '' extra cell(s) beyond the '' @ show_nat columns @ ''-column header.''"

text \<open>
  The decoder of the live-tail loop: result, fields, arena, key index, decoder.  On an error the
  fields and the arena hold what was decoded before it; the loop does not use them.
\<close>

definition csv_DecodeCompact :: "bool \<Rightarrow> externals \<Rightarrow> string \<Rightarrow> KeyIndex \<Rightarrow> CsvLineDecoder \<Rightarrow>
    LineDecodeResult \<times> (KeyId \<times> CompactLogValue) list \<times> string \<times> KeyIndex \<times> CsvLineDecoder" where
  "csv_DecodeCompact hasFromChars ex line ki dec =
     (if line = [] then (LdEmit, [], [], ki, dec)
      else if \<not> mHeaderConsumed dec then
        (case ParseHeaderLine ex (StripBom line) ki of (ok, kids, ki') \<Rightarrow>
           if \<not> ok then (LdError ''Invalid CSV header.'', [], [], ki', dec\<lparr>mColumnKeys := kids\<rparr>)
           else (LdSkip, [], [], ki', \<lparr>mHeaderConsumed = True, mColumnKeys = kids\<rparr>))
      else case ParseCsvLine hasFromChars line (mColumnKeys dec) None 0 [] of (fs, unterminated, extra, arena) \<Rightarrow>
        (if unterminated then LdError ''Unterminated quoted value.''
         else if extra \<noteq> 0 then LdError (extra_cells_error extra (length (mColumnKeys dec)))
         else LdEmit, fs, arena, ki, dec))"

section \<open>Printing\<close>

definition BareCellIsSafe :: "string \<Rightarrow> bool" where
  "BareCellIsSafe value = list_all (\<lambda>c. c \<noteq> COMMA \<and> c \<noteq> QUOTE \<and> c \<noteq> RETURN \<and> c \<noteq> NEWLINE) value"

definition csv_escape :: "string \<Rightarrow> string" where
  "csv_escape value = concat (map (\<lambda>c. if c = QUOTE then [QUOTE, QUOTE] else [c]) value)"

definition AppendQuotedCell :: "string \<Rightarrow> string \<Rightarrow> string" where
  "AppendQuotedCell out value = out @ QUOTE # csv_escape value @ [QUOTE]"

definition AppendCell :: "string \<Rightarrow> string \<Rightarrow> string" where
  "AppendCell out value = (if BareCellIsSafe value then out @ value else AppendQuotedCell out value)"

definition AppendValueAsCell :: "externals \<Rightarrow> string \<Rightarrow> LogValue \<Rightarrow> string" where
  "AppendValueAsCell ex out value =
     (case value of
        VMonostate \<Rightarrow> out
      | VTime w \<Rightarrow> AppendCell out (TimeStampToDateTimeString ex w)
      | VView _ s \<Rightarrow> AppendCell out s
      | VString s \<Rightarrow> AppendCell out s
      | VBool b \<Rightarrow> out @ (if b then ''true'' else ''false'')
      | VInt64 w \<Rightarrow> out @ show_int64 w
      | VUint64 w \<Rightarrow> out @ show_uint64 w
      | VDouble d \<Rightarrow> if isfinite d then out @ vformat ex ''{}'' (VDouble d) else AppendCell out (vformat ex ''{}'' (VDouble d)))"

fun csv_values :: "externals \<Rightarrow> bool \<Rightarrow> string \<Rightarrow> LogValue list \<Rightarrow> string" where
  "csv_values ex isFirst out [] = out"
| "csv_values ex isFirst out (v # vs) =
     csv_values ex False (AppendValueAsCell ex (if isFirst then out else out @ [COMMA]) v) vs"

text \<open>\<open>ToString\<close> of a line (its values in the order of the key ids) and of a map, here the list of its entries.\<close>

definition csv_ToString :: "externals \<Rightarrow> LineSource option \<Rightarrow> LogLine \<Rightarrow> string" where
  "csv_ToString ex source line = csv_values ex True [] (map snd (IndexedValues source line))"

definition csv_ToString_map :: "externals \<Rightarrow> (string \<times> LogValue) list \<Rightarrow> string" where
  "csv_ToString_map ex values = csv_values ex True [] (map snd (sort_key fst values))"

section \<open>Detection\<close>

definition csv_IsValidBytes :: "string \<Rightarrow> bool" where
  "csv_IsValidBytes sniffBuffer =
     (case first_line sniffBuffer 0 of
        None \<Rightarrow> False
      | Some (line, cursor) \<Rightarrow>
          let header = StripBom line in
          if \<not> HeaderLineLooksLikeCsv header then False
          else case CountCsvCells header of
            None \<Rightarrow> False
          | Some headerCellCount \<Rightarrow>
              (case first_line sniffBuffer cursor of
                 None \<Rightarrow> False
               | Some (row, _) \<Rightarrow> (case CountCsvCells row of None \<Rightarrow> False | Some n \<Rightarrow> n = headerCellCount)))"

end
