(* ===== verification/Csv_Roundtrip.thy ===== *)
theory Csv_Roundtrip
  imports Csv_Parser
begin

text \<open>
  The tokenizer reads back what the printer writes, whatever the values are, and the names of a
  header are made distinct without touching the first use of a name.
\<close>

section \<open>Cells\<close>

definition cell_of :: "string \<Rightarrow> string" where
  "cell_of value = AppendCell [] value"

lemma AppendCell_cell: "AppendCell out value = out @ cell_of value"
  by (simp add: AppendCell_def cell_of_def AppendQuotedCell_def)

lemma csv_escape_simps [simp]: "csv_escape [] = []" "csv_escape (c # s) = (if c = QUOTE then [QUOTE, QUOTE] else [c]) @ csv_escape s"
  by (simp_all add: csv_escape_def)

text \<open>Behind the opening quote of a printed cell: the escaped bytes, up to the closing quote.\<close>

lemma csv_inner_plain: "c \<noteq> QUOTE \<Longrightarrow> s \<noteq> [] \<Longrightarrow> csv_inner e raw (c # s) = csv_inner e (raw @ [c]) s"
  by (cases s) simp_all

lemma csv_inner_escape:
  assumes "rest = [] \<or> hd rest \<noteq> QUOTE"
  shows "csv_inner e raw (csv_escape v @ QUOTE # rest) = Some (e \<or> QUOTE \<in> set v, raw @ csv_escape v, rest)"
  using assms
proof (induction v arbitrary: e raw)
  case Nil
  then show ?case by (cases rest) auto
next
  case (Cons c v)
  then show ?case by (cases "c = QUOTE") (simp_all add: csv_inner_plain)
qed

lemma csv_escape_same: "QUOTE \<notin> set v \<Longrightarrow> csv_escape v = v"
  by (induction v) auto

lemma csv_unescape_plain: "c \<noteq> QUOTE \<Longrightarrow> csv_unescape (c # s) = c # csv_unescape s"
  by (cases s) simp_all

lemma csv_unescape_escape: "csv_unescape (csv_escape v) = v"
proof (induction v)
  case (Cons c v)
  then show ?case by (cases "c = QUOTE") (simp_all add: csv_unescape_plain)
qed simp

lemma safe_cell: "BareCellIsSafe v \<Longrightarrow> COMMA \<notin> set v \<and> QUOTE \<notin> set v"
  by (auto simp: BareCellIsSafe_def list_all_iff)

fun csv_line :: "string list \<Rightarrow> string" where
  "csv_line [] = []"
| "csv_line [v] = cell_of v"
| "csv_line (v # vs) = cell_of v @ COMMA # csv_line vs"

lemma to_comma_append: "COMMA \<notin> set v \<Longrightarrow> to_comma (v @ COMMA # r) = v \<and> from_comma (v @ COMMA # r) = COMMA # r"
  by (induction v) auto

lemma no_comma: "COMMA \<notin> set v \<Longrightarrow> to_comma v = v \<and> from_comma v = []"
  by (induction v) auto

text \<open>The two kinds of cells, one equation each.\<close>

lemma csv_cells_bare:
  assumes "s = [] \<or> hd s \<noteq> QUOTE" "cell = \<lparr>cellText = to_comma s, wasQuoted = False, fromScratch = False, cellAt = i\<rparr>"
  shows "from_comma s = [] \<Longrightarrow> csv_cells i s = ([cell], True)"
    "from_comma s = [c] \<Longrightarrow> csv_cells i s = ([cell, empty_cell], True)"
    "from_comma s = c # r \<Longrightarrow> r \<noteq> [] \<Longrightarrow> csv_cells (i + length (to_comma s) + 1) r = (cells, ok) \<Longrightarrow>
      csv_cells i s = (cell # cells, ok)"
  using assms by (subst csv_cells.simps, simp add: Let_def del: dropWhile_eq_Nil_conv, blast?)+

lemma csv_cells_quoted:
  assumes "csv_inner False [] s = Some (esc, raw, rest)"
    and "cell = \<lparr>cellText = (if esc then csv_unescape raw else raw), wasQuoted = True, fromScratch = esc, cellAt = i + 1\<rparr>"
  shows "from_comma rest = [] \<Longrightarrow> csv_cells i (QUOTE # s) = ([cell], True)"
    "from_comma rest = [c] \<Longrightarrow> csv_cells i (QUOTE # s) = ([cell, empty_cell], True)"
    "from_comma rest = c # r \<Longrightarrow> r \<noteq> [] \<Longrightarrow> csv_cells (i + length raw + 2 + length (to_comma rest) + 1) r = (cells, ok) \<Longrightarrow>
      csv_cells i (QUOTE # s) = (cell # cells, ok)"
  using assms by (subst csv_cells.simps, simp add: Let_def del: dropWhile_eq_Nil_conv)+

lemma cell_of_safe: "BareCellIsSafe v \<Longrightarrow> cell_of v = v"
  by (simp add: cell_of_def AppendCell_def)

lemma cell_of_quoted: "\<not> BareCellIsSafe v \<Longrightarrow> cell_of v = QUOTE # csv_escape v @ [QUOTE]"
  by (simp add: cell_of_def AppendCell_def AppendQuotedCell_def)

definition reads_as :: "string \<Rightarrow> CsvCell \<Rightarrow> bool" where
  "reads_as v cell \<longleftrightarrow> cellText cell = v \<and> (wasQuoted cell \<longleftrightarrow> \<not> BareCellIsSafe v)"

text \<open>One printed cell, in front of the end of the line, of a last comma and of more cells.\<close>

lemma csv_cells_printed:
  obtains cell j where "reads_as v cell" "csv_cells i (cell_of v) = ([cell], True)"
    "csv_cells i (cell_of v @ [COMMA]) = ([cell, empty_cell], True)"
    "\<And>r cells ok. r \<noteq> [] \<Longrightarrow> csv_cells j r = (cells, ok) \<Longrightarrow> csv_cells i (cell_of v @ COMMA # r) = (cell # cells, ok)"
proof (cases "BareCellIsSafe v")
  case True
  note safe = safe_cell [OF True]
  have start: "v @ s = [] \<or> hd (v @ s) \<noteq> QUOTE" if "s = [] \<or> hd s = COMMA" for s
    using safe that by (cases v) auto
  note commas = to_comma_append [OF conjunct1 [OF safe]] no_comma [OF conjunct1 [OF safe]]
  let ?cell = "\<lparr>cellText = v, wasQuoted = False, fromScratch = False, cellAt = i\<rparr>"
  show thesis
  proof (rule that [of ?cell "i + length v + 1"])
    show "reads_as v ?cell" using True by (simp add: reads_as_def)
    show "csv_cells i (cell_of v) = ([?cell], True)"
      unfolding cell_of_safe [OF True] using start [of "[]"] commas by (intro csv_cells_bare(1)) (simp_all del: dropWhile_eq_Nil_conv takeWhile_eq_all_conv)
    show "csv_cells i (cell_of v @ [COMMA]) = ([?cell, empty_cell], True)"
      unfolding cell_of_safe [OF True] using start [of "[COMMA]"] commas(1) [of "[]"] by (intro csv_cells_bare(2)) (simp_all del: dropWhile_eq_Nil_conv takeWhile_eq_all_conv)
    show "csv_cells i (cell_of v @ COMMA # r) = (?cell # cells, ok)"
      if "r \<noteq> []" "csv_cells (i + length v + 1) r = (cells, ok)" for r cells ok
      unfolding cell_of_safe [OF True] using start [of "COMMA # r"] commas(1) [of r] that by (intro csv_cells_bare(3)) (simp_all del: dropWhile_eq_Nil_conv takeWhile_eq_all_conv)
  qed
next
  case False
  let ?esc = "QUOTE \<in> set v"
  let ?cell = "\<lparr>cellText = v, wasQuoted = True, fromScratch = ?esc, cellAt = i + 1\<rparr>"
  have body: "v = (if ?esc then csv_unescape (csv_escape v) else csv_escape v)"
    by (simp add: csv_unescape_escape csv_escape_same)
  have inner: "csv_inner False [] (csv_escape v @ QUOTE # r) = Some (?esc, csv_escape v, r)" if "r = [] \<or> hd r \<noteq> QUOTE" for r
    using csv_inner_escape [OF that, of False "[]" v] by simp
  have print: "cell_of v @ r = QUOTE # csv_escape v @ QUOTE # r" for r by (simp add: cell_of_quoted [OF False])
  have cell: "?cell = \<lparr>cellText = (if ?esc then csv_unescape (csv_escape v) else csv_escape v), wasQuoted = True,
      fromScratch = ?esc, cellAt = i + 1\<rparr>" using body by simp
  show thesis
  proof (rule that [of ?cell "i + length (csv_escape v) + 2 + 0 + 1"])
    show "reads_as v ?cell" using False by (simp add: reads_as_def)
    show "csv_cells i (cell_of v) = ([?cell], True)"
      using csv_cells_quoted(1) [OF inner cell, of "[]"] print [of "[]"] by simp
    show "csv_cells i (cell_of v @ [COMMA]) = ([?cell, empty_cell], True)"
      using csv_cells_quoted(2) [OF inner cell, of "[COMMA]"] print [of "[COMMA]"] by simp
    show "csv_cells i (cell_of v @ COMMA # r) = (?cell # cells, ok)"
      if "r \<noteq> []" "csv_cells (i + length (csv_escape v) + 2 + 0 + 1) r = (cells, ok)" for r cells ok
      using csv_cells_quoted(3) [OF inner cell, of "COMMA # r" COMMA r cells ok] print [of "COMMA # r"] that by simp
  qed
qed

lemma csv_line_Nil: "vs \<noteq> [] \<Longrightarrow> csv_line vs = [] \<Longrightarrow> vs = [[]]"
  by (cases vs rule: csv_line.cases) (auto simp: cell_of_def AppendCell_def AppendQuotedCell_def split: if_splits)

lemma csv_line_read: "vs \<noteq> [] \<Longrightarrow> \<exists>cells. csv_cells i (csv_line vs) = (cells, True) \<and> list_all2 reads_as vs cells"
proof (induction vs arbitrary: i rule: csv_line.induct)
  case (2 v)
  show ?case by (rule csv_cells_printed [of v i]) auto
next
  case (3 v w vs)
  show ?case
  proof (rule csv_cells_printed [of v i])
    fix cell j
    assume cell: "reads_as v cell" "csv_cells i (cell_of v @ [COMMA]) = ([cell, empty_cell], True)"
      "\<And>r cells ok. r \<noteq> [] \<Longrightarrow> csv_cells j r = (cells, ok) \<Longrightarrow> csv_cells i (cell_of v @ COMMA # r) = (cell # cells, ok)"
    show ?case
    proof (cases "csv_line (w # vs) = []")
      case True
      then have w: "w # vs = [[]]" by (intro csv_line_Nil) simp_all
      have "reads_as [] empty_cell" by (simp add: reads_as_def empty_cell_def BareCellIsSafe_def)
      then show ?thesis using cell(1,2) w True by simp
    next
      case False
      obtain cells where "csv_cells j (csv_line (w # vs)) = (cells, True)" "list_all2 reads_as (w # vs) cells"
        using "3.IH" [of j] by auto
      then show ?thesis using cell(1) cell(3) [OF False] by auto
    qed
  qed
qed simp

lemma csv_values_more:
  "csv_values ex False out (map VString vs) = out @ concat (map (\<lambda>v. COMMA # cell_of v) vs)"
  by (induction vs arbitrary: out) (simp_all add: AppendValueAsCell_def AppendCell_cell)

lemma csv_line_concat: "csv_line (v # vs) = cell_of v @ concat (map (\<lambda>v. COMMA # cell_of v) vs)"
  by (induction vs arbitrary: v) simp_all

lemma csv_values_line: "csv_values ex True [] (map VString vs) = csv_line vs"
  by (cases vs) (simp_all add: AppendValueAsCell_def AppendCell_cell csv_values_more csv_line_concat del: csv_line.simps(2,3))

section \<open>The header\<close>

lemma fresh_suffix_new: "suffixed base (fresh_suffix base seen n) \<notin> set seen"
  by (induction base seen n rule: fresh_suffix.induct) (subst fresh_suffix.simps, simp)

lemma dedup_names_distinct:
  "distinct (dedup_names seen names) \<and> set (dedup_names seen names) \<inter> set seen = {} \<and>
    length (dedup_names seen names) = length names"
  by (induction seen names rule: dedup_names.induct) (auto simp: Let_def fresh_suffix_new)

text \<open>A name stays as it is when no column before it has it.\<close>

lemma dedup_names_kept:
  "i < length names \<Longrightarrow> names ! i \<notin> set seen \<union> set (take i (dedup_names seen names)) \<Longrightarrow>
    dedup_names seen names ! i = names ! i"
proof (induction seen names arbitrary: i rule: dedup_names.induct)
  case (2 seen name names)
  then show ?case by (cases i) (auto simp: Let_def split: if_splits)
qed simp

lemma DeduplicateColumnNames_same: "distinct names \<Longrightarrow> DeduplicateColumnNames names = names"
proof -
  have "distinct names \<Longrightarrow> set names \<inter> set seen = {} \<Longrightarrow> dedup_names seen names = names" for seen
    by (induction names arbitrary: seen) auto
  then show "distinct names \<Longrightarrow> DeduplicateColumnNames names = names"
    by (simp add: DeduplicateColumnNames_def)
qed

lemma GetOrInsert_KeyOf:
  assumes "key_inv hash ki" "length (reverse_keys ki) < 2 ^ 32 - 1" "GetOrInsert hash key ki = (kid, ki')"
  shows "key_inv hash ki'" "KeyOf kid ki' = Some key" "KeyOf k ki = Some s \<Longrightarrow> KeyOf k ki' = Some s"
    "length (reverse_keys ki') \<le> Suc (length (reverse_keys ki))"
proof -
  show inv: "key_inv hash ki'" using key_inv_GetOrInsert [OF assms(1), of key] assms(2,3) by (simp add: key_room_def)
  show "KeyOf kid ki' = Some key"
    using probe_GetOrInsert(1) [OF assms(1), of key] assms(3) key_inv_probe [OF inv] by simp
  show "length (reverse_keys ki') \<le> Suc (length (reverse_keys ki))"
    using assms(3) by (auto simp: GetOrInsert_def locked_insert_def Let_def split: option.splits)
  show "KeyOf k ki' = Some s" if "KeyOf k ki = Some s"
    using that assms(3) by (auto simp: GetOrInsert_def locked_insert_def KeyOf_def Let_def nth_append split: option.splits if_splits)
qed

lemma intern_names_KeyOf:
  assumes "key_inv (std_hash ex) ki" "length (reverse_keys ki) + length names < 2 ^ 32" "intern_names ex names ki = (kids, ki')"
  shows "key_inv (std_hash ex) ki' \<and> map (\<lambda>k. KeyOf k ki') kids = map Some names \<and>
    (\<forall>k s. KeyOf k ki = Some s \<longrightarrow> KeyOf k ki' = Some s)"
  using assms
proof (induction names arbitrary: ki kids ki')
  case (Cons name names)
  obtain kid ki1 where one: "GetOrInsert (std_hash ex) name ki = (kid, ki1)" by (cases "GetOrInsert (std_hash ex) name ki")
  have room: "length (reverse_keys ki) < 2 ^ 32 - 1" using Cons.prems(2) by simp
  note step = GetOrInsert_KeyOf [OF Cons.prems(1) room one]
  obtain ks ki2 where more: "intern_names ex names ki1 = (ks, ki2)" by (cases "intern_names ex names ki1")
  have "length (reverse_keys ki1) + length names < 2 ^ 32" using step(4) Cons.prems(2) by simp
  note rest = Cons.IH [OF step(1) this more]
  have "kids = kid # ks" "ki' = ki2" using Cons.prems(3) one more by simp_all
  then show ?case using rest step(2,3) by auto
qed auto

text \<open>How a line of cells starts: it ends here, or a cell is in front of the cells of a shorter rest.\<close>

lemma csv_cells_shape:
  obtains c where "csv_cells i s = ([c], True)"
  | "csv_cells i s = ([], False)"
  | c where "s \<noteq> []" "csv_cells i s = ([c, empty_cell], True)"
  | c j r where "length r < length s" "csv_cells i s = (case csv_cells j r of (cells, ok) \<Rightarrow> (c # cells, ok))"
proof (cases "s \<noteq> [] \<and> hd s = QUOTE")
  case quoted: True
  then obtain t where s: "s = QUOTE # t" by (cases s) auto
  show thesis
  proof (cases "csv_inner False [] t")
    case None
    then have "csv_cells i s = ([], False)" using s by (subst csv_cells.simps) simp
    then show thesis by (rule that(2))
  next
    case (Some x)
    obtain esc raw rest where x: "csv_inner False [] t = Some (esc, raw, rest)" using Some by (cases x) auto
    note cell = csv_cells_quoted [OF x refl]
    show thesis
    proof (cases "from_comma rest")
      case Nil
      then show thesis using that(1) cell(1) s by simp
    next
      case (Cons c r)
      have "length r < length s" using csv_inner_rest [OF x] from_comma_less [of rest] Cons s by simp
      then show thesis
        using that(3,4) cell(2) cell(3) [OF Cons _ surjective_pairing] Cons s by (cases "r = []") (auto simp: split_def)
    qed
  qed
next
  case bare: False
  then have start: "s = [] \<or> hd s \<noteq> QUOTE" by simp
  note cell = csv_cells_bare [OF start refl]
  show thesis
  proof (cases "from_comma s")
    case Nil
    then show thesis using that(1) cell(1) by simp
  next
    case (Cons c r)
    have "length r < length s" using from_comma_less [of s] Cons by simp
    then show thesis
      using that(3,4) cell(2) cell(3) [OF Cons _ surjective_pairing] Cons by (cases "r = []") (auto simp: split_def)
  qed
qed

lemma csv_cells_count: "length (fst (csv_cells i s)) \<le> Suc (length s)"
proof (induction "length s" arbitrary: i s rule: less_induct)
  case less
  show ?case
  proof (cases rule: csv_cells_shape [of i s])
    case (3 c)
    then show ?thesis by (cases s) auto
  next
    case (4 c j r)
    then show ?thesis using less.hyps [of r j] by (auto split: prod.splits)
  qed simp_all
qed

lemma ParseHeaderLine_keys:
  assumes "key_inv (std_hash ex) ki" "length (reverse_keys ki) + length headerLine < 2 ^ 32 - 1"
    "ParseHeaderLine ex headerLine ki = (True, kids, ki')"
  shows "key_inv (std_hash ex) ki' \<and> distinct kids \<and>
    map (\<lambda>k. KeyOf k ki') kids = map Some (DeduplicateColumnNames (map cellText (fst (TokenizeCsvLine headerLine))))"
proof -
  let ?names = "DeduplicateColumnNames (map cellText (fst (TokenizeCsvLine headerLine)))"
  have intern: "intern_names ex ?names ki = (kids, ki')"
    using assms(3) by (auto simp: ParseHeaderLine_def split: prod.splits if_splits)
  have "length ?names \<le> Suc (length headerLine)"
    using dedup_names_distinct csv_cells_count [of 0 headerLine] by (simp add: DeduplicateColumnNames_def TokenizeCsvLine_def)
  then have room: "length (reverse_keys ki) + length ?names < 2 ^ 32" using assms(2) by simp
  have keys: "map (\<lambda>k. KeyOf k ki') kids = map Some ?names" "key_inv (std_hash ex) ki'"
    using intern_names_KeyOf [OF assms(1) room intern] by auto
  have "distinct (map Some ?names)" using dedup_names_distinct by (simp add: DeduplicateColumnNames_def distinct_map)
  then have "distinct kids" using keys(1) by (metis distinct_map)
  then show ?thesis using keys by simp
qed

end
