(* ===== verification/Logfmt_Parser.thy ===== *)
theory Logfmt_Parser
  imports Csv_Parser
begin

text \<open>
  The record level of \<open>library/src/parsers/logfmt_parser.cpp\<close>: the scanner of \<open>key=value\<close> pairs,
  the typed fields of a record, the decoder of the live-tail loop, printing and detection; and the
  key cache of \<open>library/include/loglib/internal/parse_runtime.hpp\<close>.
\<close>

section \<open>The sorted insert\<close>

definition INSERT_SORTED_LOWER_BOUND_THRESHOLD :: nat where
  "INSERT_SORTED_LOWER_BOUND_THRESHOLD = 8"

text \<open>The scan from the back; \<open>n\<close> is the distance of the iterator from the start.\<close>

fun back_scan :: "KeyId \<Rightarrow> CompactLogValue \<Rightarrow> field list \<Rightarrow> nat \<Rightarrow> field list" where
  "back_scan kid value out 0 = (kid, value) # out"
| "back_scan kid value out (Suc n) =
     (let prev = out ! n
      in if fst prev < kid then take (Suc n) out @ (kid, value) # drop (Suc n) out
         else if fst prev = kid then out[n := (kid, value)]
         else back_scan kid value out n)"

definition InsertSorted :: "KeyId \<Rightarrow> CompactLogValue \<Rightarrow> field list \<Rightarrow> field list" where
  "InsertSorted kid value out =
     (if length out < INSERT_SORTED_LOWER_BOUND_THRESHOLD then back_scan kid value out (length out)
      else let it = lower_bound kid out 0 (length out)
           in if it < length out \<and> fst (out ! it) = kid then out[it := (kid, value)]
              else take it out @ (kid, value) # drop it out)"

section \<open>The scanner\<close>

record LogfmtField =
  lfKey :: string
  lfValue :: string
  valueWasQuoted :: bool
  unescapedFromQuoted :: bool
  valueIsNull :: bool
  valueAt :: nat

abbreviation blank :: byte_class where
  "blank c \<equiv> byte c \<le> 32"

definition key_byte :: byte_class where
  "key_byte c \<longleftrightarrow> \<not> blank c \<and> c \<noteq> CHR ''='' \<and> c \<noteq> QUOTE"

definition value_byte :: byte_class where
  "value_byte c \<longleftrightarrow> \<not> blank c \<and> c \<noteq> QUOTE"

definition logfmt_space :: byte_class where
  "logfmt_space c \<longleftrightarrow> c = CHR '' '' \<or> c = TAB \<or> c = CHR 0x0B \<or> c = CHR 0x0C \<or> c = RETURN"

text \<open>Behind an opening quote: whether an escape was seen, the raw inner bytes, what follows.\<close>

fun logfmt_inner :: "bool \<Rightarrow> string \<Rightarrow> string \<Rightarrow> (bool \<times> string \<times> string) option" where
  "logfmt_inner sawEscape raw [] = None"
| "logfmt_inner sawEscape raw [c] = (if c = QUOTE then Some (sawEscape, raw, []) else None)"
| "logfmt_inner sawEscape raw (c # d # cs) =
     (if c = BACKSLASH then logfmt_inner True (raw @ [c, d]) cs
      else if c = QUOTE then Some (sawEscape, raw, d # cs)
      else logfmt_inner sawEscape (raw @ [c]) (d # cs))"

definition unescape_byte :: "char \<Rightarrow> string" where
  "unescape_byte c =
     (if c = CHR ''n'' then [NEWLINE] else if c = CHR ''r'' then [RETURN] else if c = CHR ''t'' then [TAB]
      else if c = QUOTE then [QUOTE] else if c = BACKSLASH then [BACKSLASH] else [BACKSLASH, c])"

fun logfmt_unescape :: "string \<Rightarrow> string" where
  "logfmt_unescape [] = []"
| "logfmt_unescape [c] = [c]"
| "logfmt_unescape (c # d # cs) =
     (if c = BACKSLASH then unescape_byte d @ logfmt_unescape cs else c # logfmt_unescape (d # cs))"

definition null_field :: "string \<Rightarrow> LogfmtField" where
  "null_field key =
     \<lparr>lfKey = key, lfValue = [], valueWasQuoted = False, unescapedFromQuoted = False, valueIsNull = True, valueAt = 0\<rparr>"

lemma logfmt_inner_rest: "logfmt_inner e raw s = Some (e', raw', rest) \<Longrightarrow> length rest < length s"
  by (induction e raw s rule: logfmt_inner.induct) (force split: if_splits)+

lemma dropWhile_split: "length (takeWhile P s) + length (dropWhile P s) = length s"
  by (induction s) auto

lemma key_rest:
  assumes "takeWhile key_byte (dropWhile blank s) \<noteq> []"
  shows "length (dropWhile key_byte (dropWhile blank s)) < length s"
proof -
  have "0 < length (takeWhile key_byte (dropWhile blank s))" using assms by simp
  then show ?thesis
    using dropWhile_split [of key_byte "dropWhile blank s"] dropWhile_split [of blank s] by linarith
qed

text \<open>The fields of the line from position \<open>i\<close>, where \<open>s\<close> is the rest, and whether it is well formed.\<close>

abbreviation emit_first :: "LogfmtField \<Rightarrow> LogfmtField list \<times> bool \<Rightarrow> LogfmtField list \<times> bool" where
  "emit_first f r \<equiv> (case r of (fs, ok) \<Rightarrow> (f # fs, ok))"

function logfmt_fields :: "nat \<Rightarrow> string \<Rightarrow> LogfmtField list \<times> bool" where
  "logfmt_fields i s =
     (let s1 = dropWhile blank s; i1 = i + length (takeWhile blank s) in
      if s1 = [] then ([], True)
      else let key = takeWhile key_byte s1; r = dropWhile key_byte s1; j = i1 + length key in
      if key = [] then logfmt_fields (i1 + 1) (tl s1)
      else if r = [] \<or> hd r \<noteq> CHR ''='' then emit_first (null_field key) (logfmt_fields j r)
      else let v = tl r in
      if v = [] \<or> logfmt_space (hd v) \<or> hd v = NEWLINE then emit_first (null_field key) (logfmt_fields (j + 1) v)
      else if hd v = QUOTE then
        (case logfmt_inner False [] (tl v) of
           None \<Rightarrow> ([], False)
         | Some (sawEscape, raw, rest) \<Rightarrow>
             emit_first
               \<lparr>lfKey = key, lfValue = (if sawEscape then logfmt_unescape raw else raw), valueWasQuoted = True,
                unescapedFromQuoted = sawEscape, valueIsNull = False, valueAt = j + 2\<rparr>
               (logfmt_fields (j + 2 + length raw + 1) rest))
      else
        emit_first
          \<lparr>lfKey = key, lfValue = takeWhile value_byte v, valueWasQuoted = False, unescapedFromQuoted = False,
           valueIsNull = False, valueAt = j + 1\<rparr>
          (logfmt_fields (j + 1 + length (takeWhile value_byte v)) (dropWhile value_byte v)))"
  by pat_completeness auto

termination
proof (relation "measure (\<lambda>(i, s). length s)")
  fix i :: nat and s s1 :: string and i1 key
  assume s1: "s1 = dropWhile blank s" "s1 \<noteq> []"
  then have "length (tl s1) < length s1" "length s1 \<le> length s" by (simp, simp only: length_dropWhile_le)
  then show "((i1 + 1, tl s1), i, s) \<in> measure (\<lambda>(i, s). length s)" by simp
next
  fix i s s1 i1 key r j v x y sawEscape raw rest
  assume a: "s1 = dropWhile blank s" "key = takeWhile key_byte s1" "r = dropWhile key_byte s1" "key \<noteq> []"
    "v = tl r" "logfmt_inner False [] (tl v) = Some x" "(sawEscape, y) = x" "(raw, rest) = y"
  then have "length rest < length (tl v)" using logfmt_inner_rest [of False "[]" "tl v" sawEscape raw rest] by simp
  then show "((j + 2 + length raw + 1, rest), i, s) \<in> measure (\<lambda>(i, s). length s)"
    using key_rest [of s] a by auto
next
  fix i s s1 i1 key r j v
  assume a: "s1 = dropWhile blank s" "key = takeWhile key_byte s1" "r = dropWhile key_byte s1" "key \<noteq> []" "v = tl r"
  show "((j + 1 + length (takeWhile value_byte v), dropWhile value_byte v), i, s) \<in> measure (\<lambda>(i, s). length s)"
    using key_rest [of s] a length_dropWhile_le [of value_byte v] by auto
qed (auto dest!: key_rest)

declare logfmt_fields.simps [simp del]

definition TokenizeLogfmtLine :: "string \<Rightarrow> LogfmtField list \<times> bool" where
  "TokenizeLogfmtLine line = logfmt_fields 0 line"

section \<open>Records\<close>

type_synonym PerWorkerKeyCache = "string \<rightharpoonup> KeyId"

definition InternKeyVia :: "externals \<Rightarrow> string \<Rightarrow> KeyIndex \<Rightarrow> PerWorkerKeyCache option \<Rightarrow>
    KeyId \<times> KeyIndex \<times> PerWorkerKeyCache option" where
  "InternKeyVia ex key ki cache =
     (case cache of
        None \<Rightarrow> (case GetOrInsert (std_hash ex) key ki of (kid, ki') \<Rightarrow> (kid, ki', None))
      | Some m \<Rightarrow>
          (case m key of
             Some kid \<Rightarrow> (kid, ki, cache)
           | None \<Rightarrow> (case GetOrInsert (std_hash ex) key ki of (kid, ki') \<Rightarrow> (kid, ki', Some (m(key \<mapsto> kid))))))"

text \<open>What the parser of a record writes to: the out-parameters of \<open>ParseLogfmtLine\<close>.\<close>

record LogfmtOut =
  loKeys :: KeyIndex
  loCache :: "PerWorkerKeyCache option"
  loArena :: string
  loOut :: "field list"
  loLastSourceOrderKey :: KeyId

definition logfmt_compact :: "bool \<Rightarrow> nat option \<Rightarrow> nat \<Rightarrow> LogfmtField \<Rightarrow> string \<Rightarrow> CompactLogValue \<times> string" where
  "logfmt_compact hasFromChars lineAt fileSize f arena =
     (let at = map_option (\<lambda>l. l + valueAt f) lineAt
      in if valueIsNull f then (MakeMonostate, arena)
         else if valueWasQuoted f then
           (if unescapedFromQuoted f
            then (MakeOwnedString (word_of_nat (length arena)) (word_of_nat (length (lfValue f))), arena @ lfValue f)
            else MakeStringCompact (lfValue f) at fileSize arena)
         else ClassifyBareScalar hasFromChars (lfValue f) at fileSize arena)"

definition logfmt_emit :: "bool \<Rightarrow> externals \<Rightarrow> nat option \<Rightarrow> nat \<Rightarrow> LogfmtField \<Rightarrow> LogfmtOut \<Rightarrow> LogfmtOut" where
  "logfmt_emit hasFromChars ex lineAt fileSize f st =
     (case InternKeyVia ex (lfKey f) (loKeys st) (loCache st) of (kid, ki, cache) \<Rightarrow>
      case logfmt_compact hasFromChars lineAt fileSize f (loArena st) of (c, arena) \<Rightarrow>
        \<lparr>loKeys = ki, loCache = cache, loArena = arena, loOut = InsertSorted kid c (loOut st), loLastSourceOrderKey = kid\<rparr>)"

text \<open>The result is whether the line is unterminated; the fields before that point are kept.\<close>

definition ParseLogfmtLine :: "bool \<Rightarrow> externals \<Rightarrow> string \<Rightarrow> nat option \<Rightarrow> nat \<Rightarrow> LogfmtOut \<Rightarrow> bool \<times> LogfmtOut" where
  "ParseLogfmtLine hasFromChars ex line lineAt fileSize st =
     (case TokenizeLogfmtLine line of (fs, ok) \<Rightarrow>
        (\<not> ok, fold (logfmt_emit hasFromChars ex lineAt fileSize) fs (st\<lparr>loOut := [], loLastSourceOrderKey := INVALID_KEY_ID\<rparr>)))"

record LogfmtLineDecoder =
  mMultiline :: bool
  mLastContinuationTarget :: KeyId

definition new_LogfmtLineDecoder :: "bool \<Rightarrow> LogfmtLineDecoder" where
  "new_LogfmtLineDecoder multiline = \<lparr>mMultiline = multiline, mLastContinuationTarget = INVALID_KEY_ID\<rparr>"

text \<open>Result, fields, arena, key index and key cache, decoder.\<close>

definition logfmt_DecodeCompact :: "bool \<Rightarrow> externals \<Rightarrow> string \<Rightarrow> KeyIndex \<Rightarrow> PerWorkerKeyCache option \<Rightarrow> LogfmtLineDecoder \<Rightarrow>
    LineDecodeResult \<times> field list \<times> string \<times> (KeyIndex \<times> PerWorkerKeyCache option) \<times> LogfmtLineDecoder" where
  "logfmt_DecodeCompact hasFromChars ex line ki cache dec =
     (if line = [] then (LdEmit, [], [], (ki, cache), dec\<lparr>mLastContinuationTarget := INVALID_KEY_ID\<rparr>)
      else if mMultiline dec \<and> (hd line = CHR '' '' \<or> hd line = TAB) then (LdContinue, [], [], (ki, cache), dec)
      else case ParseLogfmtLine hasFromChars ex line None 0
             \<lparr>loKeys = ki, loCache = cache, loArena = [], loOut = [], loLastSourceOrderKey = INVALID_KEY_ID\<rparr> of (unterminated, st) \<Rightarrow>
        (if unterminated then
           (LdError ''Unterminated quoted value.'', loOut st, loArena st, (loKeys st, loCache st), dec\<lparr>mLastContinuationTarget := INVALID_KEY_ID\<rparr>)
         else if loOut st = [] then
           (LdError ''Not a logfmt record.'', [], loArena st, (loKeys st, loCache st), dec\<lparr>mLastContinuationTarget := INVALID_KEY_ID\<rparr>)
         else (LdEmit, loOut st, loArena st, (loKeys st, loCache st), dec\<lparr>mLastContinuationTarget := loLastSourceOrderKey st\<rparr>)))"

section \<open>Detection and printing\<close>

definition LineLooksLikeLogfmt :: "string \<Rightarrow> bool" where
  "LineLooksLikeLogfmt line =
     (if line \<noteq> [] \<and> (hd line = CHR 0x7B \<or> hd line = CHR 0x5B) then False
      else let s = dropWhile blank line; r = dropWhile key_byte s
           in takeWhile key_byte s \<noteq> [] \<and> r \<noteq> [] \<and> hd r = CHR ''='')"

definition logfmt_IsValidBytes :: "string \<Rightarrow> bool" where
  "logfmt_IsValidBytes sniffBuffer =
     (case first_line sniffBuffer 0 of None \<Rightarrow> False | Some (line, _) \<Rightarrow> LineLooksLikeLogfmt line)"

definition BareValueIsSafe :: "string \<Rightarrow> bool" where
  "BareValueIsSafe value \<longleftrightarrow> value \<noteq> [] \<and> list_all (\<lambda>c. \<not> blank c \<and> c \<noteq> QUOTE \<and> c \<noteq> CHR ''='' \<and> c \<noteq> BACKSLASH) value"

definition escape_byte :: "char \<Rightarrow> string" where
  "escape_byte c =
     (if c = QUOTE then [BACKSLASH, QUOTE] else if c = BACKSLASH then [BACKSLASH, BACKSLASH]
      else if c = NEWLINE then [BACKSLASH, CHR ''n''] else if c = RETURN then [BACKSLASH, CHR ''r'']
      else if c = TAB then [BACKSLASH, CHR ''t''] else [c])"

definition AppendQuotedString :: "string \<Rightarrow> string \<Rightarrow> string" where
  "AppendQuotedString out value = out @ QUOTE # concat (map escape_byte value) @ [QUOTE]"

definition append_text :: "string \<Rightarrow> string \<Rightarrow> string" where
  "append_text out s = (if BareValueIsSafe s then out @ s else AppendQuotedString out s)"

definition AppendValueAsString :: "externals \<Rightarrow> string \<Rightarrow> LogValue \<Rightarrow> string" where
  "AppendValueAsString ex out value =
     (case value of
        VMonostate \<Rightarrow> out
      | VTime w \<Rightarrow> AppendQuotedString out (TimeStampToDateTimeString ex w)
      | VView _ s \<Rightarrow> append_text out s
      | VString s \<Rightarrow> append_text out s
      | VBool b \<Rightarrow> out @ (if b then ''true'' else ''false'')
      | VInt64 w \<Rightarrow> out @ show_int64 w
      | VUint64 w \<Rightarrow> out @ show_uint64 w
      | VDouble d \<Rightarrow> if isfinite d then out @ vformat ex ''{}'' (VDouble d) else AppendQuotedString out (vformat ex ''{}'' (VDouble d)))"

fun logfmt_pairs :: "externals \<Rightarrow> bool \<Rightarrow> string \<Rightarrow> (string \<times> LogValue) list \<Rightarrow> string" where
  "logfmt_pairs ex isFirst out [] = out"
| "logfmt_pairs ex isFirst out ((k, v) # kvs) =
     logfmt_pairs ex False (AppendValueAsString ex ((if isFirst then out else out @ '' '') @ k @ ''='') v) kvs"

text \<open>A key id without a key is undefined in the code and \<open>None\<close> here.\<close>

definition logfmt_ToString :: "externals \<Rightarrow> KeyIndex \<Rightarrow> LineSource option \<Rightarrow> LogLine \<Rightarrow> string option" where
  "logfmt_ToString ex ki source line =
     (let values = IndexedValues source line
      in if \<exists>(k, v)\<in>set values. KeyOf k ki = None then None
         else Some (logfmt_pairs ex True [] (map (\<lambda>(k, v). (the (KeyOf k ki), v)) values)))"

definition logfmt_ToString_map :: "externals \<Rightarrow> (string \<times> LogValue) list \<Rightarrow> string" where
  "logfmt_ToString_map ex values = logfmt_pairs ex True [] (sort_key fst values)"

end
