(* ===== verification/Logfmt_Roundtrip.thy ===== *)
theory Logfmt_Roundtrip
  imports Logfmt_Parser
begin

text \<open>
  The logfmt scanner reads back the pairs that the printer writes, and the sorted insert is a map
  update in both of its branches.
\<close>

section \<open>The sorted insert\<close>

lemma sorted_fields_split:
  "sorted_fields (xs @ (k, v) # ys) \<longleftrightarrow> sorted_fields xs \<and> sorted_fields ys \<and> (\<forall>x\<in>set xs. fst x < k) \<and>
     (\<forall>y\<in>set ys. k < fst y) \<and> (\<forall>x\<in>set xs. \<forall>y\<in>set ys. fst x < fst y)"
  by (auto simp: sorted_fields_def sorted_wrt_append)

lemma in_take: "x \<in> set (take n xs) \<Longrightarrow> \<exists>j<n. j < length xs \<and> x = xs ! j"
  by (metis in_set_conv_nth length_take min_less_iff_conj nth_take)

lemma in_drop: "x \<in> set (drop n xs) \<Longrightarrow> \<exists>j. n + j < length xs \<and> x = xs ! (n + j)"
  by (auto simp: in_set_conv_nth) (metis add.commute less_diff_conv)

definition split_at :: "KeyId \<Rightarrow> field list \<Rightarrow> nat \<Rightarrow> bool" where
  "split_at kid out n \<longleftrightarrow> n \<le> length out \<and> (\<forall>x\<in>set (take n out). fst x < kid) \<and> (\<forall>y\<in>set (drop n out). kid < fst y)"

definition hit_at :: "KeyId \<Rightarrow> field list \<Rightarrow> nat \<Rightarrow> bool" where
  "hit_at kid out n \<longleftrightarrow> n < length out \<and> fst (out ! n) = kid"

lemma insert_at_split:
  assumes "sorted_fields out" "split_at kid out n"
  shows "sorted_fields (take n out @ (kid, v) # drop n out)"
    "map_of (take n out @ (kid, v) # drop n out) = (map_of out)(kid \<mapsto> v)"
proof -
  have "sorted_fields (take n out @ drop n out)" using assms(1) by simp
  then have parts: "sorted_fields (take n out)" "sorted_fields (drop n out)"
      "\<forall>x\<in>set (take n out). \<forall>y\<in>set (drop n out). fst x < fst y"
    unfolding sorted_fields_def map_append sorted_wrt_append by auto
  then show "sorted_fields (take n out @ (kid, v) # drop n out)"
    using assms(2) by (simp add: sorted_fields_split split_at_def)
  have "map_of (take n out) kid = None"
    using assms(2) by (force simp: split_at_def map_of_eq_None_iff)
  moreover have "map_of out = map_of (drop n out) ++ map_of (take n out)"
    by (metis append_take_drop_id map_of_append)
  ultimately show "map_of (take n out @ (kid, v) # drop n out) = (map_of out)(kid \<mapsto> v)"
    by (auto simp: map_add_def fun_eq_iff split: option.splits)
qed

lemma update_at_hit:
  assumes "sorted_fields out" "hit_at kid out n"
  shows "sorted_fields (out[n := (kid, v)])" "map_of (out[n := (kid, v)]) = (map_of out)(kid \<mapsto> v)"
proof -
  have n: "n < length out" "fst (out ! n) = kid" using assms(2) by (simp_all add: hit_at_def)
  have keys: "map fst (out[n := (kid, v)]) = map fst out"
    using n by (metis fst_conv list_update_id map_update nth_map)
  then show "sorted_fields (out[n := (kid, v)])" using assms(1) by (simp add: sorted_fields_def)
  have dist: "distinct (map fst out)" using assms(1) by (simp add: sorted_fields_def strict_sorted_iff)
  show "map_of (out[n := (kid, v)]) = (map_of out)(kid \<mapsto> v)"
  proof (rule ext)
    fix j
    show "map_of (out[n := (kid, v)]) j = ((map_of out)(kid \<mapsto> v)) j"
    proof (cases "j = kid")
      case True
      have "(kid, v) \<in> set (out[n := (kid, v)])" using n(1) by (simp add: set_update_memI)
      then show ?thesis using True dist keys by (metis fun_upd_same map_of_is_SomeI)
    next
      case False
      have "map_of (out[n := (kid, v)]) j = Some w \<longleftrightarrow> map_of out j = Some w" for w
      proof -
        have "(j, w) \<in> set (out[n := (kid, v)]) \<longleftrightarrow> (j, w) \<in> set out"
          using False n by (auto simp: in_set_conv_nth nth_list_update) (metis fst_conv nth_list_update_neq)+
        then show ?thesis using dist keys by (metis map_of_eq_Some_iff)
      qed
      then show ?thesis using False by (metis fun_upd_other not_Some_eq)
    qed
  qed
qed

lemma back_scan_cases:
  assumes "sorted_fields out" "n \<le> length out" "\<forall>y\<in>set (drop n out). kid < fst y"
  shows "(\<exists>m. split_at kid out m \<and> back_scan kid v out n = take m out @ (kid, v) # drop m out) \<or>
    (\<exists>m. hit_at kid out m \<and> back_scan kid v out n = out[m := (kid, v)])"
  using assms
proof (induction n)
  case 0
  then show ?case by (auto simp: split_at_def intro!: exI [of _ 0])
next
  case (Suc n)
  consider "fst (out ! n) < kid" | "fst (out ! n) = kid" | "kid < fst (out ! n)" by (rule linorder_cases)
  then show ?case
  proof cases
    case 1
    have "fst x < kid" if mem: "x \<in> set (take (Suc n) out)" for x
    proof -
      obtain j where j: "j < Suc n" "x = out ! j" using in_take [OF mem] by blast
      then have "fst x \<le> fst (out ! n)" using sorted_fields_mono [OF Suc.prems(1), of j n] Suc.prems(2) by simp
      then show ?thesis using 1 by simp
    qed
    then have "split_at kid out (Suc n)" using Suc.prems by (simp add: split_at_def)
    then show ?thesis using 1 by auto
  next
    case 2
    then have "hit_at kid out n" using Suc.prems(2) by (simp add: hit_at_def)
    moreover have "back_scan kid v out (Suc n) = out[n := (kid, v)]" using 2 by (simp add: Let_def)
    ultimately show ?thesis by blast
  next
    case 3
    have "drop n out = out ! n # drop (Suc n) out" using Suc.prems(2) by (simp add: Cons_nth_drop_Suc)
    then have "\<forall>y\<in>set (drop n out). kid < fst y" using 3 Suc.prems(3) by simp
    moreover have "back_scan kid v out (Suc n) = back_scan kid v out n" using 3 by (auto simp: Let_def)
    ultimately show ?thesis using Suc.IH Suc.prems(1,2) by simp
  qed
qed

lemma InsertSorted_update:
  assumes "sorted_fields out"
  shows "sorted_fields (InsertSorted kid v out) \<and> map_of (InsertSorted kid v out) = (map_of out)(kid \<mapsto> v)"
proof (cases "length out < INSERT_SORTED_LOWER_BOUND_THRESHOLD")
  case True
  then show ?thesis
    using back_scan_cases [OF assms, of "length out" kid v] insert_at_split [OF assms, of kid _ v] update_at_hit [OF assms, of kid _ v]
    by (auto simp: InsertSorted_def)
next
  case False
  let ?it = "lower_bound kid out 0 (length out)"
  have spec: "?it \<le> length out \<and> (\<forall>i<?it. fst (out ! i) < kid) \<and> (\<forall>i<length out. ?it \<le> i \<longrightarrow> kid \<le> fst (out ! i))"
    by (rule lower_bound_mono) (use sorted_fields_mono [OF assms] in auto)
  show ?thesis
  proof (cases "?it < length out \<and> fst (out ! ?it) = kid")
    case hit: True
    then show ?thesis using False update_at_hit [OF assms, of kid ?it v] by (simp add: InsertSorted_def Let_def hit_at_def)
  next
    case miss: False
    have "kid < fst y" if mem: "y \<in> set (drop ?it out)" for y
    proof -
      obtain j where j: "?it + j < length out" "y = out ! (?it + j)" using in_drop [OF mem] by blast
      then have it: "?it < length out" by simp
      then have "kid \<le> fst (out ! ?it)" using spec by blast
      then have "kid < fst (out ! ?it)" using miss it by auto
      also have "\<dots> \<le> fst y" using sorted_fields_mono [OF assms, of ?it "?it + j"] j by simp
      finally show ?thesis .
    qed
    moreover have "fst x < kid" if mem: "x \<in> set (take ?it out)" for x using in_take [OF mem] spec by blast
    ultimately have "split_at kid out ?it" using spec by (simp add: split_at_def)
    moreover have "InsertSorted kid v out = take ?it out @ (kid, v) # drop ?it out"
      unfolding InsertSorted_def Let_def by (simp only: False miss if_False)
    ultimately show ?thesis using insert_at_split [OF assms, of kid ?it v] by simp
  qed
qed

section \<open>Printed values\<close>

abbreviation escaped :: "string \<Rightarrow> string" where
  "escaped v \<equiv> concat (map escape_byte v)"

definition text_of :: "string \<Rightarrow> string" where
  "text_of v = append_text [] v"

lemma append_text_text: "append_text out v = out @ text_of v"
  by (simp add: text_of_def append_text_def AppendQuotedString_def)

lemma text_of_safe: "BareValueIsSafe v \<Longrightarrow> text_of v = v"
  by (simp add: text_of_def append_text_def)

lemma text_of_quoted: "\<not> BareValueIsSafe v \<Longrightarrow> text_of v = QUOTE # escaped v @ [QUOTE]"
  by (simp add: text_of_def append_text_def AppendQuotedString_def)

lemma escape_cases:
  obtains "escape_byte c = [c]" "c \<noteq> QUOTE" "c \<noteq> BACKSLASH"
  | d where "escape_byte c = [BACKSLASH, d]" "unescape_byte d = [c]"
  by (cases "escape_byte c = [c]") (auto simp: escape_byte_def unescape_byte_def split: if_splits)

lemma logfmt_inner_plain: "c \<noteq> QUOTE \<Longrightarrow> c \<noteq> BACKSLASH \<Longrightarrow> s \<noteq> [] \<Longrightarrow> logfmt_inner e raw (c # s) = logfmt_inner e (raw @ [c]) s"
  by (cases s) simp_all

lemma logfmt_unescape_plain: "c \<noteq> BACKSLASH \<Longrightarrow> logfmt_unescape (c # s) = c # logfmt_unescape s"
  by (cases s) simp_all

lemma logfmt_inner_escaped:
  "logfmt_inner e raw (escaped v @ QUOTE # r) = Some (e \<or> BACKSLASH \<in> set (escaped v), raw @ escaped v, r)"
proof (induction v arbitrary: e raw)
  case Nil
  then show ?case by (cases r) auto
next
  case (Cons c v)
  show ?case
  proof (cases c rule: escape_cases)
    case 1
    then show ?thesis using Cons.IH [of e "raw @ [c]"] by (auto simp: logfmt_inner_plain)
  next
    case (2 d)
    then show ?thesis using Cons.IH [of True "raw @ [BACKSLASH, d]"] by simp
  qed
qed

lemma logfmt_unescape_escaped: "logfmt_unescape (escaped v) = v"
proof (induction v)
  case (Cons c v)
  show ?case by (cases c rule: escape_cases) (simp_all add: Cons.IH logfmt_unescape_plain)
qed simp

lemma escaped_same: "BACKSLASH \<notin> set (escaped v) \<Longrightarrow> escaped v = v"
proof (induction v)
  case (Cons c v)
  then show ?case by (cases c rule: escape_cases) auto
qed simp

section \<open>The pairs\<close>

definition key_text :: "string \<Rightarrow> bool" where
  "key_text k \<longleftrightarrow> k \<noteq> [] \<and> list_all key_byte k"

definition reads_pair :: "string \<times> string \<Rightarrow> LogfmtField \<Rightarrow> bool" where
  "reads_pair kv f \<longleftrightarrow> lfKey f = fst kv \<and> lfValue f = snd kv \<and> \<not> valueIsNull f \<and>
     (valueWasQuoted f \<longleftrightarrow> \<not> BareValueIsSafe (snd kv))"

lemma key_scan:
  assumes "key_text k" "list_all blank b"
  shows "dropWhile blank (b @ k @ CHR ''='' # v) = k @ CHR ''='' # v" "takeWhile blank (b @ k @ CHR ''='' # v) = b"
    "takeWhile key_byte (k @ CHR ''='' # v) = k" "dropWhile key_byte (k @ CHR ''='' # v) = CHR ''='' # v"
proof -
  have "k \<noteq> []" "\<not> blank (hd k)" using assms(1) by (cases k; simp add: key_text_def key_byte_def)+
  then show "dropWhile blank (b @ k @ CHR ''='' # v) = k @ CHR ''='' # v" "takeWhile blank (b @ k @ CHR ''='' # v) = b"
    using takeWhile_prefix [of blank b "k @ CHR ''='' # v"] assms(2) by auto
  show "takeWhile key_byte (k @ CHR ''='' # v) = k" "dropWhile key_byte (k @ CHR ''='' # v) = CHR ''='' # v"
    using takeWhile_prefix [of key_byte k "CHR ''='' # v"] assms(1) by (simp_all add: key_text_def key_byte_def)
qed

lemma fields_bare:
  assumes "key_text k" "list_all blank b" "v \<noteq> []" "\<not> logfmt_space (hd v)" "hd v \<noteq> NEWLINE" "hd v \<noteq> QUOTE"
  shows "logfmt_fields i (b @ k @ CHR ''='' # v) =
    emit_first
      \<lparr>lfKey = k, lfValue = takeWhile value_byte v, valueWasQuoted = False, unescapedFromQuoted = False,
       valueIsNull = False, valueAt = i + length b + length k + 1\<rparr>
      (logfmt_fields (i + length b + length k + 1 + length (takeWhile value_byte v)) (dropWhile value_byte v))"
  using assms by (subst logfmt_fields.simps) (simp add: Let_def key_scan key_text_def [of k])

lemma fields_quoted:
  assumes "key_text k" "list_all blank b" "logfmt_inner False [] v = Some (esc, raw, r)"
  shows "logfmt_fields i (b @ k @ CHR ''='' # QUOTE # v) =
    emit_first
      \<lparr>lfKey = k, lfValue = (if esc then logfmt_unescape raw else raw), valueWasQuoted = True, unescapedFromQuoted = esc,
       valueIsNull = False, valueAt = i + length b + length k + 2\<rparr>
      (logfmt_fields (i + length b + length k + 2 + length raw + 1) r)"
  using assms by (subst logfmt_fields.simps) (simp add: Let_def key_scan key_text_def [of k] logfmt_space_def)

lemma reads_pair_value:
  "(q \<longleftrightarrow> \<not> BareValueIsSafe v) \<Longrightarrow> v' = v \<Longrightarrow>
    reads_pair (k, v) \<lparr>lfKey = k, lfValue = v', valueWasQuoted = q, unescapedFromQuoted = e, valueIsNull = False, valueAt = n\<rparr>"
  by (simp add: reads_pair_def)

lemma emit_field:
  "s = emit_first f (logfmt_fields j r) \<Longrightarrow> reads_pair kv f \<Longrightarrow>
    \<exists>f j. reads_pair kv f \<and> s = emit_first f (logfmt_fields j r)"
  by blast

lemma field_printed:
  assumes "key_text k" "list_all blank b" "r = [] \<or> hd r = CHR '' ''"
  shows "\<exists>f j. reads_pair (k, v) f \<and> logfmt_fields i (b @ k @ CHR ''='' # text_of v @ r) = emit_first f (logfmt_fields j r)"
proof (cases "BareValueIsSafe v")
  case True
  then have v: "list_all value_byte v" "v \<noteq> []" "\<not> blank (hd v)" "hd v \<noteq> QUOTE"
    by (cases v; auto simp: BareValueIsSafe_def value_byte_def list_all_iff)+
  have stop: "r = [] \<or> \<not> value_byte (hd r)" using assms(3) by (auto simp: value_byte_def)
  note ends = takeWhile_prefix [OF v(1) stop]
  have first: "\<not> logfmt_space (hd (v @ r))" "hd (v @ r) \<noteq> NEWLINE" "hd (v @ r) \<noteq> QUOTE"
    using v by (auto simp: logfmt_space_def)
  have "v @ r \<noteq> []" using v(2) by simp
  note step = fields_bare [OF assms(1,2) this first, of i]
  show ?thesis unfolding text_of_safe [OF True]
    by (rule emit_field [of _ _ "i + length b + length k + 1 + length v"]) (use step True ends in \<open>(simp add: reads_pair_value)+\<close>)
next
  case False
  note inner = logfmt_inner_escaped [of False "[]" v r, simplified]
  have "v = (if BACKSLASH \<in> set (escaped v) then logfmt_unescape (escaped v) else escaped v)"
    by (simp add: logfmt_unescape_escaped escaped_same)
  moreover have print: "text_of v @ r = QUOTE # escaped v @ QUOTE # r" by (simp add: text_of_quoted [OF False])
  ultimately show ?thesis
    using False by (intro emit_field [OF fields_quoted [OF assms(1,2) inner, of i, folded print]]) (rule reads_pair_value, simp_all)
qed

abbreviation more_pairs :: "(string \<times> string) list \<Rightarrow> string" where
  "more_pairs kvs \<equiv> concat (map (\<lambda>(k, v). CHR '' '' # k @ CHR ''='' # text_of v) kvs)"

lemma logfmt_pairs_more:
  "logfmt_pairs ex False out (map (\<lambda>(k, v). (k, VString v)) kvs) = out @ more_pairs kvs"
  by (induction kvs arbitrary: out) (auto simp: AppendValueAsString_def append_text_text)

lemma more_pairs_read:
  "\<forall>(k, v)\<in>set kvs. key_text k \<Longrightarrow> \<exists>fs. logfmt_fields i (more_pairs kvs) = (fs, True) \<and> list_all2 reads_pair kvs fs"
proof (induction kvs arbitrary: i)
  case Nil
  then show ?case by (subst logfmt_fields.simps) simp
next
  case (Cons p kvs)
  obtain k v where p: "p = (k, v)" by (cases p)
  have r: "more_pairs kvs = [] \<or> hd (more_pairs kvs) = CHR '' ''" by (cases kvs) auto
  have key: "key_text k" using Cons.prems p by simp
  obtain f j where f: "reads_pair (k, v) f"
      "logfmt_fields i ([CHR '' ''] @ k @ CHR ''='' # text_of v @ more_pairs kvs) = emit_first f (logfmt_fields j (more_pairs kvs))"
    using field_printed [OF key _ r, of "[CHR '' '']" v i] by auto
  obtain fs where "logfmt_fields j (more_pairs kvs) = (fs, True)" "list_all2 reads_pair kvs fs"
    using Cons.IH [of j] Cons.prems by auto
  then show ?case using f p by auto
qed

lemma printed_pairs_read:
  assumes "\<forall>(k, v)\<in>set kvs. key_text k"
  shows "\<exists>fs. TokenizeLogfmtLine (logfmt_pairs ex True [] (map (\<lambda>(k, v). (k, VString v)) kvs)) = (fs, True) \<and>
    list_all2 reads_pair kvs fs"
proof (cases kvs)
  case Nil
  then show ?thesis by (simp add: TokenizeLogfmtLine_def logfmt_fields.simps)
next
  case (Cons p ps)
  obtain k v where p: "p = (k, v)" by (cases p)
  have r: "more_pairs ps = [] \<or> hd (more_pairs ps) = CHR '' ''" by (cases ps) auto
  have key: "key_text k" using assms p Cons by simp
  obtain f j where f: "reads_pair (k, v) f"
      "logfmt_fields 0 ([] @ k @ CHR ''='' # text_of v @ more_pairs ps) = emit_first f (logfmt_fields j (more_pairs ps))"
    using field_printed [OF key _ r, of "[]" v 0] by auto
  obtain fs where fs: "logfmt_fields j (more_pairs ps) = (fs, True)" "list_all2 reads_pair ps fs"
    using more_pairs_read [of ps j] assms Cons by auto
  have "logfmt_pairs ex True [] (map (\<lambda>(k, v). (k, VString v)) kvs) = k @ CHR ''='' # text_of v @ more_pairs ps"
    using p Cons by (simp add: logfmt_pairs_more AppendValueAsString_def append_text_text)
  then show ?thesis using f fs p Cons by (simp add: TokenizeLogfmtLine_def)
qed

lemma reads_pair_list:
  "list_all2 reads_pair kvs fs \<Longrightarrow> map (\<lambda>f. (lfKey f, lfValue f)) fs = kvs \<and> list_all (\<lambda>f. \<not> valueIsNull f) fs"
  by (induction rule: list_all2_induct) (auto simp: reads_pair_def)

end
