(* ===== verification/Time_Stamps.thy ===== *)
theory Time_Stamps
  imports Logfmt_Parser Iso_Roundtrip
begin

text \<open>
  The parsers of \<open>library/src/log_processing.cpp\<close> and the promotion of time stamp fields in
  \<open>library/src/timestamp_promotion.cpp\<close>.

  The \<open>date\<close> library and the clock are a record of functions.  \<open>std::from_stream\<close> is a function
  of the format and the text: the scratch stream is reset before each use.
\<close>

section \<open>Parsing\<close>

record date_lib =
  ymd_ok :: "int \<Rightarrow> int \<Rightarrow> int \<Rightarrow> bool"
  sys_days :: "int \<Rightarrow> int \<Rightarrow> int \<Rightarrow> int"
  from_stream :: "string \<Rightarrow> string \<Rightarrow> 64 word option"
  now_year :: int
  now_month :: int

datatype TimestampFormatKind = KGeneric | KIso8601_T | KIso8601_Space | KSyslogRfc3164NoYear

definition ClassifyTimestampFormat :: "string \<Rightarrow> TimestampFormatKind" where
  "ClassifyTimestampFormat format =
     (if format = ''%FT%T'' then KIso8601_T
      else if format = ''%F %T'' then KIso8601_Space
      else if format = ''%b %e %H:%M:%S'' \<or> format = ''%b %d %H:%M:%S'' then KSyslogRfc3164NoYear
      else KGeneric)"

text \<open>The callers check that the digits are inside the text; the model fails outside.\<close>

fun fixed_digits :: "int \<Rightarrow> nat \<Rightarrow> string \<Rightarrow> int option" where
  "fixed_digits v 0 p = Some v"
| "fixed_digits v (Suc n) [] = None"
| "fixed_digits v (Suc n) (c # p) =
     (if \<not> isdigit c then None else fixed_digits (v * 10 + int (digit_value c)) n p)"

definition ParseFixedDigits :: "string \<Rightarrow> nat \<Rightarrow> int option" where
  "ParseFixedDigits p n = fixed_digits 0 n p"

text \<open>The optional fraction and the optional \<open>Z\<close> behind the seconds, in microseconds.\<close>

definition iso_fraction :: "string \<Rightarrow> (int \<times> string) option" where
  "iso_fraction r =
     (if r \<noteq> [] \<and> (hd r = CHR ''.'' \<or> hd r = CHR '','') then
        (let ds = takeWhile isdigit (take 6 (tl r))
         in if ds = [] then None
            else Some (int (digits_nat 0 ds) * 10 ^ (6 - length ds), drop (length ds) (tl r)))
      else Some (0, r))"

definition iso_suffix :: "string \<Rightarrow> int option" where
  "iso_suffix r =
     (case iso_fraction r of
        None \<Rightarrow> None
      | Some (us, rest) \<Rightarrow>
          let rest = (if rest \<noteq> [] \<and> hd rest = CHR ''Z'' then tl rest else rest)
          in if rest = [] then Some us else None)"

definition time_stamp :: "date_lib \<Rightarrow> int \<Rightarrow> int \<Rightarrow> int \<Rightarrow> int \<Rightarrow> int \<Rightarrow> int \<Rightarrow> int \<Rightarrow> 64 word" where
  "time_stamp dl year month day hour minute second us =
     word_of_int (sys_days dl year month day * 86400000000 + (hour * 3600 + minute * 60 + second) * 1000000 + us)"

definition TryParseIsoTimestamp :: "date_lib \<Rightarrow> string \<Rightarrow> char \<Rightarrow> 64 word option" where
  "TryParseIsoTimestamp dl sv dateTimeSep =
     (if length sv < 19 then None
      else case (ParseFixedDigits sv 4, ParseFixedDigits (drop 5 sv) 2, ParseFixedDigits (drop 8 sv) 2,
                 ParseFixedDigits (drop 11 sv) 2, ParseFixedDigits (drop 14 sv) 2, ParseFixedDigits (drop 17 sv) 2) of
        (Some year, Some month, Some day, Some hour, Some minute, Some second) \<Rightarrow>
          (if sv ! 4 \<noteq> CHR ''-'' \<or> sv ! 7 \<noteq> CHR ''-'' \<or> sv ! 10 \<noteq> dateTimeSep \<or> sv ! 13 \<noteq> CHR '':'' \<or> sv ! 16 \<noteq> CHR '':''
           then None
           else case iso_suffix (drop 19 sv) of
             None \<Rightarrow> None
           | Some fractionalUs \<Rightarrow>
               if hour > 23 \<or> minute > 59 \<or> second > 60 then None
               else if \<not> ymd_ok dl year month day then None
               else Some (time_stamp dl year month day hour minute second fractionalUs))
      | _ \<Rightarrow> None)"

fun month_from :: "int \<Rightarrow> string \<Rightarrow> string list \<Rightarrow> int" where
  "month_from i sv [] = 0"
| "month_from i sv (m # ms) = (if take 3 sv = m then i else month_from (i + 1) sv ms)"

definition MatchSyslogMonth :: "string \<Rightarrow> int" where
  "MatchSyslogMonth sv =
     (if length sv < 3 then 0
      else month_from 1 sv [''Jan'', ''Feb'', ''Mar'', ''Apr'', ''May'', ''Jun'', ''Jul'', ''Aug'', ''Sep'', ''Oct'', ''Nov'', ''Dec''])"

text \<open>One or two digits of the day from the rest of the text.\<close>

definition syslog_day :: "string \<Rightarrow> (int \<times> string) option" where
  "syslog_day s =
     (case s of
        [] \<Rightarrow> None
      | c # r \<Rightarrow>
          if \<not> isdigit c then None
          else if r \<noteq> [] \<and> isdigit (hd r) then Some (int (digit_value c) * 10 + int (digit_value (hd r)), tl r)
          else Some (int (digit_value c), r))"

definition syslog_tail :: "string \<Rightarrow> (int \<times> int \<times> int) option" where
  "syslog_tail r =
     (if length r \<noteq> 8 then None
      else case (ParseFixedDigits r 2, ParseFixedDigits (drop 3 r) 2, ParseFixedDigits (drop 6 r) 2) of
        (Some hour, Some minute, Some second) \<Rightarrow>
          if r ! 2 \<noteq> CHR '':'' \<or> r ! 5 \<noteq> CHR '':'' then None
          else if hour > 23 \<or> minute > 59 \<or> second > 60 then None
          else Some (hour, minute, second)
      | _ \<Rightarrow> None)"

definition TryParseSyslogRfc3164Timestamp :: "date_lib \<Rightarrow> string \<Rightarrow> 64 word option" where
  "TryParseSyslogRfc3164Timestamp dl sv =
     (if length sv < 15 then None
      else let month = MatchSyslogMonth sv in
      if month = 0 then None
      else if sv ! 3 \<noteq> CHR '' '' then None
      else case syslog_day (drop (if sv ! 4 = CHR '' '' then 5 else 4) sv) of
        None \<Rightarrow> None
      | Some (day, r) \<Rightarrow>
          if day < 1 \<or> day > 31 then None
          else if r = [] \<or> hd r \<noteq> CHR '' '' then None
          else case syslog_tail (tl r) of
            None \<Rightarrow> None
          | Some (hour, minute, second) \<Rightarrow>
              let year = (if month > now_month dl then now_year dl - 1 else now_year dl)
              in if \<not> ymd_ok dl year month day then None
                 else Some (time_stamp dl year month day hour minute second 0))"

definition TryParseTimestamp :: "date_lib \<Rightarrow> string \<Rightarrow> string \<Rightarrow> TimestampFormatKind \<Rightarrow> 64 word option" where
  "TryParseTimestamp dl sv format kind =
     (case kind of
        KIso8601_T \<Rightarrow> TryParseIsoTimestamp dl sv CHR ''T''
      | KIso8601_Space \<Rightarrow> TryParseIsoTimestamp dl sv CHR '' ''
      | KSyslogRfc3164NoYear \<Rightarrow> TryParseSyslogRfc3164Timestamp dl sv
      | KGeneric \<Rightarrow> from_stream dl format sv)"

section \<open>Promotion\<close>

definition ExtractStringBytes :: "LogLine \<Rightarrow> KeyId \<Rightarrow> LineSource option \<Rightarrow> string \<Rightarrow> string option" where
  "ExtractStringBytes line keyId source ownedArena =
     (if keyId = INVALID_KEY_ID then None
      else let fs = mData (mFields line); it = lower_bound keyId fs 0 (length fs)
      in if it = length fs \<or> fst (fs ! it) \<noteq> keyId then None
      else let v = snd (fs ! it) in
      if tag v = MmapSlice then
        (case source of
           None \<Rightarrow> None
         | Some src \<Rightarrow>
             let bytes = ResolveMmapBytes (payload v) (aux v) src
             in if bytes = [] \<and> aux v \<noteq> 0 then None else Some bytes)
      else if tag v = OwnedString then
        (if ownedArena \<noteq> [] then
           (if payload v + ucast (aux v) > word_of_nat (length ownedArena) then None
            else Some (take (unat (aux v)) (drop (unat (payload v)) ownedArena)))
         else case source of
           None \<Rightarrow> None
         | Some src \<Rightarrow>
             let bytes = ResolveOwnedBytes (payload v) (aux v) (mLineId line) src
             in if bytes = [] \<and> aux v \<noteq> 0 then None else Some bytes)
      else None)"

text \<open>The formats are kept with their kinds; both vectors of the code have the same length.\<close>

record TimeColumnSpec =
  keyIds :: "KeyId list"
  formatKinds :: "(string \<times> TimestampFormatKind) list"

record LastTimestampBytesHit =
  hKeyId :: KeyId
  hBytes :: string
  hParsed :: "64 word"
  hValid :: bool

definition no_hit :: LastTimestampBytesHit where
  "no_hit = \<lparr>hKeyId = INVALID_KEY_ID, hBytes = [], hParsed = 0, hValid = False\<rparr>"

type_synonym LastValidTimestampParse = "KeyId \<times> string \<times> TimestampFormatKind"

type_synonym promote_state = "LastValidTimestampParse option \<times> LastTimestampBytesHit"

definition spec_of :: "KeyId list \<Rightarrow> Column \<Rightarrow> TimeColumnSpec" where
  "spec_of ids column =
     \<lparr>keyIds = ids, formatKinds = map (\<lambda>f. (f, ClassifyTimestampFormat f)) (parseFormats column)\<rparr>"

fun BuildTimeColumnSpecs :: "externals \<Rightarrow> Column list \<Rightarrow> KeyIndex \<Rightarrow> TimeColumnSpec list \<times> KeyIndex" where
  "BuildTimeColumnSpecs ex [] ki = ([], ki)"
| "BuildTimeColumnSpecs ex (column # cs) ki =
     (if ctype column \<noteq> CtTime then BuildTimeColumnSpecs ex cs ki
      else case intern_names ex (keys column) ki of (ids, ki1) \<Rightarrow>
           case BuildTimeColumnSpecs ex cs ki1 of (specs, ki2) \<Rightarrow> (spec_of ids column # specs, ki2))"

text \<open>The lambda \<open>tryPromote\<close> without its \<open>SetValue\<close>: the parsed value and the new bytes hit.\<close>

definition try_promote :: "date_lib \<Rightarrow> LastTimestampBytesHit \<Rightarrow> KeyId \<Rightarrow> string \<times> TimestampFormatKind \<Rightarrow> string \<Rightarrow>
    (64 word \<times> LastTimestampBytesHit) option" where
  "try_promote dl hit keyId format sv =
     (if hValid hit \<and> hKeyId hit = keyId \<and> hBytes hit = sv then Some (hParsed hit, hit)
      else case TryParseTimestamp dl sv (fst format) (snd format) of
        None \<Rightarrow> None
      | Some parsed \<Rightarrow> Some (parsed, \<lparr>hKeyId = keyId, hBytes = sv, hParsed = parsed, hValid = True\<rparr>))"

type_synonym promoted = "64 word \<times> LastTimestampBytesHit \<times> LastValidTimestampParse"

fun scan_formats :: "date_lib \<Rightarrow> LastTimestampBytesHit \<Rightarrow> KeyId \<Rightarrow> string \<Rightarrow> (string \<times> TimestampFormatKind) list \<Rightarrow>
    promoted option" where
  "scan_formats dl hit keyId sv [] = None"
| "scan_formats dl hit keyId sv (f # fs) =
     (case try_promote dl hit keyId f sv of
        Some (parsed, hit') \<Rightarrow> Some (parsed, hit', (keyId, f))
      | None \<Rightarrow> scan_formats dl hit keyId sv fs)"

fun scan_keys :: "date_lib \<Rightarrow> LastTimestampBytesHit \<Rightarrow> (KeyId \<Rightarrow> string option) \<Rightarrow> (string \<times> TimestampFormatKind) list \<Rightarrow>
    KeyId list \<Rightarrow> promoted option" where
  "scan_keys dl hit look fs [] = None"
| "scan_keys dl hit look fs (k # ks) =
     (case look k of
        None \<Rightarrow> scan_keys dl hit look fs ks
      | Some sv \<Rightarrow>
          (case scan_formats dl hit k sv fs of
             Some r \<Rightarrow> Some r
           | None \<Rightarrow> scan_keys dl hit look fs ks))"

text \<open>The key and format that worked last are tried first.\<close>

definition last_valid :: "date_lib \<Rightarrow> promote_state \<Rightarrow> (KeyId \<Rightarrow> string option) \<Rightarrow> promoted option" where
  "last_valid dl st look =
     (case fst st of
        None \<Rightarrow> None
      | Some (k, f) \<Rightarrow>
          (case look k of
             None \<Rightarrow> None
           | Some sv \<Rightarrow> map_option (\<lambda>(parsed, hit). (parsed, hit, (k, f))) (try_promote dl (snd st) k f sv)))"

definition find_time :: "date_lib \<Rightarrow> TimeColumnSpec \<Rightarrow> promote_state \<Rightarrow> (KeyId \<Rightarrow> string option) \<Rightarrow> promoted option" where
  "find_time dl spec st look =
     (case last_valid dl st look of
        Some r \<Rightarrow> Some r
      | None \<Rightarrow> scan_keys dl (snd st) look (formatKinds spec) (keyIds spec))"

text \<open>
  One column of one line.  Storing a time stamp takes no bytes of the source, so \<open>SetValue\<close> is
  \<open>SetCompact\<close>.
\<close>

definition promote_column :: "date_lib \<Rightarrow> LineSource option \<Rightarrow> string \<Rightarrow> TimeColumnSpec \<Rightarrow> promote_state \<Rightarrow> LogLine \<Rightarrow>
    bool \<times> LogLine \<times> promote_state" where
  "promote_column dl source ownedArena spec st line =
     (case find_time dl spec st (\<lambda>k. ExtractStringBytes line k source ownedArena) of
        None \<Rightarrow> (False, line, st)
      | Some (parsed, hit, lv) \<Rightarrow> (True, SetCompact (fst lv) (MakeTimestamp parsed) line, (Some lv, hit)))"

fun PromoteLineTimestamps :: "date_lib \<Rightarrow> LineSource option \<Rightarrow> string \<Rightarrow> TimeColumnSpec list \<Rightarrow> promote_state list \<Rightarrow> LogLine \<Rightarrow>
    bool \<times> LogLine \<times> promote_state list" where
  "PromoteLineTimestamps dl source ownedArena (spec # specs) (st # sts) line =
     (case promote_column dl source ownedArena spec st line of (promoted, line1, st1) \<Rightarrow>
      case PromoteLineTimestamps dl source ownedArena specs sts line1 of (anyPromoted, line2, sts1) \<Rightarrow>
        (promoted \<or> anyPromoted, line2, st1 # sts1))"
| "PromoteLineTimestamps dl source ownedArena specs sts line = (False, line, sts)"

definition fresh_scratch :: "nat \<Rightarrow> promote_state list" where
  "fresh_scratch n = replicate n (None, no_hit)"

section \<open>Back-filling a column\<close>

definition backfill_error :: "Column \<Rightarrow> LogLine \<Rightarrow> string" where
  "backfill_error column line =
     ''Failed to parse a timestamp for column '' @ [CHR 0x27] @ colHeader column @ [CHR 0x27] @ '' from line number '' @
     show_nat (mLineId line)"

text \<open>A line comes with a handle from which \<open>source\<close> gets the source it points to.\<close>

fun backfill_lines :: "date_lib \<Rightarrow> Column \<Rightarrow> ('s \<Rightarrow> LineSource option) \<Rightarrow> TimeColumnSpec \<Rightarrow> promote_state list \<Rightarrow> (LogLine \<times> 's) list \<Rightarrow>
    (LogLine \<times> 's) list \<times> string list" where
  "backfill_lines dl column source spec sts [] = ([], [])"
| "backfill_lines dl column source spec sts ((line, src) # ls) =
     (case PromoteLineTimestamps dl (source src) [] [spec] sts line of (promoted, line', sts') \<Rightarrow>
      case backfill_lines dl column source spec sts' ls of (ls', errs) \<Rightarrow>
        ((line', src) # ls', if promoted then errs else backfill_error column line' # errs))"

definition BackfillTimestampColumn :: "externals \<Rightarrow> date_lib \<Rightarrow> KeyIndex \<Rightarrow> ('s \<Rightarrow> LineSource option) \<Rightarrow> Column \<Rightarrow> (LogLine \<times> 's) list \<Rightarrow>
    (LogLine \<times> 's) list \<times> string list" where
  "BackfillTimestampColumn ex dl ki source column ls =
     backfill_lines dl column source (spec_of (map (\<lambda>k. Find_key (std_hash ex) k ki) (keys column)) column) (fresh_scratch 1) ls"

fun ParseTimestamps :: "externals \<Rightarrow> date_lib \<Rightarrow> KeyIndex \<Rightarrow> ('s \<Rightarrow> LineSource option) \<Rightarrow> Column list \<Rightarrow> (LogLine \<times> 's) list \<Rightarrow>
    (LogLine \<times> 's) list \<times> string list" where
  "ParseTimestamps ex dl ki source [] ls = (ls, [])"
| "ParseTimestamps ex dl ki source (column # cs) ls =
     (if ctype column = CtTime then
        (case BackfillTimestampColumn ex dl ki source column ls of (ls1, errs1) \<Rightarrow>
         case ParseTimestamps ex dl ki source cs ls1 of (ls2, errs2) \<Rightarrow> (ls2, errs1 @ errs2))
      else ParseTimestamps ex dl ki source cs ls)"

end
