(* ===== verification/Time_Correct.thy ===== *)
theory Time_Correct
  imports Time_Stamps
begin

text \<open>
  A time stamp that the column parser accepts denotes the same instant as a literal of the query
  language, and the two short cuts of the promotion (the format that worked last and the bytes
  seen last) change no result.
\<close>

section \<open>The short cuts\<close>

text \<open>The reference: the first pair of a key on the line and a format that parses.\<close>

fun first_time :: "date_lib \<Rightarrow> (KeyId \<Rightarrow> string option) \<Rightarrow> LastValidTimestampParse list \<Rightarrow>
    (64 word \<times> LastValidTimestampParse) option" where
  "first_time dl look [] = None"
| "first_time dl look ((k, f) # ps) =
     (case look k of
        None \<Rightarrow> first_time dl look ps
      | Some sv \<Rightarrow>
          (case TryParseTimestamp dl sv (fst f) (snd f) of
             Some parsed \<Rightarrow> Some (parsed, (k, f))
           | None \<Rightarrow> first_time dl look ps))"

definition candidates :: "TimeColumnSpec \<Rightarrow> LastValidTimestampParse option \<Rightarrow> LastValidTimestampParse list" where
  "candidates spec lv =
     (case lv of None \<Rightarrow> [] | Some x \<Rightarrow> [x]) @ concat (map (\<lambda>k. map (Pair k) (formatKinds spec)) (keyIds spec))"

definition hit_inv :: "date_lib \<Rightarrow> promote_state \<Rightarrow> bool" where
  "hit_inv dl st \<longleftrightarrow> (hValid (snd st) \<longrightarrow>
     (\<exists>f. fst st = Some (hKeyId (snd st), f) \<and> TryParseTimestamp dl (hBytes (snd st)) (fst f) (snd f) = Some (hParsed (snd st))))"

lemma hit_inv_fresh: "hit_inv dl (None, no_hit)"
  by (simp add: hit_inv_def no_hit_def)

definition misses :: "LastTimestampBytesHit \<Rightarrow> (KeyId \<Rightarrow> string option) \<Rightarrow> bool" where
  "misses hit look \<longleftrightarrow> \<not> (hValid hit \<and> look (hKeyId hit) = Some (hBytes hit))"

abbreviation new_hit :: "KeyId \<Rightarrow> string \<Rightarrow> 64 word \<Rightarrow> LastTimestampBytesHit" where
  "new_hit k sv parsed \<equiv> \<lparr>hKeyId = k, hBytes = sv, hParsed = parsed, hValid = True\<rparr>"

lemma try_promote_miss:
  "misses hit look \<Longrightarrow> look k = Some sv \<Longrightarrow> try_promote dl hit k f sv =
    map_option (\<lambda>parsed. (parsed, new_hit k sv parsed)) (TryParseTimestamp dl sv (fst f) (snd f))"
  by (auto simp: try_promote_def misses_def split: option.split)

text \<open>What a scan finds: the value and the pair of the reference, and the hit of the bytes it read.\<close>

definition found :: "(KeyId \<Rightarrow> string option) \<Rightarrow> (64 word \<times> LastValidTimestampParse) option \<Rightarrow> promoted option" where
  "found look r = map_option (\<lambda>(parsed, kf). (parsed, new_hit (fst kf) (the (look (fst kf))) parsed, kf)) r"

lemma first_time_append:
  "first_time dl look (ps @ qs) = (case first_time dl look ps of Some r \<Rightarrow> Some r | None \<Rightarrow> first_time dl look qs)"
  by (induction ps) (auto split: option.splits)

lemma first_time_absent: "look k = None \<Longrightarrow> first_time dl look (map (Pair k) fs) = None"
  by (induction fs) auto

lemma scan_formats_first:
  "misses hit look \<Longrightarrow> look k = Some sv \<Longrightarrow>
    scan_formats dl hit k sv fs = found look (first_time dl look (map (Pair k) fs))"
  by (induction fs) (auto simp: try_promote_miss found_def split: option.splits)

lemma scan_keys_first:
  "misses hit look \<Longrightarrow>
    scan_keys dl hit look fs ks = found look (first_time dl look (concat (map (\<lambda>k. map (Pair k) fs) ks)))"
  by (induction ks)
     (auto simp: scan_formats_first first_time_append first_time_absent found_def split: option.splits)

lemma last_valid_first:
  assumes "hit_inv dl st"
  shows "map_option (\<lambda>(parsed, hit, lv). (parsed, lv)) (last_valid dl st look) =
    first_time dl look (case fst st of None \<Rightarrow> [] | Some x \<Rightarrow> [x])"
    "last_valid dl st look = Some (parsed, hit, lv) \<Longrightarrow> hit_inv dl (Some lv, hit)"
    "last_valid dl st look = None \<Longrightarrow> misses (snd st) look"
  using assms by (auto simp: last_valid_def try_promote_def hit_inv_def misses_def split: option.splits if_splits)

lemma first_time_parses:
  "first_time dl look ps = Some (parsed, (k, f)) \<Longrightarrow>
    \<exists>sv. look k = Some sv \<and> TryParseTimestamp dl sv (fst f) (snd f) = Some parsed"
  by (induction ps) (auto split: option.splits)

lemma find_time_first:
  assumes "hit_inv dl st"
  shows "map_option (\<lambda>(parsed, hit, lv). (parsed, lv)) (find_time dl spec st look) =
      first_time dl look (candidates spec (fst st)) \<and>
    (\<forall>parsed hit lv. find_time dl spec st look = Some (parsed, hit, lv) \<longrightarrow> hit_inv dl (Some lv, hit))"
proof (cases "last_valid dl st look")
  case (Some r)
  then show ?thesis using last_valid_first [OF assms, of look]
    by (cases r) (auto simp: find_time_def candidates_def first_time_append split: option.splits)
next
  case None
  let ?pairs = "concat (map (\<lambda>k. map (Pair k) (formatKinds spec)) (keyIds spec))"
  have miss: "misses (snd st) look" using last_valid_first(3) [OF assms None] .
  have "first_time dl look (candidates spec (fst st)) = first_time dl look ?pairs"
    using last_valid_first(1) [OF assms, of look] None by (simp add: candidates_def first_time_append)
  moreover have find: "find_time dl spec st look = found look (first_time dl look ?pairs)"
    using None by (simp add: find_time_def scan_keys_first [OF miss])
  ultimately show ?thesis
    by (auto simp: found_def hit_inv_def option.map_comp comp_def split_def option.map_ident dest!: first_time_parses)
qed

text \<open>A column over the lines, with the last format as the only state.\<close>

definition reference_column :: "date_lib \<Rightarrow> LineSource option \<Rightarrow> string \<Rightarrow> TimeColumnSpec \<Rightarrow> LastValidTimestampParse option \<Rightarrow> LogLine \<Rightarrow>
    bool \<times> LogLine \<times> LastValidTimestampParse option" where
  "reference_column dl source ownedArena spec lv line =
     (case first_time dl (\<lambda>k. ExtractStringBytes line k source ownedArena) (candidates spec lv) of
        None \<Rightarrow> (False, line, lv)
      | Some (parsed, kf) \<Rightarrow> (True, SetCompact (fst kf) (MakeTimestamp parsed) line, Some kf))"

lemma promote_column_reference:
  assumes "hit_inv dl st" "promote_column dl source arena spec st line = (promoted, line', st')"
  shows "reference_column dl source arena spec (fst st) line = (promoted, line', fst st') \<and> hit_inv dl st'"
proof -
  let ?look = "\<lambda>k. ExtractStringBytes line k source arena"
  note find = find_time_first [OF assms(1), of spec ?look]
  show ?thesis
  proof (cases "find_time dl spec st ?look")
    case None
    then show ?thesis using find assms by (auto simp: promote_column_def reference_column_def)
  next
    case (Some r)
    obtain parsed hit lv where r: "r = (parsed, hit, lv)" by (cases r)
    have "first_time dl ?look (candidates spec (fst st)) = Some (parsed, lv)" "hit_inv dl (Some lv, hit)"
      using find Some r by (simp, metis)
    then show ?thesis using Some r assms(2) by (auto simp: promote_column_def reference_column_def)
  qed
qed

fun reference_backfill :: "date_lib \<Rightarrow> Column \<Rightarrow> ('s \<Rightarrow> LineSource option) \<Rightarrow> TimeColumnSpec \<Rightarrow> LastValidTimestampParse option \<Rightarrow> (LogLine \<times> 's) list \<Rightarrow>
    (LogLine \<times> 's) list \<times> string list" where
  "reference_backfill dl column source spec lv [] = ([], [])"
| "reference_backfill dl column source spec lv ((line, src) # ls) =
     (case reference_column dl (source src) [] spec lv line of (promoted, line', lv') \<Rightarrow>
      case reference_backfill dl column source spec lv' ls of (ls', errs) \<Rightarrow>
        ((line', src) # ls', if promoted then errs else backfill_error column line' # errs))"

lemma backfill_reference:
  "hit_inv dl st \<Longrightarrow> backfill_lines dl column source spec [st] ls = reference_backfill dl column source spec (fst st) ls"
proof (induction ls arbitrary: st)
  case (Cons l ls)
  obtain line src where l: "l = (line, src)" by force
  obtain promoted line' st' where step: "promote_column dl (source src) [] spec st line = (promoted, line', st')"
    by (cases "promote_column dl (source src) [] spec st line") auto
  from promote_column_reference [OF Cons.prems step] Cons.IH [of st']
  show ?case using step by (simp add: l split: prod.split)
qed simp

section \<open>Agreement with the query language\<close>

text \<open>The documented proleptic Gregorian calendar of the \<open>date\<close> library, for four-digit years.\<close>

definition gregorian :: "date_lib \<Rightarrow> bool" where
  "gregorian dl \<longleftrightarrow> (\<forall>y m d. 0 \<le> y \<longrightarrow> y \<le> 9999 \<longrightarrow>
     ymd_ok dl y m d = (1 \<le> m \<and> m \<le> 12 \<and> 1 \<le> d \<and> d \<le> DaysInMonth y m) \<and>
     (ymd_ok dl y m d \<longrightarrow> sys_days dl y m d = days_from_fields y m d))"

lemma fixed_digits_take:
  "fixed_digits (int a) n p = (if n \<le> length p \<and> list_all isdigit (take n p) then Some (int (digits_nat a (take n p))) else None)"
proof (induction n arbitrary: a p)
  case (Suc n)
  then show ?case
  proof (cases p)
    case (Cons c q)
    then show ?thesis using Suc.IH [of "10 * a + digit_value c" q] by (simp add: algebra_simps)
  qed simp
qed simp

lemma ParseFixedDigits_readInt: "start \<le> length sv \<Longrightarrow> ParseFixedDigits (drop start sv) width = readInt sv start width"
  using fixed_digits_take [of 0 width "drop start sv"] by (auto simp: ParseFixedDigits_def readInt_def)

lemma fraction_loop_tail:
  "list_all isdigit ds \<Longrightarrow> rest = [] \<or> \<not> isdigit (hd rest) \<Longrightarrow> k + length ds \<le> 7 \<Longrightarrow>
    fraction_loop (ds @ rest) (int a) (10 ^ k) = (int (digits_nat a ds), 10 ^ (k + length ds))"
proof (induction ds arbitrary: a k)
  case Nil
  then show ?case by (cases rest) auto
next
  case (Cons c ds)
  have "(10 :: int) ^ k < 10 ^ 7" using Cons.prems(3) by (intro power_strict_increasing) auto
  moreover have "digits_nat (10 * a + digit_value c) ds = digits_nat (a * 10 + digit_value c) ds" by (simp add: algebra_simps)
  ultimately show ?case using Cons.IH [of "Suc k" "10 * a + digit_value c"] Cons.prems by (simp add: algebra_simps)
qed

lemma iso_fraction_query:
  assumes "iso_fraction (drop i text) = Some (us, rest)" "rest = [] \<or> rest = ''Z''" "i \<le> length text"
  shows "\<exists>c\<le>length text. parse_fraction text i = (us, c) \<and> drop c text = rest"
proof (cases "drop i text \<noteq> [] \<and> (hd (drop i text) = CHR ''.'' \<or> hd (drop i text) = CHR '','')")
  case True
  then have i: "i < length text" "text ! i = CHR ''.'' \<or> text ! i = CHR '',''" by (auto simp: hd_drop_conv_nth)
  have tail: "tl (drop i text) = drop (Suc i) text" by (simp add: drop_Suc tl_drop)
  let ?ds = "takeWhile isdigit (take 6 (drop (Suc i) text))"
  have us: "us = int (digits_nat 0 ?ds) * 10 ^ (6 - length ?ds)" and rest: "rest = drop (length ?ds) (drop (Suc i) text)"
    and "?ds \<noteq> []"
    using assms(1) True by (auto simp: iso_fraction_def Let_def tail split: if_splits)
  have len: "length ?ds \<le> 6" using length_takeWhile_le [of isdigit "take 6 (drop (Suc i) text)"] by simp
  have digits: "list_all isdigit ?ds" by (auto simp: list_all_iff dest: set_takeWhileD)
  have "?ds = take (length ?ds) (drop (Suc i) text)"
    using takeWhile_eq_take [of isdigit "take 6 (drop (Suc i) text)"] len by (metis min.absorb1 take_take)
  then have split: "drop (Suc i) text = ?ds @ rest" using rest by (metis append_take_drop_id)
  have stop: "rest = [] \<or> \<not> isdigit (hd rest)" using assms(2) by (auto simp: isdigit_def)
  have tw: "takeWhile isdigit (drop (Suc i) text) = ?ds" using digits stop by (subst split) (rule takeWhile_prefix [THEN conjunct1])
  have "fraction_loop (drop (Suc i) text) 0 1 = (int (digits_nat 0 ?ds), 10 ^ length ?ds)"
    using fraction_loop_tail [OF digits stop, of 0 0] len split by simp
  moreover have "(int (digits_nat 0 ?ds) * 1000000) div 10 ^ length ?ds = us"
  proof -
    have "(1000000 :: int) = 10 ^ (6 - length ?ds) * 10 ^ length ?ds" using len by (simp flip: power_add)
    then have "int (digits_nat 0 ?ds) * 1000000 = us * 10 ^ length ?ds" by (simp only: us mult.assoc)
    then show ?thesis by simp
  qed
  ultimately have "parse_fraction text i = (us, Suc i + length ?ds)"
    using i tw by (simp add: parse_fraction_def skip_while_def)
  moreover have "length (drop (Suc i) text) = length (?ds @ rest)" by (simp only: split [symmetric])
  then have "Suc i + length ?ds \<le> length text" using i(1) by simp
  moreover have "drop (Suc i + length ?ds) text = rest" by (simp only: rest drop_drop add.commute)
  ultimately show ?thesis by blast
next
  case False
  then have "\<not> (i < length text \<and> (text ! i = CHR ''.'' \<or> text ! i = CHR '',''))" by (auto simp: hd_drop_conv_nth)
  then show ?thesis using False assms by (auto simp: iso_fraction_def parse_fraction_def intro!: exI [of _ i])
qed

lemma iso_suffix_query:
  assumes "iso_suffix (drop i text) = Some us" "i \<le> length text"
  obtains c where "parse_fraction text i = (us, c)" "parse_zone text c = Some (0, length text)"
proof -
  obtain rest where rest: "iso_fraction (drop i text) = Some (us, rest)" "rest = [] \<or> rest = ''Z''"
    using assms(1) by (cases "iso_fraction (drop i text)") (auto simp: iso_suffix_def neq_Nil_conv split: if_splits)
  obtain c where c: "c \<le> length text" "parse_fraction text i = (us, c)" "drop c text = rest"
    using iso_fraction_query [OF rest assms(2)] by auto
  have "parse_zone text c = Some (0, length text)"
  proof (cases "rest = []")
    case True
    then show ?thesis using c by (simp add: parse_zone_def)
  next
    case False
    then have z: "drop c text = ''Z''" using c(3) rest(2) by simp
    then have len: "length text = Suc c" using length_drop [of c "text"] c(1) by simp
    then have "text ! c = CHR ''Z''" using z hd_drop_conv_nth [of c "text"] by simp
    with len show ?thesis by (simp add: parse_zone_def)
  qed
  then show thesis using c that by blast
qed

lemma days_from_fields_bound:
  assumes "0 \<le> y" "y \<le> 9999" "1 \<le> m" "m \<le> 12" "1 \<le> d" "d \<le> 31"
  shows "\<bar>days_from_fields y m d\<bar> < 5000000"
proof -
  define y' where "y' = y - (if m \<le> 2 then 1 else 0)"
  define era where "era = y' div 400"
  define yoe where "yoe = y' mod 400"
  define doy where "doy = (153 * (m + (if m > 2 then -3 else 9)) + 2) div 5 + (d - 1)"
  have era: "(if y' \<ge> 0 then y' else y' - 399) sdiv 400 = era" using floor_sdiv [of 400 y'] by (cases "0 \<le> y'") (simp_all add: era_def)
  have yoe: "y' - era * 400 = yoe" by (simp add: era_def yoe_def minus_div_mult_eq_mod)
  have "days_from_fields y m d = era * 146097 + (yoe * 365 + yoe div 4 - yoe div 100 + doy) - 719468"
    unfolding days_from_fields_def Let_def y'_def [symmetric] doy_def [symmetric] era yoe by simp
  moreover have "-1 \<le> y'" "y' \<le> 9999" using assms(1,2) by (auto simp: y'_def)
  then have "-1 \<le> era" "era \<le> 24" by (auto simp: era_def)
  moreover have "0 \<le> yoe" "yoe < 400" by (simp_all add: yoe_def)
  moreover have "0 \<le> doy" "doy \<le> 440" using assms(3-6) by (auto simp: doy_def)
  ultimately show ?thesis by (auto simp: abs_less_iff)
qed

lemma digits_nat_bound: "list_all isdigit ds \<Longrightarrow> digits_nat a ds < (a + 1) * 10 ^ length ds"
proof (induction ds arbitrary: a)
  case (Cons c ds)
  have "digits_nat (10 * a + digit_value c) ds < (10 * a + digit_value c + 1) * 10 ^ length ds" using Cons by simp
  also have "\<dots> \<le> (10 * (a + 1)) * 10 ^ length ds"
    using isdigit_digit_value [of c] Cons.prems by (intro mult_right_mono) auto
  finally show ?case by (simp add: algebra_simps)
qed simp

lemma readInt_bound: "readInt sv i w = Some v \<Longrightarrow> 0 \<le> v \<and> v < 10 ^ w"
  using digits_nat_bound [of "take w (drop i sv)" 0] by (auto simp: readInt_def Let_def split: if_splits)

lemma iso_fraction_bound: "iso_fraction r = Some (us, rest) \<Longrightarrow> 0 \<le> us \<and> us < 1000000"
proof (cases "r \<noteq> [] \<and> (hd r = CHR ''.'' \<or> hd r = CHR '','')")
  case True
  assume "iso_fraction r = Some (us, rest)"
  then obtain ds where ds: "ds = takeWhile isdigit (take 6 (tl r))" "us = int (digits_nat 0 ds) * 10 ^ (6 - length ds)"
    using True by (auto simp: iso_fraction_def Let_def split: if_splits)
  have "length ds \<le> 6" using length_takeWhile_le [of isdigit "take 6 (tl r)"] ds by simp
  then have ten: "(1000000 :: int) = 10 ^ length ds * 10 ^ (6 - length ds)" by (simp flip: power_add)
  have "digits_nat 0 ds < 10 ^ length ds" using digits_nat_bound [of ds 0] ds by (auto simp: list_all_iff dest: set_takeWhileD)
  then have "int (digits_nat 0 ds) < 10 ^ length ds" by (metis of_nat_less_iff of_nat_numeral of_nat_power)
  then show ?thesis unfolding ten ds(2) by simp
qed (auto simp: iso_fraction_def)

lemma TryParseIsoTimestamp_cases:
  assumes "TryParseIsoTimestamp dl sv sep = Some t"
  obtains year month day hour minute second us where
    "19 \<le> length sv" "readInt sv 0 4 = Some year" "readInt sv 5 2 = Some month" "readInt sv 8 2 = Some day"
    "readInt sv 11 2 = Some hour" "readInt sv 14 2 = Some minute" "readInt sv 17 2 = Some second"
    "sv ! 4 = CHR ''-''" "sv ! 7 = CHR ''-''" "sv ! 10 = sep" "sv ! 13 = CHR '':''" "sv ! 16 = CHR '':''"
    "iso_suffix (drop 19 sv) = Some us" "hour \<le> 23" "minute \<le> 59" "second \<le> 60" "ymd_ok dl year month day"
    "t = time_stamp dl year month day hour minute second us"
proof -
  have len: "19 \<le> length sv" using assms by (auto simp: TryParseIsoTimestamp_def split: if_splits)
  then have "ParseFixedDigits sv 4 = readInt sv 0 4" "ParseFixedDigits (drop 5 sv) 2 = readInt sv 5 2"
    "ParseFixedDigits (drop 8 sv) 2 = readInt sv 8 2" "ParseFixedDigits (drop 11 sv) 2 = readInt sv 11 2"
    "ParseFixedDigits (drop 14 sv) 2 = readInt sv 14 2" "ParseFixedDigits (drop 17 sv) 2 = readInt sv 17 2"
    using ParseFixedDigits_readInt [of 0 sv 4] by (simp_all add: ParseFixedDigits_readInt)
  then show thesis
    using assms len that unfolding TryParseIsoTimestamp_def by (auto split: option.splits if_splits)
qed

lemma column_time_is_query_time:
  assumes "gregorian dl" "sep = CHR ''T'' \<or> sep = CHR '' ''" "TryParseIsoTimestamp dl sv sep = Some t"
  shows "ParseIsoTimestamp sv = Some (sint t)"
proof -
  obtain year month day hour minute second us where f:
    "19 \<le> length sv" "readInt sv 0 4 = Some year" "readInt sv 5 2 = Some month" "readInt sv 8 2 = Some day"
    "readInt sv 11 2 = Some hour" "readInt sv 14 2 = Some minute" "readInt sv 17 2 = Some second"
    "sv ! 4 = CHR ''-''" "sv ! 7 = CHR ''-''" "sv ! 10 = sep" "sv ! 13 = CHR '':''" "sv ! 16 = CHR '':''"
    "iso_suffix (drop 19 sv) = Some us" "hour \<le> 23" "minute \<le> 59" "second \<le> 60" "ymd_ok dl year month day"
    "t = time_stamp dl year month day hour minute second us"
    using TryParseIsoTimestamp_cases [OF assms(3)] by metis
  note bounds = readInt_bound [OF f(2)] readInt_bound [OF f(5)] readInt_bound [OF f(6)] readInt_bound [OF f(7)]
  have year: "0 \<le> year" "year \<le> 9999" using bounds(1) by auto
  have date: "1 \<le> month" "month \<le> 12" "1 \<le> day" "day \<le> DaysInMonth year month"
      "sys_days dl year month day = days_from_fields year month day"
    using assms(1) year f(17) by (auto simp: gregorian_def)
  obtain c where c: "parse_fraction sv 19 = (us, c)" "parse_zone sv c = Some (0, length sv)"
    using iso_suffix_query [OF f(13,1)] by blast
  have "parse_time_of_day sv 11 = Some (hour, minute, second, us, 0, length sv)"
    using f(1,5,6,7,11,12,14,15,16) c by (simp add: parse_time_of_day_def)
  moreover have "StartsWithDigitYear sv" using f(1,2) by (auto simp: StartsWithDigitYear_def readInt_def Let_def split: if_splits)
  ultimately have query: "ParseIsoTimestamp sv =
      Some ((days_from_fields year month day * 86400 + hour * 3600 + minute * 60 + second) * 1000000 + us)"
    using f(1-4,8-10) assms(2) date by (auto simp: ParseIsoTimestamp_def)
  have "day \<le> 31"
    using date by (auto simp: DaysInMonth_def nth_Cons' split: if_splits)
  then have days: "\<bar>days_from_fields year month day\<bar> < 5000000" using date year by (intro days_from_fields_bound)
  have us: "0 \<le> us" "us < 1000000"
    using f(13) iso_fraction_bound by (auto simp: iso_suffix_def split: option.splits if_splits)
  let ?us = "days_from_fields year month day * 86400000000 + (hour * 3600 + minute * 60 + second) * 1000000 + us"
  have "- (2 ^ 63) \<le> ?us" "?us < 2 ^ 63" using days us f(14-16) bounds(2-4) by (auto simp: abs_less_iff)
  then have "sint (word_of_int ?us :: 64 word) = ?us"
    by (subst sint_sbintrunc') (simp only: len_num1 len_bit0 signed_take_bit_int_eq_self, simp add: signed_take_bit_int_eq_self)
  then have "sint t = ?us" by (simp only: f(18) time_stamp_def date(5))
  then show ?thesis by (simp add: query date(5) algebra_simps)
qed

end
