(* ===== verification/Batch_Coalescer.thy ===== *)
theory Batch_Coalescer
  imports Log_Line
begin

text \<open>
  \<open>library/src/batch_coalescer.cpp\<close> and the batches of \<open>library/include/loglib/log_parse_sink.hpp\<close>,
  which the live-tail loop and the file pipeline share.  The sink is the list of the batches it was
  given; a span is the pair of the first and the last line id of a record.
\<close>

section \<open>The coalescer\<close>

record StreamedBatch =
  bLines :: "LogLine list"
  bErrors :: "string list"
  bNewKeys :: "string list"
  bLocalLineOffsets :: "nat list"
  bMultiLineSpans :: "(nat \<times> nat) list"
  bFirstLineNumber :: nat

definition empty_batch :: StreamedBatch where
  "empty_batch = \<lparr>bLines = [], bErrors = [], bNewKeys = [], bLocalLineOffsets = [], bMultiLineSpans = [], bFirstLineNumber = 0\<rparr>"

record BatchCoalescer =
  coPending :: StreamedBatch
  coPrimed :: bool
  coPrevKeyCount :: nat
  coFlushLines :: nat
  coFlushInterval :: int
  coLastFlush :: int
  coSink :: "StreamedBatch list"
  coFinished :: "bool option"

definition new_BatchCoalescer :: "KeyIndex \<Rightarrow> nat \<Rightarrow> int \<Rightarrow> nat option \<Rightarrow> int \<Rightarrow> BatchCoalescer" where
  "new_BatchCoalescer ki flushLines flushInterval newKeyBaseline now =
     \<lparr>coPending = empty_batch, coPrimed = False,
      coPrevKeyCount = (case newKeyBaseline of None \<Rightarrow> Size_keys ki | Some n \<Rightarrow> n),
      coFlushLines = flushLines, coFlushInterval = flushInterval, coLastFlush = now, coSink = [], coFinished = None\<rparr>"

definition Prime :: "nat \<Rightarrow> BatchCoalescer \<Rightarrow> BatchCoalescer" where
  "Prime firstLineNumber co =
     (if \<not> coPrimed co
      then co\<lparr>coPending := (coPending co)\<lparr>bFirstLineNumber := firstLineNumber\<rparr>, coPrimed := True\<rparr>
      else co)"

definition key_name :: "KeyIndex \<Rightarrow> nat \<Rightarrow> string" where
  "key_name ki i = (case KeyOf (word_of_nat i) ki of Some k \<Rightarrow> k | None \<Rightarrow> [])"

definition DrainNewKeysInto :: "KeyIndex \<Rightarrow> nat \<Rightarrow> StreamedBatch \<Rightarrow> nat \<times> StreamedBatch" where
  "DrainNewKeysInto ki prevKeyCount out =
     (if Size_keys ki > prevKeyCount
      then (Size_keys ki, out\<lparr>bNewKeys := bNewKeys out @ map (key_name ki) [prevKeyCount..<Size_keys ki]\<rparr>)
      else (prevKeyCount, out))"

definition ship :: "KeyIndex \<Rightarrow> BatchCoalescer \<Rightarrow> BatchCoalescer" where
  "ship ki co =
     (case DrainNewKeysInto ki (coPrevKeyCount co) (coPending co) of (n, b) \<Rightarrow>
        co\<lparr>coPrevKeyCount := n, coSink := coSink co @ [b], coPending := empty_batch, coPrimed := False\<rparr>)"

definition TryFlush :: "bool \<Rightarrow> int \<Rightarrow> KeyIndex \<Rightarrow> BatchCoalescer \<Rightarrow> bool \<times> BatchCoalescer" where
  "TryFlush force now ki co =
     (let p = coPending co;
          sizeReached = length (bLines p) \<ge> coFlushLines co;
          intervalReached = now - coLastFlush co \<ge> coFlushInterval co;
          hasContent = (bLines p \<noteq> [] \<or> bErrors p \<noteq> [] \<or> Size_keys ki > coPrevKeyCount co)
      in if \<not> force \<and> \<not> sizeReached \<and> \<not> intervalReached then (False, co)
         else if \<not> force \<and> \<not> hasContent then (False, co\<lparr>coLastFlush := now\<rparr>)
         else (True, (ship ki co)\<lparr>coLastFlush := now\<rparr>))"

definition Finish :: "nat \<Rightarrow> bool \<Rightarrow> KeyIndex \<Rightarrow> BatchCoalescer \<Rightarrow> BatchCoalescer" where
  "Finish fallbackLineNumber wasCancelled ki co =
     (let co1 =
        (if coPrimed co \<or> Size_keys ki > coPrevKeyCount co \<or> bErrors (coPending co) \<noteq> [] \<or> bLocalLineOffsets (coPending co) \<noteq> []
         then ship ki (Prime fallbackLineNumber co)
         else (case DrainNewKeysInto ki (coPrevKeyCount co) (empty_batch\<lparr>bFirstLineNumber := fallbackLineNumber\<rparr>) of (n, tail) \<Rightarrow>
                 co\<lparr>coPrevKeyCount := n, coSink := coSink co @ [tail]\<rparr>))
      in co1\<lparr>coFinished := Some wasCancelled\<rparr>)"

definition add_error :: "string \<Rightarrow> BatchCoalescer \<Rightarrow> BatchCoalescer" where
  "add_error msg co = co\<lparr>coPending := (coPending co)\<lparr>bErrors := bErrors (coPending co) @ [msg]\<rparr>\<rparr>"

definition add_line :: "LogLine \<Rightarrow> BatchCoalescer \<Rightarrow> BatchCoalescer" where
  "add_line line co = co\<lparr>coPending := (coPending co)\<lparr>bLines := bLines (coPending co) @ [line]\<rparr>\<rparr>"

section \<open>What the batches add up to\<close>

definition delivered_lines :: "BatchCoalescer \<Rightarrow> LogLine list" where
  "delivered_lines co = concat (map bLines (coSink co)) @ bLines (coPending co)"

definition delivered_errors :: "BatchCoalescer \<Rightarrow> string list" where
  "delivered_errors co = concat (map bErrors (coSink co)) @ bErrors (coPending co)"

text \<open>The coalescer with all it was given in one pending batch, and nothing of its timing.\<close>

definition merged :: "BatchCoalescer \<Rightarrow> BatchCoalescer" where
  "merged co =
     \<lparr>coPending = \<lparr>bLines = delivered_lines co, bErrors = delivered_errors co, bNewKeys = [], bLocalLineOffsets = [], bMultiLineSpans = [], bFirstLineNumber = 0\<rparr>,
      coPrimed = False, coPrevKeyCount = 0, coFlushLines = 0, coFlushInterval = 0, coLastFlush = 0, coSink = [], coFinished = None\<rparr>"

lemmas merge_defs = merged_def delivered_lines_def delivered_errors_def

lemma merged_ship: "merged (ship ki co) = merged co"
  by (simp add: merge_defs ship_def DrainNewKeysInto_def empty_batch_def)

lemma merged_simps [simp]:
  "merged (merged co) = merged co"
  "merged (add_error m co) = add_error m (merged co)"
  "merged (add_line l co) = add_line l (merged co)"
  "merged (Prime n co) = merged co"
  "merged (snd (TryFlush force now ki co)) = merged co"
  "merged (Finish n cancelled ki co) = merged co"
proof -
  show prime: "merged (Prime n co) = merged co" by (simp add: merge_defs Prime_def)
  have "merged (co\<lparr>coLastFlush := now\<rparr>) = merged co" for co by (simp add: merge_defs)
  then show "merged (snd (TryFlush force now ki co)) = merged co" by (simp add: TryFlush_def Let_def merged_ship)
  have "merged (co\<lparr>coFinished := Some cancelled\<rparr>) = merged co" for co by (simp add: merge_defs)
  then show "merged (Finish n cancelled ki co) = merged co"
    using prime merged_ship [of ki "Prime n co"]
    by (auto simp: Finish_def Let_def DrainNewKeysInto_def empty_batch_def) (auto simp: merge_defs)
qed (simp_all add: merge_defs add_error_def add_line_def)

end
