(* ===== verification/Streaming_Loop.thy ===== *)
theory Streaming_Loop
  imports Time_Stamps Batch_Coalescer
begin

text \<open>
  \<open>library/include/loglib/internal/streaming_parse_loop.hpp\<close> (the live-tail loop, its pending
  record and its runs of orphaned continuation lines).

  The clock and the stop token are functions of
  the number of reads so far, so every sequence of answers is covered.  The producer is the list of
  its answers to \<open>Read\<close>.  Rows that the GUI evicts while the loop runs are not modelled.
\<close>

section \<open>Continuation lines\<close>

datatype ContinuationSpliceOutcome = SpliceOk | MissingTarget | NonStringTarget

text \<open>The value of the target with the continuation bytes behind it.\<close>

definition splice_value :: "string \<Rightarrow> string \<Rightarrow> string \<Rightarrow> CompactLogValue \<Rightarrow> ContinuationSpliceOutcome \<times> CompactLogValue \<times> string" where
  "splice_value continuationBytes mmapBytes ownedArena v =
     (case tag v of
        OwnedString \<Rightarrow>
          (let v' = v\<lparr>aux := word_of_nat (unat (aux v) + length continuationBytes)\<rparr>
           in if payload v + ucast (aux v) = word_of_nat (length ownedArena)
              then (SpliceOk, v', ownedArena @ continuationBytes)
              else (SpliceOk, v'\<lparr>payload := word_of_nat (length ownedArena)\<rparr>,
                    ownedArena @ take (unat (aux v)) (drop (unat (payload v)) ownedArena) @ continuationBytes))
      | Monostate \<Rightarrow>
          (let bytes = (if continuationBytes \<noteq> [] \<and> hd continuationBytes = NEWLINE then tl continuationBytes else continuationBytes)
           in (SpliceOk, \<lparr>payload = word_of_nat (length ownedArena), aux = word_of_nat (length bytes), tag = OwnedString\<rparr>,
               ownedArena @ bytes))
      | MmapSlice \<Rightarrow>
          (if mmapBytes = [] \<or> payload v + ucast (aux v) > word_of_nat (length mmapBytes) then (NonStringTarget, v, ownedArena)
           else (SpliceOk, \<lparr>payload = word_of_nat (length ownedArena), aux = word_of_nat (unat (aux v) + length continuationBytes), tag = OwnedString\<rparr>,
                 ownedArena @ take (unat (aux v)) (drop (unat (payload v)) mmapBytes) @ continuationBytes))
      | _ \<Rightarrow> (NonStringTarget, v, ownedArena))"

fun splice_fields :: "KeyId \<Rightarrow> string \<Rightarrow> string \<Rightarrow> string \<Rightarrow> field list \<Rightarrow> ContinuationSpliceOutcome \<times> field list \<times> string" where
  "splice_fields targetKey continuationBytes mmapBytes ownedArena [] = (MissingTarget, [], ownedArena)"
| "splice_fields targetKey continuationBytes mmapBytes ownedArena ((k, v) # kvs) =
     (if k \<noteq> targetKey then
        (case splice_fields targetKey continuationBytes mmapBytes ownedArena kvs of (r, kvs', arena) \<Rightarrow> (r, (k, v) # kvs', arena))
      else (case splice_value continuationBytes mmapBytes ownedArena v of (r, v', arena) \<Rightarrow> (r, (k, v') # kvs, arena)))"

definition ExtendContinuationTarget :: "field list \<Rightarrow> string \<Rightarrow> KeyId \<Rightarrow> string \<Rightarrow> string \<Rightarrow>
    ContinuationSpliceOutcome \<times> field list \<times> string" where
  "ExtendContinuationTarget values ownedArena targetKey continuationBytes mmapBytes =
     (if targetKey = INVALID_KEY_ID then (MissingTarget, values, ownedArena)
      else if continuationBytes = [] then (SpliceOk, values, ownedArena)
      else splice_fields targetKey continuationBytes mmapBytes ownedArena values)"

fun canAcceptContinuation :: "KeyId \<Rightarrow> field list \<Rightarrow> bool" where
  "canAcceptContinuation key [] = False"
| "canAcceptContinuation key ((k, v) # kvs) =
     (if key = INVALID_KEY_ID then False
      else if k \<noteq> key then canAcceptContinuation key kvs
      else tag v = OwnedString \<or> tag v = Monostate \<or> tag v = MmapSlice)"

section \<open>The loop\<close>

definition STREAMING_BATCH_FLUSH_LINES :: nat where "STREAMING_BATCH_FLUSH_LINES = 250"

definition STREAMING_BATCH_FLUSH_INTERVAL :: int where "STREAMING_BATCH_FLUSH_INTERVAL = 100"

definition STREAMING_PENDING_RECORD_MAX_AGE :: int where "STREAMING_PENDING_RECORD_MAX_AGE = 500"

record PendingRecord =
  prRawText :: string
  prOwnedArena :: string
  prValues :: "field list"
  prStartLineNumber :: nat
  prContinuationTarget :: KeyId
  prContinuationBytes :: string
  prRawTextAppendix :: string
  prPendingBlanks :: nat
  prOpenedAt :: int
  prAcceptsText :: bool
  prDroppedLines :: nat

type_synonym key_state = "KeyIndex \<times> PerWorkerKeyCache option"

record 'd decoder =
  decode :: "string \<Rightarrow> key_state \<Rightarrow> 'd \<Rightarrow> LineDecodeResult \<times> field list \<times> string \<times> key_state \<times> 'd"
  target :: "'d \<Rightarrow> KeyId"

record 'd env =
  eDecoder :: "'d decoder"
  eDates :: date_lib
  eTimeColumns :: "TimeColumnSpec list"
  eClock :: "nat \<Rightarrow> int"
  eStop :: "nat \<Rightarrow> bool"

record 'd loop =
  lNextLineNumber :: nat
  lCarry :: string
  lPending :: "PendingRecord option"
  lOrphanFirst :: nat
  lOrphanLast :: nat
  lDecoder :: 'd
  lKeys :: key_state
  lSource :: StreamLineSource
  lScratch :: "promote_state list"
  lCoalescer :: BatchCoalescer
  lClockReads :: nat
  lStopChecks :: nat

definition clock_now :: "'d env \<Rightarrow> 'd loop \<Rightarrow> int \<times> 'd loop" where
  "clock_now e st = (eClock e (lClockReads st), st\<lparr>lClockReads := Suc (lClockReads st)\<rparr>)"

definition stop_requested :: "'d env \<Rightarrow> 'd loop \<Rightarrow> bool \<times> 'd loop" where
  "stop_requested e st = (eStop e (lStopChecks st), st\<lparr>lStopChecks := Suc (lStopChecks st)\<rparr>)"

abbreviation loop_error :: "string \<Rightarrow> 'd loop \<Rightarrow> 'd loop" where
  "loop_error msg st \<equiv> st\<lparr>lCoalescer := add_error msg (lCoalescer st)\<rparr>"

definition orphan_message :: "nat \<Rightarrow> nat \<Rightarrow> string" where
  "orphan_message lo hi =
     (if lo = hi then ''Error on line '' @ show_nat lo @ '': Orphaned continuation line.''
      else ''Error on lines '' @ show_nat lo @ ''-'' @ show_nat hi @ '': '' @ show_nat (hi - lo + 1) @
           '' orphaned continuation lines dropped.'')"

definition flushOrphanRun :: "'d loop \<Rightarrow> 'd loop" where
  "flushOrphanRun st =
     (if lOrphanFirst st = 0 then st
      else (loop_error (orphan_message (lOrphanFirst st) (lOrphanLast st)) st)\<lparr>lOrphanFirst := 0, lOrphanLast := 0\<rparr>)"

definition splice_message :: "nat \<Rightarrow> ContinuationSpliceOutcome \<Rightarrow> string" where
  "splice_message line outcome =
     ''Continuation lines dropped on line '' @ show_nat line @ '': '' @
     (if outcome = MissingTarget then ''target field is not present in the record'' else ''target field is not a string'') @ ''.''"

definition dropped_message :: "nat \<Rightarrow> nat \<Rightarrow> string" where
  "dropped_message line n =
     ''Continuation lines dropped on line '' @ show_nat line @ '' ('' @ show_nat n @ '' line'' @ (if n = 1 then [] else ''s'') @
     ''): target field is not present in the record or is not a string.''"

text \<open>The record with its continuations: raw text, fields, arena, and the errors it reports.\<close>

definition seal_record :: "PendingRecord \<Rightarrow> string \<times> field list \<times> string \<times> string list" where
  "seal_record rec =
     (let dropped = (if prDroppedLines rec > 0 then [dropped_message (prStartLineNumber rec) (prDroppedLines rec)] else [])
      in if prContinuationBytes rec = [] then (prRawText rec, prValues rec, prOwnedArena rec, dropped)
         else case ExtendContinuationTarget (prValues rec) (prOwnedArena rec) (prContinuationTarget rec) (prContinuationBytes rec) [] of
           (outcome, values, arena) \<Rightarrow>
             if outcome = SpliceOk then (prRawText rec @ prRawTextAppendix rec, values, arena, dropped)
             else (prRawText rec, values, arena, splice_message (prStartLineNumber rec) outcome # dropped))"

definition PromoteTimestamps :: "'d env \<Rightarrow> LogLine \<Rightarrow> 'd loop \<Rightarrow> LogLine \<times> 'd loop" where
  "PromoteTimestamps e line st =
     (case PromoteLineTimestamps (eDates e) (Some \<lparr>impl = StreamSource (lSource st), mEnumDictionaries = None\<rparr>) []
             (eTimeColumns e) (lScratch st) line of
        (_, line', scratch) \<Rightarrow> (line', st\<lparr>lScratch := scratch\<rparr>))"

text \<open>The keys of a record are distinct, so \<open>std::sort\<close> has one result.\<close>

definition commitPending :: "'d env \<Rightarrow> 'd loop \<Rightarrow> 'd loop" where
  "commitPending e st =
     (case lPending st of
        None \<Rightarrow> st
      | Some rec \<Rightarrow>
          (case seal_record rec of (rawText, values, arena, errors) \<Rightarrow>
           case AppendLine rawText arena (lSource st) of (lineId, source) \<Rightarrow>
           case PromoteTimestamps e (LogLine_compact (sort_key fst values) lineId)
                  (fold loop_error errors (st\<lparr>lPending := None, lSource := source\<rparr>)) of (line, st1) \<Rightarrow>
             st1\<lparr>lCoalescer := add_line line (Prime (prStartLineNumber rec) (lCoalescer st1))\<rparr>))"

definition continue_record :: "string \<Rightarrow> PendingRecord \<Rightarrow> PendingRecord" where
  "continue_record trimmed rec =
     (if prAcceptsText rec then
        rec\<lparr>prContinuationBytes := prContinuationBytes rec @ NEWLINE # trimmed,
            prRawTextAppendix := prRawTextAppendix rec @ replicate (prPendingBlanks rec) NEWLINE @ NEWLINE # trimmed,
            prPendingBlanks := 0\<rparr>
      else rec\<lparr>prDroppedLines := Suc (prDroppedLines rec), prPendingBlanks := 0\<rparr>)"

definition open_record :: "'d env \<Rightarrow> string \<Rightarrow> string \<Rightarrow> field list \<Rightarrow> nat \<Rightarrow> 'd loop \<Rightarrow> 'd loop" where
  "open_record e trimmed arena values lineNumber st =
     (case clock_now e st of (now, st1) \<Rightarrow>
        st1\<lparr>lPending := Some
          \<lparr>prRawText = trimmed, prOwnedArena = arena, prValues = values, prStartLineNumber = lineNumber,
           prContinuationTarget = target (eDecoder e) (lDecoder st), prContinuationBytes = [], prRawTextAppendix = [],
           prPendingBlanks = 0, prOpenedAt = now,
           prAcceptsText = canAcceptContinuation (target (eDecoder e) (lDecoder st)) values, prDroppedLines = 0\<rparr>\<rparr>)"

definition process_blank :: "'d loop \<Rightarrow> 'd loop" where
  "process_blank st =
     (let st1 = flushOrphanRun st
      in case lPending st1 of
           Some rec \<Rightarrow> if prAcceptsText rec then st1\<lparr>lPending := Some (rec\<lparr>prPendingBlanks := Suc (prPendingBlanks rec)\<rparr>)\<rparr> else st1
         | None \<Rightarrow> st1)"

definition process_continue :: "string \<Rightarrow> nat \<Rightarrow> 'd loop \<Rightarrow> 'd loop" where
  "process_continue trimmed lineNumber st =
     (case lPending st of
        Some rec \<Rightarrow> (flushOrphanRun st)\<lparr>lPending := Some (continue_record trimmed rec)\<rparr>
      | None \<Rightarrow> st\<lparr>lOrphanFirst := (if lOrphanFirst st = 0 then lineNumber else lOrphanFirst st), lOrphanLast := lineNumber\<rparr>)"

definition process_result :: "'d env \<Rightarrow> string \<Rightarrow> nat \<Rightarrow> LineDecodeResult \<Rightarrow> field list \<Rightarrow> string \<Rightarrow> 'd loop \<Rightarrow> 'd loop" where
  "process_result e trimmed lineNumber result values arena st =
     (case result of
        LdError lineError \<Rightarrow> loop_error (''Error on line '' @ show_nat lineNumber @ '': '' @ lineError) (flushOrphanRun st)
      | LdSkip \<Rightarrow> flushOrphanRun st
      | LdContinue \<Rightarrow> process_continue trimmed lineNumber st
      | LdEmit \<Rightarrow> open_record e trimmed arena values lineNumber (commitPending e (flushOrphanRun st)))"

definition processLine :: "'d env \<Rightarrow> string \<Rightarrow> 'd loop \<Rightarrow> 'd loop" where
  "processLine e line st0 =
     (let trimmed = strip_return line; lineNumber = lNextLineNumber st0; st = st0\<lparr>lNextLineNumber := Suc lineNumber\<rparr> in
      if trimmed = [] then process_blank st
      else case decode (eDecoder e) trimmed (lKeys st) (lDecoder st) of (result, values, arena, ks, d) \<Rightarrow>
        process_result e trimmed lineNumber result values arena (st\<lparr>lKeys := ks, lDecoder := d\<rparr>))"

text \<open>The scan of the carry: whole lines, until the stop token is set.\<close>

abbreviation to_newline :: "string \<Rightarrow> string" where
  "to_newline \<equiv> takeWhile (\<lambda>c. c \<noteq> NEWLINE)"

function scan_lines :: "'d env \<Rightarrow> string \<Rightarrow> 'd loop \<Rightarrow> string \<times> 'd loop" where
  "scan_lines e carry st =
     (if NEWLINE \<notin> set carry then (carry, st)
      else let rest = drop (Suc (length (to_newline carry))) carry
      in case stop_requested e (processLine e (to_newline carry) st) of (stop, st1) \<Rightarrow>
           if stop then (rest, st1) else scan_lines e rest st1)"
  by pat_completeness auto
termination by (relation "measure (\<lambda>(e, carry, st). length carry)") (auto intro!: diff_less dest: length_pos_if_in_set)

declare scan_lines.simps [simp del]

definition scanCarry :: "'d env \<Rightarrow> 'd loop \<Rightarrow> 'd loop" where
  "scanCarry e st = (case scan_lines e (lCarry st) st of (carry, st1) \<Rightarrow> st1\<lparr>lCarry := carry\<rparr>)"

definition tick :: "'d env \<Rightarrow> 'd loop \<Rightarrow> 'd loop" where
  "tick e st = (case clock_now e st of (now, st1) \<Rightarrow>
     st1\<lparr>lCoalescer := snd (TryFlush False now (fst (lKeys st1)) (lCoalescer st1))\<rparr>)"

text \<open>
  The answers of the producer: bytes, nothing yet, or (the end of the list) closed.  The wait of
  the quiet branch has no effect on the state.
\<close>

datatype answer = Bytes string | Quiet

definition commit_aged :: "'d env \<Rightarrow> 'd loop \<Rightarrow> 'd loop" where
  "commit_aged e st =
     (case lPending st of
        None \<Rightarrow> st
      | Some rec \<Rightarrow>
          (case clock_now e st of (now, st1) \<Rightarrow>
             if now - prOpenedAt rec \<ge> STREAMING_PENDING_RECORD_MAX_AGE then commitPending e st1 else st1))"

fun read_loop :: "'d env \<Rightarrow> answer list \<Rightarrow> 'd loop \<Rightarrow> 'd loop" where
  "read_loop e [] st =
     (case stop_requested e st of (stop, st1) \<Rightarrow> if stop then st1 else tick e (scanCarry e st1))"
| "read_loop e (Bytes bytes # answers) st =
     (case stop_requested e st of (stop, st1) \<Rightarrow>
        if stop then st1
        else read_loop e answers (tick e (scanCarry e (st1\<lparr>lCarry := lCarry st1 @ bytes\<rparr>))))"
| "read_loop e (Quiet # answers) st =
     (case stop_requested e st of (stop, st1) \<Rightarrow>
        if stop then st1 else read_loop e answers (tick e (commit_aged e st1)))"

definition scan_initial :: "'d env \<Rightarrow> 'd loop \<Rightarrow> 'd loop" where
  "scan_initial e st =
     (if lCarry st = [] then st
      else case stop_requested e st of (stop, st1) \<Rightarrow> if stop then st1 else tick e (scanCarry e st1))"

definition scan_rest :: "'d env \<Rightarrow> 'd loop \<Rightarrow> 'd loop" where
  "scan_rest e st =
     (if lCarry st = [] then st
      else case stop_requested e st of (stop, st1) \<Rightarrow>
        if stop then st1 else (processLine e (lCarry st1) st1)\<lparr>lCarry := []\<rparr>)"

definition close_loop :: "'d env \<Rightarrow> 'd loop \<Rightarrow> 'd loop" where
  "close_loop e st =
     (case stop_requested e (commitPending e (flushOrphanRun st)) of (stop, st1) \<Rightarrow>
        st1\<lparr>lCoalescer := Finish (lNextLineNumber st1) stop (fst (lKeys st1)) (lCoalescer st1)\<rparr>)"

definition start_loop :: "'d env \<Rightarrow> 'd \<Rightarrow> key_state \<Rightarrow> nat option \<Rightarrow> string \<Rightarrow> StreamLineSource \<Rightarrow> 'd loop" where
  "start_loop e d ks newKeyBaseline initialCarry source =
     \<lparr>lNextLineNumber = 1, lCarry = initialCarry, lPending = None, lOrphanFirst = 0, lOrphanLast = 0, lDecoder = d,
      lKeys = ks, lSource = source, lScratch = fresh_scratch (length (eTimeColumns e)),
      lCoalescer = new_BatchCoalescer (fst ks) STREAMING_BATCH_FLUSH_LINES STREAMING_BATCH_FLUSH_INTERVAL newKeyBaseline (eClock e 0),
      lClockReads = 1, lStopChecks = 0\<rparr>"

text \<open>
  The coalescer is made before the time columns intern their keys, so a key of a time column is a
  new key of the first batch.  The key cache of the scratch starts empty.
\<close>

definition RunStreamingParseLoop :: "externals \<Rightarrow> 'd decoder \<Rightarrow> date_lib \<Rightarrow> (nat \<Rightarrow> int) \<Rightarrow> (nat \<Rightarrow> bool) \<Rightarrow> Column list \<Rightarrow> 'd \<Rightarrow> KeyIndex \<Rightarrow>
    nat option \<Rightarrow> string \<Rightarrow> answer list option \<Rightarrow> StreamLineSource \<Rightarrow> 'd loop" where
  "RunStreamingParseLoop ex dec dl clock stop columns d ki newKeyBaseline initialCarry producer source =
     (case producer of
        None \<Rightarrow>
          (let st = start_loop \<lparr>eDecoder = dec, eDates = dl, eTimeColumns = [], eClock = clock, eStop = stop\<rparr> d (ki, Some Map.empty)
                      newKeyBaseline initialCarry source
           in st\<lparr>lCoalescer := Finish 1 False ki (lCoalescer st)\<rparr>)
      | Some answers \<Rightarrow>
          (case BuildTimeColumnSpecs ex columns ki of (specs, ki') \<Rightarrow>
             let e = \<lparr>eDecoder = dec, eDates = dl, eTimeColumns = specs, eClock = clock, eStop = stop\<rparr>;
                 n = (case newKeyBaseline of None \<Rightarrow> Some (Size_keys ki) | Some n \<Rightarrow> Some n);
                 st = start_loop e d (ki', Some Map.empty) n initialCarry source
             in close_loop e (scan_rest e (read_loop e answers (scan_initial e st)))))"

section \<open>The decoders\<close>

definition csv_decoder :: "bool \<Rightarrow> externals \<Rightarrow> CsvLineDecoder decoder" where
  "csv_decoder hasFromChars ex =
     \<lparr>decode = \<lambda>line (ki, cache) d.
        (case csv_DecodeCompact hasFromChars ex line ki d of (r, fs, arena, ki', d') \<Rightarrow> (r, fs, arena, (ki', cache), d')),
      target = \<lambda>d. INVALID_KEY_ID\<rparr>"

definition logfmt_decoder :: "bool \<Rightarrow> externals \<Rightarrow> LogfmtLineDecoder decoder" where
  "logfmt_decoder hasFromChars ex =
     \<lparr>decode = \<lambda>line (ki, cache) d. logfmt_DecodeCompact hasFromChars ex line ki cache d, target = mLastContinuationTarget\<rparr>"

end
