(* ===== verification/Streaming_Correct.thy ===== *)
theory Streaming_Correct
  imports Streaming_Loop
begin

text \<open>
  How the producer cuts the bytes into reads, and when the loop looks at the clock, has no effect
  on the lines and errors that the sink is given.
\<close>

section \<open>States up to their timing\<close>

definition erased :: "'d loop \<Rightarrow> 'd loop" where
  "erased st = st\<lparr>lCarry := [], lPending := map_option (prOpenedAt_update (\<lambda>_. 0)) (lPending st),
     lCoalescer := merged (lCoalescer st), lClockReads := 0, lStopChecks := 0\<rparr>"

lemma erased_sel [simp]:
  "lNextLineNumber (erased st) = lNextLineNumber st" "lOrphanFirst (erased st) = lOrphanFirst st"
  "lOrphanLast (erased st) = lOrphanLast st" "lDecoder (erased st) = lDecoder st" "lKeys (erased st) = lKeys st"
  "lSource (erased st) = lSource st" "lScratch (erased st) = lScratch st"
  "lPending (erased st) = map_option (prOpenedAt_update (\<lambda>_. 0)) (lPending st)"
  "lCoalescer (erased st) = merged (lCoalescer st)" "lCarry (erased st) = []"
  by (simp_all add: erased_def)

lemma erased_eqI:
  "lNextLineNumber s = lNextLineNumber t \<Longrightarrow> lOrphanFirst s = lOrphanFirst t \<Longrightarrow> lOrphanLast s = lOrphanLast t \<Longrightarrow>
    lDecoder s = lDecoder t \<Longrightarrow> lKeys s = lKeys t \<Longrightarrow> lSource s = lSource t \<Longrightarrow> lScratch s = lScratch t \<Longrightarrow>
    map_option (prOpenedAt_update (\<lambda>_. 0)) (lPending s) = map_option (prOpenedAt_update (\<lambda>_. 0)) (lPending t) \<Longrightarrow>
    merged (lCoalescer s) = merged (lCoalescer t) \<Longrightarrow> erased s = erased (t :: 'd loop)"
  by (simp add: erased_def)

lemma erased_iff:
  "erased s = erased t \<longleftrightarrow>
    lNextLineNumber s = lNextLineNumber t \<and> lOrphanFirst s = lOrphanFirst t \<and> lOrphanLast s = lOrphanLast t \<and>
    lDecoder s = lDecoder t \<and> lKeys s = lKeys t \<and> lSource s = lSource t \<and> lScratch s = lScratch t \<and>
    map_option (prOpenedAt_update (\<lambda>_. 0)) (lPending s) = map_option (prOpenedAt_update (\<lambda>_. 0)) (lPending t) \<and>
    merged (lCoalescer s) = merged (lCoalescer (t :: 'd loop))"
  using erased_eqI [of s t] by (metis erased_sel)

section \<open>The steps do not look at what is erased\<close>

lemma seal_erased: "seal_record (prOpenedAt_update f rec) = seal_record rec"
  by (auto simp: seal_record_def Let_def split: prod.split)

lemma erased_errors: "erased s = erased t \<Longrightarrow> erased (fold loop_error ms s) = erased (fold loop_error ms t)"
  by (induction ms arbitrary: s t) (auto simp: erased_iff)

lemma erased_flushOrphanRun: "erased s = erased t \<Longrightarrow> erased (flushOrphanRun s) = erased (flushOrphanRun t)"
  by (auto simp: flushOrphanRun_def erased_iff)

lemma errors_sel [simp]:
  "lSource (fold loop_error ms st) = lSource st" "lScratch (fold loop_error ms st) = lScratch st"
  "lPending (fold loop_error ms st) = lPending st" "lOrphanFirst (fold loop_error ms st) = lOrphanFirst st"
  "lOrphanLast (fold loop_error ms st) = lOrphanLast st" "lDecoder (fold loop_error ms st) = lDecoder st"
  "lKeys (fold loop_error ms st) = lKeys st" "lNextLineNumber (fold loop_error ms st) = lNextLineNumber st"
  "lCoalescer (fold loop_error ms st) = fold add_error ms (lCoalescer st)"
  by (induction ms arbitrary: st) simp_all

lemma merged_errors [simp]: "merged (fold add_error ms co) = fold add_error ms (merged co)"
  by (induction ms arbitrary: co) simp_all

lemma erased_commitPending:
  assumes "erased s = erased t"
  shows "erased (commitPending e s) = erased (commitPending e t)"
proof (cases "lPending s")
  case None
  then show ?thesis using assms by (auto simp: commitPending_def erased_iff)
next
  case (Some r)
  then obtain r' where r': "lPending t = Some r'" "prOpenedAt_update (\<lambda>_. 0) r = prOpenedAt_update (\<lambda>_. 0) r'"
    using assms Some by (cases "lPending t") (auto simp: erased_iff)
  have "seal_record r = seal_record r'" using seal_erased [of "\<lambda>_. 0"] r'(2) by metis
  moreover have "prStartLineNumber r = prStartLineNumber r'" using arg_cong [OF r'(2), of prStartLineNumber] by simp
  ultimately show ?thesis
    using assms Some r'(1) by (auto simp: commitPending_def PromoteTimestamps_def erased_iff split: prod.splits)
qed

lemma erased_record:
  "a\<lparr>prOpenedAt := (0 :: int)\<rparr> = b\<lparr>prOpenedAt := 0\<rparr> \<longleftrightarrow>
    prRawText a = prRawText b \<and> prOwnedArena a = prOwnedArena b \<and> prValues a = prValues b \<and>
    prStartLineNumber a = prStartLineNumber b \<and> prContinuationTarget a = prContinuationTarget b \<and>
    prContinuationBytes a = prContinuationBytes b \<and> prRawTextAppendix a = prRawTextAppendix b \<and>
    prPendingBlanks a = prPendingBlanks b \<and> prAcceptsText a = prAcceptsText b \<and> prDroppedLines a = prDroppedLines (b :: PendingRecord)"
  by (cases a; cases b) auto

lemma erased_process_blank:
  assumes "erased s = erased t"
  shows "erased (process_blank s) = erased (process_blank t)"
  using erased_flushOrphanRun [OF assms]
  by (cases "lPending (flushOrphanRun s)"; cases "lPending (flushOrphanRun t)")
     (auto simp: process_blank_def Let_def erased_iff erased_record)

lemma erased_process_continue:
  assumes "erased s = erased t"
  shows "erased (process_continue trimmed n s) = erased (process_continue trimmed n t)"
  using erased_flushOrphanRun [OF assms] assms
  by (cases "lPending s"; cases "lPending t")
     (auto simp: process_continue_def continue_record_def erased_iff erased_record)

lemma erased_open_record:
  "erased s = erased t \<Longrightarrow> erased (open_record e trimmed arena values n s) = erased (open_record e trimmed arena values n t)"
  by (auto simp: open_record_def clock_now_def erased_iff)

lemma erased_set:
  "erased s = erased t \<Longrightarrow> erased (s\<lparr>lNextLineNumber := n\<rparr>) = erased (t\<lparr>lNextLineNumber := n\<rparr>)"
  "erased s = erased t \<Longrightarrow> erased (s\<lparr>lKeys := ks, lDecoder := d\<rparr>) = erased (t\<lparr>lKeys := ks, lDecoder := d\<rparr>)"
  "erased s = erased t \<Longrightarrow> erased (loop_error m s) = erased (loop_error m t)"
  "erased (s\<lparr>lCarry := c\<rparr>) = erased s" "erased (s\<lparr>lStopChecks := k\<rparr>) = erased s" "erased (s\<lparr>lClockReads := k\<rparr>) = erased s"
  by (auto simp: erased_iff)

lemma erased_process_result:
  assumes "erased s = erased t"
  shows "erased (process_result e trimmed n result values arena s) = erased (process_result e trimmed n result values arena t)"
  unfolding process_result_def
  by (cases result; simp only: LineDecodeResult.case)
     (intro erased_process_continue erased_flushOrphanRun erased_commitPending erased_open_record erased_set(3) assms)+

lemma erased_processLine:
  assumes "erased s = erased t"
  shows "erased (processLine e line s) = erased (processLine e line t)"
proof -
  have sel: "lNextLineNumber s = lNextLineNumber t" "lKeys s = lKeys t" "lDecoder s = lDecoder t"
    using assms by (simp_all add: erased_iff)
  obtain result vals arena ks d where r: "decode (eDecoder e) (strip_return line) (lKeys t) (lDecoder t) = (result, vals, arena, ks, d)"
    by (cases "decode (eDecoder e) (strip_return line) (lKeys t) (lDecoder t)") auto
  note next_line = erased_set(1) [OF assms, of "Suc (lNextLineNumber t)"]
  show ?thesis
    using erased_process_blank [OF next_line] erased_process_result [OF erased_set(2) [OF next_line]]
    by (simp add: processLine_def Let_def sel r)
qed

section \<open>Scanning\<close>

abbreviation checked :: "'d loop \<Rightarrow> 'd loop" where
  "checked st \<equiv> st\<lparr>lStopChecks := Suc (lStopChecks st)\<rparr>"

lemma scan_line:
  assumes "NEWLINE \<notin> set line" "eStop e = (\<lambda>_. False)"
  shows "scan_lines e (line @ NEWLINE # rest) st = scan_lines e rest (checked (processLine e line st))"
proof -
  have "to_newline (line @ NEWLINE # rest) = line" using assms(1) by (induction line) auto
  moreover have "drop (Suc (length line)) (line @ NEWLINE # rest) = rest" by simp
  ultimately show ?thesis
    using assms(2) by (simp only: scan_lines.simps [of e "line @ NEWLINE # rest"]) (simp add: stop_requested_def)
qed

lemma scan_none: "NEWLINE \<notin> set carry \<Longrightarrow> scan_lines e carry st = (carry, st)"
  by (simp add: scan_lines.simps [of e carry])

lemma scan_induct [consumes 0, case_names none line]:
  assumes "\<And>carry st. NEWLINE \<notin> set carry \<Longrightarrow> P carry st"
    and "\<And>line rest st. NEWLINE \<notin> set line \<Longrightarrow> P rest (checked (processLine e line st)) \<Longrightarrow> P (line @ NEWLINE # rest) st"
  shows "P carry (st :: 'd loop)"
proof (induction "length carry" arbitrary: carry st rule: less_induct)
  case less
  show ?case
  proof (cases "NEWLINE \<in> set carry")
    case True
    then obtain line rest where c: "carry = line @ NEWLINE # rest" "NEWLINE \<notin> set line" using split_list_first [OF True] by blast
    then show ?thesis using assms(2) [OF c(2)] less by simp
  qed (rule assms(1))
qed

lemma scan_append:
  assumes "eStop e = (\<lambda>_. False)"
  shows "scan_lines e (c @ b) st = (case scan_lines e c st of (r, st1) \<Rightarrow> scan_lines e (r @ b) st1)"
proof (induction c st rule: scan_induct [of _ e])
  case (line line rest st)
  then show ?case using scan_line [OF line(1) assms] by simp
qed (simp add: scan_none)

lemma erased_scan:
  assumes "eStop e = (\<lambda>_. False)"
  shows "erased s = erased t \<Longrightarrow> fst (scan_lines e c s) = fst (scan_lines e c t) \<and>
    erased (snd (scan_lines e c s)) = erased (snd (scan_lines e c t))"
proof (induction c s arbitrary: t rule: scan_induct [of _ e])
  case (line line rest s)
  have "erased (checked (processLine e line s)) = erased (checked (processLine e line t))"
    using erased_processLine [OF line(3)] by (simp add: erased_set(5))
  from line(2) [OF this] show ?case by (simp add: scan_line [OF line(1) assms])
qed (simp add: scan_none)

text \<open>Two states that agree on the bytes of the unfinished line and on all but the timing.\<close>

definition alike :: "'d loop \<Rightarrow> 'd loop \<Rightarrow> bool" where
  "alike s t \<longleftrightarrow> lCarry s = lCarry t \<and> erased s = erased t"

definition scanned :: "'d env \<Rightarrow> string \<Rightarrow> 'd loop \<Rightarrow> 'd loop" where
  "scanned e bytes st = (case scan_lines e (lCarry st @ bytes) st of (carry, st1) \<Rightarrow> st1\<lparr>lCarry := carry\<rparr>)"

lemma alike_trans [trans]: "alike s t \<Longrightarrow> alike t u \<Longrightarrow> alike s u"
  by (simp add: alike_def)

lemma alike_sym: "alike s t \<Longrightarrow> alike t s"
  by (simp add: alike_def)

lemma alike_scanned:
  assumes "eStop e = (\<lambda>_. False)" "alike s t"
  shows "alike (scanned e bytes s) (scanned e bytes t)"
  using erased_scan [OF assms(1), of s t "lCarry t @ bytes"] assms(2)
  by (auto simp: alike_def scanned_def erased_set(4) split: prod.splits)

lemma scanned_scanned:
  assumes "eStop e = (\<lambda>_. False)"
  shows "alike (scanned e b2 (scanned e b1 st)) (scanned e (b1 @ b2) st)"
proof -
  obtain r st1 where one: "scan_lines e (lCarry st @ b1) st = (r, st1)" by (cases "scan_lines e (lCarry st @ b1) st")
  have "scan_lines e (lCarry st @ b1 @ b2) st = scan_lines e (r @ b2) st1"
    using scan_append [OF assms, of "lCarry st @ b1" b2 st] by (simp add: one)
  then show ?thesis
    using erased_scan [OF assms erased_set(4) [of r st1], of "r @ b2"] one
    by (auto simp: alike_def scanned_def erased_set(4) split: prod.splits)
qed

lemma alike_tick: "alike (tick e st) st"
  by (simp add: alike_def tick_def clock_now_def erased_iff)

lemma alike_checked: "alike (checked st) st"
  by (simp add: alike_def erased_set)

lemma scanCarry_scanned:
  assumes "eStop e = (\<lambda>_. False)"
  shows "alike (scanCarry e st) (scanned e [] st)" "alike (scanCarry e (st\<lparr>lCarry := lCarry st @ bytes\<rparr>)) (scanned e bytes st)"
  using erased_scan [OF assms erased_set(4) [of "lCarry st @ bytes" st], of "lCarry st @ bytes"]
  by (auto simp: alike_def scanCarry_def scanned_def erased_set(4) split: prod.splits)

lemma read_loop_scanned:
  assumes never: "eStop e = (\<lambda>_. False)"
  shows "alike (read_loop e (map Bytes bs) st) (scanned e (concat bs) st)"
proof (induction bs arbitrary: st)
  case Nil
  have "alike (read_loop e [] st) (scanCarry e (checked st))"
    using never alike_tick by (simp add: stop_requested_def)
  also have "alike \<dots> (scanned e [] (checked st))" by (rule scanCarry_scanned [OF never])
  also have "alike \<dots> (scanned e [] st)" by (rule alike_scanned [OF never alike_checked])
  finally show ?case by simp
next
  case (Cons b bs)
  let ?c = "checked st"
  let ?one = "tick e (scanCarry e (?c\<lparr>lCarry := lCarry ?c @ b\<rparr>))"
  have "read_loop e (map Bytes (b # bs)) st = read_loop e (map Bytes bs) ?one"
    using never by (simp add: stop_requested_def)
  also have "alike \<dots> (scanned e (concat bs) ?one)" by (rule Cons.IH)
  also have "alike \<dots> (scanned e (concat bs) (scanned e b st))"
  proof (rule alike_scanned [OF never])
    have "alike ?one (scanned e b ?c)" by (rule alike_trans [OF alike_tick scanCarry_scanned(2) [OF never]])
    also have "alike \<dots> (scanned e b st)" by (rule alike_scanned [OF never alike_checked])
    finally show "alike ?one (scanned e b st)" .
  qed
  also have "alike \<dots> (scanned e (concat (b # bs)) st)" using scanned_scanned [OF never] by simp
  finally show ?case .
qed

lemma scan_initial_scanned:
  assumes "eStop e = (\<lambda>_. False)"
  shows "alike (scan_initial e st) (scanned e [] st)"
proof (cases "lCarry st = []")
  case True
  then show ?thesis by (simp add: scan_initial_def scanned_def scan_none alike_def erased_set)
next
  case False
  have "alike (tick e (scanCarry e (checked st))) (scanned e [] (checked st))"
    by (rule alike_trans [OF alike_tick scanCarry_scanned(1) [OF assms]])
  also have "alike \<dots> (scanned e [] st)" by (rule alike_scanned [OF assms alike_checked])
  finally show ?thesis using False assms by (simp add: scan_initial_def stop_requested_def)
qed

text \<open>What a run leaves behind.\<close>

definition outcome :: "'d loop \<Rightarrow> LogLine list \<times> string list \<times> StreamLineSource \<times> key_state" where
  "outcome st = (delivered_lines (lCoalescer st), delivered_errors (lCoalescer st), lSource st, lKeys st)"

lemma erased_outcome: "erased s = erased t \<Longrightarrow> outcome s = outcome t"
  by (auto simp: outcome_def erased_iff merged_def)

text \<open>The clock itself.\<close>

lemma promote_clock: "PromoteTimestamps (e\<lparr>eClock := k\<rparr>) = PromoteTimestamps e"
  by (simp add: PromoteTimestamps_def fun_eq_iff)

lemma commit_clock: "commitPending (e\<lparr>eClock := k\<rparr>) = commitPending e"
  by (rule ext) (unfold commitPending_def promote_clock, rule refl)

lemma erased_processLine_clock: "erased (processLine (e\<lparr>eClock := k\<rparr>) line st) = erased (processLine e line st)"
proof -
  have "erased (open_record (e\<lparr>eClock := k\<rparr>) trimmed arena vals n st) = erased (open_record e trimmed arena vals n st)" for trimmed arena vals n st
    by (simp add: open_record_def clock_now_def erased_iff)
  then have "erased (process_result (e\<lparr>eClock := k\<rparr>) trimmed n result vals arena st) = erased (process_result e trimmed n result vals arena st)" for trimmed n result vals arena st
    by (cases result) (simp_all add: process_result_def commit_clock)
  then show ?thesis by (simp add: processLine_def Let_def split: prod.split)
qed

lemma erased_scan_clock:
  assumes "eStop e = (\<lambda>_. False)"
  shows "fst (scan_lines (e\<lparr>eClock := k\<rparr>) c st) = fst (scan_lines e c st) \<and>
    erased (snd (scan_lines (e\<lparr>eClock := k\<rparr>) c st)) = erased (snd (scan_lines e c st))"
proof (induction c st rule: scan_induct [of _ e])
  case (line line rest st)
  let ?e = "e\<lparr>eClock := k\<rparr>"
  have never: "eStop ?e = (\<lambda>_. False)" using assms by simp
  have "erased (checked (processLine ?e line st)) = erased (checked (processLine e line st))"
    using erased_processLine_clock [of k e] by (simp add: erased_set(5))
  from erased_scan [OF never this, of rest] line(2) show ?case
    by (simp add: scan_line [OF line(1) assms] scan_line [OF line(1) never])
qed (simp add: scan_none)

lemma alike_scanned_clock:
  assumes "eStop e = (\<lambda>_. False)"
  shows "alike (scanned (e\<lparr>eClock := k\<rparr>) bytes st) (scanned e bytes st)"
  using erased_scan_clock [OF assms, of k "lCarry st @ bytes" st]
  by (auto simp: alike_def scanned_def erased_set(4) split: prod.splits)

section \<open>Runs\<close>

definition last_line :: "'d env \<Rightarrow> 'd loop \<Rightarrow> 'd loop" where
  "last_line e st = (if lCarry st = [] then st else processLine e (lCarry st) st)"

lemma erased_last_line: "alike s t \<Longrightarrow> erased (last_line e s) = erased (last_line e t)"
  using erased_processLine [of s t e "lCarry t"] by (simp add: alike_def last_line_def)

lemma erased_rest:
  assumes "eStop e = (\<lambda>_. False)"
  shows "erased (scan_rest e st) = erased (last_line e st)"
  using assms erased_processLine [OF erased_set(5) [of "Suc (lStopChecks st)" st]]
  by (simp add: scan_rest_def last_line_def stop_requested_def erased_set(4))

lemma close_outcome:
  assumes "erased s = erased t"
  shows "outcome (close_loop e s) = outcome (commitPending e (flushOrphanRun t))"
proof -
  have "erased (commitPending e (flushOrphanRun s)) = erased (commitPending e (flushOrphanRun t))"
    by (rule erased_commitPending [OF erased_flushOrphanRun [OF assms]])
  then have "erased (close_loop e s) = erased (commitPending e (flushOrphanRun t))"
    by (auto simp: close_loop_def stop_requested_def erased_iff)
  then show ?thesis by (rule erased_outcome)
qed

definition whole_input :: "'d env \<Rightarrow> string \<Rightarrow> 'd loop \<Rightarrow> 'd loop" where
  "whole_input e bytes st = commitPending e (flushOrphanRun (last_line e (scanned e bytes st)))"

lemma run_outcome:
  assumes never: "eStop e = (\<lambda>_. False)"
  shows "outcome (close_loop e (scan_rest e (read_loop e (map Bytes bs) (scan_initial e st)))) =
    outcome (whole_input (e\<lparr>eClock := \<lambda>_. 0\<rparr>) (concat bs) st)"
proof -
  let ?e = "e\<lparr>eClock := \<lambda>_. 0\<rparr>"
  have "alike (read_loop e (map Bytes bs) (scan_initial e st)) (scanned e (concat bs) (scan_initial e st))"
    by (rule read_loop_scanned [OF never])
  also have "alike \<dots> (scanned e (concat bs) (scanned e [] st))"
    by (rule alike_scanned [OF never scan_initial_scanned [OF never]])
  also have "alike \<dots> (scanned e (concat bs) st)" using scanned_scanned [OF never, of "concat bs" "[]"] by simp
  also have "alike \<dots> (scanned ?e (concat bs) st)" by (rule alike_sym [OF alike_scanned_clock [OF never]])
  finally have "erased (last_line e (read_loop e (map Bytes bs) (scan_initial e st))) = erased (last_line e (scanned ?e (concat bs) st))"
    by (rule erased_last_line)
  also have "\<dots> = erased (last_line ?e (scanned ?e (concat bs) st))"
    by (simp add: last_line_def erased_processLine_clock)
  finally have "erased (scan_rest e (read_loop e (map Bytes bs) (scan_initial e st))) = erased (last_line ?e (scanned ?e (concat bs) st))"
    by (simp add: erased_rest [OF never])
  from close_outcome [OF this, of e] show ?thesis by (simp add: whole_input_def commit_clock)
qed

lemma alike_scanned_input:
  assumes "eStop e = (\<lambda>_. False)" "erased s = erased t" "lCarry s @ b = lCarry t @ b'"
  shows "alike (scanned e b s) (scanned e b' t)"
  using erased_scan [OF assms(1,2), of "lCarry t @ b'"] assms(3)
  by (auto simp: alike_def scanned_def erased_set(4) split: prod.splits)

lemma whole_input_outcome:
  assumes "eStop e = (\<lambda>_. False)" "erased s = erased t" "lCarry s @ b = lCarry t @ b'"
  shows "outcome (whole_input e b s) = outcome (whole_input e b' t)"
  unfolding whole_input_def
  by (intro erased_outcome erased_commitPending erased_flushOrphanRun erased_last_line alike_scanned_input assms)

lemma start_erased:
  "erased (start_loop e d ks n carry source) = erased (start_loop (e\<lparr>eClock := k\<rparr>) d ks n' carry' source)"
  by (simp add: start_loop_def erased_iff new_BatchCoalescer_def merge_defs)

lemma RunStreamingParseLoop_chunks:
  assumes "carry @ concat bs = carry' @ concat bs'"
  shows "outcome (RunStreamingParseLoop ex dec dl clock (\<lambda>_. False) columns d ki n carry (Some (map Bytes bs)) source) =
    outcome (RunStreamingParseLoop ex dec dl clock' (\<lambda>_. False) columns d ki n' carry' (Some (map Bytes bs')) source)"
proof -
  obtain specs ki' where specs: "BuildTimeColumnSpecs ex columns ki = (specs, ki')" by (cases "BuildTimeColumnSpecs ex columns ki")
  let ?e = "\<lparr>eDecoder = dec, eDates = dl, eTimeColumns = specs, eClock = clock, eStop = \<lambda>_. False\<rparr>"
  let ?e' = "?e\<lparr>eClock := clock'\<rparr>"
  let ?base = "\<lambda>n. case n of None \<Rightarrow> Some (Size_keys ki) | Some n \<Rightarrow> Some n"
  let ?s = "start_loop ?e d (ki', Some Map.empty) (?base n) carry source"
  let ?t = "start_loop ?e' d (ki', Some Map.empty) (?base n') carry' source"
  have "outcome (whole_input (?e\<lparr>eClock := \<lambda>_. 0\<rparr>) (concat bs) ?s) = outcome (whole_input (?e\<lparr>eClock := \<lambda>_. 0\<rparr>) (concat bs') ?t)"
    using assms by (intro whole_input_outcome start_erased) (simp_all add: start_loop_def)
  then show ?thesis
    using run_outcome [of ?e bs ?s] run_outcome [of ?e' bs' ?t] by (simp add: RunStreamingParseLoop_def specs Let_def)
qed

end
