(* ===== verification/Static_Pipeline.thy ===== *)
theory Static_Pipeline
  imports Streaming_Loop
begin

text \<open>
  \<open>library/include/loglib/internal/static_parser_pipeline.hpp\<close>: how a file is cut into byte ranges
  (stage A) and what the serial stage C makes of the batches that the workers decoded.

  TBB runs stage C once for each batch, in the order of stage A.  When the workers decoded a batch,
  and what keys and time it was then, are arguments.
\<close>

section \<open>Byte ranges\<close>

text \<open>The first newline at or behind the target ends a range; a range is never empty.\<close>

definition range_length :: "nat \<Rightarrow> string \<Rightarrow> nat" where
  "range_length batchSize bytes =
     (let advance = min batchSize (length bytes)
      in if advance < length bytes then
           (let rest = drop advance bytes
            in if NEWLINE \<in> set rest then advance + length (to_newline rest) + 1 else length bytes)
         else length bytes)"

lemma range_length_pos: "bytes \<noteq> [] \<Longrightarrow> 0 < range_length batchSize bytes"
  by (auto simp: range_length_def Let_def)

function byte_ranges :: "nat \<Rightarrow> nat \<Rightarrow> string \<Rightarrow> (nat \<times> string) list" where
  "byte_ranges batchSize at bytes =
     (if bytes = [] then []
      else let n = range_length batchSize bytes
           in (at, take n bytes) # byte_ranges batchSize (at + n) (drop n bytes))"
  by pat_completeness auto
termination
  by (relation "measure (\<lambda>(batchSize, at, bytes). length bytes)") (auto simp: range_length_pos)

declare byte_ranges.simps [simp del]

section \<open>Batches\<close>

record ParsedLineError =
  peRelativeLine :: nat
  peBody :: string

record ParsedPipelineBatch =
  ppLines :: "LogLine list"
  ppLocalLineOffsets :: "nat list"
  ppErrors :: "ParsedLineError list"
  ppOwnedStringsArena :: string
  ppTotalLineCount :: nat
  ppLeadingContinuationBytes :: string
  ppLeadingContinuationLineCount :: nat
  ppLastRecordOpen :: bool
  ppContinuationTarget :: KeyId
  ppTailRecordLastPhysicalLine :: nat
  ppTailRecordHeaderPhysicalLine :: nat
  ppCompletedMultiLineSpans :: "(nat \<times> nat) list"

definition new_ParsedPipelineBatch :: ParsedPipelineBatch where
  "new_ParsedPipelineBatch =
     \<lparr>ppLines = [], ppLocalLineOffsets = [], ppErrors = [], ppOwnedStringsArena = [], ppTotalLineCount = 0,
      ppLeadingContinuationBytes = [], ppLeadingContinuationLineCount = 0, ppLastRecordOpen = False,
      ppContinuationTarget = INVALID_KEY_ID, ppTailRecordLastPhysicalLine = 0, ppTailRecordHeaderPhysicalLine = 0,
      ppCompletedMultiLineSpans = []\<rparr>"

abbreviation batch_error :: "nat \<Rightarrow> string \<Rightarrow> ParsedPipelineBatch \<Rightarrow> ParsedPipelineBatch" where
  "batch_error n body p \<equiv> p\<lparr>ppErrors := ppErrors p @ [\<lparr>peRelativeLine = n, peBody = body\<rparr>]\<rparr>"

section \<open>The held record\<close>

record HeldTail =
  hdLine :: LogLine
  hdLineOffsets :: "nat list"
  hdContinuationTarget :: KeyId
  hdAbsoluteLineNumber :: nat
  hdHeaderLineIdx :: nat
  hdLastLineIdx :: nat

fun update_slot :: "KeyId \<Rightarrow> CompactLogValue \<Rightarrow> field list \<Rightarrow> field list" where
  "update_slot kid v [] = []"
| "update_slot kid v ((k, w) # fs) = (if k = kid then (k, v) # fs else (k, w) # update_slot kid v fs)"

definition store_slot :: "KeyId \<Rightarrow> CompactLogValue \<Rightarrow> LogLine \<Rightarrow> LogLine" where
  "store_slot kid v line = line\<lparr>mFields := (mFields line)\<lparr>mData := update_slot kid v (mData (mFields line))\<rparr>\<rparr>"

definition SpliceCrossBatchContinuation :: "LogLine \<Rightarrow> LogFile \<Rightarrow> KeyId \<Rightarrow> string \<Rightarrow>
    ContinuationSpliceOutcome \<times> LogLine \<times> LogFile" where
  "SpliceCrossBatchContinuation heldLine file targetKey bytes =
     (if targetKey = INVALID_KEY_ID then (MissingTarget, heldLine, file)
      else if bytes = [] then (SpliceOk, heldLine, file)
      else case FindCompact targetKey heldLine of
        None \<Rightarrow> (MissingTarget, heldLine, file)
      | Some slot \<Rightarrow>
          if tag slot \<noteq> OwnedString \<and> tag slot \<noteq> MmapSlice \<and> tag slot \<noteq> Monostate then (NonStringTarget, heldLine, file)
          else if tag slot = OwnedString \<and> payload slot + ucast (aux slot) = word_of_nat (length (mOwnedStrings file)) then
            (SpliceOk, store_slot targetKey (slot\<lparr>aux := word_of_nat (unat (aux slot) + length bytes + 1)\<rparr>) heldLine,
             snd (AppendOwnedStrings (NEWLINE # bytes) file))
          else
            case (if tag slot = Monostate then Some []
                  else map_option (\<lambda>s. s @ [NEWLINE]) (PeekStringView slot (Some \<lparr>impl = FileSource file, mEnumDictionaries = None\<rparr>) heldLine)) of
              None \<Rightarrow> (NonStringTarget, heldLine, file)
            | Some current \<Rightarrow>
                (case AppendOwnedStrings (current @ bytes) file of (offset, file') \<Rightarrow>
                   (SpliceOk, store_slot targetKey \<lparr>payload = offset, aux = word_of_nat (length (current @ bytes)), tag = OwnedString\<rparr> heldLine, file')))"

section \<open>Stage C\<close>

text \<open>Line ids become absolute, owned strings move to the arena of the file.\<close>

definition place_lines :: "nat \<Rightarrow> ParsedPipelineBatch \<Rightarrow> LogFile \<Rightarrow> ParsedPipelineBatch \<times> LogFile" where
  "place_lines delta parsed file =
     (let parsed1 = parsed\<lparr>ppLines := map (ShiftLineId delta) (ppLines parsed)\<rparr>
      in if ppOwnedStringsArena parsed = [] then (parsed1, file)
         else case AppendOwnedStrings (ppOwnedStringsArena parsed) file of (offset, file') \<Rightarrow>
           (parsed1\<lparr>ppLines := map (line_Rebase offset) (ppLines parsed1)\<rparr>, file'))"

definition cross_batch_message :: "ContinuationSpliceOutcome \<Rightarrow> string" where
  "cross_batch_message outcome =
     (if outcome = MissingTarget then ''Continuation lines dropped: target field is not present in the record.''
      else ''Continuation lines dropped: target field is not a string.'')"

text \<open>Continuation lines at the start of the batch belong to the held record.\<close>

definition splice_leading :: "nat \<Rightarrow> ParsedPipelineBatch \<Rightarrow> HeldTail option \<Rightarrow> LogFile \<Rightarrow>
    ParsedPipelineBatch \<times> HeldTail option \<times> LogFile" where
  "splice_leading delta parsed held file =
     (if ppLeadingContinuationBytes parsed = [] then (parsed, held, file)
      else case held of
        None \<Rightarrow> (batch_error 1 ''Orphaned continuation line(s) at start of file.'' parsed, held, file)
      | Some h \<Rightarrow>
          (case SpliceCrossBatchContinuation (hdLine h) file (hdContinuationTarget h) (ppLeadingContinuationBytes parsed) of
             (outcome, line, file') \<Rightarrow>
               let parsed1 = (if outcome = SpliceOk then parsed else batch_error 1 (cross_batch_message outcome) parsed);
                   n = ppLeadingContinuationLineCount parsed;
                   h1 = h\<lparr>hdLine := line\<rparr>
               in if n > 0
                  then (parsed1\<lparr>ppLocalLineOffsets := drop n (ppLocalLineOffsets parsed)\<rparr>,
                        Some (h1\<lparr>hdLineOffsets := hdLineOffsets h @ take n (ppLocalLineOffsets parsed), hdLastLineIdx := delta + n - 1\<rparr>), file')
                  else (parsed1, Some h1, file')))"

text \<open>The open last record is taken out of its batch, with the last line offset of the batch.\<close>

definition hold_tail :: "nat \<Rightarrow> ParsedPipelineBatch \<Rightarrow> ParsedPipelineBatch \<times> HeldTail option" where
  "hold_tail delta parsed =
     (if ppLines parsed \<noteq> [] \<and> ppLastRecordOpen parsed then
        (let offsets = ppLocalLineOffsets parsed; tail = last (ppLines parsed)
         in (parsed\<lparr>ppLines := butlast (ppLines parsed), ppLocalLineOffsets := butlast offsets\<rparr>,
             Some \<lparr>hdLine = tail, hdLineOffsets = (if offsets = [] then [] else [last offsets]),
                   hdContinuationTarget = ppContinuationTarget parsed, hdAbsoluteLineNumber = mLineId tail + 1,
                   hdHeaderLineIdx = delta + ppTailRecordHeaderPhysicalLine parsed,
                   hdLastLineIdx = delta + ppTailRecordLastPhysicalLine parsed\<rparr>))
      else (parsed, None))"

definition held_span :: "HeldTail \<Rightarrow> (nat \<times> nat) list" where
  "held_span h = (if hdLastLineIdx h > hdHeaderLineIdx h then [(hdHeaderLineIdx h, hdLastLineIdx h)] else [])"

definition batch_errors :: "nat \<Rightarrow> ParsedLineError list \<Rightarrow> string list" where
  "batch_errors delta errs = map (\<lambda>e. ''Error on line '' @ show_nat (peRelativeLine e + delta) @ '': '' @ peBody e) errs"

text \<open>What a batch adds: the sealed record in front, then its own lines, offsets, spans and errors.\<close>

definition emit_batch :: "nat \<Rightarrow> HeldTail option \<Rightarrow> (nat \<times> nat) list \<Rightarrow> ParsedPipelineBatch \<Rightarrow> StreamedBatch \<Rightarrow> StreamedBatch" where
  "emit_batch delta sealed spans parsed b =
     (let (ls, offs, sp) = (case sealed of None \<Rightarrow> ([], [], []) | Some h \<Rightarrow> ([hdLine h], hdLineOffsets h, held_span h))
      in b\<lparr>bLines := bLines b @ ls @ ppLines parsed, bLocalLineOffsets := bLocalLineOffsets b @ offs @ ppLocalLineOffsets parsed,
           bMultiLineSpans := bMultiLineSpans b @ sp @ spans, bErrors := bErrors b @ batch_errors delta (ppErrors parsed)\<rparr>)"

definition emit_uncoalesced :: "KeyIndex \<Rightarrow> nat \<Rightarrow> nat \<Rightarrow> HeldTail option \<Rightarrow> (nat \<times> nat) list \<Rightarrow> ParsedPipelineBatch \<Rightarrow> BatchCoalescer \<Rightarrow>
    BatchCoalescer" where
  "emit_uncoalesced ki nextLineNumber delta sealed spans parsed co =
     (let out0 = (emit_batch delta sealed spans parsed empty_batch)
            \<lparr>bFirstLineNumber := (case sealed of Some h \<Rightarrow> hdAbsoluteLineNumber h | None \<Rightarrow> nextLineNumber)\<rparr>
      in case DrainNewKeysInto ki (coPrevKeyCount co) out0 of (n, out) \<Rightarrow>
           if bLines out \<noteq> [] \<or> bErrors out \<noteq> [] \<or> bLocalLineOffsets out \<noteq> [] \<or> bMultiLineSpans out \<noteq> []
           then co\<lparr>coPrevKeyCount := n, coSink := coSink co @ [out]\<rparr> else co\<lparr>coPrevKeyCount := n\<rparr>)"

definition emit_coalesced :: "int \<Rightarrow> KeyIndex \<Rightarrow> nat \<Rightarrow> nat \<Rightarrow> HeldTail option \<Rightarrow> (nat \<times> nat) list \<Rightarrow> ParsedPipelineBatch \<Rightarrow> BatchCoalescer \<Rightarrow>
    BatchCoalescer" where
  "emit_coalesced now ki nextLineNumber delta sealed spans parsed co =
     (let co1 = (case sealed of Some h \<Rightarrow> Prime (hdAbsoluteLineNumber h) co | None \<Rightarrow> co);
          co2 = (if ppLines parsed \<noteq> [] then Prime (nextLineNumber + ppLeadingContinuationLineCount parsed) co1 else co1)
      in snd (TryFlush False now ki (co2\<lparr>coPending := emit_batch delta sealed spans parsed (coPending co2)\<rparr>)))"

record pipeline =
  piFile :: LogFile
  piNextLineNumber :: nat
  piHeld :: "HeldTail option"
  piCoalescer :: BatchCoalescer

definition stage_c :: "bool \<Rightarrow> int \<Rightarrow> KeyIndex \<Rightarrow> ParsedPipelineBatch \<Rightarrow> pipeline \<Rightarrow> pipeline" where
  "stage_c prefersUncoalesced now ki parsed0 st =
     (let next = piNextLineNumber st; delta = next - 1;
          spans = map (\<lambda>(h, l). (delta + h, delta + l)) (ppCompletedMultiLineSpans parsed0) in
      case place_lines delta parsed0 (piFile st) of (parsed1, file1) \<Rightarrow>
      case splice_leading delta parsed1 (piHeld st) file1 of (parsed2, held, file2) \<Rightarrow>
      case hold_tail delta parsed2 of (parsed3, newHeld) \<Rightarrow>
        let hasNew = (ppLines parsed2 \<noteq> []); sealed = (if hasNew then held else None)
        in \<lparr>piFile = file2, piNextLineNumber = next + ppTotalLineCount parsed0, piHeld = (if hasNew then newHeld else held),
            piCoalescer = (if prefersUncoalesced then emit_uncoalesced ki next delta sealed spans parsed3 (piCoalescer st)
                           else emit_coalesced now ki next delta sealed spans parsed3 (piCoalescer st))\<rparr>)"

text \<open>The end of the file seals the record that is still held.\<close>

definition seal_held :: "bool \<Rightarrow> KeyIndex \<Rightarrow> pipeline \<Rightarrow> pipeline" where
  "seal_held prefersUncoalesced ki st =
     (case piHeld st of
        None \<Rightarrow> st
      | Some h \<Rightarrow>
          (let co = piCoalescer st in
           st\<lparr>piHeld := None,
              piCoalescer :=
                (if prefersUncoalesced then
                   (case DrainNewKeysInto ki (coPrevKeyCount co)
                           (empty_batch\<lparr>bLines := [hdLine h], bLocalLineOffsets := hdLineOffsets h, bMultiLineSpans := held_span h,
                                        bFirstLineNumber := hdAbsoluteLineNumber h\<rparr>) of (n, out) \<Rightarrow>
                      co\<lparr>coPrevKeyCount := n, coSink := coSink co @ [out]\<rparr>)
                 else
                   (let co1 = Prime (hdAbsoluteLineNumber h) co; p = coPending co1
                    in co1\<lparr>coPending := p\<lparr>bLines := bLines p @ [hdLine h], bLocalLineOffsets := bLocalLineOffsets p @ hdLineOffsets h,
                                          bMultiLineSpans := bMultiLineSpans p @ held_span h\<rparr>\<rparr>))\<rparr>))"

definition STATIC_BATCH_FLUSH_LINES :: nat where "STATIC_BATCH_FLUSH_LINES = 1000"

definition STATIC_BATCH_FLUSH_INTERVAL :: int where "STATIC_BATCH_FLUSH_INTERVAL = 50"

text \<open>
  The run over the decoded batches, each with the time and the keys when stage C got it.  A stop
  request cuts the list of batches short and sets \<open>cancelled\<close>.
\<close>

fun run_stage_c :: "bool \<Rightarrow> (int \<times> KeyIndex \<times> ParsedPipelineBatch) list \<Rightarrow> pipeline \<Rightarrow> pipeline" where
  "run_stage_c prefersUncoalesced [] st = st"
| "run_stage_c prefersUncoalesced ((now, ki, parsed) # ps) st =
     run_stage_c prefersUncoalesced ps (stage_c prefersUncoalesced now ki parsed st)"

definition RunStaticParserPipeline :: "bool \<Rightarrow> bool \<Rightarrow> int \<Rightarrow> KeyIndex \<Rightarrow> KeyIndex \<Rightarrow> nat option \<Rightarrow>
    (int \<times> KeyIndex \<times> ParsedPipelineBatch) list \<Rightarrow> LogFile \<Rightarrow> pipeline" where
  "RunStaticParserPipeline prefersUncoalesced cancelled now ki0 ki newKeyBaseline batches file =
     (let st = \<lparr>piFile = file, piNextLineNumber = 1, piHeld = None,
               piCoalescer = new_BatchCoalescer ki0 STATIC_BATCH_FLUSH_LINES STATIC_BATCH_FLUSH_INTERVAL newKeyBaseline now\<rparr>;
          st1 = seal_held prefersUncoalesced ki (run_stage_c prefersUncoalesced batches st)
      in st1\<lparr>piCoalescer := Finish (piNextLineNumber st1) cancelled ki (piCoalescer st1)\<rparr>)"

end
