(* ===== verification/Csv_File.thy ===== *)
theory Csv_File
  imports Static_Pipeline
begin

text \<open>
  The CSV parser over a whole file, \<open>library/src/parsers/csv_parser.cpp\<close>: the decoder of one byte
  range, the search for the header, and the run of the pipeline over the ranges of a file.

  Offsets are counted from the begin of the file.  A range runs to the end of the list of bytes
  that is passed, so the last line may lack its newline.  \<open>std::sort\<close> of the fields is a sort by
  key id; the ids of a header are distinct.
\<close>

section \<open>One byte range\<close>

record csv_env =
  ceFromChars :: bool
  ceDates :: date_lib
  ceFile :: LogFile
  ceTimeColumns :: "TimeColumnSpec list"
  ceColumnKeys :: "KeyId list"
  ceHeaderLineOffset :: "nat option"

record csv_batch =
  cbParsed :: ParsedPipelineBatch
  cbRelativeLineNumber :: nat
  cbScratch :: "promote_state list"

definition csv_data_line :: "csv_env \<Rightarrow> nat \<Rightarrow> string \<Rightarrow> csv_batch \<Rightarrow> csv_batch" where
  "csv_data_line e at line b =
     (let p = cbParsed b; n = cbRelativeLineNumber b in
      case ParseCsvLine (ceFromChars e) line (ceColumnKeys e) (Some at) (length (mMmap (ceFile e))) (ppOwnedStringsArena p) of
        (vs, unterminated, extra, arena) \<Rightarrow>
          let p1 = p\<lparr>ppOwnedStringsArena := arena\<rparr>
          in if unterminated then b\<lparr>cbParsed := batch_error n ''Unterminated quoted value.'' p1\<rparr>
             else if extra \<noteq> 0 then b\<lparr>cbParsed := batch_error n (extra_cells_error extra (length (ceColumnKeys e))) p1\<rparr>
             else case PromoteLineTimestamps (ceDates e) (Some \<lparr>impl = FileSource (ceFile e), mEnumDictionaries = None\<rparr>) arena
                         (ceTimeColumns e) (cbScratch b) (LogLine_compact (sort_key fst vs) (n - 1)) of
               (_, line', sts) \<Rightarrow> b\<lparr>cbParsed := p1\<lparr>ppLines := ppLines p1 @ [line']\<rparr>, cbScratch := sts\<rparr>)"

definition csv_physical_line :: "csv_env \<Rightarrow> nat \<Rightarrow> string \<Rightarrow> csv_batch \<Rightarrow> csv_batch" where
  "csv_physical_line e at raw b =
     (let line = StripCr raw; p = cbParsed b;
          b1 = b\<lparr>cbParsed := p\<lparr>ppLocalLineOffsets := ppLocalLineOffsets p @ [at + length raw + 1]\<rparr>\<rparr>;
          b2 = (if line = [] \<or> ceHeaderLineOffset e = Some at then b1 else csv_data_line e at line b1)
      in b2\<lparr>cbRelativeLineNumber := cbRelativeLineNumber b2 + 1\<rparr>)"

function csv_loop :: "csv_env \<Rightarrow> nat \<Rightarrow> string \<Rightarrow> csv_batch \<Rightarrow> csv_batch" where
  "csv_loop e at bytes b =
     (if bytes = [] then b
      else let raw = to_newline bytes; n = length raw + 1
           in csv_loop e (at + n) (drop n bytes) (csv_physical_line e at raw b))"
  by pat_completeness auto
termination
  by (relation "measure (\<lambda>(e, at, bytes, b). length bytes)") auto

declare csv_loop.simps [simp del]

definition new_csv_batch :: "promote_state list \<Rightarrow> csv_batch" where
  "new_csv_batch scratch = \<lparr>cbParsed = new_ParsedPipelineBatch, cbRelativeLineNumber = 1, cbScratch = scratch\<rparr>"

definition DecodeCsvBatch :: "csv_env \<Rightarrow> promote_state list \<Rightarrow> nat \<times> string \<Rightarrow> ParsedPipelineBatch" where
  "DecodeCsvBatch e scratch batch =
     (let b = csv_loop e (fst batch) (snd batch) (new_csv_batch scratch)
      in (cbParsed b)\<lparr>ppTotalLineCount := cbRelativeLineNumber b - 1\<rparr>)"

section \<open>The file\<close>

text \<open>The first line that is not blank: its offset, its number, and its text; a mark of the byte order counts on the first line only.\<close>

function find_header :: "nat \<Rightarrow> nat \<Rightarrow> string \<Rightarrow> (nat \<times> nat \<times> string) option" where
  "find_header at blanks bytes =
     (if bytes = [] then None
      else let raw = to_newline bytes; n = length raw + 1;
               candidate = StripCr (if at = 0 then StripBom raw else raw)
           in if candidate \<noteq> [] then Some (at, blanks + 1, candidate)
              else find_header (at + n) (blanks + 1) (drop n bytes))"
  by pat_completeness auto
termination
  by (relation "measure (\<lambda>(at, blanks, bytes). length bytes)") auto

declare find_header.simps [simp del]

text \<open>
  What a run depends on beside the file: whether the sink takes batches as they come, the size of
  the ranges, the clock and the scratch space of the worker for each range, the number of ranges
  before a stop request (with \<open>Some 0\<close> the pipeline is not started).
\<close>

record static_run =
  srPrefersUncoalesced :: bool
  srBatchSize :: nat
  srClock :: "nat \<Rightarrow> int"
  srScratch :: "nat \<Rightarrow> promote_state list"
  srStop :: "nat option"

definition taken_ranges :: "static_run \<Rightarrow> LogFile \<Rightarrow> (nat \<times> string) list" where
  "taken_ranges r file =
     (let ranges = byte_ranges (srBatchSize r) 0 (mMmap file)
      in case srStop r of None \<Rightarrow> ranges | Some n \<Rightarrow> take n ranges)"

definition csv_batches :: "static_run \<Rightarrow> csv_env \<Rightarrow> (nat \<times> string) list \<Rightarrow> ParsedPipelineBatch list" where
  "csv_batches r e ranges = map (\<lambda>(i, batch). DecodeCsvBatch e (srScratch r i) batch) (zip [0..<length ranges] ranges)"

definition failed_header :: "static_run \<Rightarrow> nat \<Rightarrow> KeyIndex \<Rightarrow> nat \<Rightarrow> LogFile \<Rightarrow> pipeline" where
  "failed_header r number ki newKeyBaseline file =
     \<lparr>piFile = file, piNextLineNumber = 1, piHeld = None,
      piCoalescer =
        Finish (number + 1) False ki
          (add_error (''Error on line '' @ show_nat number @ '': Invalid CSV header.'')
            (new_BatchCoalescer ki STATIC_BATCH_FLUSH_LINES STATIC_BATCH_FLUSH_INTERVAL (Some newKeyBaseline) (srClock r 0)))\<rparr>"

definition csv_run :: "static_run \<Rightarrow> bool \<Rightarrow> externals \<Rightarrow> date_lib \<Rightarrow> Column list \<Rightarrow> nat \<Rightarrow> nat option \<Rightarrow> KeyId list \<Rightarrow> KeyIndex \<Rightarrow> LogFile \<Rightarrow>
    pipeline \<times> KeyIndex" where
  "csv_run r hasFromChars ex dl columns newKeyBaseline headerAt columnIds ki file =
     (let cancelled = (srStop r \<noteq> None) in
      if srStop r = Some 0 \<or> mMmap file = [] then
        (RunStaticParserPipeline (srPrefersUncoalesced r) cancelled (srClock r 0) ki ki (Some newKeyBaseline) [] file, ki)
      else case BuildTimeColumnSpecs ex columns ki of (specs, ki') \<Rightarrow>
        let e = \<lparr>ceFromChars = hasFromChars, ceDates = dl, ceFile = file, ceTimeColumns = specs, ceColumnKeys = columnIds,
                 ceHeaderLineOffset = headerAt\<rparr>;
            batches = csv_batches r e (taken_ranges r file)
        in (RunStaticParserPipeline (srPrefersUncoalesced r) cancelled (srClock r 0) ki ki' (Some newKeyBaseline)
              (map (\<lambda>(i, p). (srClock r (Suc i), ki', p)) (zip [0..<length batches] batches)) file, ki'))"

definition csv_ParseStreaming :: "static_run \<Rightarrow> bool \<Rightarrow> externals \<Rightarrow> date_lib \<Rightarrow> Column list \<Rightarrow> KeyIndex \<Rightarrow> LogFile \<Rightarrow> pipeline \<times> KeyIndex" where
  "csv_ParseStreaming r hasFromChars ex dl columns ki file =
     (case find_header 0 0 (mMmap file) of
        None \<Rightarrow> csv_run r hasFromChars ex dl columns (Size_keys ki) None [] ki file
      | Some (at, number, header) \<Rightarrow>
          (case ParseHeaderLine ex header ki of (ok, kids, ki1) \<Rightarrow>
             if \<not> ok then (failed_header r number ki1 (Size_keys ki) file, ki1)
             else csv_run r hasFromChars ex dl columns (Size_keys ki) (Some at) kids ki1 file))"

end
