(* ===== verification/Static_Correct.thy ===== *)
theory Static_Correct
  imports Static_Pipeline
begin

text \<open>
  What the file pipeline delivers: the line offsets of all batches, what one run of stage C adds,
  and how the byte ranges of stage A cover the file.
\<close>

section \<open>Deliveries\<close>

definition delivered_offsets :: "BatchCoalescer \<Rightarrow> nat list" where
  "delivered_offsets co = concat (map bLocalLineOffsets (coSink co)) @ bLocalLineOffsets (coPending co)"

definition delivered_spans :: "BatchCoalescer \<Rightarrow> (nat \<times> nat) list" where
  "delivered_spans co = concat (map bMultiLineSpans (coSink co)) @ bMultiLineSpans (coPending co)"

lemmas delivered_defs = delivered_lines_def delivered_errors_def delivered_offsets_def delivered_spans_def

text \<open>All that the sink is given.\<close>

definition delivered :: "BatchCoalescer \<Rightarrow> LogLine list \<times> string list \<times> nat list \<times> (nat \<times> nat) list" where
  "delivered co = (delivered_lines co, delivered_errors co, delivered_offsets co, delivered_spans co)"

definition in_pending :: "StreamedBatch \<Rightarrow> LogLine list \<times> string list \<times> nat list \<times> (nat \<times> nat) list" where
  "in_pending b = (bLines b, bErrors b, bLocalLineOffsets b, bMultiLineSpans b)"

fun join_delivery :: "'a list \<times> 'b list \<times> 'c list \<times> 'd list \<Rightarrow> 'a list \<times> 'b list \<times> 'c list \<times> 'd list \<Rightarrow> 'a list \<times> 'b list \<times> 'c list \<times> 'd list" where
  "join_delivery (a, b, c, d) (a', b', c', d') = (a @ a', b @ b', c @ c', d @ d')"

lemma in_pending_empty [simp]: "in_pending empty_batch = ([], [], [], [])"
  by (simp add: in_pending_def empty_batch_def)

lemma delivered_ship: "delivered (ship ki co) = delivered co"
  by (simp add: delivered_def delivered_defs ship_def DrainNewKeysInto_def empty_batch_def)

lemma delivered_Prime [simp]: "delivered (Prime n co) = delivered co" "in_pending (coPending (Prime n co)) = in_pending (coPending co)"
  by (simp_all add: delivered_def delivered_defs Prime_def in_pending_def)

lemma delivered_TryFlush [simp]: "delivered (snd (TryFlush force now ki co)) = delivered co"
proof -
  have "delivered (co\<lparr>coLastFlush := now\<rparr>) = delivered co" for co by (simp add: delivered_def delivered_defs)
  then show ?thesis by (simp add: TryFlush_def Let_def delivered_ship)
qed

lemma delivered_Finish [simp]: "delivered (Finish n cancelled ki co) = delivered co"
proof -
  have "delivered (co\<lparr>coFinished := Some cancelled\<rparr>) = delivered co" for co by (simp add: delivered_def delivered_defs)
  then have "delivered (Finish n cancelled ki co) =
      (if coPrimed co \<or> Size_keys ki > coPrevKeyCount co \<or> bErrors (coPending co) \<noteq> [] \<or> bLocalLineOffsets (coPending co) \<noteq> []
       then delivered (ship ki (Prime n co))
       else delivered (case DrainNewKeysInto ki (coPrevKeyCount co) (empty_batch\<lparr>bFirstLineNumber := n\<rparr>) of (k, tail) \<Rightarrow>
                         co\<lparr>coPrevKeyCount := k, coSink := coSink co @ [tail]\<rparr>))"
    by (simp add: Finish_def Let_def)
  then show ?thesis
    by (simp add: delivered_ship) (auto simp: delivered_def delivered_defs DrainNewKeysInto_def empty_batch_def)
qed

lemma delivered_pending:
  "in_pending b = join_delivery (in_pending (coPending co)) x \<Longrightarrow> delivered (co\<lparr>coPending := b\<rparr>) = join_delivery (delivered co) x"
  by (cases x) (simp add: delivered_def delivered_defs in_pending_def)

text \<open>What one batch adds.\<close>

definition batch_delivery :: "nat \<Rightarrow> HeldTail option \<Rightarrow> (nat \<times> nat) list \<Rightarrow> ParsedPipelineBatch \<Rightarrow>
    LogLine list \<times> string list \<times> nat list \<times> (nat \<times> nat) list" where
  "batch_delivery delta sealed spans parsed = in_pending (emit_batch delta sealed spans parsed empty_batch)"

lemma in_pending_emit: "in_pending (emit_batch delta sealed spans parsed b) = join_delivery (in_pending b) (batch_delivery delta sealed spans parsed)"
  by (cases sealed) (simp_all add: batch_delivery_def in_pending_def emit_batch_def empty_batch_def)

lemma delivered_coalesced:
  "delivered (emit_coalesced now ki next delta sealed spans parsed co) = join_delivery (delivered co) (batch_delivery delta sealed spans parsed)"
proof -
  define co2 where "co2 = (let co1 = (case sealed of Some h \<Rightarrow> Prime (hdAbsoluteLineNumber h) co | None \<Rightarrow> co)
    in if ppLines parsed \<noteq> [] then Prime (next + ppLeadingContinuationLineCount parsed) co1 else co1)"
  have "delivered co2 = delivered co" by (simp add: co2_def Let_def split: option.split)
  moreover have "delivered (emit_coalesced now ki next delta sealed spans parsed co) =
      delivered (co2\<lparr>coPending := emit_batch delta sealed spans parsed (coPending co2)\<rparr>)"
    by (simp add: emit_coalesced_def co2_def Let_def)
  ultimately show ?thesis by (simp add: delivered_pending [OF in_pending_emit])
qed

lemma delivered_uncoalesced:
  assumes "in_pending (coPending co) = ([], [], [], [])"
  shows "delivered (emit_uncoalesced ki next delta sealed spans parsed co) = join_delivery (delivered co) (batch_delivery delta sealed spans parsed)"
    and "in_pending (coPending (emit_uncoalesced ki next delta sealed spans parsed co)) = ([], [], [], [])"
proof -
  define out0 where "out0 = (emit_batch delta sealed spans parsed empty_batch)
    \<lparr>bFirstLineNumber := (case sealed of Some h \<Rightarrow> hdAbsoluteLineNumber h | None \<Rightarrow> next)\<rparr>"
  obtain n out where drain: "DrainNewKeysInto ki (coPrevKeyCount co) out0 = (n, out)" by fastforce
  then have "in_pending out = in_pending out0" by (auto simp: DrainNewKeysInto_def in_pending_def split: if_splits)
  also have "\<dots> = batch_delivery delta sealed spans parsed" by (simp add: out0_def batch_delivery_def in_pending_def)
  finally have out: "batch_delivery delta sealed spans parsed = (bLines out, bErrors out, bLocalLineOffsets out, bMultiLineSpans out)"
    by (simp add: in_pending_def)
  have emit: "emit_uncoalesced ki next delta sealed spans parsed co =
      (if bLines out \<noteq> [] \<or> bErrors out \<noteq> [] \<or> bLocalLineOffsets out \<noteq> [] \<or> bMultiLineSpans out \<noteq> []
       then co\<lparr>coPrevKeyCount := n, coSink := coSink co @ [out]\<rparr> else co\<lparr>coPrevKeyCount := n\<rparr>)"
    using drain by (simp add: emit_uncoalesced_def Let_def out0_def)
  show "in_pending (coPending (emit_uncoalesced ki next delta sealed spans parsed co)) = ([], [], [], [])"
    using assms by (simp add: emit)
  show "delivered (emit_uncoalesced ki next delta sealed spans parsed co) = join_delivery (delivered co) (batch_delivery delta sealed spans parsed)"
    using assms unfolding emit out by (auto simp: delivered_def delivered_defs in_pending_def)
qed

definition unsent_ok :: "bool \<Rightarrow> BatchCoalescer \<Rightarrow> bool" where
  "unsent_ok prefersUncoalesced co \<longleftrightarrow> (prefersUncoalesced \<longrightarrow> in_pending (coPending co) = ([], [], [], []))"

section \<open>Byte ranges\<close>

lemma to_newline_less: "NEWLINE \<in> set bytes \<Longrightarrow> length (to_newline bytes) < length bytes"
  by (induction bytes) auto

lemma range_length_bounds: "bytes \<noteq> [] \<Longrightarrow> 0 < range_length n bytes \<and> range_length n bytes \<le> length bytes"
proof -
  assume "bytes \<noteq> []"
  have "advance + length (to_newline (drop advance bytes)) + 1 \<le> length bytes"
    if "advance < length bytes" "NEWLINE \<in> set (drop advance bytes)" for advance
  proof -
    have "length (to_newline (drop advance bytes)) < length (drop advance bytes)"
      using that(2) by (rule to_newline_less)
    then show ?thesis by simp
  qed
  then show ?thesis using range_length_pos [OF \<open>bytes \<noteq> []\<close>] by (simp add: range_length_def Let_def)
qed

text \<open>A range that is not the rest of the file ends with a newline.\<close>

lemma range_ends_line:
  assumes "range_length n bytes \<noteq> length bytes"
  shows "last (take (range_length n bytes) bytes) = NEWLINE"
proof -
  define advance where "advance = min n (length bytes)"
  let ?rest = "drop advance bytes" and ?k = "length (to_newline (drop advance bytes))"
  have len: "advance < length bytes" "NEWLINE \<in> set ?rest" "range_length n bytes = advance + ?k + 1"
    using assms by (auto simp: range_length_def Let_def advance_def split: if_splits)
  have "?k < length ?rest" using len(2) by (rule to_newline_less)
  moreover have "?rest ! ?k = NEWLINE" using nth_length_takeWhile [OF calculation] by simp
  ultimately have "bytes ! (advance + ?k) = NEWLINE" "advance + ?k < length bytes" using len(1) by auto
  then show ?thesis by (simp add: len(3) take_Suc_conv_app_nth)
qed

lemma byte_ranges_concat: "concat (map snd (byte_ranges n at bytes)) = bytes"
  by (induction n at bytes rule: byte_ranges.induct) (subst byte_ranges.simps, auto simp: Let_def)

text \<open>A function on bytes that may be interrupted behind a newline can be run range by range.\<close>

lemma fold_byte_ranges:
  assumes split: "\<And>at xs ys s. xs \<noteq> [] \<Longrightarrow> last xs = NEWLINE \<Longrightarrow> f at (xs @ ys) s = f (at + length xs) ys (f at xs s)"
    and nil: "\<And>at s. f at [] s = s"
  shows "fold (\<lambda>(at, part). f at part) (byte_ranges n at bytes) s = f at bytes s"
proof (induction n at bytes arbitrary: s rule: byte_ranges.induct)
  case (1 n at bytes)
  show ?case
  proof (cases "bytes = []")
    case False
    let ?n = "range_length n bytes"
    note b = range_length_bounds [OF False, of n]
    have "f (at + ?n) (drop ?n bytes) (f at (take ?n bytes) s) = f at bytes s"
    proof (cases "?n = length bytes")
      case False
      from split [of "take ?n bytes" at "drop ?n bytes" s] b range_ends_line [OF False] \<open>bytes \<noteq> []\<close>
      show ?thesis by simp
    qed (simp add: nil)
    with 1 [OF False refl] False show ?thesis by (subst byte_ranges.simps) (simp add: Let_def)
  qed (simp add: byte_ranges.simps nil)
qed

text \<open>Every range lies in the file.\<close>

lemma byte_ranges_within:
  "(at', part) \<in> set (byte_ranges n at bytes) \<Longrightarrow> at \<le> at' \<and> at' + length part \<le> at + length bytes"
proof (induction n at bytes rule: byte_ranges.induct)
  case (1 n at bytes)
  then have "bytes \<noteq> []" by (auto simp: byte_ranges.simps)
  let ?n = "range_length n bytes"
  note b = range_length_bounds [OF \<open>bytes \<noteq> []\<close>, of n]
  from 1(2) consider "(at', part) = (at, take ?n bytes)" | "(at', part) \<in> set (byte_ranges n (at + ?n) (drop ?n bytes))"
    using \<open>bytes \<noteq> []\<close> by (subst (asm) byte_ranges.simps) (auto simp: Let_def)
  then show ?case
  proof cases
    case 2
    from 1(1) [OF \<open>bytes \<noteq> []\<close> refl 2] b show ?thesis by auto
  qed (use b in auto)
qed

section \<open>Batches without continuation lines\<close>

text \<open>A batch that neither begins with continuation lines nor leaves its last record open.\<close>

definition closed_batch :: "ParsedPipelineBatch \<Rightarrow> bool" where
  "closed_batch p \<longleftrightarrow> ppLeadingContinuationBytes p = [] \<and> ppLeadingContinuationLineCount p = 0 \<and> \<not> ppLastRecordOpen p \<and>
     ppCompletedMultiLineSpans p = []"

lemma stage_c_closed:
  assumes "closed_batch p" "piHeld st = None" "unsent_ok u (piCoalescer st)"
  obtains co where
    "stage_c u now ki p st = st\<lparr>piFile := snd (place_lines (piNextLineNumber st - 1) p (piFile st)),
       piNextLineNumber := piNextLineNumber st + ppTotalLineCount p, piCoalescer := co\<rparr>"
    "unsent_ok u co"
    "delivered co = join_delivery (delivered (piCoalescer st))
       (ppLines (fst (place_lines (piNextLineNumber st - 1) p (piFile st))), batch_errors (piNextLineNumber st - 1) (ppErrors p),
        ppLocalLineOffsets p, [])"
proof -
  define delta where "delta = piNextLineNumber st - 1"
  obtain p1 file1 where place: "place_lines delta p (piFile st) = (p1, file1)" by fastforce
  have p1: "ppLeadingContinuationBytes p1 = []" "\<not> ppLastRecordOpen p1" "ppLocalLineOffsets p1 = ppLocalLineOffsets p" "ppErrors p1 = ppErrors p"
    using assms(1) place by (auto simp: place_lines_def Let_def closed_batch_def AppendOwnedStrings_def split: if_splits)
  let ?co = "if u then emit_uncoalesced ki (piNextLineNumber st) delta None [] p1 (piCoalescer st)
    else emit_coalesced now ki (piNextLineNumber st) delta None [] p1 (piCoalescer st)"
  have "stage_c u now ki p st = st\<lparr>piFile := file1, piNextLineNumber := piNextLineNumber st + ppTotalLineCount p, piCoalescer := ?co\<rparr>"
    using assms(1,2) p1 place [unfolded delta_def]
    by (simp add: stage_c_def Let_def delta_def splice_leading_def hold_tail_def closed_batch_def)
  moreover have "batch_delivery delta None [] p1 = (ppLines p1, batch_errors delta (ppErrors p), ppLocalLineOffsets p, [])"
    by (simp add: batch_delivery_def in_pending_def emit_batch_def empty_batch_def p1)
  then have "delivered ?co = join_delivery (delivered (piCoalescer st)) (ppLines p1, batch_errors delta (ppErrors p), ppLocalLineOffsets p, [])"
    using delivered_uncoalesced(1) [of "piCoalescer st"] assms(3) by (simp add: delivered_coalesced unsent_ok_def)
  moreover have "unsent_ok u ?co"
    using delivered_uncoalesced(2) [of "piCoalescer st"] assms(3) by (simp add: unsent_ok_def)
  ultimately show ?thesis using that [of ?co] place by (simp add: delta_def)
qed

end
