(* ===== verification/Csv_File_Correct.thy ===== *)
theory Csv_File_Correct
  imports Csv_File Static_Correct
begin

text \<open>
  The CSV parser over a whole file gives the same records, errors and line offsets however the
  file is cut into byte ranges, and the offsets are those of the physical lines.
\<close>

section \<open>Moving owned strings\<close>

definition shift_owned :: "64 word \<Rightarrow> CompactLogValue \<Rightarrow> CompactLogValue" where
  "shift_owned delta v = (if tag v = OwnedString then v\<lparr>payload := payload v + delta\<rparr> else v)"

lemma shift_owned_0 [simp]: "shift_owned 0 v = v"
  by (simp add: shift_owned_def)

lemma shift_owned_add: "shift_owned a (shift_owned b v) = shift_owned (a + b) v"
  by (simp add: shift_owned_def ac_simps)

lemma Rebase_shift: "RebaseOwnedStringOffsets delta = map (map_prod id (shift_owned delta))"
proof
  have "shift_owned 0 = id" by auto
  then show "RebaseOwnedStringOffsets delta vs = map (map_prod id (shift_owned delta)) vs" for vs
    by (cases "delta = 0") (auto simp: RebaseOwnedStringOffsets_def shift_owned_def map_prod_def prod.map_id)
qed

lemma line_Rebase_add: "line_Rebase a (line_Rebase b line) = line_Rebase (a + b) line"
  by (simp add: line_Rebase_def Let_def Rebase_shift shift_owned_add comp_def prod.map_comp [unfolded comp_def] map_prod_def split_def)

lemma line_Rebase_Shift: "line_Rebase a (ShiftLineId d line) = ShiftLineId d (line_Rebase a line)"
  by (simp add: line_Rebase_def ShiftLineId_def Let_def)

lemma ShiftLineId_add: "ShiftLineId a (ShiftLineId b line) = ShiftLineId (a + b) line"
  by (simp add: ShiftLineId_def ac_simps)

lemma ShiftLineId_0 [simp]: "ShiftLineId 0 line = line"
  by (simp add: ShiftLineId_def)

text \<open>A result of which the owned strings and the arena move behind \<open>a\<close>.\<close>

definition behind :: "string \<Rightarrow> ('v \<Rightarrow> 'v) \<Rightarrow> 'v \<times> string \<Rightarrow> 'v \<times> string" where
  "behind a f r = (f (fst r), a @ snd r)"

lemma MakeString_behind:
  "MakeStringCompact sv off sz (a @ b) = behind a (shift_owned (word_of_nat (length a))) (MakeStringCompact sv off sz b)"
  by (auto simp: MakeStringCompact_def behind_def shift_owned_def MakeMmapSlice_def MakeOwnedString_def split: option.split)

lemma Classify_behind:
  "ClassifyBareScalar h raw off sz (a @ b) = behind a (shift_owned (word_of_nat (length a))) (ClassifyBareScalar h raw off sz b)"
proof -
  have keep: "behind a (shift_owned w) (MakeMonostate, b) = (MakeMonostate, a @ b)"
    "behind a (shift_owned w) (MakeBool t, b) = (MakeBool t, a @ b)"
    "behind a (shift_owned w) (MakeDouble d, b) = (MakeDouble d, a @ b)"
    "behind a (shift_owned w) (MakeInt64 i, b) = (MakeInt64 i, a @ b)"
    "behind a (shift_owned w) (MakeUint64 i, b) = (MakeUint64 i, a @ b)" for w t d i
    by (simp_all add: behind_def shift_owned_def MakeMonostate_def MakeBool_def MakeDouble_def MakeInt64_def MakeUint64_def)
  show ?thesis
    unfolding ClassifyBareScalar_def by (auto simp: keep MakeString_behind split: option.split)
qed

lemma csv_compact_behind:
  "csv_compact h at sz cell (a @ b) = behind a (shift_owned (word_of_nat (length a))) (csv_compact h at sz cell b)"
  by (simp add: csv_compact_def Let_def MakeString_behind Classify_behind)
     (simp add: behind_def shift_owned_def MakeOwnedString_def)

lemma csv_fields_behind:
  "csv_fields h at sz ks cells (a @ b) =
    (case csv_fields h at sz ks cells b of (fs, extra, arena) \<Rightarrow> (RebaseOwnedStringOffsets (word_of_nat (length a)) fs, extra, a @ arena))"
proof (induction h at sz ks cells b rule: csv_fields.induct)
  case (3 h at sz k ks cell cells arena)
  show ?case
  proof (cases "cellText cell = [] \<and> \<not> wasQuoted cell")
    case True
    with 3(1) show ?thesis by simp
  next
    case False
    obtain c arena1 where c: "csv_compact h at sz cell arena = (c, arena1)" by fastforce
    with 3(2) [OF False c [symmetric]] False show ?thesis
      by (auto simp: csv_compact_behind behind_def Rebase_shift split: prod.splits)
  qed
qed (simp_all add: Rebase_shift)

lemma ParseCsvLine_behind:
  "ParseCsvLine h line ks at sz (a @ b) =
    (case ParseCsvLine h line ks at sz b of (fs, unterminated, extra, arena) \<Rightarrow>
       (RebaseOwnedStringOffsets (word_of_nat (length a)) fs, unterminated, extra, a @ arena))"
  by (simp add: ParseCsvLine_def csv_fields_behind split: prod.split)

section \<open>Batches behind each other\<close>

definition shift_error :: "nat \<Rightarrow> ParsedLineError \<Rightarrow> ParsedLineError" where
  "shift_error d e = e\<lparr>peRelativeLine := peRelativeLine e + d\<rparr>"

definition place_line :: "nat \<Rightarrow> nat \<Rightarrow> LogLine \<Rightarrow> LogLine" where
  "place_line owned d line = line_Rebase (word_of_nat owned) (ShiftLineId d line)"

text \<open>The batch \<open>c\<close> placed behind the batch \<open>b\<close>.\<close>

definition join_batches :: "csv_batch \<Rightarrow> csv_batch \<Rightarrow> csv_batch" where
  "join_batches b c =
     (let p = cbParsed b; q = cbParsed c; d = cbRelativeLineNumber b - 1 in
      \<lparr>cbParsed =
         p\<lparr>ppLines := ppLines p @ map (place_line (length (ppOwnedStringsArena p)) d) (ppLines q),
           ppLocalLineOffsets := ppLocalLineOffsets p @ ppLocalLineOffsets q,
           ppErrors := ppErrors p @ map (shift_error d) (ppErrors q),
           ppOwnedStringsArena := ppOwnedStringsArena p @ ppOwnedStringsArena q\<rparr>,
       cbRelativeLineNumber = d + cbRelativeLineNumber c, cbScratch = cbScratch b\<rparr>)"

lemma sort_Rebase: "sort_key fst (RebaseOwnedStringOffsets w fs) = RebaseOwnedStringOffsets w (sort_key fst fs)"
proof -
  have insort: "insort_key fst (map_prod id f x) (map (map_prod id f) xs) = map (map_prod id f) (insort_key fst x xs)"
    for f :: "CompactLogValue \<Rightarrow> CompactLogValue" and x :: field and xs by (induction xs) auto
  show ?thesis by (induction fs) (simp_all add: Rebase_shift insort)
qed

lemma LogLine_compact_place:
  "1 \<le> n \<Longrightarrow> LogLine_compact (RebaseOwnedStringOffsets (word_of_nat owned) fs) (d + n - 1) = place_line owned d (LogLine_compact fs (n - 1))"
  by (simp add: LogLine_compact_def place_line_def ShiftLineId_def line_Rebase_def Let_def AssignSorted_def new_CompactLineFields_def
      Rebase_shift)

lemma csv_data_line_join:
  assumes "ceTimeColumns e = []" "1 \<le> cbRelativeLineNumber b" "1 \<le> cbRelativeLineNumber c"
  shows "csv_data_line e at line (join_batches b c) = join_batches b (csv_data_line e at line c)"
proof -
  let ?p = "cbParsed b" and ?q = "cbParsed c"
  obtain fs unterminated extra arena where r: "ParseCsvLine (ceFromChars e) line (ceColumnKeys e) (Some at) (length (mMmap (ceFile e)))
      (ppOwnedStringsArena ?q) = (fs, unterminated, extra, arena)"
    by (metis prod_cases4)
  then have r': "ParseCsvLine (ceFromChars e) line (ceColumnKeys e) (Some at) (length (mMmap (ceFile e)))
      (ppOwnedStringsArena ?p @ ppOwnedStringsArena ?q) =
      (RebaseOwnedStringOffsets (word_of_nat (length (ppOwnedStringsArena ?p))) fs, unterminated, extra, ppOwnedStringsArena ?p @ arena)"
    by (simp add: ParseCsvLine_behind)
  have n: "1 \<le> cbRelativeLineNumber c" by fact
  show ?thesis
    unfolding csv_data_line_def Let_def
    using assms(1) LogLine_compact_place [OF n, of "length (ppOwnedStringsArena ?p)" "sort_key fst fs" "cbRelativeLineNumber b - 1"]
    by (simp add: join_batches_def Let_def r r' shift_error_def sort_Rebase)
qed

lemma csv_physical_line_join:
  assumes "ceTimeColumns e = []" "1 \<le> cbRelativeLineNumber b" "1 \<le> cbRelativeLineNumber c"
  shows "csv_physical_line e at raw (join_batches b c) = join_batches b (csv_physical_line e at raw c)"
proof -
  define add where "add b = b\<lparr>cbParsed := (cbParsed b)\<lparr>ppLocalLineOffsets := ppLocalLineOffsets (cbParsed b) @ [at + length raw + 1]\<rparr>\<rparr>" for b :: csv_batch
  define bump where "bump b = b\<lparr>cbRelativeLineNumber := cbRelativeLineNumber b + 1\<rparr>" for b :: csv_batch
  have step: "csv_physical_line e at raw b =
      bump (if StripCr raw = [] \<or> ceHeaderLineOffset e = Some at then add b else csv_data_line e at (StripCr raw) (add b))" for b
    by (simp add: csv_physical_line_def Let_def add_def bump_def)
  have "add (join_batches b c) = join_batches b (add c)" by (simp add: add_def join_batches_def Let_def)
  moreover have "bump (join_batches b c') = join_batches b (bump c')" for c' by (simp add: bump_def join_batches_def Let_def)
  moreover have "csv_data_line e at line (join_batches b (add c)) = join_batches b (csv_data_line e at line (add c))" for line
    using assms by (intro csv_data_line_join) (simp_all add: add_def)
  ultimately show ?thesis by (simp add: step)
qed

lemma csv_physical_line_number: "1 \<le> cbRelativeLineNumber b \<Longrightarrow> 1 \<le> cbRelativeLineNumber (csv_physical_line e at raw b)"
  by (simp add: csv_physical_line_def Let_def)

lemma csv_loop_join:
  "ceTimeColumns e = [] \<Longrightarrow> 1 \<le> cbRelativeLineNumber b \<Longrightarrow> 1 \<le> cbRelativeLineNumber c \<Longrightarrow>
    csv_loop e at bytes (join_batches b c) = join_batches b (csv_loop e at bytes c)"
proof (induction e at bytes c rule: csv_loop.induct)
  case (1 e at bytes c)
  show ?case
  proof (cases "bytes = []")
    case False
    then show ?thesis
      using 1(1) [OF False refl refl] 1(2,3,4) csv_physical_line_number [OF 1(4)]
      by (subst (1 2) csv_loop.simps) (simp add: Let_def csv_physical_line_join)
  qed (simp add: csv_loop.simps)
qed

lemma csv_loop_append:
  assumes "xs \<noteq> []" "last xs = NEWLINE"
  shows "csv_loop e at (xs @ ys) b = csv_loop e (at + length xs) ys (csv_loop e at xs b)"
  using assms
proof (induction e at xs b rule: csv_loop.induct)
  case (1 e at xs b)
  then have mem: "NEWLINE \<in> set xs" by (metis last_in_set)
  then have raw: "to_newline (xs @ ys) = to_newline xs" by (induction xs) auto
  let ?n = "length (to_newline xs) + 1"
  have n: "?n \<le> length xs" using to_newline_less [OF mem] by simp
  show ?case
  proof (cases "drop ?n xs = []")
    case True
    with n have "?n = length xs" by simp
    then show ?thesis
      using 1(2) by (subst (1 3) csv_loop.simps) (simp add: Let_def raw csv_loop.simps [of _ _ "[]"] \<open>?n = length xs\<close> [symmetric])
  next
    case False
    with 1(1) [OF 1(2) refl refl False] 1(2,3) n show ?thesis
      by (subst (1 3) csv_loop.simps) (simp add: Let_def raw)
  qed
qed

text \<open>Run range by range, the decoder gives what it gives on the whole file.\<close>

lemma csv_loop_ranges: "fold (\<lambda>(at, part). csv_loop e at part) (byte_ranges n at bytes) b = csv_loop e at bytes b"
  by (rule fold_byte_ranges) (simp_all add: csv_loop_append csv_loop.simps [of _ _ "[]"])

section \<open>Owned strings and the arena\<close>

text \<open>A field that needs the arena puts bytes there, for a line that lies in the file.\<close>

lemma csv_inner_length: "csv_inner esc raw s = Some (esc', raw', rest) \<Longrightarrow> length raw' + length rest + 1 = length raw + length s"
  by (induction esc raw s rule: csv_inner.induct) (auto split: if_splits)

lemma csv_inner_escaped: "csv_inner esc raw s = Some (True, raw', rest) \<Longrightarrow> esc \<longrightarrow> raw \<noteq> [] \<Longrightarrow> raw' \<noteq> []"
  by (induction esc raw s rule: csv_inner.induct) (auto split: if_splits)

lemma csv_unescape_Nil [simp]: "csv_unescape s = [] \<longleftrightarrow> s = []"
  by (induction s rule: csv_unescape.induct) auto

definition cell_within :: "nat \<Rightarrow> CsvCell \<Rightarrow> bool" where
  "cell_within n cell \<longleftrightarrow> cellAt cell \<le> n \<and> (fromScratch cell \<longrightarrow> cellText cell \<noteq> [])"

lemma split_comma: "length (to_comma s) + length (from_comma s) = length s"
  by (metis length_append takeWhile_dropWhile_id)

lemma csv_cells_within: "\<forall>cell\<in>set (fst (csv_cells i s)). cell_within (i + length s) cell"
proof (induction i s rule: csv_cells.induct)
  case (1 i s)
  show ?case
  proof (cases "s \<noteq> [] \<and> hd s = QUOTE")
    case True
    show ?thesis
    proof (cases "csv_inner False [] (tl s)")
      case None
      with True show ?thesis by (subst csv_cells.simps) simp
    next
      case (Some x)
      obtain esc raw rest where x: "x = (esc, raw, rest)" by (cases x)
      note len = csv_inner_length [OF Some [unfolded x]] split_comma [of rest]
      have here: "cell_within (i + length s) \<lparr>cellText = (if esc then csv_unescape raw else raw), wasQuoted = True, fromScratch = esc, cellAt = i + 1\<rparr>"
        using True Some x csv_inner_escaped [of False "[]" "tl s" raw rest] by (cases s) (auto simp: cell_within_def)
      show ?thesis
      proof (cases "from_comma rest = [] \<or> tl (from_comma rest) = []")
        case True
        then show ?thesis using here \<open>s \<noteq> [] \<and> hd s = QUOTE\<close> Some x
          by (subst csv_cells.simps) (auto simp: Let_def cell_within_def empty_cell_def)
      next
        case False
        let ?i = "i + length raw + 2 + length (to_comma rest) + 1" and ?s = "tl (from_comma rest)"
        have "?i + length ?s \<le> i + length s" using True False len by (cases s; cases "from_comma rest") auto
        moreover have "\<forall>cell\<in>set (fst (csv_cells ?i ?s)). cell_within (?i + length ?s) cell"
          using 1(1) [OF True Some x [symmetric] refl refl refl] False by simp
        ultimately have "\<forall>cell\<in>set (fst (csv_cells ?i ?s)). cell_within (i + length s) cell"
          by (meson cell_within_def order_trans)
        then show ?thesis using here True False Some x
          by (subst csv_cells.simps) (auto simp: Let_def split: prod.splits)
      qed
    qed
  next
    case False
    note len = split_comma [of s]
    show ?thesis
    proof (cases "from_comma s = [] \<or> tl (from_comma s) = []")
      case True
      then show ?thesis using False by (subst csv_cells.simps) (auto simp: Let_def cell_within_def empty_cell_def)
    next
      case rest: False
      let ?i = "i + length (to_comma s) + 1" and ?s = "tl (from_comma s)"
      have "?i + length ?s \<le> i + length s" using rest len by (cases "from_comma s") auto
      moreover have "\<forall>cell\<in>set (fst (csv_cells ?i ?s)). cell_within (?i + length ?s) cell"
        using 1(2) [OF False refl refl] rest by simp
      ultimately have "\<forall>cell\<in>set (fst (csv_cells ?i ?s)). cell_within (i + length s) cell"
        by (meson cell_within_def order_trans)
      then show ?thesis using False rest
        by (subst csv_cells.simps) (auto simp: Let_def cell_within_def split: prod.splits)
    qed
  qed
qed

definition no_owned :: "field list \<Rightarrow> bool" where
  "no_owned fs \<longleftrightarrow> (\<forall>(k, v)\<in>set fs. tag v \<noteq> OwnedString)"

lemma MakeString_owned:
  "MakeStringCompact sv (Some off) sz arena = (c, arena') \<Longrightarrow> sv = [] \<longrightarrow> off \<le> sz \<Longrightarrow> arena' = [] \<longrightarrow> arena = [] \<and> tag c \<noteq> OwnedString"
  by (auto simp: MakeStringCompact_def MakeMmapSlice_def split: if_splits)

lemma Classify_owned:
  assumes "ClassifyBareScalar h raw (Some off) sz arena = (c, arena')"
  shows "arena' = [] \<longrightarrow> arena = [] \<and> tag c \<noteq> OwnedString"
proof -
  have "(tag c \<noteq> OwnedString \<and> arena' = arena) \<or> raw \<noteq> [] \<and> MakeStringCompact raw (Some off) sz arena = (c, arena')"
    using assms unfolding ClassifyBareScalar_def
    by (auto simp: MakeMonostate_def MakeBool_def MakeInt64_def MakeUint64_def MakeDouble_def split: if_splits option.splits)
  then show ?thesis using MakeString_owned by blast
qed

lemma csv_compact_owned:
  assumes "csv_compact h (Some at) sz cell arena = (c, arena')" "cell_within n cell" "at + n \<le> sz"
  shows "arena' = [] \<longrightarrow> arena = [] \<and> tag c \<noteq> OwnedString"
proof (cases "wasQuoted cell")
  case True
  then show ?thesis
    using assms MakeString_owned [of "cellText cell" "at + cellAt cell" sz arena c arena']
    by (auto simp: csv_compact_def cell_within_def split: if_splits)
next
  case False
  then show ?thesis using assms(1) Classify_owned by (simp add: csv_compact_def)
qed

lemma csv_fields_owned:
  "csv_fields h lineAt sz ks cells arena = (fs, extra, arena') \<Longrightarrow> lineAt = Some at \<Longrightarrow> \<forall>cell\<in>set cells. cell_within n cell \<Longrightarrow>
    at + n \<le> sz \<Longrightarrow> arena' = [] \<longrightarrow> arena = [] \<and> no_owned fs"
proof (induction h lineAt sz ks cells arena arbitrary: fs extra arena' rule: csv_fields.induct)
  case (3 h lineAt sz k ks cell cells arena)
  show ?case
  proof (cases "cellText cell = [] \<and> \<not> wasQuoted cell")
    case True
    with 3(1,3-6) show ?thesis by simp
  next
    case False
    obtain c arena1 where c: "csv_compact h lineAt sz cell arena = (c, arena1)" by fastforce
    obtain fs1 extra1 arena2 where rest: "csv_fields h lineAt sz ks cells arena1 = (fs1, extra1, arena2)" by (metis prod_cases3)
    with False c 3(3) have "fs = (k, c) # fs1" "arena' = arena2" by auto
    moreover have "arena1 = [] \<longrightarrow> arena = [] \<and> tag c \<noteq> OwnedString"
      using csv_compact_owned [of h at sz cell arena c arena1 n] c 3(4-6) by simp
    ultimately show ?thesis using 3(2) [OF False c [symmetric] rest] 3(4-6) by (auto simp: no_owned_def)
  qed
qed (simp_all add: no_owned_def)

lemma ParseCsvLine_owned:
  assumes "ParseCsvLine h line ks (Some at) sz arena = (fs, unterminated, extra, arena')" "at + length line \<le> sz"
  shows "arena' = [] \<longrightarrow> arena = [] \<and> no_owned fs"
  using assms csv_cells_within [of 0 line] csv_fields_owned [OF _ refl]
  by (fastforce simp: ParseCsvLine_def TokenizeCsvLine_def split: prod.splits)

definition arena_ok :: "csv_batch \<Rightarrow> bool" where
  "arena_ok b \<longleftrightarrow> (ppOwnedStringsArena (cbParsed b) = [] \<longrightarrow> (\<forall>l\<in>set (ppLines (cbParsed b)). no_owned (mData (mFields l))))"

lemma no_owned_sort: "no_owned fs \<Longrightarrow> no_owned (sort_key fst fs)"
  by (simp add: no_owned_def)

text \<open>What the decoder keeps: the arena is used by what is stored in it, and no record stays open.\<close>

definition csv_batch_ok :: "csv_batch \<Rightarrow> bool" where
  "csv_batch_ok b \<longleftrightarrow> arena_ok b \<and> closed_batch (cbParsed b) \<and> 1 \<le> cbRelativeLineNumber b"

lemma csv_data_line_ok:
  assumes "ceTimeColumns e = []" "at + length line \<le> length (mMmap (ceFile e))" "csv_batch_ok b"
  shows "csv_batch_ok (csv_data_line e at line b)"
proof -
  obtain fs unterminated extra arena where r: "ParseCsvLine (ceFromChars e) line (ceColumnKeys e) (Some at) (length (mMmap (ceFile e)))
      (ppOwnedStringsArena (cbParsed b)) = (fs, unterminated, extra, arena)"
    by (metis prod_cases4)
  note owned = ParseCsvLine_owned [OF r assms(2)]
  have "mData (mFields (LogLine_compact fs' n)) = fs'" for fs' n
    by (simp add: LogLine_compact_def AssignSorted_def Let_def)
  then show ?thesis
    using assms(1,3) owned no_owned_sort [of fs]
    by (auto simp: csv_data_line_def Let_def r csv_batch_ok_def arena_ok_def closed_batch_def)
qed

lemma StripCr_length: "length (StripCr s) \<le> length s"
  by (simp add: StripCr_def)

lemma csv_physical_line_ok:
  assumes "ceTimeColumns e = []" "at + length raw \<le> length (mMmap (ceFile e))" "csv_batch_ok b"
  shows "csv_batch_ok (csv_physical_line e at raw b)"
proof -
  define b1 where "b1 = b\<lparr>cbParsed := (cbParsed b)\<lparr>ppLocalLineOffsets := ppLocalLineOffsets (cbParsed b) @ [at + length raw + 1]\<rparr>\<rparr>"
  have ok1: "csv_batch_ok b1" using assms(3) by (simp add: b1_def csv_batch_ok_def arena_ok_def closed_batch_def)
  then have "csv_batch_ok (csv_data_line e at (StripCr raw) b1)"
    using assms(1,2) StripCr_length [of raw] by (intro csv_data_line_ok) simp_all
  with ok1 show ?thesis
    unfolding csv_physical_line_def Let_def b1_def [symmetric]
    by (simp add: csv_batch_ok_def arena_ok_def)
qed

lemma to_newline_length: "length (to_newline s) \<le> length s"
  by (rule length_takeWhile_le)

lemma csv_loop_ok:
  "ceTimeColumns e = [] \<Longrightarrow> at + length bytes \<le> length (mMmap (ceFile e)) \<Longrightarrow> csv_batch_ok b \<Longrightarrow> csv_batch_ok (csv_loop e at bytes b)"
proof (induction e at bytes b rule: csv_loop.induct)
  case (1 e at bytes b)
  show ?case
  proof (cases "bytes = []")
    case False
    let ?n = "length (to_newline bytes) + 1"
    have raw: "at + length (to_newline bytes) \<le> length (mMmap (ceFile e))" using to_newline_length [of bytes] 1(3) by simp
    show ?thesis
    proof (cases "?n \<le> length bytes")
      case True
      with 1(1) [OF False refl refl 1(2)] 1(3) csv_physical_line_ok [OF 1(2) raw 1(4)] False
      show ?thesis by (subst csv_loop.simps) (simp add: Let_def)
    next
      case short: False
      with csv_physical_line_ok [OF 1(2) raw 1(4)] False show ?thesis
        by (subst csv_loop.simps) (simp add: Let_def csv_loop.simps [of _ _ "[]"])
    qed
  qed (use 1 in \<open>simp add: csv_loop.simps\<close>)
qed

lemma new_csv_batch_ok: "csv_batch_ok (new_csv_batch scratch)"
  by (simp add: csv_batch_ok_def arena_ok_def closed_batch_def new_csv_batch_def new_ParsedPipelineBatch_def)

section \<open>The run\<close>

lemma place_lines_ok:
  assumes "arena_ok b" "ppLines p = ppLines (cbParsed b)" "ppOwnedStringsArena p = ppOwnedStringsArena (cbParsed b)"
  shows "ppLines (fst (place_lines d p file)) = map (place_line (length (mOwnedStrings file)) d) (ppLines p)"
    "snd (place_lines d p file) = file\<lparr>mOwnedStrings := mOwnedStrings file @ ppOwnedStringsArena p\<rparr>"
proof -
  have keep: "line_Rebase w (ShiftLineId d l) = ShiftLineId d l" if "no_owned (mData (mFields l))" for w l
  proof -
    have "RebaseOwnedStringOffsets w (mData (mFields l)) = mData (mFields l)"
      using that by (auto simp: Rebase_shift no_owned_def shift_owned_def intro!: map_idI)
    then show ?thesis by (simp add: line_Rebase_def ShiftLineId_def Let_def)
  qed
  show "ppLines (fst (place_lines d p file)) = map (place_line (length (mOwnedStrings file)) d) (ppLines p)"
    using assms keep by (auto simp: place_lines_def Let_def AppendOwnedStrings_def place_line_def arena_ok_def)
  show "snd (place_lines d p file) = file\<lparr>mOwnedStrings := mOwnedStrings file @ ppOwnedStringsArena p\<rparr>"
    by (simp add: place_lines_def Let_def AppendOwnedStrings_def)
qed

lemma place_line_add: "place_line a 0 (place_line b d line) = place_line (a + b) d line"
  by (simp add: place_line_def line_Rebase_Shift line_Rebase_add)

lemma batch_errors_shift: "batch_errors 0 (es @ map (shift_error d) es') = batch_errors 0 es @ batch_errors d es'"
  by (simp add: batch_errors_def shift_error_def)

text \<open>The pipeline has delivered the batch \<open>b\<close>, placed in the file.\<close>

definition delivered_batch :: "LogFile \<Rightarrow> csv_batch \<Rightarrow> LogLine list \<times> string list \<times> nat list \<times> (nat \<times> nat) list" where
  "delivered_batch file b =
     (map (place_line (length (mOwnedStrings file)) 0) (ppLines (cbParsed b)), batch_errors 0 (ppErrors (cbParsed b)),
      ppLocalLineOffsets (cbParsed b), [])"

definition has_delivered :: "LogFile \<Rightarrow> bool \<Rightarrow> csv_batch \<Rightarrow> pipeline \<Rightarrow> bool" where
  "has_delivered file u b st \<longleftrightarrow>
     piHeld st = None \<and> unsent_ok u (piCoalescer st) \<and> 1 \<le> cbRelativeLineNumber b \<and> piNextLineNumber st = cbRelativeLineNumber b \<and>
     piFile st = file\<lparr>mOwnedStrings := mOwnedStrings file @ ppOwnedStringsArena (cbParsed b)\<rparr> \<and>
     delivered (piCoalescer st) = delivered_batch file b"

lemma join_new: "1 \<le> cbRelativeLineNumber b \<Longrightarrow> join_batches b (new_csv_batch scratch) = b"
  by (simp add: join_batches_def new_csv_batch_def new_ParsedPipelineBatch_def Let_def)

lemma stage_c_delivers:
  assumes "ceTimeColumns e = []" "at + length part \<le> length (mMmap (ceFile e))" "has_delivered file u b st"
  shows "has_delivered file u (csv_loop e at part b) (stage_c u now ki (DecodeCsvBatch e scratch (at, part)) st)"
proof -
  define c where "c = csv_loop e at part (new_csv_batch scratch)"
  define p where "p = DecodeCsvBatch e scratch (at, part)"
  have p: "p = (cbParsed c)\<lparr>ppTotalLineCount := cbRelativeLineNumber c - 1\<rparr>" by (simp add: p_def DecodeCsvBatch_def c_def Let_def)
  have d: "piHeld st = None" "unsent_ok u (piCoalescer st)" "1 \<le> cbRelativeLineNumber b" "piNextLineNumber st = cbRelativeLineNumber b"
    "piFile st = file\<lparr>mOwnedStrings := mOwnedStrings file @ ppOwnedStringsArena (cbParsed b)\<rparr>"
    "delivered (piCoalescer st) = delivered_batch file b"
    using assms(3) by (simp_all add: has_delivered_def)
  have joined: "csv_loop e at part b = join_batches b c"
    using csv_loop_join [OF assms(1) d(3), of "new_csv_batch scratch" at part] join_new [OF d(3)]
    by (simp add: c_def new_csv_batch_def)
  have ok: "arena_ok c" "closed_batch p" "1 \<le> cbRelativeLineNumber c"
    using csv_loop_ok [OF assms(1,2) new_csv_batch_ok, of scratch]
    by (simp_all add: c_def [symmetric] csv_batch_ok_def p closed_batch_def)
  have placed: "ppLines (fst (place_lines n p f)) = map (place_line (length (mOwnedStrings f)) n) (ppLines (cbParsed c))"
    "snd (place_lines n p f) = f\<lparr>mOwnedStrings := mOwnedStrings f @ ppOwnedStringsArena (cbParsed c)\<rparr>" for n f
    using place_lines_ok [OF ok(1), of p n f] by (simp_all add: p)
  obtain co where co:
    "stage_c u now ki p st = st\<lparr>piFile := snd (place_lines (piNextLineNumber st - 1) p (piFile st)),
       piNextLineNumber := piNextLineNumber st + ppTotalLineCount p, piCoalescer := co\<rparr>" "unsent_ok u co"
    "delivered co = join_delivery (delivered (piCoalescer st))
       (ppLines (fst (place_lines (piNextLineNumber st - 1) p (piFile st))), batch_errors (piNextLineNumber st - 1) (ppErrors p),
        ppLocalLineOffsets p, [])"
    by (rule stage_c_closed [OF ok(2) d(1,2)])
  have "delivered co = delivered_batch file (join_batches b c)"
    unfolding co(3) d(4,5,6) placed
    by (simp add: delivered_batch_def join_batches_def Let_def place_line_add comp_def batch_errors_shift p)
  moreover have "ppTotalLineCount p = cbRelativeLineNumber c - 1" by (simp add: p)
  ultimately show ?thesis
    unfolding has_delivered_def joined p_def [symmetric] co(1)
    using co(2) d(1,3,4,5) ok(3) by (simp add: placed join_batches_def Let_def)
qed

lemma run_stage_c_fold: "run_stage_c u xs st = fold (\<lambda>(now, ki, p). stage_c u now ki p) xs st"
  by (induction u xs st rule: run_stage_c.induct) simp_all

lemma run_stage_c_delivers:
  assumes "ceTimeColumns e = []" "\<forall>(at, part)\<in>set ranges. at + length part \<le> length (mMmap (ceFile e))"
    "length nows = length ranges" "length scratches = length ranges"
  shows "has_delivered file u b st \<Longrightarrow>
    has_delivered file u (fold (\<lambda>(at, part). csv_loop e at part) ranges b)
      (run_stage_c u (map (\<lambda>(now, p). (now, ki, p)) (zip nows (map2 (DecodeCsvBatch e) scratches ranges))) st)"
  using assms(2,3,4)
proof (induction ranges arbitrary: nows scratches b st)
  case (Cons r rs)
  obtain at part where r: "r = (at, part)" by (cases r)
  obtain now nows' scr scrs' where "nows = now # nows'" "scratches = scr # scrs'"
    using Cons.prems(3,4) by (cases nows; cases scratches) auto
  with Cons stage_c_delivers [OF assms(1) _ Cons.prems(1), of at part now ki scr] show ?case by (auto simp: r)
qed simp

text \<open>The whole file in one range, the reference.\<close>

definition csv_whole :: "csv_env \<Rightarrow> csv_batch" where
  "csv_whole e = csv_loop e 0 (mMmap (ceFile e)) (new_csv_batch [])"

lemma csv_batches_map: "csv_batches r e ranges = map2 (DecodeCsvBatch e) (map (srScratch r) [0..<length ranges]) ranges"
  by (simp add: csv_batches_def map_zip_map)

text \<open>What a finished run comes to: what the sink was given, the file with its arena, the next line number.\<close>

definition file_outcome :: "pipeline \<Rightarrow> (LogLine list \<times> string list \<times> nat list \<times> (nat \<times> nat) list) \<times> LogFile \<times> nat" where
  "file_outcome st = (delivered (piCoalescer st), piFile st, piNextLineNumber st)"

lemma RunStaticParserPipeline_csv:
  assumes "ceTimeColumns e = []" "ceFile e = file" "srStop r = None"
  shows "file_outcome (RunStaticParserPipeline u cancelled now ki0 ki baseline
      (map (\<lambda>(i, p). (srClock r (Suc i), ki, p))
        (zip [0..<length (csv_batches r e (taken_ranges r file))] (csv_batches r e (taken_ranges r file)))) file) =
    (delivered_batch file (csv_whole e), file\<lparr>mOwnedStrings := mOwnedStrings file @ ppOwnedStringsArena (cbParsed (csv_whole e))\<rparr>,
     cbRelativeLineNumber (csv_whole e))"
proof -
  define ranges where "ranges = byte_ranges (srBatchSize r) 0 (mMmap file)"
  have taken: "taken_ranges r file = ranges" by (simp add: taken_ranges_def assms(3) ranges_def)
  define st where "st = \<lparr>piFile = file, piNextLineNumber = 1, piHeld = None,
    piCoalescer = new_BatchCoalescer ki0 STATIC_BATCH_FLUSH_LINES STATIC_BATCH_FLUSH_INTERVAL baseline now\<rparr>"
  have start: "has_delivered file u (new_csv_batch []) st"
    by (simp add: has_delivered_def st_def unsent_ok_def new_BatchCoalescer_def new_csv_batch_def new_ParsedPipelineBatch_def
        delivered_batch_def batch_errors_def delivered_def delivered_defs empty_batch_def in_pending_def)
  have within: "\<forall>(at, part)\<in>set ranges. at + length part \<le> length (mMmap (ceFile e))"
    using byte_ranges_within [of _ _ "srBatchSize r" 0 "mMmap file"] by (auto simp: ranges_def assms(2))
  let ?inputs = "map (\<lambda>(i, p). (srClock r (Suc i), ki, p)) (zip [0..<length ranges] (csv_batches r e ranges))"
  have inputs: "?inputs = map (\<lambda>(now, p). (now, ki, p)) (zip (map (\<lambda>i. srClock r (Suc i)) [0..<length ranges])
      (map2 (DecodeCsvBatch e) (map (srScratch r) [0..<length ranges]) ranges))"
    by (simp add: csv_batches_map zip_map1 comp_def case_prod_beta')
  have "has_delivered file u (fold (\<lambda>(at, part). csv_loop e at part) ranges (new_csv_batch [])) (run_stage_c u ?inputs st)"
    unfolding inputs using within start by (intro run_stage_c_delivers assms(1)) simp_all
  moreover have "fold (\<lambda>(at, part). csv_loop e at part) ranges (new_csv_batch []) = csv_whole e"
    by (simp add: ranges_def csv_loop_ranges csv_whole_def assms(2))
  ultimately have "has_delivered file u (csv_whole e) (run_stage_c u ?inputs st)" by simp
  moreover have "length (csv_batches r e ranges) = length ranges" by (simp add: csv_batches_map)
  ultimately show ?thesis
    unfolding taken RunStaticParserPipeline_def Let_def st_def [symmetric]
    by (simp add: file_outcome_def has_delivered_def seal_held_def)
qed

text \<open>A file without time columns: what the parser gives does not depend on the run.\<close>

definition no_time_columns :: "Column list \<Rightarrow> bool" where
  "no_time_columns columns \<longleftrightarrow> list_all (\<lambda>c. ctype c \<noteq> CtTime) columns"

lemma BuildTimeColumnSpecs_none: "no_time_columns columns \<Longrightarrow> BuildTimeColumnSpecs ex columns ki = ([], ki)"
  by (induction columns) (simp_all add: no_time_columns_def)

definition csv_file_env :: "bool \<Rightarrow> date_lib \<Rightarrow> nat option \<Rightarrow> KeyId list \<Rightarrow> LogFile \<Rightarrow> csv_env" where
  "csv_file_env hasFromChars dl headerAt ids file =
     \<lparr>ceFromChars = hasFromChars, ceDates = dl, ceFile = file, ceTimeColumns = [], ceColumnKeys = ids, ceHeaderLineOffset = headerAt\<rparr>"

lemma csv_run_outcome:
  assumes "no_time_columns columns" "srStop r = None"
  shows "snd (csv_run r hasFromChars ex dl columns baseline headerAt ids ki file) = ki \<and>
    file_outcome (fst (csv_run r hasFromChars ex dl columns baseline headerAt ids ki file)) =
      (let b = csv_whole (csv_file_env hasFromChars dl headerAt ids file)
       in (delivered_batch file b, file\<lparr>mOwnedStrings := mOwnedStrings file @ ppOwnedStringsArena (cbParsed b)\<rparr>, cbRelativeLineNumber b))"
proof -
  let ?e = "csv_file_env hasFromChars dl headerAt ids file"
  have e: "ceTimeColumns ?e = []" "ceFile ?e = file" by (simp_all add: csv_file_env_def)
  note run = RunStaticParserPipeline_csv [OF e assms(2), where ki = ki]
  show ?thesis
  proof (cases "mMmap file = []")
    case True
    then have "taken_ranges r file = []" by (simp add: taken_ranges_def byte_ranges.simps assms(2))
    with run show ?thesis by (simp add: csv_run_def True Let_def csv_batches_def)
  next
    case False
    with run show ?thesis
      by (simp add: csv_run_def Let_def assms(2) BuildTimeColumnSpecs_none [OF assms(1)] csv_file_env_def)
  qed
qed

lemma csv_ParseStreaming_outcome:
  assumes "no_time_columns columns" "srStop r = None"
  shows "file_outcome (fst (csv_ParseStreaming r hasFromChars ex dl columns ki file)) =
      (let reference = (\<lambda>headerAt ids. let b = csv_whole (csv_file_env hasFromChars dl headerAt ids file)
          in (delivered_batch file b, file\<lparr>mOwnedStrings := mOwnedStrings file @ ppOwnedStringsArena (cbParsed b)\<rparr>, cbRelativeLineNumber b))
       in case find_header 0 0 (mMmap file) of
            None \<Rightarrow> reference None []
          | Some (at, number, header) \<Rightarrow>
              (case ParseHeaderLine ex header ki of (ok, kids, ki1) \<Rightarrow>
                 if ok then reference (Some at) kids
                 else (([], [''Error on line '' @ show_nat number @ '': Invalid CSV header.''], [], []), file, 1))) \<and>
    snd (csv_ParseStreaming r hasFromChars ex dl columns ki file) =
      (case find_header 0 0 (mMmap file) of None \<Rightarrow> ki | Some (at, number, header) \<Rightarrow> snd (snd (ParseHeaderLine ex header ki)))"
proof -
  have "file_outcome (failed_header r number ki1 baseline file) =
      (([], [''Error on line '' @ show_nat number @ '': Invalid CSV header.''], [], []), file, 1)" for number ki1 baseline
    by (simp add: file_outcome_def failed_header_def delivered_def delivered_defs add_error_def new_BatchCoalescer_def empty_batch_def
        flip: delivered_def)
       (simp add: delivered_def delivered_defs)
  then show ?thesis
    using csv_run_outcome [OF assms]
    by (auto simp: csv_ParseStreaming_def Let_def split: option.split prod.split)
qed

end
