(* ===== verification/Csv_File_Lines.thy ===== *)
theory Csv_File_Lines
  imports Csv_File_Correct "HOL-Library.Sublist"
begin

text \<open>
  The rows of a CSV file and its physical lines: the offsets that the pipeline delivers are those
  behind the lines, and every row is the record of the line that its id names.
\<close>

section \<open>Physical lines\<close>

function physical_lines :: "string \<Rightarrow> string list" where
  "physical_lines bytes =
     (if bytes = [] then [] else to_newline bytes # physical_lines (drop (length (to_newline bytes) + 1) bytes))"
  by pat_completeness auto
termination by (relation "measure length") auto

declare physical_lines.simps [simp del]

lemma terminated_simps [simp]: "terminated [] = []" "terminated (l # ls) = l @ NEWLINE # terminated ls"
  "terminated (ls @ ls') = terminated ls @ terminated ls'"
  by (simp_all add: terminated_def)

lemma physical_lines_terminated:
  "bytes = terminated (physical_lines bytes) \<or> bytes @ [NEWLINE] = terminated (physical_lines bytes)"
proof (induction bytes rule: physical_lines.induct)
  case ind: (1 bytes)
  show ?case
  proof (cases "bytes = []")
    case False
    define raw rest where "raw = to_newline bytes" and "rest = drop (length raw + 1) bytes"
    have split: "raw @ NEWLINE # rest = bytes \<or> raw = bytes \<and> rest = []"
    proof (cases "NEWLINE \<in> set bytes")
      case True
      then show ?thesis unfolding rest_def raw_def by (induction bytes) auto
    next
      case False
      then have "raw = bytes" unfolding raw_def by (induction bytes) auto
      then show ?thesis by (simp add: rest_def)
    qed
    have "physical_lines bytes = raw # physical_lines rest"
      using False by (subst physical_lines.simps) (simp add: raw_def rest_def)
    then have all: "terminated (physical_lines bytes) = raw @ NEWLINE # terminated (physical_lines rest)" by simp
    consider "raw @ NEWLINE # rest = bytes" | "raw = bytes" "rest = []" using split by blast
    then show ?thesis
    proof cases
      case 1
      have "rest = terminated (physical_lines rest) \<or> rest @ [NEWLINE] = terminated (physical_lines rest)"
        using ind [OF False] by (simp add: raw_def rest_def)
      then show ?thesis
      proof
        assume "rest = terminated (physical_lines rest)"
        then show ?thesis unfolding all using 1 by simp
      next
        assume "rest @ [NEWLINE] = terminated (physical_lines rest)"
        moreover have "bytes @ [NEWLINE] = raw @ NEWLINE # (rest @ [NEWLINE])" by (simp flip: 1)
        ultimately show ?thesis unfolding all by metis
      qed
    next
      case 2
      then show ?thesis by (simp add: all) (simp add: physical_lines.simps)
    qed
  qed (simp add: physical_lines.simps)
qed

fun csv_line_loop :: "csv_env \<Rightarrow> nat \<Rightarrow> string list \<Rightarrow> csv_batch \<Rightarrow> csv_batch" where
  "csv_line_loop e at [] b = b"
| "csv_line_loop e at (l # ls) b = csv_line_loop e (at + length l + 1) ls (csv_physical_line e at l b)"

lemma csv_loop_lines: "csv_loop e at bytes b = csv_line_loop e at (physical_lines bytes) b"
proof (induction e at bytes b rule: csv_loop.induct)
  case (1 e at bytes b)
  then show ?case by (subst csv_loop.simps, subst physical_lines.simps) (simp add: Let_def)
qed

section \<open>What the loop keeps\<close>

text \<open>A row is the record of the line that its id names, with its owned strings in the arena.\<close>

definition row_of :: "csv_env \<Rightarrow> string list \<Rightarrow> string \<Rightarrow> LogLine \<Rightarrow> bool" where
  "row_of e ls arena row \<longleftrightarrow> mLineId row < length ls \<and>
     (\<exists>vs before after.
        ParseCsvLine (ceFromChars e) (StripCr (ls ! mLineId row)) (ceColumnKeys e) (Some (length (terminated (take (mLineId row) ls))))
          (length (mMmap (ceFile e))) before = (vs, False, 0, after) \<and>
        mData (mFields row) = sort_key fst vs \<and> prefix after arena)"

definition rows_ok :: "csv_env \<Rightarrow> string list \<Rightarrow> csv_batch \<Rightarrow> bool" where
  "rows_ok e ls b \<longleftrightarrow> cbRelativeLineNumber b = length ls + 1 \<and>
     ppLocalLineOffsets (cbParsed b) = offsets_behind ls \<and>
     sorted_wrt (<) (map mLineId (ppLines (cbParsed b))) \<and>
     (\<forall>row\<in>set (ppLines (cbParsed b)). row_of e ls (ppOwnedStringsArena (cbParsed b)) row)"

lemma row_of_more:
  assumes "row_of e ls arena row" "prefix arena arena'"
  shows "row_of e (ls @ ls') arena' row"
proof -
  from assms(1) have "(ls @ ls') ! mLineId row = ls ! mLineId row" "take (mLineId row) (ls @ ls') = take (mLineId row) ls"
    by (simp_all add: row_of_def nth_append)
  with assms show ?thesis by (auto simp: row_of_def intro: prefix_order.trans)
qed

lemma ParseCsvLine_arena: "ParseCsvLine h line ks at sz arena = (vs, unterminated, extra, arena') \<Longrightarrow> prefix arena arena'"
  using ParseCsvLine_behind [of h line ks at sz arena "[]"] by (auto split: prod.splits)

lemma offsets_behind_snoc: "offsets_behind (ls @ [l]) = offsets_behind ls @ [length (terminated ls) + length l + 1]"
proof -
  have "map (\<lambda>i. length (terminated (take (i + 1) (ls @ [l])))) [0..<length ls] = offsets_behind ls"
    unfolding offsets_behind_def by (rule map_cong) simp_all
  then show ?thesis by (simp add: offsets_behind_def)
qed

lemma rows_ok_step:
  assumes "ceTimeColumns e = []" "rows_ok e ls b"
  shows "rows_ok e (ls @ [l]) (csv_physical_line e (length (terminated ls)) l b)"
proof -
  let ?at = "length (terminated ls)" and ?p = "cbParsed b"
  have b: "cbRelativeLineNumber b = length ls + 1" "ppLocalLineOffsets ?p = offsets_behind ls"
    "sorted_wrt (<) (map mLineId (ppLines ?p))" "\<And>row. row \<in> set (ppLines ?p) \<Longrightarrow> row_of e ls (ppOwnedStringsArena ?p) row"
    using assms(2) by (auto simp: rows_ok_def)
  obtain vs unterminated extra arena where r: "ParseCsvLine (ceFromChars e) (StripCr l) (ceColumnKeys e) (Some ?at) (length (mMmap (ceFile e)))
      (ppOwnedStringsArena ?p) = (vs, unterminated, extra, arena)"
    by (metis prod_cases4)
  note grows = ParseCsvLine_arena [OF r]
  have old: "row_of e (ls @ [l]) arena row" "row_of e (ls @ [l]) (ppOwnedStringsArena ?p) row" if "row \<in> set (ppLines ?p)" for row
    using row_of_more [OF b(4) [OF that]] grows by auto
  have below: "mLineId row < length ls" if "row \<in> set (ppLines ?p)" for row using b(4) [OF that] by (simp add: row_of_def)
  let ?row = "LogLine_compact (sort_key fst vs) (length ls)"
  have id: "mLineId ?row = length ls" "mData (mFields ?row) = sort_key fst vs"
    by (simp_all add: LogLine_compact_def AssignSorted_def Let_def)
  have new: "row_of e (ls @ [l]) arena ?row" if "\<not> unterminated" "extra = 0"
    unfolding row_of_def id using r that by auto
  show ?thesis
    unfolding rows_ok_def csv_physical_line_def csv_data_line_def Let_def offsets_behind_snoc
    using b(1,2,3) old below new assms(1)
    by (auto simp: r sorted_wrt_append id)
qed

lemma csv_line_loop_ok:
  "ceTimeColumns e = [] \<Longrightarrow> rows_ok e before b \<Longrightarrow> rows_ok e (before @ ls) (csv_line_loop e (length (terminated before)) ls b)"
proof (induction ls arbitrary: before b)
  case (Cons l ls)
  have "length (terminated (before @ [l])) = length (terminated before) + length l + 1" by simp
  with Cons.IH [OF Cons.prems(1) rows_ok_step [OF Cons.prems, of l]] show ?case by simp
qed simp

lemma csv_whole_rows:
  assumes "ceTimeColumns e = []"
  shows "rows_ok e (physical_lines (mMmap (ceFile e))) (csv_whole e)"
proof -
  have "rows_ok e [] (new_csv_batch [])"
    by (simp add: rows_ok_def new_csv_batch_def new_ParsedPipelineBatch_def offsets_behind_def)
  from csv_line_loop_ok [OF assms this, of "physical_lines (mMmap (ceFile e))"] show ?thesis by (simp add: csv_whole_def csv_loop_lines)
qed

section \<open>The finished file\<close>

definition csv_file_columns :: "externals \<Rightarrow> KeyIndex \<Rightarrow> string \<Rightarrow> KeyId list" where
  "csv_file_columns ex ki bytes =
     (case find_header 0 0 bytes of
        None \<Rightarrow> []
      | Some (at, number, header) \<Rightarrow> (case ParseHeaderLine ex header ki of (ok, kids, ki1) \<Rightarrow> kids))"

text \<open>The file as the sink leaves it: with the offsets of all batches.\<close>

definition indexed_file :: "pipeline \<Rightarrow> LogFile" where
  "indexed_file st = AppendLineOffsets (delivered_offsets (piCoalescer st)) (piFile st)"

lemma place_line_0: "place_line 0 0 = id"
  by (rule ext) (simp add: place_line_def line_Rebase_def RebaseOwnedStringOffsets_def)

lemma GetLine_arena: "GetLine (f\<lparr>mOwnedStrings := bytes\<rparr>) i = GetLine f i"
  unfolding GetLine_def stop_line_def Let_def by (simp split: option.split)

lemma Append_offsets_arena: "AppendLineOffsets os (f\<lparr>mOwnedStrings := bytes\<rparr>) = (AppendLineOffsets os f)\<lparr>mOwnedStrings := bytes\<rparr>"
  by (simp add: AppendLineOffsets_def)

text \<open>The outcome of a run whose header is valid or missing.\<close>

lemma csv_file_delivers:
  fixes bytes :: string
  defines "file \<equiv> new_LogFile bytes"
  assumes "no_time_columns columns" "srStop r = None" "st = fst (csv_ParseStreaming r hasFromChars ex dl columns ki file)"
    and ok: "case find_header 0 0 bytes of None \<Rightarrow> True | Some (at, number, header) \<Rightarrow> fst (ParseHeaderLine ex header ki)"
  obtains e b where "ceTimeColumns e = []" "ceFromChars e = hasFromChars" "ceColumnKeys e = csv_file_columns ex ki bytes" "ceFile e = file"
    "rows_ok e (physical_lines bytes) b" "delivered_lines (piCoalescer st) = ppLines (cbParsed b)"
    "indexed_file st = (AppendLineOffsets (offsets_behind (physical_lines bytes)) file)\<lparr>mOwnedStrings := ppOwnedStringsArena (cbParsed b)\<rparr>"
    "piNextLineNumber st = length (physical_lines bytes) + 1"
proof -
  define e where "e = csv_file_env hasFromChars dl (map_option fst (find_header 0 0 bytes)) (csv_file_columns ex ki bytes) file"
  have e: "ceTimeColumns e = []" "ceFile e = file" "mMmap file = bytes" "mOwnedStrings file = []"
    by (simp_all add: e_def csv_file_env_def file_def new_LogFile_def)
  from csv_whole_rows [OF e(1)] have rows: "rows_ok e (physical_lines bytes) (csv_whole e)" by (simp add: e)
  have "file_outcome st = (delivered_batch file (csv_whole e), file\<lparr>mOwnedStrings := ppOwnedStringsArena (cbParsed (csv_whole e))\<rparr>,
      cbRelativeLineNumber (csv_whole e))"
    using csv_ParseStreaming_outcome [OF assms(2,3), of hasFromChars ex dl ki] ok unfolding assms(4)
    by (auto simp: Let_def e e_def csv_file_columns_def split: option.splits prod.splits)
  then have "delivered_lines (piCoalescer st) = ppLines (cbParsed (csv_whole e))"
    "delivered_offsets (piCoalescer st) = ppLocalLineOffsets (cbParsed (csv_whole e))"
    "piFile st = file\<lparr>mOwnedStrings := ppOwnedStringsArena (cbParsed (csv_whole e))\<rparr>"
    "piNextLineNumber st = cbRelativeLineNumber (csv_whole e)"
    by (simp_all add: file_outcome_def delivered_def delivered_batch_def e place_line_0)
  with that [OF e(1) _ _ e(2) rows] rows show ?thesis
    by (simp add: rows_ok_def indexed_file_def Append_offsets_arena) (simp add: e_def csv_file_env_def)
qed

lemma strip_return_StripCr: "strip_return s = StripCr s"
  by (simp add: strip_return_def StripCr_def)

lemma line_starts: "i \<le> length ls \<Longrightarrow> mLineOffsets (AppendLineOffsets (offsets_behind ls) (new_LogFile bytes)) ! i = length (terminated (take i ls))"
  by (cases i) (simp_all add: AppendLineOffsets_def new_LogFile_def offsets_behind_def)

lemma csv_file_rows:
  assumes "no_time_columns columns" "srStop r = None" "st = fst (csv_ParseStreaming r hasFromChars ex dl columns ki (new_LogFile bytes))"
    "case find_header 0 0 bytes of None \<Rightarrow> True | Some (at, number, header) \<Rightarrow> fst (ParseHeaderLine ex header ki)"
  shows "sorted_wrt (<) (map mLineId (delivered_lines (piCoalescer st))) \<and>
    (\<forall>row\<in>set (delivered_lines (piCoalescer st)). \<exists>line vs before after. GetLine (indexed_file st) (mLineId row) = Some line \<and>
       ParseCsvLine hasFromChars line (csv_file_columns ex ki bytes) (Some (mLineOffsets (indexed_file st) ! mLineId row)) (length bytes) before =
         (vs, False, 0, after) \<and>
       mData (mFields row) = sort_key fst vs \<and> prefix after (mOwnedStrings (indexed_file st)))"
proof -
  let ?ls = "physical_lines bytes"
  obtain e b where e: "ceFromChars e = hasFromChars" "ceColumnKeys e = csv_file_columns ex ki bytes" "ceFile e = new_LogFile bytes"
    "rows_ok e ?ls b" "delivered_lines (piCoalescer st) = ppLines (cbParsed b)"
    "indexed_file st = (AppendLineOffsets (offsets_behind ?ls) (new_LogFile bytes))\<lparr>mOwnedStrings := ppOwnedStringsArena (cbParsed b)\<rparr>"
    using csv_file_delivers [OF assms] by metis
  have size: "length (mMmap (new_LogFile bytes)) = length bytes" by (simp add: new_LogFile_def)
  have "\<exists>line vs before after. GetLine (indexed_file st) (mLineId row) = Some line \<and>
       ParseCsvLine hasFromChars line (csv_file_columns ex ki bytes) (Some (mLineOffsets (indexed_file st) ! mLineId row)) (length bytes) before =
         (vs, False, 0, after) \<and>
       mData (mFields row) = sort_key fst vs \<and> prefix after (mOwnedStrings (indexed_file st))"
    if "row \<in> set (ppLines (cbParsed b))" for row
  proof -
    have row: "row_of e ?ls (ppOwnedStringsArena (cbParsed b)) row" using e(4) that by (simp add: rows_ok_def)
    then have i: "mLineId row < length ?ls" by (simp add: row_of_def)
    have "GetLine (indexed_file st) (mLineId row) = Some (StripCr (?ls ! mLineId row))"
      using GetLine_lines [OF i physical_lines_terminated] by (simp add: e(6) GetLine_arena strip_return_StripCr)
    moreover have "mLineOffsets (indexed_file st) ! mLineId row = length (terminated (take (mLineId row) ?ls))"
      using line_starts [of "mLineId row" ?ls bytes] i by (simp add: e(6))
    ultimately show ?thesis using row by (simp add: row_of_def e size)
  qed
  then show ?thesis using e(4) by (simp add: rows_ok_def e(5))
qed

end
