(* ===== verification/Row_Compare.thy ===== *)
theory Row_Compare
  imports Log_Table
begin

text \<open>
  \<open>library/src/log_compare.cpp\<close>: the rank table of a dictionary, the three-way comparison of two
  rows by one column, and the permutation that sorts rows by a column.

  A three-way comparison is an \<open>int\<close>.  The parallel sort of TBB is a parameter; a run over the
  rows that TBB splits among its workers writes each slot once and is a \<open>map\<close>.
\<close>

section \<open>The rank table of a dictionary\<close>

type_synonym EnumDictRank = "16 word list"

definition make_EnumDictRank :: "EnumDictionary \<Rightarrow> EnumDictRank" where
  "make_EnumDictRank d =
     (let vs = mValues d;
          order = sort_key (\<lambda>i. vs ! i) [0..<length vs]
      in fold (\<lambda>rank ranks. ranks[order ! rank := word_of_nat rank]) [0..<length order] (replicate (length vs) 0))"

definition DictSize :: "EnumDictRank \<Rightarrow> 16 word" where
  "DictSize r = word_of_nat (length r)"

definition RankOf :: "EnumDictRank \<Rightarrow> EnumValueId \<Rightarrow> 16 word" where
  "RankOf r vid = (if unat vid \<ge> length r then word_of_nat (length r) else r ! unat vid)"

section \<open>Comparisons of values\<close>

definition ThreeWay :: "'a::linorder \<Rightarrow> 'a \<Rightarrow> int" where
  "ThreeWay lhs rhs = (if lhs < rhs then -1 else if rhs < lhs then 1 else 0)"

definition ThreeWayDouble :: "double \<Rightarrow> double \<Rightarrow> int" where
  "ThreeWayDouble lhs rhs =
     (if isnan lhs \<and> isnan rhs then 0
      else if isnan lhs then 1
      else if isnan rhs then -1
      else if d_less lhs rhs then -1
      else if d_less rhs lhs then 1
      else 0)"

text \<open>\<open>extract\<close> is not called on an absent value; values without an image come last.\<close>

definition CompareTyped :: "LogValue \<Rightarrow> LogValue \<Rightarrow> (LogValue \<Rightarrow> 'a option) \<Rightarrow> ('a \<Rightarrow> 'a \<Rightarrow> int) \<Rightarrow> int" where
  "CompareTyped lhs rhs extract cmp =
     (let lhsX = (if lhs = VMonostate then None else extract lhs);
          rhsX = (if rhs = VMonostate then None else extract rhs)
      in case (lhsX, rhsX) of
           (Some a, Some b) \<Rightarrow> cmp a b
         | (Some a, None) \<Rightarrow> -1
         | (None, Some b) \<Rightarrow> 1
         | (None, None) \<Rightarrow> 0)"

definition toBool :: "LogValue \<Rightarrow> bool option" where
  "toBool v = (case v of VBool b \<Rightarrow> Some b | _ \<Rightarrow> None)"

definition CompareBool :: "LogValue \<Rightarrow> LogValue \<Rightarrow> int" where
  "CompareBool lhs rhs = CompareTyped lhs rhs toBool ThreeWay"

abbreviation INT64_MAX :: int where "INT64_MAX \<equiv> 2 ^ 63 - 1"
abbreviation INT64_MIN :: int where "INT64_MIN \<equiv> - (2 ^ 63)"

definition clamp_uint64 :: "64 word \<Rightarrow> int" where
  "clamp_uint64 u = (if uint u > INT64_MAX then INT64_MAX else uint u)"

text \<open>\<open>static_cast\<close> to an integer drops the fraction.\<close>

definition d_trunc :: "double \<Rightarrow> int" where
  "d_trunc d = (let n = int (smag (dmag d) div 2 ^ 1074) in if dneg d then - n else n)"

definition toInt :: "LogValue \<Rightarrow> int option" where
  "toInt v =
     (case v of
        VInt64 i \<Rightarrow> Some (sint i)
      | VUint64 u \<Rightarrow> Some (clamp_uint64 u)
      | VDouble d \<Rightarrow>
          if isnan d then None
          else if \<not> d_less d (double_of_int INT64_MAX) then Some INT64_MAX
          else if \<not> d_less (double_of_int INT64_MIN) d then Some INT64_MIN
          else Some (d_trunc d)
      | _ \<Rightarrow> None)"

definition CompareInteger :: "LogValue \<Rightarrow> LogValue \<Rightarrow> int" where
  "CompareInteger lhs rhs = CompareTyped lhs rhs toInt ThreeWay"

definition toDouble :: "LogValue \<Rightarrow> double option" where
  "toDouble v =
     (case v of
        VDouble d \<Rightarrow> Some d
      | VInt64 i \<Rightarrow> Some (double_of_int (sint i))
      | VUint64 u \<Rightarrow> Some (double_of_int (uint u))
      | _ \<Rightarrow> None)"

definition CompareFloating :: "LogValue \<Rightarrow> LogValue \<Rightarrow> int" where
  "CompareFloating lhs rhs = CompareTyped lhs rhs toDouble ThreeWayDouble"

definition toMicros :: "LogValue \<Rightarrow> int option" where
  "toMicros v =
     (case v of
        VTime t \<Rightarrow> Some (sint t)
      | VInt64 i \<Rightarrow> Some (sint i)
      | VUint64 u \<Rightarrow> Some (clamp_uint64 u)
      | _ \<Rightarrow> None)"

definition CompareTime :: "LogValue \<Rightarrow> LogValue \<Rightarrow> int" where
  "CompareTime lhs rhs = CompareTyped lhs rhs toMicros ThreeWay"

definition CompareMonostateOrder :: "LogValue \<Rightarrow> LogValue \<Rightarrow> int option" where
  "CompareMonostateOrder lhs rhs =
     (if lhs = VMonostate \<and> rhs = VMonostate then Some 0
      else if lhs = VMonostate then Some 1
      else if rhs = VMonostate then Some (-1)
      else None)"

section \<open>Comparisons of rows\<close>

definition formatted :: "externals \<Rightarrow> LogTable \<Rightarrow> nat \<Rightarrow> nat \<Rightarrow> string" where
  "formatted ex t row column = (case GetFormattedValue ex t row column of Some s \<Rightarrow> s | None \<Rightarrow> [])"

definition CompareLogValuesBytewise :: "externals \<Rightarrow> LogTable \<Rightarrow> nat \<Rightarrow> nat \<Rightarrow> nat \<Rightarrow> int" where
  "CompareLogValuesBytewise ex t lhsRow rhsRow column =
     (case (AsStringView (GetValue t lhsRow column), AsStringView (GetValue t rhsRow column)) of
        (Some a, Some b) \<Rightarrow> ThreeWay a b
      | _ \<Rightarrow> ThreeWay (formatted ex t lhsRow column) (formatted ex t rhsRow column))"

definition CompareEnum :: "externals \<Rightarrow> LogTable \<Rightarrow> nat \<Rightarrow> nat \<Rightarrow> nat \<Rightarrow> EnumDictRank option \<Rightarrow> int" where
  "CompareEnum ex t lhsRow rhsRow column rank =
     (case (GetEnumValueId t lhsRow column, GetEnumValueId t rhsRow column) of
        (Some a, Some b) \<Rightarrow>
          (case rank of
             Some r \<Rightarrow> ThreeWay (RankOf r a) (RankOf r b)
           | None \<Rightarrow> CompareLogValuesBytewise ex t lhsRow rhsRow column)
      | (None, None) \<Rightarrow> 0
      | (None, Some _) \<Rightarrow> 1
      | (Some _, None) \<Rightarrow> -1)"

definition CompareString :: "externals \<Rightarrow> LogTable \<Rightarrow> nat \<Rightarrow> nat \<Rightarrow> nat \<Rightarrow> int" where
  "CompareString ex t lhsRow rhsRow column =
     (case CompareMonostateOrder (GetValue t lhsRow column) (GetValue t rhsRow column) of
        Some order \<Rightarrow> order
      | None \<Rightarrow> CompareLogValuesBytewise ex t lhsRow rhsRow column)"

fun level_ordinal :: "LogLevel \<Rightarrow> 8 word" where
  "level_ordinal LvUnknown = 0"
| "level_ordinal LvTrace = 1"
| "level_ordinal LvDebug = 2"
| "level_ordinal LvInfo = 3"
| "level_ordinal LvWarn = 4"
| "level_ordinal LvError = 5"
| "level_ordinal LvFatal = 6"

definition CompareLevel :: "externals \<Rightarrow> LogTable \<Rightarrow> nat \<Rightarrow> nat \<Rightarrow> nat \<Rightarrow> int" where
  "CompareLevel ex t lhsRow rhsRow column =
     (case (GetLevelForRow ex t lhsRow column, GetLevelForRow ex t rhsRow column) of
        (Some a, Some b) \<Rightarrow> ThreeWay (level_ordinal a) (level_ordinal b)
      | (None, None) \<Rightarrow> 0
      | (None, Some _) \<Rightarrow> 1
      | (Some _, None) \<Rightarrow> -1)"

definition CompareRows :: "externals \<Rightarrow> LogTable \<Rightarrow> nat \<Rightarrow> nat \<Rightarrow> nat \<Rightarrow> EnumDictRank option \<Rightarrow> int" where
  "CompareRows ex t lhsRow rhsRow column rank =
     (if lhsRow = rhsRow then 0
      else if column \<ge> length (tcolumns t) then 0
      else let lhs = GetValue t lhsRow column; rhs = GetValue t rhsRow column in
        case ctype (tcolumns t ! column) of
          CtBoolean \<Rightarrow> CompareBool lhs rhs
        | CtInteger \<Rightarrow> CompareInteger lhs rhs
        | CtFloating \<Rightarrow> CompareFloating lhs rhs
        | CtNumber \<Rightarrow> CompareFloating lhs rhs
        | CtTime \<Rightarrow> CompareTime lhs rhs
        | CtEnumeration \<Rightarrow> CompareEnum ex t lhsRow rhsRow column rank
        | CtLevel \<Rightarrow> CompareLevel ex t lhsRow rhsRow column
        | _ \<Rightarrow> CompareString ex t lhsRow rhsRow column)"

section \<open>The sorting permutation\<close>

text \<open>Ties are broken by the position in the input, also in descending order.\<close>

definition rank_less :: "bool \<Rightarrow> 'a::linorder list \<Rightarrow> nat \<Rightarrow> nat \<Rightarrow> bool" where
  "rank_less ascending ranks a b =
     (if ranks ! a \<noteq> ranks ! b then (if ascending then ranks ! a < ranks ! b else ranks ! a > ranks ! b) else a < b)"

definition rows_less :: "bool \<Rightarrow> externals \<Rightarrow> LogTable \<Rightarrow> nat list \<Rightarrow> nat \<Rightarrow> EnumDictRank option \<Rightarrow> nat \<Rightarrow> nat \<Rightarrow> bool" where
  "rows_less ascending ex t logRows column rank a b =
     (let cmp = CompareRows ex t (logRows ! a) (logRows ! b) column rank
      in if cmp \<noteq> 0 then (if ascending then cmp < 0 else cmp > 0) else a < b)"

definition enum_ranks :: "LogTable \<Rightarrow> nat list \<Rightarrow> nat \<Rightarrow> EnumDictRank \<Rightarrow> 16 word list" where
  "enum_ranks t logRows column r =
     map (\<lambda>row. case GetEnumValueId t row column of Some vid \<Rightarrow> RankOf r vid | None \<Rightarrow> DictSize r) logRows"

definition SENTINEL :: "8 word" where
  "SENTINEL = 255"

definition level_ranks :: "externals \<Rightarrow> LogTable \<Rightarrow> nat list \<Rightarrow> nat \<Rightarrow> 8 word list" where
  "level_ranks ex t logRows column =
     (case LevelRankCache ex t column of
        None \<Rightarrow> replicate (length logRows) SENTINEL
      | Some ranks \<Rightarrow>
          map (\<lambda>row. case GetEnumValueId t row column of
                  None \<Rightarrow> SENTINEL
                | Some vid \<Rightarrow> if unat vid \<ge> length ranks then SENTINEL
                              else let lvl = ranks ! unat vid in if lvl = LvUnknown then SENTINEL else level_ordinal lvl)
            logRows)"

type_synonym parallel_sort = "(nat \<Rightarrow> nat \<Rightarrow> bool) \<Rightarrow> nat list \<Rightarrow> nat list"

definition SortPermutationByColumn :: "parallel_sort \<Rightarrow> externals \<Rightarrow> LogTable \<Rightarrow> nat list \<Rightarrow> nat \<Rightarrow> bool \<Rightarrow> EnumDictRank option \<Rightarrow> nat list" where
  "SortPermutationByColumn psort ex t logRows column ascending rank =
     (let n = length logRows; permutation = [0..<n];
          columnInRange = (column < length (tcolumns t));
          isEnum = (columnInRange \<and> ctype (tcolumns t ! column) = CtEnumeration);
          isLevel = (columnInRange \<and> ctype (tcolumns t ! column) = CtLevel)
      in if n \<le> 1 then permutation
         else if isEnum \<and> rank \<noteq> None then psort (rank_less ascending (enum_ranks t logRows column (the rank))) permutation
         else if isLevel then psort (rank_less ascending (level_ranks ex t logRows column)) permutation
         else psort (rows_less ascending ex t logRows column rank) permutation)"

end
