(* ===== verification/Histogram_Index.thy ===== *)
theory Histogram_Index
  imports Row_Compare "HOL-Library.Signed_Division" "HOL-Library.Multiset"
begin

text \<open>
  \<open>library/src/histogram_bucket_index.cpp\<close> and its header: counts of rows per time bucket and level.
  A time is the number of microseconds, an \<open>int64_t\<close> as an integer, and the differences of the times are
  taken to fit into \<open>int64_t\<close> too; a bucket is its array of counts.
\<close>

section \<open>Bucket sizes\<close>

datatype HistogramBucketSize = OneSecond | TenSeconds | OneMinute | TenMinutes | OneHour | OneDay

definition rungs :: "HistogramBucketSize list" where
  "rungs = [OneSecond, TenSeconds, OneMinute, TenMinutes, OneHour, OneDay]"

fun HistogramBucketWidth :: "HistogramBucketSize \<Rightarrow> int" where
  "HistogramBucketWidth OneSecond = 1000000"
| "HistogramBucketWidth TenSeconds = 10000000"
| "HistogramBucketWidth OneMinute = 60000000"
| "HistogramBucketWidth TenMinutes = 600000000"
| "HistogramBucketWidth OneHour = 3600000000"
| "HistogramBucketWidth OneDay = 86400000000"

fun HistogramBucketSizeLabel :: "HistogramBucketSize \<Rightarrow> string" where
  "HistogramBucketSizeLabel OneSecond = ''1 s''"
| "HistogramBucketSizeLabel TenSeconds = ''10 s''"
| "HistogramBucketSizeLabel OneMinute = ''1 min''"
| "HistogramBucketSizeLabel TenMinutes = ''10 min''"
| "HistogramBucketSizeLabel OneHour = ''1 h''"
| "HistogramBucketSizeLabel OneDay = ''1 d''"

definition LEVEL_SLOT_COUNT :: nat where
  "LEVEL_SLOT_COUNT = 7"

definition LevelToSlot :: "LogLevel \<Rightarrow> nat" where
  "LevelToSlot level = (let raw = unat (level_ordinal level) in if raw < LEVEL_SLOT_COUNT then raw else 0)"

text \<open>C division truncates towards zero.\<close>

definition FloorDivide :: "int \<Rightarrow> int \<Rightarrow> int" where
  "FloorDivide numerator denominator =
     (let quotient = numerator sdiv denominator; remainder = numerator smod denominator
      in if remainder \<noteq> 0 \<and> (remainder < 0) \<noteq> (denominator < 0) then quotient - 1 else quotient)"

definition TruncateToBucket :: "int \<Rightarrow> HistogramBucketSize \<Rightarrow> int" where
  "TruncateToBucket ts sz = FloorDivide ts (HistogramBucketWidth sz) * HistogramBucketWidth sz"

fun first_fitting :: "int \<Rightarrow> int \<Rightarrow> HistogramBucketSize list \<Rightarrow> HistogramBucketSize" where
  "first_fitting span budget [] = OneDay"
| "first_fitting span budget (sz # szs) =
     (if span sdiv HistogramBucketWidth sz + 1 \<le> budget then sz else first_fitting span budget szs)"

definition AutoBucketSize :: "int \<Rightarrow> int \<Rightarrow> int \<Rightarrow> HistogramBucketSize" where
  "AutoBucketSize lo0 hi0 budget =
     (let (lo, hi) = (if hi0 < lo0 then (hi0, lo0) else (lo0, hi0))
      in if hi = lo then OneSecond
         else if budget \<le> 0 then OneDay
         else first_fitting (hi - lo) budget rungs)"

section \<open>The index\<close>

type_synonym LevelBucket = "32 word list"

definition empty_bucket :: LevelBucket where
  "empty_bucket = replicate LEVEL_SLOT_COUNT 0"

definition Total :: "LevelBucket \<Rightarrow> 32 word" where
  "Total b = sum_list b"

record HistogramBucketIndex =
  mBucketSize :: HistogramBucketSize
  mOrigin :: int
  mBuckets :: "LevelBucket list"
  mTotalRowCount :: "64 word"
  mMinTimestamp :: int
  mMaxTimestamp :: int

definition new_Histogram :: "HistogramBucketSize \<Rightarrow> HistogramBucketIndex" where
  "new_Histogram sz = \<lparr>mBucketSize = sz, mOrigin = 0, mBuckets = [], mTotalRowCount = 0, mMinTimestamp = 0, mMaxTimestamp = 0\<rparr>"

definition BucketWidth :: "HistogramBucketIndex \<Rightarrow> int" where
  "BucketWidth h = HistogramBucketWidth (mBucketSize h)"

definition count_in :: "LogLevel \<Rightarrow> LevelBucket \<Rightarrow> LevelBucket" where
  "count_in level b = b[LevelToSlot level := b ! LevelToSlot level + 1]"

definition AddRow :: "int \<Rightarrow> LogLevel \<Rightarrow> HistogramBucketIndex \<Rightarrow> HistogramBucketIndex" where
  "AddRow ts level h =
     (if mBuckets h = [] then
        h\<lparr>mOrigin := TruncateToBucket ts (mBucketSize h), mBuckets := [count_in level empty_bucket],
          mTotalRowCount := mTotalRowCount h + 1, mMinTimestamp := ts, mMaxTimestamp := ts\<rparr>
      else
        let bucketIdx = FloorDivide (ts - mOrigin h) (BucketWidth h);
            (origin, buckets, i) =
              (if bucketIdx < 0 then (mOrigin h + bucketIdx * BucketWidth h, replicate (nat (- bucketIdx)) empty_bucket @ mBuckets h, 0)
               else if nat bucketIdx \<ge> length (mBuckets h)
               then (mOrigin h, mBuckets h @ replicate (nat bucketIdx + 1 - length (mBuckets h)) empty_bucket, nat bucketIdx)
               else (mOrigin h, mBuckets h, nat bucketIdx))
        in h\<lparr>mOrigin := origin, mBuckets := buckets[i := count_in level (buckets ! i)], mTotalRowCount := mTotalRowCount h + 1,
             mMinTimestamp := (if ts < mMinTimestamp h then ts else mMinTimestamp h),
             mMaxTimestamp := (if ts > mMaxTimestamp h then ts else mMaxTimestamp h)\<rparr>)"

definition Histogram_Reset :: "HistogramBucketIndex \<Rightarrow> HistogramBucketIndex" where
  "Histogram_Reset h = h\<lparr>mBuckets := [], mOrigin := 0, mTotalRowCount := 0, mMinTimestamp := 0, mMaxTimestamp := 0\<rparr>"

definition SetBucketSize :: "HistogramBucketSize \<Rightarrow> HistogramBucketIndex \<Rightarrow> HistogramBucketIndex" where
  "SetBucketSize sz h = (if sz \<noteq> mBucketSize h then Histogram_Reset (h\<lparr>mBucketSize := sz\<rparr>) else h)"

definition BucketOf :: "int \<Rightarrow> HistogramBucketIndex \<Rightarrow> nat option" where
  "BucketOf ts h =
     (if mBuckets h = [] then None
      else let bucketIdx = FloorDivide (ts - mOrigin h) (BucketWidth h)
           in if bucketIdx < 0 \<or> nat bucketIdx \<ge> length (mBuckets h) then None else Some (nat bucketIdx))"

definition BucketStart :: "nat \<Rightarrow> HistogramBucketIndex \<Rightarrow> int" where
  "BucketStart i h = mOrigin h + int i * BucketWidth h"

definition BucketEnd :: "nat \<Rightarrow> HistogramBucketIndex \<Rightarrow> int" where
  "BucketEnd i h = BucketStart i h + BucketWidth h"

definition MinTimestamp :: "HistogramBucketIndex \<Rightarrow> int option" where
  "MinTimestamp h = (if mBuckets h = [] then None else Some (mMinTimestamp h))"

definition MaxTimestamp :: "HistogramBucketIndex \<Rightarrow> int option" where
  "MaxTimestamp h = (if mBuckets h = [] then None else Some (mMaxTimestamp h))"

section \<open>Floors\<close>

lemma width_pos [simp]: "0 < HistogramBucketWidth sz"
  by (cases sz) simp_all

lemma FloorDivide_div: "0 < d \<Longrightarrow> FloorDivide n d = n div d"
proof -
  assume d: "0 < d"
  show ?thesis
  proof (cases "0 \<le> n")
    case True
    then have "n sdiv d = n div d" "n smod d = n mod d"
      using d by (cases "n = 0"; simp add: signed_divide_int_def signed_modulo_int_def minus_div_mult_eq_mod)+
    then show ?thesis using d pos_mod_sign [OF d, of n] by (simp add: FloorDivide_def Let_def not_less)
  next
    case False
    have q: "n sdiv d = - ((- n) div d)" using False d by (simp add: signed_divide_int_def)
    have r: "n smod d = - ((- n) mod d)" using False d by (simp add: signed_modulo_int_def)
    show ?thesis
    proof (cases "n mod d = 0")
      case True
      then have "(- n) mod d = 0" by (simp add: mod_minus_eq zmod_zminus1_eq_if)
      then show ?thesis using True q r d zdiv_zminus1_eq_if [of d n] by (simp add: FloorDivide_def Let_def)
    next
      case nz: False
      have "(- n) mod d = d - n mod d" "(- n) div d = - (n div d) - 1"
        using nz d zdiv_zminus1_eq_if [of d n] zmod_zminus1_eq_if [of n d] by simp_all
      moreover have "n mod d < d" using d by simp
      ultimately show ?thesis using q r d less_irrefl [of d] by (auto simp: FloorDivide_def Let_def)
    qed
  qed
qed

section \<open>The index is a table of counts\<close>

text \<open>What an index over the rows should hold: a dense range of buckets from the earliest to the latest row.\<close>

abbreviation in_bucket :: "HistogramBucketSize \<Rightarrow> int \<Rightarrow> nat \<Rightarrow> int \<times> LogLevel \<Rightarrow> bool" where
  "in_bucket sz b slot r \<equiv> fst r div HistogramBucketWidth sz = b \<and> LevelToSlot (snd r) = slot"

definition bucket_counts :: "HistogramBucketSize \<Rightarrow> (int \<times> LogLevel) list \<Rightarrow> int \<Rightarrow> LevelBucket" where
  "bucket_counts sz rs b = map (\<lambda>slot. word_of_nat (length (filter (in_bucket sz b slot) rs))) [0..<LEVEL_SLOT_COUNT]"

definition histogram_of :: "HistogramBucketSize \<Rightarrow> (int \<times> LogLevel) list \<Rightarrow> HistogramBucketIndex" where
  "histogram_of sz rs =
     (if rs = [] then new_Histogram sz
      else let lo = Min (fst ` set rs); hi = Max (fst ` set rs); w = HistogramBucketWidth sz
           in \<lparr>mBucketSize = sz, mOrigin = lo div w * w,
               mBuckets = map (\<lambda>i. bucket_counts sz rs (lo div w + int i)) [0..<nat (hi div w - lo div w) + 1],
               mTotalRowCount = word_of_nat (length rs), mMinTimestamp = lo, mMaxTimestamp = hi\<rparr>)"

lemma LevelToSlot_less: "LevelToSlot level < LEVEL_SLOT_COUNT"
  by (simp add: LevelToSlot_def LEVEL_SLOT_COUNT_def Let_def)

lemma bucket_counts_nil: "bucket_counts sz [] b = empty_bucket"
  by (simp add: bucket_counts_def empty_bucket_def map_replicate_const)

lemma bucket_counts_snoc:
  "bucket_counts sz (rs @ [(ts, level)]) b =
    (if ts div HistogramBucketWidth sz = b then count_in level (bucket_counts sz rs b) else bucket_counts sz rs b)"
  using LevelToSlot_less [of level]
  by (auto simp: bucket_counts_def count_in_def nth_list_update intro!: nth_equalityI)

lemma bucket_counts_outside:
  "(\<And>r. r \<in> set rs \<Longrightarrow> fst r div HistogramBucketWidth sz \<noteq> b) \<Longrightarrow> bucket_counts sz rs b = empty_bucket"
proof -
  assume a: "\<And>r. r \<in> set rs \<Longrightarrow> fst r div HistogramBucketWidth sz \<noteq> b"
  then have "filter (in_bucket sz b slot) rs = []" for slot by (auto simp: filter_empty_conv)
  then show ?thesis by (simp add: bucket_counts_def empty_bucket_def map_replicate_const)
qed

lemma bucket_counts_perm: "mset rs = mset rs' \<Longrightarrow> bucket_counts sz rs b = bucket_counts sz rs' b"
proof -
  assume "mset rs = mset rs'"
  then have "length (filter P rs) = length (filter P rs')" for P by (metis mset_filter size_mset)
  then show ?thesis by (simp add: bucket_counts_def)
qed

lemma count_one_bucket:
  assumes "ts div HistogramBucketWidth sz = b0 + int i" "i < m"
  shows "(map (\<lambda>j. bucket_counts sz rs (b0 + int j)) [0..<m])[i := count_in level (map (\<lambda>j. bucket_counts sz rs (b0 + int j)) [0..<m] ! i)] =
    map (\<lambda>j. bucket_counts sz (rs @ [(ts, level)]) (b0 + int j)) [0..<m]"
  using assms by (intro nth_equalityI) (simp_all add: bucket_counts_snoc nth_list_update)

text \<open>A window of a table that is empty outside grows by empty entries.\<close>

lemma grown_left:
  assumes "b' < b" "\<And>c. c < b \<Longrightarrow> f c = e"
  shows "replicate (nat (b - b')) e @ map (\<lambda>i. f (b + int i)) [0..<n] = map (\<lambda>i. f (b' + int i)) [0..<nat (b - b') + n]"
proof (rule nth_equalityI)
  fix i assume i: "i < length (replicate (nat (b - b')) e @ map (\<lambda>i. f (b + int i)) [0..<n])"
  show "(replicate (nat (b - b')) e @ map (\<lambda>i. f (b + int i)) [0..<n]) ! i = map (\<lambda>i. f (b' + int i)) [0..<nat (b - b') + n] ! i"
  proof (cases "i < nat (b - b')")
    case True
    then have "b' + int i < b" using assms(1) by linarith
    then show ?thesis using True assms(2) by (simp add: nth_append)
  next
    case False
    define j where "j = i - nat (b - b')"
    have j: "i = nat (b - b') + j" "j < n" using False i by (simp_all add: j_def)
    then have "b + int j = b' + int i" using assms(1) by simp
    then show ?thesis using j assms(1) by (simp add: nth_append)
  qed
qed simp

lemma grown_right:
  assumes "b + int n \<le> b'" "\<And>c. b + int n \<le> c \<Longrightarrow> f c = e"
  shows "map (\<lambda>i. f (b + int i)) [0..<n] @ replicate (nat (b' - b) + 1 - n) e = map (\<lambda>i. f (b + int i)) [0..<nat (b' - b) + 1]"
proof (rule nth_equalityI)
  fix i assume "i < length (map (\<lambda>i. f (b + int i)) [0..<n] @ replicate (nat (b' - b) + 1 - n) e)"
  then show "(map (\<lambda>i. f (b + int i)) [0..<n] @ replicate (nat (b' - b) + 1 - n) e) ! i = map (\<lambda>i. f (b + int i)) [0..<nat (b' - b) + 1] ! i"
    using assms by (auto simp: nth_append less_Suc_eq)
qed (use assms(1) in simp)

lemma Min_snoc: "rs \<noteq> [] \<Longrightarrow> Min (fst ` set (rs @ [(ts, l)])) = (if ts < Min (fst ` set rs) then ts else Min (fst ` set rs))"
proof -
  assume "rs \<noteq> []"
  then have "Min (insert ts (fst ` set rs)) = min ts (Min (fst ` set rs))" by (intro Min_insert) simp_all
  moreover have "fst ` set (rs @ [(ts, l)]) = insert ts (fst ` set rs)" by auto
  ultimately show ?thesis by (simp only: min_def order_le_less split: if_splits) auto
qed

lemma Max_snoc: "rs \<noteq> [] \<Longrightarrow> Max (fst ` set (rs @ [(ts, l)])) = (if ts > Max (fst ` set rs) then ts else Max (fst ` set rs))"
proof -
  assume "rs \<noteq> []"
  then have "Max (insert ts (fst ` set rs)) = max ts (Max (fst ` set rs))" by (intro Max_insert) simp_all
  moreover have "fst ` set (rs @ [(ts, l)]) = insert ts (fst ` set rs)" by auto
  ultimately show ?thesis by (simp only: max_def order_le_less split: if_splits) auto
qed

lemma div_min: "0 < w \<Longrightarrow> (if ts < lo then ts else lo) div w = min (ts div w) (lo div w)" for w :: int
  using zdiv_mono1 [of ts lo w] zdiv_mono1 [of lo ts w] by (auto simp: min_def not_less)

lemma div_max: "0 < w \<Longrightarrow> (if ts > hi then ts else hi) div w = max (ts div w) (hi div w)" for w :: int
  using zdiv_mono1 [of ts hi w] zdiv_mono1 [of hi ts w] by (auto simp: max_def not_less)

lemma div_shift: "0 < w \<Longrightarrow> (ts - b * w) div w = ts div w - b" for w :: int
  using div_mult_self1 [of w ts "- b"] by simp

lemma AddRow_histogram_of: "AddRow ts level (histogram_of sz rs) = histogram_of sz (rs @ [(ts, level)])"
proof (cases "rs = []")
  case True
  then show ?thesis
    by (simp add: AddRow_def histogram_of_def new_Histogram_def TruncateToBucket_def FloorDivide_div Let_def
        bucket_counts_snoc [of sz "[]", simplified] bucket_counts_nil)
next
  case False
  let ?w = "HistogramBucketWidth sz" and ?h = "histogram_of sz rs" and ?rs = "rs @ [(ts, level)]"
  define lo hi where "lo = Min (fst ` set rs)" and "hi = Max (fst ` set rs)"
  define b n b' where "b = lo div ?w" and "n = nat (hi div ?w - lo div ?w) + 1" and "b' = ts div ?w"
  define b0 m where "b0 = min b' b" and "m = nat (max b' (b + int n - 1) - min b' b) + 1"
  have bounds: "lo \<le> fst r" "fst r \<le> hi" if "r \<in> set rs" for r using that by (auto simp: lo_def hi_def)
  then have "lo \<le> hi" using False by (cases rs) force+
  then have hib: "hi div ?w = b + int n - 1" by (simp add: n_def b_def zdiv_mono1)
  have inside: "b \<le> fst r div ?w \<and> fst r div ?w < b + int n" if "r \<in> set rs" for r
    using bounds [OF that, THEN zdiv_mono1, of ?w] hib by (simp add: b_def)
  have out: "bucket_counts sz rs c = empty_bucket" if "c < b \<or> b + int n \<le> c" for c
    using inside that by (intro bucket_counts_outside) force
  have h: "?h = \<lparr>mBucketSize = sz, mOrigin = b * ?w, mBuckets = map (\<lambda>i. bucket_counts sz rs (b + int i)) [0..<n],
      mTotalRowCount = word_of_nat (length rs), mMinTimestamp = lo, mMaxTimestamp = hi\<rparr>"
    using False by (simp add: histogram_of_def Let_def b_def n_def lo_def hi_def)
  have idx: "FloorDivide (ts - mOrigin ?h) (BucketWidth ?h) = b' - b"
    by (simp add: h FloorDivide_div BucketWidth_def div_shift b'_def)
  have reference: "histogram_of sz ?rs = \<lparr>mBucketSize = sz, mOrigin = b0 * ?w,
      mBuckets = map (\<lambda>i. bucket_counts sz ?rs (b0 + int i)) [0..<m], mTotalRowCount = word_of_nat (length rs) + 1,
      mMinTimestamp = (if ts < lo then ts else lo), mMaxTimestamp = (if ts > hi then ts else hi)\<rparr>"
    unfolding histogram_of_def Let_def Min_snoc [OF False] Max_snoc [OF False] lo_def [symmetric] hi_def [symmetric]
      div_min [OF width_pos] div_max [OF width_pos] hib b0_def m_def b'_def [symmetric] b_def [symmetric] by simp
  have "0 < n" by (simp add: n_def)
  let ?old = "map (\<lambda>i. bucket_counts sz rs (b + int i)) [0..<n]" and ?grown = "map (\<lambda>i. bucket_counts sz rs (b0 + int i)) [0..<m]"
  have grown: "AddRow ts level ?h = histogram_of sz ?rs"
    if layout: "(b0 * ?w, ?grown, i) = (if b' - b < 0 then (b * ?w + (b' - b) * ?w, replicate (nat (- (b' - b))) empty_bucket @ ?old, 0)
       else if nat (b' - b) \<ge> n then (b * ?w, ?old @ replicate (nat (b' - b) + 1 - n) empty_bucket, nat (b' - b))
       else (b * ?w, ?old, nat (b' - b)))" and slot: "b' = b0 + int i" "i < m" for i
  proof -
    have "AddRow ts level ?h = \<lparr>mBucketSize = sz, mOrigin = b0 * ?w, mBuckets = ?grown[i := count_in level (?grown ! i)],
        mTotalRowCount = word_of_nat (length rs) + 1, mMinTimestamp = (if ts < lo then ts else lo), mMaxTimestamp = (if ts > hi then ts else hi)\<rparr>"
      using layout \<open>0 < n\<close> idx by (auto simp: AddRow_def h BucketWidth_def Let_def split: if_splits)
    then show ?thesis using count_one_bucket [of ts sz b0 i m rs level] slot by (simp add: reference b'_def)
  qed
  consider "b' < b" | "b + int n \<le> b'" | "b \<le> b'" "b' < b + int n" by linarith
  then show ?thesis
  proof cases
    case 1
    then have m: "m = nat (b - b') + n" "b0 = b'" using \<open>0 < n\<close> by (auto simp: m_def b0_def)
    have "replicate (nat (b - b')) empty_bucket @ ?old = ?grown" unfolding m by (rule grown_left) (use 1 out in auto)
    then show ?thesis using 1 m \<open>0 < n\<close> by (intro grown [of 0]) (simp_all add: algebra_simps)
  next
    case 2
    then have m: "m = nat (b' - b) + 1" "b0 = b" using \<open>0 < n\<close> by (auto simp: m_def b0_def)
    have "?old @ replicate (nat (b' - b) + 1 - n) empty_bucket = ?grown" unfolding m by (rule grown_right) (use 2 out in auto)
    then show ?thesis using 2 m \<open>0 < n\<close> by (intro grown [of "nat (b' - b)"]) simp_all
  next
    case 3
    then have m: "m = n" "b0 = b" using \<open>0 < n\<close> by (auto simp: m_def b0_def)
    then show ?thesis using 3 by (intro grown [of "nat (b' - b)"]) simp_all
  qed
qed

lemma AddRows_histogram_of: "fold (\<lambda>(ts, level). AddRow ts level) rs (new_Histogram sz) = histogram_of sz rs"
proof (induction rs rule: rev_induct)
  case (snoc r rs)
  then show ?case by (cases r) (simp add: AddRow_histogram_of)
qed (simp add: histogram_of_def)

lemma histogram_of_perm: "mset rs = mset rs' \<Longrightarrow> histogram_of sz rs = histogram_of sz rs'"
proof -
  assume p: "mset rs = mset rs'"
  then have "set rs = set rs'" "length rs = length rs'" "rs = [] \<longleftrightarrow> rs' = []"
    by (metis set_mset_mset, metis size_mset, metis mset_zero_iff)
  then show ?thesis using bucket_counts_perm [OF p] by (simp add: histogram_of_def Let_def)
qed

text \<open>Every row is found in its bucket, whose bounds enclose it.\<close>

lemma BucketOf_row:
  assumes "(ts, level) \<in> set rs"
  obtains i where "BucketOf ts (histogram_of sz rs) = Some i" "i < length (mBuckets (histogram_of sz rs))"
    "BucketStart i (histogram_of sz rs) \<le> ts" "ts < BucketEnd i (histogram_of sz rs)"
    "mBuckets (histogram_of sz rs) ! i = bucket_counts sz rs (ts div HistogramBucketWidth sz)"
proof -
  let ?w = "HistogramBucketWidth sz" and ?h = "histogram_of sz rs"
  define lo hi where "lo = Min (fst ` set rs)" and "hi = Max (fst ` set rs)"
  have ne: "rs \<noteq> []" and "ts \<in> fst ` set rs" using assms by force+
  then have bounds: "lo \<le> ts" "ts \<le> hi" by (simp_all add: lo_def hi_def)
  have h: "mBucketSize ?h = sz" "mOrigin ?h = lo div ?w * ?w"
    "mBuckets ?h = map (\<lambda>i. bucket_counts sz rs (lo div ?w + int i)) [0..<nat (hi div ?w - lo div ?w) + 1]"
    using ne by (simp_all add: histogram_of_def Let_def lo_def hi_def)
  define i where "i = nat (ts div ?w - lo div ?w)"
  have mono: "lo div ?w \<le> ts div ?w" "ts div ?w \<le> hi div ?w" using bounds by (simp_all add: zdiv_mono1)
  have "(ts + (- (lo div ?w)) * ?w) div ?w = - (lo div ?w) + ts div ?w" by (rule div_mult_self1) (use width_pos [of sz] in linarith)
  then have idx: "(ts - lo div ?w * ?w) div ?w = ts div ?w - lo div ?w" by simp
  have i: "int i = ts div ?w - lo div ?w" "i < nat (hi div ?w - lo div ?w) + 1" using mono by (simp_all add: i_def)
  have "ts div ?w = lo div ?w + int i" using i(1) by simp
  then have start: "BucketStart i ?h = ts div ?w * ?w" by (simp add: BucketStart_def BucketWidth_def h algebra_simps)
  have "ts div ?w * ?w \<le> ts" "ts < ts div ?w * ?w + ?w"
    using div_mult_mod_eq [of ts ?w] pos_mod_bound [OF width_pos [of sz], of ts] pos_mod_sign [OF width_pos [of sz], of ts] by linarith+
  moreover have "BucketOf ts ?h = Some i"
    using i mono by (simp add: BucketOf_def BucketWidth_def h FloorDivide_div idx i_def Let_def)
  ultimately show ?thesis
    using that [of i] start i h by (simp add: BucketEnd_def BucketWidth_def del: upt_Suc)
qed

section \<open>The automatic size\<close>

lemma sdiv_div: "0 \<le> n \<Longrightarrow> 0 < d \<Longrightarrow> n sdiv d = n div (d :: int)"
  by (auto simp: signed_divide_int_def sgn_if)

text \<open>Without alignment to the buckets a range meets at most one bucket more than the code counts.\<close>

lemma buckets_met:
  assumes "lo \<le> hi" "0 < w"
  shows "hi div w - lo div w \<le> (hi - lo) div w + (1 :: int)"
proof -
  have "hi = lo + (hi - lo)" by simp
  then have "hi div w = lo div w + (hi - lo) div w + (lo mod w + (hi - lo) mod w) div w" by (metis div_add1_eq)
  moreover have "(lo mod w + (hi - lo) mod w) div w \<le> 1"
  proof -
    have "lo mod w + (hi - lo) mod w < 2 * w" using assms(2) by (smt (verit) pos_mod_bound)
    moreover have "x div w * w \<le> x" for x using div_mult_mod_eq [of x w] pos_mod_sign [OF assms(2), of x] by linarith
    ultimately have less: "(lo mod w + (hi - lo) mod w) div w * w < 2 * w" by (rule order_le_less_trans [rotated])
    then show ?thesis using assms(2) mult_right_less_imp_less [OF less] by simp
  qed
  ultimately show ?thesis by simp
qed

lemma first_fitting_fits:
  "\<exists>sz\<in>set szs. span sdiv HistogramBucketWidth sz + 1 \<le> budget \<Longrightarrow> span sdiv HistogramBucketWidth (first_fitting span budget szs) + 1 \<le> budget"
  by (induction szs) auto

lemma first_fitting_first:
  "first_fitting span budget szs = sz \<Longrightarrow> sz \<in> set szs \<Longrightarrow>
    \<exists>before after. szs = before @ sz # after \<and> (\<forall>finer\<in>set before. span sdiv HistogramBucketWidth finer + 1 > budget)"
proof (induction szs)
  case (Cons a szs)
  show ?case
  proof (cases "span sdiv HistogramBucketWidth a + 1 \<le> budget")
    case True
    then show ?thesis using Cons.prems by (intro exI [of _ "[]"] exI [of _ szs]) simp
  next
    case False
    then have first: "first_fitting span budget szs = sz" using Cons.prems(1) by simp
    show ?thesis
    proof (cases "sz \<in> set szs")
      case True
      from Cons.IH [OF first this] obtain before after where
        "szs = before @ sz # after" "\<forall>finer\<in>set before. span sdiv HistogramBucketWidth finer + 1 > budget" by blast
      then show ?thesis using False by (intro exI [of _ "a # before"] exI [of _ after]) auto
    next
      case absent: False
      then show ?thesis using Cons.prems(2) by (intro exI [of _ "[]"] exI [of _ szs]) simp
    qed
  qed
qed simp

lemma rungs_all: "sz \<in> set rungs"
  by (cases sz) (simp_all add: rungs_def)

lemma AutoBucketSize_fits:
  assumes "lo < hi" "0 < budget" "(hi - lo) div HistogramBucketWidth OneDay + 1 \<le> budget"
  defines "sz \<equiv> AutoBucketSize lo hi budget"
  shows "hi div HistogramBucketWidth sz - lo div HistogramBucketWidth sz + 1 \<le> budget + 1 \<and>
    (\<exists>before after. rungs = before @ sz # after \<and> (\<forall>finer\<in>set before. budget < (hi - lo) div HistogramBucketWidth finer + 1))"
proof -
  have sz: "sz = first_fitting (hi - lo) budget rungs" using assms(1,2) by (simp add: sz_def AutoBucketSize_def)
  have "\<exists>sz\<in>set rungs. (hi - lo) sdiv HistogramBucketWidth sz + 1 \<le> budget"
    using assms(1,3) rungs_all by (intro bexI [of _ OneDay]) (simp_all add: sdiv_div del: HistogramBucketWidth.simps)
  from first_fitting_fits [OF this] have "(hi - lo) div HistogramBucketWidth sz + 1 \<le> budget"
    using assms(1) by (simp add: sz sdiv_div)
  moreover have "hi div HistogramBucketWidth sz - lo div HistogramBucketWidth sz \<le> (hi - lo) div HistogramBucketWidth sz + 1"
    using buckets_met [of lo hi] assms(1) by simp
  moreover have "\<exists>before after. rungs = before @ sz # after \<and> (\<forall>finer\<in>set before. budget < (hi - lo) div HistogramBucketWidth finer + 1)"
    using first_fitting_first [OF sz [symmetric] rungs_all] assms(1) by (simp add: sdiv_div)
  ultimately show ?thesis by auto
qed

end
