(* ===== verification/Row_Proxies.thy ===== *)
theory Row_Proxies
  imports Main
begin

text \<open>
  The interface of Qt's item models as the row proxies of the application use it, and
  \<open>app/src/row_order_proxy_model.cpp\<close>, the layer that shows the newest rows first.

  An index of a model is its row and column, \<open>None\<close> for an invalid one (\<open>-1\<close> in the code).  The
  signals that a model emits, with the begin and end brackets and the calls of
  \<open>changePersistentIndexList\<close>, are returned in their order.
\<close>

section \<open>Indices and signals\<close>

type_synonym model_index = "(nat \<times> nat) option"

datatype signal =
    LayoutAboutToBeChanged | LayoutChanged
  | BeginResetModel | EndResetModel
  | BeginInsertRows nat nat | EndInsertRows
  | BeginRemoveRows nat nat | EndRemoveRows
  | BeginInsertColumns nat nat | EndInsertColumns
  | BeginRemoveColumns nat nat | EndRemoveColumns
  | BeginMoveColumns nat nat nat | EndMoveColumns
  | DataChanged model_index model_index "int list"
  | HeaderDataChanged bool nat nat
  | ChangePersistentIndexList "model_index list" "model_index list"

section \<open>The contract of a row proxy\<close>

text \<open>
  A proxy shows \<open>prows\<close> of the \<open>srows\<close> rows of its source: each of its rows stands for one row of the
  source, and \<open>from\<close> finds the rows that it shows.
\<close>

locale row_proxy =
  fixes prows srows :: nat and to from_row :: "nat \<Rightarrow> nat option"
  assumes shows_row: "p < prows \<Longrightarrow> \<exists>s. to p = Some s"
    and in_range: "to p = Some s \<Longrightarrow> p < prows \<and> s < srows"
    and inverse: "from_row s = Some p \<longleftrightarrow> to p = Some s"
begin

lemma to_inject: "to p = Some s \<Longrightarrow> to q = Some s \<Longrightarrow> p = q"
  using inverse by (metis option.inject)

lemma to_from: "p < prows \<Longrightarrow> Option.bind (to p) from_row = Some p"
  using shows_row inverse by fastforce

lemma from_to: "from_row s = Some p \<Longrightarrow> Option.bind (from_row s) to = Some s"
  using inverse [of s p] by (cases "from_row s") auto

lemma hidden: "from_row s = None \<longleftrightarrow> (\<forall>p. to p \<noteq> Some s)"
  using inverse by (metis option.distinct(1) option.exhaust)

text \<open>A proxy on a proxy is a proxy.\<close>

lemma on_proxy:
  assumes "row_proxy srows lrows to' from'"
  shows "row_proxy prows lrows (\<lambda>p. Option.bind (to p) to') (\<lambda>l. Option.bind (from' l) from_row)"
proof -
  note lower = row_proxy.shows_row [OF assms] row_proxy.in_range [OF assms] row_proxy.inverse [OF assms]
  show ?thesis
  proof
    show "\<exists>l. Option.bind (to p) to' = Some l" if "p < prows" for p
      using shows_row [OF that] in_range lower(1) by fastforce
    show "p < prows \<and> l < lrows" if "Option.bind (to p) to' = Some l" for p l
      using that in_range lower(2) by (auto simp: bind_eq_Some_conv)
    show "Option.bind (from' l) from_row = Some p \<longleftrightarrow> Option.bind (to p) to' = Some l" for l p
      using inverse lower(3) by (auto simp: bind_eq_Some_conv)
  qed
qed

end

section \<open>The newest-first layer\<close>

record RowOrderProxyModel =
  mReversed :: bool
  roInSourceColumnMove :: bool

text \<open>
  The source, when there is one, is given by its numbers of rows and columns, a model that knows no
  indices out of its range.
\<close>

definition source_index :: "nat \<times> nat \<Rightarrow> nat \<Rightarrow> nat \<Rightarrow> model_index" where
  "source_index src row column = (if row < fst src \<and> column < snd src then Some (row, column) else None)"

definition order_rowCount :: "(nat \<times> nat) option \<Rightarrow> nat" where
  "order_rowCount source = (case source of None \<Rightarrow> 0 | Some src \<Rightarrow> fst src)"

definition order_columnCount :: "(nat \<times> nat) option \<Rightarrow> nat" where
  "order_columnCount source = (case source of None \<Rightarrow> 0 | Some src \<Rightarrow> snd src)"

text \<open>A row below \<open>0\<close>, mirrored from a row behind the end, makes an invalid index.\<close>

definition order_mapFromSource :: "(nat \<times> nat) option \<Rightarrow> model_index \<Rightarrow> RowOrderProxyModel \<Rightarrow> model_index" where
  "order_mapFromSource source sourceIndex m =
     (case (sourceIndex, source) of
        (Some (row, column), Some (rows, columns)) \<Rightarrow>
          if \<not> mReversed m then Some (row, column)
          else if rows = 0 then None
          else if row < rows then Some (rows - 1 - row, column) else None
      | _ \<Rightarrow> None)"

definition order_mapToSource :: "(nat \<times> nat) option \<Rightarrow> model_index \<Rightarrow> RowOrderProxyModel \<Rightarrow> model_index" where
  "order_mapToSource source proxyIndex m =
     (case (proxyIndex, source) of
        (Some (row, column), Some (rows, columns)) \<Rightarrow>
          if \<not> mReversed m then source_index (rows, columns) row column
          else if rows = 0 then None
          else if row < rows then source_index (rows, columns) (rows - 1 - row) column else None
      | _ \<Rightarrow> None)"

text \<open>The slots for the signals of the source; \<open>rows\<close> are its rows when the signal comes.\<close>

definition order_rowsAboutToBeInserted :: "bool \<Rightarrow> nat \<Rightarrow> nat \<Rightarrow> RowOrderProxyModel \<Rightarrow> signal list" where
  "order_rowsAboutToBeInserted topLevel lo hi m =
     (if \<not> topLevel then []
      else if mReversed m then [BeginInsertRows 0 (hi - lo)] else [BeginInsertRows lo hi])"

definition order_rowsAboutToBeRemoved :: "nat \<Rightarrow> bool \<Rightarrow> nat \<Rightarrow> nat \<Rightarrow> RowOrderProxyModel \<Rightarrow> signal list" where
  "order_rowsAboutToBeRemoved rows topLevel lo hi m =
     (if \<not> topLevel then []
      else if mReversed m then [BeginRemoveRows (rows - 1 - hi) (rows - 1 - lo)] else [BeginRemoveRows lo hi])"

definition order_bracket_end :: "bool \<Rightarrow> signal \<Rightarrow> signal list" where
  "order_bracket_end topLevel s = (if topLevel then [s] else [])"

text \<open>\<open>allowed\<close> is what \<open>beginMoveColumns\<close> answers.\<close>

definition order_columnsAboutToBeMoved ::
    "bool \<Rightarrow> bool \<Rightarrow> nat \<Rightarrow> nat \<Rightarrow> nat \<Rightarrow> RowOrderProxyModel \<Rightarrow> RowOrderProxyModel \<times> signal list" where
  "order_columnsAboutToBeMoved topLevel allowed lo hi dest m =
     (if \<not> topLevel then (m\<lparr>roInSourceColumnMove := False\<rparr>, [])
      else (m\<lparr>roInSourceColumnMove := allowed\<rparr>, if allowed then [BeginMoveColumns lo hi dest] else []))"

definition order_columnsMoved :: "RowOrderProxyModel \<Rightarrow> RowOrderProxyModel \<times> signal list" where
  "order_columnsMoved m =
     (if roInSourceColumnMove m then (m\<lparr>roInSourceColumnMove := False\<rparr>, [EndMoveColumns]) else (m, []))"

definition order_HandleSourceDataChanged ::
    "(nat \<times> nat) option \<Rightarrow> model_index \<Rightarrow> model_index \<Rightarrow> int list \<Rightarrow> RowOrderProxyModel \<Rightarrow> signal list" where
  "order_HandleSourceDataChanged source topLeft bottomRight roles m =
     (case (topLeft, bottomRight) of
        (Some (tlRow, tlColumn), Some (brRow, brColumn)) \<Rightarrow>
          if \<not> mReversed m then
            [DataChanged (order_mapFromSource source topLeft m) (order_mapFromSource source bottomRight m) roles]
          else let rows = order_rowCount source in
            if rows = 0 then []
            else [DataChanged (Some (rows - 1 - brRow, tlColumn)) (Some (rows - 1 - tlRow, brColumn)) roles]
      | _ \<Rightarrow> [])"

text \<open>\<open>persistents\<close> is \<open>persistentIndexList()\<close>.\<close>

definition order_SetReversed ::
    "(nat \<times> nat) option \<Rightarrow> model_index list \<Rightarrow> bool \<Rightarrow> RowOrderProxyModel \<Rightarrow> RowOrderProxyModel \<times> signal list" where
  "order_SetReversed source persistents reversed m =
     (if mReversed m = reversed then (m, [])
      else
        let rows = order_rowCount source;
            remapped = map (\<lambda>idx. case idx of
                None \<Rightarrow> None
              | Some (row, column) \<Rightarrow> if rows = 0 then idx else Some (rows - 1 - row, column)) persistents
        in (m\<lparr>mReversed := reversed\<rparr>,
            [LayoutAboutToBeChanged] @ (if persistents = [] then [] else [ChangePersistentIndexList persistents remapped]) @
            [LayoutChanged]))"

text \<open>The base class is told of the new source; a slot of the old one can not close a move any more.\<close>

definition order_setSourceModel :: "bool \<Rightarrow> RowOrderProxyModel \<Rightarrow> RowOrderProxyModel \<times> signal list" where
  "order_setSourceModel same m =
     (if same then (m, []) else (m\<lparr>roInSourceColumnMove := False\<rparr>, [BeginResetModel, EndResetModel]))"

section \<open>The layer keeps its contract\<close>

text \<open>The rows of the two mappings.\<close>

definition order_to :: "nat \<times> nat \<Rightarrow> RowOrderProxyModel \<Rightarrow> nat \<Rightarrow> nat option" where
  "order_to src m row = map_option fst (order_mapToSource (Some src) (Some (row, 0)) m)"

definition order_from :: "nat \<times> nat \<Rightarrow> RowOrderProxyModel \<Rightarrow> nat \<Rightarrow> nat option" where
  "order_from src m row =
     (if row < fst src then map_option fst (order_mapFromSource (Some src) (Some (row, 0)) m) else None)"

lemma order_to_eq: "0 < columns \<Longrightarrow> order_to (rows, columns) m p =
    (if p < rows then Some (if mReversed m then rows - 1 - p else p) else None)"
  by (auto simp: order_to_def order_mapToSource_def source_index_def)

lemma order_from_eq: "order_from (rows, columns) m s =
    (if s < rows then Some (if mReversed m then rows - 1 - s else s) else None)"
  by (auto simp: order_from_def order_mapFromSource_def)

lemma row_proxy_order: "0 < columns \<Longrightarrow> row_proxy rows rows (order_to (rows, columns) m) (order_from (rows, columns) m)"
  by unfold_locales (auto simp: order_to_eq order_from_eq split: if_splits)

interpretation newest_first: row_proxy rows rows "order_to (rows, Suc columns) m" "order_from (rows, Suc columns) m"
  by (rule row_proxy_order) simp

text \<open>
  When the source appends or evicts rows, the rows that the announced range leaves untouched still
  show what they showed: \<open>old\<close> are the rows of the source before.
\<close>

lemma append_announced:
  assumes "0 < columns" "p < old" "0 < new"
    and "order_rowsAboutToBeInserted True old (old + new - 1) m = [BeginInsertRows lo hi]"
  shows "order_to (old + new, columns) m (if p < lo then p else p + (hi - lo + 1)) = order_to (old, columns) m p"
  using assms by (auto simp: order_to_eq order_rowsAboutToBeInserted_def split: if_splits)

lemma evict_announced:
  assumes "0 < columns" "p < old" "0 < cnt" "cnt \<le> old"
    and "order_rowsAboutToBeRemoved old True 0 (cnt - 1) m = [BeginRemoveRows lo hi]" "\<not> (lo \<le> p \<and> p \<le> hi)"
  shows "map_option (\<lambda>s. s + cnt) (order_to (old - cnt, columns) m (if p < lo then p else p - (hi - lo + 1))) =
    order_to (old, columns) m p"
  using assms by (auto simp: order_to_eq order_rowsAboutToBeRemoved_def split: if_splits)

lemma evicted_rows:
  assumes "0 < columns" "p < old" "0 < cnt" "cnt \<le> old"
    and "order_rowsAboutToBeRemoved old True 0 (cnt - 1) m = [BeginRemoveRows lo hi]"
  shows "lo \<le> p \<and> p \<le> hi \<longleftrightarrow> (case order_to (old, columns) m p of Some s \<Rightarrow> s < cnt | None \<Rightarrow> False)"
proof (cases "mReversed m")
  case True
  then have "[BeginRemoveRows lo hi] = [BeginRemoveRows (old - 1 - (cnt - 1)) (old - 1 - 0)]"
    using assms(5) by (simp only: order_rowsAboutToBeRemoved_def if_True not_True_eq_False if_False)
  then have "lo = old - 1 - (cnt - 1)" "hi = old - 1 - 0" by (simp_all only: list.inject signal.inject)
  then have "lo = old - cnt" "hi = old - 1" using assms(3) by simp_all
  then show ?thesis using True assms(1-4) by (simp add: order_to_eq) linarith
next
  case False
  then have "lo = 0" "hi = cnt - 1" using assms(5) by (simp_all add: order_rowsAboutToBeRemoved_def)
  then show ?thesis using False assms(1-3) by (simp add: order_to_eq) linarith
qed

text \<open>The toggle moves every index to the row that shows the same row of the source.\<close>

lemma SetReversed_keeps_rows:
  assumes "0 < columns" "order_SetReversed (Some (rows, columns)) ps reversed m = (m', [LayoutAboutToBeChanged, ChangePersistentIndexList old new, LayoutChanged])"
    and "i < length ps" "ps ! i = Some (row, column)" "row < rows"
  shows "\<exists>row'. new ! i = Some (row', column) \<and> order_to (rows, columns) m' row' = order_to (rows, columns) m row"
proof -
  let ?mirror = "\<lambda>idx. case idx of None \<Rightarrow> None | Some (row, column) \<Rightarrow> if rows = 0 then idx else Some (rows - 1 - row, column)"
  have differ: "mReversed m \<noteq> reversed" and "ps \<noteq> []" using assms(2,3) by (auto simp: order_SetReversed_def split: if_splits)
  then have "m' = m\<lparr>mReversed := reversed\<rparr>" "new = map ?mirror ps"
    using assms(2) by (auto simp: order_SetReversed_def order_rowCount_def Let_def)
  then have "new ! i = Some (rows - 1 - row, column)" "mReversed m' = (\<not> mReversed m)" using assms(3-5) differ by auto
  then show ?thesis using assms(1,5) by (simp add: order_to_eq)
qed

end
