(* ===== verification/Filter_View.thy ===== *)
theory Filter_View
  imports Row_Proxies Row_Compare Filter_Correct
begin

text \<open>
  \<open>app/src/log_filter_model.cpp\<close>: the proxy that shows the rows a filter accepts, in the order of the
  column that the user sorts by.

  The objects that the model points to (the source with its chain of proxies, and the log model with
  its table) are components of its state and hold what they hold when a slot runs.  A row or column
  of \<open>-1\<close> is \<open>None\<close>.  Qt's own bookkeeping is outside: \<open>persistentIndexList()\<close> is an argument, the
  signals and the calls of \<open>changePersistentIndexList\<close> are recorded in \<open>emitted\<close>.  What the
  parallel algorithms do is in \<open>engine\<close>.
\<close>

section \<open>State\<close>

record engine =
  eExternals :: externals
  eParallelism :: nat
  eLeafScheds :: "nat \<Rightarrow> schedule"
  eVisitSched :: schedule
  eParallelSort :: parallel_sort

text \<open>\<open>toSource\<close> and \<open>fromSource\<close> are \<open>mapToSource\<close> and \<open>mapFromSource\<close> on rows.\<close>

record proxy =
  toSource :: "nat \<Rightarrow> nat option"
  fromSource :: "nat \<Rightarrow> nat option"

text \<open>\<open>proxyChain\<close> leads from the source model down; \<open>endsAtLogModel\<close> tells that it ends at \<open>mLogModel\<close>.\<close>

record SourceModel =
  sourceRows :: nat
  sourceColumns :: nat
  proxyChain :: "proxy list"
  endsAtLogModel :: bool

text \<open>\<open>dictionaryAddress\<close> is the address of the dictionary of a key.\<close>

record LogModel =
  lmTable :: LogTable
  dictionaryAddress :: "KeyId \<Rightarrow> nat"

record EnumRankEntry =
  erRank :: EnumDictRank
  erSource :: nat

record LogFilterModel =
  mSourceModel :: "SourceModel option"
  mLogModel :: "LogModel option"
  mCompiledExpression :: CompiledFilterExpression
  mAcceptedSourceRows :: "nat list"
  mSourceRowToProxyRow :: "nat option list"
  mSortColumn :: "nat option"
  mSortAscending :: bool
  mInSourceColumnMove :: bool
  mPersistentIndexSnapshot :: "model_index list"
  mPersistentSourceIndexSnapshot :: "model_index list"
  mEnumRanks :: "KeyId \<rightharpoonup> EnumRankEntry"
  emitted :: "signal list"

definition emit :: "signal \<Rightarrow> LogFilterModel \<Rightarrow> LogFilterModel" where
  "emit s m = m\<lparr>emitted := emitted m @ [s]\<rparr>"

definition source_rowCount :: "LogFilterModel \<Rightarrow> nat" where
  "source_rowCount m = (case mSourceModel m of None \<Rightarrow> 0 | Some src \<Rightarrow> sourceRows src)"

definition model_columns :: "LogModel \<Rightarrow> Column list" where
  "model_columns lm = tcolumns (lmTable lm)"

section \<open>Rows of the source and of the log\<close>

fun walk_down :: "proxy list \<Rightarrow> nat \<Rightarrow> nat option" where
  "walk_down [] row = Some row"
| "walk_down (p # ps) row = (case toSource p row of None \<Rightarrow> None | Some row' \<Rightarrow> walk_down ps row')"

fun walk_up :: "proxy list \<Rightarrow> nat \<Rightarrow> nat option" where
  "walk_up [] row = Some row"
| "walk_up (p # ps) row = (case fromSource p row of None \<Rightarrow> None | Some row' \<Rightarrow> walk_up ps row')"

text \<open>The log model knows no indices out of its range; a proxy makes an index of every row.\<close>

definition SourceRowToLogRow :: "LogFilterModel \<Rightarrow> nat \<Rightarrow> nat option" where
  "SourceRowToLogRow m row =
     (case (mSourceModel m, mLogModel m) of
        (Some src, Some lm) \<Rightarrow>
          if proxyChain src = [] \<and> \<not> (row < sourceRows src \<and> 0 < sourceColumns src) then None
          else if endsAtLogModel src then walk_down (proxyChain src) row
          else None
      | _ \<Rightarrow> None)"

text \<open>\<open>mProxyChainAbove\<close> holds the chain from the log model up.\<close>

definition mProxyChainAbove :: "SourceModel \<Rightarrow> proxy list" where
  "mProxyChainAbove src = rev (proxyChain src)"

definition LogRowToSourceRow :: "LogFilterModel \<Rightarrow> nat \<Rightarrow> nat option" where
  "LogRowToSourceRow m logRow =
     (case (mSourceModel m, mLogModel m) of
        (Some src, Some lm) \<Rightarrow>
          if mProxyChainAbove src = [] then Some logRow
          else if \<not> (logRow < RowCount (lmTable lm) \<and> 0 < length (model_columns lm)) then None
          else walk_up (mProxyChainAbove src) logRow
      | _ \<Rightarrow> None)"

section \<open>The order of the rows\<close>

definition EnumKeyForColumn :: "externals \<Rightarrow> nat option \<Rightarrow> LogFilterModel \<Rightarrow> KeyId" where
  "EnumKeyForColumn ex column m =
     (case (mLogModel m, column) of
        (Some lm, Some c) \<Rightarrow> fst (ResolveEnumColumn ex (lmTable lm) c)
      | _ \<Rightarrow> INVALID_KEY_ID)"

definition EnumRankFor :: "externals \<Rightarrow> nat \<Rightarrow> LogFilterModel \<Rightarrow> EnumDictRank option \<times> LogFilterModel" where
  "EnumRankFor ex column m =
     (case mLogModel m of
        None \<Rightarrow> (None, m)
      | Some lm \<Rightarrow>
          (case ResolveEnumColumn ex (lmTable lm) column of
             (key, None) \<Rightarrow> (None, m)
           | (key, Some d) \<Rightarrow>
               if key = INVALID_KEY_ID then (None, m)
               else
                 let address = dictionaryAddress lm key;
                     fresh = make_EnumDictRank d;
                     rebuilt = (Some fresh, m\<lparr>mEnumRanks := (mEnumRanks m)(key \<mapsto> \<lparr>erRank = fresh, erSource = address\<rparr>)\<rparr>)
                 in case mEnumRanks m key of
                      None \<Rightarrow> rebuilt
                    | Some entry \<Rightarrow>
                        if erSource entry = address \<and> DictSize (erRank entry) \<ge> dict_Size d
                        then (Some (erRank entry), m) else rebuilt))"

text \<open>The rank that a sort by column \<open>c\<close> passes on.\<close>

definition sort_rank :: "externals \<Rightarrow> nat \<Rightarrow> LogModel \<Rightarrow> LogFilterModel \<Rightarrow> EnumDictRank option \<times> LogFilterModel" where
  "sort_rank ex c lm m = (if ctype (model_columns lm ! c) = CtEnumeration then EnumRankFor ex c m else (None, m))"

definition ApplySortPermutation :: "engine \<Rightarrow> LogFilterModel \<Rightarrow> LogFilterModel" where
  "ApplySortPermutation e m =
     (case (mSortColumn m, mLogModel m) of
        (Some c, Some lm) \<Rightarrow>
          if length (mAcceptedSourceRows m) \<le> 1 then m
          else if c \<ge> length (model_columns lm) then m
          else
            let logRows = map (\<lambda>srcRow. case SourceRowToLogRow m srcRow of Some l \<Rightarrow> l | None \<Rightarrow> 0) (mAcceptedSourceRows m);
                (rank, m') = sort_rank (eExternals e) c lm m;
                permutation = SortPermutationByColumn (eParallelSort e) (eExternals e) (lmTable lm) logRows c (mSortAscending m) rank
            in m'\<lparr>mAcceptedSourceRows := map (\<lambda>idx. mAcceptedSourceRows m ! idx) permutation\<rparr>
      | _ \<Rightarrow> m)"

definition LessThanSourceRows :: "externals \<Rightarrow> LogFilterModel \<Rightarrow> nat \<Rightarrow> nat \<Rightarrow> bool" where
  "LessThanSourceRows ex m leftSource rightSource =
     (case (mLogModel m, mSortColumn m) of
        (Some lm, Some c) \<Rightarrow>
          if c \<ge> length (model_columns lm) then leftSource < rightSource
          else
            (case (SourceRowToLogRow m leftSource, SourceRowToLogRow m rightSource) of
               (Some leftLog, Some rightLog) \<Rightarrow>
                 let cmp = CompareRows ex (lmTable lm) leftLog rightLog c (fst (sort_rank ex c lm m))
                 in if cmp = 0 then leftSource < rightSource else if mSortAscending m then cmp < 0 else cmp > 0
             | _ \<Rightarrow> leftSource < rightSource)
      | _ \<Rightarrow> leftSource < rightSource)"

text \<open>The cache of ranks is mutable: a comparison leaves what the lookup leaves.\<close>

definition compared :: "externals \<Rightarrow> LogFilterModel \<Rightarrow> LogFilterModel" where
  "compared ex m =
     (case (mLogModel m, mSortColumn m) of
        (Some lm, Some c) \<Rightarrow> if c \<ge> length (model_columns lm) then m else snd (sort_rank ex c lm m)
      | _ \<Rightarrow> m)"

section \<open>The accepted rows\<close>

definition MatchesRulesAtSourceRow :: "externals \<Rightarrow> LogFilterModel \<Rightarrow> nat \<Rightarrow> bool" where
  "MatchesRulesAtSourceRow ex m sourceRow =
     (if IsMatchAllCompiled (mCompiledExpression m) then True
      else case mLogModel m of
        None \<Rightarrow> False
      | Some lm \<Rightarrow>
          (case SourceRowToLogRow m sourceRow of
             None \<Rightarrow> False
           | Some logRow \<Rightarrow> EvaluateExpression ex (mCompiledExpression m) (lmTable lm) logRow))"

definition RecomputeAcceptedRows :: "engine \<Rightarrow> LogFilterModel \<Rightarrow> LogFilterModel" where
  "RecomputeAcceptedRows e m =
     (case mSourceModel m of
        None \<Rightarrow> m\<lparr>mAcceptedSourceRows := []\<rparr>
      | Some src \<Rightarrow>
          if IsMatchAllCompiled (mCompiledExpression m) then m\<lparr>mAcceptedSourceRows := [0..<sourceRows src]\<rparr>
          else case mLogModel m of
            None \<Rightarrow> m\<lparr>mAcceptedSourceRows := []\<rparr>
          | Some lm \<Rightarrow>
              let acceptedLogRows = FilterAcceptedRows (eExternals e) (eParallelism e) (eLeafScheds e) (eVisitSched e)
                    (lmTable lm) (mCompiledExpression m)
              in m\<lparr>mAcceptedSourceRows := sort (List.map_filter (LogRowToSourceRow m) acceptedLogRows)\<rparr>)"

definition RebuildReverseIndex :: "LogFilterModel \<Rightarrow> LogFilterModel" where
  "RebuildReverseIndex m =
     m\<lparr>mSourceRowToProxyRow :=
         fold (\<lambda>proxyRow rev_index.
             let srcRow = mAcceptedSourceRows m ! proxyRow
             in if srcRow < length rev_index then rev_index[srcRow := Some proxyRow] else rev_index)
           [0..<length (mAcceptedSourceRows m)] (replicate (source_rowCount m) None)\<rparr>"

text \<open>\<open>raw\<close> is \<open>persistentIndexList()\<close>.\<close>

definition SnapshotPersistentIndices :: "model_index list \<Rightarrow> LogFilterModel \<Rightarrow> LogFilterModel" where
  "SnapshotPersistentIndices raw m =
     m\<lparr>mPersistentIndexSnapshot := raw,
       mPersistentSourceIndexSnapshot :=
         map (\<lambda>idx. case idx of
             None \<Rightarrow> None
           | Some (row, column) \<Rightarrow>
               if mSourceModel m \<noteq> None \<and> row < length (mAcceptedSourceRows m)
               then Some (mAcceptedSourceRows m ! row, column) else None) raw\<rparr>"

definition remapped_index :: "LogFilterModel \<Rightarrow> model_index \<Rightarrow> model_index" where
  "remapped_index m srcAnchor =
     (case srcAnchor of
        None \<Rightarrow> None
      | Some (srcRow, col) \<Rightarrow>
          if srcRow \<ge> length (mSourceRowToProxyRow m) then None
          else case mSourceRowToProxyRow m ! srcRow of None \<Rightarrow> None | Some proxyRow \<Rightarrow> Some (proxyRow, col))"

definition RemapPersistentIndicesForRebuild :: "LogFilterModel \<Rightarrow> LogFilterModel" where
  "RemapPersistentIndicesForRebuild m =
     (if mPersistentIndexSnapshot m = [] then m\<lparr>mPersistentSourceIndexSnapshot := []\<rparr>
      else
        let replacements = map (remapped_index m) (mPersistentSourceIndexSnapshot m)
        in (emit (ChangePersistentIndexList (mPersistentIndexSnapshot m) replacements) m)
             \<lparr>mPersistentIndexSnapshot := [], mPersistentSourceIndexSnapshot := []\<rparr>)"

definition sort_if_asked :: "engine \<Rightarrow> LogFilterModel \<Rightarrow> LogFilterModel" where
  "sort_if_asked e m = (if mSortColumn m \<noteq> None then ApplySortPermutation e m else m)"

definition RebuildAcceptedRows :: "engine \<Rightarrow> model_index list \<Rightarrow> LogFilterModel \<Rightarrow> LogFilterModel" where
  "RebuildAcceptedRows e raw m =
     (if mSourceModel m = None then m
      else emit LayoutChanged (RemapPersistentIndicesForRebuild (RebuildReverseIndex (sort_if_asked e (RecomputeAcceptedRows e
             (SnapshotPersistentIndices raw (emit LayoutAboutToBeChanged m)))))))"

section \<open>Setting up\<close>

definition match_all :: CompiledFilterExpression where
  "match_all = CAnd [] 0 []"

definition new_LogFilterModel :: LogFilterModel where
  "new_LogFilterModel =
     \<lparr>mSourceModel = None, mLogModel = None, mCompiledExpression = match_all, mAcceptedSourceRows = [],
      mSourceRowToProxyRow = [], mSortColumn = None, mSortAscending = True, mInSourceColumnMove = False,
      mPersistentIndexSnapshot = [], mPersistentSourceIndexSnapshot = [], mEnumRanks = Map.empty, emitted = []\<rparr>"

definition SetLogModel :: "engine \<Rightarrow> model_index list \<Rightarrow> LogModel option \<Rightarrow> LogFilterModel \<Rightarrow> LogFilterModel" where
  "SetLogModel e raw lm m =
     (let m1 = m\<lparr>mLogModel := lm, mEnumRanks := Map.empty\<rparr>
      in if mSourceModel m1 \<noteq> None then RebuildAcceptedRows e raw m1 else m1)"

definition setSourceModel :: "SourceModel option \<Rightarrow> LogFilterModel \<Rightarrow> LogFilterModel" where
  "setSourceModel source m0 =
     (let m = emit BeginResetModel m0;
          m1 = m\<lparr>mCompiledExpression := match_all, mLogModel := None, mEnumRanks := Map.empty, mAcceptedSourceRows := [],
                 mSourceRowToProxyRow := [], mSortColumn := None, mSortAscending := True, mSourceModel := source\<rparr>;
          m2 = (case source of
                  None \<Rightarrow> m1
                | Some src \<Rightarrow> RebuildReverseIndex (m1\<lparr>mAcceptedSourceRows := [0..<sourceRows src]\<rparr>))
      in emit EndResetModel m2)"

definition SetFilterExpression :: "engine \<Rightarrow> model_index list \<Rightarrow> CompiledFilterExpression \<Rightarrow> LogFilterModel \<Rightarrow> LogFilterModel" where
  "SetFilterExpression e raw expression m =
     (let wasMatchAll = IsMatchAllCompiled (mCompiledExpression m); nowMatchAll = IsMatchAllCompiled expression;
          m1 = m\<lparr>mCompiledExpression := expression\<rparr>
      in if wasMatchAll \<and> nowMatchAll then m1 else RebuildAcceptedRows e raw m1)"

text \<open>\<open>address\<close> tells where the predicate of each leaf comes to lie.\<close>

definition SetFilterRules :: "engine \<Rightarrow> model_index list \<Rightarrow> (nat \<Rightarrow> nat) \<Rightarrow> RowPredicate list \<Rightarrow> LogFilterModel \<Rightarrow> LogFilterModel" where
  "SetFilterRules e raw address rules m =
     (if rules = [] then SetFilterExpression e raw match_all m
      else SetFilterExpression e raw
        (CAnd (map (\<lambda>(i, p). make_leaf (address i) p) (enumerate 0 rules)) 0 (remdups_adj (sort (map RowPredicateColumn rules)))) m)"

definition InvalidateEnumRanks :: "LogFilterModel \<Rightarrow> LogFilterModel" where
  "InvalidateEnumRanks m = m\<lparr>mEnumRanks := Map.empty\<rparr>"

section \<open>The item model\<close>

definition view_index :: "nat \<Rightarrow> nat \<Rightarrow> LogFilterModel \<Rightarrow> model_index" where
  "view_index row column m =
     (if row \<ge> length (mAcceptedSourceRows m) then None
      else case mSourceModel m of
        None \<Rightarrow> None
      | Some src \<Rightarrow> if column \<ge> sourceColumns src then None else Some (row, column))"

definition view_rowCount :: "LogFilterModel \<Rightarrow> nat" where
  "view_rowCount m = length (mAcceptedSourceRows m)"

definition view_columnCount :: "LogFilterModel \<Rightarrow> nat" where
  "view_columnCount m = (case mSourceModel m of None \<Rightarrow> 0 | Some src \<Rightarrow> sourceColumns src)"

text \<open>\<open>sourceModel()->index\<close> is taken to know the rows of the source.\<close>

definition mapToSource :: "model_index \<Rightarrow> LogFilterModel \<Rightarrow> model_index" where
  "mapToSource proxyIndex m =
     (case (proxyIndex, mSourceModel m) of
        (Some (proxyRow, column), Some src) \<Rightarrow>
          if proxyRow \<ge> length (mAcceptedSourceRows m) then None
          else Some (mAcceptedSourceRows m ! proxyRow, column)
      | _ \<Rightarrow> None)"

definition mapFromSource :: "model_index \<Rightarrow> LogFilterModel \<Rightarrow> model_index" where
  "mapFromSource sourceIndex m =
     (case (sourceIndex, mSourceModel m) of
        (Some (srcRow, column), Some src) \<Rightarrow>
          if srcRow \<ge> length (mSourceRowToProxyRow m) then None
          else (case mSourceRowToProxyRow m ! srcRow of None \<Rightarrow> None | Some proxyRow \<Rightarrow> Some (proxyRow, column))
      | _ \<Rightarrow> None)"

text \<open>\<open>view_sort\<close> is \<open>sort\<close>; without a column the rows return to the order of the source.\<close>

definition view_sort :: "engine \<Rightarrow> model_index list \<Rightarrow> nat option \<Rightarrow> bool \<Rightarrow> LogFilterModel \<Rightarrow> LogFilterModel" where
  "view_sort e raw column ascending m =
     (if mSourceModel m = None then m\<lparr>mSortColumn := column, mSortAscending := ascending\<rparr>
      else if column = None \<and> mSortColumn m = None then m
      else
        let m1 = (SnapshotPersistentIndices raw (emit LayoutAboutToBeChanged m))\<lparr>mSortColumn := column, mSortAscending := ascending\<rparr>;
            m2 = (if column = None then m1\<lparr>mAcceptedSourceRows := sort (mAcceptedSourceRows m1)\<rparr> else ApplySortPermutation e m1)
        in emit LayoutChanged (RemapPersistentIndicesForRebuild (RebuildReverseIndex m2)))"

section \<open>Rows come and go\<close>

text \<open>\<open>std::ranges::lower_bound\<close> on a range that \<open>P\<close> divides.\<close>

definition partition_point :: "('a \<Rightarrow> bool) \<Rightarrow> 'a list \<Rightarrow> nat" where
  "partition_point P xs = length (takeWhile P xs)"

definition insert_at :: "nat \<Rightarrow> 'a list \<Rightarrow> 'a list \<Rightarrow> 'a list" where
  "insert_at at_pos new xs = take at_pos xs @ new @ drop at_pos xs"

definition insert_sorted_row :: "externals \<Rightarrow> nat \<Rightarrow> LogFilterModel \<Rightarrow> LogFilterModel" where
  "insert_sorted_row ex r m =
     (let m1 = (if mAcceptedSourceRows m = [] then m else compared ex m);
          proxyRow = partition_point (\<lambda>lhs. LessThanSourceRows ex m lhs r) (mAcceptedSourceRows m);
          m2 = emit (BeginInsertRows proxyRow proxyRow) m1
      in emit EndInsertRows (m2\<lparr>mAcceptedSourceRows := insert_at proxyRow [r] (mAcceptedSourceRows m2)\<rparr>))"

definition OnSourceRowsInserted :: "externals \<Rightarrow> bool \<Rightarrow> nat \<Rightarrow> nat \<Rightarrow> LogFilterModel \<Rightarrow> LogFilterModel" where
  "OnSourceRowsInserted ex topLevel lo hi m =
     (if \<not> topLevel \<or> mSourceModel m = None then m
      else if hi < lo then m
      else
        let insertedCount = hi - lo + 1;
            m1 = m\<lparr>mAcceptedSourceRows := map (\<lambda>row. if row \<ge> lo then row + insertedCount else row) (mAcceptedSourceRows m)\<rparr>;
            newlyAccepted = filter (MatchesRulesAtSourceRow ex m1) [lo..<hi + 1]
        in if mSortColumn m1 = None then
             if newlyAccepted \<noteq> [] then
               let proxyFirst = partition_point (\<lambda>row. row < lo) (mAcceptedSourceRows m1);
                   proxyLast = proxyFirst + length newlyAccepted - 1;
                   m2 = emit (BeginInsertRows proxyFirst proxyLast) m1;
                   m3 = m2\<lparr>mAcceptedSourceRows := insert_at proxyFirst newlyAccepted (mAcceptedSourceRows m2)\<rparr>
               in emit EndInsertRows (RebuildReverseIndex m3)
             else RebuildReverseIndex m1
           else RebuildReverseIndex (fold (insert_sorted_row ex) newlyAccepted m1))"

fun coalesce :: "nat \<Rightarrow> nat \<Rightarrow> nat list \<Rightarrow> (nat \<times> nat) list" where
  "coalesce rangeStart rangeEnd [] = [(rangeStart, rangeEnd)]"
| "coalesce rangeStart rangeEnd (p # ps) =
     (if p = rangeEnd + 1 then coalesce rangeStart p ps else (rangeStart, rangeEnd) # coalesce p p ps)"

definition coalesceRanges :: "nat list \<Rightarrow> (nat \<times> nat) list" where
  "coalesceRanges proxyRowsToDrop = (case proxyRowsToDrop of [] \<Rightarrow> [] | p # ps \<Rightarrow> coalesce p p ps)"

definition remove_range :: "nat \<times> nat \<Rightarrow> LogFilterModel \<Rightarrow> LogFilterModel" where
  "remove_range r m =
     (let m1 = emit (BeginRemoveRows (fst r) (snd r)) m
      in emit EndRemoveRows
           (m1\<lparr>mAcceptedSourceRows := take (fst r) (mAcceptedSourceRows m1) @ drop (snd r + 1) (mAcceptedSourceRows m1)\<rparr>))"

definition OnSourceRowsRemoved :: "bool \<Rightarrow> nat \<Rightarrow> nat \<Rightarrow> LogFilterModel \<Rightarrow> LogFilterModel" where
  "OnSourceRowsRemoved topLevel lo hi m =
     (if \<not> topLevel \<or> mSourceModel m = None then m
      else if hi < lo then m
      else
        let removedCount = hi - lo + 1;
            proxyRowsToDrop = filter (\<lambda>i. lo \<le> mAcceptedSourceRows m ! i \<and> mAcceptedSourceRows m ! i \<le> hi)
              [0..<length (mAcceptedSourceRows m)];
            m1 = fold remove_range (rev (coalesceRanges proxyRowsToDrop)) m
        in RebuildReverseIndex
             (m1\<lparr>mAcceptedSourceRows := map (\<lambda>sr. if sr > hi then sr - removedCount else sr) (mAcceptedSourceRows m1)\<rparr>))"

section \<open>Data, layout and columns change\<close>

text \<open>The visible rows among \<open>rows\<close>: the smallest and the greatest.\<close>

definition visible_range :: "LogFilterModel \<Rightarrow> nat list \<Rightarrow> (nat \<times> nat) option" where
  "visible_range m rows =
     fold (\<lambda>sr acc.
         if sr \<ge> length (mSourceRowToProxyRow m) then acc
         else case mSourceRowToProxyRow m ! sr of
             None \<Rightarrow> acc
           | Some pr \<Rightarrow> (case acc of None \<Rightarrow> Some (pr, pr) | Some (lo, hi) \<Rightarrow> Some (min lo pr, max hi pr)))
       rows None"

definition OnSourceDataChanged ::
    "engine \<Rightarrow> model_index list \<Rightarrow> model_index \<Rightarrow> model_index \<Rightarrow> int list \<Rightarrow> LogFilterModel \<Rightarrow> LogFilterModel" where
  "OnSourceDataChanged e raw topLeft bottomRight roles m =
     (case (mSourceModel m, topLeft, bottomRight) of
        (Some src, Some (srcFirst, srcColFirst), Some (srcLast, srcColLast)) \<Rightarrow>
          if list_ex (\<lambda>col. srcColFirst \<le> col \<and> col \<le> srcColLast) (referencedColumns (mCompiledExpression m))
          then RebuildAcceptedRows e raw m
          else (case visible_range m [srcFirst..<srcLast + 1] of
                  None \<Rightarrow> m
                | Some (proxyFirst, proxyLast) \<Rightarrow>
                    emit (DataChanged (view_index proxyFirst srcColFirst m) (view_index proxyLast srcColLast m) roles) m)
      | _ \<Rightarrow> m)"

definition OnSourceModelAboutToBeReset :: "LogFilterModel \<Rightarrow> LogFilterModel" where
  "OnSourceModelAboutToBeReset m = emit BeginResetModel m"

definition OnSourceModelReset :: "engine \<Rightarrow> LogFilterModel \<Rightarrow> LogFilterModel" where
  "OnSourceModelReset e m =
     (let m1 = m\<lparr>mAcceptedSourceRows := [], mSourceRowToProxyRow := [], mEnumRanks := Map.empty\<rparr>
      in emit EndResetModel
           (if mSourceModel m1 \<noteq> None then RebuildReverseIndex (sort_if_asked e (RecomputeAcceptedRows e m1)) else m1))"

definition OnSourceLayoutAboutToBeChanged :: "model_index list \<Rightarrow> LogFilterModel \<Rightarrow> LogFilterModel" where
  "OnSourceLayoutAboutToBeChanged raw m = SnapshotPersistentIndices raw (emit LayoutAboutToBeChanged m)"

definition OnSourceLayoutChanged :: "engine \<Rightarrow> LogFilterModel \<Rightarrow> LogFilterModel" where
  "OnSourceLayoutChanged e m =
     (if mSourceModel m = None then emit LayoutChanged (RemapPersistentIndicesForRebuild m)
      else emit LayoutChanged (RemapPersistentIndicesForRebuild (RebuildReverseIndex (sort_if_asked e (RecomputeAcceptedRows e m)))))"

definition OnSourceColumnsInserted :: "bool \<Rightarrow> nat \<Rightarrow> nat \<Rightarrow> LogFilterModel \<Rightarrow> LogFilterModel" where
  "OnSourceColumnsInserted topLevel lo hi m =
     (if \<not> topLevel then m
      else
        let m1 = emit (BeginInsertColumns lo hi) m
        in emit EndInsertColumns
             (m1\<lparr>mSortColumn := map_option (\<lambda>c. if c \<ge> lo then c + (hi - lo + 1) else c) (mSortColumn m1)\<rparr>))"

definition OnSourceColumnsRemoved :: "bool \<Rightarrow> nat \<Rightarrow> nat \<Rightarrow> LogFilterModel \<Rightarrow> LogFilterModel" where
  "OnSourceColumnsRemoved topLevel lo hi m =
     (if \<not> topLevel then m
      else
        let m1 = emit (BeginRemoveColumns lo hi) m
        in emit EndRemoveColumns
             (m1\<lparr>mSortColumn :=
                (case mSortColumn m1 of
                   None \<Rightarrow> None
                 | Some c \<Rightarrow> if lo \<le> c \<and> c \<le> hi then None else if c > hi then Some (c - (hi - lo + 1)) else Some c)\<rparr>))"

text \<open>\<open>allowed\<close> is the answer of \<open>beginMoveColumns\<close>.\<close>

definition OnSourceColumnsAboutToBeMoved :: "bool \<Rightarrow> bool \<Rightarrow> nat \<Rightarrow> nat \<Rightarrow> nat \<Rightarrow> LogFilterModel \<Rightarrow> LogFilterModel" where
  "OnSourceColumnsAboutToBeMoved topLevel allowed from_col to_last dest m =
     (if \<not> topLevel then m\<lparr>mInSourceColumnMove := False\<rparr>
      else (if allowed then emit (BeginMoveColumns from_col to_last dest) m else m)\<lparr>mInSourceColumnMove := allowed\<rparr>)"

definition sort_column_after_move :: "nat \<Rightarrow> nat \<Rightarrow> nat \<Rightarrow> nat \<Rightarrow> nat" where
  "sort_column_after_move from_col to_last dest c =
     (let span = to_last - from_col + 1
      in if from_col \<le> c \<and> c \<le> to_last then
           let c' = dest + (c - from_col) in if dest > to_last then c' - span else c'
         else if c > to_last \<and> c < dest then c - span
         else if c \<ge> dest \<and> c < from_col then c + span
         else c)"

definition OnSourceColumnsMoved :: "nat \<Rightarrow> nat \<Rightarrow> nat \<Rightarrow> LogFilterModel \<Rightarrow> LogFilterModel" where
  "OnSourceColumnsMoved from_col to_last dest m =
     (if mInSourceColumnMove m
      then (emit EndMoveColumns (m\<lparr>mSortColumn := map_option (sort_column_after_move from_col to_last dest) (mSortColumn m)\<rparr>))
             \<lparr>mInSourceColumnMove := False\<rparr>
      else m)"

definition OnSourceHeaderDataChanged :: "bool \<Rightarrow> nat \<Rightarrow> nat \<Rightarrow> LogFilterModel \<Rightarrow> LogFilterModel" where
  "OnSourceHeaderDataChanged horizontal lo hi m = emit (HeaderDataChanged horizontal lo hi) m"

end
