(* ===== verification/Filter_Search.thy ===== *)
theory Filter_Search
  imports Filter_View
begin

text \<open>
  Searching the rows of \<open>app/src/log_filter_model.cpp\<close>: \<open>ForEachMatchingRow\<close>, \<open>MatchRow\<close> and \<open>Matches\<close>.

  A \<open>QString\<close> is its UTF-16 units.  What Qt does to values and texts (regular expressions, the
  conversions of \<open>QVariant\<close> and of a cell's bytes, \<open>data\<close>) are the operations of a record.
\<close>

section \<open>Flags\<close>

type_synonym QString = "16 word list"
type_synonym MatchFlags = "32 word"

definition MatchExactly :: MatchFlags where "MatchExactly = 0"
definition MatchContains :: MatchFlags where "MatchContains = 1"
definition MatchStartsWith :: MatchFlags where "MatchStartsWith = 2"
definition MatchEndsWith :: MatchFlags where "MatchEndsWith = 3"
definition MatchRegularExpression :: MatchFlags where "MatchRegularExpression = 4"
definition MatchWildcard :: MatchFlags where "MatchWildcard = 5"
definition MatchWrap :: MatchFlags where "MatchWrap = 32"
definition MatchRecursive :: MatchFlags where "MatchRecursive = 64"

lemmas match_flags = MatchExactly_def MatchContains_def MatchStartsWith_def MatchEndsWith_def
  MatchRegularExpression_def MatchWildcard_def MatchWrap_def MatchRecursive_def

definition DisplayRole :: int where "DisplayRole = 0"

unbundle bit_operations_syntax

definition ComposeFindFlags :: "bool \<Rightarrow> bool \<Rightarrow> MatchFlags" where
  "ComposeFindFlags wildcards regularExpressions =
     (let flags = MatchWrap OR MatchRecursive
      in if regularExpressions then flags OR MatchRegularExpression
         else if wildcards then flags OR MatchWildcard
         else flags OR MatchContains)"

definition MATCH_TYPE_MASK :: MatchFlags where "MATCH_TYPE_MASK = 0x000F"

section \<open>Matches\<close>

record 'v qt =
  toString :: "'v \<Rightarrow> QString"
  itemData :: "nat \<Rightarrow> nat \<Rightarrow> int \<Rightarrow> 'v"
  hasMatch :: "QString \<Rightarrow> QString \<Rightarrow> bool"
  wildcardToRegularExpression :: "QString \<Rightarrow> QString"
  ConvertToSingleLineCompactQString :: "string \<Rightarrow> QString"

definition str_contains :: "QString \<Rightarrow> QString \<Rightarrow> bool" where
  "str_contains text needle = list_ex (\<lambda>i. take (length needle) (drop i text) = needle) [0..<length text + 1]"

definition MatchesText :: "'v qt \<Rightarrow> QString \<Rightarrow> QString \<Rightarrow> MatchFlags \<Rightarrow> bool" where
  "MatchesText q txt needle flags =
     (let matchType = flags AND MATCH_TYPE_MASK
      in if matchType = MatchExactly then txt = needle
         else if matchType = MatchStartsWith then take (length needle) txt = needle
         else if matchType = MatchEndsWith then drop (length txt - length needle) txt = needle
         else if matchType = MatchContains then str_contains txt needle
         else if matchType = MatchRegularExpression then hasMatch q needle txt
         else if matchType = MatchWildcard then hasMatch q (wildcardToRegularExpression q needle) txt
         else False)"

definition Matches :: "'v qt \<Rightarrow> 'v \<Rightarrow> 'v \<Rightarrow> MatchFlags \<Rightarrow> bool" where
  "Matches q data_value sought flags =
     (if flags AND MATCH_TYPE_MASK = MatchExactly then data_value = sought
      else MatchesText q (toString q data_value) (toString q sought) flags)"

section \<open>The scan\<close>

definition column_hidden :: "LogFilterModel \<Rightarrow> nat \<Rightarrow> bool" where
  "column_hidden m column =
     (case mLogModel m of
        None \<Rightarrow> False
      | Some lm \<Rightarrow> column < length (model_columns lm) \<and> \<not> visible (model_columns lm ! column))"

definition SourceIndexToLogRow :: "LogFilterModel \<Rightarrow> model_index \<Rightarrow> nat option" where
  "SourceIndexToLogRow m sourceIdx = (case sourceIdx of None \<Rightarrow> None | Some (row, column) \<Rightarrow> SourceRowToLogRow m row)"

definition probeCell :: "'v qt \<Rightarrow> externals \<Rightarrow> LogFilterModel \<Rightarrow> int \<Rightarrow> 'v \<Rightarrow> MatchFlags \<Rightarrow> nat \<Rightarrow> nat \<Rightarrow> bool" where
  "probeCell q ex m role sought flags row column =
     (let logRow = SourceIndexToLogRow m (mapToSource (view_index row column m) m)
      in case (role = DisplayRole, mLogModel m, logRow) of
           (True, Some lm, Some l) \<Rightarrow>
             MatchesText q (ConvertToSingleLineCompactQString q (formatted ex (lmTable lm) l column)) (toString q sought) flags
         | _ \<Rightarrow> Matches q (itemData q row column role) sought flags)"

text \<open>\<open>onMatch\<close> passes a state on and says whether to go on.\<close>

definition scanRow ::
    "'v qt \<Rightarrow> externals \<Rightarrow> LogFilterModel \<Rightarrow> int \<Rightarrow> 'v \<Rightarrow> MatchFlags \<Rightarrow> nat \<Rightarrow> (nat \<times> nat \<Rightarrow> 's \<Rightarrow> bool \<times> 's) \<Rightarrow> nat \<Rightarrow> 's \<Rightarrow> bool \<times> 's" where
  "scanRow q ex m role sought flags startColumn onMatch actualRow s =
     (let columnCount = view_columnCount m;
          columns = map (\<lambda>col. (startColumn + col) mod columnCount) [0..<columnCount]
      in case find (\<lambda>c. \<not> column_hidden m c \<and> probeCell q ex m role sought flags actualRow c) columns of
           None \<Rightarrow> (False, s)
         | Some c \<Rightarrow> (case onMatch (actualRow, c) s of (goOn, s') \<Rightarrow> (\<not> goOn, s')))"

fun scan_while :: "(nat \<Rightarrow> nat option) \<Rightarrow> (nat \<Rightarrow> 's \<Rightarrow> bool \<times> 's) \<Rightarrow> nat list \<Rightarrow> 's \<Rightarrow> 's" where
  "scan_while actual scan [] s = s"
| "scan_while actual scan (row # rows) s =
     (case actual row of
        None \<Rightarrow> s
      | Some actualRow \<Rightarrow> (case scan actualRow s of (stop, s') \<Rightarrow> if stop then s' else scan_while actual scan rows s'))"

definition forward_row :: "nat \<Rightarrow> bool \<Rightarrow> nat \<Rightarrow> nat \<Rightarrow> nat option" where
  "forward_row rowCount wrap startRow row =
     (let actualRow = startRow + row
      in if actualRow \<ge> rowCount then (if \<not> wrap then None else Some (actualRow - rowCount)) else Some actualRow)"

definition backward_row :: "nat \<Rightarrow> bool \<Rightarrow> nat \<Rightarrow> nat \<Rightarrow> nat option" where
  "backward_row rowCount wrap startRow row =
     (if startRow < row then (if \<not> wrap then None else Some (startRow + rowCount - row)) else Some (startRow - row))"

definition ForEachMatchingRow ::
    "'v qt \<Rightarrow> externals \<Rightarrow> LogFilterModel \<Rightarrow> nat \<times> nat \<Rightarrow> int \<Rightarrow> 'v \<Rightarrow> MatchFlags \<Rightarrow> bool \<Rightarrow> nat \<Rightarrow> (nat \<times> nat \<Rightarrow> 's \<Rightarrow> bool \<times> 's) \<Rightarrow> 's \<Rightarrow> 's" where
  "ForEachMatchingRow q ex m start role sought flags forward skipFirstN onMatch s =
     (let rowCount = view_rowCount m;
          wrap = (flags AND MatchWrap = MatchWrap);
          actual = (if forward then forward_row rowCount wrap (fst start) else backward_row rowCount wrap (fst start))
      in scan_while actual (scanRow q ex m role sought flags (snd start) onMatch) [skipFirstN..<rowCount] s)"

text \<open>\<open>hits\<close> is \<open>None\<close> for \<open>UNLIMITED_HITS\<close>.\<close>

definition MatchRow ::
    "'v qt \<Rightarrow> externals \<Rightarrow> LogFilterModel \<Rightarrow> nat \<times> nat \<Rightarrow> int \<Rightarrow> 'v \<Rightarrow> nat option \<Rightarrow> MatchFlags \<Rightarrow> bool \<Rightarrow> nat \<Rightarrow> (nat \<times> nat) list" where
  "MatchRow q ex m start role sought hits flags forward skipFirstN =
     ForEachMatchingRow q ex m start role sought flags forward skipFirstN
       (\<lambda>proxyIndex found. let result = found @ [proxyIndex]
          in (case hits of None \<Rightarrow> True | Some n \<Rightarrow> length result < n, result)) []"

section \<open>What a search finds\<close>

text \<open>The first matching cell of a row, in the columns from the start column on.\<close>

definition matching_cell :: "'v qt \<Rightarrow> externals \<Rightarrow> LogFilterModel \<Rightarrow> int \<Rightarrow> 'v \<Rightarrow> MatchFlags \<Rightarrow> nat \<Rightarrow> nat \<Rightarrow> (nat \<times> nat) option" where
  "matching_cell q ex m role sought flags startColumn row =
     map_option (Pair row)
       (find (\<lambda>c. \<not> column_hidden m c \<and> probeCell q ex m role sought flags row c)
          (map (\<lambda>col. (startColumn + col) mod view_columnCount m) [0..<view_columnCount m]))"

text \<open>The rows that a scan visits.\<close>

definition visited :: "(nat \<Rightarrow> nat option) \<Rightarrow> nat list \<Rightarrow> nat list" where
  "visited actual rows = map (the \<circ> actual) (takeWhile (\<lambda>row. actual row \<noteq> None) rows)"

lemma visited_simps [simp]:
  "visited actual [] = []"
  "visited actual (row # rows) = (case actual row of None \<Rightarrow> [] | Some r \<Rightarrow> r # visited actual rows)"
  by (auto simp: visited_def split: option.split)

lemma scanRow_cell:
  "scanRow q ex m role sought flags startColumn onMatch row s =
    (case matching_cell q ex m role sought flags startColumn row of
       None \<Rightarrow> (False, s)
     | Some i \<Rightarrow> (case onMatch i s of (goOn, s') \<Rightarrow> (\<not> goOn, s')))"
  by (auto simp: scanRow_def matching_cell_def Let_def split: option.split)

lemma scan_collects:
  fixes hits :: "nat option" and q :: "'v qt"
  assumes "case hits of None \<Rightarrow> True | Some n \<Rightarrow> length found < n"
  shows "scan_while actual
      (scanRow q ex m role sought flags startColumn
         (\<lambda>i found. let result = found @ [i] in (case hits of None \<Rightarrow> True | Some n \<Rightarrow> length result < n, result))) rows found =
    found @ (case hits of None \<Rightarrow> id | Some n \<Rightarrow> take (n - length found))
      (List.map_filter (matching_cell q ex m role sought flags startColumn) (visited actual rows))"
  using assms
proof (induction rows arbitrary: found)
  case Nil
  then show ?case by (simp add: map_filter_simps split: option.split)
next
  case (Cons row rows)
  show ?case
  proof (cases "actual row")
    case None
    then show ?thesis by (simp add: map_filter_simps split: option.split)
  next
    case (Some r)
    show ?thesis
    proof (cases "matching_cell q ex m role sought flags startColumn r")
      case None
      then show ?thesis using Some Cons by (simp add: scanRow_cell map_filter_simps)
    next
      case cell: (Some i)
      show ?thesis
      proof (cases hits)
        case None
        then show ?thesis using Some cell Cons.IH [of "found @ [i]"] by (simp add: scanRow_cell map_filter_simps Let_def)
      next
        case (Some n)
        then obtain k where k: "n - length found = Suc k" using Cons.prems by (cases "n - length found") simp_all
        then have k': "n - Suc (length found) = k" by simp
        show ?thesis
        proof (cases "Suc (length found) < n")
          case True
          then show ?thesis using \<open>actual row = Some r\<close> cell Some Cons.IH [of "found @ [i]"] k k'
            by (simp add: scanRow_cell map_filter_simps Let_def)
        next
          case False
          then have "k = 0" using k' by simp
          then show ?thesis using \<open>actual row = Some r\<close> cell Some False k by (simp add: scanRow_cell map_filter_simps Let_def)
        qed
      qed
    qed
  qed
qed

lemma MatchRow_finds:
  assumes "hits \<noteq> Some 0"
  shows "MatchRow q ex m start role sought hits flags forward skipFirstN =
    (case hits of None \<Rightarrow> id | Some n \<Rightarrow> take n)
      (List.map_filter (matching_cell q ex m role sought flags (snd start))
        (visited (if forward then forward_row (view_rowCount m) (flags AND MatchWrap = MatchWrap) (fst start)
                  else backward_row (view_rowCount m) (flags AND MatchWrap = MatchWrap) (fst start)) [skipFirstN..<view_rowCount m]))"
proof -
  have "case hits of None \<Rightarrow> True | Some n \<Rightarrow> length ([] :: (nat \<times> nat) list) < n" using assms by (cases hits) auto
  note found = scan_collects [unfolded Let_def, OF this]
  show ?thesis unfolding MatchRow_def ForEachMatchingRow_def Let_def found by (simp split: option.split)
qed

text \<open>With wrapping a scan over all rows visits each of them once.\<close>

lemma visited_total: "(\<And>row. row \<in> set rows \<Longrightarrow> actual row = Some (f row)) \<Longrightarrow> visited actual rows = map f rows"
  by (induction rows) simp_all

lemma forward_wrap:
  assumes "startRow < n"
  shows "visited (forward_row n True startRow) [0..<n] = [startRow..<n] @ [0..<startRow]"
proof -
  have "visited (forward_row n True startRow) [0..<n] = map (\<lambda>row. if startRow + row \<ge> n then startRow + row - n else startRow + row) [0..<n]"
    by (rule visited_total) (simp add: forward_row_def Let_def)
  also have "\<dots> = [startRow..<n] @ [0..<startRow]"
    by (rule nth_equalityI) (use assms in \<open>auto simp: nth_append\<close>)
  finally show ?thesis .
qed

lemma backward_wrap:
  assumes "startRow < n"
  shows "visited (backward_row n True startRow) [0..<n] = rev [0..<startRow + 1] @ rev [startRow + 1..<n]"
proof -
  have "visited (backward_row n True startRow) [0..<n] = map (\<lambda>row. if startRow < row then startRow + n - row else startRow - row) [0..<n]"
    by (rule visited_total) (simp add: backward_row_def)
  also have "\<dots> = rev [0..<startRow + 1] @ rev [startRow + 1..<n]"
    by (rule nth_equalityI) (use assms in \<open>auto simp: nth_append rev_nth simp del: upt_Suc\<close>)
  finally show ?thesis .
qed

lemma wrap_visits_all:
  assumes "startRow < n" "fw = forward_row n True startRow \<or> fw = backward_row n True startRow"
  shows "mset (visited fw [0..<n]) = mset [0..<n]"
proof -
  have "[0..<n] = [0..<k] @ [k..<n]" if "k \<le> n" for k
    using that upt_add_eq_append [of 0 k "n - k"] by simp
  from this [of startRow] this [of "startRow + 1"]
  have "mset [0..<n] = mset [0..<startRow] + mset [startRow..<n]" "mset [0..<n] = mset [0..<startRow + 1] + mset [startRow + 1..<n]"
    using assms(1) by (simp_all only: mset_append [symmetric] Suc_leI Suc_eq_plus1 [symmetric] less_imp_le)
  then show ?thesis using assms(2) forward_wrap [OF assms(1)] backward_wrap [OF assms(1)] by auto
qed

text \<open>The flags that \<open>ComposeFindFlags\<close> makes select one kind of match and wrap.\<close>

lemma ComposeFindFlags_type:
  "ComposeFindFlags wildcards regularExpressions AND MATCH_TYPE_MASK =
    (if regularExpressions then MatchRegularExpression else if wildcards then MatchWildcard else MatchContains)"
  "ComposeFindFlags wildcards regularExpressions AND MatchWrap = MatchWrap"
  by (auto simp: ComposeFindFlags_def match_flags MATCH_TYPE_MASK_def)

lemma str_contains_iff: "str_contains txt needle \<longleftrightarrow> (\<exists>before after. txt = before @ needle @ after)"
proof
  assume "str_contains txt needle"
  then obtain i where "take (length needle) (drop i txt) = needle" by (auto simp: str_contains_def list_ex_iff)
  then have "txt = take i txt @ needle @ drop (length needle) (drop i txt)" by (metis append_take_drop_id)
  then show "\<exists>before after. txt = before @ needle @ after" by blast
next
  assume "\<exists>before after. txt = before @ needle @ after"
  then obtain before after where "txt = before @ needle @ after" by blast
  then show "str_contains txt needle" by (auto simp: str_contains_def list_ex_iff intro!: bexI [of _ "length before"])
qed

end
