(* ===== verification/Row_Order.thy ===== *)
theory Row_Order
  imports Row_Compare "HOL-Library.Multiset"
begin

text \<open>
  The comparisons of \<open>log_compare.cpp\<close> are consistent orders, and the permutation sorts the rows
  stably by them, whichever of its three paths it takes.
\<close>

section \<open>Three-way comparisons\<close>

definition strict_total_order :: "(nat \<Rightarrow> nat \<Rightarrow> bool) \<Rightarrow> bool" where
  "strict_total_order lt \<longleftrightarrow>
     (\<forall>i. \<not> lt i i) \<and> (\<forall>i j k. lt i j \<longrightarrow> lt j k \<longrightarrow> lt i k) \<and> (\<forall>i j. i \<noteq> j \<longrightarrow> lt i j \<or> lt j i)"

text \<open>The contract of a comparison that a sort relies on.\<close>

locale three_way =
  fixes cmp :: "'a \<Rightarrow> 'a \<Rightarrow> int"
  assumes flip: "cmp b a = - cmp a b"
    and trans: "cmp a b \<le> 0 \<Longrightarrow> cmp b c \<le> 0 \<Longrightarrow> cmp a c \<le> 0"
begin

lemma refl [simp]: "cmp a a = 0"
  using flip [of a a] by simp

lemma trans_strict: "cmp a b < 0 \<Longrightarrow> cmp b c \<le> 0 \<Longrightarrow> cmp a c < 0"
proof -
  assume ab: "cmp a b < 0" and bc: "cmp b c \<le> 0"
  then have "cmp a c \<le> 0" using trans [of a b c] by simp
  moreover have "cmp a c \<noteq> 0"
  proof
    assume "cmp a c = 0"
    then have "cmp c a \<le> 0" using flip [of c a] by simp
    with bc have "cmp b a \<le> 0" by (rule trans)
    with ab flip [of a b] show False by simp
  qed
  ultimately show ?thesis by simp
qed

lemma trans_strict': "cmp a b \<le> 0 \<Longrightarrow> cmp b c < 0 \<Longrightarrow> cmp a c < 0"
proof -
  assume ab: "cmp a b \<le> 0" and bc: "cmp b c < 0"
  have "cmp a c \<noteq> 0"
  proof
    assume "cmp a c = 0"
    then have "cmp c a \<le> 0" using flip [of c a] by simp
    then have "cmp c b \<le> 0" using ab by (rule trans)
    with bc flip [of b c] show False by simp
  qed
  moreover have "cmp a c \<le> 0" using trans [of a b c] ab bc by simp
  ultimately show ?thesis by simp
qed

text \<open>The comparison of the images of another type.\<close>

lemma image: "three_way (\<lambda>x y. cmp (f x) (f y))"
  by unfold_locales (use flip trans in blast)+

text \<open>With the elements that have no image at the end.\<close>

definition tailed :: "('b \<Rightarrow> 'a option) \<Rightarrow> 'b \<Rightarrow> 'b \<Rightarrow> int" where
  "tailed f x y =
     (case (f x, f y) of
        (Some a, Some b) \<Rightarrow> cmp a b
      | (Some a, None) \<Rightarrow> -1
      | (None, Some b) \<Rightarrow> 1
      | (None, None) \<Rightarrow> 0)"

lemma tailed_three_way: "three_way (tailed f)"
proof
  show "tailed f b a = - tailed f a b" for a b
    by (cases "f a"; cases "f b") (simp_all add: tailed_def, rule flip)
  show "tailed f a c \<le> 0" if "tailed f a b \<le> 0" "tailed f b c \<le> 0" for a b c
    using that by (cases "f a"; cases "f b"; cases "f c") (auto simp: tailed_def intro: trans)
qed

text \<open>The order of positions that a sort uses: by the rows there, then by the positions.\<close>

definition before :: "bool \<Rightarrow> (nat \<Rightarrow> 'a) \<Rightarrow> nat \<Rightarrow> nat \<Rightarrow> bool" where
  "before ascending row i j =
     (let c = cmp (row i) (row j) in if c \<noteq> 0 then (if ascending then c < 0 else c > 0) else i < j)"

lemma before_irrefl: "\<not> before ascending row i i"
  by (simp add: before_def)

lemma before_total: "i \<noteq> j \<Longrightarrow> before ascending row i j \<or> before ascending row j i"
  using flip [of "row j" "row i"] by (auto simp: before_def Let_def)

lemma before_trans: "before ascending row i j \<Longrightarrow> before ascending row j k \<Longrightarrow> before ascending row i k"
proof -
  assume ij: "before ascending row i j" and jk: "before ascending row j k"
  let ?c = "\<lambda>i j. if ascending then cmp (row i) (row j) else cmp (row j) (row i)"
  have c: "before ascending row i j \<longleftrightarrow> ?c i j < 0 \<or> ?c i j = 0 \<and> i < j" for i j
    using flip [of "row i" "row j"] by (auto simp: before_def Let_def)
  have weak: "?c i j \<le> 0 \<Longrightarrow> ?c j k \<le> 0 \<Longrightarrow> ?c i k \<le> 0"
    using trans [of "row i" "row j" "row k"] trans [of "row k" "row j" "row i"] by auto
  have strict: "?c i j < 0 \<Longrightarrow> ?c j k \<le> 0 \<Longrightarrow> ?c i k < 0" "?c i j \<le> 0 \<Longrightarrow> ?c j k < 0 \<Longrightarrow> ?c i k < 0"
    using trans_strict [of "row i" "row j" "row k"] trans_strict' [of "row k" "row j" "row i"]
      trans_strict' [of "row i" "row j" "row k"] trans_strict [of "row k" "row j" "row i"] by auto
  have ij': "?c i j < 0 \<or> ?c i j = 0 \<and> i < j" and jk': "?c j k < 0 \<or> ?c j k = 0 \<and> j < k" using ij jk c by blast+
  show ?thesis
  proof (cases "?c i j < 0 \<or> ?c j k < 0")
    case True
    moreover have "?c i j \<le> 0" "?c j k \<le> 0" using ij' jk' by linarith+
    ultimately show ?thesis unfolding c using strict by blast
  next
    case False
    with ij' jk' have z: "?c i j = 0" "?c j k = 0" "i < k" by auto
    then have "?c i k \<le> 0" by (intro weak) simp_all
    with z(3) show ?thesis unfolding c by linarith
  qed
qed

lemma before_order: "strict_total_order (before ascending row)"
  unfolding strict_total_order_def using before_irrefl before_trans before_total by blast

end

lemma three_way_ThreeWay: "three_way (ThreeWay :: 'a::linorder \<Rightarrow> 'a \<Rightarrow> int)"
proof
  show "ThreeWay b a = - ThreeWay a b" for a b :: 'a by (auto simp: ThreeWay_def)
  show "ThreeWay a c \<le> 0" if "ThreeWay a b \<le> 0" "ThreeWay b c \<le> 0" for a b c :: 'a
    using that by (auto simp: ThreeWay_def split: if_splits)
qed

interpretation primitive: three_way "ThreeWay :: 'a::linorder \<Rightarrow> 'a \<Rightarrow> int"
  by (rule three_way_ThreeWay)

interpretation floating: three_way ThreeWayDouble
proof
  show "ThreeWayDouble b a = - ThreeWayDouble a b" for a b by (auto simp: ThreeWayDouble_def d_less_def)
  show "ThreeWayDouble a c \<le> 0" if "ThreeWayDouble a b \<le> 0" "ThreeWayDouble b c \<le> 0" for a b c
    using that by (auto simp: ThreeWayDouble_def d_less_def split: if_splits)
qed

section \<open>Rows\<close>

definition image_of :: "(LogValue \<Rightarrow> 'a option) \<Rightarrow> LogValue \<Rightarrow> 'a option" where
  "image_of extract v = (if v = VMonostate then None else extract v)"

lemma CompareTyped_tailed:
  assumes "three_way cmp"
  shows "CompareTyped lhs rhs extract cmp = three_way.tailed cmp (image_of extract) lhs rhs"
  using assms by (simp add: CompareTyped_def three_way.tailed_def image_of_def Let_def)

lemma formatted_string:
  assumes "column < length (tcolumns t)" "AsStringView (GetValue t row column) = Some s"
  shows "formatted ex t row column = s"
proof -
  have "\<not> out_of_table t row column"
    using assms(2) by (auto simp: GetValue_def AsStringView_def split: if_splits)
  then show ?thesis
    using assms by (cases "GetValue t row column")
      (simp_all add: formatted_def GetFormattedValue_def AsStringView_def FormatLogValue_def)
qed

text \<open>Strings are formatted as they are, so the two cases of the bytewise comparison are one.\<close>

lemma CompareBytewise_formatted:
  assumes "column < length (tcolumns t)"
  shows "CompareLogValuesBytewise ex t a b column = ThreeWay (formatted ex t a column) (formatted ex t b column)"
  using formatted_string [OF assms, of a _ ex] formatted_string [OF assms, of b _ ex]
  by (auto simp: CompareLogValuesBytewise_def split: option.split)

definition text_of :: "externals \<Rightarrow> LogTable \<Rightarrow> nat \<Rightarrow> nat \<Rightarrow> string option" where
  "text_of ex t column row = (if GetValue t row column = VMonostate then None else Some (formatted ex t row column))"

lemma CompareString_tailed:
  assumes "column < length (tcolumns t)"
  shows "CompareString ex t a b column = primitive.tailed (text_of ex t column) a b"
  using CompareBytewise_formatted [OF assms]
  by (simp add: CompareString_def CompareMonostateOrder_def primitive.tailed_def text_of_def)

definition enum_text :: "externals \<Rightarrow> LogTable \<Rightarrow> nat \<Rightarrow> nat \<Rightarrow> string option" where
  "enum_text ex t column row = map_option (\<lambda>_. formatted ex t row column) (GetEnumValueId t row column)"

lemma CompareEnum_tailed:
  assumes "column < length (tcolumns t)"
  shows "CompareEnum ex t a b column rank =
    (case rank of
       Some r \<Rightarrow> primitive.tailed (\<lambda>row. map_option (RankOf r) (GetEnumValueId t row column)) a b
     | None \<Rightarrow> primitive.tailed (enum_text ex t column) a b)"
  using CompareBytewise_formatted [OF assms]
  by (auto simp: CompareEnum_def primitive.tailed_def enum_text_def split: option.split)

lemma CompareLevel_tailed:
  "CompareLevel ex t a b column = primitive.tailed (\<lambda>row. map_option level_ordinal (GetLevelForRow ex t row column)) a b"
  by (simp add: CompareLevel_def primitive.tailed_def split: option.split)

text \<open>Whatever the table holds, the comparison of its rows by a column is consistent.\<close>

lemma three_way_CompareRows: "three_way (\<lambda>a b. CompareRows ex t a b column rank)"
proof (cases "column < length (tcolumns t)")
  case False
  then show ?thesis by unfold_locales (simp_all add: CompareRows_def)
next
  case True
  let ?v = "\<lambda>row. GetValue t row column"
  have typed: "three_way (\<lambda>a b. CompareTyped (?v a) (?v b) g cmp)" if "three_way cmp" for g and cmp :: "'x \<Rightarrow> 'x \<Rightarrow> int"
    unfolding CompareTyped_tailed [OF that]
    by (rule three_way.image [OF three_way.tailed_three_way [OF that]])
  define body where "body a b = (case ctype (tcolumns t ! column) of
          CtBoolean \<Rightarrow> CompareBool (?v a) (?v b)
        | CtInteger \<Rightarrow> CompareInteger (?v a) (?v b)
        | CtFloating \<Rightarrow> CompareFloating (?v a) (?v b)
        | CtNumber \<Rightarrow> CompareFloating (?v a) (?v b)
        | CtTime \<Rightarrow> CompareTime (?v a) (?v b)
        | CtEnumeration \<Rightarrow> CompareEnum ex t a b column rank
        | CtLevel \<Rightarrow> CompareLevel ex t a b column
        | _ \<Rightarrow> CompareString ex t a b column)" for a b
  have enum: "three_way (\<lambda>a b. CompareEnum ex t a b column rank)"
    unfolding CompareEnum_tailed [OF True]
    by (cases rank) (simp_all add: primitive.tailed_three_way)
  have vals: "three_way (\<lambda>a b. CompareBool (?v a) (?v b))" "three_way (\<lambda>a b. CompareInteger (?v a) (?v b))"
      "three_way (\<lambda>a b. CompareFloating (?v a) (?v b))" "three_way (\<lambda>a b. CompareTime (?v a) (?v b))"
    unfolding CompareBool_def CompareInteger_def CompareFloating_def CompareTime_def
    by (rule typed [OF three_way_ThreeWay] typed [OF floating.three_way_axioms])+
  have string: "three_way (\<lambda>a b. CompareString ex t a b column)" and level: "three_way (\<lambda>a b. CompareLevel ex t a b column)"
    unfolding CompareString_tailed [OF True] CompareLevel_tailed by (rule primitive.tailed_three_way)+
  have "three_way body"
    unfolding body_def by (cases "ctype (tcolumns t ! column)") (simp_all only: ColumnType.case vals enum string level)
  then have "body a a = 0" for a by (rule three_way.refl)
  moreover have "CompareRows ex t a b column rank = (if a = b then 0 else body a b)" for a b
    using True by (simp add: CompareRows_def body_def Let_def)
  ultimately have "(\<lambda>a b. CompareRows ex t a b column rank) = body" by (intro ext) simp
  with \<open>three_way body\<close> show ?thesis by simp
qed

interpretation rows: three_way "\<lambda>a b. CompareRows ex t a b column rank" for ex t column rank
  by (rule three_way_CompareRows)

section \<open>The rank table\<close>

lemma fold_ranks:
  assumes "distinct order" "set order \<subseteq> {..<length ranks}" "m \<le> length order"
  shows "length (fold (\<lambda>rank ranks. ranks[order ! rank := f rank]) [0..<m] ranks) = length ranks \<and>
    (\<forall>k<m. fold (\<lambda>rank ranks. ranks[order ! rank := f rank]) [0..<m] ranks ! (order ! k) = f k)"
  using assms(3)
proof (induction m)
  case (Suc m)
  have "order ! m < length ranks" using assms(2) Suc.prems nth_mem [of m order] by force
  moreover have "order ! m \<noteq> order ! k" if "k < m" for k
    using assms(1) that Suc.prems by (simp add: nth_eq_iff_index_eq)
  ultimately show ?case using Suc by (auto simp: less_Suc_eq nth_list_update)
qed simp

definition alphabetical :: "EnumDictionary \<Rightarrow> nat list" where
  "alphabetical d = sort_key (\<lambda>i. mValues d ! i) [0..<length (mValues d)]"

lemma dict_size: "dict_inv d \<Longrightarrow> length (mValues d) \<le> 1024"
  by (simp add: dict_inv_def)

lemma make_rank:
  assumes "dict_inv d"
  shows "length (make_EnumDictRank d) = length (mValues d)"
    and "k < length (mValues d) \<Longrightarrow> make_EnumDictRank d ! (alphabetical d ! k) = word_of_nat k"
proof -
  have order: "distinct (alphabetical d)" "set (alphabetical d) \<subseteq> {..<length (replicate (length (mValues d)) (0 :: 16 word))}"
    "length (alphabetical d) = length (mValues d)"
    by (auto simp: alphabetical_def)
  have "make_EnumDictRank d = fold (\<lambda>rank ranks. ranks[alphabetical d ! rank := word_of_nat rank]) [0..<length (mValues d)]
      (replicate (length (mValues d)) 0)"
    by (simp add: make_EnumDictRank_def alphabetical_def Let_def)
  with fold_ranks [OF order(1,2), of "length (mValues d)" word_of_nat] order(3)
  show "length (make_EnumDictRank d) = length (mValues d)"
    "k < length (mValues d) \<Longrightarrow> make_EnumDictRank d ! (alphabetical d ! k) = word_of_nat k"
    by simp_all
qed

lemma word16_less: "i \<le> 1024 \<Longrightarrow> j \<le> 1024 \<Longrightarrow> (word_of_nat i :: 16 word) < word_of_nat j \<longleftrightarrow> i < j"
  by (simp add: word_less_nat_alt unat_of_nat)

text \<open>Each id has a rank, and the ranks order the ids as their values.\<close>

lemma RankOf_position:
  assumes "dict_inv d" "unat vid < length (mValues d)"
  obtains k where "k < length (mValues d)" "alphabetical d ! k = unat vid" "RankOf (make_EnumDictRank d) vid = word_of_nat k"
proof -
  have "unat vid \<in> set (alphabetical d)" using assms(2) by (simp add: alphabetical_def)
  then obtain k where "k < length (alphabetical d)" "alphabetical d ! k = unat vid"
    by (auto simp: in_set_conv_nth)
  then have k: "k < length (mValues d)" "alphabetical d ! k = unat vid" by (simp_all add: alphabetical_def)
  with that [OF k] show ?thesis using make_rank(1) [OF assms(1)] make_rank(2) [OF assms(1) k(1)] assms(2) by (simp add: RankOf_def)
qed

lemma RankOf_less_iff:
  assumes "dict_inv d" "unat a < length (mValues d)" "unat b < length (mValues d)"
  shows "RankOf (make_EnumDictRank d) a < RankOf (make_EnumDictRank d) b \<longleftrightarrow> mValues d ! unat a < mValues d ! unat b"
proof -
  obtain i where i: "i < length (mValues d)" "alphabetical d ! i = unat a" "RankOf (make_EnumDictRank d) a = word_of_nat i"
    by (rule RankOf_position [OF assms(1,2)])
  obtain j where j: "j < length (mValues d)" "alphabetical d ! j = unat b" "RankOf (make_EnumDictRank d) b = word_of_nat j"
    by (rule RankOf_position [OF assms(1,3)])
  let ?v = "\<lambda>k. mValues d ! (alphabetical d ! k)"
  have len: "length (alphabetical d) = length (mValues d)" by (simp add: alphabetical_def)
  have sorted: "sorted (map (\<lambda>i. mValues d ! i) (alphabetical d))" unfolding alphabetical_def by (rule sorted_sort_key)
  have mono: "?v k \<le> ?v l" if "k \<le> l" "l < length (mValues d)" for k l
    using sorted_nth_mono [OF sorted, of k l] that by (simp add: len)
  have inj: "i = j" if "?v i = ?v j"
  proof -
    have "mIndex d (?v i) = Some a" "mIndex d (?v j) = Some b" using assms i(2) j(2) by (auto simp: dict_inv_def)
    with that have "a = b" by simp
    then show ?thesis using i j len by (metis alphabetical_def distinct_sort distinct_upt nth_eq_iff_index_eq)
  qed
  have "i < j \<longleftrightarrow> ?v i < ?v j"
  proof
    assume "i < j"
    then show "?v i < ?v j" using mono [of i j] inj j(1) by (auto simp: order_less_le)
  next
    assume "?v i < ?v j"
    then show "i < j" using mono [of j i] i(1) by (meson leD leI)
  qed
  then show ?thesis using dict_size [OF assms(1)] i j by (simp add: word16_less)
qed

lemma RankOf_known: "dict_inv d \<Longrightarrow> unat vid < length (mValues d) \<Longrightarrow> RankOf (make_EnumDictRank d) vid < DictSize (make_EnumDictRank d)"
proof -
  assume a: "dict_inv d" "unat vid < length (mValues d)"
  obtain k where "k < length (mValues d)" "RankOf (make_EnumDictRank d) vid = word_of_nat k"
    by (rule RankOf_position [OF a])
  then show ?thesis using dict_size [OF a(1)] make_rank(1) [OF a(1)] by (simp add: DictSize_def word16_less)
qed

section \<open>The permutation\<close>

text \<open>What is known of \<open>tbb::parallel_sort\<close>: for a strict weak order it permutes and sorts; it is not stable.\<close>

definition strict_weak_order :: "('a \<Rightarrow> 'a \<Rightarrow> bool) \<Rightarrow> bool" where
  "strict_weak_order lt \<longleftrightarrow> irreflp lt \<and> transp lt \<and> transp (\<lambda>a b. \<not> lt a b \<and> \<not> lt b a)"

definition is_parallel_sort :: "parallel_sort \<Rightarrow> bool" where
  "is_parallel_sort psort \<longleftrightarrow>
     (\<forall>lt xs. strict_weak_order lt \<longrightarrow> mset (psort lt xs) = mset xs \<and> sorted_wrt (\<lambda>a b. \<not> lt b a) (psort lt xs))"

lemma total_order_weak:
  assumes "\<And>i. \<not> lt i i" "\<And>i j k. lt i j \<Longrightarrow> lt j k \<Longrightarrow> lt i k" "\<And>i j. i \<noteq> j \<Longrightarrow> lt i j \<or> lt j i"
  shows "strict_weak_order lt"
proof -
  have "(\<lambda>a b. \<not> lt a b \<and> \<not> lt b a) = (=)" using assms(1,3) by (intro ext) blast
  then show ?thesis
    using assms(1,2) by (auto simp: strict_weak_order_def irreflp_def intro!: transpI)
qed

lemma parallel_sort_total:
  assumes "is_parallel_sort psort" "strict_total_order lt" "distinct xs"
  shows "mset (psort lt xs) = mset xs \<and> sorted_wrt lt (psort lt xs)"
proof -
  have "strict_weak_order lt" using assms(2) total_order_weak [of lt] unfolding strict_total_order_def by blast
  then have r: "mset (psort lt xs) = mset xs" "sorted_wrt (\<lambda>a b. \<not> lt b a) (psort lt xs)"
    using assms(1) by (auto simp: is_parallel_sort_def)
  then have "distinct (psort lt xs)" using assms(3) by (metis mset_eq_imp_distinct_iff)
  with r(2) have "sorted_wrt (\<lambda>a b. a \<noteq> b \<and> \<not> lt b a) (psort lt xs)" by (simp add: sorted_wrt_iff_nth_less nth_eq_iff_index_eq)
  then have "sorted_wrt lt (psort lt xs)"
    by (rule sorted_wrt_mono_rel [rotated]) (use assms(2) in \<open>auto simp: strict_total_order_def\<close>)
  with r show ?thesis by simp
qed

lemma ThreeWay_before:
  "primitive.before ascending (\<lambda>i. ranks ! i) i j = rank_less ascending ranks i j"
  by (auto simp: primitive.before_def rank_less_def ThreeWay_def Let_def)

lemma rows_before: "rows.before ex t column rank ascending (\<lambda>i. logRows ! i) i j = rows_less ascending ex t logRows column rank i j"
  by (simp add: rows.before_def rows_less_def Let_def)

text \<open>When the ranks compare like the rows, the fast path sorts like the generic one.\<close>

lemma rank_less_rows_less:
  assumes "ThreeWay (ranks ! i) (ranks ! j) = CompareRows ex t (logRows ! i) (logRows ! j) column rank"
  shows "rank_less ascending ranks i j = rows_less ascending ex t logRows column rank i j"
  unfolding ThreeWay_before [symmetric] rows_before [symmetric]
  by (simp add: primitive.before_def rows.before_def assms)

lemma rank_less_order: "strict_total_order (rank_less ascending ranks)"
proof -
  have "rank_less ascending ranks = primitive.before ascending ((!) ranks)" by (intro ext) (simp add: ThreeWay_before)
  then show ?thesis by (simp add: primitive.before_order)
qed

lemma rows_less_order: "strict_total_order (rows_less ascending ex t logRows column rank)"
proof -
  have "rows_less ascending ex t logRows column rank = rows.before ex t column rank ascending ((!) logRows)"
    by (intro ext) (simp add: rows_before)
  then show ?thesis by (simp add: rows.before_order)
qed

lemma sort_by_rows:
  assumes "is_parallel_sort psort"
  shows "mset (psort (rows_less ascending ex t logRows column rank) [0..<n]) = mset [0..<n] \<and>
    sorted_wrt (rows_less ascending ex t logRows column rank) (psort (rows_less ascending ex t logRows column rank) [0..<n])"
  by (rule parallel_sort_total [OF assms rows_less_order distinct_upt])

lemma sort_by_ranks:
  assumes "is_parallel_sort psort"
    and "\<And>i j. i < n \<Longrightarrow> j < n \<Longrightarrow> ThreeWay (ranks ! i) (ranks ! j) = CompareRows ex t (logRows ! i) (logRows ! j) column rank"
  shows "mset (psort (rank_less ascending ranks) [0..<n]) = mset [0..<n] \<and>
    sorted_wrt (rows_less ascending ex t logRows column rank) (psort (rank_less ascending ranks) [0..<n])"
proof -
  have r: "mset (psort (rank_less ascending ranks) [0..<n]) = mset [0..<n]" "sorted_wrt (rank_less ascending ranks) (psort (rank_less ascending ranks) [0..<n])"
    using parallel_sort_total [OF assms(1) rank_less_order distinct_upt] by blast+
  have set: "set (psort (rank_less ascending ranks) [0..<n]) = {0..<n}" using r(1) by (metis set_mset_mset atLeastLessThan_upt)
  have "rows_less ascending ex t logRows column rank i j" if "rank_less ascending ranks i j" "i < n" "j < n" for i j
    using that rank_less_rows_less [OF assms(2)] by blast
  then have "sorted_wrt (rows_less ascending ex t logRows column rank) (psort (rank_less ascending ranks) [0..<n])"
    by (intro sorted_wrt_mono_rel [OF _ r(2)]) (simp add: set)
  with r(1) show ?thesis by simp
qed

text \<open>The ranks of the fast paths.\<close>

lemma enum_ranks_compare:
  assumes "column < length (tcolumns t)" "ctype (tcolumns t ! column) = CtEnumeration" "i < length logRows" "j < length logRows"
    and "\<And>row vid. row \<in> set logRows \<Longrightarrow> GetEnumValueId t row column = Some vid \<Longrightarrow> RankOf r vid < DictSize r"
  shows "ThreeWay (enum_ranks t logRows column r ! i) (enum_ranks t logRows column r ! j) =
    CompareRows ex t (logRows ! i) (logRows ! j) column (Some r)"
proof -
  have known: "RankOf r vid < DictSize r" if "GetEnumValueId t (logRows ! k) column = Some vid" "k < length logRows" for k vid
    using assms(5) that nth_mem by blast
  have "CompareRows ex t (logRows ! i) (logRows ! j) column (Some r) =
      primitive.tailed (\<lambda>row. map_option (RankOf r) (GetEnumValueId t row column)) (logRows ! i) (logRows ! j)"
    using assms(1,2) CompareEnum_tailed [OF assms(1), of ex] by (simp add: CompareRows_def primitive.tailed_def split: option.split)
  then show ?thesis
    using assms(3,4) known [of i] known [of j]
    by (auto simp: enum_ranks_def primitive.tailed_def ThreeWay_def split: option.splits)
qed

lemma level_ordinal_less: "level_ordinal l < SENTINEL"
  by (cases l) (simp_all add: SENTINEL_def)

lemma level_ordinal_not_greater [simp]: "\<not> SENTINEL < level_ordinal l"
  using level_ordinal_less [of l] by simp

lemma level_ranks_nth:
  "i < length logRows \<Longrightarrow> level_ranks ex t logRows column ! i =
    (case GetLevelForRow ex t (logRows ! i) column of Some l \<Rightarrow> level_ordinal l | None \<Rightarrow> SENTINEL)"
  by (simp add: level_ranks_def GetLevelForRow_def GetDisplayLevelForRow_def Let_def split: option.split)

lemma level_ranks_compare:
  assumes "column < length (tcolumns t)" "ctype (tcolumns t ! column) = CtLevel" "i < length logRows" "j < length logRows"
  shows "ThreeWay (level_ranks ex t logRows column ! i) (level_ranks ex t logRows column ! j) =
    CompareRows ex t (logRows ! i) (logRows ! j) column rank"
proof -
  have "CompareRows ex t (logRows ! i) (logRows ! j) column rank =
      primitive.tailed (\<lambda>row. map_option level_ordinal (GetLevelForRow ex t row column)) (logRows ! i) (logRows ! j)"
    using assms(1,2) CompareLevel_tailed [of ex t] by (simp add: CompareRows_def primitive.tailed_def split: option.split)
  then show ?thesis
    using assms(3,4) level_ordinal_less
    by (cases "GetLevelForRow ex t (logRows ! i) column"; cases "GetLevelForRow ex t (logRows ! j) column")
       (simp_all add: level_ranks_nth primitive.tailed_def ThreeWay_def)
qed

text \<open>The permutation sorts the rows by the comparison, ties in the order of the input.\<close>

lemma SortPermutationByColumn_sorts:
  assumes "is_parallel_sort psort"
    and "\<And>r row vid. column < length (tcolumns t) \<Longrightarrow> ctype (tcolumns t ! column) = CtEnumeration \<Longrightarrow> rank = Some r \<Longrightarrow>
      row \<in> set logRows \<Longrightarrow> GetEnumValueId t row column = Some vid \<Longrightarrow> RankOf r vid < DictSize r"
  shows "mset (SortPermutationByColumn psort ex t logRows column ascending rank) = mset [0..<length logRows] \<and>
    sorted_wrt (rows_less ascending ex t logRows column rank) (SortPermutationByColumn psort ex t logRows column ascending rank)"
proof (cases "length logRows \<le> 1")
  case True
  then have "[0..<length logRows] = [] \<or> [0..<length logRows] = [0]" by (cases logRows) auto
  then show ?thesis using True by (auto simp: SortPermutationByColumn_def)
next
  case False
  let ?P = "SortPermutationByColumn psort ex t logRows column ascending rank"
  show ?thesis
  proof (cases "column < length (tcolumns t) \<and> ctype (tcolumns t ! column) = CtEnumeration \<and> rank \<noteq> None")
    case True
    then obtain r where enum: "column < length (tcolumns t)" "ctype (tcolumns t ! column) = CtEnumeration" "rank = Some r" by blast
    then have "?P = psort (rank_less ascending (enum_ranks t logRows column r)) [0..<length logRows]"
      using False by (simp add: SortPermutationByColumn_def Let_def)
    then show ?thesis using sort_by_ranks [OF assms(1) enum_ranks_compare [OF enum(1,2)]] enum(3) assms(2) [OF enum] by auto
  next
    case not_enum: False
    show ?thesis
    proof (cases "column < length (tcolumns t) \<and> ctype (tcolumns t ! column) = CtLevel")
      case True
      then have "?P = psort (rank_less ascending (level_ranks ex t logRows column)) [0..<length logRows]"
        using False by (simp add: SortPermutationByColumn_def Let_def)
      then show ?thesis using sort_by_ranks [OF assms(1) level_ranks_compare] True by simp
    next
      case not_level: False
      have "?P = psort (rows_less ascending ex t logRows column rank) [0..<length logRows]"
        using False not_enum not_level by (simp only: SortPermutationByColumn_def Let_def) auto
      then show ?thesis using sort_by_rows [OF assms(1)] by simp
    qed
  qed
qed

text \<open>
  An id that the dictionary got after the rank table was built: the comparison puts its row in front of
  a row without an id, the fast path takes the two for equal.
\<close>

lemma late_enum_id:
  assumes "is_parallel_sort psort" "column < length (tcolumns t)" "ctype (tcolumns t ! column) = CtEnumeration" "a \<noteq> b"
    and "GetEnumValueId t a column = None" "GetEnumValueId t b column = Some vid" "length r \<le> unat vid"
  shows "CompareRows ex t a b column (Some r) = 1"
    and "SortPermutationByColumn psort ex t [a, b] column True (Some r) = [0, 1]"
proof -
  show "CompareRows ex t a b column (Some r) = 1" using assms by (simp add: CompareRows_def CompareEnum_def)
  let ?lt = "rank_less True (enum_ranks t [a, b] column r)"
  have lt: "?lt 0 1" "\<not> ?lt 1 0" using assms(5-7) by (simp_all add: rank_less_def enum_ranks_def DictSize_def RankOf_def)
  have "mset (psort ?lt [0..<2]) = mset [0..<2] \<and> sorted_wrt ?lt (psort ?lt [0..<2])"
    by (rule parallel_sort_total [OF assms(1) rank_less_order distinct_upt])
  moreover have "[0..<2] = [0, 1 :: nat]" by (simp add: upt_rec)
  ultimately have p: "mset (psort ?lt [0, 1]) = {#0, 1#}" "sorted_wrt ?lt (psort ?lt [0, 1])" by simp_all
  then have "size (mset (psort ?lt [0, 1])) = 2" by simp
  then obtain x y where "psort ?lt [0, 1] = [x, y]" by (auto simp: numeral_2_eq_2 length_Suc_conv)
  with p lt have "psort ?lt [0, 1] = [0, 1]" by (auto simp: add_eq_conv_ex)
  then show "SortPermutationByColumn psort ex t [a, b] column True (Some r) = [0, 1]"
    using assms(2,3) by (simp add: SortPermutationByColumn_def Let_def)
qed

text \<open>A sort by insertion has the properties that are asked of the parallel one.\<close>

fun insert_by :: "(nat \<Rightarrow> nat \<Rightarrow> bool) \<Rightarrow> nat \<Rightarrow> nat list \<Rightarrow> nat list" where
  "insert_by lt x [] = [x]"
| "insert_by lt x (y # ys) = (if lt y x then y # insert_by lt x ys else x # y # ys)"

definition insertion_sort :: parallel_sort where
  "insertion_sort lt xs = foldr (insert_by lt) xs []"

lemma mset_insert_by: "mset (insert_by lt x ys) = add_mset x (mset ys)"
  by (induction ys) auto

lemma sorted_insert_by:
  assumes "strict_weak_order lt" "sorted_wrt (\<lambda>a b. \<not> lt b a) ys"
  shows "sorted_wrt (\<lambda>a b. \<not> lt b a) (insert_by lt x ys)"
  using assms(2)
proof (induction ys)
  case (Cons y ys)
  have set: "set (insert_by lt x ys) = insert x (set ys)" using mset_insert_by [of lt x ys] by (metis set_mset_mset set_mset_add_mset_insert)
  have asym: "\<not> lt x y" if "lt y x" using assms(1) that unfolding strict_weak_order_def transp_def irreflp_def by metis
  have trans: "\<not> lt z x" if "\<not> lt y x" "\<not> lt z y" for z
    using assms(1) that unfolding strict_weak_order_def transp_def irreflp_def by metis
  show ?case
  proof (cases "lt y x")
    case True
    then show ?thesis using Cons asym by (simp add: set)
  next
    case False
    then show ?thesis using Cons trans by simp
  qed
qed simp

lemma is_parallel_sort_insertion: "is_parallel_sort insertion_sort"
  unfolding is_parallel_sort_def
proof (intro allI impI)
  fix lt :: "nat \<Rightarrow> nat \<Rightarrow> bool" and xs assume "strict_weak_order lt"
  then show "mset (insertion_sort lt xs) = mset xs \<and> sorted_wrt (\<lambda>a b. \<not> lt b a) (insertion_sort lt xs)"
    by (induction xs) (simp_all add: insertion_sort_def mset_insert_by sorted_insert_by)
qed

end
