(* ===== verification/Filter_View_Order.thy ===== *)
theory Filter_View_Order
  imports Filter_View Row_Order
begin

text \<open>
  The order and the rows of the filter view: what it should show, that rebuilding shows it, and that
  the reverse index inverts it.
\<close>

section \<open>The reverse index\<close>

definition bounded_rows :: "LogFilterModel \<Rightarrow> bool" where
  "bounded_rows m \<longleftrightarrow> distinct (mAcceptedSourceRows m) \<and> set (mAcceptedSourceRows m) \<subseteq> {..<source_rowCount m}"

definition indexed :: "LogFilterModel \<Rightarrow> bool" where
  "indexed m \<longleftrightarrow>
     length (mSourceRowToProxyRow m) = source_rowCount m \<and>
     (\<forall>s p. s < source_rowCount m \<longrightarrow>
        (mSourceRowToProxyRow m ! s = Some p \<longleftrightarrow> p < length (mAcceptedSourceRows m) \<and> mAcceptedSourceRows m ! p = s))"

definition view_inv :: "LogFilterModel \<Rightarrow> bool" where
  "view_inv m \<longleftrightarrow> bounded_rows m \<and> indexed m"

lemma fold_reverse_index:
  fixes rows :: "nat list"
  assumes "distinct rows" "set rows \<subseteq> {..<n}" "k \<le> length rows" "s < n"
  defines "index_of \<equiv> fold (\<lambda>p rev_index. if rows ! p < length rev_index then rev_index[rows ! p := Some p] else rev_index)"
  shows "length (index_of [0..<k] (replicate n None)) = n \<and>
    (index_of [0..<k] (replicate n None) ! s = Some p \<longleftrightarrow> p < k \<and> rows ! p = s)"
  using assms(3)
proof (induction k arbitrary: p)
  case 0
  then show ?case using assms(4) by (simp add: index_of_def)
next
  case (Suc k)
  let ?old = "index_of [0..<k] (replicate n None)"
  have old: "length ?old = n" "?old ! s = Some p \<longleftrightarrow> p < k \<and> rows ! p = s" for p using Suc by auto
  have "rows ! k < n" using assms(2) Suc.prems nth_mem [of k rows] by (simp add: subset_iff)
  then have step: "index_of [0..<Suc k] (replicate n None) = ?old[rows ! k := Some k]"
    using old(1) by (simp add: index_of_def)
  have read: "?old[rows ! k := Some k] ! s = (if rows ! k = s then Some k else ?old ! s)"
    using old(1) assms(4) by (simp add: nth_list_update)
  show ?case
  proof (cases "rows ! k = s")
    case True
    have "p < Suc k \<and> rows ! p = s \<longleftrightarrow> p = k"
      using assms(1) Suc.prems True nth_eq_iff_index_eq [of rows p k] by auto
    then show ?thesis unfolding step read using True old(1) by auto
  next
    case False
    then show ?thesis unfolding step read using old by (auto simp: less_Suc_eq)
  qed
qed

lemma reindexed:
  assumes "bounded_rows m"
  shows "view_inv (RebuildReverseIndex m)"
proof -
  have b: "bounded_rows (RebuildReverseIndex m)" using assms by (simp add: bounded_rows_def RebuildReverseIndex_def source_rowCount_def)
  have "length (mSourceRowToProxyRow (RebuildReverseIndex m)) = source_rowCount m"
  proof (cases "source_rowCount m")
    case 0
    then have "mAcceptedSourceRows m = []" using assms by (auto simp: bounded_rows_def)
    then show ?thesis using 0 by (simp add: RebuildReverseIndex_def)
  next
    case (Suc k)
    then show ?thesis
      using fold_reverse_index [of "mAcceptedSourceRows m" "source_rowCount m" "length (mAcceptedSourceRows m)" 0] assms
      by (simp add: RebuildReverseIndex_def bounded_rows_def Let_def)
  qed
  moreover have "mSourceRowToProxyRow (RebuildReverseIndex m) ! s = Some p \<longleftrightarrow>
      p < length (mAcceptedSourceRows m) \<and> mAcceptedSourceRows m ! p = s" if "s < source_rowCount m" for s p
    using fold_reverse_index [of "mAcceptedSourceRows m" "source_rowCount m" "length (mAcceptedSourceRows m)" s p] assms that
    by (simp add: RebuildReverseIndex_def bounded_rows_def Let_def)
  ultimately show ?thesis using b by (simp add: view_inv_def indexed_def RebuildReverseIndex_def source_rowCount_def)
qed

lemma accepted_RebuildReverseIndex [simp]: "mAcceptedSourceRows (RebuildReverseIndex m) = mAcceptedSourceRows m"
  by (simp add: RebuildReverseIndex_def)

text \<open>The view is itself a row proxy of its source.\<close>

definition view_to :: "LogFilterModel \<Rightarrow> nat \<Rightarrow> nat option" where
  "view_to m p = map_option fst (mapToSource (Some (p, 0)) m)"

definition view_from :: "LogFilterModel \<Rightarrow> nat \<Rightarrow> nat option" where
  "view_from m s = map_option fst (mapFromSource (Some (s, 0)) m)"

lemma view_row_proxy:
  assumes "view_inv m" "mSourceModel m \<noteq> None"
  shows "row_proxy (view_rowCount m) (source_rowCount m) (view_to m) (view_from m)"
proof
  have to: "view_to m p = (if p < view_rowCount m then Some (mAcceptedSourceRows m ! p) else None)" for p
    using assms(2) by (auto simp: view_to_def mapToSource_def view_rowCount_def)
  show "\<exists>s. view_to m p = Some s" if "p < view_rowCount m" for p using that by (simp add: to)
  show range: "p < view_rowCount m \<and> s < source_rowCount m" if "view_to m p = Some s" for p s
    using that assms(1) nth_mem [of p "mAcceptedSourceRows m"]
    by (auto simp: to view_inv_def bounded_rows_def view_rowCount_def subset_iff split: if_splits)
  show "view_from m s = Some p \<longleftrightarrow> view_to m p = Some s" for s p
  proof (cases "s < source_rowCount m")
    case True
    have "length (mSourceRowToProxyRow m) = source_rowCount m"
      "mSourceRowToProxyRow m ! s = Some p \<longleftrightarrow> p < view_rowCount m \<and> mAcceptedSourceRows m ! p = s"
      using assms(1) True by (simp_all add: view_inv_def indexed_def view_rowCount_def)
    then show ?thesis using assms(2) True by (auto simp: to view_from_def mapFromSource_def split: option.splits)
  next
    case False
    then have "view_from m s = None" using assms by (auto simp: view_from_def mapFromSource_def view_inv_def indexed_def)
    then show ?thesis using False range [of p s] by auto
  qed
qed

section \<open>The order\<close>

text \<open>
  The chain is connected when it leads each row of the source to a row of the table and back.  The
  rank table knows the ids of the column that is sorted by.
\<close>

definition connected :: "LogFilterModel \<Rightarrow> bool" where
  "connected m \<longleftrightarrow>
     (case (mSourceModel m, mLogModel m) of
        (Some src, Some lm) \<Rightarrow>
          row_proxy (sourceRows src) (RowCount (lmTable lm))
            (\<lambda>r. if r < sourceRows src then SourceRowToLogRow m r else None)
            (\<lambda>l. if l < RowCount (lmTable lm) then LogRowToSourceRow m l else None)
      | _ \<Rightarrow> True)"

definition ranks_known :: "externals \<Rightarrow> LogFilterModel \<Rightarrow> bool" where
  "ranks_known ex m \<longleftrightarrow>
     (\<forall>c lm r row vid. mSortColumn m = Some c \<longrightarrow> mLogModel m = Some lm \<longrightarrow> fst (sort_rank ex c lm m) = Some r \<longrightarrow>
        GetEnumValueId (lmTable lm) row c = Some vid \<longrightarrow> RankOf r vid < DictSize r)"

lemma connected_row:
  assumes "connected m" "mSourceModel m = Some src" "mLogModel m = Some lm" "r < sourceRows src"
  obtains l where "SourceRowToLogRow m r = Some l" "l < RowCount (lmTable lm)" "LogRowToSourceRow m l = Some r"
proof -
  have proxy: "row_proxy (sourceRows src) (RowCount (lmTable lm)) (\<lambda>r. if r < sourceRows src then SourceRowToLogRow m r else None)
      (\<lambda>l. if l < RowCount (lmTable lm) then LogRowToSourceRow m l else None)"
    using assms(1-3) by (simp add: connected_def)
  obtain l where "SourceRowToLogRow m r = Some l" using row_proxy.shows_row [OF proxy assms(4)] assms(4) by auto
  moreover from this have "l < RowCount (lmTable lm)" using row_proxy.in_range [OF proxy, of r l] assms(4) by simp
  moreover have "LogRowToSourceRow m l = Some r" using row_proxy.inverse [OF proxy, of l r] calculation assms(4) by simp
  ultimately show ?thesis by (rule that)
qed

text \<open>Rows of the source compare like an order of the positions.\<close>

lemma LessThan_order:
  assumes "connected m" "mSourceModel m = Some src"
  obtains lt where "strict_total_order lt"
    "\<And>i j. i < sourceRows src \<Longrightarrow> j < sourceRows src \<Longrightarrow> LessThanSourceRows ex m i j = lt i j"
proof (cases "mLogModel m = None \<or> mSortColumn m = None \<or> the (mSortColumn m) \<ge> length (model_columns (the (mLogModel m)))")
  case True
  then have "LessThanSourceRows ex m i j = (i < j)" for i j
    by (cases "mLogModel m"; cases "mSortColumn m") (simp_all add: LessThanSourceRows_def)
  moreover have "strict_total_order (<)" by (auto simp: strict_total_order_def)
  ultimately show ?thesis using that [of "(<)"] by blast
next
  case False
  then obtain lm c where m: "mLogModel m = Some lm" "mSortColumn m = Some c" "c < length (model_columns lm)" by auto
  let ?row = "\<lambda>r. the (SourceRowToLogRow m r)"
  let ?lt = "rows.before ex (lmTable lm) c (fst (sort_rank ex c lm m)) (mSortAscending m) ?row"
  have "LessThanSourceRows ex m i j = ?lt i j" if ij: "i < sourceRows src" "j < sourceRows src" for i j
  proof -
    obtain a where "SourceRowToLogRow m i = Some a" by (rule connected_row [OF assms m(1) ij(1)])
    moreover obtain b where "SourceRowToLogRow m j = Some b" by (rule connected_row [OF assms m(1) ij(2)])
    ultimately show ?thesis using m by (simp add: LessThanSourceRows_def rows.before_def Let_def)
  qed
  then show ?thesis using that [OF rows.before_order] by blast
qed

text \<open>A list of given rows is sorted in one way.\<close>

lemma sorted_unique:
  assumes "strict_total_order lt" "sorted_wrt lt xs" "sorted_wrt lt ys" "set xs = set ys"
  shows "xs = ys"
  using assms(2-4)
proof (induction xs arbitrary: ys)
  case (Cons x xs)
  have irrefl: "\<not> lt a a" and asym: "lt a b \<Longrightarrow> \<not> lt b a" for a b using assms(1) unfolding strict_total_order_def by blast+
  from Cons.prems(3) obtain y ys' where ys: "ys = y # ys'" by (cases ys) auto
  have "x = y"
  proof (rule ccontr)
    assume "x \<noteq> y"
    then have "x \<in> set ys'" "y \<in> set xs" using Cons.prems(3) ys by auto
    then show False using Cons.prems(1,2) ys asym by auto
  qed
  moreover have "x \<notin> set xs" "y \<notin> set ys'" using Cons.prems(1,2) ys irrefl by auto
  ultimately have "set xs = set ys'" using Cons.prems(3) ys by auto
  then show ?case using Cons.IH [of ys'] Cons.prems(1,2) ys \<open>x = y\<close> by simp
qed simp

lemma sorted_wrt_restrict:
  "sorted_wrt P xs \<Longrightarrow> (\<And>x y. x \<in> set xs \<Longrightarrow> y \<in> set xs \<Longrightarrow> P x y \<Longrightarrow> Q x y) \<Longrightarrow> sorted_wrt Q xs"
  by (rule sorted_wrt_mono_rel)

section \<open>What the view should show\<close>

definition accepted_set :: "externals \<Rightarrow> LogFilterModel \<Rightarrow> nat set" where
  "accepted_set ex m = {r. r < source_rowCount m \<and> MatchesRulesAtSourceRow ex m r}"

definition shows_rows_in_order :: "externals \<Rightarrow> LogFilterModel \<Rightarrow> bool" where
  "shows_rows_in_order ex m \<longleftrightarrow>
     set (mAcceptedSourceRows m) = accepted_set ex m \<and> sorted_wrt (LessThanSourceRows ex m) (mAcceptedSourceRows m)"

lemma shown_bounded:
  assumes "connected m" "mSourceModel m = Some src" "shows_rows_in_order ex m"
  shows "bounded_rows m"
proof -
  obtain lt where lt: "strict_total_order lt"
    "\<And>i j. i < sourceRows src \<Longrightarrow> j < sourceRows src \<Longrightarrow> LessThanSourceRows ex m i j = lt i j"
    by (rule LessThan_order [OF assms(1,2)]) blast
  have set: "set (mAcceptedSourceRows m) \<subseteq> {..<sourceRows src}"
    using assms by (auto simp: shows_rows_in_order_def accepted_set_def source_rowCount_def)
  have "sorted_wrt (LessThanSourceRows ex m) (mAcceptedSourceRows m)" using assms(3) by (simp add: shows_rows_in_order_def)
  then have "sorted_wrt (\<noteq>) (mAcceptedSourceRows m)"
  proof (rule sorted_wrt_restrict)
    fix i j assume "i \<in> set (mAcceptedSourceRows m)" "j \<in> set (mAcceptedSourceRows m)" "LessThanSourceRows ex m i j"
    then have "lt i j" using lt(2) set by (simp add: subset_iff)
    then show "i \<noteq> j" using lt(1) by (auto simp: strict_total_order_def)
  qed
  then have "distinct (mAcceptedSourceRows m)"
    by (auto simp: sorted_wrt_iff_nth_less distinct_conv_nth nat_neq_iff)
  then show ?thesis using set assms(2) by (simp add: bounded_rows_def source_rowCount_def)
qed

text \<open>Two views of the same rows in the same order are equal.\<close>

lemma shown_unique:
  assumes "connected m" "mSourceModel m = Some src" "shows_rows_in_order ex m"
    and "set rows = accepted_set ex m" "sorted_wrt (LessThanSourceRows ex m) rows"
  shows "mAcceptedSourceRows m = rows"
proof -
  obtain lt where lt: "strict_total_order lt"
    "\<And>i j. i < sourceRows src \<Longrightarrow> j < sourceRows src \<Longrightarrow> LessThanSourceRows ex m i j = lt i j"
    by (rule LessThan_order [OF assms(1,2)]) blast
  have set: "set (mAcceptedSourceRows m) = accepted_set ex m" "accepted_set ex m \<subseteq> {..<sourceRows src}"
    using assms(2,3) by (auto simp: shows_rows_in_order_def accepted_set_def source_rowCount_def)
  have "sorted_wrt lt xs" if "sorted_wrt (LessThanSourceRows ex m) xs" "set xs = accepted_set ex m" for xs
    by (rule sorted_wrt_restrict [OF that(1)]) (use lt(2) set(2) that(2) in \<open>simp add: subset_iff\<close>)
  then have "sorted_wrt lt (mAcceptedSourceRows m)" "sorted_wrt lt rows"
    using assms(3-5) set(1) by (auto simp: shows_rows_in_order_def)
  then show ?thesis using sorted_unique [OF lt(1)] set assms(4) by blast
qed

end
