(* ===== verification/Filter_View_Correct.thy ===== *)
theory Filter_View_Correct
  imports Filter_View_Order
begin

text \<open>
  The view shows the rows that its filter accepts, in the order of its column: rebuilding makes it so,
  and the incremental slots for inserted and removed rows keep it so.
\<close>

section \<open>What a comparison leaves\<close>

text \<open>The components that decide what a view shows; the cache of ranks may have been filled.\<close>

definition agrees :: "externals \<Rightarrow> LogFilterModel \<Rightarrow> LogFilterModel \<Rightarrow> bool" where
  "agrees ex m m' \<longleftrightarrow>
     mSourceModel m' = mSourceModel m \<and> mLogModel m' = mLogModel m \<and> mCompiledExpression m' = mCompiledExpression m \<and>
     mSortColumn m' = mSortColumn m \<and> mSortAscending m' = mSortAscending m \<and>
     (mEnumRanks m' = mEnumRanks m \<or> mEnumRanks m' = mEnumRanks (compared ex m))"

lemma emit_simps [simp]:
  "mSourceModel (emit s m) = mSourceModel m" "mLogModel (emit s m) = mLogModel m"
  "mCompiledExpression (emit s m) = mCompiledExpression m" "mSortColumn (emit s m) = mSortColumn m"
  "mSortAscending (emit s m) = mSortAscending m" "mEnumRanks (emit s m) = mEnumRanks m"
  "mAcceptedSourceRows (emit s m) = mAcceptedSourceRows m" "mSourceRowToProxyRow (emit s m) = mSourceRowToProxyRow m"
  "mPersistentIndexSnapshot (emit s m) = mPersistentIndexSnapshot m"
  "mPersistentSourceIndexSnapshot (emit s m) = mPersistentSourceIndexSnapshot m"
  "emitted (emit s m) = emitted m @ [s]" "mInSourceColumnMove (emit s m) = mInSourceColumnMove m"
  by (simp_all add: emit_def)

lemma length_fold_update: "length (fold (\<lambda>k xs. xs[f k := g k]) ks xs) = length xs"
  by (induction ks arbitrary: xs) simp_all

lemma length_make_EnumDictRank: "length (make_EnumDictRank d) = length (mValues d)"
  by (simp add: make_EnumDictRank_def Let_def length_fold_update)

lemma EnumRankFor_frame:
  "mSourceModel (snd (EnumRankFor ex c m)) = mSourceModel m" "mLogModel (snd (EnumRankFor ex c m)) = mLogModel m"
  "mCompiledExpression (snd (EnumRankFor ex c m)) = mCompiledExpression m"
  "mSortColumn (snd (EnumRankFor ex c m)) = mSortColumn m" "mSortAscending (snd (EnumRankFor ex c m)) = mSortAscending m"
  "mAcceptedSourceRows (snd (EnumRankFor ex c m)) = mAcceptedSourceRows m"
  "emitted (snd (EnumRankFor ex c m)) = emitted m"
  "mPersistentSourceIndexSnapshot (snd (EnumRankFor ex c m)) = mPersistentSourceIndexSnapshot m"
  "mPersistentIndexSnapshot (snd (EnumRankFor ex c m)) = mPersistentIndexSnapshot m"
  by (simp_all add: EnumRankFor_def Let_def split: option.split prod.split)

text \<open>The lookup of a rank depends on the table and the cache only, and the cache answers the same again.\<close>

lemma EnumRankFor_cong:
  assumes "mLogModel m' = mLogModel m" "mEnumRanks m' = mEnumRanks m"
  shows "fst (EnumRankFor ex c m') = fst (EnumRankFor ex c m)"
    "mEnumRanks (snd (EnumRankFor ex c m')) = mEnumRanks (snd (EnumRankFor ex c m))"
  using assms by (simp_all add: EnumRankFor_def Let_def split: option.split prod.split)

lemma EnumRankFor_again:
  "fst (EnumRankFor ex c (snd (EnumRankFor ex c m))) = fst (EnumRankFor ex c m)"
  "mEnumRanks (snd (EnumRankFor ex c (snd (EnumRankFor ex c m)))) = mEnumRanks (snd (EnumRankFor ex c m))"
  by (auto simp: EnumRankFor_def DictSize_def dict_Size_def length_make_EnumDictRank Let_def split: option.split prod.split)

lemma sort_rank_again:
  "fst (sort_rank ex c lm (snd (sort_rank ex c lm m))) = fst (sort_rank ex c lm m)"
  "mEnumRanks (snd (sort_rank ex c lm (snd (sort_rank ex c lm m)))) = mEnumRanks (snd (sort_rank ex c lm m))"
  by (simp_all add: sort_rank_def EnumRankFor_again)

lemma sort_rank_cong:
  assumes "mLogModel m' = mLogModel m" "mEnumRanks m' = mEnumRanks m"
  shows "fst (sort_rank ex c lm m') = fst (sort_rank ex c lm m)"
    "mEnumRanks (snd (sort_rank ex c lm m')) = mEnumRanks (snd (sort_rank ex c lm m))"
  using assms by (simp_all add: sort_rank_def EnumRankFor_cong [OF assms])

lemma compared_frame [simp]:
  "mSourceModel (compared ex m) = mSourceModel m" "mLogModel (compared ex m) = mLogModel m"
  "mCompiledExpression (compared ex m) = mCompiledExpression m" "mSortColumn (compared ex m) = mSortColumn m"
  "mSortAscending (compared ex m) = mSortAscending m" "mAcceptedSourceRows (compared ex m) = mAcceptedSourceRows m"
  "emitted (compared ex m) = emitted m"
  by (simp_all add: compared_def sort_rank_def EnumRankFor_frame split: option.split)

lemma compared_cong:
  assumes "mLogModel m' = mLogModel m" "mEnumRanks m' = mEnumRanks m" "mSortColumn m' = mSortColumn m"
  shows "mEnumRanks (compared ex m') = mEnumRanks (compared ex m)"
  using assms sort_rank_cong [OF assms(1,2)] by (simp add: compared_def split: option.split)

lemma compared_again: "mEnumRanks (compared ex (compared ex m)) = mEnumRanks (compared ex m)"
proof (cases "mLogModel m")
  case (Some lm)
  show ?thesis
  proof (cases "mSortColumn m")
    case c: (Some c)
    show ?thesis
    proof (cases "c \<ge> length (model_columns lm)")
      case False
      then have "compared ex m' = snd (sort_rank ex c lm m')" if "mLogModel m' = Some lm" "mSortColumn m' = Some c" for m'
        using that by (simp add: compared_def)
      note rank = this
      have "compared ex (compared ex m) = snd (sort_rank ex c lm (compared ex m))" by (rule rank) (simp_all add: Some c)
      moreover have "compared ex m = snd (sort_rank ex c lm m)" by (rule rank) (simp_all add: Some c)
      ultimately show ?thesis using sort_rank_again(2) [of ex c lm m] by metis
    qed (use Some c in \<open>simp add: compared_def\<close>)
  qed (use Some in \<open>simp add: compared_def\<close>)
qed (simp add: compared_def)

lemma agrees_refl [simp]: "agrees ex m m"
  by (simp add: agrees_def)

lemma agrees_compared [simp]: "agrees ex m (compared ex m)"
  by (simp add: agrees_def)

lemma agrees_trans:
  assumes "agrees ex m m'" "agrees ex m' m''"
  shows "agrees ex m m''"
proof -
  have "mEnumRanks (compared ex m') = mEnumRanks (compared ex m)"
  proof (cases "mEnumRanks m' = mEnumRanks m")
    case True
    then show ?thesis using assms(1) by (intro compared_cong) (simp_all add: agrees_def)
  next
    case False
    then have "mEnumRanks (compared ex m') = mEnumRanks (compared ex (compared ex m))"
      using assms(1) by (intro compared_cong) (simp_all add: agrees_def)
    then show ?thesis by (simp add: compared_again)
  qed
  then show ?thesis using assms by (auto simp: agrees_def)
qed

text \<open>Models that agree match and compare rows alike.\<close>

lemma agrees_rows:
  assumes "agrees ex m m'"
  shows "SourceRowToLogRow m' r = SourceRowToLogRow m r" "LogRowToSourceRow m' l = LogRowToSourceRow m l"
    "MatchesRulesAtSourceRow ex m' r = MatchesRulesAtSourceRow ex m r" "source_rowCount m' = source_rowCount m"
    "connected m' = connected m" "accepted_set ex m' = accepted_set ex m"
proof -
  show rows: "SourceRowToLogRow m' r = SourceRowToLogRow m r" "LogRowToSourceRow m' l = LogRowToSourceRow m l" for r l
    using assms by (simp_all add: SourceRowToLogRow_def LogRowToSourceRow_def agrees_def)
  show matches: "MatchesRulesAtSourceRow ex m' r = MatchesRulesAtSourceRow ex m r" for r
    using assms rows by (simp add: MatchesRulesAtSourceRow_def agrees_def split: option.split)
  show cnt: "source_rowCount m' = source_rowCount m" using assms by (simp add: source_rowCount_def agrees_def)
  have "SourceRowToLogRow m' = SourceRowToLogRow m" "LogRowToSourceRow m' = LogRowToSourceRow m"
    "mSourceModel m' = mSourceModel m" "mLogModel m' = mLogModel m" using rows assms by (auto simp: agrees_def)
  then show "connected m' = connected m" unfolding connected_def by (simp only:)
  show "accepted_set ex m' = accepted_set ex m" using matches cnt by (simp add: accepted_set_def)
qed

lemma agrees_rank:
  assumes "agrees ex m m'" "mLogModel m = Some lm" "mSortColumn m = Some c" "c < length (model_columns lm)"
  shows "fst (sort_rank ex c lm m') = fst (sort_rank ex c lm m)"
proof (cases "mEnumRanks m' = mEnumRanks m")
  case True
  then show ?thesis using assms(1) by (intro sort_rank_cong) (simp_all add: agrees_def)
next
  case False
  then have "fst (sort_rank ex c lm m') = fst (sort_rank ex c lm (compared ex m))"
    using assms(1) by (intro sort_rank_cong) (simp_all add: agrees_def)
  then show ?thesis using assms(2-4) by (simp add: compared_def sort_rank_again)
qed

lemma agrees_LessThan:
  assumes "agrees ex m m'"
  shows "LessThanSourceRows ex m' = LessThanSourceRows ex m"
proof (intro ext)
  fix i j
  show "LessThanSourceRows ex m' i j = LessThanSourceRows ex m i j"
  proof (cases "mLogModel m = None \<or> mSortColumn m = None \<or> the (mSortColumn m) \<ge> length (model_columns (the (mLogModel m)))")
    case True
    have "LessThanSourceRows ex m i j = (i < j)" "LessThanSourceRows ex m' i j = (i < j)"
      using True assms by (cases "mLogModel m"; cases "mSortColumn m"; simp add: LessThanSourceRows_def agrees_def)+
    then show ?thesis by simp
  next
    case False
    then obtain lm c where m: "mLogModel m = Some lm" "mSortColumn m = Some c" "c < length (model_columns lm)" by auto
    then show ?thesis using assms agrees_rank [OF assms m] agrees_rows(1) [OF assms]
      by (simp add: LessThanSourceRows_def agrees_def split: option.split)
  qed
qed

lemma agrees_shown:
  assumes "agrees ex m m'" "mAcceptedSourceRows m' = mAcceptedSourceRows m"
  shows "shows_rows_in_order ex m' = shows_rows_in_order ex m"
  using assms agrees_rows(6) [OF assms(1)] agrees_LessThan [OF assms(1)] by (simp add: shows_rows_in_order_def)

section \<open>Rebuilding\<close>

definition engine_ok :: "engine \<Rightarrow> LogFilterModel \<Rightarrow> bool" where
  "engine_ok e m \<longleftrightarrow>
     is_parallel_sort (eParallelSort e) \<and> consistent (CollectLeafsInVisitOrder (mCompiledExpression m)) \<and>
     (\<forall>lm. mLogModel m = Some lm \<longrightarrow>
        (\<forall>i. valid_schedule (RowCount (lmTable lm)) (eLeafScheds e i)) \<and> valid_schedule (RowCount (lmTable lm)) (eVisitSched e))"

lemma set_map_filter: "set (List.map_filter f xs) = {y. \<exists>x\<in>set xs. f x = Some y}"
  by (induction xs) (auto simp: map_filter_simps split: option.split)

lemma distinct_map_filter:
  "distinct xs \<Longrightarrow> (\<And>x y z. x \<in> set xs \<Longrightarrow> y \<in> set xs \<Longrightarrow> f x = Some z \<Longrightarrow> f y = Some z \<Longrightarrow> x = y) \<Longrightarrow> distinct (List.map_filter f xs)"
proof (induction xs)
  case (Cons x xs)
  have "distinct (List.map_filter f xs)" by (rule Cons.IH) (use Cons.prems in auto)
  then show ?case using Cons.prems by (auto simp: map_filter_simps set_map_filter split: option.split)
qed (simp add: map_filter_simps)

lemma Recompute_rows:
  assumes "connected m" "engine_ok e m" "mSourceModel m = Some src"
  shows "RecomputeAcceptedRows e m =
    m\<lparr>mAcceptedSourceRows := filter (MatchesRulesAtSourceRow (eExternals e) m) [0..<sourceRows src]\<rparr>"
proof (cases "IsMatchAllCompiled (mCompiledExpression m) \<or> mLogModel m = None")
  case True
  then show ?thesis using assms(3) by (auto simp: RecomputeAcceptedRows_def MatchesRulesAtSourceRow_def)
next
  case False
  then obtain lm where lm: "mLogModel m = Some lm" and all: "\<not> IsMatchAllCompiled (mCompiledExpression m)" by auto
  let ?n = "RowCount (lmTable lm)" and ?ev = "EvaluateExpression (eExternals e) (mCompiledExpression m) (lmTable lm)"
  let ?logs = "filter ?ev [0..<?n]" and ?match = "MatchesRulesAtSourceRow (eExternals e) m"
  have logs: "FilterAcceptedRows (eExternals e) (eParallelism e) (eLeafScheds e) (eVisitSched e) (lmTable lm) (mCompiledExpression m) = ?logs"
    by (rule FilterAcceptedRows_eq) (use assms(2) lm in \<open>auto simp: engine_ok_def\<close>)
  have proxy: "row_proxy (sourceRows src) ?n (\<lambda>r. if r < sourceRows src then SourceRowToLogRow m r else None)
      (\<lambda>l. if l < ?n then LogRowToSourceRow m l else None)"
    using assms(1,3) lm by (simp add: connected_def)
  have up: "LogRowToSourceRow m l = Some r \<longleftrightarrow> r < sourceRows src \<and> SourceRowToLogRow m r = Some l" if "l < ?n" for l r
    using row_proxy.inverse [OF proxy, of l r] that by (auto split: if_splits)
  have match: "?match r \<longleftrightarrow> (\<exists>l. SourceRowToLogRow m r = Some l \<and> ?ev l)" if "r < sourceRows src" for r
    using all lm by (auto simp: MatchesRulesAtSourceRow_def split: option.split)
  have "set (List.map_filter (LogRowToSourceRow m) ?logs) = set (filter ?match [0..<sourceRows src])"
  proof (intro set_eqI)
    fix r
    show "r \<in> set (List.map_filter (LogRowToSourceRow m) ?logs) \<longleftrightarrow> r \<in> set (filter ?match [0..<sourceRows src])"
    proof (cases "r < sourceRows src")
      case True
      obtain l where l: "SourceRowToLogRow m r = Some l" "l < ?n" by (rule connected_row [OF assms(1,3) lm True])
      then have "r \<in> set (List.map_filter (LogRowToSourceRow m) ?logs) \<longleftrightarrow> ?ev l"
        using up True by (force simp: set_map_filter)
      then show ?thesis using match [OF True] l True by simp
    qed (use up in \<open>auto simp: set_map_filter\<close>)
  qed
  moreover have "distinct (List.map_filter (LogRowToSourceRow m) ?logs)"
    by (rule distinct_map_filter) (use up in auto)
  ultimately have "sort (List.map_filter (LogRowToSourceRow m) ?logs) = filter ?match [0..<sourceRows src]"
    by (intro sorted_distinct_set_unique) (simp_all add: sorted_wrt_filter)
  then show ?thesis using assms(3) lm all logs by (simp add: RecomputeAcceptedRows_def)
qed

text \<open>The permutation of rows in the order of the source sorts them by the column, ties as in the source.\<close>

lemma mset_nth_perm: "mset P = mset [0..<length xs] \<Longrightarrow> mset (map ((!) xs) P) = mset xs"
  by (metis map_nth mset_map)

lemma ApplySortPermutation_frame:
  assumes "mLogModel m = Some lm" "mSortColumn m = Some c" "c < length (model_columns lm)" "1 < length (mAcceptedSourceRows m)"
  defines "logRows \<equiv> map (\<lambda>r. case SourceRowToLogRow m r of Some l \<Rightarrow> l | None \<Rightarrow> 0) (mAcceptedSourceRows m)"
  shows "ApplySortPermutation e m = (compared (eExternals e) m)\<lparr>mAcceptedSourceRows :=
    map ((!) (mAcceptedSourceRows m))
      (SortPermutationByColumn (eParallelSort e) (eExternals e) (lmTable lm) logRows c (mSortAscending m)
        (fst (sort_rank (eExternals e) c lm m)))\<rparr>"
  using assms(1-4) by (simp add: ApplySortPermutation_def compared_def logRows_def Let_def split: prod.split)

lemma ApplySortPermutation_trivial:
  assumes "mLogModel m = None \<or> mSortColumn m = None \<or> the (mSortColumn m) \<ge> length (model_columns (the (mLogModel m))) \<or>
    length (mAcceptedSourceRows m) \<le> 1"
  shows "ApplySortPermutation e m = m"
  using assms by (cases "mLogModel m"; cases "mSortColumn m") (auto simp: ApplySortPermutation_def)

lemma sort_if_asked_rows:
  assumes "connected m" "engine_ok e m" "ranks_known (eExternals e) m" "mSourceModel m = Some src"
    and "sorted_wrt (<) (mAcceptedSourceRows m)" "set (mAcceptedSourceRows m) \<subseteq> {..<sourceRows src}"
  shows "agrees (eExternals e) m (sort_if_asked e m) \<and>
    set (mAcceptedSourceRows (sort_if_asked e m)) = set (mAcceptedSourceRows m) \<and>
    sorted_wrt (LessThanSourceRows (eExternals e) m) (mAcceptedSourceRows (sort_if_asked e m))"
proof (cases "mLogModel m = None \<or> mSortColumn m = None \<or> the (mSortColumn m) \<ge> length (model_columns (the (mLogModel m))) \<or>
    length (mAcceptedSourceRows m) \<le> 1")
  case True
  have "sorted_wrt (LessThanSourceRows (eExternals e) m) (mAcceptedSourceRows m)"
  proof (cases "length (mAcceptedSourceRows m) \<le> 1")
    case False
    then have "LessThanSourceRows (eExternals e) m i j = (i < j)" for i j
      using True by (cases "mLogModel m"; cases "mSortColumn m") (auto simp: LessThanSourceRows_def)
    then show ?thesis using assms(5) by presburger
  qed (cases "mAcceptedSourceRows m"; simp)
  then show ?thesis using ApplySortPermutation_trivial [OF True, of e] by (simp add: sort_if_asked_def)
next
  case False
  then obtain lm c where m: "mLogModel m = Some lm" "mSortColumn m = Some c" "c < length (model_columns lm)"
    and len: "1 < length (mAcceptedSourceRows m)" by auto
  let ?ex = "eExternals e" and ?acc = "mAcceptedSourceRows m" and ?rank = "fst (sort_rank (eExternals e) c lm m)"
  define logRows where "logRows = map (\<lambda>r. case SourceRowToLogRow m r of Some l \<Rightarrow> l | None \<Rightarrow> 0) ?acc"
  define P where "P = SortPermutationByColumn (eParallelSort e) ?ex (lmTable lm) logRows c (mSortAscending m) ?rank"
  have sorted: "sort_if_asked e m = (compared ?ex m)\<lparr>mAcceptedSourceRows := map ((!) ?acc) P\<rparr>"
    using ApplySortPermutation_frame [OF m len] m(2) by (simp add: sort_if_asked_def P_def logRows_def)
  have log: "logRows ! i = the (SourceRowToLogRow m (?acc ! i)) \<and> SourceRowToLogRow m (?acc ! i) \<noteq> None" if "i < length ?acc" for i
  proof -
    have "?acc ! i < sourceRows src" using assms(6) nth_mem [OF that] by (auto simp: subset_iff)
    then obtain l where "SourceRowToLogRow m (?acc ! i) = Some l" by (rule connected_row [OF assms(1,4) m(1)])
    then show ?thesis using that by (simp add: logRows_def)
  qed
  have known: "RankOf r vid < DictSize r" if "?rank = Some r" "GetEnumValueId (lmTable lm) row c = Some vid" for r row vid
    using assms(3) m(1,2) that by (simp add: ranks_known_def)
  have "mset P = mset [0..<length logRows] \<and> sorted_wrt (rows_less (mSortAscending m) ?ex (lmTable lm) logRows c ?rank) P"
    unfolding P_def by (rule SortPermutationByColumn_sorts) (use assms(2) known in \<open>auto simp: engine_ok_def\<close>)
  then have P: "mset P = mset [0..<length ?acc]" "sorted_wrt (rows_less (mSortAscending m) ?ex (lmTable lm) logRows c ?rank) P"
    by (simp_all add: logRows_def)
  then have P_set: "set P = {0..<length ?acc}" by (metis atLeastLessThan_upt set_mset_mset)
  have "set (map ((!) ?acc) P) = set ?acc" using mset_nth_perm [OF P(1)] by (metis set_mset_mset)
  moreover have "sorted_wrt (LessThanSourceRows ?ex m) (map ((!) ?acc) P)"
    unfolding sorted_wrt_map
  proof (rule sorted_wrt_restrict [OF P(2)])
    fix i j
    assume ij: "i \<in> set P" "j \<in> set P" and less: "rows_less (mSortAscending m) ?ex (lmTable lm) logRows c ?rank i j"
    have tie: "?acc ! i < ?acc ! j" if "i < j" using assms(5) that ij P_set by (simp add: sorted_wrt_iff_nth_less)
    obtain a where a: "SourceRowToLogRow m (?acc ! i) = Some a" "logRows ! i = a" using log [of i] ij(1) P_set by auto
    obtain b where b: "SourceRowToLogRow m (?acc ! j) = Some b" "logRows ! j = b" using log [of j] ij(2) P_set by auto
    show "LessThanSourceRows ?ex m (?acc ! i) (?acc ! j)"
      using less tie m a b by (auto simp: LessThanSourceRows_def rows_less_def Let_def split: if_splits)
  qed
  moreover have "agrees ?ex m ((compared ?ex m)\<lparr>mAcceptedSourceRows := map ((!) ?acc) P\<rparr>)" by (simp add: agrees_def)
  ultimately show ?thesis unfolding sorted by simp
qed

lemma agrees_RebuildReverseIndex [simp]: "agrees ex m (RebuildReverseIndex m)"
  by (simp add: agrees_def RebuildReverseIndex_def)

lemma agrees_emit [simp]: "agrees ex m (emit s m)"
  by (simp add: agrees_def)

lemma agrees_accepted [simp]: "agrees ex m (m\<lparr>mAcceptedSourceRows := rows\<rparr>)"
  by (simp add: agrees_def)

lemma agrees_Remap [simp]: "agrees ex m (RemapPersistentIndicesForRebuild m)"
  by (simp add: agrees_def RemapPersistentIndicesForRebuild_def Let_def)

lemma agrees_Snapshot [simp]: "agrees ex m (SnapshotPersistentIndices raw m)"
  by (simp add: agrees_def SnapshotPersistentIndices_def)

lemma accepted_others [simp]:
  "mAcceptedSourceRows (RemapPersistentIndicesForRebuild m) = mAcceptedSourceRows m"
  "mAcceptedSourceRows (SnapshotPersistentIndices raw m) = mAcceptedSourceRows m"
  "mSourceRowToProxyRow (RemapPersistentIndicesForRebuild m) = mSourceRowToProxyRow m"
  by (simp_all add: RemapPersistentIndicesForRebuild_def SnapshotPersistentIndices_def Let_def)

lemma agrees_conditions:
  assumes "agrees (eExternals e) m m'"
  shows "connected m' = connected m" "engine_ok e m' = engine_ok e m" "ranks_known (eExternals e) m \<Longrightarrow> ranks_known (eExternals e) m'"
    "mSourceModel m' = mSourceModel m"
proof -
  show "connected m' = connected m" by (rule agrees_rows(5) [OF assms])
  show "engine_ok e m' = engine_ok e m" "mSourceModel m' = mSourceModel m" using assms by (simp_all add: engine_ok_def agrees_def)
  assume known: "ranks_known (eExternals e) m"
  show "ranks_known (eExternals e) m'" unfolding ranks_known_def
  proof (intro allI impI)
    fix c lm r row vid
    assume a: "mSortColumn m' = Some c" "mLogModel m' = Some lm" "fst (sort_rank (eExternals e) c lm m') = Some r"
      "GetEnumValueId (lmTable lm) row c = Some vid"
    then have m: "mSortColumn m = Some c" "mLogModel m = Some lm" using assms by (simp_all add: agrees_def)
    show "RankOf r vid < DictSize r"
    proof (cases "c < length (model_columns lm)")
      case True
      then show ?thesis using known a m agrees_rank [OF assms m(2,1) True] by (simp add: ranks_known_def)
    next
      case False
      then have "compared (eExternals e) m = m" using m by (simp add: compared_def)
      then have "mEnumRanks m' = mEnumRanks m" "mLogModel m' = mLogModel m" using assms by (auto simp: agrees_def)
      then show ?thesis using known a m sort_rank_cong(1) [of m' m "eExternals e" c lm] by (simp add: ranks_known_def)
    qed
  qed
qed

text \<open>Recomputing, sorting and indexing: the common part of the slots that rebuild.\<close>

definition rebuilt :: "engine \<Rightarrow> LogFilterModel \<Rightarrow> LogFilterModel" where
  "rebuilt e m = RebuildReverseIndex (sort_if_asked e (RecomputeAcceptedRows e m))"

lemma rebuilt_shows:
  assumes "connected m" "engine_ok e m" "ranks_known (eExternals e) m" "mSourceModel m = Some src"
  shows "agrees (eExternals e) m (rebuilt e m) \<and> shows_rows_in_order (eExternals e) (rebuilt e m) \<and> view_inv (rebuilt e m)"
proof -
  let ?ex = "eExternals e"
  define m1 where "m1 = RecomputeAcceptedRows e m"
  define m2 where "m2 = sort_if_asked e m1"
  have m1: "m1 = m\<lparr>mAcceptedSourceRows := filter (MatchesRulesAtSourceRow ?ex m) [0..<sourceRows src]\<rparr>"
    unfolding m1_def by (rule Recompute_rows [OF assms(1,2,4)])
  then have a1: "agrees ?ex m m1" by simp
  note c1 = agrees_conditions [OF a1]
  have s: "agrees ?ex m1 m2 \<and> set (mAcceptedSourceRows m2) = set (mAcceptedSourceRows m1) \<and>
      sorted_wrt (LessThanSourceRows ?ex m1) (mAcceptedSourceRows m2)"
    unfolding m2_def by (rule sort_if_asked_rows [of _ _ src]) (use assms c1 in \<open>auto simp: m1 sorted_wrt_filter\<close>)
  then have a2: "agrees ?ex m m2" using a1 agrees_trans by blast
  have "set (mAcceptedSourceRows m2) = accepted_set ?ex m2"
    using s m1 agrees_rows(6) [OF a2] assms(4) by (auto simp: accepted_set_def source_rowCount_def)
  moreover have "sorted_wrt (LessThanSourceRows ?ex m2) (mAcceptedSourceRows m2)" using s agrees_LessThan [of ?ex m1 m2] by simp
  ultimately have shown: "shows_rows_in_order ?ex m2" by (simp add: shows_rows_in_order_def)
  have "view_inv (RebuildReverseIndex m2)"
    by (rule reindexed [OF shown_bounded [OF _ _ shown]]) (use assms agrees_conditions [OF a2] in simp_all)
  moreover have "shows_rows_in_order ?ex (RebuildReverseIndex m2)"
    using shown agrees_shown [OF agrees_RebuildReverseIndex, where m = m2] by simp
  moreover have "agrees ?ex m (RebuildReverseIndex m2)" using agrees_trans [OF a2 agrees_RebuildReverseIndex] .
  ultimately show ?thesis by (simp add: rebuilt_def m1_def m2_def)
qed

lemma view_inv_emit [simp]: "view_inv (emit s m) = view_inv m"
  by (simp add: view_inv_def bounded_rows_def indexed_def source_rowCount_def)

lemma view_inv_Remap [simp]: "view_inv (RemapPersistentIndicesForRebuild m) = view_inv m"
proof -
  have "mSourceModel (RemapPersistentIndicesForRebuild m) = mSourceModel m" by (simp add: RemapPersistentIndicesForRebuild_def Let_def)
  then show ?thesis by (simp add: view_inv_def bounded_rows_def indexed_def source_rowCount_def)
qed

lemma Rebuild_rebuilt:
  assumes "mSourceModel m \<noteq> None"
  shows "RebuildAcceptedRows e raw m =
    emit LayoutChanged (RemapPersistentIndicesForRebuild (rebuilt e (SnapshotPersistentIndices raw (emit LayoutAboutToBeChanged m))))"
  using assms by (auto simp: RebuildAcceptedRows_def rebuilt_def)

lemma Rebuild_shows:
  assumes "connected m" "engine_ok e m" "ranks_known (eExternals e) m" "mSourceModel m = Some src"
  shows "agrees (eExternals e) m (RebuildAcceptedRows e raw m) \<and> shows_rows_in_order (eExternals e) (RebuildAcceptedRows e raw m) \<and>
    view_inv (RebuildAcceptedRows e raw m)"
proof -
  let ?ex = "eExternals e" and ?m1 = "SnapshotPersistentIndices raw (emit LayoutAboutToBeChanged m)"
  have a1: "agrees ?ex m ?m1" using agrees_trans [OF agrees_emit agrees_Snapshot] .
  note c1 = agrees_conditions [OF a1]
  have r: "agrees ?ex ?m1 (rebuilt e ?m1)" "shows_rows_in_order ?ex (rebuilt e ?m1)" "view_inv (rebuilt e ?m1)"
    using rebuilt_shows [of ?m1 e src] c1 assms by simp_all
  let ?m2 = "RemapPersistentIndicesForRebuild (rebuilt e ?m1)"
  have a2: "agrees ?ex (rebuilt e ?m1) (emit LayoutChanged ?m2)" using agrees_trans [OF agrees_Remap agrees_emit] .
  then have "shows_rows_in_order ?ex (emit LayoutChanged ?m2)" using agrees_shown [OF a2] r(2) by simp
  moreover have "agrees ?ex m (emit LayoutChanged ?m2)" using agrees_trans [OF agrees_trans [OF a1 r(1)] a2] .
  ultimately show ?thesis using r(3) Rebuild_rebuilt [of m e raw] assms(4) by simp
qed

end
