(* ===== verification/Filter_View_Slots.thy ===== *)
theory Filter_View_Slots
  imports Filter_View_Correct
begin

text \<open>
  The incremental slots of the filter view: after rows were inserted into the source or removed from
  it, the view shows what rebuilding would show, and its signals announce just these changes.
\<close>

section \<open>Sorted insertion\<close>

lemma set_insert_at: "set (insert_at k new xs) = set xs \<union> set new"
proof -
  have "set xs = set (take k xs) \<union> set (drop k xs)" by (metis append_take_drop_id set_append)
  then show ?thesis by (auto simp: insert_at_def)
qed

lemma length_insert_at: "length (insert_at k new xs) = length xs + length new"
  by (simp add: insert_at_def)

lemma partition_point_le: "partition_point P xs \<le> length xs"
  by (simp add: partition_point_def length_takeWhile_le)

lemma insert_at_partition: "insert_at (partition_point P xs) new xs = takeWhile P xs @ new @ dropWhile P xs"
  by (simp only: insert_at_def partition_point_def takeWhile_eq_take [symmetric] dropWhile_eq_drop [symmetric])

lemma sorted_insert_at:
  assumes "sorted_wrt lt xs" "x \<notin> set xs"
    and trans: "\<And>a b c. a \<in> insert x (set xs) \<Longrightarrow> b \<in> insert x (set xs) \<Longrightarrow> c \<in> insert x (set xs) \<Longrightarrow> lt a b \<Longrightarrow> lt b c \<Longrightarrow> lt a c"
    and total: "\<And>a b. a \<in> insert x (set xs) \<Longrightarrow> b \<in> insert x (set xs) \<Longrightarrow> a \<noteq> b \<Longrightarrow> lt a b \<or> lt b a"
  shows "sorted_wrt lt (insert_at (partition_point (\<lambda>y. lt y x) xs) [x] xs)"
  using assms
proof (induction xs)
  case (Cons y xs)
  show ?case
  proof (cases "lt y x")
    case True
    have "sorted_wrt lt (takeWhile (\<lambda>y. lt y x) xs @ [x] @ dropWhile (\<lambda>y. lt y x) xs)"
      unfolding insert_at_partition [symmetric]
    proof (rule Cons.IH)
      show "lt a c" if "a \<in> insert x (set xs)" "b \<in> insert x (set xs)" "c \<in> insert x (set xs)" "lt a b" "lt b c" for a b c
        by (rule Cons.prems(3) [of a b c]) (use that in auto)
      show "lt a b \<or> lt b a" if "a \<in> insert x (set xs)" "b \<in> insert x (set xs)" "a \<noteq> b" for a b
        by (rule Cons.prems(4)) (use that in auto)
    qed (use Cons.prems(1,2) in simp_all)
    moreover have "set (takeWhile (\<lambda>y. lt y x) xs) \<subseteq> set xs" "set (dropWhile (\<lambda>y. lt y x) xs) \<subseteq> set xs"
      by (auto dest: set_takeWhileD set_dropWhileD)
    ultimately show ?thesis using Cons.prems(1) True unfolding insert_at_partition by auto
  next
    case False
    then have xy: "lt x y" using Cons.prems(2) Cons.prems(4) [of x y] by auto
    then have "lt x z" if "z \<in> set xs" for z using Cons.prems(1) that Cons.prems(3) [of x y z] by auto
    then show ?thesis using False xy Cons.prems(1) unfolding insert_at_partition by simp
  qed
qed (simp add: insert_at_def)

section \<open>Inserted rows\<close>

abbreviation shift_up :: "nat \<Rightarrow> nat \<Rightarrow> nat \<Rightarrow> nat" where
  "shift_up lo cnt row \<equiv> if row \<ge> lo then row + cnt else row"

text \<open>
  \<open>m\<close> is the view of \<open>m0\<close> after \<open>cnt\<close> rows were inserted at \<open>lo\<close> of the source: the rows that were
  there match and compare as they did.
\<close>

definition rows_inserted :: "externals \<Rightarrow> nat \<Rightarrow> nat \<Rightarrow> LogFilterModel \<Rightarrow> LogFilterModel \<Rightarrow> bool" where
  "rows_inserted ex lo cnt m0 m \<longleftrightarrow>
     mAcceptedSourceRows m = mAcceptedSourceRows m0 \<and> mSourceModel m0 \<noteq> None \<and> mSourceModel m \<noteq> None \<and>
     lo \<le> source_rowCount m0 \<and> source_rowCount m = source_rowCount m0 + cnt \<and>
     (\<forall>r < source_rowCount m0. MatchesRulesAtSourceRow ex m (shift_up lo cnt r) = MatchesRulesAtSourceRow ex m0 r \<and>
       (\<forall>s < source_rowCount m0. LessThanSourceRows ex m (shift_up lo cnt r) (shift_up lo cnt s) = LessThanSourceRows ex m0 r s))"

lemma shifted_rows:
  assumes "rows_inserted ex lo cnt m0 m" "shows_rows_in_order ex m0"
  defines "old \<equiv> map (shift_up lo cnt) (mAcceptedSourceRows m)"
  shows "set old = {r \<in> accepted_set ex m. \<not> (lo \<le> r \<and> r < lo + cnt)}" "sorted_wrt (LessThanSourceRows ex m) old"
proof -
  let ?n0 = "source_rowCount m0"
  have acc: "set (mAcceptedSourceRows m) = accepted_set ex m0" "mAcceptedSourceRows m = mAcceptedSourceRows m0"
    "sorted_wrt (LessThanSourceRows ex m0) (mAcceptedSourceRows m0)"
    using assms(1,2) by (simp_all add: rows_inserted_def shows_rows_in_order_def)
  have n: "source_rowCount m = ?n0 + cnt" and match: "\<And>r. r < ?n0 \<Longrightarrow> MatchesRulesAtSourceRow ex m (shift_up lo cnt r) = MatchesRulesAtSourceRow ex m0 r"
    and less: "\<And>r s. r < ?n0 \<Longrightarrow> s < ?n0 \<Longrightarrow> LessThanSourceRows ex m (shift_up lo cnt r) (shift_up lo cnt s) = LessThanSourceRows ex m0 r s"
    using assms(1) by (simp_all add: rows_inserted_def)
  have up: "(\<exists>s<?n0. r = shift_up lo cnt s) \<longleftrightarrow> r < ?n0 + cnt \<and> \<not> (lo \<le> r \<and> r < lo + cnt)" for r
  proof
    assume "r < ?n0 + cnt \<and> \<not> (lo \<le> r \<and> r < lo + cnt)"
    then show "\<exists>s<?n0. r = shift_up lo cnt s"
      using assms(1) by (intro exI [of _ "if r < lo then r else r - cnt"]) (auto simp: rows_inserted_def)
  next
    assume "\<exists>s<?n0. r = shift_up lo cnt s"
    then obtain s where s: "s < ?n0" "r = shift_up lo cnt s" by blast
    have "lo \<le> ?n0" using assms(1) by (simp add: rows_inserted_def)
    then show "r < ?n0 + cnt \<and> \<not> (lo \<le> r \<and> r < lo + cnt)" using s by (cases "lo \<le> s") simp_all
  qed
  show "set old = {r \<in> accepted_set ex m. \<not> (lo \<le> r \<and> r < lo + cnt)}"
  proof (intro set_eqI)
    fix r
    have "set old = shift_up lo cnt ` accepted_set ex m0" by (simp only: old_def set_map acc(1))
    then have "r \<in> set old \<longleftrightarrow> (\<exists>s<?n0. r = shift_up lo cnt s \<and> MatchesRulesAtSourceRow ex m0 s)"
      unfolding accepted_set_def image_def by blast
    also have "\<dots> \<longleftrightarrow> (\<exists>s<?n0. r = shift_up lo cnt s) \<and> MatchesRulesAtSourceRow ex m r"
    proof -
      have "MatchesRulesAtSourceRow ex m r = MatchesRulesAtSourceRow ex m0 s" if "s < ?n0" "r = shift_up lo cnt s" for s
        using match [OF that(1)] unfolding that(2) .
      then show ?thesis by blast
    qed
    finally show "r \<in> set old \<longleftrightarrow> r \<in> {r \<in> accepted_set ex m. \<not> (lo \<le> r \<and> r < lo + cnt)}"
      unfolding up by (auto simp: accepted_set_def n)
  qed
  show "sorted_wrt (LessThanSourceRows ex m) old"
    unfolding old_def sorted_wrt_map acc(2)
    by (rule sorted_wrt_restrict [OF acc(3)]) (use acc less in \<open>auto simp: accepted_set_def\<close>)
qed

text \<open>One row is sorted in.\<close>

lemma insert_sorted_row_agrees: "agrees ex m (insert_sorted_row ex r m)"
  by (simp add: agrees_def insert_sorted_row_def Let_def)

lemma insert_sorted_row_rows:
  "mAcceptedSourceRows (insert_sorted_row ex r m) =
    insert_at (partition_point (\<lambda>l. LessThanSourceRows ex m l r) (mAcceptedSourceRows m)) [r] (mAcceptedSourceRows m)"
  by (simp add: insert_sorted_row_def Let_def)

lemma insert_sorted_rows:
  assumes "connected m" "mSourceModel m = Some src" "sorted_wrt (LessThanSourceRows ex m) (mAcceptedSourceRows m)"
    and "distinct rs" "set rs \<inter> set (mAcceptedSourceRows m) = {}" "set rs \<union> set (mAcceptedSourceRows m) \<subseteq> {..<sourceRows src}"
  shows "agrees ex m (fold (insert_sorted_row ex) rs m) \<and>
    set (mAcceptedSourceRows (fold (insert_sorted_row ex) rs m)) = set rs \<union> set (mAcceptedSourceRows m) \<and>
    sorted_wrt (LessThanSourceRows ex m) (mAcceptedSourceRows (fold (insert_sorted_row ex) rs m))"
  using assms
proof (induction rs arbitrary: m)
  case (Cons r rs)
  let ?m = "insert_sorted_row ex r m" and ?lt = "LessThanSourceRows ex m"
  have a: "agrees ex m ?m" by (rule insert_sorted_row_agrees)
  have rows: "set (mAcceptedSourceRows ?m) = insert r (set (mAcceptedSourceRows m))"
    by (simp add: insert_sorted_row_rows set_insert_at)
  obtain lt where lt: "strict_total_order lt" "\<And>i j. i < sourceRows src \<Longrightarrow> j < sourceRows src \<Longrightarrow> ?lt i j = lt i j"
    by (rule LessThan_order [OF Cons.prems(1,2)]) blast
  have in_range: "x < sourceRows src" if "x \<in> insert r (set (mAcceptedSourceRows m))" for x
    using Cons.prems(6) that by auto
  have "sorted_wrt ?lt (mAcceptedSourceRows ?m)"
    unfolding insert_sorted_row_rows
  proof (rule sorted_insert_at [OF Cons.prems(3)])
    show "r \<notin> set (mAcceptedSourceRows m)" using Cons.prems(5) by simp
    fix a b c assume "a \<in> insert r (set (mAcceptedSourceRows m))" "b \<in> insert r (set (mAcceptedSourceRows m))"
    note ab = in_range [OF this(1)] in_range [OF this(2)]
    show "?lt a b \<or> ?lt b a" if "a \<noteq> b" using lt ab that unfolding strict_total_order_def by blast
    assume "c \<in> insert r (set (mAcceptedSourceRows m))"
    note abc = ab in_range [OF this]
    show "?lt a c" if "?lt a b" "?lt b c" using lt(1) that abc unfolding strict_total_order_def lt(2) [OF abc(1,2)] lt(2) [OF abc(2,3)] lt(2) [OF abc(1,3)] by blast
  qed
  then have sorted: "sorted_wrt (LessThanSourceRows ex ?m) (mAcceptedSourceRows ?m)" by (simp add: agrees_LessThan [OF a])
  have ih: "agrees ex ?m (fold (insert_sorted_row ex) rs ?m) \<and>
      set (mAcceptedSourceRows (fold (insert_sorted_row ex) rs ?m)) = set rs \<union> set (mAcceptedSourceRows ?m) \<and>
      sorted_wrt (LessThanSourceRows ex ?m) (mAcceptedSourceRows (fold (insert_sorted_row ex) rs ?m))"
    by (rule Cons.IH [OF _ _ sorted]) (use Cons.prems rows a agrees_rows(5) [OF a] in \<open>auto simp: agrees_def\<close>)
  then show ?case using agrees_trans [OF a] agrees_LessThan [OF a] rows by auto
qed simp

text \<open>The bulk insertion of an unsorted view.\<close>

lemma LessThan_unsorted: "mSortColumn m = None \<Longrightarrow> LessThanSourceRows ex m i j = (i < j)"
  by (cases "mLogModel m") (simp_all add: LessThanSourceRows_def)

lemma bulk_insertion:
  fixes old new :: "nat list"
  assumes "sorted_wrt (<) old" "sorted_wrt (<) new" "set new \<subseteq> {lo..<lo + cnt}" "\<forall>r\<in>set old. \<not> (lo \<le> r \<and> r < lo + cnt)"
  shows "sorted_wrt (<) (insert_at (partition_point (\<lambda>row. row < lo) old) new old)"
proof -
  have before: "r < lo" if "r \<in> set (takeWhile (\<lambda>row. row < lo) old)" for r using set_takeWhileD [OF that] by simp
  have after: "lo + cnt \<le> r" if "r \<in> set (dropWhile (\<lambda>row. row < lo) old)" for r
  proof -
    have sorted: "sorted_wrt (<) (dropWhile (\<lambda>row. row < lo) old)" using assms(1) by (metis sorted_wrt_append takeWhile_dropWhile_id)
    have "dropWhile (\<lambda>row. row < lo) old \<noteq> []" using that list.set(1) by force
    then obtain x xs where x: "dropWhile (\<lambda>row. row < lo) old = x # xs" unfolding neq_Nil_conv by blast
    then have "lo \<le> x" using hd_dropWhile [of "\<lambda>row. row < lo" old] by auto
    then have "lo \<le> r" using that sorted x by auto
    moreover have "r \<in> set old" using set_dropWhileD [OF that] .
    ultimately show ?thesis using assms(4) by auto
  qed
  have parts: "sorted_wrt (<) (takeWhile (\<lambda>row. row < lo) old)" "sorted_wrt (<) (dropWhile (\<lambda>row. row < lo) old)"
    using assms(1) by (metis sorted_wrt_append takeWhile_dropWhile_id)+
  have inside: "lo \<le> r \<and> r < lo + cnt" if "r \<in> set new" for r using assms(3) that by auto
  have "a < b" if "a \<in> set (takeWhile (\<lambda>row. row < lo) old)" "b \<in> set new \<or> b \<in> set (dropWhile (\<lambda>row. row < lo) old)" for a b
    using before [OF that(1)] inside [of b] after [of b] that(2) by linarith
  moreover have "a < b" if "a \<in> set new" "b \<in> set (dropWhile (\<lambda>row. row < lo) old)" for a b
    using inside [OF that(1)] after [OF that(2)] by linarith
  ultimately show ?thesis unfolding insert_at_partition sorted_wrt_append using parts assms(2) by simp
qed

lemma OnSourceRowsInserted_cases:
  fixes ex :: externals
  assumes "mSourceModel m \<noteq> None" "lo \<le> hi"
  defines "old \<equiv> map (shift_up lo (hi - lo + 1)) (mAcceptedSourceRows m)"
  defines "m1 \<equiv> m\<lparr>mAcceptedSourceRows := old\<rparr>"
  defines "new \<equiv> filter (MatchesRulesAtSourceRow ex m1) [lo..<hi + 1]"
  defines "k \<equiv> partition_point (\<lambda>row. row < lo) old"
  shows "OnSourceRowsInserted ex True lo hi m =
    (if mSortColumn m \<noteq> None then RebuildReverseIndex (fold (insert_sorted_row ex) new m1)
     else if new = [] then RebuildReverseIndex m1
     else emit EndInsertRows (RebuildReverseIndex
            ((emit (BeginInsertRows k (k + length new - 1)) m1)\<lparr>mAcceptedSourceRows := insert_at k new old\<rparr>)))"
proof -
  have m1: "mSortColumn m1 = mSortColumn m" "mAcceptedSourceRows m1 = old" by (simp_all add: m1_def)
  have guards: "(\<not> True \<or> mSourceModel m = None) = False" "(hi < lo) = False" using assms(1,2) by simp_all
  show ?thesis
    unfolding OnSourceRowsInserted_def Let_def guards if_False old_def [symmetric] m1_def [symmetric] new_def [symmetric]
      emit_simps m1 k_def [symmetric] by simp
qed

lemma OnSourceRowsInserted_shows:
  assumes "rows_inserted ex lo (hi - lo + 1) m0 m" "lo \<le> hi" "shows_rows_in_order ex m0" "connected m"
  shows "agrees ex m (OnSourceRowsInserted ex True lo hi m) \<and> shows_rows_in_order ex (OnSourceRowsInserted ex True lo hi m) \<and>
    view_inv (OnSourceRowsInserted ex True lo hi m)"
proof -
  let ?cnt = "hi - lo + 1"
  define old where "old = map (shift_up lo ?cnt) (mAcceptedSourceRows m)"
  define m1 where "m1 = m\<lparr>mAcceptedSourceRows := old\<rparr>"
  define new where "new = filter (MatchesRulesAtSourceRow ex m1) [lo..<hi + 1]"
  obtain src where src: "mSourceModel m = Some src" using assms(1) by (auto simp: rows_inserted_def)
  have a1: "agrees ex m m1" by (simp add: m1_def)
  have "mSourceModel m \<noteq> None" using src by simp
  note cases = OnSourceRowsInserted_cases [OF this assms(2), of ex, folded old_def, folded m1_def, folded new_def]
  note old = shifted_rows [OF assms(1,3), folded old_def]
  have hi: "lo + ?cnt = hi + 1" "source_rowCount m = sourceRows src" using assms(2) src by (simp_all add: source_rowCount_def)
  have n: "hi < sourceRows src" using assms(1,2) hi(2) by (auto simp: rows_inserted_def)
  have new: "set new = {r \<in> accepted_set ex m. lo \<le> r \<and> r < lo + ?cnt}" "sorted_wrt (<) new" "distinct new"
    using n hi by (auto simp: new_def accepted_set_def agrees_rows(3) [OF a1] sorted_wrt_filter simp del: upt_Suc)
  have all: "set new \<union> set old = accepted_set ex m" using new(1) old(1) by auto
  have disjoint: "set new \<inter> set old = {}" using new(1) old(1) by auto
  have result: "\<exists>m2. OnSourceRowsInserted ex True lo hi m = m2 \<and> (m2 = RebuildReverseIndex m3 \<or> m2 = emit EndInsertRows (RebuildReverseIndex m3))
      \<and> agrees ex m m2 \<and> mAcceptedSourceRows m2 = mAcceptedSourceRows m3"
    if "agrees ex m m3" "OnSourceRowsInserted ex True lo hi m = RebuildReverseIndex m3 \<or>
      OnSourceRowsInserted ex True lo hi m = emit EndInsertRows (RebuildReverseIndex m3)" for m3
    using that agrees_trans [OF that(1) agrees_RebuildReverseIndex] agrees_trans [OF agrees_trans [OF that(1) agrees_RebuildReverseIndex] agrees_emit]
    by auto
  have conclude: ?thesis
    if m3: "agrees ex m m3" "set (mAcceptedSourceRows m3) = accepted_set ex m" "sorted_wrt (LessThanSourceRows ex m) (mAcceptedSourceRows m3)"
      and step: "OnSourceRowsInserted ex True lo hi m = RebuildReverseIndex m3 \<or>
        OnSourceRowsInserted ex True lo hi m = emit EndInsertRows (RebuildReverseIndex m3)" for m3
  proof -
    have shown: "shows_rows_in_order ex m3"
      using m3 agrees_rows(6) [OF m3(1)] agrees_LessThan [OF m3(1)] by (simp add: shows_rows_in_order_def)
    have "mSourceModel m3 = Some src" "connected m3" using m3(1) src assms(4) agrees_rows(5) [OF m3(1)] by (simp_all add: agrees_def)
    then have "view_inv (RebuildReverseIndex m3)" by (rule reindexed [OF shown_bounded [OF _ _ shown], rotated])
    moreover obtain m2 where m2: "OnSourceRowsInserted ex True lo hi m = m2" "agrees ex m m2" "mAcceptedSourceRows m2 = mAcceptedSourceRows m3"
      "m2 = RebuildReverseIndex m3 \<or> m2 = emit EndInsertRows (RebuildReverseIndex m3)"
      using result [OF m3(1) step] by blast
    moreover have "shows_rows_in_order ex m2"
      using m3 m2(3) agrees_rows(6) [OF m2(2)] agrees_LessThan [OF m2(2)] by (simp add: shows_rows_in_order_def)
    ultimately show ?thesis by auto
  qed
  show ?thesis
  proof (cases "mSortColumn m = None")
    case True
    have plain: "LessThanSourceRows ex m = (<)" by (intro ext) (simp add: LessThan_unsorted [OF True])
    have old_sorted: "sorted_wrt (<) old" using old(2) by (simp add: plain)
    show ?thesis
    proof (cases "new = []")
      case nil: True
      then have "OnSourceRowsInserted ex True lo hi m = RebuildReverseIndex m1"
        using cases True by simp
      then show ?thesis using all old(2) nil a1 by (intro conclude [of m1]) (simp_all add: m1_def)
    next
      case False
      let ?k = "partition_point (\<lambda>row. row < lo) old"
      let ?m3 = "(emit (BeginInsertRows ?k (?k + length new - 1)) m1)\<lparr>mAcceptedSourceRows := insert_at ?k new old\<rparr>"
      have "OnSourceRowsInserted ex True lo hi m = emit EndInsertRows (RebuildReverseIndex ?m3)"
        using cases True False by simp
      moreover have "sorted_wrt (<) (insert_at ?k new old)"
      proof (rule bulk_insertion [OF old_sorted new(2)])
        show "set new \<subseteq> {lo..<lo + ?cnt}" unfolding new(1) by auto
        show "\<forall>r\<in>set old. \<not> (lo \<le> r \<and> r < lo + ?cnt)" unfolding old(1) by auto
      qed
      then have "sorted_wrt (LessThanSourceRows ex m) (insert_at ?k new old)"
        by (simp add: plain)
      moreover have "agrees ex m ?m3" using agrees_trans [OF agrees_trans [OF a1 agrees_emit] agrees_accepted] .
      ultimately show ?thesis using all by (intro conclude [of ?m3]) (simp_all add: set_insert_at Un_commute)
    qed
  next
    case False
    let ?m3 = "fold (insert_sorted_row ex) new m1"
    have rows: "agrees ex m1 ?m3 \<and> set (mAcceptedSourceRows ?m3) = set new \<union> set (mAcceptedSourceRows m1) \<and>
        sorted_wrt (LessThanSourceRows ex m1) (mAcceptedSourceRows ?m3)"
      by (rule insert_sorted_rows [of _ src])
        (use assms(4) src old(2) new(3) disjoint all agrees_rows(5) [OF a1] agrees_LessThan [OF a1] hi(2) in \<open>auto simp: m1_def accepted_set_def\<close>)
    have "OnSourceRowsInserted ex True lo hi m = RebuildReverseIndex ?m3"
      using cases False by simp
    then show ?thesis using rows all agrees_trans [OF a1] agrees_LessThan [OF a1] by (intro conclude [of ?m3]) (auto simp: m1_def)
  qed
qed

end
