(* ===== verification/Filter_View_Removal.thy ===== *)
theory Filter_View_Removal
  imports Filter_View_Slots
begin

text \<open>
  Rows of the source are removed: the ranges that the view announces are just its rows that go, and
  the rows that stay are shown as before.  Then what the signals of both slots announce.
\<close>

section \<open>Removing ranges\<close>

definition cut :: "nat \<times> nat \<Rightarrow> 'a list \<Rightarrow> 'a list" where
  "cut r xs = take (fst r) xs @ drop (snd r + 1) xs"

lemma nths_take_drop: "k \<le> length xs \<Longrightarrow> nths xs A = nths (take k xs) A @ nths (drop k xs) {j. j + k \<in> A}"
  by (metis append_take_drop_id length_take min.absorb2 nths_append)

lemma cut_nths:
  assumes "s \<le> e" "e < length xs" "{..e} \<subseteq> A"
  shows "cut (s, e) (nths xs A) = nths xs (A - {s..e})"
proof -
  have front: "nths (take (e + 1) xs) A = take (e + 1) xs" by (rule nths_all) (use assms(3) in auto)
  have split: "nths xs A = take (e + 1) xs @ nths (drop (e + 1) xs) {j. j + (e + 1) \<in> A}"
    using nths_take_drop [of "e + 1" xs A] assms(2) front by simp
  have s_front: "nths (take s xs) (A - {s..e}) = take s xs" by (rule nths_all) (use assms in auto)
  have "nths xs (A - {s..e}) = take s xs @ nths (drop s xs) {j. j + s \<in> A - {s..e}}"
    using nths_take_drop [of s xs "A - {s..e}"] assms(1,2) s_front by simp
  also have "nths (drop s xs) {j. j + s \<in> A - {s..e}} =
      nths (take (e + 1 - s) (drop s xs)) {j. j + s \<in> A - {s..e}} @
      nths (drop (e + 1 - s) (drop s xs)) {j. j + (e + 1 - s) \<in> {j. j + s \<in> A - {s..e}}}"
    by (rule nths_take_drop) (use assms in simp)
  also have "nths (take (e + 1 - s) (drop s xs)) {j. j + s \<in> A - {s..e}} = []"
    using assms(1) by (auto simp: nths_def filter_empty_conv set_zip)
  also have "nths (drop (e + 1 - s) (drop s xs)) {j. j + (e + 1 - s) \<in> {j. j + s \<in> A - {s..e}}} =
      nths (drop (e + 1) xs) {j. j + (e + 1) \<in> A}"
    using assms(1) by (intro arg_cong2 [of _ _ _ _ nths]) auto
  finally show ?thesis using split assms(1,2) by (simp add: cut_def)
qed

lemma cut_coalesced:
  assumes "s \<le> e" "sorted_wrt (<) (e # ps)" "\<forall>p\<in>set (e # ps). p < length xs"
  shows "foldr cut (coalesce s e ps) xs = nths xs (- ({s..e} \<union> set ps))"
  using assms
proof (induction s e ps rule: coalesce.induct)
  case (1 s e)
  have "nths xs UNIV = xs" by (rule nths_all) simp
  then show ?case using cut_nths [of s e xs UNIV] 1 by (simp add: Compl_eq_Diff_UNIV)
next
  case (2 s e p ps)
  show ?case
  proof (cases "p = e + 1")
    case True
    have "{s..p} \<union> set ps = {s..e} \<union> set (p # ps)" using True 2(3) by auto
    then show ?thesis using 2(1) [OF True] 2(3-5) True by simp
  next
    case False
    have "foldr cut (coalesce p p ps) xs = nths xs (- ({p..p} \<union> set ps))" using 2(2) [OF False] 2(4,5) by simp
    moreover have "{..e} \<subseteq> - ({p..p} \<union> set ps)" using 2(4) by auto
    ultimately have "cut (s, e) (foldr cut (coalesce p p ps) xs) = nths xs (- ({p..p} \<union> set ps) - {s..e})"
      using cut_nths [of s e xs "- ({p..p} \<union> set ps)"] 2(3,5) by simp
    moreover have "- ({p..p} \<union> set ps) - {s..e} = - ({s..e} \<union> set (p # ps))" by auto
    ultimately show ?thesis using False by simp
  qed
qed

lemma cut_ranges:
  assumes "sorted_wrt (<) ps" "\<forall>p\<in>set ps. p < length xs"
  shows "foldr cut (coalesceRanges ps) xs = nths xs (- set ps)"
proof (cases ps)
  case (Cons p ps')
  have "{p..p} \<union> set ps' = set (p # ps')" by auto
  then show ?thesis using cut_coalesced [of p p ps' xs] assms Cons by (simp add: coalesceRanges_def)
qed (simp add: coalesceRanges_def nths_all)

lemma cut_matching: "foldr cut (coalesceRanges (filter (\<lambda>i. P (xs ! i)) [0..<length xs])) xs = filter (\<lambda>x. \<not> P x) xs"
proof -
  have "nths xs (- set (filter (\<lambda>i. P (xs ! i)) [0..<length xs])) = nths xs {i. i < length xs \<and> \<not> P (xs ! i)}"
    unfolding nths_def by (intro arg_cong [of _ _ "map fst"] filter_cong) (auto simp: set_zip)
  moreover have "foldr cut (coalesceRanges (filter (\<lambda>i. P (xs ! i)) [0..<length xs])) xs = nths xs (- set (filter (\<lambda>i. P (xs ! i)) [0..<length xs]))"
    by (rule cut_ranges) (simp_all add: sorted_wrt_filter)
  ultimately show ?thesis by (simp only: filter_eq_nths [of "\<lambda>x. \<not> P x" xs])
qed

lemma remove_ranges_rows: "mAcceptedSourceRows (fold remove_range rs m) = fold cut rs (mAcceptedSourceRows m)"
  by (induction rs arbitrary: m) (simp_all add: remove_range_def cut_def)

lemma remove_ranges_agrees: "agrees ex m (fold remove_range rs m)"
proof (induction rs arbitrary: m)
  case (Cons r rs)
  have "agrees ex m (remove_range r m)" by (simp add: agrees_def remove_range_def)
  then show ?case using agrees_trans [OF _ Cons] by simp
qed simp

section \<open>Removed rows\<close>

abbreviation shift_down :: "nat \<Rightarrow> nat \<Rightarrow> nat \<Rightarrow> nat" where
  "shift_down hi cnt row \<equiv> if row > hi then row - cnt else row"

text \<open>
  \<open>m\<close> is the view of \<open>m0\<close> after the rows from \<open>lo\<close> to \<open>hi\<close> of the source were removed: the others match
  and compare as they did.
\<close>

definition rows_removed :: "externals \<Rightarrow> nat \<Rightarrow> nat \<Rightarrow> LogFilterModel \<Rightarrow> LogFilterModel \<Rightarrow> bool" where
  "rows_removed ex lo hi m0 m \<longleftrightarrow>
     mAcceptedSourceRows m = mAcceptedSourceRows m0 \<and> mSourceModel m \<noteq> None \<and> lo \<le> hi \<and> hi < source_rowCount m0 \<and>
     source_rowCount m = source_rowCount m0 - (hi - lo + 1) \<and>
     (\<forall>r < source_rowCount m0. r < lo \<or> hi < r \<longrightarrow>
        MatchesRulesAtSourceRow ex m (shift_down hi (hi - lo + 1) r) = MatchesRulesAtSourceRow ex m0 r \<and>
        (\<forall>s < source_rowCount m0. s < lo \<or> hi < s \<longrightarrow>
           LessThanSourceRows ex m (shift_down hi (hi - lo + 1) r) (shift_down hi (hi - lo + 1) s) = LessThanSourceRows ex m0 r s))"

lemma OnSourceRowsRemoved_rows:
  assumes "mSourceModel m \<noteq> None" "lo \<le> hi"
  shows "\<exists>m1. OnSourceRowsRemoved True lo hi m = RebuildReverseIndex m1 \<and> agrees ex m m1 \<and>
    mAcceptedSourceRows m1 = map (shift_down hi (hi - lo + 1)) (filter (\<lambda>r. \<not> (lo \<le> r \<and> r \<le> hi)) (mAcceptedSourceRows m))"
proof -
  let ?drop = "filter (\<lambda>i. lo \<le> mAcceptedSourceRows m ! i \<and> mAcceptedSourceRows m ! i \<le> hi) [0..<length (mAcceptedSourceRows m)]"
  let ?m1 = "fold remove_range (rev (coalesceRanges ?drop)) m"
  have "mAcceptedSourceRows ?m1 = filter (\<lambda>r. \<not> (lo \<le> r \<and> r \<le> hi)) (mAcceptedSourceRows m)"
    using cut_matching [of "\<lambda>r. lo \<le> r \<and> r \<le> hi" "mAcceptedSourceRows m"] by (simp only: remove_ranges_rows foldr_conv_fold)
  moreover have "agrees ex m (?m1\<lparr>mAcceptedSourceRows := rows\<rparr>)" for rows
    using agrees_trans [OF remove_ranges_agrees agrees_accepted] .
  moreover have "(\<not> True \<or> mSourceModel m = None) = False" "(hi < lo) = False" using assms by simp_all
  then have "OnSourceRowsRemoved True lo hi m =
      RebuildReverseIndex (?m1\<lparr>mAcceptedSourceRows := map (shift_down hi (hi - lo + 1)) (mAcceptedSourceRows ?m1)\<rparr>)"
    unfolding OnSourceRowsRemoved_def Let_def by (simp only: if_False)
  ultimately show ?thesis
    by (intro exI [of _ "?m1\<lparr>mAcceptedSourceRows := map (shift_down hi (hi - lo + 1)) (mAcceptedSourceRows ?m1)\<rparr>"]) simp
qed

lemma OnSourceRowsRemoved_shows:
  assumes "rows_removed ex lo hi m0 m" "shows_rows_in_order ex m0" "connected m"
  shows "agrees ex m (OnSourceRowsRemoved True lo hi m) \<and> shows_rows_in_order ex (OnSourceRowsRemoved True lo hi m) \<and>
    view_inv (OnSourceRowsRemoved True lo hi m)"
proof -
  let ?cnt = "hi - lo + 1" and ?n0 = "source_rowCount m0"
  let ?down = "shift_down hi ?cnt" and ?stays = "\<lambda>r. \<not> (lo \<le> r \<and> r \<le> hi)"
  have le: "lo \<le> hi" "hi < ?n0" and src: "mSourceModel m \<noteq> None" and n: "source_rowCount m = ?n0 - ?cnt"
    and acc: "mAcceptedSourceRows m = mAcceptedSourceRows m0" "set (mAcceptedSourceRows m0) = accepted_set ex m0"
    "sorted_wrt (LessThanSourceRows ex m0) (mAcceptedSourceRows m0)"
    using assms(1,2) by (simp_all add: rows_removed_def shows_rows_in_order_def)
  have match: "MatchesRulesAtSourceRow ex m (?down r) = MatchesRulesAtSourceRow ex m0 r" if "r < ?n0" "?stays r" for r
    using assms(1) that by (auto simp: rows_removed_def not_le)
  have less: "LessThanSourceRows ex m (?down r) (?down s) = LessThanSourceRows ex m0 r s" if "r < ?n0" "?stays r" "s < ?n0" "?stays s" for r s
    using assms(1) that by (auto simp: rows_removed_def not_le)
  obtain m1 where m1: "OnSourceRowsRemoved True lo hi m = RebuildReverseIndex m1" "agrees ex m m1"
    "mAcceptedSourceRows m1 = map ?down (filter ?stays (mAcceptedSourceRows m))"
    using OnSourceRowsRemoved_rows [OF src le(1), of ex] by blast
  have image: "(\<exists>s<?n0. ?stays s \<and> r = ?down s) \<longleftrightarrow> r < ?n0 - ?cnt" for r
  proof
    assume "r < ?n0 - ?cnt"
    then show "\<exists>s<?n0. ?stays s \<and> r = ?down s"
      using le by (intro exI [of _ "if r < lo then r else r + ?cnt"]) auto
  next
    assume "\<exists>s<?n0. ?stays s \<and> r = ?down s"
    then obtain s where "s < ?n0" "?stays s" "r = ?down s" by blast
    then show "r < ?n0 - ?cnt" using le by (cases "s > hi") simp_all
  qed
  have rows: "set (mAcceptedSourceRows m1) = accepted_set ex m"
  proof (intro set_eqI)
    fix r
    have "set (mAcceptedSourceRows m1) = ?down ` {s \<in> accepted_set ex m0. ?stays s}" by (simp only: m1(3) set_map set_filter acc)
    then have "r \<in> set (mAcceptedSourceRows m1) \<longleftrightarrow> (\<exists>s<?n0. ?stays s \<and> r = ?down s \<and> MatchesRulesAtSourceRow ex m0 s)"
      unfolding accepted_set_def image_def by blast
    also have "\<dots> \<longleftrightarrow> (\<exists>s<?n0. ?stays s \<and> r = ?down s) \<and> MatchesRulesAtSourceRow ex m r"
    proof -
      have "MatchesRulesAtSourceRow ex m r = MatchesRulesAtSourceRow ex m0 s" if "s < ?n0" "?stays s" "r = ?down s" for s
        using match [OF that(1,2)] unfolding that(3) .
      then show ?thesis by blast
    qed
    finally show "r \<in> set (mAcceptedSourceRows m1) \<longleftrightarrow> r \<in> accepted_set ex m" unfolding image by (simp add: accepted_set_def n)
  qed
  have "sorted_wrt (LessThanSourceRows ex m) (mAcceptedSourceRows m1)"
    unfolding m1(3) acc(1) sorted_wrt_map
  proof (rule sorted_wrt_restrict [OF sorted_wrt_filter [OF acc(3)]])
    fix r s assume "r \<in> set (filter ?stays (mAcceptedSourceRows m0))" "s \<in> set (filter ?stays (mAcceptedSourceRows m0))" "LessThanSourceRows ex m0 r s"
    then show "LessThanSourceRows ex m (?down r) (?down s)" using less [of r s] acc(2) by (auto simp only: set_filter accepted_set_def mem_Collect_eq)
  qed
  with rows have shown: "shows_rows_in_order ex m1"
    using agrees_rows(6) [OF m1(2)] agrees_LessThan [OF m1(2)] by (simp add: shows_rows_in_order_def)
  obtain src' where src': "mSourceModel m = Some src'" using src by blast
  have "view_inv (RebuildReverseIndex m1)"
    by (rule reindexed [OF shown_bounded [OF _ _ shown]]) (use src' m1(2) agrees_rows(5) [OF m1(2)] assms(3) in \<open>simp_all add: agrees_def\<close>)
  moreover have "shows_rows_in_order ex (RebuildReverseIndex m1)"
    using shown agrees_shown [OF agrees_RebuildReverseIndex, where m = m1] by simp
  ultimately show ?thesis using m1(1) agrees_trans [OF m1(2) agrees_RebuildReverseIndex] by simp
qed

end
