(* ===== verification/Filter_View_Signals.thy ===== *)
theory Filter_View_Signals
  imports Filter_View_Removal
begin

text \<open>
  What the view tells its own observers: inserted and removed ranges, the new places of persistent
  indices, the column of the sort, and the ranks that it caches.
\<close>

section \<open>Announced ranges\<close>

text \<open>
  An observer that holds one entry per row and follows the announced ranges; the entries of inserted
  rows are \<open>None\<close>, and a range that does not fit ends the run.
\<close>

fun replay :: "signal list \<Rightarrow> 'a option list \<Rightarrow> 'a option list option" where
  "replay [] xs = Some xs"
| "replay (BeginInsertRows lo hi # ss) xs =
     (if lo \<le> length xs \<and> lo \<le> hi then replay ss (insert_at lo (replicate (hi - lo + 1) None) xs) else None)"
| "replay (BeginRemoveRows lo hi # ss) xs = (if lo \<le> hi \<and> hi < length xs then replay ss (cut (lo, hi) xs) else None)"
| "replay (_ # ss) xs = replay ss xs"

lemma replay_append: "replay (ss @ ss') xs = Option.bind (replay ss xs) (replay ss')"
  by (induction ss xs rule: replay.induct) simp_all

lemma map_insert_at: "map f (insert_at k new xs) = insert_at k (map f new) (map f xs)"
  by (simp add: insert_at_def take_map drop_map)

lemma map_cut: "map f (cut r xs) = cut r (map f xs)"
  by (simp add: cut_def take_map drop_map)

lemma emitted_RebuildReverseIndex [simp]: "emitted (RebuildReverseIndex m) = emitted m"
  by (simp add: RebuildReverseIndex_def)

lemma insert_sorted_row_announced:
  assumes "lab r = None"
  shows "\<exists>ss. emitted (insert_sorted_row ex r m) = emitted m @ ss \<and>
    replay ss (map lab (mAcceptedSourceRows m)) = Some (map lab (mAcceptedSourceRows (insert_sorted_row ex r m)))"
proof -
  let ?k = "partition_point (\<lambda>l. LessThanSourceRows ex m l r) (mAcceptedSourceRows m)"
  have "emitted (insert_sorted_row ex r m) = emitted m @ [BeginInsertRows ?k ?k, EndInsertRows]"
    by (simp add: insert_sorted_row_def Let_def)
  then show ?thesis using assms partition_point_le [of _ "mAcceptedSourceRows m"]
    by (simp add: insert_sorted_row_rows map_insert_at)
qed

lemma insert_sorted_rows_announced:
  assumes "\<forall>r\<in>set rs. lab r = None"
  shows "\<exists>ss. emitted (fold (insert_sorted_row ex) rs m) = emitted m @ ss \<and>
    replay ss (map lab (mAcceptedSourceRows m)) = Some (map lab (mAcceptedSourceRows (fold (insert_sorted_row ex) rs m)))"
  using assms
proof (induction rs arbitrary: m)
  case (Cons r rs)
  then have "lab r = None" by simp
  from insert_sorted_row_announced [where lab = lab and r = r, OF this] obtain ss where ss: "emitted (insert_sorted_row ex r m) = emitted m @ ss"
    "replay ss (map lab (mAcceptedSourceRows m)) = Some (map lab (mAcceptedSourceRows (insert_sorted_row ex r m)))" by blast
  from Cons obtain ss' where "emitted (fold (insert_sorted_row ex) (r # rs) m) = emitted (insert_sorted_row ex r m) @ ss'"
    "replay ss' (map lab (mAcceptedSourceRows (insert_sorted_row ex r m))) = Some (map lab (mAcceptedSourceRows (fold (insert_sorted_row ex) (r # rs) m)))"
    by fastforce
  with ss show ?case by (intro exI [of _ "ss @ ss'"]) (simp add: replay_append)
qed simp

lemma OnSourceRowsInserted_announced:
  fixes ex :: externals
  assumes "mSourceModel m \<noteq> None" "lo \<le> hi"
  defines "m' \<equiv> OnSourceRowsInserted ex True lo hi m"
  shows "\<exists>ss. emitted m' = emitted m @ ss \<and>
    replay ss (map Some (mAcceptedSourceRows m)) =
      Some (map (\<lambda>r. if r < lo then Some r else if r \<le> hi then None else Some (r - (hi - lo + 1))) (mAcceptedSourceRows m'))"
proof -
  let ?lab = "\<lambda>r. if r < lo then Some r else if r \<le> hi then None else Some (r - (hi - lo + 1))"
  define old where "old = map (shift_up lo (hi - lo + 1)) (mAcceptedSourceRows m)"
  define m1 where "m1 = m\<lparr>mAcceptedSourceRows := old\<rparr>"
  define new where "new = filter (MatchesRulesAtSourceRow ex m1) [lo..<hi + 1]"
  define k where "k = partition_point (\<lambda>row. row < lo) old"
  note cases = OnSourceRowsInserted_cases [OF assms(1,2), of ex, folded old_def, folded m1_def, folded new_def, folded k_def, folded m'_def]
  have old: "map ?lab old = map Some (mAcceptedSourceRows m)" using assms(2) by (auto simp: old_def)
  have new: "?lab r = None" if "r \<in> set new" for r using that by (simp add: new_def del: upt_Suc)
  then have "map ?lab new = replicate (length new) None" by (simp add: list_eq_iff_nth_eq)
  then have bulk: "map ?lab (insert_at k new old) = insert_at k (replicate (length new) None) (map Some (mAcceptedSourceRows m))"
    by (simp add: map_insert_at old)
  show ?thesis
  proof (cases "mSortColumn m = None")
    case True
    show ?thesis
    proof (cases "new = []")
      case nil: True
      then have "m' = RebuildReverseIndex m1" using cases True by simp
      then show ?thesis using old by (intro exI [of _ "[]"]) (simp add: m1_def)
    next
      case False
      then have m': "emitted m' = emitted m @ [BeginInsertRows k (k + length new - 1), EndInsertRows]"
        "mAcceptedSourceRows m' = insert_at k new old" using cases True by (simp_all add: m1_def)
      have "k \<le> length (mAcceptedSourceRows m)" using partition_point_le [of _ old] by (simp add: k_def old_def)
      moreover have "k + length new - 1 - k + 1 = length new" using False by (cases new) simp_all
      ultimately have "replay [BeginInsertRows k (k + length new - 1), EndInsertRows] (map Some (mAcceptedSourceRows m)) =
          Some (insert_at k (replicate (length new) None) (map Some (mAcceptedSourceRows m)))"
        using False by (cases new) simp_all
      then show ?thesis using m' bulk by (intro exI [of _ "[BeginInsertRows k (k + length new - 1), EndInsertRows]"]) simp
    qed
  next
    case False
    then have "m' = RebuildReverseIndex (fold (insert_sorted_row ex) new m1)" using cases by simp
    moreover have "\<forall>r\<in>set new. ?lab r = None" using new by blast
    from insert_sorted_rows_announced [where lab = ?lab and rs = new, OF this, of ex m1] obtain ss where
      "emitted (fold (insert_sorted_row ex) new m1) = emitted m1 @ ss"
      "replay ss (map ?lab (mAcceptedSourceRows m1)) = Some (map ?lab (mAcceptedSourceRows (fold (insert_sorted_row ex) new m1)))" by blast
    ultimately show ?thesis using old by (intro exI [of _ ss]) (simp add: m1_def)
  qed
qed

text \<open>The signals of the removed ranges.\<close>

definition removal_signals :: "(nat \<times> nat) list \<Rightarrow> signal list" where
  "removal_signals rs = concat (map (\<lambda>r. [BeginRemoveRows (fst r) (snd r), EndRemoveRows]) rs)"

lemma emitted_remove_ranges: "emitted (fold remove_range rs m) = emitted m @ removal_signals rs"
  by (induction rs arbitrary: m) (simp_all add: remove_range_def removal_signals_def)

lemma replay_coalesced:
  assumes "s \<le> e" "sorted_wrt (<) (e # ps)" "\<forall>p\<in>set (e # ps). p < length xs"
  shows "replay (removal_signals (rev (coalesce s e ps))) xs = Some (foldr cut (coalesce s e ps) xs)"
  using assms
proof (induction s e ps rule: coalesce.induct)
  case (1 s e)
  then show ?case by (simp add: removal_signals_def)
next
  case (2 s e p ps)
  show ?case
  proof (cases "p = e + 1")
    case True
    then show ?thesis using 2(1) [OF True] 2(3-5) by simp
  next
    case False
    let ?Y = "foldr cut (coalesce p p ps) xs"
    have "replay (removal_signals (rev (coalesce p p ps))) xs = Some ?Y" using 2(2) [OF False] 2(4,5) by simp
    moreover have "e < length ?Y"
    proof -
      have "?Y = nths xs (- ({p..p} \<union> set ps))" by (rule cut_coalesced) (use 2(4,5) in auto)
      also have "\<dots> = nths (take (e + 1) xs) (- ({p..p} \<union> set ps)) @ nths (drop (e + 1) xs) {j. j + (e + 1) \<in> - ({p..p} \<union> set ps)}"
        by (rule nths_take_drop) (use 2(5) in \<open>simp add: Suc_leI\<close>)
      also have "nths (take (e + 1) xs) (- ({p..p} \<union> set ps)) = take (e + 1) xs"
        by (rule nths_all) (use 2(4) in auto)
      finally show ?thesis using 2(5) by simp
    qed
    ultimately show ?thesis using False 2(3) by (simp add: removal_signals_def replay_append)
  qed
qed

lemma replay_ranges:
  assumes "sorted_wrt (<) ps" "\<forall>p\<in>set ps. p < length xs"
  shows "replay (removal_signals (rev (coalesceRanges ps))) xs = Some (foldr cut (coalesceRanges ps) xs)"
proof (cases ps)
  case Nil
  then show ?thesis by (simp add: coalesceRanges_def removal_signals_def)
next
  case (Cons p ps')
  then show ?thesis using replay_coalesced [of p p ps' xs] assms by (simp add: coalesceRanges_def)
qed

lemma OnSourceRowsRemoved_announced:
  assumes "mSourceModel m \<noteq> None" "lo \<le> hi"
  defines "m' \<equiv> OnSourceRowsRemoved True lo hi m"
  shows "\<exists>ss. emitted m' = emitted m @ ss \<and>
    replay ss (map Some (mAcceptedSourceRows m)) =
      Some (map Some (filter (\<lambda>r. \<not> (lo \<le> r \<and> r \<le> hi)) (mAcceptedSourceRows m)))"
proof -
  let ?acc = "mAcceptedSourceRows m"
  let ?drop = "filter (\<lambda>i. lo \<le> ?acc ! i \<and> ?acc ! i \<le> hi) [0..<length ?acc]"
  have guards: "(\<not> True \<or> mSourceModel m = None) = False" "(hi < lo) = False" using assms(1,2) by simp_all
  have "emitted m' = emitted (fold remove_range (rev (coalesceRanges ?drop)) m)"
    unfolding m'_def OnSourceRowsRemoved_def Let_def guards by simp
  then have "emitted m' = emitted m @ removal_signals (rev (coalesceRanges ?drop))" by (simp add: emitted_remove_ranges)
  moreover have "replay (removal_signals (rev (coalesceRanges ?drop))) (map Some ?acc) = Some (foldr cut (coalesceRanges ?drop) (map Some ?acc))"
    by (rule replay_ranges) (simp_all add: sorted_wrt_filter)
  moreover have "foldr cut rs (map Some xs) = map Some (foldr cut rs xs)" for rs and xs :: "nat list"
    by (induction rs) (simp_all add: map_cut)
  ultimately show ?thesis using cut_matching [of "\<lambda>r. lo \<le> r \<and> r \<le> hi" ?acc] by simp
qed

end
