(* ===== verification/Filter_View_Persistent.thy ===== *)
theory Filter_View_Persistent
  imports Filter_View_Signals
begin

text \<open>
  What the view keeps of its users' selections: persistent indices follow their rows through
  rebuilding, sorting and the newest-first toggle, the sort follows its column, and a cached rank
  table is the one of the dictionary.
\<close>

section \<open>Rebuilding\<close>

lemma rebuilt_frame:
  "mPersistentIndexSnapshot (rebuilt e m) = mPersistentIndexSnapshot m"
  "mPersistentSourceIndexSnapshot (rebuilt e m) = mPersistentSourceIndexSnapshot m" "emitted (rebuilt e m) = emitted m"
proof -
  have recompute: "mPersistentIndexSnapshot (RecomputeAcceptedRows e m) = mPersistentIndexSnapshot m"
    "mPersistentSourceIndexSnapshot (RecomputeAcceptedRows e m) = mPersistentSourceIndexSnapshot m"
    "emitted (RecomputeAcceptedRows e m) = emitted m"
    by (simp_all add: RecomputeAcceptedRows_def Let_def split: option.split)
  have rank: "mPersistentIndexSnapshot (snd (sort_rank ex c lm m)) = mPersistentIndexSnapshot m"
    "mPersistentSourceIndexSnapshot (snd (sort_rank ex c lm m)) = mPersistentSourceIndexSnapshot m"
    "emitted (snd (sort_rank ex c lm m)) = emitted m" for ex c lm m
    by (simp_all add: sort_rank_def EnumRankFor_frame)
  have sorted: "mPersistentIndexSnapshot (sort_if_asked e m) = mPersistentIndexSnapshot m \<and>
    mPersistentSourceIndexSnapshot (sort_if_asked e m) = mPersistentSourceIndexSnapshot m \<and>
    emitted (sort_if_asked e m) = emitted m" for m
    using rank [of "eExternals e" "the (mSortColumn m)" "the (mLogModel m)" m]
    by (auto simp: sort_if_asked_def ApplySortPermutation_def Let_def split: option.split prod.split)
  show "mPersistentIndexSnapshot (rebuilt e m) = mPersistentIndexSnapshot m"
    "mPersistentSourceIndexSnapshot (rebuilt e m) = mPersistentSourceIndexSnapshot m" "emitted (rebuilt e m) = emitted m"
    using recompute sorted by (simp_all add: rebuilt_def RebuildReverseIndex_def)
qed

text \<open>Where an anchor in the source is shown.\<close>

lemma remapped_index_shown:
  assumes "view_inv m" "shows_rows_in_order ex m"
  shows "case remapped_index m (Some (s, col)) of
      None \<Rightarrow> s \<notin> accepted_set ex m
    | Some (p, c) \<Rightarrow> c = col \<and> p < view_rowCount m \<and> mAcceptedSourceRows m ! p = s \<and> s \<in> accepted_set ex m"
proof -
  have inv: "bounded_rows m" "length (mSourceRowToProxyRow m) = source_rowCount m"
    "\<And>p. s < source_rowCount m \<Longrightarrow> mSourceRowToProxyRow m ! s = Some p \<longleftrightarrow> p < view_rowCount m \<and> mAcceptedSourceRows m ! p = s"
    using assms(1) by (simp_all add: view_inv_def indexed_def view_rowCount_def)
  have shown: "s \<in> accepted_set ex m \<longleftrightarrow> (\<exists>p<view_rowCount m. mAcceptedSourceRows m ! p = s)"
    using assms(2) in_set_conv_nth [of s "mAcceptedSourceRows m"] by (auto simp: shows_rows_in_order_def view_rowCount_def)
  show ?thesis
  proof (cases "s < source_rowCount m")
    case True
    show ?thesis
    proof (cases "mSourceRowToProxyRow m ! s")
      case None
      then have "\<not> (p < view_rowCount m \<and> mAcceptedSourceRows m ! p = s)" for p using inv(3) [OF True, of p] by simp
      then show ?thesis using None True inv(2) shown by (auto simp: remapped_index_def)
    next
      case (Some p)
      then have "p < view_rowCount m \<and> mAcceptedSourceRows m ! p = s" using inv(3) [OF True, of p] by simp
      then show ?thesis using Some True inv(2) shown by (auto simp: remapped_index_def)
    qed
  next
    case False
    then show ?thesis using inv(2) by (simp add: remapped_index_def accepted_set_def)
  qed
qed

text \<open>The one call of \<open>changePersistentIndexList\<close>: every index goes to the row that shows its row of the source.\<close>

lemma Rebuild_persistent:
  assumes "connected m" "engine_ok e m" "ranks_known (eExternals e) m" "mSourceModel m = Some src" "raw \<noteq> []"
  defines "m' \<equiv> RebuildAcceptedRows e raw m"
  shows "\<exists>replacements. emitted m' = emitted m @ [LayoutAboutToBeChanged, ChangePersistentIndexList raw replacements, LayoutChanged] \<and>
    length replacements = length raw \<and>
    (\<forall>i<length raw. \<forall>row col. raw ! i = Some (row, col) \<and> row < view_rowCount m \<longrightarrow>
      (case replacements ! i of
         None \<Rightarrow> mAcceptedSourceRows m ! row \<notin> accepted_set (eExternals e) m
       | Some (p, c) \<Rightarrow> c = col \<and> p < view_rowCount m' \<and> mAcceptedSourceRows m' ! p = mAcceptedSourceRows m ! row))"
proof -
  let ?ex = "eExternals e" and ?m1 = "SnapshotPersistentIndices raw (emit LayoutAboutToBeChanged m)"
  define m2 where "m2 = rebuilt e ?m1"
  have a1: "agrees ?ex m ?m1" using agrees_trans [OF agrees_emit agrees_Snapshot] .
  have m2: "agrees ?ex ?m1 m2" "shows_rows_in_order ?ex m2" "view_inv m2"
    using rebuilt_shows [of ?m1 e src] agrees_conditions [OF a1] assms(1-4) by (simp_all add: m2_def)
  let ?repl = "map (remapped_index m2) (mPersistentSourceIndexSnapshot ?m1)"
  have snap: "mPersistentIndexSnapshot m2 = raw" "mPersistentSourceIndexSnapshot m2 = mPersistentSourceIndexSnapshot ?m1"
    "emitted m2 = emitted m @ [LayoutAboutToBeChanged]"
    by (simp_all add: m2_def rebuilt_frame) (simp_all add: SnapshotPersistentIndices_def)
  have "m' = emit LayoutChanged (RemapPersistentIndicesForRebuild m2)"
    using Rebuild_rebuilt [of m e raw] assms(4) by (simp add: m'_def m2_def)
  then have m': "emitted m' = emitted m @ [LayoutAboutToBeChanged, ChangePersistentIndexList raw ?repl, LayoutChanged]"
    "mAcceptedSourceRows m' = mAcceptedSourceRows m2"
    using snap assms(5) by (simp_all add: RemapPersistentIndicesForRebuild_def Let_def emit_def)
  have set: "accepted_set ?ex m2 = accepted_set ?ex m" using agrees_rows(6) [OF m2(1)] agrees_rows(6) [OF a1] by simp
  have anchor: "mPersistentSourceIndexSnapshot ?m1 ! i = Some (mAcceptedSourceRows m ! row, col)" "i < length (mPersistentSourceIndexSnapshot ?m1)"
    if "i < length raw" "raw ! i = Some (row, col)" "row < view_rowCount m" for i row col
    using that assms(4) by (simp_all add: SnapshotPersistentIndices_def view_rowCount_def)
  have "case ?repl ! i of
         None \<Rightarrow> mAcceptedSourceRows m ! row \<notin> accepted_set ?ex m
       | Some (p, c) \<Rightarrow> c = col \<and> p < view_rowCount m' \<and> mAcceptedSourceRows m' ! p = mAcceptedSourceRows m ! row"
    if "i < length raw" "raw ! i = Some (row, col)" "row < view_rowCount m" for i row col
    using remapped_index_shown [OF m2(3,2), of "mAcceptedSourceRows m ! row" col] anchor [OF that] m'(2) set
    by (auto simp: view_rowCount_def split: option.splits)
  moreover have "length ?repl = length raw" by (simp add: SnapshotPersistentIndices_def)
  ultimately show ?thesis using m'(1) by blast
qed

section \<open>The newest-first toggle\<close>

text \<open>The source of the view in the application: the newest-first layer on the log model.\<close>

definition order_proxy :: "nat \<times> nat \<Rightarrow> RowOrderProxyModel \<Rightarrow> proxy" where
  "order_proxy size_of o_model = \<lparr>toSource = order_to size_of o_model, fromSource = order_from size_of o_model\<rparr>"

definition order_source :: "nat \<times> nat \<Rightarrow> RowOrderProxyModel \<Rightarrow> SourceModel" where
  "order_source size_of o_model =
     \<lparr>sourceRows = fst size_of, sourceColumns = snd size_of, proxyChain = [order_proxy size_of o_model], endsAtLogModel = True\<rparr>"

lemma order_rows:
  assumes "mSourceModel m = Some (order_source (rows, columns) o_model)" "mLogModel m = Some lm" "0 < columns"
    and "rows = RowCount (lmTable lm)" "columns = length (model_columns lm)"
  shows "SourceRowToLogRow m r = order_to (rows, columns) o_model r" "l < rows \<Longrightarrow> LogRowToSourceRow m l = order_from (rows, columns) o_model l"
  using assms by (auto simp: SourceRowToLogRow_def LogRowToSourceRow_def mProxyChainAbove_def order_source_def order_proxy_def split: option.split)

lemma connected_order:
  assumes "mSourceModel m = Some (order_source (rows, columns) o_model)" "mLogModel m = Some lm" "0 < columns"
    and "rows = RowCount (lmTable lm)" "columns = length (model_columns lm)"
  shows "connected m"
proof -
  have to: "(\<lambda>r. if r < rows then SourceRowToLogRow m r else None) = order_to (rows, columns) o_model"
    using order_rows(1) [OF assms] by (auto simp: order_to_eq assms(3))
  have froms: "(\<lambda>l. if l < rows then LogRowToSourceRow m l else None) = order_from (rows, columns) o_model"
    using order_rows(2) [OF assms] by (auto simp: order_from_eq)
  have sizes: "sourceRows (order_source (rows, columns) o_model) = rows" by (simp add: order_source_def)
  have "connected m \<longleftrightarrow> row_proxy rows rows (\<lambda>r. if r < rows then SourceRowToLogRow m r else None) (\<lambda>l. if l < rows then LogRowToSourceRow m l else None)"
    unfolding connected_def assms(1,2) option.case prod.case sizes assms(4) [symmetric] by simp
  then show ?thesis unfolding to froms using row_proxy_order [OF assms(3)] by simp
qed

text \<open>Qt applies the layer's \<open>changePersistentIndexList\<close> to the anchors, which it holds.\<close>

definition follow :: "model_index list \<Rightarrow> model_index list \<Rightarrow> model_index \<Rightarrow> model_index" where
  "follow old new idx = (case map_of (zip old new) idx of None \<Rightarrow> idx | Some idx' \<Rightarrow> idx')"

text \<open>The toggle as the signals pass from the layer to the view.\<close>

definition toggle :: "engine \<Rightarrow> model_index list \<Rightarrow> nat \<times> nat \<Rightarrow> RowOrderProxyModel \<Rightarrow> LogFilterModel \<Rightarrow> LogFilterModel" where
  "toggle e raw size_of o_model m =
     (let m1 = OnSourceLayoutAboutToBeChanged raw m;
          anchors = mPersistentSourceIndexSnapshot m1;
          (o_model', signals) = order_SetReversed (Some size_of) anchors (\<not> mReversed o_model) o_model;
          moved = (case signals of [_, ChangePersistentIndexList old new, _] \<Rightarrow> map (follow old new) anchors | _ \<Rightarrow> anchors)
      in OnSourceLayoutChanged e
           (m1\<lparr>mSourceModel := Some (order_source size_of o_model'), mPersistentSourceIndexSnapshot := moved\<rparr>))"

lemma map_of_zip_map_in: "x \<in> set xs \<Longrightarrow> map_of (zip xs (map f xs)) x = Some (f x)"
  by (induction xs) auto

lemma toggle_keeps_rows:
  assumes src: "mSourceModel m = Some (order_source (rows, columns) o_model)" and lm: "mLogModel m = Some lm" "0 < columns"
    "rows = RowCount (lmTable lm)" "columns = length (model_columns lm)"
    and ok: "engine_ok e m" "ranks_known (eExternals e) m" "shows_rows_in_order (eExternals e) m" and raw: "raw \<noteq> []"
  defines "m' \<equiv> toggle e raw (rows, columns) o_model m"
  shows "\<exists>replacements. emitted m' = emitted m @ [LayoutAboutToBeChanged, ChangePersistentIndexList raw replacements, LayoutChanged] \<and>
    length replacements = length raw \<and>
    (\<forall>i<length raw. \<forall>row col. raw ! i = Some (row, col) \<and> row < view_rowCount m \<longrightarrow>
      (\<exists>p<view_rowCount m'. replacements ! i = Some (p, col) \<and>
         SourceRowToLogRow m' (mAcceptedSourceRows m' ! p) = SourceRowToLogRow m (mAcceptedSourceRows m ! row)))"
proof -
  let ?ex = "eExternals e" and ?mirror = "\<lambda>idx. case idx of None \<Rightarrow> None | Some (row, column) \<Rightarrow> if rows = 0 then idx else Some (rows - 1 - row, column)"
  define o' where "o' = o_model\<lparr>mReversed := \<not> mReversed o_model\<rparr>"
  define m1 where "m1 = SnapshotPersistentIndices raw (emit LayoutAboutToBeChanged m)"
  define anchors where "anchors = mPersistentSourceIndexSnapshot m1"
  define m2 where "m2 = m1\<lparr>mSourceModel := Some (order_source (rows, columns) o'), mPersistentSourceIndexSnapshot := map ?mirror anchors\<rparr>"
  have ne: "anchors \<noteq> []" using raw by (simp add: anchors_def m1_def SnapshotPersistentIndices_def)
  have "map (follow anchors (map ?mirror anchors)) anchors = map ?mirror anchors"
    by (rule map_cong [OF refl]) (simp add: follow_def map_of_zip_map_in)
  moreover have "order_SetReversed (Some (rows, columns)) anchors (\<not> mReversed o_model) o_model =
      (o', [LayoutAboutToBeChanged, ChangePersistentIndexList anchors (map ?mirror anchors), LayoutChanged])"
    using ne by (simp add: order_SetReversed_def order_rowCount_def o'_def Let_def)
  ultimately have "m' = OnSourceLayoutChanged e m2"
    unfolding m'_def toggle_def OnSourceLayoutAboutToBeChanged_def m1_def [symmetric] anchors_def [symmetric] Let_def m2_def
    by (simp only: prod.case list.case signal.case)
  then have m': "m' = emit LayoutChanged (RemapPersistentIndicesForRebuild (rebuilt e m2))"
    by (simp add: OnSourceLayoutChanged_def rebuilt_def m2_def)
  have frame: "mLogModel m2 = Some lm" "mSourceModel m2 = Some (order_source (rows, columns) o')" "mSortColumn m2 = mSortColumn m"
    "mCompiledExpression m2 = mCompiledExpression m" "mEnumRanks m2 = mEnumRanks m" "mLogModel m2 = mLogModel m"
    using lm(1) by (simp_all add: m2_def m1_def SnapshotPersistentIndices_def)
  have "connected m2" by (rule connected_order [OF frame(2,1) lm(2-4)])
  moreover have "engine_ok e m2" using ok(1) frame by (simp add: engine_ok_def)
  moreover have "ranks_known ?ex m2" using ok(2) frame sort_rank_cong(1) [OF frame(6,5)] by (simp add: ranks_known_def)
  ultimately have r: "agrees ?ex m2 (rebuilt e m2)" "shows_rows_in_order ?ex (rebuilt e m2)" "view_inv (rebuilt e m2)"
    using rebuilt_shows [of m2 e] frame(2) by blast+
  let ?r = "rebuilt e m2"
  have log: "SourceRowToLogRow m s = order_to (rows, columns) o_model s" "SourceRowToLogRow m2 s = order_to (rows, columns) o' s"
    "SourceRowToLogRow ?r s = order_to (rows, columns) o' s" for s
    using order_rows(1) [OF src lm] order_rows(1) [OF frame(2,1) lm(2-4)] agrees_rows(1) [OF r(1)] by simp_all
  have mirrored: "order_to (rows, columns) o' (rows - 1 - s) = order_to (rows, columns) o_model s" if "s < rows" for s
    using that lm(2) by (auto simp: order_to_eq o'_def)
  have accepted: "rows - 1 - s \<in> accepted_set ?ex ?r" if "s \<in> accepted_set ?ex m" for s
  proof -
    have s: "s < rows" "MatchesRulesAtSourceRow ?ex m s" using that src by (simp_all add: accepted_set_def source_rowCount_def order_source_def)
    have "MatchesRulesAtSourceRow ?ex m2 (rows - 1 - s) = MatchesRulesAtSourceRow ?ex m s"
      using frame lm(1) log mirrored [OF s(1)] by (simp add: MatchesRulesAtSourceRow_def split: option.split)
    then show ?thesis using s frame(2) agrees_rows(6) [OF r(1)] by (simp add: accepted_set_def source_rowCount_def order_source_def)
  qed
  let ?repl = "map (remapped_index ?r) (map ?mirror anchors)"
  have "emitted m2 = emitted m @ [LayoutAboutToBeChanged]" "mPersistentIndexSnapshot m2 = raw"
    by (simp_all add: m2_def m1_def SnapshotPersistentIndices_def)
  then have em: "emitted m' = emitted m @ [LayoutAboutToBeChanged, ChangePersistentIndexList raw ?repl, LayoutChanged]"
    "mAcceptedSourceRows m' = mAcceptedSourceRows ?r"
    using m' raw by (simp_all add: RemapPersistentIndicesForRebuild_def Let_def emit_def rebuilt_frame) (simp add: m2_def)
  have "mSourceModel m' = mSourceModel ?r" "mLogModel m' = mLogModel ?r"
    using m' by (simp_all add: RemapPersistentIndicesForRebuild_def Let_def)
  then have log': "SourceRowToLogRow m' s = order_to (rows, columns) o' s" for s using log(3) by (simp add: SourceRowToLogRow_def)
  have "\<exists>p<view_rowCount m'. ?repl ! i = Some (p, col) \<and>
      SourceRowToLogRow m' (mAcceptedSourceRows m' ! p) = SourceRowToLogRow m (mAcceptedSourceRows m ! row)"
    if i: "i < length raw" "raw ! i = Some (row, col)" "row < view_rowCount m" for i row col
  proof -
    let ?s = "mAcceptedSourceRows m ! row"
    have s: "?s \<in> accepted_set ?ex m" using ok(3) i(3) nth_mem by (force simp: shows_rows_in_order_def view_rowCount_def)
    then have "?s < rows" using src by (simp add: accepted_set_def source_rowCount_def order_source_def)
    moreover have "anchors ! i = Some (?s, col)" "length anchors = length raw"
      using i src by (simp_all add: anchors_def m1_def SnapshotPersistentIndices_def view_rowCount_def)
    ultimately have "?repl ! i = remapped_index ?r (Some (rows - 1 - ?s, col))" using i(1) by simp
    moreover have "rows - 1 - ?s \<in> accepted_set ?ex ?r" by (rule accepted [OF s])
    ultimately obtain p where "?repl ! i = Some (p, col)" "p < view_rowCount ?r" "mAcceptedSourceRows ?r ! p = rows - 1 - ?s"
      using remapped_index_shown [OF r(3,2), of "rows - 1 - ?s" col] by (auto split: option.splits)
    then show ?thesis using em(2) log' log(1) mirrored [OF \<open>?s < rows\<close>] by (intro exI [of _ p]) (simp add: view_rowCount_def)
  qed
  moreover have "length ?repl = length raw" by (simp add: anchors_def m1_def SnapshotPersistentIndices_def)
  ultimately show ?thesis using em(1) by blast
qed

end
