(* ===== verification/Filter_View_Columns.thy ===== *)
theory Filter_View_Columns
  imports Filter_View_Persistent
begin

text \<open>
  The sort of the view: its column follows the columns of the source, its rank tables are those of
  the dictionaries, and rows that compare equal stay in the order in which they were shown.
\<close>

section \<open>The sort column\<close>

text \<open>What \<open>moveColumns\<close> does to the columns: the block goes in front of the column that was at \<open>dest\<close>.\<close>

definition moved_block :: "nat \<Rightarrow> nat \<Rightarrow> nat \<Rightarrow> 'a list \<Rightarrow> 'a list" where
  "moved_block from_col to_last dest xs =
     (let block = take (to_last - from_col + 1) (drop from_col xs)
      in if dest \<le> from_col then take dest xs @ block @ drop dest (take from_col xs) @ drop (to_last + 1) xs
         else take from_col xs @ drop (to_last + 1) (take dest xs) @ block @ drop dest xs)"

lemma sort_column_follows_move:
  assumes "from_col \<le> to_last" "to_last < length xs" "dest \<le> length xs" "dest < from_col \<or> to_last + 1 < dest" "c < length xs"
  shows "moved_block from_col to_last dest xs ! sort_column_after_move from_col to_last dest c = xs ! c"
proof (cases "dest < from_col")
  case True
  consider "c < dest" | "dest \<le> c" "c < from_col" | "from_col \<le> c" "c \<le> to_last" | "to_last < c" by linarith
  then show ?thesis
  proof cases
    case 2
    let ?A = "take dest xs" and ?B = "take (to_last - from_col + 1) (drop from_col xs)"
      and ?R = "drop dest (take from_col xs) @ drop (to_last + 1) xs"
    have len: "length ?A = dest" "length ?B = to_last - from_col + 1" using assms(1-3) by simp_all
    have "sort_column_after_move from_col to_last dest c = length ?A + (length ?B + (c - dest))"
      unfolding len using 2 assms(1) True by (simp add: sort_column_after_move_def Let_def)
    moreover have "moved_block from_col to_last dest xs = ?A @ ?B @ ?R" using True by (simp add: moved_block_def Let_def)
    ultimately have "moved_block from_col to_last dest xs ! sort_column_after_move from_col to_last dest c = ?R ! (c - dest)"
      by (simp only: nth_append_length_plus)
    moreover have "c - dest < from_col - dest" using 2 by linarith
    ultimately show ?thesis using 2 assms True by (simp add: nth_append)
  qed (use assms True in \<open>auto simp: moved_block_def sort_column_after_move_def Let_def nth_append min_def\<close>)
next
  case False
  then have dest: "to_last + 1 < dest" using assms(4) by simp
  consider "c < from_col" | "from_col \<le> c" "c \<le> to_last" | "to_last < c" "c < dest" | "dest \<le> c" by linarith
  then show ?thesis
  proof cases
    case 2
    let ?A = "take from_col xs" and ?Z = "drop (to_last + 1) (take dest xs)" and ?B = "take (to_last - from_col + 1) (drop from_col xs)"
    have len: "length ?A = from_col" "length ?Z = dest - (to_last + 1)" using assms(1-3) by simp_all
    have "sort_column_after_move from_col to_last dest c = length ?A + (length ?Z + (c - from_col))"
      unfolding len using 2 assms(1) dest by (simp add: sort_column_after_move_def Let_def)
    moreover have "moved_block from_col to_last dest xs = ?A @ ?Z @ ?B @ drop dest xs" using dest assms(1) by (simp add: moved_block_def Let_def)
    ultimately have "moved_block from_col to_last dest xs ! sort_column_after_move from_col to_last dest c = (?B @ drop dest xs) ! (c - from_col)"
      by (simp only: nth_append_length_plus)
    moreover have "c - from_col < to_last - from_col + 1" using 2 by linarith
    ultimately show ?thesis using 2 assms dest by (simp add: nth_append)
  qed (use assms dest in \<open>auto simp: moved_block_def sort_column_after_move_def Let_def nth_append min_def\<close>)
qed

lemma sort_column_follows_insert:
  assumes "lo \<le> length xs" "length new = hi - lo + 1" "mSortColumn m = Some c" "c < length xs"
  shows "\<exists>c'. mSortColumn (OnSourceColumnsInserted True lo hi m) = Some c' \<and> insert_at lo new xs ! c' = xs ! c"
  using assms by (auto simp: OnSourceColumnsInserted_def insert_at_def nth_append Let_def)

lemma sort_column_follows_removal:
  assumes "lo \<le> hi" "hi < length xs" "mSortColumn m = Some c" "c < length xs"
  shows "case mSortColumn (OnSourceColumnsRemoved True lo hi m) of
      None \<Rightarrow> lo \<le> c \<and> c \<le> hi
    | Some c' \<Rightarrow> \<not> (lo \<le> c \<and> c \<le> hi) \<and> cut (lo, hi) xs ! c' = xs ! c"
  using assms by (auto simp: OnSourceColumnsRemoved_def cut_def nth_append Let_def)

section \<open>Rank tables\<close>

text \<open>An entry that the lookup would still use is the table of the dictionary.\<close>

definition ranks_fresh :: "externals \<Rightarrow> LogFilterModel \<Rightarrow> bool" where
  "ranks_fresh ex m \<longleftrightarrow>
     (\<forall>lm c key entry d. mLogModel m = Some lm \<longrightarrow> ResolveEnumColumn ex (lmTable lm) c = (key, Some d) \<longrightarrow>
        mEnumRanks m key = Some entry \<longrightarrow> erSource entry = dictionaryAddress lm key \<longrightarrow> dict_Size d \<le> DictSize (erRank entry) \<longrightarrow>
        erRank entry = make_EnumDictRank d)"

lemma ResolveEnumColumn_dict:
  "ResolveEnumColumn ex t c = (key, Some d) \<Longrightarrow> reg_Find (tEnumDictionaries t) key = Some d \<and> key \<noteq> INVALID_KEY_ID"
  by (auto simp: ResolveEnumColumn_def Let_def split: if_splits)

lemma EnumRankFor_fresh:
  assumes "ranks_fresh ex m" "mLogModel m = Some lm" "ResolveEnumColumn ex (lmTable lm) c = (key, Some d)"
  shows "fst (EnumRankFor ex c m) = Some (make_EnumDictRank d) \<and> ranks_fresh ex (snd (EnumRankFor ex c m))"
proof -
  let ?fresh = "\<lparr>erRank = make_EnumDictRank d, erSource = dictionaryAddress lm key\<rparr>"
  have key: "key \<noteq> INVALID_KEY_ID" "reg_Find (tEnumDictionaries (lmTable lm)) key = Some d"
    using ResolveEnumColumn_dict [OF assms(3)] by simp_all
  show "fst (EnumRankFor ex c m) = Some (make_EnumDictRank d) \<and> ranks_fresh ex (snd (EnumRankFor ex c m))"
  proof (cases "\<exists>entry. mEnumRanks m key = Some entry \<and> erSource entry = dictionaryAddress lm key \<and> dict_Size d \<le> DictSize (erRank entry)")
    case True
    then obtain entry where hit: "mEnumRanks m key = Some entry" "erSource entry = dictionaryAddress lm key"
      "dict_Size d \<le> DictSize (erRank entry)" by blast
    then have "erRank entry = make_EnumDictRank d" using assms unfolding ranks_fresh_def by blast
    then show ?thesis using hit assms key(1) by (simp add: EnumRankFor_def Let_def)
  next
    case False
    then have miss: "EnumRankFor ex c m = (Some (make_EnumDictRank d), m\<lparr>mEnumRanks := (mEnumRanks m)(key \<mapsto> ?fresh)\<rparr>)"
      using assms(2,3) key(1) by (cases "mEnumRanks m key") (auto simp: EnumRankFor_def Let_def)
    have "erRank entry = make_EnumDictRank d'"
      if "ResolveEnumColumn ex (lmTable lm) c' = (key', Some d')" "((mEnumRanks m)(key \<mapsto> ?fresh)) key' = Some entry"
        "erSource entry = dictionaryAddress lm key'" "dict_Size d' \<le> DictSize (erRank entry)" for c' key' d' entry
    proof (cases "key' = key")
      case True
      then show ?thesis using that ResolveEnumColumn_dict [OF that(1)] key(2) by auto
    next
      case False
      then show ?thesis using that assms(1,2) unfolding ranks_fresh_def by simp
    qed
    then show ?thesis unfolding miss using assms(2) by (simp add: ranks_fresh_def)
  qed
qed

text \<open>So the ids of a column are known to the rank that a sort by it uses.\<close>

lemma ranks_known_fresh:
  assumes "ranks_fresh ex m"
    and "\<And>lm c key d row vid. mLogModel m = Some lm \<Longrightarrow> mSortColumn m = Some c \<Longrightarrow> ResolveEnumColumn ex (lmTable lm) c = (key, Some d) \<Longrightarrow>
      GetEnumValueId (lmTable lm) row c = Some vid \<Longrightarrow> dict_inv d \<and> unat vid < length (mValues d)"
  shows "ranks_known ex m"
  unfolding ranks_known_def
proof (intro allI impI)
  fix c lm r row vid
  assume a: "mSortColumn m = Some c" "mLogModel m = Some lm" "fst (sort_rank ex c lm m) = Some r" "GetEnumValueId (lmTable lm) row c = Some vid"
  then have rank: "fst (EnumRankFor ex c m) = Some r" by (simp add: sort_rank_def split: if_splits)
  then obtain key d where d: "ResolveEnumColumn ex (lmTable lm) c = (key, Some d)"
    using a(2) by (auto simp: EnumRankFor_def split: prod.splits option.splits)
  then have "r = make_EnumDictRank d" using EnumRankFor_fresh [OF assms(1) a(2) d] rank by simp
  moreover have "dict_inv d \<and> unat vid < length (mValues d)" by (rule assms(2) [OF a(2,1) d a(4)])
  ultimately show "RankOf r vid < DictSize r" using RankOf_known by blast
qed

section \<open>Ties\<close>

text \<open>
  Rows that a column does not tell apart stay in the order in which they were shown, so a second sort
  keeps the order of the first one among them; rebuilding the same view returns them to the order of
  the source.
\<close>

lemma sorted_perm_id:
  assumes "mset P = mset [0..<n]" "sorted_wrt (<) P"
  shows "P = [0..<n]"
proof -
  have "sorted P" using assms(2) by (simp add: strict_sorted_iff)
  then show ?thesis using assms(1) properties_for_sort [of P "[0..<n]"] by simp
qed

lemma sort_keeps_ties:
  assumes "is_parallel_sort (eParallelSort e)" "ranks_known (eExternals e) (m\<lparr>mSortColumn := Some c, mSortAscending := ascending\<rparr>)"
    and "mSourceModel m = Some src" "mLogModel m = Some lm"
    and "\<And>i j. CompareRows (eExternals e) (lmTable lm) i j c (fst (sort_rank (eExternals e) c lm m)) = 0"
  shows "mAcceptedSourceRows (view_sort e raw (Some c) ascending m) = mAcceptedSourceRows m"
proof -
  let ?ex = "eExternals e"
  define m1 where "m1 = (SnapshotPersistentIndices raw (emit LayoutAboutToBeChanged m))\<lparr>mSortColumn := Some c, mSortAscending := ascending\<rparr>"
  have m1: "mLogModel m1 = Some lm" "mSortColumn m1 = Some c" "mAcceptedSourceRows m1 = mAcceptedSourceRows m" "mEnumRanks m1 = mEnumRanks m"
    "mSortAscending m1 = ascending" using assms(4) by (simp_all add: m1_def SnapshotPersistentIndices_def)
  have rank: "fst (sort_rank ?ex c lm m1) = fst (sort_rank ?ex c lm m)"
    "fst (sort_rank ?ex c lm (m\<lparr>mSortColumn := Some c, mSortAscending := ascending\<rparr>)) = fst (sort_rank ?ex c lm m)"
    using m1 assms(4) by (auto intro!: sort_rank_cong(1))
  have "mAcceptedSourceRows (ApplySortPermutation e m1) = mAcceptedSourceRows m"
  proof (cases "c < length (model_columns lm) \<and> 1 < length (mAcceptedSourceRows m1)")
    case True
    define logRows where "logRows = map (\<lambda>r. case SourceRowToLogRow m1 r of Some l \<Rightarrow> l | None \<Rightarrow> 0) (mAcceptedSourceRows m1)"
    let ?r = "fst (sort_rank ?ex c lm m1)"
    define P where "P = SortPermutationByColumn (eParallelSort e) ?ex (lmTable lm) logRows c ascending ?r"
    have known: "RankOf r vid < DictSize r" if "?r = Some r" "GetEnumValueId (lmTable lm) row c = Some vid" for r row vid
      using assms(2,4) that rank by (simp add: ranks_known_def)
    have "mset P = mset [0..<length logRows] \<and> sorted_wrt (rows_less ascending ?ex (lmTable lm) logRows c ?r) P"
      unfolding P_def by (rule SortPermutationByColumn_sorts [OF assms(1)]) (use known in auto)
    moreover have "rows_less ascending ?ex (lmTable lm) logRows c ?r = (<)"
      using assms(5) rank(1) by (intro ext) (simp add: rows_less_def)
    ultimately have "P = [0..<length logRows]" by (intro sorted_perm_id) simp_all
    moreover have "mAcceptedSourceRows (ApplySortPermutation e m1) = map ((!) (mAcceptedSourceRows m1)) P"
      using ApplySortPermutation_frame [of m1 lm c e] m1 True by (simp add: P_def logRows_def)
    ultimately show ?thesis using m1(3) map_nth [of "mAcceptedSourceRows m1"] by (simp add: logRows_def)
  next
    case False
    then show ?thesis using ApplySortPermutation_trivial [of m1 e] m1 by (auto simp: not_less)
  qed
  then show ?thesis using assms(3) by (simp add: view_sort_def Let_def m1_def)
qed

end
