(* ===== verification/Filter_View_Table.thy ===== *)
theory Filter_View_Table
  imports Filter_View_Columns
begin

text \<open>
  From the table to the view: when the table appends rows or evicts its first ones, and the
  newest-first layer announces it, the slots of the view leave what rebuilding would leave.
\<close>

section \<open>Rows that read alike\<close>

definition same_setup :: "LogTable \<Rightarrow> LogTable \<Rightarrow> bool" where
  "same_setup t t' \<longleftrightarrow>
     mConfiguration t' = mConfiguration t \<and> mKeys t' = mKeys t \<and> tEnumDictionaries t' = tEnumDictionaries t \<and>
     mLevelRankCache t' = mLevelRankCache t"

definition same_row :: "LogTable \<Rightarrow> LogTable \<Rightarrow> nat \<Rightarrow> nat \<Rightarrow> bool" where
  "same_row t t' r r' \<longleftrightarrow>
     (\<forall>c. GetValue t' r' c = GetValue t r c \<and> GetEnumValueId t' r' c = GetEnumValueId t r c \<and>
       out_of_table t' r' c = out_of_table t r c)"

lemma same_setup_reads:
  assumes "same_setup t t'"
  shows "tcolumns t' = tcolumns t" "ResolveEnumColumn ex t' c = ResolveEnumColumn ex t c" "LevelRankCache ex t' c = LevelRankCache ex t c"
  using assms by (simp_all add: same_setup_def ResolveEnumColumn_def LevelRankCache_def find_key_def Let_def)

lemma same_row_reads:
  assumes "same_setup t t'" "same_row t t' r r'"
  shows "GetFormattedValue ex t' r' c = GetFormattedValue ex t r c" "GetValueOrFormatted ex t' r' c = GetValueOrFormatted ex t r c"
    "GetLevelForRow ex t' r' c = GetLevelForRow ex t r c"
proof -
  have reads: "GetValue t' r' c = GetValue t r c" "GetEnumValueId t' r' c = GetEnumValueId t r c" "out_of_table t' r' c = out_of_table t r c" for c
    using assms(2) by (simp_all add: same_row_def)
  note setting = same_setup_reads [OF assms(1)]
  show "GetFormattedValue ex t' r' c = GetFormattedValue ex t r c" unfolding GetFormattedValue_def reads setting ..
  show "GetValueOrFormatted ex t' r' c = GetValueOrFormatted ex t r c" unfolding GetValueOrFormatted_def reads setting ..
  show "GetLevelForRow ex t' r' c = GetLevelForRow ex t r c" unfolding GetLevelForRow_def GetDisplayLevelForRow_def reads setting ..
qed

lemma same_row_matches:
  assumes "same_setup t t'" "same_row t t' r r'"
  shows "MatchesRow ex p t' r' = MatchesRow ex p t r"
proof -
  have reads: "GetValue t' r' c = GetValue t r c" "GetEnumValueId t' r' c = GetEnumValueId t r c" for c
    using assms(2) by (simp_all add: same_row_def)
  show ?thesis
    unfolding MatchesRow_def match_enum_def match_selected_string_def match_time_def match_numeric_def match_bool_def match_callback_def
      reads same_row_reads [OF assms] ..
qed

lemma same_row_evaluates:
  assumes "same_setup t t'" "same_row t t' r r'"
  shows "EvaluateExpression ex e t' r' = EvaluateExpression ex e t r"
proof -
  have "(\<And>p. MatchesRow ex p t' r' = MatchesRow ex p t r) \<Longrightarrow> EvaluateExpression ex e t' r' = EvaluateExpression ex e t r"
    by (induction ex e t r rule: EvaluateExpression.induct) (auto simp: list_all_iff list_ex_iff)
  then show ?thesis using same_row_matches [OF assms] by blast
qed

lemma same_row_compares:
  assumes "same_setup t t'" "same_row t t' a a'" "same_row t t' b b'" "a = b \<longleftrightarrow> a' = b'"
  shows "CompareRows ex t' a' b' c rank = CompareRows ex t a b c rank"
proof -
  have reads: "GetValue t' a' c = GetValue t a c" "GetValue t' b' c = GetValue t b c" "GetEnumValueId t' a' c = GetEnumValueId t a c"
    "GetEnumValueId t' b' c = GetEnumValueId t b c" for c
    using assms(2,3) by (simp_all add: same_row_def)
  have bytes: "CompareLogValuesBytewise ex t' a' b' c = CompareLogValuesBytewise ex t a b c"
    unfolding CompareLogValuesBytewise_def formatted_def reads same_row_reads(1) [OF assms(1,2)] same_row_reads(1) [OF assms(1,3)] ..
  have others: "CompareEnum ex t' a' b' c rank = CompareEnum ex t a b c rank" "CompareString ex t' a' b' c = CompareString ex t a b c"
    "CompareLevel ex t' a' b' c = CompareLevel ex t a b c"
    unfolding CompareEnum_def CompareString_def CompareLevel_def reads bytes same_row_reads(3) [OF assms(1,2)] same_row_reads(3) [OF assms(1,3)]
    by (rule refl)+
  show ?thesis unfolding CompareRows_def assms(4) [symmetric] reads same_setup_reads(1) [OF assms(1)] others ..
qed

section \<open>Views that read alike\<close>

text \<open>\<open>m\<close> looks at the table of \<open>m0\<close> after a change that left its set-up.\<close>

definition same_view :: "LogFilterModel \<Rightarrow> LogFilterModel \<Rightarrow> LogModel \<Rightarrow> LogModel \<Rightarrow> bool" where
  "same_view m0 m lm0 lm \<longleftrightarrow>
     mLogModel m0 = Some lm0 \<and> mLogModel m = Some lm \<and> same_setup (lmTable lm0) (lmTable lm) \<and>
     dictionaryAddress lm = dictionaryAddress lm0 \<and> mCompiledExpression m = mCompiledExpression m0 \<and>
     mSortColumn m = mSortColumn m0 \<and> mSortAscending m = mSortAscending m0 \<and> mEnumRanks m = mEnumRanks m0"

lemma same_view_rank:
  assumes "same_view m0 m lm0 lm"
  shows "fst (sort_rank ex c lm m) = fst (sort_rank ex c lm0 m0)"
proof -
  have "tcolumns (lmTable lm) = tcolumns (lmTable lm0)" "ResolveEnumColumn ex (lmTable lm) c = ResolveEnumColumn ex (lmTable lm0) c"
    using assms same_setup_reads [of "lmTable lm0" "lmTable lm"] by (simp_all add: same_view_def)
  then show ?thesis using assms
    by (simp add: sort_rank_def model_columns_def EnumRankFor_def same_view_def Let_def split: option.split prod.split)
qed

text \<open>Rows of the two views that stand for rows of the tables that read alike.\<close>

lemma same_view_rows:
  assumes "same_view m0 m lm0 lm" "SourceRowToLogRow m0 r = Some a" "SourceRowToLogRow m r' = Some a'" "same_row (lmTable lm0) (lmTable lm) a a'"
  shows "MatchesRulesAtSourceRow ex m r' = MatchesRulesAtSourceRow ex m0 r"
  using assms same_row_evaluates [of "lmTable lm0" "lmTable lm" a a' ex "mCompiledExpression m0"]
  by (simp add: MatchesRulesAtSourceRow_def same_view_def)

lemma same_view_less:
  assumes "same_view m0 m lm0 lm" "SourceRowToLogRow m0 r = Some a" "SourceRowToLogRow m r' = Some a'" "same_row (lmTable lm0) (lmTable lm) a a'"
    and "SourceRowToLogRow m0 s = Some b" "SourceRowToLogRow m s' = Some b'" "same_row (lmTable lm0) (lmTable lm) b b'"
    and "r < s \<longleftrightarrow> r' < s'" "a = b \<longleftrightarrow> a' = b'"
  shows "LessThanSourceRows ex m r' s' = LessThanSourceRows ex m0 r s"
proof -
  have same_conf: "same_setup (lmTable lm0) (lmTable lm)" using assms(1) by (simp add: same_view_def)
  have cmp: "CompareRows ex (lmTable lm) a' b' c rank = CompareRows ex (lmTable lm0) a b c rank" for c rank
    by (rule same_row_compares [OF same_conf assms(4,7,9)])
  have columns: "model_columns lm = model_columns lm0" using same_setup_reads(1) [OF same_conf] by (simp add: model_columns_def)
  show ?thesis
    using assms(1-3,5,6,8) cmp columns same_view_rank [OF assms(1), of ex]
    by (simp add: LessThanSourceRows_def same_view_def split: option.split)
qed

section \<open>Appended rows\<close>

definition appended :: "(LogLine \<times> nat) list \<Rightarrow> LogModel \<Rightarrow> LogModel" where
  "appended new lm = lm\<lparr>lmTable := (lmTable lm)\<lparr>mRows := mRows (lmTable lm) @ new\<rparr>\<rparr>"

lemma appended_reads:
  shows "same_setup (lmTable lm) (lmTable (appended new lm))" "RowCount (lmTable (appended new lm)) = RowCount (lmTable lm) + length new"
    "model_columns (appended new lm) = model_columns lm" "dictionaryAddress (appended new lm) = dictionaryAddress lm"
  by (simp_all add: appended_def same_setup_def RowCount_def model_columns_def)

lemma appended_row: "r < RowCount (lmTable lm) \<Longrightarrow> same_row (lmTable lm) (lmTable (appended new lm)) r r"
  by (simp add: same_row_def appended_def RowCount_def GetValue_def GetEnumValueId_def out_of_table_def source_at_def nth_append split: prod.split)

lemma rows_inserted_appended:
  assumes src: "mSourceModel m0 = Some (order_source (n, columns) o_model)" "mLogModel m0 = Some lm" "0 < columns"
      "n = RowCount (lmTable lm)" "columns = length (model_columns lm)"
    and new: "new \<noteq> []" "order_rowsAboutToBeInserted True n (n + length new - 1) o_model = [BeginInsertRows lo hi]"
  defines "m \<equiv> m0\<lparr>mSourceModel := Some (order_source (n + length new, columns) o_model), mLogModel := Some (appended new lm)\<rparr>"
  shows "rows_inserted ex lo (hi - lo + 1) m0 m" "lo \<le> hi" "connected m"
proof -
  have range: "lo = (if mReversed o_model then 0 else n)" "hi - lo + 1 = length new" "lo \<le> hi"
    using new by (cases new; auto simp: order_rowsAboutToBeInserted_def split: if_splits)+
  have mm: "mSourceModel m = Some (order_source (n + length new, columns) o_model)" "mLogModel m = Some (appended new lm)"
    "n + length new = RowCount (lmTable (appended new lm))" "columns = length (model_columns (appended new lm))"
    "mAcceptedSourceRows m = mAcceptedSourceRows m0"
    using src appended_reads [where lm = lm and new = new] by (simp_all add: m_def)
  show "lo \<le> hi" by (rule range(3))
  show "connected m" by (rule connected_order [OF mm(1,2) src(3) mm(3,4)])
  have same: "same_view m0 m lm (appended new lm)" using src(2) appended_reads [where lm = lm and new = new] by (simp add: same_view_def m_def)
  let ?log = "order_to (n, columns) o_model" and ?up = "shift_up lo (length new)"
  have log: "SourceRowToLogRow m0 r = Some (the (?log r)) \<and> SourceRowToLogRow m (?up r) = Some (the (?log r)) \<and> the (?log r) < n"
    if "r < n" for r
    using that order_rows(1) [OF src] order_rows(1) [OF mm(1,2) src(3) mm(3,4)] src(3) range(1) by (auto simp: order_to_eq)
  have row: "same_row (lmTable lm) (lmTable (appended new lm)) (the (?log r)) (the (?log r))" if "r < n" for r
    using appended_row log [OF that] src(4) by simp
  have cnt: "source_rowCount m0 = n" "source_rowCount m = n + length new" "mSourceModel m0 \<noteq> None" "mSourceModel m \<noteq> None"
    using src(1) mm(1) by (simp_all add: source_rowCount_def order_source_def)
  have "MatchesRulesAtSourceRow ex m (?up r) = MatchesRulesAtSourceRow ex m0 r" if "r < n" for r
    using same_view_rows [OF same _ _ row [OF that]] log [OF that] by simp
  moreover have "LessThanSourceRows ex m (?up r) (?up s) = LessThanSourceRows ex m0 r s" if "r < n" "s < n" for r s
    using same_view_less [OF same _ _ row [OF that(1)] _ _ row [OF that(2)]] log [OF that(1)] log [OF that(2)] by simp
  ultimately show "rows_inserted ex lo (hi - lo + 1) m0 m"
    using cnt mm(5) range(1) unfolding rows_inserted_def range(2) by simp
qed

section \<open>Evicted rows\<close>

definition evicted :: "nat \<Rightarrow> LogModel \<Rightarrow> LogModel" where
  "evicted cnt lm = lm\<lparr>lmTable := EvictPrefixRows cnt (lmTable lm)\<rparr>"

lemma evicted_reads:
  shows "same_setup (lmTable lm) (lmTable (evicted cnt lm))" "model_columns (evicted cnt lm) = model_columns lm"
    "dictionaryAddress (evicted cnt lm) = dictionaryAddress lm" "RowCount (lmTable (evicted cnt lm)) = RowCount (lmTable lm) - cnt"
  by (simp_all add: evicted_def same_setup_def model_columns_def EvictPrefixRows_def evictSource_def RowCount_def Let_def)

lemma evicted_row:
  assumes "\<And>src. src \<in> set (mSources (lmTable lm)) \<Longrightarrow> source_inv src"
    and "sorted (map (\<lambda>r. mLineId (fst r)) (mRows (lmTable lm)))" "r + cnt < RowCount (lmTable lm)"
  shows "same_row (lmTable lm) (lmTable (evicted cnt lm)) (r + cnt) r"
proof -
  let ?t = "lmTable lm"
  have r: "r < RowCount (EvictPrefixRows cnt ?t)" using assms(3) evicted_reads(4) [where lm = lm and cnt = cnt] by (simp add: evicted_def)
  have rows: "mRows (EvictPrefixRows cnt ?t) = drop cnt (mRows ?t)" "mColumnKeyIds (EvictPrefixRows cnt ?t) = mColumnKeyIds ?t"
    by (simp_all add: EvictPrefixRows_def evictSource_def Let_def)
  have "GetValue (EvictPrefixRows cnt ?t) r c = GetValue ?t (r + cnt) c" for c
    by (rule GetValue_EvictPrefixRows(2) [OF assms(1,2) r])
  moreover have "r < length (mRows ?t) - cnt" using assms(3) by (simp add: RowCount_def)
  ultimately show ?thesis using assms(3)
    by (simp add: same_row_def evicted_def GetEnumValueId_def out_of_table_def rows RowCount_def add.commute)
qed

lemma rows_removed_evicted:
  assumes src: "mSourceModel m0 = Some (order_source (n, columns) o_model)" "mLogModel m0 = Some lm" "0 < columns"
      "n = RowCount (lmTable lm)" "columns = length (model_columns lm)"
    and cnt: "0 < cnt" "cnt \<le> n" "order_rowsAboutToBeRemoved n True 0 (cnt - 1) o_model = [BeginRemoveRows lo hi]"
    and inv: "\<And>src. src \<in> set (mSources (lmTable lm)) \<Longrightarrow> source_inv src" "sorted (map (\<lambda>r. mLineId (fst r)) (mRows (lmTable lm)))"
  defines "m \<equiv> m0\<lparr>mSourceModel := Some (order_source (n - cnt, columns) o_model), mLogModel := Some (evicted cnt lm)\<rparr>"
  shows "rows_removed ex lo hi m0 m" "connected m"
proof -
  have range: "lo = (if mReversed o_model then n - cnt else 0)" "hi = (if mReversed o_model then n - 1 else cnt - 1)"
    using cnt by (auto simp: order_rowsAboutToBeRemoved_def split: if_splits)
  then have size: "hi - lo + 1 = cnt" "lo \<le> hi" "hi < n" using cnt(1,2) by (auto split: if_splits)
  have mm: "mSourceModel m = Some (order_source (n - cnt, columns) o_model)" "mLogModel m = Some (evicted cnt lm)"
    "n - cnt = RowCount (lmTable (evicted cnt lm))" "columns = length (model_columns (evicted cnt lm))"
    "mAcceptedSourceRows m = mAcceptedSourceRows m0"
    using src evicted_reads [where lm = lm and cnt = cnt] by (simp_all add: m_def)
  show "connected m" by (rule connected_order [OF mm(1,2) src(3) mm(3,4)])
  have same: "same_view m0 m lm (evicted cnt lm)" using src(2) evicted_reads [where lm = lm and cnt = cnt] by (simp add: same_view_def m_def)
  let ?log = "order_to (n, columns) o_model" and ?down = "shift_down hi cnt"
  have log: "SourceRowToLogRow m0 r = Some (the (?log r)) \<and> SourceRowToLogRow m (?down r) = Some (the (?log r) - cnt) \<and>
      the (?log r) < n \<and> cnt \<le> the (?log r)" if "r < n" "r < lo \<or> hi < r" for r
  proof (cases "mReversed o_model")
    case True
    then have "r < n - cnt" using that range by auto
    then have "?down r = r" "r < n - cnt" "n - cnt - 1 - r = n - 1 - r - cnt" "cnt \<le> n - 1 - r" using True range cnt(1,2) by auto
    then show ?thesis using True that(1) order_rows(1) [OF src] order_rows(1) [OF mm(1,2) src(3) mm(3,4)] src(3) cnt(1,2)
      by (simp add: order_to_eq)
  next
    case False
    then have "?down r = r - cnt" "r - cnt < n - cnt" "cnt \<le> r" using that range cnt(1,2) by auto
    then show ?thesis using False that(1) order_rows(1) [OF src] order_rows(1) [OF mm(1,2) src(3) mm(3,4)] src(3)
      by (simp add: order_to_eq)
  qed
  have row: "same_row (lmTable lm) (lmTable (evicted cnt lm)) (the (?log r)) (the (?log r) - cnt)" if "r < n" "r < lo \<or> hi < r" for r
    using evicted_row [OF inv, of "the (?log r) - cnt" cnt] log [OF that] src(4) by simp
  have count: "source_rowCount m0 = n" "source_rowCount m = n - cnt" "mSourceModel m \<noteq> None"
    using src(1) mm(1) by (simp_all add: source_rowCount_def order_source_def)
  have match: "MatchesRulesAtSourceRow ex m (?down r) = MatchesRulesAtSourceRow ex m0 r" if "r < n" "r < lo \<or> hi < r" for r
    using same_view_rows [OF same _ _ row [OF that]] log [OF that] by simp
  have less: "LessThanSourceRows ex m (?down r) (?down s) = LessThanSourceRows ex m0 r s"
    if "r < n" "r < lo \<or> hi < r" "s < n" "s < lo \<or> hi < s" for r s
  proof (rule same_view_less [OF same _ _ row [OF that(1,2)] _ _ row [OF that(3,4)]])
    show "r < s \<longleftrightarrow> ?down r < ?down s" using that size(1,2) by auto
    show "the (?log r) = the (?log s) \<longleftrightarrow> the (?log r) - cnt = the (?log s) - cnt" using log [OF that(1,2)] log [OF that(3,4)] by linarith
  qed (use log [OF that(1,2)] log [OF that(3,4)] in simp_all)
  show "rows_removed ex lo hi m0 m"
    unfolding rows_removed_def size(1) count mm(5) using count(3) size(2,3) match less by simp
qed

section \<open>Like a rebuild\<close>

lemma slot_like_rebuild:
  assumes "connected m" "engine_ok e m" "ranks_known (eExternals e) m" "mSourceModel m = Some src"
    and "agrees (eExternals e) m m' \<and> shows_rows_in_order (eExternals e) m' \<and> view_inv m'"
  shows "mAcceptedSourceRows m' = mAcceptedSourceRows (RebuildAcceptedRows e raw m)"
proof -
  let ?m = "RebuildAcceptedRows e raw m" and ?ex = "eExternals e"
  have r: "agrees ?ex m ?m" "shows_rows_in_order ?ex ?m" using Rebuild_shows [OF assms(1-4)] by blast+
  have a: "agrees ?ex m m'" using assms(5) by blast
  have "connected m'" "mSourceModel m' = Some src" using assms(1,4) agrees_rows(5) [OF a] a by (simp_all add: agrees_def)
  then show ?thesis
    by (rule shown_unique [where ex = ?ex])
      (use assms(5) r(2) agrees_rows(6) [OF a] agrees_rows(6) [OF r(1)] agrees_LessThan [OF a] agrees_LessThan [OF r(1)]
       in \<open>simp_all add: shows_rows_in_order_def\<close>)
qed

lemma rebuilt_maps_back:
  assumes "agrees ex m m' \<and> shows_rows_in_order ex m' \<and> view_inv m'" "mSourceModel m = Some src"
  shows "(p < view_rowCount m' \<longrightarrow> mapFromSource (mapToSource (Some (p, c)) m') m' = Some (p, c)) \<and>
    (case mapFromSource (Some (s, c)) m' of
       None \<Rightarrow> \<not> (s < source_rowCount m \<and> MatchesRulesAtSourceRow ex m s)
     | Some q \<Rightarrow> mapToSource (Some q) m' = Some (s, c) \<and> MatchesRulesAtSourceRow ex m s)"
proof -
  have a: "agrees ex m m'" "shows_rows_in_order ex m'" "view_inv m'" using assms(1) by blast+
  have src: "mSourceModel m' = Some src" using a(1) assms(2) by (simp add: agrees_def)
  have from_remap: "mapFromSource (Some (s, c)) m' = remapped_index m' (Some (s, c))" for s
    using src by (simp add: mapFromSource_def remapped_index_def split: option.split)
  have to: "mapToSource (Some (q, c)) m' = Some (mAcceptedSourceRows m' ! q, c)" if "q < view_rowCount m'" for q
    using src that by (simp add: mapToSource_def view_rowCount_def)
  have acc: "s \<in> accepted_set ex m' \<longleftrightarrow> s < source_rowCount m \<and> MatchesRulesAtSourceRow ex m s" for s
    using agrees_rows(6) [OF a(1)] by (simp add: accepted_set_def)
  have inj: "q = p" if "q < view_rowCount m'" "p < view_rowCount m'" "mAcceptedSourceRows m' ! q = mAcceptedSourceRows m' ! p" for q
    using a(3) that by (simp add: view_inv_def bounded_rows_def view_rowCount_def nth_eq_iff_index_eq)
  have "mapFromSource (mapToSource (Some (p, c)) m') m' = Some (p, c)" if p: "p < view_rowCount m'"
  proof -
    let ?s = "mAcceptedSourceRows m' ! p"
    have "?s \<in> accepted_set ex m'" using a(2) p nth_mem [of p "mAcceptedSourceRows m'"] by (simp add: shows_rows_in_order_def view_rowCount_def)
    then obtain q where q: "remapped_index m' (Some (?s, c)) = Some (q, c)" "q < view_rowCount m'" "mAcceptedSourceRows m' ! q = ?s"
      using remapped_index_shown [OF a(3,2), of ?s c] by (cases "remapped_index m' (Some (?s, c))") auto
    then show ?thesis using inj [OF q(2) p q(3)] unfolding to [OF p] from_remap by simp
  qed
  moreover have "case mapFromSource (Some (s, c)) m' of
       None \<Rightarrow> \<not> (s < source_rowCount m \<and> MatchesRulesAtSourceRow ex m s)
     | Some q \<Rightarrow> mapToSource (Some q) m' = Some (s, c) \<and> MatchesRulesAtSourceRow ex m s"
  proof (cases "remapped_index m' (Some (s, c))")
    case None
    then show ?thesis using remapped_index_shown [OF a(3,2), of s c] acc [of s] by (simp add: from_remap)
  next
    case (Some i)
    then obtain q where "i = (q, c)" "q < view_rowCount m'" "mAcceptedSourceRows m' ! q = s" "s \<in> accepted_set ex m'"
      using remapped_index_shown [OF a(3,2), of s c] by (cases i) simp
    then show ?thesis using Some to acc [of s] by (simp add: from_remap)
  qed
  ultimately show ?thesis by blast
qed

end
