(* ===== verification/Table_Stream.thy ===== *)
theory Table_Stream
  imports Enum_Correct Time_Correct Batch_Coalescer
begin

text \<open>
  The life of a table in \<open>library/src/log_table.cpp\<close>: loading a file, starting a stream, appending
  batches and sources, and a change of a column's type by the user.  These operations call the
  configuration, the log data, the back-filling of time stamps and the detector.
\<close>

section \<open>The state\<close>

text \<open>
  The detector's table with the keys of time columns that the parser converts itself, those that
  were seen later, the columns that the last batch rewrote, and the flag of the log data.
\<close>

record StreamTable =
  detector :: EnumTable
  mStageBSnapshotTimeKeys :: "KeyId set"
  mPostSnapshotTimeKeys :: "KeyId set"
  mLastBackfillRange :: "(nat \<times> nat) option"
  mTimestampsAlreadyParsed :: bool

abbreviation stbl :: "StreamTable \<Rightarrow> LogTable" where
  "stbl S \<equiv> tbl (detector S)"

definition on_table :: "(LogTable \<Rightarrow> LogTable) \<Rightarrow> StreamTable \<Rightarrow> StreamTable" where
  "on_table f S = S\<lparr>detector := (detector S)\<lparr>tbl := f (stbl S)\<rparr>\<rparr>"

definition on_configuration :: "(LogConfigurationManager \<Rightarrow> LogConfigurationManager) \<Rightarrow> StreamTable \<Rightarrow> StreamTable" where
  "on_configuration f = on_table (\<lambda>t. t\<lparr>mConfiguration := f (mConfiguration t)\<rparr>)"

text \<open>\<open>mData\<close>.\<close>

definition table_data :: "StreamTable \<Rightarrow> LogData" where
  "table_data S =
     \<lparr>ldSources = mSources (stbl S), ldLines = mRows (stbl S), ldKeys = mKeys (stbl S),
      ldTimestampsAlreadyParsed = mTimestampsAlreadyParsed S\<rparr>"

definition put_data :: "LogData \<Rightarrow> StreamTable \<Rightarrow> StreamTable" where
  "put_data d S =
     (on_table (\<lambda>t. t\<lparr>mRows := ldLines d, mSources := ldSources d, mKeys := ldKeys d\<rparr>) S)
       \<lparr>mTimestampsAlreadyParsed := ldTimestampsAlreadyParsed d\<rparr>"

definition clear_dictionaries :: "StreamTable \<Rightarrow> StreamTable" where
  "clear_dictionaries S =
     S\<lparr>detector := (detector S)
         \<lparr>tbl := (set_registry empty_registry (stbl S))\<lparr>mLevelRankCache := Map.empty\<rparr>,
          mEnumTrackers := Map.empty, mEnumColumnHealth := Map.empty\<rparr>\<rparr>"

section \<open>Snapshots\<close>

definition snapshot_time_key :: "externals \<Rightarrow> string \<Rightarrow> StreamTable \<Rightarrow> StreamTable" where
  "snapshot_time_key ex key S =
     (case GetOrInsert (std_hash ex) key (mKeys (stbl S)) of (kid, ki) \<Rightarrow>
        (on_table (\<lambda>t. t\<lparr>mKeys := ki\<rparr>) S)\<lparr>mStageBSnapshotTimeKeys := insert kid (mStageBSnapshotTimeKeys S)\<rparr>)"

definition RefreshSnapshotTimeKeys :: "externals \<Rightarrow> StreamTable \<Rightarrow> StreamTable" where
  "RefreshSnapshotTimeKeys ex S =
     fold (\<lambda>column. if ctype column \<noteq> CtTime then id else fold (snapshot_time_key ex) (keys column)) (tcolumns (stbl S))
       (S\<lparr>mStageBSnapshotTimeKeys := {}, mPostSnapshotTimeKeys := {}\<rparr>)"

definition refresh_enum_keys :: "externals \<Rightarrow> StreamTable \<Rightarrow> StreamTable" where
  "refresh_enum_keys ex S = S\<lparr>detector := RefreshSnapshotEnumKeys ex (detector S)\<rparr>"

section \<open>Starting and clearing\<close>

definition Table_Reset :: "externals \<Rightarrow> StreamTable \<Rightarrow> StreamTable" where
  "Table_Reset ex S =
     (let S1 = clear_dictionaries ((put_data new_LogData S)\<lparr>mStageBSnapshotTimeKeys := {}, mPostSnapshotTimeKeys := {}\<rparr>);
          S2 = S1\<lparr>detector := (detector S1)\<lparr>mPendingLevelBubbleKeys := [], mIsStreaming := False, mLastBatchDemotedKeys := []\<rparr>,
                  mLastBackfillRange := None\<rparr>
      in refresh_enum_keys ex (on_table (RefreshColumnKeyIds ex) S2))"

definition OnConfigurationReloaded :: "externals \<Rightarrow> StreamTable \<Rightarrow> StreamTable" where
  "OnConfigurationReloaded ex S = refresh_enum_keys ex (on_table (RefreshColumnKeyIds ex) S)"

definition BeginStreaming :: "externals \<Rightarrow> LineSource option \<Rightarrow> StreamTable \<Rightarrow> StreamTable" where
  "BeginStreaming ex source S =
     (let S1 = S\<lparr>mLastBackfillRange := None,
                 detector := (detector S)\<lparr>mLastBatchDemotedKeys := [], mPendingLevelBubbleKeys := [], mIsStreaming := True\<rparr>\<rparr>;
          S2 = put_data (MarkTimestampsParsed (LogData_of source [] empty_KeyIndex)) S1;
          S3 = on_table RewireSourceRegistries (clear_dictionaries S2)
      in on_table (RefreshColumnKeyIds ex) (refresh_enum_keys ex (RefreshSnapshotTimeKeys ex S3)))"

text \<open>The caller passes a source; without one nothing happens.\<close>

definition AppendStreaming :: "LineSource option \<Rightarrow> StreamTable \<Rightarrow> StreamTable" where
  "AppendStreaming source S =
     (case source of
        None \<Rightarrow> S
      | Some src \<Rightarrow>
          on_table (\<lambda>t. t\<lparr>mSources := mSources t @ [src\<lparr>mEnumDictionaries := Some (tEnumDictionaries t)\<rparr>]\<rparr>)
            (S\<lparr>mLastBackfillRange := None\<rparr>))"

section \<open>Loading\<close>

text \<open>The pass over the lines from \<open>oldLineCount\<close> on, the sweep, and the moves of level columns.\<close>

definition detect_loaded :: "externals \<Rightarrow> nat \<Rightarrow> StreamTable \<Rightarrow> StreamTable option" where
  "detect_loaded ex oldLineCount S =
     (case RunEnumPassForAppendBatch ex oldLineCount (detector S, (None, None)) of
        None \<Rightarrow> None
      | Some (T, _) \<Rightarrow>
          (case FinalizeAutoDetection ex T of
             None \<Rightarrow> None
           | Some (T', _) \<Rightarrow> Some (S\<lparr>detector := ApplyPendingLevelBubbles ex T'\<rparr>)))"

definition MAX_ENUM_CANDIDATE_LEN :: "32 word" where
  "MAX_ENUM_CANDIDATE_LEN = 64"

definition new_StreamTable :: StreamTable where
  "new_StreamTable =
     \<lparr>detector =
        \<lparr>tbl = \<lparr>mRows = [], mSources = [], mKeys = empty_KeyIndex, mConfiguration = new_Manager, mColumnKeyIds = [],
                tEnumDictionaries = empty_registry, mLevelRankCache = Map.empty\<rparr>,
         mEnumValueCap = DEFAULT_ENUM_VALUE_CAP, mEnumValueMaxLen = MAX_ENUM_CANDIDATE_LEN, mEnumTrackers = Map.empty,
         mEnumColumnHealth = Map.empty, mIsStreaming = False, mLastBatchDemotedKeys = [], mPendingLevelBubbleKeys = []\<rparr>,
      mStageBSnapshotTimeKeys = {}, mPostSnapshotTimeKeys = {}, mLastBackfillRange = None, mTimestampsAlreadyParsed = False\<rparr>"

definition LogTable_of :: "externals \<Rightarrow> LogData \<Rightarrow> LogConfigurationManager \<Rightarrow> StreamTable option" where
  "LogTable_of ex d conf =
     (let S1 = on_table RewireSourceRegistries (on_configuration (\<lambda>_. conf) (put_data d new_StreamTable))
      in detect_loaded ex 0 (on_table (RefreshColumnKeyIds ex) (refresh_enum_keys ex S1)))"

definition Table_Update :: "externals \<Rightarrow> date_lib \<Rightarrow> LogData \<Rightarrow> StreamTable \<Rightarrow> StreamTable option" where
  "Table_Update ex dl d S =
     (let oldLineCount = length (mRows (stbl S));
          S1 = on_configuration (Update (ldKeys d)) (S\<lparr>detector := (detector S)\<lparr>mLastBatchDemotedKeys := []\<rparr>\<rparr>);
          source = (\<lambda>i. if i < length (ldSources d) then Some (ldSources d ! i) else None);
          d1 = (if \<not> ldTimestampsAlreadyParsed d
                then d\<lparr>ldLines := fst (ParseTimestamps ex dl (ldKeys d) source (tcolumns (stbl S1)) (ldLines d))\<rparr> else d);
          S2 = on_table RewireSourceRegistries (put_data (Merge (std_hash ex) d1 (table_data S1)) S1)
      in detect_loaded ex oldLineCount (on_table (RefreshColumnKeyIds ex) (refresh_enum_keys ex S2)))"

section \<open>Appending a batch\<close>

text \<open>\<open>BackfillTimestampColumn\<close> over the lines from \<open>first_row\<close> on; its errors are discarded.\<close>

definition backfill_rows :: "externals \<Rightarrow> date_lib \<Rightarrow> nat \<Rightarrow> nat \<Rightarrow> LogTable \<Rightarrow> LogTable" where
  "backfill_rows ex dl i first_row t =
     t\<lparr>mRows := take first_row (mRows t) @
         fst (BackfillTimestampColumn ex dl (mKeys t) (source_at t) (tcolumns t ! i) (drop first_row (mRows t)))\<rparr>"

definition time_pass_column :: "externals \<Rightarrow> date_lib \<Rightarrow> nat \<Rightarrow> nat \<Rightarrow> StreamTable \<times> backfill \<Rightarrow> StreamTable \<times> backfill" where
  "time_pass_column ex dl oldLineCount i st =
     (case st of (S, (firstBackfilled, lastBackfilled)) \<Rightarrow>
      let column = tcolumns (stbl S) ! i in
      if ctype column \<noteq> CtTime then st
      else let columnKeyIds = known_ids ex (stbl S) (keys column);
               later = filter (\<lambda>kid. kid \<notin> mStageBSnapshotTimeKeys S) columnKeyIds;
               stageBHandled = (\<exists>kid\<in>set columnKeyIds. kid \<in> mStageBSnapshotTimeKeys S);
               needsSliceBackfill = (\<exists>kid\<in>set later. kid \<in> mPostSnapshotTimeKeys S);
               firstObservation = (\<exists>kid\<in>set later. kid \<notin> mPostSnapshotTimeKeys S)
           in if stageBHandled then st
              else if firstObservation then
                ((on_table (backfill_rows ex dl i 0) S)\<lparr>mPostSnapshotTimeKeys := mPostSnapshotTimeKeys S \<union> set columnKeyIds\<rparr>,
                 (case firstBackfilled of None \<Rightarrow> Some i | Some f \<Rightarrow> Some f, Some i))
              else if needsSliceBackfill \<and> oldLineCount < length (mRows (stbl S)) then
                (on_table (backfill_rows ex dl i oldLineCount) S, (firstBackfilled, lastBackfilled))
              else st)"

text \<open>The lines of a batch point to the source with the index \<open>src\<close>.\<close>

definition batch_extended :: "externals \<Rightarrow> nat \<Rightarrow> StreamedBatch \<Rightarrow> StreamTable \<Rightarrow> StreamTable" where
  "batch_extended ex src batch S =
     (let S1 = S\<lparr>mLastBackfillRange := None,
                 detector := (detector S)\<lparr>mLastBatchDemotedKeys := [], mPendingLevelBubbleKeys := []\<rparr>\<rparr>;
          S2 = (if bNewKeys batch \<noteq> [] then on_configuration (AppendKeys (bNewKeys batch)) S1 else S1);
          S3 = (if bLines batch \<noteq> [] \<or> bLocalLineOffsets batch \<noteq> [] \<or> bMultiLineSpans batch \<noteq> []
                then put_data (AppendBatch (map (\<lambda>line. (line, src)) (bLines batch)) (bLocalLineOffsets batch)
                       (bMultiLineSpans batch) (table_data S2)) S2
                else S2)
      in if bNewKeys batch \<noteq> [] then on_table (RefreshColumnKeyIdsForKeys ex (bNewKeys batch)) S3 else S3)"

definition Table_AppendBatch :: "externals \<Rightarrow> date_lib \<Rightarrow> nat \<Rightarrow> StreamedBatch \<Rightarrow> StreamTable \<Rightarrow> StreamTable option" where
  "Table_AppendBatch ex dl src batch S =
     (let oldLineCount = length (mRows (stbl S));
          S1 = batch_extended ex src batch S;
          (S2, backfilled) = fold (time_pass_column ex dl oldLineCount) [0..<length (tcolumns (stbl S1))] (S1, (None, None))
      in case RunEnumPassForAppendBatch ex oldLineCount (detector S2, backfilled) of
           None \<Rightarrow> None
         | Some (T, (firstBackfilled, lastBackfilled)) \<Rightarrow>
             Some (S2\<lparr>detector := T,
                      mLastBackfillRange :=
                        (case firstBackfilled of None \<Rightarrow> mLastBackfillRange S2 | Some f \<Rightarrow> Some (f, the lastBackfilled))\<rparr>))"

text \<open>The row and column counts that \<open>AppendBatch\<close> will lead to; the count builds the key cache.\<close>

definition PreviewAppend :: "StreamedBatch \<Rightarrow> StreamTable \<Rightarrow> (nat \<times> nat) \<times> StreamTable" where
  "PreviewAppend batch S =
     (case CountAppendableKeys (bNewKeys batch) (mConfiguration (stbl S)) of (n, conf) \<Rightarrow>
        ((length (mRows (stbl S)) + length (bLines batch), length (tcolumns (stbl S)) + n),
         on_configuration (\<lambda>_. conf) S))"

section \<open>The user changes the type of a column\<close>

definition user_time_column :: "externals \<Rightarrow> date_lib \<Rightarrow> nat \<Rightarrow> StreamTable \<Rightarrow> StreamTable" where
  "user_time_column ex dl i S =
     (let column = tcolumns (stbl S) ! i;
          S1 = (if printFormat column = [] then on_configuration (SetColumnPrintFormat i ''%F %H:%M:%S'') S else S);
          S2 = (if parseFormats column = [] then on_configuration (SetColumnParseFormats i DefaultTimeParseFormats) S1 else S1)
      in on_table (backfill_rows ex dl i 0) S2)"

definition user_enum_column :: "externals \<Rightarrow> nat \<Rightarrow> ColumnType \<Rightarrow> StreamTable \<Rightarrow> StreamTable option" where
  "user_enum_column ex i previousType S =
     (let S1 = on_table (RefreshColumnKeyIds ex) (refresh_enum_keys ex S);
          column = tcolumns (stbl S1) ! i
      in if keys column = [] then Some S1
         else let canonical = find_key ex (stbl S1) (hd (keys column)) in
         if canonical = INVALID_KEY_ID then Some S1
         else let T = detector S1;
                  previousWasEnumLike = (previousType = CtEnumeration \<or> previousType = CtLevel);
                  health = (if previousWasEnumLike then health_at canonical T else new_Health)
              in case EncodeColumnRangeAsEnum ex column 0 (length (mRows (tbl T))) health T of (ok, h, T1) \<Rightarrow>
                 let T2 = put_health canonical h T1 in
                 if \<not> ok then map_option (\<lambda>T3. S1\<lparr>detector := T3\<rparr>) (DemoteColumnFromEnum ex i False T2)
                 else if ctype column = CtLevel then Some (S1\<lparr>detector := T2\<lparr>tbl := RefreshLevelRankCache ex i (tbl T2)\<rparr>\<rparr>)
                 else Some (S1\<lparr>detector := T2\<rparr>))"

definition user_plain_column :: "externals \<Rightarrow> nat \<Rightarrow> ColumnType \<Rightarrow> StreamTable \<Rightarrow> StreamTable option" where
  "user_plain_column ex i previousType S =
     (let column = tcolumns (stbl S) ! i;
          S1 = (if previousType = CtTime
                then on_configuration (SetColumnParseFormats i []) (on_configuration (SetColumnPrintFormat i ''{}'') S) else S)
      in if keys column = [] then Some S1
         else let canonical = find_key ex (stbl S1) (hd (keys column)) in
         if canonical = INVALID_KEY_ID then Some S1
         else map_option
                (\<lambda>T. S1\<lparr>detector := T\<lparr>mEnumColumnHealth := (mEnumColumnHealth T)(canonical := None),
                          tbl := (tbl T)\<lparr>mLevelRankCache := (mLevelRankCache (tbl T))(canonical := None)\<rparr>\<rparr>\<rparr>)
                (if reg_Find (tEnumDictionaries (stbl S1)) canonical \<noteq> None
                 then map_option (set_type i (ctype column)) (DemoteColumnFromEnum ex i False (set_type i CtEnumeration (detector S1)))
                 else Some (detector S1)))"

definition OnUserChangedColumnType :: "externals \<Rightarrow> date_lib \<Rightarrow> nat \<Rightarrow> ColumnType \<Rightarrow> StreamTable \<Rightarrow> StreamTable option" where
  "OnUserChangedColumnType ex dl i previousType S =
     (if i \<ge> length (tcolumns (stbl S)) then Some S
      else let column = tcolumns (stbl S) ! i;
               T = detector S;
               canonical = (if keys column = [] then INVALID_KEY_ID else find_key ex (tbl T) (hd (keys column)));
               S1 = (if canonical \<noteq> INVALID_KEY_ID then S\<lparr>detector := T\<lparr>mEnumTrackers := (mEnumTrackers T)(canonical := None)\<rparr>\<rparr> else S);
               S2 = on_table (RefreshColumnKeyIds ex) S1
           in case ctype column of
                CtTime \<Rightarrow> Some (user_time_column ex dl i S2)
              | CtEnumeration \<Rightarrow> user_enum_column ex i previousType S2
              | CtLevel \<Rightarrow> user_enum_column ex i previousType S2
              | _ \<Rightarrow> user_plain_column ex i previousType S2)"

end
