(* ===== verification/Table_Stream_Correct.thy ===== *)
theory Table_Stream_Correct
  imports Table_Stream
begin

text \<open>
  A batch keeps the invariant of the detector: the configuration gets columns for the new keys, the
  rows and the offsets of the file grow, time stamps take the place of texts, and the pass over the
  batch runs on a table that is ready for it.  So the table announces the right sizes before a
  batch, and no cell outside the time columns changes.
\<close>

section \<open>Time stamps take the place of texts\<close>

text \<open>A row after back-filling: some texts under the keys \<open>ks\<close> have become time stamps.\<close>

definition retimed :: "KeyId set \<Rightarrow> LogLine \<Rightarrow> LogLine \<Rightarrow> bool" where
  "retimed ks line line' \<longleftrightarrow> mLineId line' = mLineId line \<and> sorted_fields (mData (mFields line')) \<and>
     (\<forall>k. FindCompact k line' = FindCompact k line \<or>
        k \<in> ks \<and> FindCompact k line \<noteq> None \<and> (\<exists>us. FindCompact k line' = Some (MakeTimestamp us)))"

lemma retimed_refl: "sorted_fields (mData (mFields line)) \<Longrightarrow> retimed ks line line"
  by (simp add: retimed_def)

lemma retimed_trans: "retimed ks a b \<Longrightarrow> retimed ks b c \<Longrightarrow> retimed ks a c"
  unfolding retimed_def by metis

lemma retimed_mono: "retimed ks a b \<Longrightarrow> ks \<subseteq> js \<Longrightarrow> retimed js a b"
  unfolding retimed_def by blast

lemma extracted_slot:
  assumes "ExtractStringBytes line k source arena = Some sv" "sorted_fields (mData (mFields line))"
  defines "r \<equiv> lower_bound k (mData (mFields line)) 0 (length (mData (mFields line)))"
  shows "r < length (mData (mFields line))" "fst (mData (mFields line) ! r) = k" "FindCompact k line \<noteq> None"
proof -
  have "r \<le> length (mData (mFields line))" unfolding r_def by (rule lower_bound_spec(1) [OF assms(2)])
  then show r: "r < length (mData (mFields line))" "fst (mData (mFields line) ! r) = k"
    using assms(1) by (auto simp: ExtractStringBytes_def Let_def r_def [symmetric] split: if_splits)
  then have "(k, snd (mData (mFields line) ! r)) \<in> set (mData (mFields line))" by (metis nth_mem prod.collapse)
  then show "FindCompact k line \<noteq> None"
    by (auto simp: FindCompact_def find_compact_map_of [OF assms(2)] dest: weak_map_of_SomeI)
qed

lemma overwritten:
  assumes "sorted_fields fs" "r < length fs" "fst (fs ! r) = k"
  shows "sorted_fields (fs[r := (k, c)])" "find_compact j (fs[r := (k, c)]) = (if j = k then Some c else find_compact j fs)"
proof -
  have keys: "map fst (fs[r := (k, c)]) = map fst fs"
    using assms(2,3) by (metis fst_conv list_update_id map_update nth_map)
  show sorted: "sorted_fields (fs[r := (k, c)])" using assms(1) by (simp only: sorted_fields_def keys)
  have fs: "fs = take r fs @ (k, snd (fs ! r)) # drop (Suc r) fs"
    using assms(2,3) by (metis id_take_nth_drop prod.collapse)
  have new: "fs[r := (k, c)] = take r fs @ (k, c) # drop (Suc r) fs" using assms(2) by (rule upd_conv_take_nth_drop)
  have "k \<notin> fst ` set (take r fs)"
    using assms(1) fs by (metis (no_types, lifting) imageE list.set_intros(1) order_less_irrefl prod.sel(1) sorted_fields_append)
  then have none: "map_of (take r fs) k = None" by (simp add: map_of_eq_None_iff)
  have "map_of (fs[r := (k, c)]) j = (if j = k then Some c else map_of fs j)"
    unfolding new by (subst (2) fs) (use none in \<open>auto simp: map_add_def split: option.split\<close>)
  then show "find_compact j (fs[r := (k, c)]) = (if j = k then Some c else find_compact j fs)"
    using find_compact_map_of [OF sorted] find_compact_map_of [OF assms(1)] by simp
qed

lemma retimed_SetCompact:
  assumes "ExtractStringBytes line k source arena = Some sv" "sorted_fields (mData (mFields line))" "k \<in> ks"
  shows "retimed ks line (SetCompact k (MakeTimestamp us) line)"
proof -
  let ?fs = "mData (mFields line)" and ?r = "lower_bound k (mData (mFields line)) 0 (length (mData (mFields line)))"
  note r = extracted_slot [OF assms(1,2)]
  have new: "mData (set_compact k (MakeTimestamp us) (mFields line)) = ?fs[?r := (k, MakeTimestamp us)]"
    using r(1,2) by (simp add: set_compact_def mSize_def Set_at_def Let_def)
  show ?thesis
    unfolding retimed_def SetCompact_def FindCompact_def
    using overwritten [OF assms(2) r(1,2)] assms(3) r(3) by (auto simp: new FindCompact_def)
qed

lemma first_time_found:
  "first_time dl look ps = Some (parsed, kf) \<Longrightarrow> kf \<in> set ps \<and> look (fst kf) \<noteq> None"
  by (induction ps) (auto split: option.splits)

lemma candidates_keys:
  "kf \<in> set (candidates spec lv) \<Longrightarrow> (\<And>x. lv = Some x \<Longrightarrow> fst x \<in> set (keyIds spec)) \<Longrightarrow> fst kf \<in> set (keyIds spec)"
  by (auto simp: candidates_def split: option.splits)

lemma reference_backfill_retimed:
  assumes "\<And>x. lv = Some x \<Longrightarrow> fst x \<in> set (keyIds spec)" "\<And>line s. (line, s) \<in> set ls \<Longrightarrow> sorted_fields (mData (mFields line))"
  shows "list_all2 (\<lambda>r r'. snd r' = snd r \<and> retimed (set (keyIds spec)) (fst r) (fst r')) ls
    (fst (reference_backfill dl column source spec lv ls))"
  using assms
proof (induction ls arbitrary: lv)
  case (Cons l ls)
  obtain line s where l: "l = (line, s)" by force
  have sorted: "sorted_fields (mData (mFields line))" using Cons.prems(2) [of line s] l by simp
  obtain promoted line' lv' where step: "reference_column dl (source s) [] spec lv line = (promoted, line', lv')"
    by (metis prod_cases3)
  have "retimed (set (keyIds spec)) line line' \<and> (\<forall>x. lv' = Some x \<longrightarrow> fst x \<in> set (keyIds spec))"
  proof (cases "first_time dl (\<lambda>k. ExtractStringBytes line k (source s) []) (candidates spec lv)")
    case None
    then show ?thesis using step retimed_refl [OF sorted] Cons.prems(1) by (auto simp: reference_column_def)
  next
    case (Some r)
    obtain parsed kf where r: "r = (parsed, kf)" by (cases r)
    note f = first_time_found [OF Some [unfolded r]]
    then obtain sv where sv: "ExtractStringBytes line (fst kf) (source s) [] = Some sv" by blast
    have k: "fst kf \<in> set (keyIds spec)" using candidates_keys [of kf spec lv] f Cons.prems(1) by blast
    show ?thesis using step Some r retimed_SetCompact [OF sv sorted k] k by (auto simp: reference_column_def)
  qed
  moreover from this have "list_all2 (\<lambda>r r'. snd r' = snd r \<and> retimed (set (keyIds spec)) (fst r) (fst r')) ls
      (fst (reference_backfill dl column source spec lv' ls))"
    by (intro Cons.IH) (use Cons.prems(2) in auto)
  ultimately show ?case
    by (cases "reference_backfill dl column source spec lv' ls") (simp add: l step)
qed simp

lemma BackfillTimestampColumn_retimed:
  assumes "\<And>line s. (line, s) \<in> set ls \<Longrightarrow> sorted_fields (mData (mFields line))"
  shows "list_all2 (\<lambda>r r'. snd r' = snd r \<and> retimed (set (map (\<lambda>k. Find_key (std_hash ex) k ki) (keys column))) (fst r) (fst r')) ls
    (fst (BackfillTimestampColumn ex dl ki source column ls))"
proof -
  let ?spec = "spec_of (map (\<lambda>k. Find_key (std_hash ex) k ki) (keys column)) column"
  have "BackfillTimestampColumn ex dl ki source column ls = reference_backfill dl column source ?spec None ls"
    using backfill_reference [OF hit_inv_fresh] by (simp add: BackfillTimestampColumn_def fresh_scratch_def)
  moreover have "set (keyIds ?spec) = set (map (\<lambda>k. Find_key (std_hash ex) k ki) (keys column))" by (simp add: spec_of_def)
  ultimately show ?thesis using reference_backfill_retimed [OF _ assms, where lv = None and spec = ?spec] by simp
qed

section \<open>Back-filling a table\<close>

definition table_retimed :: "KeyId set \<Rightarrow> LogTable \<Rightarrow> LogTable \<Rightarrow> bool" where
  "table_retimed ks t t' \<longleftrightarrow> mSources t' = mSources t \<and> mKeys t' = mKeys t \<and> mConfiguration t' = mConfiguration t \<and>
     mColumnKeyIds t' = mColumnKeyIds t \<and> tEnumDictionaries t' = tEnumDictionaries t \<and>
     list_all2 (\<lambda>r r'. snd r' = snd r \<and> retimed ks (fst r) (fst r')) (mRows t) (mRows t')"

lemma table_retimed_refl: "weak_fine t \<Longrightarrow> table_retimed ks t t"
  by (auto simp: table_retimed_def weak_fine_def list_all2_same intro!: retimed_refl)

lemma table_retimed_trans:
  assumes "table_retimed ks a b" "table_retimed ks b c"
  shows "table_retimed ks a c"
proof -
  have "list_all2 (\<lambda>r r'. snd r' = snd r \<and> retimed ks (fst r) (fst r')) (mRows a) (mRows c)"
    by (rule list_all2_trans [where ?P1.0 = "\<lambda>r r'. snd r' = snd r \<and> retimed ks (fst r) (fst r')"
          and ?P2.0 = "\<lambda>r r'. snd r' = snd r \<and> retimed ks (fst r) (fst r')" and bs = "mRows b"])
      (use assms retimed_trans in \<open>auto simp: table_retimed_def\<close>)
  then show ?thesis using assms by (simp add: table_retimed_def)
qed

lemma table_retimed_reads:
  assumes "table_retimed ks t t'"
  shows "mSources t' = mSources t" "mKeys t' = mKeys t" "mConfiguration t' = mConfiguration t" "mColumnKeyIds t' = mColumnKeyIds t"
    "tEnumDictionaries t' = tEnumDictionaries t" "length (mRows t') = length (mRows t)"
  using assms by (auto simp: table_retimed_def dest: list_all2_lengthD)

lemma retimed_row:
  assumes "table_retimed ks t t'" "(line', s) \<in> set (mRows t')"
  obtains line where "(line, s) \<in> set (mRows t)" "retimed ks line line'"
proof -
  obtain i where i: "i < length (mRows t')" "mRows t' ! i = (line', s)" using assms(2) by (metis in_set_conv_nth)
  have "list_all2 (\<lambda>r r'. snd r' = snd r \<and> retimed ks (fst r) (fst r')) (mRows t) (mRows t')"
    using assms(1) by (simp add: table_retimed_def)
  from list_all2_nthD2 [OF this i(1)]
  have "snd (mRows t' ! i) = snd (mRows t ! i) \<and> retimed ks (fst (mRows t ! i)) (fst (mRows t' ! i))" .
  moreover have "mRows t ! i \<in> set (mRows t)" using i(1) table_retimed_reads(6) [OF assms(1)] by simp
  ultimately show thesis using that [of "fst (mRows t ! i)"] i(2) by (metis fst_conv prod.collapse snd_conv)
qed

lemma table_retimed_keeps:
  assumes "table_retimed ks t t'"
  shows "columns_inv ex t \<Longrightarrow> columns_inv ex t'" "weak_fine t \<Longrightarrow> weak_fine t'" "table_fine t \<Longrightarrow> table_fine t'"
    "rows_live (mSources t) (mRows t) \<Longrightarrow> rows_live (mSources t') (mRows t')"
proof -
  note same = table_retimed_reads [OF assms]
  show "columns_inv ex t \<Longrightarrow> columns_inv ex t'" by (erule columns_inv_same) (simp_all add: same)
  show "weak_fine t'" if "weak_fine t"
    using that retimed_row [OF assms] by (fastforce simp: weak_fine_def same retimed_def)
  show "rows_live (mSources t') (mRows t')" if "rows_live (mSources t) (mRows t)"
    using that retimed_row [OF assms] by (fastforce simp: rows_live_def same retimed_def)
  show "table_fine t'" if fine: "table_fine t"
  proof -
    have "s < length (mSources t) \<and> line_fine (tEnumDictionaries t) (mSources t ! s) line'" if row: "(line', s) \<in> set (mRows t')" for line' s
    proof -
      obtain line where line: "(line, s) \<in> set (mRows t)" "retimed ks line line'" by (rule retimed_row [OF assms row])
      have old: "s < length (mSources t)" "line_fine (tEnumDictionaries t) (mSources t ! s) line"
        using fine line(1) by (auto simp: table_fine_def rows_fine_def)
      have "slot_fine (tEnumDictionaries t) (mSources t ! s) (mLineId line') k c" if c: "FindCompact k line' = Some c" for k c
      proof (cases "FindCompact k line' = FindCompact k line")
        case True
        then show ?thesis using old(2) c line(2) by (simp add: line_fine_def retimed_def)
      next
        case False
        then obtain us where "c = MakeTimestamp us" using line(2) c unfolding retimed_def by (metis option.inject)
        then show ?thesis by (simp add: slot_fine_def slot_ok_def MakeTimestamp_def)
      qed
      then show ?thesis using old(1) line(2) by (simp add: line_fine_def retimed_def)
    qed
    then show ?thesis using fine by (auto simp: table_fine_def rows_fine_def same)
  qed
qed

text \<open>The ids of the keys of time columns.\<close>

definition time_ids :: "externals \<Rightarrow> LogTable \<Rightarrow> KeyId set" where
  "time_ids ex t = {find_key ex t key | key c. c \<in> set (tcolumns t) \<and> ctype c = CtTime \<and> key \<in> set (keys c)}"

lemma time_ids_same: "mKeys t' = mKeys t \<Longrightarrow> mConfiguration t' = mConfiguration t \<Longrightarrow> time_ids ex t' = time_ids ex t"
  by (simp add: time_ids_def find_key_def)

lemma backfill_rows_retimed:
  assumes "weak_fine t" "i < length (tcolumns t)" "ctype (tcolumns t ! i) = CtTime"
  shows "table_retimed (time_ids ex t) t (backfill_rows ex dl i first_row t)"
proof -
  let ?col = "tcolumns t ! i" and ?R = "\<lambda>ks r r'. snd r' = snd r \<and> retimed ks (fst r) (fst r')"
  let ?ks = "set (map (\<lambda>k. Find_key (std_hash ex) k (mKeys t)) (keys ?col))"
  have sorted: "sorted_fields (mData (mFields line))" if "(line, s) \<in> set (mRows t)" for line s
    using assms(1) that by (auto simp: weak_fine_def)
  have ids: "?ks \<subseteq> time_ids ex t" using assms(2,3) nth_mem by (fastforce simp: time_ids_def find_key_def)
  have "list_all2 (?R ?ks) (drop first_row (mRows t))
      (fst (BackfillTimestampColumn ex dl (mKeys t) (source_at t) ?col (drop first_row (mRows t))))"
    by (rule BackfillTimestampColumn_retimed) (metis in_set_dropD sorted)
  then have new: "list_all2 (?R (time_ids ex t)) (drop first_row (mRows t))
      (fst (BackfillTimestampColumn ex dl (mKeys t) (source_at t) ?col (drop first_row (mRows t))))"
    by (rule list_all2_mono) (use retimed_mono [OF _ ids] in blast)
  have "list_all2 (?R (time_ids ex t)) (take first_row (mRows t)) (take first_row (mRows t))"
    using sorted by (auto simp: list_all2_same dest!: in_set_takeD intro!: retimed_refl)
  from list_all2_appendI [OF this new] show ?thesis by (simp add: table_retimed_def backfill_rows_def)
qed

lemma time_pass_column_retimed:
  assumes "weak_fine (stbl (fst st))" "i < length (tcolumns (stbl (fst st)))"
  shows "table_retimed (time_ids ex (stbl (fst st))) (stbl (fst st)) (stbl (fst (time_pass_column ex dl old i st)))"
proof -
  obtain S f l where st: "st = (S, (f, l))" by (metis prod_cases3)
  show ?thesis
    using assms table_retimed_refl backfill_rows_retimed [where dl = dl and i = i]
    by (auto simp: st time_pass_column_def Let_def on_table_def)
qed

lemma time_pass_retimed:
  assumes "weak_fine (stbl (fst st))" "set is \<subseteq> {..<length (tcolumns (stbl (fst st)))}"
  shows "table_retimed (time_ids ex (stbl (fst st))) (stbl (fst st)) (stbl (fst (fold (time_pass_column ex dl old) is st)))"
  using assms
proof (induction "is" arbitrary: st)
  case (Cons i "is")
  let ?st = "time_pass_column ex dl old i st"
  have step: "table_retimed (time_ids ex (stbl (fst st))) (stbl (fst st)) (stbl (fst ?st))"
    by (rule time_pass_column_retimed) (use Cons.prems in simp_all)
  note same = table_retimed_reads [OF step]
  have "table_retimed (time_ids ex (stbl (fst ?st))) (stbl (fst ?st)) (stbl (fst (fold (time_pass_column ex dl old) is ?st)))"
    by (rule Cons.IH) (use Cons.prems table_retimed_keeps(2) [OF step] same(3) in simp_all)
  then show ?case using table_retimed_trans [OF step] time_ids_same [OF same(2,3)] by simp
qed (simp add: table_retimed_refl)

section \<open>New columns, rows and offsets\<close>

lemma resize_nth: "i < n \<Longrightarrow> resize n xs ! i = (if i < length xs then xs ! i else [])"
  by (simp add: resize_def nth_append)

lemma length_resize [simp]: "length (resize n xs) = n"
  by (simp add: resize_def)

lemma columns_inv_AppendKeys:
  assumes inv: "columns_inv ex t" and cache: "cache_inv (mConfiguration t)" and known: "set ks \<subseteq> set (reverse_keys (mKeys t))" and "ks \<noteq> []"
  shows "columns_inv ex (RefreshColumnKeyIdsForKeys ex ks (t\<lparr>mConfiguration := AppendKeys ks (mConfiguration t)\<rparr>))"
proof -
  define t1 where "t1 = t\<lparr>mConfiguration := AppendKeys ks (mConfiguration t)\<rparr>"
  define t2 where "t2 = RefreshColumnKeyIdsForKeys ex ks t1"
  define F where "F = fresh (configured (tcolumns t)) ks"
  have base: "base_inv ex t" using inv by (simp add: columns_inv_def)
  note b = base_invD [OF base]
  have cols: "tcolumns t1 = tcolumns t @ map new_column F"
    using AppendKeys_columns(1) [OF cache] by (simp add: t1_def F_def)
  have kcols: "kcols t1 = kcols t @ map (\<lambda>k. [k]) F" unfolding cols by (simp add: new_column_def)
  have conf: "configured (tcolumns t) = set (concat (kcols t))" by (simp add: configured_def)
  have F: "set F = set ks - set (concat (kcols t))" "distinct F" unfolding F_def conf [symmetric] by (simp_all add: set_fresh distinct_fresh)
  have t2: "mKeys t2 = mKeys t" "mConfiguration t2 = mConfiguration t1" "tEnumDictionaries t2 = tEnumDictionaries t"
    by (simp_all add: t2_def t1_def RefreshColumnKeyIdsForKeys_def)
  have id: "id_of ex t2 key = id_of ex t key" for key by (simp add: t2)
  have own: "own ex t2 = own ex t" "registered ex t2 = registered ex t" by (simp_all add: own_def registered_def t2 fun_eq_iff)
  have "key_budget t2"
  proof -
    have "set (concat (kcols t1)) = set (concat (kcols t)) \<union> set F" unfolding kcols by auto
    then have "set (reverse_keys (mKeys t)) \<union> set (concat (kcols t1)) = set (reverse_keys (mKeys t)) \<union> set (concat (kcols t))"
      using F(1) known by blast
    then show ?thesis using b(2) unfolding key_budget_def t2 by simp
  qed
  moreover have "distinct (concat (kcols t1))" unfolding kcols using b(3) F by (auto simp: concat_map_singleton)
  moreover have "\<exists>xs\<in>set (kcols t1). xs \<noteq> [] \<and> id_of ex t (hd xs) = Some c \<and> own ex t xs k"
    if "mRegIndex (tEnumDictionaries t) k = Some c" for k c
    using b(4) [OF that] unfolding kcols by auto
  moreover have "k = INVALID_KEY_ID \<or> own ex t (kcols t1 ! i) k" if i: "i < length (kcols t1)" "k \<in> set (mColumnKeyIds t2 ! i)" for i k
  proof -
    let ?c = "tcolumns t1 ! i" and ?ids = "resize (length (tcolumns t1)) (mColumnKeyIds t) ! i"
    have len: "i < length (tcolumns t1)" using i(1) by simp
    have ids: "mColumnKeyIds t2 ! i =
        (if length ?ids \<noteq> length (keys ?c) \<or> list_ex (\<lambda>key. key \<in> set ks) (keys ?c) then map (find_key ex t) (keys ?c) else ?ids)"
      using len assms(4) by (simp add: t2_def RefreshColumnKeyIdsForKeys_def) (simp add: t1_def find_key_def)
    show ?thesis
    proof (cases "length ?ids \<noteq> length (keys ?c) \<or> list_ex (\<lambda>key. key \<in> set ks) (keys ?c)")
      case True
      then obtain key where key: "key \<in> set (keys ?c)" "k = find_key ex t key" using i(2) ids by auto
      then show ?thesis using len find_key_probe(1) [OF b(1), of key] by (auto simp: own_def split: option.splits)
    next
      case False
      then have k: "k \<in> set ?ids" using i(2) ids by simp
      then have stored: "i < length (mColumnKeyIds t)" "k \<in> set (mColumnKeyIds t ! i)"
        using resize_nth [OF len, of "mColumnKeyIds t"] by (auto split: if_splits)
      have old: "i < length (kcols t)"
      proof (rule ccontr)
        assume "\<not> i < length (kcols t)"
        then have "kcols t1 ! i = [F ! (i - length (kcols t))]" "F ! (i - length (kcols t)) \<in> set F"
          using i(1) unfolding kcols by (auto simp: nth_append)
        then have "keys ?c = [F ! (i - length (kcols t))]" using len by simp
        then show False using False F(1) \<open>F ! (i - length (kcols t)) \<in> set F\<close> by simp
      qed
      then have "kcols t1 ! i = kcols t ! i" unfolding kcols by (simp add: nth_append)
      then show ?thesis using b(5) [OF old stored] by metis
    qed
  qed
  ultimately have "base_inv ex t2" using b(1) unfolding base_inv_def own id t2 by simp
  moreover have "registered ex t (keys c)" if "c \<in> set (tcolumns t1)" "enum_like c" for c
    using that inv unfolding cols columns_inv_def by (auto simp: new_column_def)
  ultimately show ?thesis unfolding t2_def [symmetric] t1_def [symmetric] columns_inv_def own t2(2) by blast
qed

text \<open>Offsets and spans of a file change none of its bytes.\<close>

definition same_bytes :: "LineSource \<Rightarrow> LineSource \<Rightarrow> bool" where
  "same_bytes s s' \<longleftrightarrow> mEnumDictionaries s' = mEnumDictionaries s \<and> source_inv s' = source_inv s \<and>
     source_arena s' = source_arena s \<and> source_fits s' = source_fits s"

lemma same_bytes_on_file:
  assumes "\<And>f. mOwnedStrings (g f) = mOwnedStrings f \<and> mMmap (g f) = mMmap f"
  shows "same_bytes s (on_file g s)"
  using assms
  by (auto simp: same_bytes_def on_file_def source_inv_def source_arena_def source_fits_def StableBytes_def fun_eq_iff
      split: SourceImpl.split)

lemma offsets_keep_bytes:
  "mOwnedStrings (RegisterMultiLineRecord a b f) = mOwnedStrings f" "mMmap (RegisterMultiLineRecord a b f) = mMmap f"
  "mOwnedStrings (AppendLineOffsets xs f) = mOwnedStrings f" "mMmap (AppendLineOffsets xs f) = mMmap f"
  by (simp_all add: RegisterMultiLineRecord_def AppendLineOffsets_def)

lemma spans_keep_bytes:
  "mOwnedStrings (fold (\<lambda>(a, b). RegisterMultiLineRecord a b) spans f) = mOwnedStrings f \<and>
   mMmap (fold (\<lambda>(a, b). RegisterMultiLineRecord a b) spans f) = mMmap f"
  by (induction spans arbitrary: f) (auto simp: offsets_keep_bytes)

lemma AppendBatch_data:
  shows "ldLines (AppendBatch batch offsets spans d) = ldLines d @ batch" "ldKeys (AppendBatch batch offsets spans d) = ldKeys d"
    "list_all2 same_bytes (ldSources d) (ldSources (AppendBatch batch offsets spans d))"
proof -
  show "ldLines (AppendBatch batch offsets spans d) = ldLines d @ batch" "ldKeys (AppendBatch batch offsets spans d) = ldKeys d"
    by (simp_all add: AppendBatch_def Let_def split: option.split)
  have refl: "list_all2 same_bytes ss ss" for ss by (simp add: list_all2_same same_bytes_def)
  have one: "list_all2 same_bytes ss (ss[i := on_file g (ss ! i)])"
    if "\<And>f. mOwnedStrings (g f) = mOwnedStrings f \<and> mMmap (g f) = mMmap f" for ss g i
    using same_bytes_on_file [OF that] refl [of ss]
    by (cases "i < length ss") (auto simp: list_all2_conv_all_nth nth_list_update)
  show "list_all2 same_bytes (ldSources d) (ldSources (AppendBatch batch offsets spans d))"
    using refl one spans_keep_bytes offsets_keep_bytes
    by (auto simp: AppendBatch_def Let_def split: option.split)
qed

lemma batch_put_data:
  assumes "\<not> put \<Longrightarrow> rows = []"
  obtains srcs where "list_all2 same_bytes (mSources (stbl S)) srcs"
    "stbl (if put then put_data (AppendBatch rows offsets spans (table_data S)) S else S) =
       (stbl S)\<lparr>mRows := mRows (stbl S) @ rows, mSources := srcs\<rparr>"
proof (cases put)
  case True
  have "list_all2 same_bytes (mSources (stbl S)) (ldSources (AppendBatch rows offsets spans (table_data S)))"
    using AppendBatch_data(3) [of "table_data S"] by (simp add: table_data_def)
  moreover have "stbl (put_data (AppendBatch rows offsets spans (table_data S)) S) =
      (stbl S)\<lparr>mRows := mRows (stbl S) @ rows, mSources := ldSources (AppendBatch rows offsets spans (table_data S))\<rparr>"
    unfolding put_data_def on_table_def AppendBatch_data(1,2) by (simp add: table_data_def)
  ultimately show thesis using that True by simp
next
  case False
  have "list_all2 same_bytes (mSources (stbl S)) (mSources (stbl S))" by (simp add: list_all2_same same_bytes_def)
  then show thesis by (rule that) (use False assms in simp)
qed

lemma batch_extended_table:
  obtains srcs where "list_all2 same_bytes (mSources (stbl S)) srcs"
    "stbl (batch_extended ex src batch S) = RefreshColumnKeyIdsForKeys ex (bNewKeys batch)
       ((stbl S)\<lparr>mConfiguration := (if bNewKeys batch \<noteq> [] then AppendKeys (bNewKeys batch) else id) (mConfiguration (stbl S)),
          mRows := mRows (stbl S) @ map (\<lambda>line. (line, src)) (bLines batch), mSources := srcs\<rparr>)"
proof -
  define S1 where "S1 = S\<lparr>mLastBackfillRange := None, detector := (detector S)\<lparr>mLastBatchDemotedKeys := [], mPendingLevelBubbleKeys := []\<rparr>\<rparr>"
  define S2 where "S2 = (if bNewKeys batch \<noteq> [] then on_configuration (AppendKeys (bNewKeys batch)) S1 else S1)"
  let ?put = "bLines batch \<noteq> [] \<or> bLocalLineOffsets batch \<noteq> [] \<or> bMultiLineSpans batch \<noteq> []"
  let ?S3 = "if ?put then put_data (AppendBatch (map (\<lambda>line. (line, src)) (bLines batch)) (bLocalLineOffsets batch)
      (bMultiLineSpans batch) (table_data S2)) S2 else S2"
  have S2: "stbl S2 = (stbl S)\<lparr>mConfiguration := (if bNewKeys batch \<noteq> [] then AppendKeys (bNewKeys batch) else id) (mConfiguration (stbl S))\<rparr>"
    by (simp add: S2_def S1_def on_configuration_def on_table_def)
  have rows: "map (\<lambda>line. (line, src)) (bLines batch) = []" if "\<not> ?put" using that by simp
  obtain srcs where srcs: "list_all2 same_bytes (mSources (stbl S2)) srcs"
    "stbl ?S3 = (stbl S2)\<lparr>mRows := mRows (stbl S2) @ map (\<lambda>line. (line, src)) (bLines batch), mSources := srcs\<rparr>"
    by (rule batch_put_data [OF rows])
  have "stbl (batch_extended ex src batch S) = RefreshColumnKeyIdsForKeys ex (bNewKeys batch) (stbl ?S3)"
  proof -
    have "batch_extended ex src batch S = (if bNewKeys batch \<noteq> [] then on_table (RefreshColumnKeyIdsForKeys ex (bNewKeys batch)) ?S3 else ?S3)"
      by (simp only: batch_extended_def Let_def S2_def S1_def)
    moreover have "RefreshColumnKeyIdsForKeys ex [] t = t" for t by (simp add: RefreshColumnKeyIdsForKeys_def)
    ultimately show ?thesis by (cases "bNewKeys batch = []") (simp_all add: on_table_def)
  qed
  then show thesis using that [of srcs] srcs by (simp add: S2)
qed

text \<open>What the lines of a batch have to satisfy: their slots are sound, and their arena is alive.\<close>

definition batch_fits :: "nat \<Rightarrow> StreamedBatch \<Rightarrow> StreamTable \<Rightarrow> bool" where
  "batch_fits src batch S \<longleftrightarrow> set (bNewKeys batch) \<subseteq> set (reverse_keys (mKeys (stbl S))) \<and>
     (bLines batch \<noteq> [] \<longrightarrow> src < length (mSources (stbl S))) \<and>
     (\<forall>line\<in>set (bLines batch). line_fine (tEnumDictionaries (stbl S)) (mSources (stbl S) ! src) line \<and>
        source_arena (mSources (stbl S) ! src) (mLineId line) \<noteq> None)"

lemma extended_ready:
  assumes inv: "detector_inv ex (detector S)" and live: "live (detector S)" and cache: "cache_inv (mConfiguration (stbl S))"
    and fits: "batch_fits src batch S"
  shows "detector_inv ex (detector (batch_extended ex src batch S))" "live (detector (batch_extended ex src batch S))"
    "cache_inv (mConfiguration (stbl (batch_extended ex src batch S)))"
    "(length (mRows (stbl (batch_extended ex src batch S))), length (tcolumns (stbl (batch_extended ex src batch S)))) =
       fst (PreviewAppend batch S)"
proof -
  let ?t = "stbl S" and ?rows = "map (\<lambda>line. (line, src)) (bLines batch)" and ?ks = "bNewKeys batch"
  let ?conf = "(if ?ks \<noteq> [] then AppendKeys ?ks else id) (mConfiguration ?t)"
  obtain srcs where srcs: "list_all2 same_bytes (mSources ?t) srcs"
    and t': "stbl (batch_extended ex src batch S) =
      RefreshColumnKeyIdsForKeys ex ?ks (?t\<lparr>mConfiguration := ?conf, mRows := mRows ?t @ ?rows, mSources := srcs\<rparr>)"
    by (rule batch_extended_table)
  let ?t' = "stbl (batch_extended ex src batch S)"
  have frame: "mRows ?t' = mRows ?t @ ?rows" "mSources ?t' = srcs" "mConfiguration ?t' = ?conf"
    "tEnumDictionaries ?t' = tEnumDictionaries ?t" "mKeys ?t' = mKeys ?t"
    by (simp_all add: t' RefreshColumnKeyIdsForKeys_def)
  have cols: "columns_inv ex ?t" and fine: "table_fine ?t" using inv by (simp_all add: detector_inv_def)
  have same: "same_bytes (mSources ?t ! i) (srcs ! i)" if "i < length srcs" for i using srcs that by (rule list_all2_nthD2)
  have len: "length srcs = length (mSources ?t)" using srcs by (simp add: list_all2_lengthD)
  show "cache_inv (mConfiguration ?t')" using AppendKeys_columns(2) [OF cache] cache by (simp add: frame(3))
  have "columns_inv ex ?t'"
  proof (cases "?ks = []")
    case True
    then show ?thesis using cols by (auto simp: t' RefreshColumnKeyIdsForKeys_def intro: columns_inv_same)
  next
    case False
    have "columns_inv ex (RefreshColumnKeyIdsForKeys ex ?ks (?t\<lparr>mConfiguration := AppendKeys ?ks (mConfiguration ?t)\<rparr>))"
      by (rule columns_inv_AppendKeys [OF cols cache _ False]) (use fits in \<open>simp add: batch_fits_def\<close>)
    moreover have "find_key ex (?t\<lparr>mConfiguration := c, mRows := r, mSources := s\<rparr>) = find_key ex ?t"
        "find_key ex (?t\<lparr>mConfiguration := c\<rparr>) = find_key ex ?t" for c r s
      by (simp_all add: find_key_def fun_eq_iff)
    ultimately show ?thesis using False
      by (elim columns_inv_same) (simp_all add: t' RefreshColumnKeyIdsForKeys_def case_prod_unfold)
  qed
  moreover have "table_fine ?t'"
  proof -
    have sources: "source_inv s \<and> mEnumDictionaries s = Some (tEnumDictionaries ?t)" if "s \<in> set srcs" for s
      using that same fine len unfolding table_fine_def in_set_conv_nth by (metis nth_mem same_bytes_def)
    have lines: "line_fine reg (srcs ! i) line = line_fine reg (mSources ?t ! i) line" if "i < length srcs" for reg i line
      using same [OF that] by (simp add: line_fine_def slot_fine_def slot_ok_def same_bytes_def)
    have "i < length srcs \<and> line_fine (tEnumDictionaries ?t) (srcs ! i) line" if "(line, i) \<in> set (mRows ?t @ ?rows)" for line i
      using that fine fits lines len by (auto simp: table_fine_def rows_fine_def batch_fits_def)
    then show ?thesis using fine sources by (auto simp: table_fine_def rows_fine_def frame)
  qed
  ultimately show "detector_inv ex (detector (batch_extended ex src batch S))" by (simp add: detector_inv_def)
  have rows: "i < length srcs" if "(line, i) \<in> set (mRows ?t @ ?rows)" for line i
    using that fine fits len by (auto simp: table_fine_def rows_fine_def batch_fits_def)
  have "source_arena (srcs ! i) (mLineId line) \<noteq> None" if "(line, i) \<in> set (mRows ?t @ ?rows)" for line i
    using that live fits same [OF rows [OF that]] by (auto simp: live_def rows_live_def batch_fits_def same_bytes_def)
  then show "live (detector (batch_extended ex src batch S))" by (auto simp: live_def rows_live_def frame)
  have "length (mcolumns ?conf) = length (tcolumns ?t) + fst (CountAppendableKeys ?ks (mConfiguration ?t))"
    using AppendKeys_columns(1) [OF cache, of ?ks] CountAppendableKeys_eq [OF cache, of ?ks] by auto
  then show "(length (mRows ?t'), length (tcolumns ?t')) = fst (PreviewAppend batch S)"
    by (simp add: frame PreviewAppend_def split: prod.split)
qed

section \<open>The whole batch\<close>

lemma run_rows: "run ex T T' \<Longrightarrow> ready ex T \<Longrightarrow> length (mRows (tbl T')) = length (mRows (tbl T))"
  using esteps_weak by (fastforce simp: run_def ready_def sources_grow_def dest: list_all2_lengthD)

text \<open>A column that holds no time stamps shares no key with one that does.\<close>

lemma other_column_ids:
  assumes "columns_inv ex t" "c < length (tcolumns t)" "c < length (mColumnKeyIds t)" "ctype (tcolumns t ! c) \<noteq> CtTime"
    and "k \<in> set (mColumnKeyIds t ! c)" "k \<noteq> INVALID_KEY_ID"
  shows "k \<notin> time_ids ex t"
proof
  assume "k \<in> time_ids ex t"
  then obtain key col where key: "k = find_key ex t key" "col \<in> set (tcolumns t)" "ctype col = CtTime" "key \<in> set (keys col)"
    by (auto simp: time_ids_def)
  then obtain j where j: "j < length (tcolumns t)" "tcolumns t ! j = col" by (metis in_set_conv_nth)
  have "base_inv ex t" using assms(1) by (simp add: columns_inv_def)
  note b = base_invD [OF this]
  have "own ex t (kcols t ! c) k" using b(5) [of c k] assms by simp
  then obtain key' where key': "key' \<in> set (kcols t ! c)" "id_of ex t key' = Some k" by (auto simp: own_def)
  have "id_of ex t key = Some k" using key(1) assms(6) find_key_probe(1) [OF b(1), of key] by (auto split: option.splits)
  then have "key' = key" using keys.lookup_inj [OF b(1) key'(2)] by blast
  then have "c = j" using distinct_concat_nth [OF b(3), of c j key] key'(1) key(4) j assms(2) by simp
  then show False using assms(4) key(3) j(2) by simp
qed

lemma first_value_cong:
  "(\<And>k. k \<in> set ks \<Longrightarrow> k \<noteq> INVALID_KEY_ID \<Longrightarrow> GetValue_id k s line' = GetValue_id k s line) \<Longrightarrow>
   first_value ks s line' = first_value ks s line"
  by (induction ks) (auto simp: Let_def GetValue_id_def)

lemma table_retimed_cell:
  assumes "table_retimed (time_ids ex t) t t'" "columns_inv ex t" "c < length (tcolumns t)" "ctype (tcolumns t ! c) \<noteq> CtTime"
  shows "GetValue t' row c = GetValue t row c"
proof (cases "out_of_table t row c")
  case True
  then show ?thesis using table_retimed_reads [OF assms(1)] by (simp add: GetValue_def out_of_table_def)
next
  case False
  note same = table_retimed_reads [OF assms(1)]
  have inside: "row < length (mRows t)" "c < length (mColumnKeyIds t)" "\<not> out_of_table t' row c"
    using False by (auto simp: out_of_table_def same)
  obtain line i line' i' where r: "mRows t ! row = (line, i)" "mRows t' ! row = (line', i')" by (metis surj_pair)
  have "list_all2 (\<lambda>r r'. snd r' = snd r \<and> retimed (time_ids ex t) (fst r) (fst r')) (mRows t) (mRows t')"
    using assms(1) by (simp add: table_retimed_def)
  from list_all2_nthD [OF this inside(1)] have timed: "i' = i" "retimed (time_ids ex t) line line'" by (simp_all add: r)
  have "GetValue_id k s line' = GetValue_id k s line" if "k \<in> set (mColumnKeyIds t ! c)" "k \<noteq> INVALID_KEY_ID" for k s
  proof -
    have "FindCompact k line' = FindCompact k line" "mLineId line' = mLineId line"
      using other_column_ids [OF assms(2,3) inside(2) assms(4) that] timed(2) unfolding retimed_def by blast+
    then show ?thesis by (simp only: GetValue_id_def)
  qed
  then have "first_value (mColumnKeyIds t ! c) s line' = first_value (mColumnKeyIds t ! c) s line" for s by (rule first_value_cong)
  then show ?thesis using False inside(3) by (simp add: GetValue_def r timed(1) same source_at_def)
qed

lemma AppendBatch_correct:
  assumes "detector_inv ex (detector S)" "live (detector S)" "cache_inv (mConfiguration (stbl S))" "batch_fits src batch S"
  obtains S' where "Table_AppendBatch ex dl src batch S = Some S'"
    and "(length (mRows (stbl S')), length (tcolumns (stbl S'))) = fst (PreviewAppend batch S)"
    and "columns_inv ex (stbl S')" "live (detector S')"
    and "arenas_fit (detector S') \<longrightarrow> detector_inv ex (detector S') \<and>
      (\<forall>row c. c < length (tcolumns (stbl (batch_extended ex src batch S))) \<longrightarrow>
         ctype (tcolumns (stbl (batch_extended ex src batch S)) ! c) \<noteq> CtTime \<longrightarrow>
         same_value (GetValue (stbl S') row c) (GetValue (stbl (batch_extended ex src batch S)) row c))"
proof -
  let ?S1 = "batch_extended ex src batch S" and ?old = "length (mRows (stbl S))"
  note S1 = extended_ready [OF assms]
  obtain S2 b where pass: "fold (time_pass_column ex dl ?old) [0..<length (tcolumns (stbl ?S1))] (?S1, (None, None)) = (S2, b)"
    by (metis surj_pair)
  have fine: "weak_fine (stbl ?S1)" "columns_inv ex (stbl ?S1)" "table_fine (stbl ?S1)"
    using S1(1) table_fine_weak by (auto simp: detector_inv_def)
  have timed: "table_retimed (time_ids ex (stbl ?S1)) (stbl ?S1) (stbl S2)"
    using time_pass_retimed [of "(?S1, (None, None))" "[0..<length (tcolumns (stbl ?S1))]" ex dl ?old] fine(1)
    by (simp only: pass fst_conv) (simp add: atLeast0LessThan)
  note S2 = table_retimed_keeps [OF timed] and same = table_retimed_reads [OF timed]
  have inv2: "detector_inv ex (detector S2)" "live (detector S2)"
    using S2 fine S1(2) by (simp_all add: detector_inv_def live_def)
  note ready2 = detector_ready [OF inv2(1)]
  have safe: "safe ex (detector S2) (map_option fst (RunEnumPassForAppendBatch ex ?old (detector S2, b)))"
    using safe_pass [of ex "(detector S2, b)"] ready2 by simp
  then have "RunEnumPassForAppendBatch ex ?old (detector S2, b) \<noteq> None" using inv2(2) by (simp add: safe_def)
  then obtain r where r: "RunEnumPassForAppendBatch ex ?old (detector S2, b) = Some r" by blast
  obtain T f l where rT: "r = (T, (f, l))" by (metis prod_cases3)
  have T: "RunEnumPassForAppendBatch ex ?old (detector S2, b) = Some (T, (f, l))" using r rT by simp
  have run: "run ex (detector S2) T" using safe by (simp add: safe_def T)
  define S' where "S' = S2\<lparr>detector := T, mLastBackfillRange := (case f of None \<Rightarrow> mLastBackfillRange S2 | Some a \<Rightarrow> Some (a, the l))\<rparr>"
  have res: "Table_AppendBatch ex dl src batch S = Some S'"
    by (simp add: Table_AppendBatch_def Let_def pass T S'_def)
  have T': "detector S' = T" by (simp add: S'_def)
  have sizes: "(length (mRows (stbl S')), length (tcolumns (stbl S'))) = fst (PreviewAppend batch S)"
    unfolding S1(4) [symmetric] T' using run_rows [OF run ready2] run_columns [OF run] same(3,6) by simp
  have shown: "arenas_fit T \<longrightarrow> detector_inv ex T \<and> same_display (detector S2) T" using run_display [OF run inv2(1)] by blast
  have cells: "same_value (GetValue (tbl T) row c) (GetValue (stbl ?S1) row c)"
    if "arenas_fit T" "c < length (tcolumns (stbl ?S1))" "ctype (tcolumns (stbl ?S1) ! c) \<noteq> CtTime" for row c
    using shown that(1) unfolding same_display_def table_retimed_cell [OF timed fine(2) that(2,3), symmetric] by blast
  show thesis
    by (rule that [OF res sizes]; unfold T')
      (use run run_live [OF run ready2 inv2(2)] shown cells in \<open>auto simp: run_def\<close>)
qed

end
