(* ===== verification/Spec2Isabelle.thy ===== *)
theory Spec2Isabelle
  imports Leaf_Compile Leaf_Semantics Query_Fuel Query_Tokens Iso_Roundtrip Log_Data Enum_Correct Enum_Evidence Csv_Roundtrip Logfmt_Roundtrip Time_Correct Streaming_Correct Csv_File_Lines Histogram_Index Filter_Search Filter_View_Table Table_Stream_Correct
begin

text \<open>
  A development of the core of the structured log viewer: how log lines are parsed and stored,
  how a query becomes a filter, and which rows a filter shows.

  \<^bold>\<open>The parts and how they interact.\<close>  A log file or a stream (\<open>log_file.cpp\<close>,
  \<open>file_line_source.cpp\<close>, \<open>stream_line_source.cpp\<close>) holds the bytes of its lines.  The live-tail
  loop (\<open>streaming_parse_loop.hpp\<close>) cuts the bytes of a producer into lines, lets a decoder
  (\<open>csv_parser.cpp\<close>, \<open>logfmt_parser.cpp\<close>) turn each into a record, joins continuation lines,
  parses time stamps (\<open>timestamp_promotion.cpp\<close>, \<open>log_processing.cpp\<close>) and hands batches to its
  sink (\<open>batch_coalescer.cpp\<close>).  A line
  (\<open>log_line.cpp\<close>) is a sorted array of fields, each a key id of the key index
  (\<open>key_index.cpp\<close>) with a compact slot (\<open>compact_log_value.cpp\<close>) that points into the bytes,
  into an arena, or into a dictionary of enum values (\<open>enum_dictionary.cpp\<close>).  Lines, sources and
  keys together are the data of a session (\<open>log_data.cpp\<close>), which sessions merge.  The table
  (\<open>log_table.cpp\<close>) shows the lines as rows and columns, as its configuration
  (\<open>log_configuration.cpp\<close>) says, ranks the values of level columns (\<open>log_level.cpp\<close>), and
  detects columns of few values, whose cells it encodes by dictionaries.  The user's query is
  parsed to an expression tree (\<open>query_parser.cpp\<close>,
  \<open>filter_expression.hpp\<close>), compiled against the columns of the table
  (\<open>leaf_rule_compile.cpp\<close>) and evaluated by one of two evaluators (\<open>log_filter.cpp\<close>).  The view
  (\<open>log_filter_model.cpp\<close>), above a layer that can show the newest rows first
  (\<open>row_order_proxy_model.cpp\<close>), keeps the accepted rows in the order of the comparison of rows
  (\<open>log_compare.cpp\<close>) while the table appends and evicts rows and moves columns, announces every
  change, and searches them; a histogram counts the rows over time (\<open>histogram_bucket_index.cpp\<close>).

  \<^bold>\<open>Theories.\<close>
  \<^item> \<open>Prelude\<close>: C character classes and cursors; \<open>Interner\<close>: the contract of the two
    string tables, as a locale; \<open>Ieee_Double\<close>: the C library's functions on \<open>double\<close>.
  \<^item> \<open>Filter_Expression\<close>; \<open>Iso_Time\<close>, \<open>Query_Lexer\<close>, \<open>Query_Parser\<close>, \<open>Query_Printer\<close> for
    \<open>query_parser.cpp\<close>, with \<open>Query_Fuel\<close> (the descent ends), \<open>Iso_Roundtrip\<close> (time stamps
    and civil dates) and \<open>Query_Tokens\<close> (what the lexer makes of printed text).
  \<^item> \<open>Key_Index\<close>, \<open>Enum_Dictionary\<close>, \<open>Line_Source\<close>, \<open>Log_Value\<close>, \<open>Log_Line\<close>, \<open>Log_Level\<close>,
    \<open>Log_Configuration\<close>, \<open>Log_Table\<close>, \<open>Log_Data\<close>: one per source file, with the locale
    \<open>byte_arena\<close> for the arenas of the sources.
  \<^item> \<open>Enum_Columns\<close> (encoding and demotion), \<open>Enum_Detector\<close> (trackers, the pass over a batch, the
    final sweep) for the detector in \<open>log_table.cpp\<close>; \<open>Enum_Cells\<close>, \<open>Enum_Pass\<close>, \<open>Enum_Run\<close>,
    \<open>Enum_Correct\<close> show that it changes no displayed cell, \<open>Enum_Evidence\<close> that its trackers
    count what the rows hold.
  \<^item> \<open>Table_Stream\<close>: the table's entry points (loading, \<open>BeginStreaming\<close>, \<open>AppendBatch\<close>, a change of a
    column's type) over the configuration, the data, the time stamps and the detector, with
    \<open>Table_Stream_Correct\<close>: a batch keeps the invariant, grows as announced, rewrites time columns only.
  \<^item> \<open>Scalar_Text\<close> (typed values of bare text, probe lines), \<open>Csv_Parser\<close>, \<open>Logfmt_Parser\<close>;
    \<open>Csv_Roundtrip\<close>, \<open>Logfmt_Roundtrip\<close>: printed records are read back, header keys, the
    sorted insert.
  \<^item> \<open>Time_Stamps\<close>, with \<open>Time_Correct\<close>: the caches are transparent, the query language agrees.
  \<^item> \<open>Batch_Coalescer\<close>: the batches of a sink; \<open>Static_Pipeline\<close> (stages A and C over a file) with
    \<open>Static_Correct\<close> (deliveries, byte ranges); \<open>Csv_File\<close> with \<open>Csv_File_Correct\<close> (byte ranges do not
    matter) and \<open>Csv_File_Lines\<close> (rows are the records of their physical lines).
  \<^item> \<open>Streaming_Loop\<close>, with \<open>Streaming_Correct\<close>: chunks and clock do not matter.
  \<^item> \<open>Row_Bitset\<close> (with the locale \<open>row_set\<close>), \<open>Log_Filter\<close>, \<open>Leaf_Compile\<close>: the filters;
    \<open>Filter_Correct\<close>, \<open>Predicate_Correct\<close>, \<open>Leaf_Semantics\<close>: their correctness.
  \<^item> \<open>Row_Compare\<close> with \<open>Row_Order\<close> (the locale \<open>three_way\<close>: every comparison is a total preorder;
    rank tables; the permutation sorts); \<open>Histogram_Index\<close> (the counts are those of the definition).
  \<^item> \<open>Row_Proxies\<close>: the newest-first layer, the signals, and the locale \<open>row_proxy\<close> for layers that
    map rows both ways.  \<open>Filter_View\<close>: the state and the slots of the view; \<open>Filter_Search\<close>: its
    search.  \<open>Filter_View_Order\<close> (the invariant, the order of rows), \<open>Filter_View_Correct\<close> (what a
    rebuild shows), \<open>Filter_View_Slots\<close> and \<open>Filter_View_Removal\<close> (the slots for rows keep the order),
    \<open>Filter_View_Signals\<close> (signals announce changes), \<open>Filter_View_Persistent\<close> (persistent indices,
    the toggle), \<open>Filter_View_Columns\<close> (columns, ranks, sorting), \<open>Filter_View_Table\<close> (appending and
    evicting rows of the table end in what a rebuild shows).

  \<^bold>\<open>Conventions.\<close>  A pointer to a source, a dictionary or a key index is an argument or an index
  into a list.  Errors are values: \<open>None\<close> for an exception or an empty optional, \<open>PErr\<close> for a
  parse error with its offset and message.  Machine integers that can wrap are words; time
  bounds are \<open>int64_t\<close> values as integers.  Work that threads share is a schedule (for the
  filters) or a step relation (for the key index), and the properties hold for all of them.
  \<open>std::hash\<close>, \<open>fmt::vformat\<close>, the \<open>date\<close> library, Qt's string matching, the unstable
  \<open>std::ranges::sort\<close> and TBB's parallel sort are parameters; of the sorts only \<open>is_cost_sort\<close> and
  \<open>is_parallel_sort\<close> are assumed, of the dates
  only the Gregorian calendar (\<open>gregorian\<close>).  The live-tail loop reads its clock and its stop
  token from functions of the number of reads, so its properties hold for all of their answers.

  \<^bold>\<open>Fuel.\<close>  The mutually recursive descent of the query parser carries fuel; \<open>ParseQuery\<close>
  starts it with four units per byte of input and four more, which \<open>Query_Fuel\<close> shows to be
  enough: every call consumes input before it recurses.

  \<^bold>\<open>Not modelled.\<close>  The JSON and regex parsers (around simdjson and PCRE2), the scheduling of TBB, producers that read files, pipes and sockets, session files, the base model
  and the user interface in Qt; conversions between UTC and local time, memory estimates and instrumentation
  counters; Qt's delivery of signals and its list of persistent indices, which the view's slots
  take as an argument.
\<close>

section \<open>Concrete inputs\<close>

text \<open>
  The witnesses below apply the properties to these values.  The table has three rows of the
  columns \<open>ok\<close> (a boolean) and \<open>n\<close> (an integer); the last row has no \<open>ok\<close>.
\<close>

definition hash0 :: "string \<Rightarrow> 64 word" where
  "hash0 s = word_of_nat (length s)"

definition sample_env :: compile_env where
  "sample_env =
     \<lparr>env_externals = \<lparr>std_hash = hash0, vformat = \<lambda>_ _. ''?'', date_format = \<lambda>_ _. ''?''\<rparr>,
      string_matcher = \<lambda>needle _ text. needle = text, cost_sort = sort_key EstimatedCost\<rparr>"

definition sample_keys :: KeyIndex where
  "sample_keys = fold (\<lambda>k ki. snd (GetOrInsert hash0 k ki)) [''ok'', ''n''] empty_KeyIndex"

definition sample_column :: "string list \<Rightarrow> ColumnType \<Rightarrow> Column" where
  "sample_column ks ty = default_Column\<lparr>keys := ks, printFormat := ''{}'', ctype := ty\<rparr>"

definition config_of :: "Column list \<Rightarrow> LogConfigurationManager" where
  "config_of cs = SetConfiguration (default_LogConfiguration\<lparr>cfgColumns := cs\<rparr>) new_Manager"

lemma sample_column_simps [simp]:
  "keys (sample_column ks ty) = ks" "ctype (sample_column ks ty) = ty"
  "printFormat (sample_column ks ty) = ''{}''" "levelMapping (sample_column ks ty) = []"
  by (simp_all add: sample_column_def default_Column_def)

lemma mcolumns_config_of [simp]: "mcolumns (config_of cs) = cs"
  by (simp add: config_of_def SetConfiguration_def)

definition sample_columns :: "Column list" where
  "sample_columns =
     [sample_column [''ok''] CtBoolean,
      sample_column [''n''] CtInteger]"

definition sample_rows :: "(LogLine \<times> nat) list" where
  "sample_rows =
     [(LogLine_compact [(0, MakeBool True), (1, MakeInt64 5)] 0, 0),
      (LogLine_compact [(0, MakeBool False), (1, MakeInt64 7)] 1, 0),
      (LogLine_compact [(1, MakeInt64 9)] 2, 0)]"

definition sample_table :: LogTable where
  "sample_table =
     \<lparr>mRows = sample_rows,
      mSources = [\<lparr>impl = FileSource (new_LogFile ''a\<newline>b\<newline>c''), mEnumDictionaries = Some empty_registry\<rparr>],
      mKeys = sample_keys, mConfiguration = config_of sample_columns, mColumnKeyIds = [[0], [1]],
      tEnumDictionaries = empty_registry, mLevelRankCache = Map.empty\<rparr>"

lemma sample_cost_sort: "is_cost_sort (cost_sort sample_env)"
  by (simp add: is_cost_sort_def sample_env_def)

lemma sample_sort: "cost_sort sample_env = sort_key EstimatedCost"
  by (simp add: sample_env_def)

lemma sample_RowCount: "RowCount sample_table = 3"
  by (simp add: RowCount_def sample_table_def sample_rows_def)

lemma sample_schedule: "valid_schedule (RowCount sample_table) [[2], [0, 1]]"
  by (simp add: valid_schedule_def sample_RowCount upt_conv_Cons)

lemmas sample_defs = sample_table_def sample_rows_def sample_columns_def sample_env_def

lemmas slot_defs = MakeBool_def MakeInt64_def MakeUint64_def MakeDouble_def MakeDictRef_def MakeMmapSlice_def
  MakeOwnedString_def MakeTimestamp_def MakeMonostate_def

lemma sample_cells:
  "GetValue sample_table 0 0 = VBool True" "GetValue sample_table 0 1 = VInt64 5"
  "GetValue sample_table 1 0 = VBool False" "GetValue sample_table 1 1 = VInt64 7"
  "GetValue sample_table 2 0 = VMonostate" "GetValue sample_table 2 1 = VInt64 9"
  by (simp_all add: GetValue_def out_of_table_def sample_table_def sample_rows_def source_at_def LogLine_compact_def
      AssignSorted_def GetValue_id_def FindCompact_def Materialise_def slot_defs INVALID_KEY_ID_def Let_def)

definition sample_leaf_ok :: LeafRule where
  "sample_leaf_ok = default_LeafRule\<lparr>leafType := TBoolean, columnKeys := [''ok''], filterValues := [''TRUE'']\<rparr>"

definition sample_leaf_n :: LeafRule where
  "sample_leaf_n = default_LeafRule\<lparr>leafType := TTime, columnKeys := [''n''], filterBegin := Some 6, filterEnd := Some 8\<rparr>"

lemma tolower_TRUE: "map tolower ''TRUE'' = ''true''"
  by code_simp

lemma sample_compiled:
  "CompileLeaf sample_env sample_leaf_ok (ResolveLeafColumnByKeys (columnKeys sample_leaf_ok) sample_columns)
     sample_columns (Some sample_table) = Some (PBool 0 True False)"
  "CompileLeaf sample_env sample_leaf_n (ResolveLeafColumnByKeys (columnKeys sample_leaf_n) sample_columns)
     sample_columns (Some sample_table) = Some (PTime 1 6 8)"
  using tolower_TRUE
  by (simp_all add: CompileLeaf_def ResolveLeafColumnByKeys_def sample_leaf_ok_def sample_leaf_n_def default_LeafRule_def
      sample_columns_def boolean_choices_def)

definition sample_filter :: FilterExpression where
  "sample_filter = FOr [FLeaf sample_leaf_ok, FNot (Some (FLeaf sample_leaf_n))]"


text \<open>A dictionary before and after it grew, and a table with a cell in it.\<close>

definition sample_dict :: EnumDictionary where
  "sample_dict = snd (dict_Insert ''GET'' (new_EnumDictionary 64))"

definition sample_dict_grown :: EnumDictionary where
  "sample_dict_grown = snd (dict_Insert ''PUT'' sample_dict)"

definition sample_registry :: EnumDictionaryRegistry where
  "sample_registry =
     \<lparr>mDictionaries = [0 \<mapsto> \<lparr>entry_dict = sample_dict_grown, aliases = [0]\<rparr>], mRegIndex = [0 \<mapsto> 0]\<rparr>"

definition one_cell_table :: "CompactLogValue \<Rightarrow> LogTable" where
  "one_cell_table cell =
     \<lparr>mRows = [(LogLine_compact [(0, cell)] 0, 0)],
      mSources = [\<lparr>impl = FileSource (new_LogFile ''a''), mEnumDictionaries = Some sample_registry\<rparr>],
      mKeys = sample_keys,
      mConfiguration = config_of [sample_column [''ok''] CtEnumeration],
      mColumnKeyIds = [[0]], tEnumDictionaries = sample_registry, mLevelRankCache = Map.empty\<rparr>"

definition sample_enum_table :: LogTable where
  "sample_enum_table = one_cell_table (MakeDictRef 1)"

definition sample_zero_table :: LogTable where
  "sample_zero_table = one_cell_table (MakeUint64 0)"

lemma sample_dict_inv: "dict_inv sample_dict"
  unfolding sample_dict_def by (intro dict_inv_Insert dict_inv_new)

lemma sample_dict_grown_values: "mValues sample_dict_grown = [''GET'', ''PUT'']"
  by (simp add: sample_dict_grown_def sample_dict_def dict_Insert_def dict_Find_def dict_Full_def new_EnumDictionary_def
      INVALID_ENUM_VALUE_ID_def MAX_ENUM_VALUES_def Let_def min_def max_def word_le_nat_alt)

lemma one_cell:
  "GetValue (one_cell_table cell) 0 0 =
     Materialise cell (Some \<lparr>impl = FileSource (new_LogFile ''a''), mEnumDictionaries = Some sample_registry\<rparr>) 0 0"
  "GetEnumValueId (one_cell_table cell) 0 0 = (if tag cell = DictRef then Some (ucast (payload cell)) else None)"
  by (simp_all add: GetValue_def GetEnumValueId_def out_of_table_def one_cell_table_def source_at_def LogLine_compact_def
      AssignSorted_def GetValue_id_def line_GetEnumValueId_def FindCompact_def INVALID_KEY_ID_def Let_def)

lemma sample_enum_cell:
  "GetEnumValueId sample_enum_table 0 0 = Some 1" "GetValue sample_enum_table 0 0 = VView None ''PUT''"
  by (simp_all add: sample_enum_table_def one_cell Materialise_def MakeDictRef_def materialise_dict_ref_def
      INVALID_KEY_ID_def sample_registry_def reg_Find_def dict_Resolve_def sample_dict_grown_values)

lemma sample_zero_cell: "GetValue sample_zero_table 0 0 = VUint64 0"
  by (simp add: sample_zero_table_def one_cell Materialise_def MakeUint64_def)

definition sample_double_table :: LogTable where
  "sample_double_table = one_cell_table (MakeDouble (DNum False (2 ^ 62)))"

lemma sample_double_cell: "GetValue sample_double_table 0 0 = VDouble (DNum False (2 ^ 62))"
  by (simp add: sample_double_table_def one_cell Materialise_def MakeDouble_def double_of_bits_of_double wf_double_def
      inf_mag_def)

lemma parse_zero: "ParseDouble ''0'' = Some (DNum False 0)"
proof -
  have "mag_search i 0 0 1 = 0" for i by (induction i) (auto simp: smag_def)
  then have "make_double False 0 1 = (DNum False 0, False)"
    by (simp add: make_double_def round_mag_def smag_def inf_mag_def)
  moreover have "isdigit (CHR ''0'')" "\<not> isspace (CHR ''0'')" "tolower (CHR ''0'') = CHR ''0''" by code_simp+
  ultimately show ?thesis
    by (simp add: ParseDouble_def strtod_whole_def strip_sign_def strtod_decimal_def scan_mantissa_def scan_exponent_def
        scale_double_def)
qed

text \<open>A line with one field, its file, and a stream with the lines 1 and 2.\<close>

definition sample_line :: LogLine where
  "sample_line = LogLine_compact [(0, MakeBool True)] 0"

definition sample_source :: LineSource where
  "sample_source = \<lparr>impl = FileSource (new_LogFile ''a''), mEnumDictionaries = None\<rparr>"

definition sample_stream :: StreamLineSource where
  "sample_stream = snd (AppendLine ''b'' ''yy'' (snd (AppendLine ''a'' ''xx'' new_StreamLineSource)))"


lemma sample_line_inv: "line_inv sample_line" "mSize (mFields sample_line) < 2 ^ 32 - 1"
  by (simp_all add: line_inv_def fields_inv_def mSize_def sample_line_def LogLine_compact_def AssignSorted_def
      sorted_fields_def new_CompactLineFields_def Let_def)

lemma sample_line_slot: "FindCompact k sample_line = Some c \<Longrightarrow> slot_ok src l c"
  by (auto simp: FindCompact_def sample_line_def LogLine_compact_def AssignSorted_def slot_ok_def MakeBool_def
      split: if_splits)

lemma sample_source_inv: "source_inv sample_source"
  by (simp add: source_inv_def sample_source_def)

lemma sample_stream_inv: "stream_inv sample_stream" "source_inv \<lparr>impl = StreamSource sample_stream, mEnumDictionaries = None\<rparr>"
  by (simp_all add: sample_stream_def source_inv_def stream_inv_AppendLine stream_inv_new)

definition one_key :: KeyIndex where
  "one_key = snd (locked_insert hash0 ''a'' empty_KeyIndex)"

lemma one_key:
  "probe hash0 ''a'' empty_KeyIndex = None" "locked_insert hash0 ''a'' empty_KeyIndex = (0, one_key)"
  "probe hash0 ''a'' one_key = Some 0" "locked_insert hash0 ''a'' one_key = (0, one_key)"
  "key_room hash0 ''a'' empty_KeyIndex" "key_room hash0 ''a'' one_key"
proof -
  show none: "probe hash0 ''a'' empty_KeyIndex = None"
    using ShardIndex_less [of hash0 "''a''"] by (simp add: probe_def empty_KeyIndex_def)
  show "locked_insert hash0 ''a'' empty_KeyIndex = (0, one_key)"
    unfolding one_key_def by (simp add: locked_insert_def none Let_def) (simp add: empty_KeyIndex_def)
  show hit: "probe hash0 ''a'' one_key = Some 0"
    unfolding one_key_def using probe_locked_insert [OF key_inv_empty none, of "''a''"] by (simp add: empty_KeyIndex_def)
  show "locked_insert hash0 ''a'' one_key = (0, one_key)" by (simp add: locked_insert_def hit)
  show "key_room hash0 ''a'' empty_KeyIndex" "key_room hash0 ''a'' one_key"
    by (simp_all add: key_room_def hit) (simp add: empty_KeyIndex_def)
qed

text \<open>A level column over the sample dictionary, and one whose first key is not in the key index.\<close>

definition sample_level_table :: LogTable where
  "sample_level_table = (one_cell_table (MakeDictRef 1))
     \<lparr>mConfiguration := config_of [sample_column [''ok''] CtLevel]\<rparr>"


lemma sample_keys_probe:
  "probe hash0 ''ok'' sample_keys = Some 0" "probe hash0 ''n'' sample_keys = Some 1" "probe hash0 ''lvl'' sample_keys = None"
proof -
  let ?a = "GetOrInsert hash0 ''ok'' empty_KeyIndex" and ?b = "GetOrInsert hash0 ''n'' (snd (GetOrInsert hash0 ''ok'' empty_KeyIndex))"
  have none: "probe hash0 k empty_KeyIndex = None" for k
    using ShardIndex_less [of hash0 k] by (simp add: probe_def empty_KeyIndex_def)
  have a: "fst ?a = 0" "reverse_keys (snd ?a) = [''ok'']"
    using none [of "''ok''"] by (simp_all add: GetOrInsert_def locked_insert_def Let_def empty_KeyIndex_def)
  have inv: "key_inv hash0 (snd ?a)"
    by (rule key_inv_GetOrInsert [OF key_inv_empty]) (simp add: key_room_def empty_KeyIndex_def)
  have n: "probe hash0 ''n'' (snd ?a) = None"
    using probe_GetOrInsert(2) [OF key_inv_empty, of "''n''" "''ok''" hash0] none by simp
  have b: "fst ?b = 1" using n a(2) by (simp add: GetOrInsert_def locked_insert_def Let_def)
  have keys: "sample_keys = snd ?b" by (simp add: sample_keys_def)
  show "probe hash0 ''n'' sample_keys = Some 1" unfolding keys using probe_GetOrInsert(1) [OF inv, of "''n''"] b by simp
  show "probe hash0 ''ok'' sample_keys = Some 0"
    unfolding keys using probe_GetOrInsert(3) [OF inv, of "''ok''" 0] probe_GetOrInsert(1) [OF key_inv_empty, of hash0 "''ok''"] a(1)
    by simp
  show "probe hash0 ''lvl'' sample_keys = None"
    unfolding keys using probe_GetOrInsert(2) [OF inv, of "''lvl''" "''n''"] probe_GetOrInsert(2) [OF key_inv_empty, of "''lvl''" "''ok''" hash0] none
    by simp
qed

lemma parse_methods: "ParseLevelName ''GET'' = None" "ParseLevelName ''PUT'' = None"
proof -
  have "map tolower ''GET'' = ''get''" "map tolower ''PUT'' = ''put''" by code_simp+
  then show "ParseLevelName ''GET'' = None" "ParseLevelName ''PUT'' = None"
    by (simp_all only: ParseLevelName_eq, simp_all add: BUILTIN_ALIASES_def)
qed

section \<open>Filters\<close>



text \<open>C2: the bitset evaluator of \<open>FilterAcceptedRows\<close> and its row-by-row evaluator return the same
  rows in the same order, for every tree whose leaf addresses identify their predicates and for
  every way the rows are spread over threads.\<close>

theorem bitset_path_is_visit_path:
  assumes "\<And>i. valid_schedule (RowCount t) (leafScheds i)" "valid_schedule (RowCount t) visitSched"
    and "consistent (CollectLeafsInVisitOrder e)"
  shows "bitset_rows fm leafScheds t e = visit_rows fm visitSched t e"
  using bitset_rows_eq [OF assms(1,3)] visit_rows_eq [OF assms(2)] by simp

theorem bitset_path_is_visit_path_witness:
  "bitset_rows (env_externals sample_env) (\<lambda>_. [[2], [0, 1]]) sample_table (COr [CLeaf 7 (PBool 0 True False) 1 [], make_not (CLeaf 8 (PTime 1 6 8) 3 [])] 1 [])
    = visit_rows (env_externals sample_env) [[2], [0, 1]] sample_table (COr [CLeaf 7 (PBool 0 True False) 1 [], make_not (CLeaf 8 (PTime 1 6 8) 3 [])] 1 [])"
  by (rule bitset_path_is_visit_path [OF sample_schedule sample_schedule]) (simp add: consistent_def make_not_def)

text \<open>C3: a multi-select over an enum column stays right when the dictionary grows after the predicate
  was built: on a cell with a dictionary id it matches if and only if the id's text is one of the
  selected values.\<close>

theorem stale_enum_predicate_right:
  assumes "dict_inv d" "vals \<noteq> []"
    and "d' = fold (\<lambda>s d. snd (dict_Insert s d)) ks d"
    and "GetEnumValueId table row c = Some vid" "unat vid < length (mValues d')"
    and "GetValue table row c = VView None (dict_Resolve d' vid)"
  shows "match_enum (make_EnumRowPredicate c vals (Some d)) table row \<longleftrightarrow> dict_Resolve d' vid \<in> set vals"
  by (rule match_enum_dict_ref [OF assms])

theorem stale_enum_predicate_right_witness:
  "match_enum (make_EnumRowPredicate 0 [''PUT''] (Some sample_dict)) sample_enum_table 0"
  using stale_enum_predicate_right [OF sample_dict_inv, of "[''PUT'']" sample_dict_grown "[''PUT'']" sample_enum_table 0 0 1]
  by (simp add: sample_enum_cell sample_dict_grown_values dict_Resolve_def) (simp add: sample_dict_grown_def)

text \<open>C4: a time range matches a cell if and only if the cell has a time in microseconds inside the
  range, for time stamps, signed and unsigned integers, except for an unsigned 0 when the whole
  range lies before the epoch.\<close>

theorem time_range_right:
  assumes "begin < 2 ^ 63" "end < 2 ^ 63" "0 \<le> end \<or> GetValue table row c \<noteq> VUint64 0"
  shows "match_time c begin end table row \<longleftrightarrow>
    (case AsEpochMicroseconds (GetValue table row c) of Some t \<Rightarrow> begin \<le> t \<and> t \<le> end | None \<Rightarrow> False)"
  by (rule match_time_epoch [OF assms])

theorem time_range_right_witness:
  "match_time 1 6 8 sample_table 1 \<and> \<not> match_time 1 6 8 sample_table 2 \<and> \<not> match_time 0 6 8 sample_table 0"
  by (simp add: time_range_right [of 6 8] sample_cells [simplified] AsEpochMicroseconds_def)

text \<open>C5: the exception is real: an unsigned 0 (the epoch itself) matches every non-empty range that
  ends before the epoch, because the upper bound is clamped to 0.\<close>

theorem time_range_epoch_leak:
  assumes "GetValue table row c = VUint64 0" "begin \<le> end" "end < 0"
  shows "match_time c begin end table row \<and>
    (\<forall>t. AsEpochMicroseconds (GetValue table row c) = Some t \<longrightarrow> \<not> (begin \<le> t \<and> t \<le> end))"
  using match_time_unsigned_zero [OF assms] assms by (simp add: AsEpochMicroseconds_def)

theorem time_range_epoch_leak_witness: "match_time 0 (-5) (-1) sample_zero_table 0"
  using time_range_epoch_leak [of sample_zero_table 0 0 "-5" "-1"] sample_zero_cell by simp

text \<open>A numeric range matches a cell if and only if the cell holds a number that is not NaN and lies
  within the bounds, where a NaN bound counts as no bound.\<close>

theorem numeric_range_right:
  "MatchesRow fm (make_NumericRange c lo hi) table row \<longleftrightarrow>
     (\<exists>x. numeric_slot (GetValue table row c) = Some x \<and> \<not> isnan x \<and>
        (\<forall>l. lo = Some l \<and> \<not> isnan l \<longrightarrow> d_less l x \<or> d_eq l x) \<and>
        (\<forall>h. hi = Some h \<and> \<not> isnan h \<longrightarrow> d_less x h \<or> d_eq x h))"
  by (rule match_numeric_bounds)

theorem numeric_range_right_witness:
  "\<not> MatchesRow (env_externals sample_env) (make_NumericRange 0 (Some (DNaN True)) (Some (DNum False 0))) sample_table 0"
  by (simp add: numeric_range_right sample_cells numeric_slot_def)

text \<open>Every node of a compiled expression has its children in the order of their estimated cost.\<close>

theorem compiled_cheapest_first:
  assumes "is_cost_sort (cost_sort env)"
  shows "cheap_first (CompileExpression env columns table e)"
  by (rule CompileExpression_cheap_first [OF assms])

theorem compiled_cheapest_first_witness:
  "cheap_first (CompileExpression sample_env sample_columns (Some sample_table) sample_filter)"
  by (rule compiled_cheapest_first [OF sample_cost_sort])

text \<open>The referenced columns of a compiled expression are the columns of its leaves, ascending and
  without duplicates, whatever was dropped on the way.\<close>

theorem compiled_referenced_columns:
  assumes "is_cost_sort (cost_sort env)"
  shows "referencedColumns (CompileExpression env columns table e) =
    sorted_list_of_set ((RowPredicateColumn \<circ> snd) ` set (CollectLeafsInVisitOrder (CompileExpression env columns table e)))"
  using CompileExpression_referenced [OF assms, of columns table e]
  by (metis sorted_list_of_set.idem_if_sorted_distinct)

theorem compiled_referenced_columns_witness:
  "referencedColumns (CompileExpression sample_env sample_columns (Some sample_table) sample_filter) = [0, 1]"
proof -
  have "set (CollectLeafsInVisitOrder (CompileExpression sample_env sample_columns (Some sample_table) sample_filter)) =
      {(0, PBool 0 True False), (1, PTime 1 6 8)}"
    by (simp add: sample_filter_def CompileExpression_def compile_leaf_node_def sample_compiled make_leaf_def or_node_def
        make_not_def Let_def sample_sort EstimatedLeafCost_def)
  then show ?thesis
    using compiled_referenced_columns [OF sample_cost_sort, of sample_columns "Some sample_table" sample_filter]
    by (simp add: RowPredicateColumn_def)
qed

text \<open>A compiled expression has as many different leaf addresses as leaves, even where the source
  repeats a leaf: the sharing of bitsets between repeated leaves never applies.\<close>

theorem repeated_leaves_not_shared:
  assumes "is_cost_sort (cost_sort env)"
  shows "uniqueLeafCount (fst (CollectShape (CompileExpression env columns table e) (empty_shape, []))) =
    leafCount (fst (CollectShape (CompileExpression env columns table e) (empty_shape, [])))"
  by (rule CompileExpression_unique_leaves [OF assms])

theorem repeated_leaves_not_shared_witness:
  "uniqueLeafCount (fst (CollectShape (CompileExpression sample_env sample_columns (Some sample_table)
      (FAnd [FLeaf sample_leaf_ok, FLeaf sample_leaf_ok])) (empty_shape, []))) = 2"
proof -
  have "leafCount (fst (CollectShape (CompileExpression sample_env sample_columns (Some sample_table)
      (FAnd [FLeaf sample_leaf_ok, FLeaf sample_leaf_ok])) (empty_shape, []))) = 2"
    by (simp add: CompileExpression_def compile_leaf_node_def sample_compiled make_leaf_def and_node_def
        Let_def sample_sort EstimatedLeafCost_def empty_shape_def)
  then show ?thesis by (simp add: repeated_leaves_not_shared [OF sample_cost_sort])
qed

section \<open>The query language\<close>

text \<open>C6: parsing always returns, an expression or an error: the recursive descent with its list loop
  ends on every input, within a fuel linear in its length, and more fuel changes nothing.\<close>

theorem query_parser_returns:
  "ParseQuery input \<noteq> PFuel \<and> (query_fuel input \<le> n \<longrightarrow> Parse n input = ParseQuery input)"
  using ParseQuery_no_fuel Parse_fuel_irrelevant by blast

theorem query_parser_returns_witness: "Parse 4000 ''a:b AND NOT (c = 3)'' \<noteq> PFuel"
  using query_parser_returns [of "''a:b AND NOT (c = 3)''" 4000] by (simp add: query_fuel_def)

text \<open>C7: a time stamp that the printer writes in ISO form is read back to the microsecond, for every
  instant of the years 0 to 9999.\<close>

theorem timestamp_roundtrip:
  assumes "formattable m"
  shows "ParseIsoTimestamp (FormatTimestampMicros m) = Some m"
  by (rule Parse_Format_timestamp [OF assms])

theorem timestamp_roundtrip_witness:
  "ParseIsoTimestamp (FormatTimestampMicros (-1)) = Some (-1)"
proof (rule timestamp_roundtrip)
  have "cd_year (CivilFromDays (-1)) = 1969" by code_simp
  then show "formattable (-1)" by (simp add: formattable_def day_of_def)
qed

text \<open>C8: the civil date of a day number, before or after the epoch, is a valid Gregorian date whose
  day number it is.\<close>

theorem civil_date_valid:
  "1 \<le> cd_month (CivilFromDays z) \<and> cd_month (CivilFromDays z) \<le> 12 \<and>
   1 \<le> cd_day (CivilFromDays z) \<and>
   cd_day (CivilFromDays z) \<le> DaysInMonth (cd_year (CivilFromDays z)) (cd_month (CivilFromDays z)) \<and>
   days_from_fields (cd_year (CivilFromDays z)) (cd_month (CivilFromDays z)) (cd_day (CivilFromDays z)) = z"
  using CivilFromDays_valid [of z] by blast

text \<open>The comparisons \<open>col > n\<close> and \<open>col < n\<close> select exactly the cells whose number is greater
  (smaller) than \<open>n\<close>, although the leaf stores inclusive bounds: the bound is the next double.\<close>

theorem strict_comparison_right:
  assumes "ParseIsoTimestamp text = None" "ParseDouble text = Some n"
    and "\<not> isnan n" "\<bar>dkey n\<bar> \<noteq> int inf_mag"
    and "filterMinValue rule = None" "filterMaxValue rule = None"
    and "numeric_slot (GetValue t row c) = Some x" "wf_double x" "\<not> isnan x"
  shows "(\<forall>gt. compare_rule rule TkGt text = Some gt \<longrightarrow>
      (MatchesRow fm (make_NumericRange c (filterMinValue gt) (filterMaxValue gt)) t row \<longleftrightarrow> d_less n x)) \<and>
    (\<forall>lt. compare_rule rule TkLt text = Some lt \<longrightarrow>
      (MatchesRow fm (make_NumericRange c (filterMinValue lt) (filterMaxValue lt)) t row \<longleftrightarrow> d_less x n))"
  using compare_strict [OF assms] by blast

theorem strict_comparison_right_witness:
  "MatchesRow (env_externals sample_env) (make_NumericRange 0 (Some (nextafter_up (DNum False 0))) None) sample_double_table 0"
proof -
  have iso: "ParseIsoTimestamp ''0'' = None" by (simp add: ParseIsoTimestamp_def)
  have two: "numeric_slot (GetValue sample_double_table 0 0) = Some (DNum False (2 ^ 62))"
    "wf_double (DNum False (2 ^ 62))" "\<not> isnan (DNum False (2 ^ 62))" "d_less (DNum False 0) (DNum False (2 ^ 62))"
    by (simp_all add: sample_double_cell numeric_slot_def wf_double_def inf_mag_def isnan_def d_less_def dkey_def)
  have "compare_rule default_LeafRule TkGt ''0'' =
      Some (default_LeafRule\<lparr>leafType := TNumber, filterMinValue := Some (nextafter_up (DNum False 0))\<rparr>)"
    by (simp add: compare_rule_def iso parse_zero)
  with strict_comparison_right [OF iso parse_zero _ _ _ _ two(1-3), of default_LeafRule "env_externals sample_env"] two(4)
  show ?thesis by (simp add: default_LeafRule_def isnan_def dkey_def inf_mag_def)
qed

text \<open>A column name or a value that the printer writes, quoted and escaped where it must be, is
  read back as one token with the same text, whatever bytes it has.\<close>

theorem printed_word_is_one_token:
  assumes "ident_ends rest"
  shows "reads (FormatIdent word) rest TkIdent word \<or> reads (FormatIdent word) rest TkQuoted word"
  using reads_FormatIdent [OF assms] by metis

theorem printed_word_is_one_token_witness:
  "reads (FormatIdent ''a \<newline>b'') '':x'' TkIdent ''a \<newline>b'' \<or> reads (FormatIdent ''a \<newline>b'') '':x'' TkQuoted ''a \<newline>b''"
  by (rule printed_word_is_one_token) (simp add: ident_ends_def IsIdentChar_def isalnum_def isalpha_def isupper_def islower_def isdigit_def)

text \<open>A token other than the end consumes at least one byte, and no token runs past the input.\<close>

theorem token_progress:
  assumes "Next lx = Inr (token, lx')"
  shows "length (mRest lx') \<le> length (mRest lx) \<and>
    (tkind token \<noteq> TkEnd \<longrightarrow> length (mRest lx') < length (mRest lx))"
  using Next_size [OF assms] by (auto simp: lexed_size_def split: if_splits)

theorem token_progress_witness:
  "length (mRest (\<lparr>mPos = 1, mRest = '' b''\<rparr> :: Lexer)) < length (mRest (\<lparr>mPos = 0, mRest = ''( b''\<rparr> :: Lexer))"
proof -
  have "Next \<lparr>mPos = 0, mRest = ''( b''\<rparr> = Inr (\<lparr>tkind = LParen, ttext = [], toffset = 0\<rparr>, \<lparr>mPos = 1, mRest = '' b''\<rparr>)"
    by code_simp
  from token_progress [OF this] show ?thesis by simp
qed

section \<open>Parsing\<close>

definition sample_dates :: date_lib where
  "sample_dates =
     \<lparr>ymd_ok = \<lambda>y m d. 1 \<le> m \<and> m \<le> 12 \<and> 1 \<le> d \<and> d \<le> DaysInMonth y m, sys_days = days_from_fields,
      from_stream = \<lambda>_ _. None, now_year = 2024, now_month = 1\<rparr>"

lemma sample_gregorian: "gregorian sample_dates"
  by (simp add: gregorian_def sample_dates_def)





text \<open>C11: a logfmt record that the printer writes is read back pair by pair, whatever the string values
  contain (spaces, quotes, backslashes, line breaks, nothing at all).\<close>

theorem logfmt_roundtrip:
  assumes "\<forall>(k, v)\<in>set kvs. key_text k"
  shows "\<exists>fs. TokenizeLogfmtLine (logfmt_pairs ex True [] (map (\<lambda>(k, v). (k, VString v)) kvs)) = (fs, True) \<and>
    map (\<lambda>f. (lfKey f, lfValue f)) fs = kvs \<and> list_all (\<lambda>f. \<not> valueIsNull f) fs"
proof -
  obtain fs where "TokenizeLogfmtLine (logfmt_pairs ex True [] (map (\<lambda>(k, v). (k, VString v)) kvs)) = (fs, True)"
      "list_all2 reads_pair kvs fs"
    using printed_pairs_read [OF assms, of ex] by blast
  then show ?thesis using reads_pair_list by blast
qed

theorem logfmt_roundtrip_witness:
  "\<exists>fs. TokenizeLogfmtLine (logfmt_pairs (env_externals sample_env) True [] [(''msg'', VString ''a b''), (''x'', VString [])]) = (fs, True) \<and>
    map (\<lambda>f. (lfKey f, lfValue f)) fs = [(''msg'', ''a b''), (''x'', [])] \<and> list_all (\<lambda>f. \<not> valueIsNull f) fs"
  using logfmt_roundtrip [of "[(''msg'', ''a b''), (''x'', [])]" "env_externals sample_env"]
  by (simp add: key_text_def key_byte_def)

text \<open>C12: a CSV header gives every column a key of its own: repeated names are told apart by suffixes, no
  two columns share a key id, and each key id stands for the name of its column, so the fields of a record
  never collide.\<close>

theorem csv_header_keys_distinct:
  assumes "key_inv (std_hash ex) ki" "length (reverse_keys ki) + length headerLine < 2 ^ 32 - 1"
    "ParseHeaderLine ex headerLine ki = (True, kids, ki')"
  shows "key_inv (std_hash ex) ki' \<and> distinct kids \<and>
    map (\<lambda>k. KeyOf k ki') kids = map Some (DeduplicateColumnNames (map cellText (fst (TokenizeCsvLine headerLine))))"
  by (rule ParseHeaderLine_keys [OF assms])

theorem csv_header_keys_distinct_witness:
  "distinct (fst (snd (ParseHeaderLine (env_externals sample_env) ''a,a'' empty_KeyIndex)))"
proof -
  let ?ex = "env_externals sample_env"
  obtain kids ki' where parse: "ParseHeaderLine ?ex ''a,a'' empty_KeyIndex = (True, kids, ki')"
    by (cases "intern_names ?ex (DeduplicateColumnNames [''a'', ''a'']) empty_KeyIndex")
       (simp add: ParseHeaderLine_def TokenizeCsvLine_def csv_cells.simps)
  have "length (reverse_keys empty_KeyIndex) + length ''a,a'' < 2 ^ 32 - 1" by (simp add: empty_KeyIndex_def)
  from csv_header_keys_distinct [OF key_inv_empty this parse] parse show ?thesis by simp
qed







text \<open>Inserting a field into the fields of a record keeps them sorted by key and updates them as a map,
  in the scan from the back of a short record and in the binary search of a long one: the last value of a
  repeated key wins.\<close>

theorem insert_sorted_is_map_update:
  assumes "sorted_fields out"
  shows "sorted_fields (InsertSorted kid v out) \<and> map_of (InsertSorted kid v out) = (map_of out)(kid \<mapsto> v)"
  by (rule InsertSorted_update [OF assms])

theorem insert_sorted_is_map_update_witness:
  "map_of (InsertSorted 2 (MakeBool True) [(1, MakeMonostate), (3, MakeMonostate)]) 2 = Some (MakeBool True)"
proof -
  have "sorted_fields [(1, MakeMonostate), (3, MakeMonostate)]" by (simp add: sorted_fields_def)
  from insert_sorted_is_map_update [OF this, of 2 "MakeBool True"] show ?thesis by simp
qed

text \<open>C15: a text that the time column parser accepts in ISO form denotes, typed as a literal of the query
  language, the same instant to the microsecond; so a query on the text of a cell finds the cell.\<close>

theorem column_time_is_query_literal:
  assumes "gregorian dl" "sep = CHR ''T'' \<or> sep = CHR '' ''" "TryParseIsoTimestamp dl sv sep = Some t"
  shows "ParseIsoTimestamp sv = Some (sint t)"
  by (rule column_time_is_query_time [OF assms])

theorem column_time_is_query_literal_witness: "ParseIsoTimestamp ''1970-01-01T00:00:01.5Z'' = Some 1500000"
proof -
  have "TryParseIsoTimestamp sample_dates ''1970-01-01T00:00:01.5Z'' CHR ''T'' = Some 1500000"
    by (simp add: TryParseIsoTimestamp_def ParseFixedDigits_def numeral_eq_Suc isdigit_def iso_suffix_def iso_fraction_def Let_def
        time_stamp_def sample_dates_def DaysInMonth_def days_from_fields_def signed_divide_int_def)
  from column_time_is_query_literal [OF sample_gregorian _ this] show ?thesis by simp
qed

text \<open>C16: the short cuts of the time stamp parser change nothing: back-filling a column with the cache of
  the last bytes gives every line the value, and reports the errors, of the plain search that tries the
  format that worked last and then every key with every format.\<close>

theorem backfill_cache_is_transparent:
  "BackfillTimestampColumn ex dl ki source column ls =
    reference_backfill dl column source (spec_of (map (\<lambda>k. Find_key (std_hash ex) k ki) (keys column)) column) None ls"
  using backfill_reference [OF hit_inv_fresh] by (simp add: BackfillTimestampColumn_def fresh_scratch_def)

section \<open>Storage\<close>

text \<open>C17: threads that intern keys into an empty key index, interleaved in any way between their probes and
  their inserts, agree: two finished threads have the same id if and only if they interned the same
  key, and the id resolves to the key.\<close>

theorem concurrent_key_ids_agree:
  assumes "(key_step hash)\<^sup>*\<^sup>* (empty_KeyIndex, map TStart ks) (ki, ts)"
    and "TDone k i \<in> set ts" "TDone k' i' \<in> set ts"
  shows "(i = i' \<longleftrightarrow> k = k') \<and> KeyOf i ki = Some k"
proof -
  have "threads_ok hash (empty_KeyIndex, map TStart ks)" using key_inv_empty by (auto simp: threads_ok_def)
  then have ok: "threads_ok hash (ki, ts)" using threads_ok_steps [OF assms(1)] by blast
  then have inv: "key_inv hash ki" and finished: "probe hash k ki = Some i" "probe hash k' ki = Some i'"
    using assms(2,3) by (auto simp: threads_ok_def)
  have "i = i' \<longleftrightarrow> k = k'" using keys.lookup_inj [OF inv] finished by auto
  moreover have "KeyOf i ki = Some k" using key_inv_probe [OF inv] finished by blast
  ultimately show ?thesis by blast
qed

theorem concurrent_key_ids_agree_witness: "KeyOf 0 one_key = Some ''a''"
proof (rule concurrent_key_ids_agree [THEN conjunct2])
  have "key_step hash0 (empty_KeyIndex, [TStart ''a'', TStart ''a'']) (empty_KeyIndex, [TProbed ''a'', TStart ''a''])"
    using key_step.miss [of 0 "[TStart ''a'', TStart ''a'']", OF _ _ one_key(1)] by simp
  moreover have "key_step hash0 (empty_KeyIndex, [TProbed ''a'', TStart ''a'']) (empty_KeyIndex, [TProbed ''a'', TProbed ''a''])"
    using key_step.miss [of 1 "[TProbed ''a'', TStart ''a'']", OF _ _ one_key(1)] by simp
  moreover have "key_step hash0 (empty_KeyIndex, [TProbed ''a'', TProbed ''a'']) (one_key, [TDone ''a'' 0, TProbed ''a''])"
    using key_step.insert [of 0 "[TProbed ''a'', TProbed ''a'']", OF _ _ one_key(5,2)] by simp
  moreover have "key_step hash0 (one_key, [TDone ''a'' 0, TProbed ''a'']) (one_key, [TDone ''a'' 0, TDone ''a'' 0])"
    using key_step.insert [of 1 "[TDone ''a'' 0, TProbed ''a'']", OF _ _ one_key(6,4)] by simp
  ultimately show "(key_step hash0)\<^sup>*\<^sup>* (empty_KeyIndex, map TStart [''a'', ''a'']) (one_key, [TDone ''a'' 0, TDone ''a'' 0])"
    by (simp add: converse_rtranclp_into_rtranclp)
qed simp_all

text \<open>C18: a value that is set in a line is read back (a string comes back with its bytes, whether it was
  stored as a slice of the file or in the source's arena), every other field keeps its value, and
  the fields stay sorted.\<close>

theorem set_value_read_back:
  assumes "line_inv line" "mSize (mFields line) < 2 ^ 32 - 1" "source_inv src" "value_ok src v"
    and "SetValue kid v line src = Some (line', src')" "source_fits src'"
    and "\<forall>k c. FindCompact k line = Some c \<longrightarrow> slot_ok src (mLineId line) c"
  shows "same_value (GetValue_id kid (Some src') line') v \<and>
    (\<forall>k. k \<noteq> kid \<longrightarrow> GetValue_id k (Some src') line' = GetValue_id k (Some src) line) \<and>
    sorted_fields (mData (mFields line'))"
  using GetValue_SetValue [OF assms(1-6)] assms(7) by blast

theorem set_value_read_back_witness:
  "\<exists>line' src'. SetValue 1 (VString ''x'') sample_line sample_source = Some (line', src') \<and>
     same_value (GetValue_id 1 (Some src') line') (VString ''x'') \<and>
     GetValue_id 0 (Some src') line' = VBool True"
proof -
  obtain line' src' where stored: "SetValue 1 (VString ''x'') sample_line sample_source = Some (line', src')"
    and impl: "impl src' = FileSource (new_LogFile ''a''\<lparr>mOwnedStrings := ''x''\<rparr>)"
    by (simp add: SetValue_def MakeCompactFromVariant_def PromoteToOwnedString_def AppendOwnedBytes_def
        AppendOwnedStrings_def sample_source_def new_LogFile_def)
  have ok: "value_ok sample_source (VString ''x'')" "source_fits src'"
    by (simp_all add: value_ok_def source_fits_def impl StableBytes_def source_arena_def new_LogFile_def)
  note reads_back = set_value_read_back [OF sample_line_inv sample_source_inv ok(1) stored ok(2)]
  have "GetValue_id 0 (Some sample_source) sample_line = VBool True"
    by (simp add: GetValue_id_def sample_line_def LogLine_compact_def AssignSorted_def FindCompact_def Materialise_def MakeBool_def)
  moreover have "same_value (GetValue_id 1 (Some src') line') (VString ''x'') \<and>
      GetValue_id 0 (Some src') line' = GetValue_id 0 (Some sample_source) sample_line"
    using reads_back sample_line_slot by (metis zero_neq_one)
  ultimately show ?thesis using stored by auto
qed

text \<open>C19: writing one field of a line (binary search, then overwrite or insert with the array grown and
  shifted) is an update of the finite map from keys to slots, and keeps the fields sorted.\<close>

theorem set_compact_is_map_update:
  assumes "sorted_fields (mData f)" "fields_inv f" "mSize f < 2 ^ 32 - 1"
  shows "map_of (mData (set_compact kid c f)) = (map_of (mData f))(kid \<mapsto> c) \<and>
    sorted_fields (mData (set_compact kid c f))"
proof -
  note facts = find_set_compact [OF assms]
  have "map_of (mData (set_compact kid c f)) = (map_of (mData f))(kid \<mapsto> c)"
    using facts by (auto simp: find_compact_map_of [symmetric] assms(1) fun_eq_iff)
  then show ?thesis using facts(2) by blast
qed

theorem set_compact_is_map_update_witness:
  "map_of (mData (set_compact 5 MakeMonostate (mFields sample_line))) 5 = Some MakeMonostate"
  using set_compact_is_map_update [of "mFields sample_line" 5 MakeMonostate] sample_line_inv by (simp add: line_inv_def)



text \<open>A stream keeps exactly the lines at or behind the eviction point: their text and their arenas
  stay, and every earlier line is gone.\<close>

theorem stream_eviction:
  assumes "stream_inv s"
  shows "(n \<le> l \<longrightarrow> stream_RawLine (EvictBefore n s) l = stream_RawLine s l \<and>
      stream_ResolveOwned off len l (EvictBefore n s) = stream_ResolveOwned off len l s) \<and>
    (l < n \<longrightarrow> stream_RawLine (EvictBefore n s) l = None) \<and> stream_inv (EvictBefore n s)"
  using stream_RawLine_evict [OF assms] stream_RawLine_evicted [OF assms] stream_inv_EvictBefore [OF assms]
    stream_arena.resolve_slice [OF assms, of off len l]
    stream_arena.resolve_slice [OF stream_inv_EvictBefore [OF assms, of n], of off len l]
  by auto

theorem stream_eviction_witness:
  "stream_RawLine (EvictBefore 2 sample_stream) 2 = Some ''b'' \<and> stream_RawLine (EvictBefore 2 sample_stream) 1 = None"
  using stream_eviction [OF sample_stream_inv(1), of 2 2 0 0] stream_eviction [OF sample_stream_inv(1), of 2 1 0 0]
  by (simp add: sample_stream_def AppendLine_def new_StreamLineSource_def stream_RawLine_def LineIsLive_def IndexFor_def)

text \<open>C21: a file whose line offsets were registered gives back the text of each line, without the
  carriage return of a \<open>CRLF\<close> line end, whether or not its last line ends in a newline.\<close>

theorem file_lines_read_back:
  assumes "i < length ls" "bytes = terminated ls \<or> bytes @ [NEWLINE] = terminated ls"
  shows "GetLine (AppendLineOffsets (offsets_behind ls) (new_LogFile bytes)) i = Some (strip_return (ls ! i))"
  by (rule GetLine_lines [OF assms])

theorem file_lines_read_back_witness:
  "GetLine (AppendLineOffsets (offsets_behind [''ab'' @ [RETURN], ''c'']) (new_LogFile (''ab'' @ [RETURN, NEWLINE] @ ''c''))) 0 = Some ''ab''"
  using file_lines_read_back [of 0 "[''ab'' @ [RETURN], ''c'']" "''ab'' @ [RETURN, NEWLINE] @ ''c''"]
  by (simp add: terminated_def strip_return_def)

section \<open>Dictionaries and levels\<close>

text \<open>C22: an id that a dictionary gave out for a value stays the id of that value, and no other value ever
  gets it, whatever is inserted later; an insert is refused only for an unknown value in a full
  dictionary.\<close>

theorem enum_ids_stable:
  assumes "dict_inv d" "dict_Insert s d = (i, d')"
  shows "(i = INVALID_ENUM_VALUE_ID \<longleftrightarrow> mIndex d s = None \<and> dict_Full d) \<and>
    (i \<noteq> INVALID_ENUM_VALUE_ID \<longrightarrow>
      dict_Resolve (fold (\<lambda>s d. snd (dict_Insert s d)) later d') i = s \<and>
      dict_Find (fold (\<lambda>s d. snd (dict_Insert s d)) later d') s = i)"
proof -
  let ?later = "fold (\<lambda>s d. snd (dict_Insert s d)) later d'"
  have inv': "dict_inv d'" using dict_inv_Insert [OF assms(1), of s] assms(2) by simp
  have "i = INVALID_ENUM_VALUE_ID \<longleftrightarrow> mIndex d s = None \<and> dict_Full d"
    using assms(1)
  proof (cases rule: dict_Insert_cases [where s = s])
    case (known j)
    then show ?thesis using dict_Find_found [OF assms(1), of s] assms(2) by (auto simp: dict_Find_def)
  next
    case fresh
    then have "i = word_of_nat (length (mValues d))" using assms(2) by simp
    then have "unat i = length (mValues d)" using unat_new_id [OF assms(1)] by simp
    then show ?thesis using fresh assms(1) unat_invalid by (auto simp: dict_inv_def)
  qed (use assms(2) in auto)
  moreover have "dict_Resolve ?later i = s \<and> dict_Find ?later s = i" if valid: "i \<noteq> INVALID_ENUM_VALUE_ID"
  proof -
    have "mIndex d' s = Some i"
    using dict_Insert_resolves(2) [OF assms valid] valid by (auto simp: dict_Find_def split: option.splits)
    then have "mIndex ?later s = Some i" using dict.lookup_inserts [OF inv'] room_for_always by metis
    moreover have "dict_inv ?later" using dict.inv_inserts [OF inv'] room_for_always by metis
    ultimately show ?thesis by (simp add: dict_Resolve_known dict_Find_def)
  qed
  ultimately show ?thesis by blast
qed

theorem enum_ids_stable_witness:
  "dict_Resolve (fold (\<lambda>s d. snd (dict_Insert s d)) [''PUT'', ''GET''] (snd (dict_Insert ''GET'' (new_EnumDictionary 64)))) 0 = ''GET''"
proof -
  have ins: "dict_Insert ''GET'' (new_EnumDictionary 64) = (0, snd (dict_Insert ''GET'' (new_EnumDictionary 64)))"
    by (simp add: dict_Insert_def dict_Find_def dict_Full_def new_EnumDictionary_def MAX_ENUM_VALUES_def Let_def
        min_def max_def word_le_nat_alt)
  have "(0 :: EnumValueId) \<noteq> INVALID_ENUM_VALUE_ID" by (simp add: INVALID_ENUM_VALUE_ID_def)
  with enum_ids_stable [OF dict_inv_new ins] show ?thesis by blast
qed

text \<open>The registry keeps its invariant (the index is exactly the union of the alias lists) through
  every operation.\<close>

theorem registry_invariant:
  assumes "reg_inv r"
  shows "reg_inv (snd (reg_GetOrInsert key cap r)) \<and> reg_inv (snd (reg_Alias canonical al r)) \<and>
    reg_inv (reg_Erase canonical r) \<and> reg_inv (reg_Clear r) \<and> reg_inv (snd (reg_Insert key bytes r))"
  using reg_inv_GetOrInsert [OF assms] reg_inv_Alias [OF assms] reg_inv_Erase [OF assms] reg_inv_Clear
    reg_inv_Insert [OF assms] by blast

theorem registry_invariant_witness:
  "reg_inv (reg_Erase 3 (snd (reg_Alias 3 4 (snd (reg_GetOrInsert 3 64 empty_registry)))))"
  using registry_invariant reg_inv_empty by metis

text \<open>An alias key reads the dictionary of its canonical key, and erasing a canonical key removes its
  dictionary for it and all of its aliases and for no other key.\<close>

theorem alias_shares_and_erase_removes:
  assumes "reg_inv r"
  shows "(fst (reg_Alias canonical al r) \<and> canonical \<noteq> al \<longrightarrow>
      reg_Find (snd (reg_Alias canonical al r)) al = reg_Find (snd (reg_Alias canonical al r)) canonical \<and>
      reg_Find (snd (reg_Alias canonical al r)) al \<noteq> None) \<and>
    (mDictionaries r canonical \<noteq> None \<longrightarrow>
      reg_Find (reg_Erase canonical r) key =
        (if reg_Contains r key \<and> mRegIndex r key \<noteq> Some canonical then reg_Find r key else None))"
  using reg_Find_shared [OF assms] reg_Find_erased [OF assms] by blast

theorem alias_shares_and_erase_removes_witness:
  "reg_Find (snd (reg_Alias 3 4 (snd (reg_GetOrInsert 3 64 empty_registry)))) 4 \<noteq> None"
proof -
  have distinct_keys: "(3 :: KeyId) \<noteq> 4" by simp
  have "fst (reg_Alias 3 4 (snd (reg_GetOrInsert 3 64 empty_registry)))"
    by (simp add: reg_Alias_def reg_GetOrInsert_def empty_registry_def)
  with alias_shares_and_erase_removes [OF reg_inv_GetOrInsert [OF reg_inv_empty]] distinct_keys show ?thesis by blast
qed

text \<open>Refreshing the level ranks of a column makes the cache rank every value of its dictionary by the
  level the value resolves to, keeping the ranks it already had.\<close>

theorem level_ranks_refreshed:
  assumes "dict_inv d" "i < length (tcolumns t)" "ctype (tcolumns t ! i) = CtLevel"
    and "canonical = first_known_key ex t (keys (tcolumns t ! i))" "canonical \<noteq> INVALID_KEY_ID"
    and "reg_Find (tEnumDictionaries t) canonical = Some d"
    and "\<And>r. mLevelRankCache t canonical = Some r \<Longrightarrow> ranks_ok (tcolumns t ! i) d r"
  shows "mLevelRankCache (RefreshLevelRankCache ex i t) canonical =
    Some (map (level_of_value (tcolumns t ! i)) (mValues d))"
  by (rule RefreshLevelRankCache_ranks [OF assms])

theorem level_ranks_refreshed_witness:
  "mLevelRankCache (RefreshLevelRankCache (env_externals sample_env) 0 sample_level_table) 0 = Some [LvUnknown, LvUnknown]"
proof -
  have known: "first_known_key (env_externals sample_env) sample_level_table (keys (tcolumns sample_level_table ! 0)) = 0"
    using sample_keys_probe by (simp add: sample_level_table_def one_cell_table_def find_key_def Find_key_def sample_env_def INVALID_KEY_ID_def)
  have ranks: "map (level_of_value (tcolumns sample_level_table ! 0)) (mValues sample_dict_grown) = [LvUnknown, LvUnknown]"
    using parse_methods by (simp add: sample_dict_grown_values level_of_value_def sample_level_table_def)
  have inv: "dict_inv sample_dict_grown" unfolding sample_dict_grown_def by (rule dict_inv_Insert [OF sample_dict_inv])
  show ?thesis
    unfolding ranks [symmetric]
    by (rule level_ranks_refreshed [OF inv, where canonical = 0])
      (simp_all only: known, simp_all add: sample_level_table_def one_cell_table_def INVALID_KEY_ID_def sample_registry_def reg_Find_def)
qed



text \<open>The level of a text does not depend on the case of its ASCII letters, is never Unknown, and a
  usable override for the text wins over later overrides and over the built-in table.\<close>

theorem level_resolution:
  "(map tolower s = map tolower s' \<longrightarrow> ResolveLevel s ovs = ResolveLevel s' ovs) \<and>
   ResolveLevel s ovs \<noteq> Some LvUnknown \<and>
   (ParseLevelName canonicalName = Some level \<and> ascii_case_equal s a \<and>
      (\<forall>(a, c)\<in>set before. ascii_case_equal s a \<longrightarrow> ParseLevelName c = None) \<longrightarrow>
      ResolveLevel s (before @ (a, canonicalName) # rest) = Some level)"
  using ResolveLevel_case ResolveLevel_known ResolveLevel_override by blast

theorem level_resolution_witness:
  "ResolveLevel ''oops'' [(''OOPS'', ''Error''), (''oops'', ''Info'')] = Some LvError"
proof -
  have "ascii_case_equal ''oops'' ''OOPS''" by code_simp
  then show ?thesis
    using level_resolution [of "''oops''" "''oops''" "[]" "''Error''" LvError "''OOPS''" "[]"] ParseLevelName_canonical [of LvError]
    by (simp add: CanonicalLevelName_def)
qed

text \<open>The bitset lists its set rows in ascending order, and \<open>Count\<close> is how many there are, so the
  reserve before the extraction is exact.\<close>

theorem bitset_lists_rows:
  assumes "bitset_inv n b"
  shows "CollectInto b out = out @ filter (Test b) [0..<n] \<and> Count b = length (CollectInto b [])"
  using CollectInto_rows [OF assms] Count_rows [OF assms] by blast

theorem bitset_lists_rows_witness: "CollectInto (Set_row 65 (Set_row 3 (new_RowBitset 70))) [] = [3, 65]"
proof -
  let ?b = "Set_row 65 (Set_row 3 (new_RowBitset 70))"
  note one = Set_row [OF bitset_inv_new [of 70], of 3, simplified]
  have inv: "bitset_inv 70 ?b" by (rule Set_row(1) [OF one(1)]) simp
  have "filter (Test ?b) [0..<70] = filter (\<lambda>r. r = 65 \<or> r = 3) [0..<70]"
    using Set_row(2) [OF one(1), of 65] one(2) Test_new by (intro filter_cong) auto
  also have "\<dots> = [3, 65]" by code_simp
  finally show ?thesis using bitset_lists_rows [OF inv, of "[]"] by simp
qed

section \<open>The configuration\<close>

text \<open>\<open>Update\<close> leaves the configured columns as they are, in their order; every key of the data
  that no column has gets one column of its own, a time column for the keys that name a time stamp,
  in front of the old columns, and an untyped one behind them otherwise.\<close>

theorem update_adds_missing_columns:
  assumes "cache_inv m" "distinct (SortedKeys ki)"
  shows "mcolumns (Update ki m) =
    rev (map time_column (filter (\<lambda>k. k \<notin> configured (mcolumns m) \<and> IsTimestampKey k) (SortedKeys ki))) @
    mcolumns m @
    map any_column (filter (\<lambda>k. k \<notin> configured (mcolumns m) \<and> \<not> IsTimestampKey k) (SortedKeys ki))"
  using Update_columns(1) [OF assms(1) refl, of ki] fresh_distinct [OF assms(2), of "configured (mcolumns m)"]
  by (simp add: filter_filter conj_commute comp_def)

definition time_keys :: KeyIndex where
  "time_keys = fold (\<lambda>k ki. snd (GetOrInsert hash0 k ki)) [''TS'', ''n'', ''msg''] empty_KeyIndex"

lemma time_keys_sorted: "SortedKeys time_keys = [''TS'', ''msg'', ''n'']"
  by (simp add: time_keys_def SortedKeys_def GetOrInsert_def probe_def locked_insert_def empty_KeyIndex_def
      ShardIndex_def SHARD_COUNT_def hash0_def)

theorem update_adds_missing_columns_witness:
  "mcolumns (Update time_keys (config_of [sample_column [''n''] CtInteger])) =
    [time_column ''TS'', sample_column [''n''] CtInteger, any_column ''msg'']"
proof -
  let ?m = "config_of [sample_column [''n''] CtInteger]"
  have "cache_inv ?m" by (simp add: cache_inv_def config_of_def SetConfiguration_def)
  moreover have "IsTimestampKey ''TS''" "\<not> IsTimestampKey ''msg''"
    by code_simp+
  ultimately show ?thesis
    using update_adds_missing_columns [of ?m time_keys] by (simp add: time_keys_sorted)
qed

text \<open>C24: Moving a column permutes the columns, and \<open>RemapColumnIndexAfterMove\<close> gives the new place of
  every column; the persisted sort stays on its column, also when \<open>Update\<close> puts time columns in
  front.\<close>

theorem sort_follows_its_column:
  assumes "cache_inv m" "length (mcolumns m) + length (SortedKeys ki) \<le> 2 ^ 31"
    and "src < length (mcolumns m)" "dest < length (mcolumns m)"
  shows "mset (mcolumns (MoveColumn src dest m)) = mset (mcolumns m) \<and>
    (\<forall>i<length (mcolumns m).
      mcolumns (MoveColumn src dest m) ! nat (RemapColumnIndexAfterMove (int i) (int src) (int dest)) = mcolumns m ! i) \<and>
    (sorted_column m \<noteq> None \<longrightarrow>
      sorted_column (MoveColumn src dest m) = sorted_column m \<and> sorted_column (Update ki m) = sorted_column m)"
  using assms MoveColumn_sorted [of m _ src dest] Update_sorted [of m ki]
  by (auto simp: mcolumns_MoveColumn mset_moved nth_moved)

theorem sort_follows_its_column_witness:
  "sorted_column (Update time_keys (SetSort \<lparr>columnIndex = 1, descending = True\<rparr> (config_of sample_columns)))
    = Some (sample_column [''n''] CtInteger)"
proof -
  let ?m = "SetSort \<lparr>columnIndex = 1, descending = True\<rparr> (config_of sample_columns)"
  have "mcolumns ?m = sample_columns" by (simp add: SetSort_def)
  moreover have "cache_inv ?m" by (simp add: cache_inv_def SetSort_def config_of_def SetConfiguration_def)
  moreover have "sorted_column ?m = Some (sample_column [''n''] CtInteger)"
    by (simp add: sorted_column_def Let_def SetSort_def sample_columns_def)
  ultimately show ?thesis
    using sort_follows_its_column [of ?m time_keys 0 1] by (simp add: sample_columns_def time_keys_sorted)
qed

text \<open>\<open>AppendKeys\<close> appends exactly \<open>CountAppendableKeys\<close> columns, one for each key that no column has,
  and leaves the columns and the sort that were there in place.\<close>

theorem appended_columns_counted:
  assumes "cache_inv m"
  shows "take (length (mcolumns m)) (mcolumns (AppendKeys ks m)) = mcolumns m \<and>
    length (mcolumns (AppendKeys ks m)) = length (mcolumns m) + fst (CountAppendableKeys ks m) \<and>
    configured (mcolumns (AppendKeys ks m)) = configured (mcolumns m) \<union> set ks \<and>
    cfgSort (configuration (AppendKeys ks m)) = cfgSort (configuration m)"
proof -
  have "configured (map new_column F) = set F" for F
    by (induction F) auto
  then show ?thesis
    using AppendKeys_columns [OF assms, of ks] CountAppendableKeys_eq [OF assms, of ks]
    by (auto simp: set_fresh)
qed

theorem appended_columns_counted_witness:
  "fst (CountAppendableKeys [''n'', ''x'', ''x''] (config_of sample_columns)) = 1 \<and>
   length (mcolumns (AppendKeys [''n'', ''x'', ''x''] (config_of sample_columns))) = 3"
proof -
  let ?m = "config_of sample_columns"
  have inv: "cache_inv ?m" by (simp add: cache_inv_def config_of_def SetConfiguration_def)
  have "fst (CountAppendableKeys [''n'', ''x'', ''x''] ?m) = 1"
    using inv by (simp add: CountAppendableKeys_eq sample_columns_def)
  then show ?thesis
    using appended_columns_counted [OF inv, of "[''n'', ''x'', ''x'']"] by (simp add: sample_columns_def)
qed

text \<open>C25: Merging another session keeps every value: the own rows stay in front, the other rows follow,
  and each row shows for every key name what it showed before, although its keys have new ids.\<close>

theorem merge_keeps_values:
  assumes "mergeable hash other d"
  shows "length (ldLines (Merge hash other d)) = length (ldLines d) + length (ldLines other) \<and>
    (\<forall>row<length (ldLines d). \<forall>key. field_value hash key (Merge hash other d) row = field_value hash key d row) \<and>
    (\<forall>row<length (ldLines other). \<forall>key.
      field_value hash key (Merge hash other d) (length (ldLines d) + row) = field_value hash key other row)"
  using Merge_values [OF assms] by (simp add: Merge_length)

definition data_ok_n :: LogData where
  "data_ok_n = LogData_of (Some \<lparr>impl = FileSource (new_LogFile ''a''), mEnumDictionaries = None\<rparr>)
     [LogLine_compact [(0, MakeBool True), (1, MakeInt64 5)] 0] sample_keys"

definition data_n :: LogData where
  "data_n = LogData_of (Some \<lparr>impl = FileSource (new_LogFile ''b''), mEnumDictionaries = None\<rparr>)
     [LogLine_compact [(0, MakeInt64 7)] 0] (snd (GetOrInsert hash0 ''n'' empty_KeyIndex))"

lemmas index_defs = GetOrInsert_def probe_def locked_insert_def empty_KeyIndex_def ShardIndex_def SHARD_COUNT_def
  hash0_def

lemma merge_indices:
  "reverse_keys (snd (GetOrInsert hash0 ''n'' empty_KeyIndex)) = [''n'']" "reverse_keys sample_keys = [''ok'', ''n'']"
  "key_inv hash0 (snd (GetOrInsert hash0 ''n'' empty_KeyIndex))" "key_inv hash0 sample_keys"
proof -
  show "reverse_keys (snd (GetOrInsert hash0 ''n'' empty_KeyIndex)) = [''n'']" "reverse_keys sample_keys = [''ok'', ''n'']"
    by (simp_all add: sample_keys_def index_defs)
  show "key_inv hash0 (snd (GetOrInsert hash0 ''n'' empty_KeyIndex))"
    by (rule key_inv_GetOrInsert [OF key_inv_empty]) (simp add: key_room_def empty_KeyIndex_def)
  have "reverse_keys (snd (GetOrInsert hash0 ''ok'' empty_KeyIndex)) = [''ok'']" by (simp add: index_defs)
  then show "key_inv hash0 sample_keys"
    unfolding sample_keys_def
    by (intro keys.inv_inserts [OF key_inv_empty]) (simp add: key_room_def empty_KeyIndex_def)
qed

theorem merge_keeps_values_witness:
  "field_value hash0 ''n'' (Merge hash0 data_n data_ok_n) 1 = field_value hash0 ''n'' data_n 0"
proof -
  have "mergeable hash0 data_n data_ok_n"
    using merge_indices
    by (simp add: mergeable_def data_inv_def no_dict_refs_def line_of_def data_n_def data_ok_n_def LogData_of_def
        LogLine_compact_def AssignSorted_def Let_def sorted_fields_def slot_defs key_room_def KeyOf_def)
  from merge_keeps_values [OF this] show ?thesis by (simp add: data_n_def data_ok_n_def LogData_of_def)
qed

section \<open>Enumeration columns\<close>

text \<open>
  A stream with the lines 1 and 2: the first row holds a reference to \<open>PUT\<close>, the second, of the
  next batch, still its text.
\<close>

definition sample_detector :: EnumTable where
  "sample_detector =
     \<lparr>tbl = \<lparr>mRows = [(LogLine_compact [(0, MakeDictRef 1)] 1, 0), (LogLine_compact [(0, MakeOwnedString 0 2)] 2, 0)],
         mSources = [\<lparr>impl = StreamSource sample_stream, mEnumDictionaries = Some sample_registry\<rparr>],
         mKeys = sample_keys, mConfiguration = config_of [sample_column [''ok''] CtEnumeration],
         mColumnKeyIds = [[0]], tEnumDictionaries = sample_registry, mLevelRankCache = Map.empty\<rparr>,
       mEnumValueCap = 64, mEnumValueMaxLen = 64, mEnumTrackers = Map.empty, mEnumColumnHealth = Map.empty,
       mIsStreaming = True, mLastBatchDemotedKeys = [], mPendingLevelBubbleKeys = []\<rparr>"

lemma sample_registry_inv: "reg_inv sample_registry"
proof -
  have "dict_inv sample_dict_grown" unfolding sample_dict_grown_def by (rule dict_inv_Insert [OF sample_dict_inv])
  then show ?thesis by (auto simp: reg_inv_def sample_registry_def split: if_splits)
qed

lemma sample_registry_find: "reg_Find sample_registry k = (if k = 0 then Some sample_dict_grown else None)"
  by (simp add: reg_Find_def sample_registry_def)

lemma sample_arena:
  "source_arena \<lparr>impl = StreamSource sample_stream, mEnumDictionaries = e\<rparr> 1 = Some ''xx''"
  "source_arena \<lparr>impl = StreamSource sample_stream, mEnumDictionaries = e\<rparr> 2 = Some ''yy''"
  by (simp_all add: source_arena_def stream_arena_def sample_stream_def AppendLine_def new_StreamLineSource_def
      LineIsLive_def IndexFor_def)

lemma sample_detector_inv: "detector_inv (env_externals sample_env) sample_detector" "live sample_detector"
proof -
  let ?src = "\<lparr>impl = StreamSource sample_stream, mEnumDictionaries = Some sample_registry\<rparr>"
  let ?t = "tbl sample_detector" and ?ex = "env_externals sample_env"
  have inv: "source_inv ?src" using sample_stream_inv(1) by (simp add: source_inv_def)
  have lines: "line_fine sample_registry ?src (LogLine_compact [(0, MakeDictRef 1)] 1)"
    "line_fine sample_registry ?src (LogLine_compact [(0, MakeOwnedString 0 2)] 2)"
    by (auto simp: line_fine_def slot_fine_def slot_ok_def FindCompact_def LogLine_compact_def AssignSorted_def
        sorted_fields_def Let_def slot_defs sample_registry_find sample_dict_grown_values sample_arena split: if_splits)
  have "table_fine ?t"
    using sample_registry_inv inv lines
    by (auto simp: table_fine_def rows_fine_def sample_detector_def short_texts_def sample_registry_find sample_dict_grown_values
        split: if_splits)
  moreover have "columns_inv ?ex ?t"
  proof -
    have "base_inv ?ex ?t"
      using merge_indices(2,4) sample_keys_probe
      by (auto simp: base_inv_def key_budget_def own_def sample_detector_def sample_env_def sample_registry_def card_insert_if
          split: if_splits)
    moreover have "registered ?ex ?t [''ok'']"
      using sample_keys_probe by (simp add: registered_def sample_detector_def sample_env_def sample_registry_def)
    ultimately show ?thesis by (simp add: columns_inv_def sample_detector_def)
  qed
  ultimately show "detector_inv ?ex sample_detector" by (simp add: detector_inv_def)
  show "live sample_detector"
    using sample_arena(1) [of "Some sample_registry"]
    by (simp add: live_def rows_live_def sample_detector_def sample_arena LogLine_compact_def)
qed

text \<open>C26: the pass of the enumeration detector over a batch (encoding of active columns, promotion,
  demotion and bail-out of candidates, in whatever mix the data asks for) returns when the lines of
  all rows are live, keeps the registry, the columns and their keys consistent, and leaves the value
  that every cell shows as it was, as long as no text arena outgrows its 63-bit offsets.\<close>

theorem enum_pass_keeps_cells:
  assumes "detector_inv ex T" "live T"
  shows "\<exists>T' b'. RunEnumPassForAppendBatch ex oldLineCount (T, b) = Some (T', b') \<and> columns_inv ex (tbl T') \<and>
    length (ecolumns T') = length (ecolumns T) \<and> (arenas_fit T' \<longrightarrow> detector_inv ex T' \<and> same_display T T')"
  using safe_display [OF _ assms, of fst "RunEnumPassForAppendBatch ex oldLineCount (T, b)"]
    safe_pass [of ex "(T, b)"] detector_ready [OF assms(1)] by (metis fst_conv surj_pair)

theorem enum_pass_keeps_cells_witness:
  "\<exists>T' b'. RunEnumPassForAppendBatch (env_externals sample_env) 1 (sample_detector, (None, None)) = Some (T', b') \<and>
     columns_inv (env_externals sample_env) (tbl T') \<and> length (ecolumns T') = 1"
  using enum_pass_keeps_cells [OF sample_detector_inv, of 1 "(None, None)"] by (auto simp: sample_detector_def)

text \<open>C27: the sweep at the end of a stream or a file always comes to its end when the lines are live:
  no tracker is left, the table has left its streaming mode, and the cells show what they showed.\<close>

theorem final_sweep_returns:
  assumes "detector_inv ex T" "live T"
  shows "\<exists>T' promoted. FinalizeAutoDetection ex T = Some (T', promoted) \<and> mEnumTrackers T' = Map.empty \<and>
    \<not> mIsStreaming T' \<and> columns_inv ex (tbl T') \<and> (arenas_fit T' \<longrightarrow> detector_inv ex T' \<and> same_display T T')"
  using safe_display [OF _ assms, of fst "FinalizeAutoDetection ex T"]
    safe_finalize [OF detector_ready [OF assms(1)]] finalized [of ex T] by (metis prod.collapse)

theorem final_sweep_returns_witness:
  "\<exists>T' promoted. FinalizeAutoDetection (env_externals sample_env) sample_detector = Some (T', promoted) \<and> \<not> mIsStreaming T'"
  using final_sweep_returns [OF sample_detector_inv] by blast

text \<open>C28: a demoted column is a string column whose dictionary is gone: every reference to it has been
  replaced by the text it stood for, so no row refers to it any more and every cell shows the same.\<close>

theorem demotion_leaves_text:
  assumes "detector_inv ex T" "live T" "i < length (ecolumns T)"
    and "ctype (ecolumns T ! i) = CtEnumeration \<or> ctype (ecolumns T ! i) = CtLevel"
    and "k \<in> set (known_ids ex (tbl T) (keys (ecolumns T ! i)))"
  shows "\<exists>T'. DemoteColumnFromEnum ex i recordForBatch T = Some T' \<and> ctype (ecolumns T' ! i) = CtString \<and>
    reg_Find (tEnumDictionaries (tbl T')) k = None \<and>
    (arenas_fit T' \<longrightarrow> same_display T T' \<and> (\<forall>(line, s)\<in>set (mRows (tbl T')). \<not> IsDictRef k line))"
proof -
  have "safe ex T (map_option id (DemoteColumnFromEnum ex i recordForBatch T))"
    using safe_demote [OF detector_ready [OF assms(1)]] by (simp add: option.map_id)
  then obtain T' where T': "DemoteColumnFromEnum ex i recordForBatch T = Some T'" "arenas_fit T' \<longrightarrow> same_display T T'"
    by (rule safe_display [OF _ assms(1,2)]) auto
  show ?thesis using T' demoted_column [OF assms(1,3,4) T'(1) assms(5)] by blast
qed

theorem demotion_leaves_text_witness:
  "\<exists>T'. DemoteColumnFromEnum (env_externals sample_env) 0 True sample_detector = Some T' \<and>
     ctype (ecolumns T' ! 0) = CtString \<and> reg_Find (tEnumDictionaries (tbl T')) 0 = None"
  using demotion_leaves_text [OF sample_detector_inv, of 0 0 True] sample_keys_probe(1) sample_detector_inv(1)
  by (auto simp: set_known_ids own_def sample_detector_def sample_env_def detector_inv_def columns_inv_def base_inv_def)

text \<open>C29: the evidence on a candidate column is sound: after a scan the tracker's values are distinct
  and within the cap, its counters add up to no more than the present slots, and unless it gave up its
  values are exactly the short texts of the first rows of the batch, as many as it has counted.\<close>

theorem candidate_values_are_row_texts:
  "tracker_inv (scan_rows enough ks src rows (new_Tracker cap maxLen)) \<and>
   trCap (scan_rows enough ks src rows (new_Tracker cap maxLen)) = cap \<and>
   rowsObserved (scan_rows enough ks src rows (new_Tracker cap maxLen)) \<le> length rows \<and>
   (killed (scan_rows enough ks src rows (new_Tracker cap maxLen)) \<or>
    set (trValues (scan_rows enough ks src rows (new_Tracker cap maxLen))) =
      short_row_texts maxLen ks src (take (rowsObserved (scan_rows enough ks src rows (new_Tracker cap maxLen))) rows))"
proof -
  let ?tr = "scan_rows enough ks src rows (new_Tracker cap maxLen)"
  have "tracker_inv ?tr \<and> trMaxLen ?tr = maxLen \<and> trCap ?tr = cap \<and> (\<exists>n\<le>length rows. rowsObserved ?tr = n \<and>
      (\<not> killed ?tr \<longrightarrow> trSeen ?tr = short_row_texts maxLen ks src (take n rows)))"
    using scan_rows_invariant [of enough ks src rows "new_Tracker cap maxLen" ?tr "[]"] tracker_inv_new [of cap maxLen]
    by (simp add: new_Tracker_def short_row_texts_def)
  then show ?thesis by (auto simp: tracker_inv_def)
qed

section \<open>Comparing, sorting and counting rows\<close>

lemma sample_compare:
  "CompareRows ex sample_table 0 1 1 None = -1" "CompareRows ex sample_table 1 2 1 None = -1"
proof -
  have [simp]: "ctype (tcolumns sample_table ! Suc 0) = CtInteger" "length (tcolumns sample_table) = 2"
    by (simp_all add: sample_table_def sample_columns_def)
  show "CompareRows ex sample_table 0 1 1 None = -1" "CompareRows ex sample_table 1 2 1 None = -1"
    using sample_cells by (simp_all add: CompareRows_def CompareInteger_def CompareTyped_def toInt_def ThreeWay_def)
qed

lemma sample_enum_known:
  assumes "GetEnumValueId (tbl sample_detector) row 0 = Some vid"
  shows "RankOf (make_EnumDictRank sample_dict_grown) vid < DictSize (make_EnumDictRank sample_dict_grown)"
proof (rule RankOf_known)
  show "dict_inv sample_dict_grown" unfolding sample_dict_grown_def by (rule dict_inv_Insert [OF sample_dict_inv])
  have "row < 2" using assms by (simp add: GetEnumValueId_def out_of_table_def sample_detector_def split: if_splits)
  then have "row = 0 \<or> row = 1" by auto
  then have "vid = 1"
    using assms by (auto simp: GetEnumValueId_def out_of_table_def sample_detector_def LogLine_compact_def AssignSorted_def
      line_GetEnumValueId_def FindCompact_def INVALID_KEY_ID_def slot_defs Let_def split: if_splits)
  then show "unat vid < length (mValues sample_dict_grown)" by (simp add: sample_dict_grown_values)
qed

text \<open>C30: the comparison of rows is consistent for every column type, also for NaN, absent values, texts in
  numeric columns and values without a level or an id: swapping the rows negates it, and it is transitive.\<close>

theorem rows_compare_consistently:
  assumes "CompareRows ex t a b column rank \<le> 0" "CompareRows ex t b c column rank \<le> 0"
  shows "CompareRows ex t a c column rank \<le> 0 \<and> CompareRows ex t b a column rank = - CompareRows ex t a b column rank"
  by (rule conjI [OF rows.trans [OF assms] rows.flip])

theorem rows_compare_consistently_witness:
  "CompareRows (env_externals sample_env) sample_table 0 2 1 None \<le> 0 \<and>
   CompareRows (env_externals sample_env) sample_table 1 0 1 None = - CompareRows (env_externals sample_env) sample_table 0 1 1 None"
  by (rule rows_compare_consistently) (simp_all add: sample_compare [unfolded One_nat_def])

text \<open>C31: the permutation lists every input position once and sorts the rows by the comparison, ties in
  the order of the input, whether it takes the fast path of an enumeration or level column or the
  generic one, in both directions; of the unstable parallel sort only that it permutes and sorts is
  used, and of a rank table that it knows the ids of the rows.\<close>

theorem sort_permutation_sorts:
  assumes "is_parallel_sort psort"
    and "\<And>r row vid. column < length (tcolumns t) \<Longrightarrow> ctype (tcolumns t ! column) = CtEnumeration \<Longrightarrow> rank = Some r \<Longrightarrow>
      row \<in> set logRows \<Longrightarrow> GetEnumValueId t row column = Some vid \<Longrightarrow> RankOf r vid < DictSize r"
  shows "mset (SortPermutationByColumn psort ex t logRows column ascending rank) = mset [0..<length logRows] \<and>
    sorted_wrt (rows_less ascending ex t logRows column rank) (SortPermutationByColumn psort ex t logRows column ascending rank)"
  by (rule SortPermutationByColumn_sorts [OF assms])

theorem sort_permutation_sorts_witness:
  "mset (SortPermutationByColumn insertion_sort (env_externals sample_env) (tbl sample_detector) [1, 0] 0 True (Some (make_EnumDictRank sample_dict_grown))) = mset [0..<2]"
  using sort_permutation_sorts [where psort = insertion_sort and t = "tbl sample_detector" and logRows = "[1, 0]" and column = 0
      and rank = "Some (make_EnumDictRank sample_dict_grown)" and ex = "env_externals sample_env" and ascending = True, OF is_parallel_sort_insertion]
    sample_enum_known by (auto simp: numeral_2_eq_2)

text \<open>C32: the histogram that is fed row by row, with rows in front of its origin and far behind its end,
  is the table of counts per bucket and level over the dense range from the earliest to the latest row,
  whatever the order in which the rows arrive.\<close>

theorem histogram_counts_rows:
  assumes "mset arrived = mset rs"
  shows "fold (\<lambda>(ts, level). AddRow ts level) arrived (new_Histogram sz) = histogram_of sz rs"
  using AddRows_histogram_of [of arrived sz] histogram_of_perm [OF assms] by simp

theorem histogram_counts_rows_witness:
  "fold (\<lambda>(ts, level). AddRow ts level) [(5000000, LvWarn), (- 1, LvInfo)] (new_Histogram OneSecond) =
   histogram_of OneSecond [(- 1, LvInfo), (5000000, LvWarn)]"
  by (rule histogram_counts_rows) simp



section \<open>The filter view\<close>

text \<open>The table of the sample without and with its last row, newest first, sorted by \<open>n\<close> downwards.\<close>

definition sample_lm :: "nat \<Rightarrow> LogModel" where
  "sample_lm n = \<lparr>lmTable = sample_table\<lparr>mRows := take n sample_rows\<rparr>, dictionaryAddress = (\<lambda>_. 0)\<rparr>"

definition sample_order :: RowOrderProxyModel where
  "sample_order = \<lparr>mReversed = True, roInSourceColumnMove = False\<rparr>"

definition sample_engine :: "nat \<Rightarrow> engine" where
  "sample_engine n =
     \<lparr>eExternals = env_externals sample_env, eParallelism = 1, eLeafScheds = (\<lambda>_. [[0..<n]]), eVisitSched = [[0..<n]],
      eParallelSort = insertion_sort\<rparr>"

definition sample_blank :: "nat \<Rightarrow> LogFilterModel" where
  "sample_blank n = new_LogFilterModel
     \<lparr>mSourceModel := Some (order_source (n, 2) sample_order), mLogModel := Some (sample_lm n),
      mCompiledExpression := make_leaf 0 (PBool 0 True True), mSortColumn := Some 1, mSortAscending := False\<rparr>"

definition sample_view :: "nat \<Rightarrow> LogFilterModel" where
  "sample_view n = rebuilt (sample_engine n) (sample_blank n)"

lemma sample_lm_sizes:
  "n \<le> 3 \<Longrightarrow> RowCount (lmTable (sample_lm n)) = n" "length (model_columns (sample_lm n)) = 2"
  by (simp_all add: sample_lm_def RowCount_def sample_rows_def model_columns_def sample_table_def sample_columns_def)

lemma sample_blank_ok:
  assumes "n \<le> 3"
  shows "connected (sample_blank n)" "engine_ok (sample_engine n) (sample_blank n)" "ranks_known ex (sample_blank n)"
proof -
  show "connected (sample_blank n)"
    by (rule connected_order [where rows = n and columns = 2 and o_model = sample_order and lm = "sample_lm n"])
      (use sample_lm_sizes [of n] assms in \<open>simp_all add: sample_blank_def\<close>)
  show "engine_ok (sample_engine n) (sample_blank n)"
    using sample_lm_sizes(1) [OF assms] is_parallel_sort_insertion
    by (simp add: engine_ok_def sample_engine_def sample_blank_def valid_schedule_def consistent_def make_leaf_def)
  show "ranks_known ex (sample_blank n)"
    by (simp add: ranks_known_def sample_blank_def sort_rank_def model_columns_def sample_lm_def sample_table_def sample_columns_def)
qed

lemma sample_view_ok:
  assumes "n \<le> 3"
  shows "shows_rows_in_order (env_externals sample_env) (sample_view n)" "engine_ok (sample_engine n) (sample_view n)"
    "ranks_known (env_externals sample_env) (sample_view n)" "mSourceModel (sample_view n) = Some (order_source (n, 2) sample_order)"
    "mLogModel (sample_view n) = Some (sample_lm n)" "mCompiledExpression (sample_view n) = make_leaf 0 (PBool 0 True True)"
    "mSortColumn (sample_view n) = Some 1"
proof -
  have src: "mSourceModel (sample_blank n) = Some (order_source (n, 2) sample_order)" by (simp add: sample_blank_def)
  have ex: "eExternals (sample_engine n) = env_externals sample_env" by (simp add: sample_engine_def)
  from rebuilt_shows [OF sample_blank_ok(1,2) [OF assms] sample_blank_ok(3) [OF assms] src]
  have r: "agrees (env_externals sample_env) (sample_blank n) (sample_view n)" "shows_rows_in_order (env_externals sample_env) (sample_view n)"
    by (simp_all add: ex sample_view_def)
  show "shows_rows_in_order (env_externals sample_env) (sample_view n)" by (rule r(2))
  show "engine_ok (sample_engine n) (sample_view n)" "ranks_known (env_externals sample_env) (sample_view n)"
    using agrees_conditions(2,3) [of "sample_engine n" "sample_blank n" "sample_view n"] r(1) sample_blank_ok [OF assms] ex by simp_all
  show "mSourceModel (sample_view n) = Some (order_source (n, 2) sample_order)" "mLogModel (sample_view n) = Some (sample_lm n)"
    "mCompiledExpression (sample_view n) = make_leaf 0 (PBool 0 True True)" "mSortColumn (sample_view n) = Some 1"
    using r(1) by (simp_all add: agrees_def sample_blank_def)
qed

lemma sample_view_row:
  "1 < source_rowCount (sample_view 3)" "MatchesRulesAtSourceRow (env_externals sample_env) (sample_view 3) 1"
proof -
  note v = sample_view_ok [of 3, OF order_refl] and sizes = sample_lm_sizes(1) [of 3, OF order_refl] sample_lm_sizes(2) [of 3]
  show "1 < source_rowCount (sample_view 3)" by (simp add: source_rowCount_def v order_source_def)
  have "SourceRowToLogRow (sample_view 3) 1 = Some 1"
    by (subst order_rows(1) [OF v(4,5) _ sizes [symmetric]]) (simp_all add: order_to_eq sample_order_def)
  moreover have "lmTable (sample_lm 3) = sample_table" by (simp add: sample_lm_def sample_rows_def sample_table_def)
  ultimately show "MatchesRulesAtSourceRow (env_externals sample_env) (sample_view 3) 1"
    using sample_cells [unfolded One_nat_def]
    by (simp add: MatchesRulesAtSourceRow_def v make_leaf_def MatchesRow_def match_bool_def present_def)
qed







text \<open>C37: the newest-first toggle, passed from the layer to the filter view by their layout signals, moves
  every persistent index of the view to the row that shows the same row of the log.\<close>

theorem toggle_keeps_selection:
  assumes "mSourceModel m = Some (order_source (rows, columns) o_model)" "mLogModel m = Some lm" "0 < columns"
      "rows = RowCount (lmTable lm)" "columns = length (model_columns lm)"
    and "engine_ok e m" "ranks_known (eExternals e) m" "shows_rows_in_order (eExternals e) m" "raw \<noteq> []"
  shows "\<exists>replacements.
    emitted (toggle e raw (rows, columns) o_model m) = emitted m @ [LayoutAboutToBeChanged, ChangePersistentIndexList raw replacements, LayoutChanged] \<and>
    length replacements = length raw \<and>
    (\<forall>i<length raw. \<forall>row col. raw ! i = Some (row, col) \<and> row < view_rowCount m \<longrightarrow>
      (\<exists>p<view_rowCount (toggle e raw (rows, columns) o_model m). replacements ! i = Some (p, col) \<and>
         SourceRowToLogRow (toggle e raw (rows, columns) o_model m) (mAcceptedSourceRows (toggle e raw (rows, columns) o_model m) ! p) =
         SourceRowToLogRow m (mAcceptedSourceRows m ! row)))"
  by (rule toggle_keeps_rows [OF assms])

theorem toggle_keeps_selection_witness:
  "\<exists>replacements. emitted (toggle (sample_engine 3) [Some (0, 1)] (3, 2) sample_order (sample_view 3)) =
     emitted (sample_view 3) @ [LayoutAboutToBeChanged, ChangePersistentIndexList [Some (0, 1)] replacements, LayoutChanged]"
proof -
  have ex: "eExternals (sample_engine 3) = env_externals sample_env" by (simp add: sample_engine_def)
  note v = sample_view_ok [of 3, OF order_refl] and sizes = sample_lm_sizes(1) [of 3, OF order_refl] sample_lm_sizes(2) [of 3]
  have "(0 :: nat) < 2" "[Some (0 :: nat, 1 :: nat)] \<noteq> []" by simp_all
  from toggle_keeps_selection [OF v(4,5) this(1) sizes [symmetric] v(2) v(3) [folded ex] v(1) [folded ex] this(2)]
  show ?thesis by (elim exE conjE, intro exI)
qed

text \<open>C38: after a rebuild the two mappings of the view invert each other: every row of the view maps to
  an accepted row of the source and back, and the rows that the filter rejects have no index.\<close>

theorem view_maps_back:
  assumes "connected m" "engine_ok e m" "ranks_known (eExternals e) m" "mSourceModel m = Some src"
  shows "(p < view_rowCount (RebuildAcceptedRows e raw m) \<longrightarrow>
      mapFromSource (mapToSource (Some (p, c)) (RebuildAcceptedRows e raw m)) (RebuildAcceptedRows e raw m) = Some (p, c)) \<and>
    (case mapFromSource (Some (s, c)) (RebuildAcceptedRows e raw m) of
       None \<Rightarrow> \<not> (s < source_rowCount m \<and> MatchesRulesAtSourceRow (eExternals e) m s)
     | Some q \<Rightarrow> mapToSource (Some q) (RebuildAcceptedRows e raw m) = Some (s, c) \<and> MatchesRulesAtSourceRow (eExternals e) m s)"
  using rebuilt_maps_back [OF Rebuild_shows [OF assms]] assms(4) by blast

theorem view_maps_back_witness:
  "\<exists>q. mapFromSource (Some (1, 1)) (RebuildAcceptedRows (sample_engine 3) [] (sample_view 3)) = Some q \<and>
     mapToSource (Some q) (RebuildAcceptedRows (sample_engine 3) [] (sample_view 3)) = Some (1, 1)"
proof -
  note v = sample_view_ok [of 3, OF order_refl]
  have con: "connected (sample_view 3)"
    by (rule connected_order [OF v(4,5)]) (simp_all add: sample_lm_sizes)
  have ex: "eExternals (sample_engine 3) = env_externals sample_env" by (simp add: sample_engine_def)
  from view_maps_back [OF con v(2) v(3) [folded ex] v(4), of 0 "[]" 1 1] sample_view_row
  show ?thesis unfolding ex by (auto split: option.splits)
qed

text \<open>C39: a search that wraps visits every row once, from the start row forwards or backwards; it finds
  for each row that has one the first matching visible cell from the start column on, in this order,
  and stops after the number of hits that was asked for.\<close>

theorem search_finds_matching_rows:
  assumes "fst start < view_rowCount m" "flags AND MatchWrap = MatchWrap" "hits \<noteq> Some 0"
  shows "MatchRow q ex m start role sought hits flags forward 0 =
    (case hits of None \<Rightarrow> id | Some n \<Rightarrow> take n)
      (List.map_filter (matching_cell q ex m role sought flags (snd start))
        (if forward then [fst start..<view_rowCount m] @ [0..<fst start]
         else rev [0..<fst start + 1] @ rev [fst start + 1..<view_rowCount m]))"
  by (cases forward) (simp_all only: MatchRow_finds [OF assms(3)] forward_wrap [OF assms(1)] backward_wrap [OF assms(1)]
      assms(2) if_True if_False simp_thms)

definition sample_qt :: "QString qt" where
  "sample_qt = \<lparr>toString = id, itemData = (\<lambda>row _ _. [word_of_nat row]), hasMatch = (\<lambda>_ _. False),
     wildcardToRegularExpression = id, ConvertToSingleLineCompactQString = map (\<lambda>c. word_of_nat (of_char c))\<rparr>"

definition sample_grid :: LogFilterModel where
  "sample_grid = new_LogFilterModel
     \<lparr>mSourceModel := Some \<lparr>sourceRows = 3, sourceColumns = 1, proxyChain = [], endsAtLogModel = False\<rparr>, mAcceptedSourceRows := [0, 1, 2]\<rparr>"

theorem search_finds_matching_rows_witness:
  "MatchRow sample_qt (env_externals sample_env) sample_grid (2, 0) DisplayRole [1] (Some 1) MatchWrap True 0 = [(1, 0)]"
  using search_finds_matching_rows [of "(2, 0)" sample_grid MatchWrap "Some 1" sample_qt "env_externals sample_env" DisplayRole "[1]" True]
  by (simp add: sample_grid_def view_rowCount_def matching_cell_def view_columnCount_def column_hidden_def new_LogFilterModel_def
      probeCell_def Matches_def match_flags MATCH_TYPE_MASK_def sample_qt_def map_filter_simps upt_rec)

section \<open>Batches of a stream\<close>

text \<open>C40: a batch whose lines are sound and whose keys are interned is always appended: the table then has
  exactly the rows and columns that the preview announced, its columns and their keys are consistent,
  and in every column that is not a time column each cell shows what the extended table shows, as
  long as no text arena outgrows its 63-bit offsets; only time columns are rewritten.\<close>

theorem batch_grows_as_announced:
  assumes "detector_inv ex (detector S)" "live (detector S)" "cache_inv (mConfiguration (stbl S))" "batch_fits src batch S"
  shows "\<exists>S'. Table_AppendBatch ex dl src batch S = Some S' \<and>
    (length (mRows (stbl S')), length (tcolumns (stbl S'))) = fst (PreviewAppend batch S) \<and>
    columns_inv ex (stbl S') \<and> live (detector S') \<and>
    (arenas_fit (detector S') \<longrightarrow> detector_inv ex (detector S') \<and>
      (\<forall>row c. c < length (tcolumns (stbl (batch_extended ex src batch S))) \<longrightarrow>
         ctype (tcolumns (stbl (batch_extended ex src batch S)) ! c) \<noteq> CtTime \<longrightarrow>
         same_value (GetValue (stbl S') row c) (GetValue (stbl (batch_extended ex src batch S)) row c)))"
  by (rule AppendBatch_correct [OF assms, of dl]) blast

definition sample_session :: StreamTable where
  "sample_session =
     \<lparr>detector = sample_detector, mStageBSnapshotTimeKeys = {}, mPostSnapshotTimeKeys = {}, mLastBackfillRange = None,
      mTimestampsAlreadyParsed = True\<rparr>"

definition sample_batch :: StreamedBatch where
  "sample_batch = empty_batch\<lparr>bLines := [LogLine_compact [(1, MakeInt64 5)] 2], bNewKeys := [''n'']\<rparr>"

lemma sample_batch_fits:
  "batch_fits 0 sample_batch sample_session" "cache_inv (mConfiguration (stbl sample_session))"
proof -
  have "''n'' \<in> set (reverse_keys sample_keys)"
    using sample_keys_probe(2) merge_indices by (auto simp: sample_keys_def)
  then show "batch_fits 0 sample_batch sample_session"
    by (auto simp: batch_fits_def sample_batch_def empty_batch_def sample_session_def sample_detector_def line_fine_def slot_fine_def
        slot_ok_def FindCompact_def LogLine_compact_def AssignSorted_def sorted_fields_def sample_arena slot_defs Let_def
        split: if_splits)
  show "cache_inv (mConfiguration (stbl sample_session))"
    by (simp add: cache_inv_def sample_session_def sample_detector_def config_of_def SetConfiguration_def)
qed

theorem batch_grows_as_announced_witness:
  "\<exists>S'. Table_AppendBatch (env_externals sample_env) sample_dates 0 sample_batch sample_session = Some S' \<and>
     (length (mRows (stbl S')), length (tcolumns (stbl S'))) = fst (PreviewAppend sample_batch sample_session)"
  using batch_grows_as_announced [of "env_externals sample_env" sample_session 0 sample_batch] sample_detector_inv sample_batch_fits
  by (simp add: sample_session_def) blast
end
